(* ===== verification/Prelude.thy ===== *)
theory Prelude
  imports Main "HOL-Library.Word" "HOL-Library.List_Lexorder" "HOL-Library.Char_ord"
begin

text \<open>
  What every component of the development shares.

  \<^item> \<open>byte\<close> is \<open>u8\<close>. A Rust \<open>String\<close> is a \<open>string\<close> whose characters are its UTF-8
    bytes, so \<open>length\<close> is \<open>str::len\<close> and \<open>as_bytes\<close> is \<open>str::as_bytes\<close>.
  \<^item> A table of the embedded SQLite database is the list of its rows, oldest row first.
    The statements of the source are translated clause by clause into the operations
    below: \<open>INSERT OR IGNORE\<close>, \<open>INSERT .. ON CONFLICT DO UPDATE\<close>, \<open>UPDATE .. WHERE\<close>,
    \<open>DELETE .. WHERE\<close>, each with the number of rows it changed.
  \<^item> The lemmas on these operations that the component proofs use are collected in
    \<open>sql\<close> (rewrite rules) and declared as simp or intro rules where that is safe.
\<close>

named_theorems sql "rewrite rules of the table operations"

type_synonym byte = "8 word"

subsection \<open>Bytes of a string\<close>

definition byte_of :: "char \<Rightarrow> byte" where
  "byte_of c = of_nat (of_char c :: nat)"

definition as_bytes :: "string \<Rightarrow> byte list" where
  "as_bytes s = map byte_of s"

lemma unat_byte_of: "unat (byte_of c) = of_char c"
proof -
  have "(of_char c :: nat) < 256" by simp
  then show ?thesis by (simp add: byte_of_def unat_of_nat)
qed

lemma byte_of_inject [simp]: "byte_of c = byte_of d \<longleftrightarrow> c = d"
  by (metis unat_byte_of of_char_eq_iff)

lemma inj_byte_of: "inj byte_of"
  by (simp add: inj_def)

lemma as_bytes_inject [simp]: "as_bytes s = as_bytes t \<longleftrightarrow> s = t"
  by (simp add: as_bytes_def inj_map_eq_map inj_byte_of)

lemma length_as_bytes [simp]: "length (as_bytes s) = length s"
  by (simp add: as_bytes_def)

lemma as_bytes_append [simp]: "as_bytes (s @ t) = as_bytes s @ as_bytes t"
  by (simp add: as_bytes_def)

subsection \<open>Results\<close>

lemma map_sum_Inr [simp]: "map_sum f g s = Inr y \<longleftrightarrow> (\<exists>x. s = Inr x \<and> y = g x)"
  by (cases s) auto

lemma map_sum_Inl [simp]: "map_sum f g s = Inl y \<longleftrightarrow> (\<exists>x. s = Inl x \<and> y = f x)"
  by (cases s) auto

subsection \<open>Tables\<close>

text \<open>
  \<open>insert_or_ignore key r t\<close> is \<open>INSERT OR IGNORE\<close> into a table whose primary key (or unique
  column) is read by \<open>key\<close>; \<open>insert_changes\<close> is the number of rows the statement reports.
\<close>

definition insert_or_ignore :: "('r \<Rightarrow> 'k) \<Rightarrow> 'r \<Rightarrow> 'r list \<Rightarrow> 'r list" where
  "insert_or_ignore key r t = (if \<exists>x \<in> set t. key x = key r then t else t @ [r])"

definition insert_changes :: "('r \<Rightarrow> 'k) \<Rightarrow> 'r \<Rightarrow> 'r list \<Rightarrow> nat" where
  "insert_changes key r t = (if \<exists>x \<in> set t. key x = key r then 0 else 1)"

definition delete_where :: "('r \<Rightarrow> bool) \<Rightarrow> 'r list \<Rightarrow> 'r list" where
  "delete_where P t = filter (\<lambda>r. \<not> P r) t"

definition update_where :: "('r \<Rightarrow> bool) \<Rightarrow> ('r \<Rightarrow> 'r) \<Rightarrow> 'r list \<Rightarrow> 'r list" where
  "update_where P f t = map (\<lambda>r. if P r then f r else r) t"

definition count_where :: "('r \<Rightarrow> bool) \<Rightarrow> 'r list \<Rightarrow> nat" where
  "count_where P t = length (filter P t)"

text \<open>\<open>INSERT .. ON CONFLICT(key) DO UPDATE\<close>: the conflicting row is rewritten by \<open>f\<close>.\<close>

definition upsert :: "('r \<Rightarrow> 'k) \<Rightarrow> 'r \<Rightarrow> ('r \<Rightarrow> 'r) \<Rightarrow> 'r list \<Rightarrow> 'r list" where
  "upsert key r f t =
     (if \<exists>x \<in> set t. key x = key r then update_where (\<lambda>x. key x = key r) f t else t @ [r])"

text \<open>\<open>SELECT .. WHERE P LIMIT 1\<close>: the first row that matches, if any.\<close>

definition select_first :: "('r \<Rightarrow> bool) \<Rightarrow> 'r list \<Rightarrow> 'r option" where
  "select_first P t = List.find P t"

lemma set_insert_or_ignore:
  "set (insert_or_ignore key r t) =
    (if \<exists>x \<in> set t. key x = key r then set t else insert r (set t))"
  by (simp add: insert_or_ignore_def)

lemma keys_insert_or_ignore [sql]:
  "key ` set (insert_or_ignore key r t) = insert (key r) (key ` set t)"
proof (cases "\<exists>x \<in> set t. key x = key r")
  case True
  then have "key r \<in> key ` set t" by (metis imageI)
  with True show ?thesis by (simp add: insert_or_ignore_def insert_absorb)
next
  case False
  then show ?thesis by (simp add: insert_or_ignore_def)
qed

lemma keys_upsert [sql]:
  assumes "\<And>x. key x = key r \<Longrightarrow> key (f x) = key r"
  shows "key ` set (upsert key r f t) = insert (key r) (key ` set t)"
proof (cases "\<exists>x \<in> set t. key x = key r")
  case True
  have "key ` set (update_where (\<lambda>x. key x = key r) f t) =
      (\<lambda>x. key (if key x = key r then f x else x)) ` set t"
    by (simp only: update_where_def set_map image_image)
  also have "\<dots> = key ` set t" by (rule image_cong) (simp_all add: assms)
  finally have "key ` set (update_where (\<lambda>x. key x = key r) f t) = key ` set t" .
  moreover have "key r \<in> key ` set t" using True by (metis imageI)
  ultimately show ?thesis using True by (simp add: upsert_def insert_absorb)
next
  case False
  then show ?thesis by (simp add: upsert_def)
qed

lemma set_delete_where [sql, simp]: "set (delete_where P t) = {r \<in> set t. \<not> P r}"
  by (auto simp: delete_where_def)

lemma set_update_where [sql]: "set (update_where P f t) = (\<lambda>r. if P r then f r else r) ` set t"
  by (auto simp: update_where_def)

lemma all_update_where:
  "(\<forall>r \<in> set (update_where P f t). Q r) \<longleftrightarrow> (\<forall>r \<in> set t. if P r then Q (f r) else Q r)"
  by (auto simp: update_where_def)

lemma distinct_upsert:
  assumes "\<And>x. key x = key r \<Longrightarrow> key (f x) = key r" and "distinct (map key t)"
  shows "distinct (map key (upsert key r f t))"
proof -
  have "map key (update_where (\<lambda>x. key x = key r) f t) = map key t"
    using assms(1) by (simp add: update_where_def)
  with assms(2) show ?thesis by (auto simp: upsert_def)
qed

lemma length_update_where [simp]: "length (update_where P f t) = length t"
  by (simp add: update_where_def)

lemma distinct_insert_or_ignore:
  "distinct (map key t) \<Longrightarrow> distinct (map key (insert_or_ignore key r t))"
  by (auto simp: insert_or_ignore_def)

lemma distinct_delete_where:
  "distinct (map key t) \<Longrightarrow> distinct (map key (delete_where P t))"
  unfolding delete_where_def by (simp add: distinct_map_filter)

lemma map_update_where_key:
  "(\<And>r. r \<in> set t \<Longrightarrow> P r \<Longrightarrow> key (f r) = key r) \<Longrightarrow> map key (update_where P f t) = map key t"
  by (simp add: update_where_def)

lemma insert_or_ignore_idem [simp]:
  "insert_or_ignore key r (insert_or_ignore key r t) = insert_or_ignore key r t"
  by (auto simp: insert_or_ignore_def)

lemma delete_where_idem [simp]: "delete_where P (delete_where P t) = delete_where P t"
  by (simp add: delete_where_def)

lemma update_where_none: "\<forall>r \<in> set t. \<not> P r \<Longrightarrow> update_where P f t = t"
  by (simp add: update_where_def map_idI)

lemma update_where_append [sql]: "update_where P f (t @ u) = update_where P f t @ update_where P f u"
  by (simp add: update_where_def)

lemma delete_where_none: "(\<And>r. r \<in> set t \<Longrightarrow> \<not> P r) \<Longrightarrow> delete_where P t = t"
  by (simp add: delete_where_def)

lemma count_where_0 [simp]: "count_where P t = 0 \<longleftrightarrow> (\<forall>r \<in> set t. \<not> P r)"
  by (auto simp: count_where_def filter_empty_conv)

lemma count_where_pos [simp]: "0 < count_where P t \<longleftrightarrow> (\<exists>r \<in> set t. P r)"
proof -
  have "0 < count_where P t \<longleftrightarrow> count_where P t \<noteq> 0" by (rule neq0_conv[symmetric])
  then show ?thesis by simp
qed

lemma select_first_Some: "select_first P t = Some r \<Longrightarrow> r \<in> set t \<and> P r"
  by (auto simp: select_first_def find_Some_iff)

lemma select_first_None: "select_first P t = None \<longleftrightarrow> (\<forall>r \<in> set t. \<not> P r)"
  by (auto simp: select_first_def find_None_iff)

lemma select_first_unique:
  assumes "distinct (map key t)" and "r \<in> set t" and "key r = k"
  shows "select_first (\<lambda>x. key x = k) t = Some r"
proof (cases "select_first (\<lambda>x. key x = k) t")
  case None
  with assms show ?thesis by (auto simp: select_first_None)
next
  case (Some x)
  then have "x \<in> set t" and "key x = k" by (auto dest: select_first_Some)
  with assms have "x = r" by (metis inj_on_eq_iff distinct_map)
  with Some show ?thesis by simp
qed

subsection \<open>One column of a keyed table\<close>

text \<open>\<open>column g f n t\<close> is the set a query \<open>SELECT f FROM t WHERE g = n\<close> returns.\<close>

definition column :: "('r \<Rightarrow> 'n) \<Rightarrow> ('r \<Rightarrow> 'h) \<Rightarrow> 'n \<Rightarrow> 'r list \<Rightarrow> 'h set" where
  "column g f n t = f ` {r \<in> set t. g r = n}"

lemma column_iff: "h \<in> column g f n t \<longleftrightarrow> (\<exists>r \<in> set t. g r = n \<and> f r = h)"
  by (auto simp: column_def)

lemma column_Nil [simp]: "column g f n [] = {}"
  by (simp add: column_def)

lemma column_insert [sql]:
  assumes "\<And>x. key x = (g x, f x)"
  shows "column g f n (insert_or_ignore key r t) =
    (if n = g r then insert (f r) (column g f n t) else column g f n t)"
proof (cases "\<exists>x \<in> set t. key x = key r")
  case True
  then have "f r \<in> column g f (g r) t" by (auto simp: assms column_iff)
  with True show ?thesis by (auto simp: insert_or_ignore_def)
next
  case False
  then show ?thesis by (auto simp: insert_or_ignore_def column_def)
qed

lemma column_delete [sql]:
  "column g f n (delete_where (\<lambda>r. g r = m \<and> f r = h) t) =
    (if n = m then column g f n t - {h} else column g f n t)"
  by (auto simp: column_def)

lemma column_count: "count_where (\<lambda>r. g r = n \<and> f r = h) t > 0 \<longleftrightarrow> h \<in> column g f n t"
proof -
  have "count_where (\<lambda>r. g r = n \<and> f r = h) t \<noteq> 0 \<longleftrightarrow> h \<in> column g f n t"
    by (simp add: column_iff)
  then show ?thesis by (simp only: neq0_conv)
qed

subsection \<open>Chunks of bound parameters, \<open>slice::chunks\<close>\<close>

function chunks :: "nat \<Rightarrow> 'a list \<Rightarrow> 'a list list" where
  "chunks n xs = (if xs = [] then [] else if n = 0 then [xs] else take n xs # chunks n (drop n xs))"
  by pat_completeness auto
termination
  by (relation "measure (\<lambda>(n, xs). length xs)") (auto simp: Suc_leI)

declare chunks.simps [simp del]

lemma chunks_Nil [simp]: "chunks n [] = []"
  by (simp add: chunks.simps)

lemma concat_chunks: "concat (chunks n xs) = xs"
proof (induction n xs rule: chunks.induct)
  case (1 n xs)
  then show ?case by (subst chunks.simps) auto
qed

text \<open>Every chunk but the last is full, so the number of bound variables stays below the limit.\<close>

lemma chunks_bound: "0 < n \<Longrightarrow> c \<in> set (chunks n xs) \<Longrightarrow> c \<noteq> [] \<and> length c \<le> n"
proof (induction n xs rule: chunks.induct)
  case (1 n xs)
  then show ?case by (cases "xs = []") (auto simp: chunks.simps[of n xs])
qed

subsection \<open>Searching a string\<close>

definition str_contains :: "string \<Rightarrow> string \<Rightarrow> bool" where
  "str_contains s p = list_ex (\<lambda>i. take (length p) (drop i s) = p) [0..<Suc (length s)]"

text \<open>\<open>str::rsplit_once\<close>: the parts before and after the last occurrence of a character.\<close>

definition rsplit_once :: "char \<Rightarrow> string \<Rightarrow> (string \<times> string) option" where
  "rsplit_once c s =
     (case dropWhile (\<lambda>x. x \<noteq> c) (rev s) of
        [] \<Rightarrow> None
      | _ # w \<Rightarrow> Some (rev w, rev (takeWhile (\<lambda>x. x \<noteq> c) (rev s))))"

lemma rsplit_once_last:
  assumes "c \<notin> set b"
  shows "rsplit_once c (a @ c # b) = Some (a, b)"
proof -
  have "\<forall>x \<in> set (rev b). x \<noteq> c" using assms by auto
  then show ?thesis by (simp add: rsplit_once_def dropWhile_append takeWhile_append)
qed

end
