(* ===== verification/Visibility.thy ===== *)
theory Visibility
  imports Prelude
begin

text \<open>
  The four visibility levels (\<open>spectral-core/src/visibility.rs\<close>), their order, the
  admissibility test \<open>allows\<close>, the two string readings of a stored label (the strict one of
  the graph store and the lenient one of the memory store) and the SQL rank that the memory
  store compares instead of calling \<open>allows\<close>.
\<close>

datatype visibility = Private | Team | Org | Public

text \<open>\<open>#[derive(PartialOrd, Ord)]\<close>: the order is the order of declaration.\<close>

fun declared_at :: "visibility \<Rightarrow> nat" where
  "declared_at Private = 0"
| "declared_at Team = 1"
| "declared_at Org = 2"
| "declared_at Public = 3"

lemma declared_at_inject [simp]: "declared_at v = declared_at w \<longleftrightarrow> v = w"
  by (cases v; cases w) simp_all

instantiation visibility :: linorder
begin

definition less_eq_visibility :: "visibility \<Rightarrow> visibility \<Rightarrow> bool" where
  "less_eq_visibility v w \<longleftrightarrow> declared_at v \<le> declared_at w"

definition less_visibility :: "visibility \<Rightarrow> visibility \<Rightarrow> bool" where
  "less_visibility v w \<longleftrightarrow> declared_at v < declared_at w"

instance
  by standard (auto simp: less_eq_visibility_def less_visibility_def)

end

lemmas visibility_order = less_eq_visibility_def less_visibility_def

text \<open>\<open>Visibility::allows\<close>: \<open>*self >= target\<close>.\<close>

definition allows :: "visibility \<Rightarrow> visibility \<Rightarrow> bool" where
  "allows self target \<longleftrightarrow> self \<ge> target"

subsection \<open>Labels\<close>

text \<open>\<open>visibility_to_str\<close>, the same table in \<open>graph_store.rs\<close> and \<open>brain.rs\<close>.\<close>

fun visibility_to_str :: "visibility \<Rightarrow> string" where
  "visibility_to_str Private = ''private''"
| "visibility_to_str Team = ''team''"
| "visibility_to_str Org = ''org''"
| "visibility_to_str Public = ''public''"

datatype schema_error = InvalidVisibility string | InvalidTimestamp string | BadBlobLength nat

text \<open>\<open>str_to_visibility\<close> of the graph store: an unknown label is a schema error.\<close>

definition str_to_visibility :: "string \<Rightarrow> schema_error + visibility" where
  "str_to_visibility s =
     (if s = ''private'' then Inr Private
      else if s = ''team'' then Inr Team
      else if s = ''org'' then Inr Org
      else if s = ''public'' then Inr Public
      else Inl (InvalidVisibility s))"

text \<open>\<open>str_to_vis\<close> of \<open>brain.rs\<close>: an unknown label reads as \<open>Private\<close>.\<close>

definition str_to_vis :: "string \<Rightarrow> visibility" where
  "str_to_vis s =
     (if s = ''team'' then Team
      else if s = ''org'' then Org
      else if s = ''public'' then Public
      else Private)"

text \<open>\<open>VIS_RANK_SQL\<close>, the \<open>CASE\<close> expression evaluated on a row's label.\<close>

definition vis_rank_sql :: "string \<Rightarrow> int" where
  "vis_rank_sql label =
     (if label = ''team'' then 1 else if label = ''org'' then 2
      else if label = ''public'' then 3 else 0)"

fun visibility_rank :: "visibility \<Rightarrow> int" where
  "visibility_rank Private = 0"
| "visibility_rank Team = 1"
| "visibility_rank Org = 2"
| "visibility_rank Public = 3"

text \<open>
  The predicate \<open>fts_search_scoped\<close> adds to its query: none in a \<open>Private\<close> context,
  \<open>VIS_RANK_SQL >= rank\<close> otherwise.
\<close>

definition sql_admits :: "visibility \<Rightarrow> string \<Rightarrow> bool" where
  "sql_admits ctx label \<longleftrightarrow>
     (visibility_rank ctx = 0 \<or> vis_rank_sql label \<ge> visibility_rank ctx)"

subsection \<open>Lemmas\<close>

lemma allows_refl [simp]: "allows v v"
  by (simp add: allows_def)

lemma allows_trans: "allows a b \<Longrightarrow> allows b c \<Longrightarrow> allows a c"
  by (simp add: allows_def)

lemma allows_private [simp]: "allows v Private"
  by (cases v) (simp_all add: allows_def visibility_order)

lemma public_allows [simp]: "allows Public v"
  by (cases v) (simp_all add: allows_def visibility_order)

lemma private_allows [simp]: "allows Private v \<longleftrightarrow> v = Private"
  by (cases v) (simp_all add: allows_def visibility_order)

lemma str_to_vis_to_str [simp]: "str_to_vis (visibility_to_str v) = v"
  by (cases v) (simp_all add: str_to_vis_def)

lemma vis_rank_sql_eq: "vis_rank_sql s = int (declared_at (str_to_vis s))"
  by (simp add: vis_rank_sql_def str_to_vis_def)

lemma visibility_rank_eq: "visibility_rank v = int (declared_at v)"
  by (cases v) simp_all

subsection \<open>Properties\<close>

lemma sql_admits_iff: "sql_admits ctx label \<longleftrightarrow> allows (str_to_vis label) ctx"
  by (cases "str_to_vis label"; cases ctx)
    (simp_all add: sql_admits_def vis_rank_sql_eq visibility_rank_eq allows_def visibility_order)

text \<open>
  the visibility predicate that the SQL search applies before its \<open>LIMIT\<close> is exactly the
  admissibility test the coordinator applies to the returned hits, for every stored label,
  known or not.
\<close>

theorem sql_visibility_is_allows:
  "sql_admits ctx label \<longleftrightarrow> allows (str_to_vis label) ctx"
  by (rule sql_admits_iff)

text \<open>
  both readers of a stored label recover the level that was written, the strict reader
  accepts nothing else, and the lenient reader never widens: a label it does not know is only
  admissible in a \<open>Private\<close> context.
\<close>

theorem visibility_label_readers:
  "(str_to_visibility s = Inr v \<longleftrightarrow> s = visibility_to_str v) \<and>
   str_to_vis (visibility_to_str v) = v \<and>
   (allows (str_to_vis s) ctx \<longleftrightarrow>
      (case str_to_visibility s of Inr w \<Rightarrow> allows w ctx | Inl e \<Rightarrow> ctx = Private))"
  by (cases v; cases ctx) (auto simp: str_to_visibility_def str_to_vis_def)

end
