(* ===== verification/Hex_Id.thy ===== *)
theory Hex_Id
  imports Prelude
begin

text \<open>
  The 32-byte identifiers of \<open>spectral-core\<close> (\<open>EntityId\<close>, \<open>DeviceId\<close>, \<open>BrainId\<close>): their
  derivation from a hash, their hexadecimal form (\<open>Display\<close>) and its parser (\<open>FromStr\<close>).
  \<open>blake3\<close> is not part of the repository: it is the argument \<open>hash\<close> of what uses it.
\<close>

type_synonym id32 = "byte list"

datatype id_problem = ExpectedHexChars nat | InvalidHexAt nat

text \<open>The variants of \<open>Error\<close> (\<open>error.rs\<close>) that parsing raises, with what their message says.\<close>

datatype core_error =
    InvalidEntityId id_problem
  | InvalidDeviceId id_problem

text \<open>\<open>hex_val\<close> of \<open>lib.rs\<close>.\<close>

definition hex_val :: "byte \<Rightarrow> byte option" where
  "hex_val b =
     (if byte_of (CHR ''0'') \<le> b \<and> b \<le> byte_of (CHR ''9'') then Some (b - byte_of (CHR ''0''))
      else if byte_of (CHR ''a'') \<le> b \<and> b \<le> byte_of (CHR ''f'')
        then Some (b - byte_of (CHR ''a'') + 10)
      else if byte_of (CHR ''A'') \<le> b \<and> b \<le> byte_of (CHR ''F'')
        then Some (b - byte_of (CHR ''A'') + 10)
      else None)"

text \<open>One digit of the format \<open>{:02x}\<close>, and the loop of \<open>Display::fmt\<close>.\<close>

definition hex_digit :: "nat \<Rightarrow> char" where
  "hex_digit n = ''0123456789abcdef'' ! n"

definition fmt_02x :: "byte \<Rightarrow> string" where
  "fmt_02x b = [hex_digit (unat b div 16), hex_digit (unat b mod 16)]"

definition to_hex :: "byte list \<Rightarrow> string" where
  "to_hex bs = concat (map fmt_02x bs)"

text \<open>
  The loop of \<open>FromStr\<close> from byte \<open>i\<close> on: two digits are read per byte, and the first digit
  that is not hexadecimal is reported with its position.
\<close>

fun decode_from :: "nat \<Rightarrow> byte list \<Rightarrow> id_problem + byte list" where
  "decode_from i (h # l # rest) =
     (case hex_val h of
        None \<Rightarrow> Inl (InvalidHexAt (i * 2))
      | Some hi \<Rightarrow>
          (case hex_val l of
             None \<Rightarrow> Inl (InvalidHexAt (i * 2 + 1))
           | Some lo \<Rightarrow>
               (case decode_from (Suc i) rest of
                  Inl e \<Rightarrow> Inl e
                | Inr bs \<Rightarrow> Inr (or (push_bit 4 hi) lo # bs))))"
| "decode_from i _ = Inr []"

definition id_from_str :: "string \<Rightarrow> id_problem + id32" where
  "id_from_str s =
     (if length s \<noteq> 64 then Inl (ExpectedHexChars (length s)) else decode_from 0 (as_bytes s))"

definition entity_id_from_str :: "string \<Rightarrow> core_error + id32" where
  "entity_id_from_str s = map_sum InvalidEntityId id (id_from_str s)"

definition device_id_from_str :: "string \<Rightarrow> core_error + id32" where
  "device_id_from_str s = map_sum InvalidDeviceId id (id_from_str s)"

text \<open>\<open>entity_id\<close> and \<open>DeviceId::from_descriptor\<close>.\<close>

definition entity_preimage :: "string \<Rightarrow> string \<Rightarrow> byte list" where
  "entity_preimage entity_type canonical =
     as_bytes ''spectral-entity-v1:'' @ as_bytes entity_type @ as_bytes '':'' @ as_bytes canonical"

definition entity_id :: "(byte list \<Rightarrow> id32) \<Rightarrow> string \<Rightarrow> string \<Rightarrow> id32" where
  "entity_id hash entity_type canonical = hash (entity_preimage entity_type canonical)"

definition device_preimage :: "string \<Rightarrow> byte list" where
  "device_preimage descriptor = as_bytes ''spectral-device-v1:'' @ as_bytes descriptor"

definition device_from_descriptor :: "(byte list \<Rightarrow> id32) \<Rightarrow> string \<Rightarrow> id32" where
  "device_from_descriptor hash descriptor = hash (device_preimage descriptor)"

subsection \<open>Lemmas\<close>

lemma hex_val_digit [simp]:
  assumes "n < 16"
  shows "hex_val (byte_of (hex_digit n)) = Some (of_nat n)"
proof -
  have "\<forall>m \<in> set [0..<16]. hex_val (byte_of (hex_digit m)) = Some (of_nat m)"
    by (simp add: upt_rec hex_val_def hex_digit_def byte_of_def)
  with assms show ?thesis by simp
qed

lemma join_nibbles:
  "or (push_bit 4 (of_nat (unat b div 16))) (of_nat (unat b mod 16)) = (b :: byte)"
proof -
  have hi: "of_nat (unat b div 16) = drop_bit 4 b"
    by (simp add: drop_bit_eq_div word_arith_nat_div)
  have lo: "of_nat (unat b mod 16) = take_bit 4 b"
    by (simp add: take_bit_eq_mod word_arith_nat_mod)
  show ?thesis
    unfolding hi lo by (rule bit_eqI) (auto simp: bit_simps)
qed

lemma nibble_bounds [simp]: "unat (b :: byte) div 16 < 16" "unat (b :: byte) mod 16 < 16"
proof -
  have "unat b < 2 ^ LENGTH(8)" by (rule unsigned_less)
  then have "unat b < 256" by simp
  then show "unat b div 16 < 16" by (simp add: div_less_iff_less_mult)
  show "unat b mod 16 < 16" by simp
qed

lemma decode_from_to_hex: "decode_from i (as_bytes (to_hex bs)) = Inr bs"
  by (induction bs arbitrary: i)
    (simp_all add: as_bytes_def to_hex_def fmt_02x_def join_nibbles)

lemma length_to_hex [simp]: "length (to_hex bs) = 2 * length bs"
  by (induction bs) (simp_all add: to_hex_def fmt_02x_def)

lemma to_hex_inject [simp]: "to_hex as = to_hex bs \<longleftrightarrow> as = bs"
  by (metis decode_from_to_hex sum.inject(2))

lemma decode_from_length: "decode_from i hex = Inr bs \<Longrightarrow> length bs = length hex div 2"
  by (induction i hex arbitrary: bs rule: decode_from.induct)
    (auto split: option.splits sum.splits)

lemma decode_from_digits:
  "even (length hex) \<Longrightarrow>
    (\<exists>bs. decode_from i hex = Inr bs) \<longleftrightarrow> (\<forall>b \<in> set hex. hex_val b \<noteq> None)"
  by (induction i hex rule: decode_from.induct) (auto split: option.splits sum.splits)

lemma decode_from_no_len: "decode_from i hex \<noteq> Inl (ExpectedHexChars n)"
  by (induction i hex rule: decode_from.induct) (auto split: option.splits sum.splits)

lemma decode_from_error:
  "decode_from i hex = Inl (InvalidHexAt p) \<Longrightarrow>
    i * 2 \<le> p \<and> p - i * 2 < length hex \<and> hex_val (hex ! (p - i * 2)) = None \<and>
    (\<forall>q < p - i * 2. hex_val (hex ! q) \<noteq> None)"
proof (induction i hex rule: decode_from.induct)
  case (1 i h l rest)
  show ?case
  proof (cases "hex_val h = None \<or> hex_val l = None")
    case True
    with "1.prems" show ?thesis
      by (cases "hex_val h") auto
  next
    case False
    then obtain hi lo where v: "hex_val h = Some hi" "hex_val l = Some lo" by auto
    with "1.prems" have "decode_from (Suc i) rest = Inl (InvalidHexAt p)"
      by (auto split: sum.splits)
    note ih = "1.IH" [OF v this]
    then obtain k where k: "p = Suc i * 2 + k" using le_Suc_ex by blast
    show ?thesis
      using ih v unfolding k by (auto simp: nth_Cons split: nat.splits)
  qed
qed simp_all

text \<open>
  \<open>EntityId\<close> and \<open>DeviceId\<close> strings: printing and parsing are inverse on 32-byte identifiers.
\<close>

lemma id_round_trip:
  assumes "length bs = 32"
  shows "id_from_str (to_hex bs) = Inr bs"
  using assms by (simp add: id_from_str_def decode_from_to_hex)

lemma id_from_str_Inr: "id_from_str s = Inr bs \<Longrightarrow> length s = 64 \<and> length bs = 32"
  by (auto simp: id_from_str_def decode_from_length split: if_splits)

subsection \<open>Properties\<close>

lemma id_from_str_cases:
  "(\<exists>bs. id_from_str s = Inr bs) \<longleftrightarrow> length s = 64 \<and> (\<forall>b \<in> set (as_bytes s). hex_val b \<noteq> None)"
  using decode_from_digits [of "as_bytes s" 0] by (simp add: id_from_str_def)

text \<open>
  printing and parsing an identifier. The printed form of 32 bytes parses back to them,
  and distinct identifiers print differently.
\<close>

theorem id_print_parse:
  assumes "length bs = 32"
  shows "entity_id_from_str (to_hex bs) = Inr bs \<and> device_id_from_str (to_hex bs) = Inr bs \<and>
    (to_hex bs = to_hex bs' \<longleftrightarrow> bs = bs')"
  using assms by (simp add: entity_id_from_str_def device_id_from_str_def id_round_trip)

theorem id_print_parse_witness:
  "length (replicate 32 (255 :: byte)) = 32 \<and>
   entity_id_from_str (to_hex (replicate 32 255)) = Inr (replicate 32 255)"
proof -
  have h: "length (replicate 32 (255 :: byte)) = 32" by simp
  show ?thesis using id_print_parse [OF h, of "[]"] h by blast
qed

text \<open>
  parsing never fails silently. It succeeds on exactly the 64-byte strings of hexadecimal
  digits, and then yields 32 bytes; on a 64-byte string it reports the first position that is
  not a hexadecimal digit.
\<close>

theorem entity_id_parse_total:
  "(case entity_id_from_str s of
      Inr bs \<Rightarrow> length s = 64 \<and> length bs = 32 \<and> (\<forall>b \<in> set (as_bytes s). hex_val b \<noteq> None)
    | Inl (InvalidEntityId (ExpectedHexChars n)) \<Rightarrow> n = length s \<and> n \<noteq> 64
    | Inl (InvalidEntityId (InvalidHexAt p)) \<Rightarrow> length s = 64 \<and> p < 64 \<and>
        hex_val (as_bytes s ! p) = None \<and> (\<forall>q < p. hex_val (as_bytes s ! q) \<noteq> None)
    | Inl (InvalidDeviceId e) \<Rightarrow> False)"
proof (cases "id_from_str s")
  case (Inr bs)
  then have "\<exists>bs. id_from_str s = Inr bs" by blast
  with Inr show ?thesis
    unfolding id_from_str_cases by (auto simp: entity_id_from_str_def dest: id_from_str_Inr)
next
  case (Inl e)
  show ?thesis
  proof (cases "length s = 64")
    case False
    then show ?thesis by (simp add: entity_id_from_str_def id_from_str_def)
  next
    case True
    with Inl have d: "decode_from 0 (as_bytes s) = Inl e" by (simp add: id_from_str_def)
    then obtain p where e: "e = InvalidHexAt p" by (cases e) (simp_all add: decode_from_no_len)
    from decode_from_error [OF d [unfolded e]] True Inl e show ?thesis
      by (simp add: entity_id_from_str_def)
  qed
qed

theorem entity_id_parse_total_witness:
  "(case entity_id_from_str ''+f'' of
      Inr bs \<Rightarrow> False
    | Inl (InvalidEntityId (ExpectedHexChars n)) \<Rightarrow> n = 2
    | _ \<Rightarrow> False)"
  using entity_id_parse_total [of "''+f''"]
  by (simp add: entity_id_from_str_def id_from_str_def)

end
