(* ===== verification/Identity.thy ===== *)
theory Identity
  imports Hex_Id
begin

text \<open>
  Brain identities and the canonical signing payloads (\<open>spectral-core/src/identity.rs\<close>).

  \<open>blake3\<close> and \<open>ed25519_dalek\<close> are not part of the repository. They are the fields of the
  record \<open>crypto\<close>: the hash, the bytes of a public key, the derivation of the public key,
  signing, and the outcome of \<open>VerifyingKey::verify\<close>. A secret key is its 32 bytes. What
  is proved of signatures names the one fact of Ed25519 it needs, that a signature made
  with a key is accepted by its public key.
\<close>

record ('vk, 'sig) crypto =
  blake3 :: "byte list \<Rightarrow> id32"
  vk_bytes :: "'vk \<Rightarrow> byte list"
  vk_of :: "byte list \<Rightarrow> 'vk"
  sign_with :: "byte list \<Rightarrow> byte list \<Rightarrow> 'sig"
  accepts :: "'vk \<Rightarrow> byte list \<Rightarrow> 'sig \<Rightarrow> bool"

subsection \<open>Length-prefixed encodings\<close>

text \<open>
  \<open>le_bytes k n\<close> is \<open>(n as u<8k>).to_le_bytes()\<close>: \<open>k\<close> bytes, least significant first. Each
  byte is \<open>n\<close> modulo 256, so the cast that drops the bits beyond \<open>8 * k\<close> is in the
  definition.
\<close>

fun le_bytes :: "nat \<Rightarrow> nat \<Rightarrow> byte list" where
  "le_bytes 0 n = []"
| "le_bytes (Suc k) n = of_nat n # le_bytes k (n div 256)"

definition framed :: "nat \<Rightarrow> byte list \<Rightarrow> byte list" where
  "framed k b = le_bytes k (length b) @ b"

definition length_prefixed :: "byte list \<Rightarrow> string list \<Rightarrow> byte list" where
  "length_prefixed domain fs = domain @ concat (map (\<lambda>f. framed 4 (as_bytes f)) fs)"

definition MEMORY_SIG_DOMAIN :: "byte list" where
  "MEMORY_SIG_DOMAIN = as_bytes ''spectral-memory-sig-v1''"

definition MEMORY_SIG_DOMAIN_V2 :: "byte list" where
  "MEMORY_SIG_DOMAIN_V2 = as_bytes ''spectral-memory-sig-v2''"

definition FEDERATION_OBJ_SIG_DOMAIN :: "byte list" where
  "FEDERATION_OBJ_SIG_DOMAIN = as_bytes ''spectral-federation-obj-sig-v1''"

definition FEDERATION_TOMBSTONE_SIG_DOMAIN :: "byte list" where
  "FEDERATION_TOMBSTONE_SIG_DOMAIN = as_bytes ''spectral-federation-tombstone-sig-v1''"

definition memory_signing_payload :: "id32 \<Rightarrow> string \<Rightarrow> string \<Rightarrow> string \<Rightarrow> byte list" where
  "memory_signing_payload source_brain_id content_hash created_at visibility =
     length_prefixed (MEMORY_SIG_DOMAIN @ source_brain_id) [content_hash, created_at, visibility]"

definition memory_signing_payload_v2 ::
    "id32 \<Rightarrow> string \<Rightarrow> string \<Rightarrow> string \<Rightarrow> string \<Rightarrow> byte list" where
  "memory_signing_payload_v2 source_brain_id key content_hash created_at visibility =
     length_prefixed (MEMORY_SIG_DOMAIN_V2 @ source_brain_id)
       [key, content_hash, created_at, visibility]"

definition federation_object_signing_payload :: "string \<Rightarrow> byte list" where
  "federation_object_signing_payload object_hash =
     length_prefixed FEDERATION_OBJ_SIG_DOMAIN [object_hash]"

definition federation_tombstone_signing_payload :: "string \<Rightarrow> string \<Rightarrow> string \<Rightarrow> byte list" where
  "federation_tombstone_signing_payload wing_id target_hash ts =
     length_prefixed FEDERATION_TOMBSTONE_SIG_DOMAIN [wing_id, target_hash, ts]"

subsection \<open>Identities\<close>

record 'vk brain_identity =
  signing_key :: "byte list"
  verifying_key :: 'vk
  brain_id :: id32

definition from_verifying_key :: "('vk, 'sig) crypto \<Rightarrow> 'vk \<Rightarrow> id32" where
  "from_verifying_key C vk = blake3 C (vk_bytes C vk)"

text \<open>\<open>generate\<close> with the 32 bytes the operating system supplied as \<open>secret\<close>.\<close>

definition identity_of :: "('vk, 'sig) crypto \<Rightarrow> byte list \<Rightarrow> 'vk brain_identity" where
  "identity_of C secret =
     \<lparr>signing_key = secret, verifying_key = vk_of C secret,
      brain_id = from_verifying_key C (vk_of C secret)\<rparr>"

text \<open>
  \<open>load_or_create\<close> on the brain directory: its files with their bytes and permission bits.
  I/O errors are the only outcomes left out; \<open>secret\<close> is what \<open>generate\<close> would draw.
\<close>

record brain_dir =
  files :: "string \<rightharpoonup> byte list"
  modes :: "string \<rightharpoonup> nat"

datatype identity_error = InvalidBrainKey nat

definition set_key_permissions :: "string \<Rightarrow> brain_dir \<Rightarrow> brain_dir" where
  "set_key_permissions path d = d\<lparr>modes := (modes d)(path \<mapsto> 384)\<rparr>"

definition load_or_create ::
    "('vk, 'sig) crypto \<Rightarrow> byte list \<Rightarrow> brain_dir \<Rightarrow>
      brain_dir \<times> (identity_error + 'vk brain_identity)" where
  "load_or_create C secret d =
     (case files d ''brain.key'' of
        Some key_bytes \<Rightarrow>
          (set_key_permissions ''brain.key'' d,
           if length key_bytes = 32 then Inr (identity_of C key_bytes)
           else Inl (InvalidBrainKey (length key_bytes)))
      | None \<Rightarrow>
          let identity = identity_of C secret;
              d1 = d\<lparr>files := (files d)(''brain.key'' \<mapsto> signing_key identity)\<rparr>;
              d2 = set_key_permissions ''brain.key'' d1;
              d3 = d2\<lparr>files := (files d2)(''brain.pub'' \<mapsto> vk_bytes C (verifying_key identity))\<rparr>;
              d4 = d3\<lparr>files := (files d3)(''brain.id'' \<mapsto> as_bytes (to_hex (brain_id identity)))\<rparr>
          in (d4, Inr identity))"

subsection \<open>Signing and verification\<close>

definition sign :: "('vk, 'sig) crypto \<Rightarrow> 'vk brain_identity \<Rightarrow> byte list \<Rightarrow> 'sig" where
  "sign C self msg = sign_with C (signing_key self) msg"

definition sign_memory ::
    "('vk, 'sig) crypto \<Rightarrow> 'vk brain_identity \<Rightarrow> string \<Rightarrow> string \<Rightarrow> string \<Rightarrow> string \<Rightarrow> 'sig" where
  "sign_memory C self key content_hash created_at visibility =
     sign C self
       (memory_signing_payload_v2 (brain_id self) key content_hash created_at visibility)"

definition sign_federation_object :: "('vk, 'sig) crypto \<Rightarrow> 'vk brain_identity \<Rightarrow> string \<Rightarrow> 'sig" where
  "sign_federation_object C self object_hash =
     sign C self (federation_object_signing_payload object_hash)"

definition sign_federation_tombstone ::
    "('vk, 'sig) crypto \<Rightarrow> 'vk brain_identity \<Rightarrow> string \<Rightarrow> string \<Rightarrow> string \<Rightarrow> 'sig" where
  "sign_federation_tombstone C self wing_id target_hash ts =
     sign C self (federation_tombstone_signing_payload wing_id target_hash ts)"

definition verify :: "('vk, 'sig) crypto \<Rightarrow> id32 \<Rightarrow> 'vk \<Rightarrow> byte list \<Rightarrow> 'sig \<Rightarrow> bool" where
  "verify C brain public_key msg sig =
     (if from_verifying_key C public_key \<noteq> brain then False else accepts C public_key msg sig)"

definition verify_memory_signature ::
    "('vk, 'sig) crypto \<Rightarrow> id32 \<Rightarrow> 'vk \<Rightarrow> string \<Rightarrow> string \<Rightarrow> string \<Rightarrow> string \<Rightarrow> 'sig \<Rightarrow> bool" where
  "verify_memory_signature C source_brain_id public_key key content_hash created_at visibility sig =
     (let v2 = memory_signing_payload_v2 source_brain_id key content_hash created_at visibility
      in if verify C source_brain_id public_key v2 sig then True
         else let v1 = memory_signing_payload source_brain_id content_hash created_at visibility
              in verify C source_brain_id public_key v1 sig)"

subsection \<open>Lemmas\<close>

lemma length_le_bytes [simp]: "length (le_bytes k n) = k"
  by (induction k arbitrary: n) simp_all

lemma le_bytes_inject:
  "le_bytes k n = le_bytes k m \<Longrightarrow> n < 256 ^ k \<Longrightarrow> m < 256 ^ k \<Longrightarrow> n = m"
proof (induction k arbitrary: n m)
  case 0
  then show ?case by simp
next
  case (Suc k)
  from Suc.prems(1) have low: "n mod 256 = m mod 256"
    by (simp add: word_of_nat_eq_iff take_bit_eq_mod)
  have "n div 256 = m div 256"
    by (rule Suc.IH) (use Suc.prems in \<open>simp_all add: div_less_iff_less_mult mult.commute\<close>)
  with low show ?case by (metis div_mult_mod_eq)
qed

lemma framed_append_inject:
  assumes "framed k a @ x = framed k b @ y" and "length a < 256 ^ k" and "length b < 256 ^ k"
  shows "a = b \<and> x = y"
proof -
  from assms(1) have split: "le_bytes k (length a) = le_bytes k (length b) \<and> a @ x = b @ y"
    by (simp add: framed_def)
  with assms(2,3) have "length a = length b" by (blast intro: le_bytes_inject)
  with split show ?thesis by simp
qed

lemma framed_not_Nil: "0 < k \<Longrightarrow> framed k a \<noteq> []"
  by (cases k) (simp_all add: framed_def)

text \<open>A sequence of framed fields determines the fields and their number.\<close>

lemma framed_fields_inject:
  assumes "concat (map (framed k) as) = concat (map (framed k) bs)" and "0 < k"
    and "\<forall>a \<in> set as. length a < 256 ^ k" and "\<forall>b \<in> set bs. length b < 256 ^ k"
  shows "as = bs"
  using assms
proof (induction as arbitrary: bs)
  case Nil
  then show ?case by (cases bs) (simp_all add: framed_not_Nil)
next
  case (Cons a as)
  then obtain b bs' where bs: "bs = b # bs'"
    by (cases bs) (simp_all add: framed_not_Nil)
  with Cons.prems have "a = b \<and> concat (map (framed k) as) = concat (map (framed k) bs')"
    by (intro framed_append_inject [of k]) simp_all
  with Cons bs show ?case by simp
qed

lemma length_prefixed_inject:
  assumes "length_prefixed d fs = length_prefixed d gs"
    and "\<forall>f \<in> set fs. length f < 2 ^ 32" and "\<forall>g \<in> set gs. length g < 2 ^ 32"
  shows "fs = gs"
proof -
  have "map as_bytes fs = map as_bytes gs"
    by (rule framed_fields_inject [of 4])
      (use assms in \<open>simp_all add: length_prefixed_def comp_def\<close>)
  then show ?thesis by (simp add: inj_map_eq_map inj_def)
qed

lemma verify_iff:
  "verify C brain pk msg sig \<longleftrightarrow> brain = blake3 C (vk_bytes C pk) \<and> accepts C pk msg sig"
  by (auto simp: verify_def from_verifying_key_def)

lemma identity_of_simps [simp]:
  "signing_key (identity_of C s) = s"
  "verifying_key (identity_of C s) = vk_of C s"
  "brain_id (identity_of C s) = blake3 C (vk_bytes C (vk_of C s))"
  by (simp_all add: identity_of_def from_verifying_key_def)

text \<open>Four families of payloads, told apart by their domain prefix.\<close>

lemmas payload_defs = memory_signing_payload_def memory_signing_payload_v2_def
  federation_object_signing_payload_def federation_tombstone_signing_payload_def

lemmas domain_defs = MEMORY_SIG_DOMAIN_def MEMORY_SIG_DOMAIN_V2_def
  FEDERATION_OBJ_SIG_DOMAIN_def FEDERATION_TOMBSTONE_SIG_DOMAIN_def

lemma length_prefixed_append: "length_prefixed (d @ x) fs = d @ length_prefixed x fs"
  by (simp add: length_prefixed_def)

lemma length_prefixed_split:
  assumes "length_prefixed (d @ x) fs = length_prefixed (d @ y) gs" and "length x = length y"
  shows "x = y \<and> length_prefixed [] fs = length_prefixed [] gs"
proof -
  have "d @ x @ length_prefixed [] fs = d @ y @ length_prefixed [] gs"
    using assms(1) by (simp add: length_prefixed_def)
  with assms(2) show ?thesis by simp
qed

lemma prefix_differs: "n < length d \<Longrightarrow> n < length e \<Longrightarrow> d ! n \<noteq> e ! n \<Longrightarrow> d @ x \<noteq> e @ y"
  by (metis nth_append)

subsection \<open>Properties\<close>

text \<open>
  canonical payloads are unambiguous. A payload of 32-byte authors and fields shorter than
  4 GiB determines every field it signs, so a signature over one memory, federation object or
  retraction is never a signature over another of the same family.
\<close>

theorem signing_payloads_injective:
  assumes "\<forall>f \<in> {k, ch, ca, v, k', ch', ca', v'}. length f < 2 ^ 32"
    and "length b = 32" and "length b' = 32"
  shows "(memory_signing_payload_v2 b k ch ca v = memory_signing_payload_v2 b' k' ch' ca' v' \<longleftrightarrow>
      b = b' \<and> k = k' \<and> ch = ch' \<and> ca = ca' \<and> v = v')
    \<and> (federation_object_signing_payload k = federation_object_signing_payload k' \<longleftrightarrow> k = k')
    \<and> (federation_tombstone_signing_payload k ch ca = federation_tombstone_signing_payload k' ch' ca' \<longleftrightarrow>
      k = k' \<and> ch = ch' \<and> ca = ca')"
proof (intro conjI)
  note inj = length_prefixed_inject
  show "memory_signing_payload_v2 b k ch ca v = memory_signing_payload_v2 b' k' ch' ca' v' \<longleftrightarrow>
      b = b' \<and> k = k' \<and> ch = ch' \<and> ca = ca' \<and> v = v'"
  proof
    assume "memory_signing_payload_v2 b k ch ca v = memory_signing_payload_v2 b' k' ch' ca' v'"
    then have "length_prefixed (MEMORY_SIG_DOMAIN_V2 @ b) [k, ch, ca, v] =
        length_prefixed (MEMORY_SIG_DOMAIN_V2 @ b') [k', ch', ca', v']"
      by (simp only: memory_signing_payload_v2_def)
    then have "b = b' \<and> length_prefixed [] [k, ch, ca, v] = length_prefixed [] [k', ch', ca', v']"
      using assms(2,3) by (intro length_prefixed_split) simp_all
    with inj [of "[]" "[k, ch, ca, v]" "[k', ch', ca', v']"] assms(1)
    show "b = b' \<and> k = k' \<and> ch = ch' \<and> ca = ca' \<and> v = v'" by auto
  qed simp
  show "federation_object_signing_payload k = federation_object_signing_payload k' \<longleftrightarrow> k = k'"
    using inj [of _ "[k]" "[k']"] assms(1) by (auto simp: federation_object_signing_payload_def)
  show "federation_tombstone_signing_payload k ch ca = federation_tombstone_signing_payload k' ch' ca' \<longleftrightarrow>
      k = k' \<and> ch = ch' \<and> ca = ca'"
    using inj [of _ "[k, ch, ca]" "[k', ch', ca']"] assms(1)
    by (auto simp: federation_tombstone_signing_payload_def)
qed

theorem signing_payloads_injective_witness:
  "federation_tombstone_signing_payload ''ab'' ''c'' ''d'' \<noteq>
   federation_tombstone_signing_payload ''a'' ''bc'' ''d''"
proof -
  have h: "\<forall>f \<in> {''ab'', ''c'', ''d'', ''x'', ''a'', ''bc'', ''d'', ''x''}. length f < 2 ^ 32" by simp
  have b: "length (replicate 32 (0 :: byte)) = 32" by simp
  show ?thesis using signing_payloads_injective [OF h b b] by simp
qed

text \<open>
  domain separation. No payload of one family equals a payload of another, whatever the
  fields: a signature obtained for one purpose cannot be replayed for another.
\<close>

theorem signing_domains_disjoint:
  "memory_signing_payload b ch ca v \<noteq> memory_signing_payload_v2 b' k ch' ca' v' \<and>
   memory_signing_payload b ch ca v \<noteq> federation_object_signing_payload h \<and>
   memory_signing_payload b ch ca v \<noteq> federation_tombstone_signing_payload w t s \<and>
   memory_signing_payload_v2 b' k ch' ca' v' \<noteq> federation_object_signing_payload h \<and>
   memory_signing_payload_v2 b' k ch' ca' v' \<noteq> federation_tombstone_signing_payload w t s \<and>
   federation_object_signing_payload h \<noteq> federation_tombstone_signing_payload w t s"
  by (simp add: payload_defs length_prefixed_def domain_defs as_bytes_def)

text \<open>
  an identity's signatures verify under its own id and public key, for memories and for
  both federation payloads, as long as the signature scheme accepts the signatures it makes.
\<close>

theorem own_signatures_verify:
  assumes "\<forall>m. accepts C (vk_of C secret) m (sign_with C secret m)"
    and "self = identity_of C secret"
  shows "verify_memory_signature C (brain_id self) (verifying_key self) k ch ca v
        (sign_memory C self k ch ca v)
    \<and> verify C (brain_id self) (verifying_key self) (federation_object_signing_payload h)
        (sign_federation_object C self h)
    \<and> verify C (brain_id self) (verifying_key self) (federation_tombstone_signing_payload w t s)
        (sign_federation_tombstone C self w t s)"
  using assms
  by (simp add: verify_memory_signature_def Let_def sign_memory_def sign_federation_object_def
      sign_federation_tombstone_def verify_iff sign_def)

definition toy_crypto :: "(byte list, byte list) crypto" where
  "toy_crypto = \<lparr>blake3 = (\<lambda>b. take 32 (b @ replicate 32 0)), vk_bytes = (\<lambda>k. k), vk_of = (\<lambda>s. s),
     sign_with = (\<lambda>s m. s @ m), accepts = (\<lambda>k m g. g = k @ m)\<rparr>"

theorem own_signatures_verify_witness:
  "verify toy_crypto (brain_id (identity_of toy_crypto [1])) [1]
     (federation_object_signing_payload ''ab'')
     (sign_federation_object toy_crypto (identity_of toy_crypto [1]) ''ab'')"
proof -
  have h: "\<forall>m. accepts toy_crypto (vk_of toy_crypto [1]) m (sign_with toy_crypto [1] m)"
    by (simp add: toy_crypto_def)
  show ?thesis
    using own_signatures_verify [OF h refl, of _ _ _ _ "''ab''", THEN conjunct2, THEN conjunct1]
    by (simp add: toy_crypto_def)
qed

text \<open>
  \<open>load_or_create\<close> is stable. Whatever it returned the first time, a second call on the
  directory it left returns the same and changes nothing more, the key file ends with mode
  \<open>0600\<close>, and an unreadable key is an error, never a silently new identity.
\<close>

theorem load_or_create_stable:
  assumes "length secret = 32" and "load_or_create C secret d = (d', r)"
  shows "load_or_create C secret' d' = (d', r) \<and> modes d' ''brain.key'' = Some 384 \<and>
    (case files d ''brain.key'' of
       Some b \<Rightarrow> files d' = files d \<and>
         r = (if length b = 32 then Inr (identity_of C b) else Inl (InvalidBrainKey (length b)))
     | None \<Rightarrow> r = Inr (identity_of C secret) \<and> files d' ''brain.key'' = Some secret)"
  using assms
  by (auto simp: load_or_create_def set_key_permissions_def Let_def split: option.splits)

theorem load_or_create_stable_witness:
  "\<exists>d'. load_or_create toy_crypto (replicate 32 5) \<lparr>files = Map.empty, modes = Map.empty\<rparr> =
      (d', Inr (identity_of toy_crypto (replicate 32 5))) \<and>
    load_or_create toy_crypto [] d' = (d', Inr (identity_of toy_crypto (replicate 32 5)))"
proof -
  let ?d = "\<lparr>files = Map.empty, modes = Map.empty\<rparr>"
  have n: "length (replicate 32 (5 :: byte)) = 32" by simp
  obtain d' r where e: "load_or_create toy_crypto (replicate 32 5) ?d = (d', r)" by fastforce
  from load_or_create_stable [OF n e, of "[]"] e show ?thesis by auto
qed

end
