(* ===== verification/Orset.thy ===== *)
theory Orset
  imports Prelude
begin

text \<open>
  The contract of a replicated grow-only set with tombstones, which two components of
  \<open>spectral-ingest\<close> promise: the opaque replicated set (\<open>replicated_set.rs\<close>) and the shared
  wings of \<open>federation_sync.rs\<close>.

  \<open>live s n\<close> is what \<open>enumerate\<close> lists for namespace (or wing) \<open>n\<close>, \<open>dead s n\<close> the retracted
  hashes, \<open>merge p\<close> the import of a pack, \<open>adds p\<close> and \<open>dels p\<close> the hashes the import admits.
  Everything a client may conclude about convergence follows from the three laws, and is
  proved here once.
\<close>

locale orset =
  fixes live :: "'s \<Rightarrow> 'n \<Rightarrow> 'h set"
    and dead :: "'s \<Rightarrow> 'n \<Rightarrow> 'h set"
    and merge :: "'p \<Rightarrow> 's \<Rightarrow> 's"
    and ns :: "'p \<Rightarrow> 'n"
    and adds :: "'p \<Rightarrow> 'h set"
    and dels :: "'p \<Rightarrow> 'h set"
  assumes live_dead: "live s n \<inter> dead s n = {}"
    and live_merge: "live (merge p s) n =
      (if n = ns p then (live s n \<union> adds p) - (dead s n \<union> dels p) else live s n)"
    and dead_merge: "dead (merge p s) n =
      (if n = ns p then dead s n \<union> dels p else dead s n)"
begin

definition adds_at :: "'p list \<Rightarrow> 'n \<Rightarrow> 'h set" where
  "adds_at ps n = (\<Union>p \<in> {p \<in> set ps. ns p = n}. adds p)"

definition dels_at :: "'p list \<Rightarrow> 'n \<Rightarrow> 'h set" where
  "dels_at ps n = (\<Union>p \<in> {p \<in> set ps. ns p = n}. dels p)"

lemma adds_at_Cons: "adds_at (p # ps) n = (if ns p = n then adds p else {}) \<union> adds_at ps n"
  by (auto simp: adds_at_def)

lemma dels_at_Cons: "dels_at (p # ps) n = (if ns p = n then dels p else {}) \<union> dels_at ps n"
  by (auto simp: dels_at_def)

lemma dead_fold: "dead (fold merge ps s) n = dead s n \<union> dels_at ps n"
proof (induction ps arbitrary: s)
  case Nil
  then show ?case by (simp add: dels_at_def)
next
  case (Cons p ps)
  then show ?case by (auto simp: dels_at_Cons dead_merge)
qed

lemma live_fold:
  "live (fold merge ps s) n = (live s n \<union> adds_at ps n) - (dead s n \<union> dels_at ps n)"
proof (induction ps arbitrary: s)
  case Nil
  show ?case using live_dead by (auto simp: adds_at_def dels_at_def)
next
  case (Cons p ps)
  then show ?case by (auto simp: adds_at_Cons dels_at_Cons live_merge dead_merge)
qed

text \<open>Order and repetition of the packs do not matter.\<close>

lemma converge:
  assumes "set ps = set qs"
  shows "live (fold merge ps s) n = live (fold merge qs s) n"
    and "dead (fold merge ps s) n = dead (fold merge qs s) n"
  using assms by (simp_all add: live_fold dead_fold adds_at_def dels_at_def)

lemma merge_idem: "live (merge p (merge p s)) n = live (merge p s) n"
  using live_dead by (auto simp: live_merge dead_merge)

lemma merge_commute: "live (merge p (merge q s)) n = live (merge q (merge p s)) n"
  by (auto simp: live_merge dead_merge)

text \<open>A retraction is final: no sequence of imports brings the hash back.\<close>

lemma no_resurrection: "h \<in> dead s n \<Longrightarrow> h \<notin> live (fold merge ps s) n"
  by (simp add: live_fold)

lemma other_namespace: "ns p \<noteq> n \<Longrightarrow> live (merge p s) n = live s n \<and> dead (merge p s) n = dead s n"
  by (auto simp: live_merge dead_merge)

text \<open>
  Have/want: a pack that carries the retractions and only the objects the receiver lacks
  does all that the full pack does.
\<close>

lemma wanted_suffice:
  assumes "ns q = ns p" and "dels q = dels p"
    and "adds p - live s (ns p) - dead s (ns p) \<subseteq> adds q" and "adds q \<subseteq> adds p"
  shows "live (merge q s) n = live (merge p s) n"
  using assms by (auto simp: live_merge)

end

text \<open>A peer can also export what it holds; the pack may leave objects out, never add any.\<close>

locale orset_peer = orset live dead merge ns adds dels
  for live :: "'s \<Rightarrow> 'n \<Rightarrow> 'h set" and dead :: "'s \<Rightarrow> 'n \<Rightarrow> 'h set"
    and merge :: "'p \<Rightarrow> 's \<Rightarrow> 's" and ns :: "'p \<Rightarrow> 'n"
    and adds :: "'p \<Rightarrow> 'h set" and dels :: "'p \<Rightarrow> 'h set" +
  fixes export :: "'s \<Rightarrow> 'n \<Rightarrow> 'p"
  assumes ns_export: "ns (export s n) = n"
    and dels_export: "dels (export s n) = dead s n"
    and adds_export_subset: "adds (export s n) \<subseteq> live s n"
begin

lemma pull_adds_only_live: "live (merge (export b n) a) n \<subseteq> live a n \<union> live b n"
  using adds_export_subset by (auto simp: live_merge ns_export)

lemma pull_retracts: "live (merge (export b n) a) n \<inter> dead b n = {}"
  by (auto simp: live_merge ns_export dels_export)

lemma self_merge: "live (merge (export s n) s) m = live s m"
  using adds_export_subset [of s n] live_dead
  by (auto simp: live_merge ns_export dels_export)

end

text \<open>A full peer exports all it has live. Two of them agree after one exchange of packs.\<close>

locale orset_full_peer = orset_peer +
  assumes adds_export: "adds (export s n) = live s n"
begin

lemma pull_live: "live (merge (export b n) a) n = (live a n \<union> live b n) - (dead a n \<union> dead b n)"
  by (simp add: live_merge ns_export adds_export dels_export)

lemma exchange_converges:
  "live (merge (export b n) a) n = live (merge (export a n) b) n"
  "dead (merge (export b n) a) n = dead (merge (export a n) b) n"
  by (auto simp: pull_live dead_merge ns_export dels_export)

lemma relay:
  "live (merge (export (merge (export a n) b) n) c) n =
     (live a n \<union> live b n \<union> live c n) - (dead a n \<union> dead b n \<union> dead c n)"
  by (auto simp: pull_live dead_merge ns_export dels_export)

end

end
