(* ===== verification/Replicated_Set.thy ===== *)
theory Replicated_Set
  imports Orset
begin

text \<open>
  The opaque replicated set, \<open>spectral-ingest/src/replicated_set.rs\<close>.

  The state is the two tables: members keyed by \<open>(namespace, object_hash)\<close> with the blob, and
  tombstones keyed by \<open>(namespace, target_hash)\<close> with their time. \<open>now\<close> is the value of
  \<open>datetime('now')\<close>, the default of the tombstones' \<open>ts\<close> column, at the statement.
  Each operation is one transaction of the source; engine errors are not modelled.
\<close>

record set_member =
  m_namespace :: string
  m_object_hash :: string
  m_blob :: "byte list"

record set_tomb_row =
  t_namespace :: string
  t_target_hash :: string
  t_ts :: string

record set_store =
  members :: "set_member list"
  tombs :: "set_tomb_row list"

text \<open>The wire types: \<open>SetObject\<close>, \<open>SetTombstone\<close>, \<open>SetPack\<close>.\<close>

record set_object =
  so_object_hash :: string
  so_blob :: "byte list"

record set_tombstone =
  st_target_hash :: string
  st_ts :: string

record set_pack =
  sp_namespace :: string
  sp_objects :: "set_object list"
  sp_tombstones :: "set_tombstone list"

text \<open>\<open>ensure_set_tables\<close>: \<open>CREATE TABLE IF NOT EXISTS\<close> of both tables.\<close>

definition ensure_set_tables :: "set_store option \<Rightarrow> set_store" where
  "ensure_set_tables db =
     (case db of None \<Rightarrow> \<lparr>members = [], tombs = []\<rparr> | Some s \<Rightarrow> s)"

definition member_pk :: "set_member \<Rightarrow> string \<times> string" where
  "member_pk m = (m_namespace m, m_object_hash m)"

definition tomb_pk :: "set_tomb_row \<Rightarrow> string \<times> string" where
  "tomb_pk t = (t_namespace t, t_target_hash t)"

definition set_is_tombstoned :: "set_store \<Rightarrow> string \<Rightarrow> string \<Rightarrow> bool" where
  "set_is_tombstoned s namespace hash =
     (count_where (\<lambda>t. t_namespace t = namespace \<and> t_target_hash t = hash) (tombs s) > 0)"

definition put :: "set_store \<Rightarrow> string \<Rightarrow> string \<Rightarrow> byte list \<Rightarrow> set_store \<times> bool" where
  "put s namespace object_hash blob =
     (if set_is_tombstoned s namespace object_hash then (s, False)
      else let row = \<lparr>m_namespace = namespace, m_object_hash = object_hash, m_blob = blob\<rparr>
           in (s\<lparr>members := insert_or_ignore member_pk row (members s)\<rparr>,
               insert_changes member_pk row (members s) > 0))"

text \<open>The rows both \<open>enumerate\<close> and \<open>export_set\<close> select.\<close>

definition live_rows :: "set_store \<Rightarrow> string \<Rightarrow> set_member list" where
  "live_rows s namespace =
     filter (\<lambda>m. m_namespace m = namespace \<and>
               m_object_hash m \<notin>
                 t_target_hash ` {t \<in> set (tombs s). t_namespace t = namespace}) (members s)"

definition set_enumerate :: "set_store \<Rightarrow> string \<Rightarrow> string list" where
  "set_enumerate s namespace = sort (map m_object_hash (live_rows s namespace))"

definition export_set :: "set_store \<Rightarrow> string \<Rightarrow> set_pack" where
  "export_set s namespace =
     \<lparr>sp_namespace = namespace,
      sp_objects =
        map (\<lambda>m. \<lparr>so_object_hash = m_object_hash m, so_blob = m_blob m\<rparr>) (live_rows s namespace),
      sp_tombstones =
        map (\<lambda>t. \<lparr>st_target_hash = t_target_hash t, st_ts = t_ts t\<rparr>)
          (filter (\<lambda>t. t_namespace t = namespace) (tombs s))\<rparr>"

definition set_apply_tombstone_tx :: "string \<Rightarrow> string \<Rightarrow> string \<Rightarrow> set_store \<Rightarrow> set_store" where
  "set_apply_tombstone_tx now namespace target_hash s =
     (let s1 = s\<lparr>tombs := insert_or_ignore tomb_pk
                  \<lparr>t_namespace = namespace, t_target_hash = target_hash, t_ts = now\<rparr> (tombs s)\<rparr>
      in s1\<lparr>members := delete_where
              (\<lambda>m. m_namespace m = namespace \<and> m_object_hash m = target_hash) (members s1)\<rparr>)"

definition tombstone_set :: "string \<Rightarrow> set_store \<Rightarrow> string \<Rightarrow> string \<Rightarrow> set_store" where
  "tombstone_set now s namespace target_hash = set_apply_tombstone_tx now namespace target_hash s"

text \<open>The object loop of \<open>import_set\<close>, with the running count of merged rows.\<close>

fun import_objects ::
    "string \<Rightarrow> string set \<Rightarrow> set_object list \<Rightarrow> set_store \<times> nat \<Rightarrow> set_store \<times> nat" where
  "import_objects namespace pack_retracted [] acc = acc"
| "import_objects namespace pack_retracted (obj # objs) (s, merged) =
     (if so_object_hash obj \<in> pack_retracted \<or> set_is_tombstoned s namespace (so_object_hash obj)
      then import_objects namespace pack_retracted objs (s, merged)
      else let row = \<lparr>m_namespace = namespace, m_object_hash = so_object_hash obj,
                      m_blob = so_blob obj\<rparr>
           in import_objects namespace pack_retracted objs
                (s\<lparr>members := insert_or_ignore member_pk row (members s)\<rparr>,
                 merged + insert_changes member_pk row (members s)))"

definition import_set :: "string \<Rightarrow> set_store \<Rightarrow> set_pack \<Rightarrow> set_store \<times> nat" where
  "import_set now s pack =
     (let pack_retracted = set (map st_target_hash (sp_tombstones pack));
          (s1, merged) = import_objects (sp_namespace pack) pack_retracted (sp_objects pack) (s, 0);
          s2 = fold (\<lambda>t. set_apply_tombstone_tx now (sp_namespace pack) (st_target_hash t))
                 (sp_tombstones pack) s1
      in (s2, merged))"

text \<open>\<open>missing_locally\<close> (of \<open>federation_sync.rs\<close>), \<open>want\<close> and \<open>want_scoped\<close>.\<close>

definition missing_locally :: "string list \<Rightarrow> string list \<Rightarrow> string list" where
  "missing_locally local remote = filter (\<lambda>h. h \<notin> set local) remote"

definition want :: "string list \<Rightarrow> string list \<Rightarrow> string list" where
  "want local remote = missing_locally local remote"

definition want_scoped :: "set_store \<Rightarrow> string \<Rightarrow> string list \<Rightarrow> string list" where
  "want_scoped s namespace remote =
     filter (\<lambda>h. h \<notin> set (set_enumerate s namespace) \<and> \<not> set_is_tombstoned s namespace h) remote"

subsection \<open>Views of a store\<close>

definition retracted :: "set_store \<Rightarrow> string \<Rightarrow> string set" where
  "retracted s n = column t_namespace t_target_hash n (tombs s)"

definition stored :: "set_store \<Rightarrow> string \<Rightarrow> string set" where
  "stored s n = column m_namespace m_object_hash n (members s)"

definition live_set :: "set_store \<Rightarrow> string \<Rightarrow> string set" where
  "live_set s n = set (set_enumerate s n)"

lemmas set_views = retracted_def stored_def member_pk_def tomb_pk_def

lemma set_is_tombstoned_iff: "set_is_tombstoned s n h \<longleftrightarrow> h \<in> retracted s n"
  unfolding set_is_tombstoned_def retracted_def by (rule column_count)

lemma live_set_eq: "live_set s n = stored s n - retracted s n"
  by (auto simp: live_set_def set_enumerate_def live_rows_def set_views column_def)

lemma live_retracted [simp]: "live_set s n \<inter> retracted s n = {}"
  by (auto simp: live_set_eq)

lemma stored_insert_member:
  "stored (s\<lparr>members := insert_or_ignore member_pk r (members s)\<rparr>) n =
     (if n = m_namespace r then insert (m_object_hash r) (stored s n) else stored s n)"
  by (simp add: set_views column_insert)

lemma retracted_members [simp]: "retracted (s\<lparr>members := ms\<rparr>) n = retracted s n"
  by (simp add: retracted_def)

lemma retracted_apply_tombstone [simp]:
  "retracted (set_apply_tombstone_tx now m h s) n =
     (if n = m then insert h (retracted s n) else retracted s n)"
  by (simp add: set_apply_tombstone_tx_def Let_def set_views column_insert)

lemma stored_apply_tombstone [simp]:
  "stored (set_apply_tombstone_tx now m h s) n = (if n = m then stored s n - {h} else stored s n)"
  by (simp add: set_apply_tombstone_tx_def Let_def set_views column_delete)

lemma fold_apply_tombstone:
  "retracted (fold (\<lambda>t. set_apply_tombstone_tx now m (f t)) ts s) n =
     (if n = m then retracted s n \<union> f ` set ts else retracted s n)"
  "stored (fold (\<lambda>t. set_apply_tombstone_tx now m (f t)) ts s) n =
     (if n = m then stored s n - f ` set ts else stored s n)"
  by (induction ts arbitrary: s) auto

lemma import_objects_views:
  "stored (fst (import_objects m del objs (s, k))) n =
     (if n = m then stored s n \<union> (so_object_hash ` set objs - del - retracted s n) else stored s n)"
  "retracted (fst (import_objects m del objs (s, k))) n = retracted s n"
  by (induction objs arbitrary: s k)
    (auto simp: set_is_tombstoned_iff stored_insert_member Let_def)

lemma import_set_views:
  "retracted (fst (import_set now s pack)) n =
     (if n = sp_namespace pack
      then retracted s n \<union> st_target_hash ` set (sp_tombstones pack) else retracted s n)"
  "live_set (fst (import_set now s pack)) n =
     (if n = sp_namespace pack
      then (live_set s n \<union> so_object_hash ` set (sp_objects pack)) -
           (retracted s n \<union> st_target_hash ` set (sp_tombstones pack))
      else live_set s n)"
  by (auto simp: import_set_def Let_def live_set_eq split_beta fold_apply_tombstone
      import_objects_views)

lemma export_set_views:
  "sp_namespace (export_set s n) = n"
  "st_target_hash ` set (sp_tombstones (export_set s n)) = retracted s n"
  "so_object_hash ` set (sp_objects (export_set s n)) = live_set s n"
  by (auto simp: export_set_def retracted_def live_set_def set_enumerate_def column_def image_image)

text \<open>The replicated set keeps the contract of \<open>Orset\<close>, as a full peer.\<close>

interpretation rset: orset_full_peer live_set retracted "\<lambda>p s. fst (import_set now s p)"
  sp_namespace "\<lambda>p. so_object_hash ` set (sp_objects p)"
  "\<lambda>p. st_target_hash ` set (sp_tombstones p)" export_set
  by unfold_locales (simp_all add: import_set_views export_set_views)

subsection \<open>The storage invariant\<close>

text \<open>
  Primary keys are unique, and no member row is retracted: the removal is real in storage,
  not only hidden by \<open>enumerate\<close>.
\<close>

definition set_store_wf :: "set_store \<Rightarrow> bool" where
  "set_store_wf s \<longleftrightarrow>
     distinct (map member_pk (members s)) \<and> distinct (map tomb_pk (tombs s)) \<and>
     (\<forall>m \<in> set (members s). m_object_hash m \<notin> retracted s (m_namespace m))"

lemma set_store_wf_empty: "set_store_wf (ensure_set_tables None)"
  by (simp add: set_store_wf_def ensure_set_tables_def)

lemma set_store_wf_insert:
  "set_store_wf s \<Longrightarrow> m_object_hash r \<notin> retracted s (m_namespace r) \<Longrightarrow>
    set_store_wf (s\<lparr>members := insert_or_ignore member_pk r (members s)\<rparr>)"
  by (auto simp: set_store_wf_def distinct_insert_or_ignore set_insert_or_ignore split: if_splits)

lemma set_store_wf_put: "set_store_wf s \<Longrightarrow> set_store_wf (fst (put s n h b))"
  by (simp add: put_def set_is_tombstoned_iff Let_def set_store_wf_insert)

lemma members_apply_tombstone:
  "members (set_apply_tombstone_tx now n h s) =
     delete_where (\<lambda>m. m_namespace m = n \<and> m_object_hash m = h) (members s)"
  by (simp add: set_apply_tombstone_tx_def Let_def)

lemma set_store_wf_apply_tombstone:
  "set_store_wf s \<Longrightarrow> set_store_wf (set_apply_tombstone_tx now n h s)"
proof -
  assume wf: "set_store_wf s"
  have "m_object_hash m \<notin> retracted (set_apply_tombstone_tx now n h s) (m_namespace m)"
    if "m \<in> set (members (set_apply_tombstone_tx now n h s))" for m
    using that wf by (auto simp: set_store_wf_def members_apply_tombstone)
  moreover have "distinct (map tomb_pk (tombs (set_apply_tombstone_tx now n h s)))"
    using wf by (simp add: set_store_wf_def set_apply_tombstone_tx_def Let_def
        distinct_insert_or_ignore)
  ultimately show ?thesis
    using wf by (simp add: set_store_wf_def members_apply_tombstone distinct_delete_where)
qed

lemma set_store_wf_import: "set_store_wf s \<Longrightarrow> set_store_wf (fst (import_set now s pack))"
proof -
  assume wf: "set_store_wf s"
  have objs: "set_store_wf (fst (import_objects n del objs (s, k)))" for n del objs k
    using wf by (induction objs arbitrary: s k)
      (auto simp: set_is_tombstoned_iff Let_def set_store_wf_insert)
  have tmbs: "set_store_wf u \<Longrightarrow> set_store_wf (fold (\<lambda>t. set_apply_tombstone_tx now n (f t)) ts u)"
    for n f u and ts :: "set_tombstone list"
    by (induction ts arbitrary: u) (simp_all add: set_store_wf_apply_tombstone)
  show ?thesis by (simp add: import_set_def Let_def split_beta tmbs objs)
qed

subsection \<open>Runs of the store\<close>

text \<open>
  What the callers can do to one store, in any order: publish, import a pack from any peer,
  retract. \<open>set_run s t\<close> says that some sequence of such operations leads from \<open>s\<close> to \<open>t\<close>.
\<close>

inductive set_step :: "set_store \<Rightarrow> set_store \<Rightarrow> bool" where
  step_put: "set_step s (fst (put s n h b))"
| step_import: "set_step s (fst (import_set now s pack))"
| step_tombstone: "set_step s (tombstone_set now s n h)"

inductive_cases set_stepE: "set_step s t"

definition set_run :: "set_store \<Rightarrow> set_store \<Rightarrow> bool" where
  "set_run = set_step\<^sup>*\<^sup>*"

lemma set_run_invariant:
  assumes "set_run s t" and "P s" and "\<And>u v. set_step u v \<Longrightarrow> P u \<Longrightarrow> P v"
  shows "P t"
  using assms unfolding set_run_def by (induction rule: rtranclp_induct) auto

lemma retracted_put [simp]: "retracted (fst (put s n h b)) = retracted s"
  by (simp add: put_def Let_def fun_eq_iff)

lemma set_step_retracted: "set_step s t \<Longrightarrow> retracted s n \<subseteq> retracted t n"
  by (erule set_stepE) (auto simp: import_set_views tombstone_set_def)

lemma set_step_wf: "set_step s t \<Longrightarrow> set_store_wf s \<Longrightarrow> set_store_wf t"
  by (erule set_stepE)
    (simp_all add: set_store_wf_put set_store_wf_import set_store_wf_apply_tombstone
      tombstone_set_def)

lemma wf_stored_live: "set_store_wf s \<Longrightarrow> stored s n = live_set s n"
  by (fastforce simp: set_store_wf_def live_set_eq stored_def column_def)

lemma set_run_wf: "set_run s t \<Longrightarrow> set_store_wf s \<Longrightarrow> set_store_wf t"
  by (erule set_run_invariant [where P = set_store_wf]) (auto intro: set_step_wf)

lemma set_run_retracted: "set_run s t \<Longrightarrow> h \<in> retracted s n \<Longrightarrow> h \<in> retracted t n"
  by (erule set_run_invariant [where P = "\<lambda>u. h \<in> retracted u n"])
    (use set_step_retracted in blast)+

subsection \<open>What an import counts and what it stores\<close>

lemma import_objects_count:
  assumes "set_store_wf s"
  shows "snd (import_objects n del objs (s, k)) =
    k + card (so_object_hash ` set objs - del - retracted s n - stored s n)"
  using assms
proof (induction objs arbitrary: s k)
  case Nil
  then show ?case by simp
next
  case (Cons obj objs)
  let ?h = "so_object_hash obj"
  let ?row = "\<lparr>m_namespace = n, m_object_hash = ?h, m_blob = so_blob obj\<rparr>"
  let ?s = "s\<lparr>members := insert_or_ignore member_pk ?row (members s)\<rparr>"
  let ?new = "\<lambda>s. so_object_hash ` set objs - del - retracted s n - stored s n"
  show ?case
  proof (cases "?h \<in> del \<or> ?h \<in> retracted s n")
    case True
    then have "so_object_hash ` set (obj # objs) - del - retracted s n - stored s n = ?new s" by auto
    with True Cons show ?thesis by (simp add: set_is_tombstoned_iff)
  next
    case False
    with Cons.prems have "set_store_wf ?s" by (simp add: set_store_wf_insert)
    note ih = Cons.IH [OF this]
    have old: "(\<exists>x \<in> set (members s). member_pk x = member_pk ?row) \<longleftrightarrow> ?h \<in> stored s n"
      by (auto simp: stored_def column_iff member_pk_def)
    have "so_object_hash ` set (obj # objs) - del - retracted s n - stored s n =
        (if ?h \<in> stored s n then ?new ?s else insert ?h (?new ?s))"
      using False by (auto simp: stored_insert_member)
    moreover have "?h \<notin> ?new ?s" by (simp add: stored_insert_member)
    ultimately have "card (so_object_hash ` set (obj # objs) - del - retracted s n - stored s n) =
        insert_changes member_pk ?row (members s) + card (?new ?s)"
      by (simp add: insert_changes_def old)
    with False ih show ?thesis by (simp add: set_is_tombstoned_iff Let_def)
  qed
qed

definition rows_of :: "set_store \<Rightarrow> string \<Rightarrow> set_member set" where
  "rows_of s n = {m \<in> set (members s). m_namespace m = n}"

lemma stored_rows: "stored s n = m_object_hash ` rows_of s n"
  by (simp add: stored_def column_def rows_of_def)

definition row_of :: "string \<Rightarrow> set_object \<Rightarrow> set_member" where
  "row_of n obj =
     \<lparr>m_namespace = n, m_object_hash = so_object_hash obj, m_blob = so_blob obj\<rparr>"

definition object_of :: "set_member \<Rightarrow> set_object" where
  "object_of m = \<lparr>so_object_hash = m_object_hash m, so_blob = m_blob m\<rparr>"

lemma object_of_hash [simp]: "so_object_hash (object_of m) = m_object_hash m"
  by (simp add: object_of_def)

lemma row_object [simp]: "m_namespace m = n \<Longrightarrow> row_of n (object_of m) = m"
  by (cases m) (simp add: row_of_def object_of_def)

lemma object_row [simp]: "object_of (row_of n obj) = obj"
  by (cases obj) (simp add: row_of_def object_of_def)

lemma import_objects_rows:
  "rows_of (fst (import_objects n del objs (s, k))) n \<subseteq> rows_of s n \<union> row_of n ` set objs"
proof (induction objs arbitrary: s k)
  case (Cons obj objs)
  have "rows_of (s\<lparr>members := insert_or_ignore member_pk (row_of n obj) (members s)\<rparr>) n
      \<subseteq> insert (row_of n obj) (rows_of s n)"
    by (auto simp: rows_of_def set_insert_or_ignore split: if_splits)
  with Cons [of s k] Cons [of "s\<lparr>members := insert_or_ignore member_pk (row_of n obj) (members s)\<rparr>"]
  show ?case by (auto simp: row_of_def Let_def)
qed simp

lemma fold_apply_tombstone_rows:
  "rows_of (fold (\<lambda>t. set_apply_tombstone_tx now n (f t)) ts s) n =
     {m \<in> rows_of s n. m_object_hash m \<notin> f ` set ts}"
  by (induction ts arbitrary: s) (auto simp: rows_of_def members_apply_tombstone)

lemma export_objects_eq:
  "set (sp_objects (export_set s n)) =
     object_of ` {m \<in> rows_of s n. m_object_hash m \<notin> retracted s n}"
  by (auto simp: export_set_def live_rows_def rows_of_def object_of_def retracted_def column_def)

lemma import_set_rows_subset:
  "rows_of (fst (import_set now s pack)) (sp_namespace pack) \<subseteq>
     rows_of s (sp_namespace pack) \<union> row_of (sp_namespace pack) ` set (sp_objects pack)"
  using import_objects_rows
  by (fastforce simp: import_set_def Let_def split_beta fold_apply_tombstone_rows)

lemma wf_rows_unique:
  "set_store_wf s \<Longrightarrow> m \<in> rows_of s n \<Longrightarrow> m' \<in> rows_of s n \<Longrightarrow>
    m_object_hash m = m_object_hash m' \<Longrightarrow> m = m'"
  by (auto simp: set_store_wf_def rows_of_def member_pk_def distinct_map inj_on_def)

subsection \<open>Properties\<close>

text \<open>
  replicas converge. Whatever the order in which a store imports packs, and however
  often each of them, it ends with the same enumeration in every namespace.
\<close>

theorem set_replicas_converge:
  assumes "set packs = set packs'"
  shows "set_enumerate (fold (\<lambda>p s. fst (import_set now s p)) packs (ensure_set_tables None)) n =
         set_enumerate (fold (\<lambda>p s. fst (import_set now s p)) packs' (ensure_set_tables None)) n"
proof -
  let ?run = "\<lambda>ps. fold (\<lambda>p s. fst (import_set now s p)) ps (ensure_set_tables None)"
  have wf: "set_store_wf (?run ps)" for ps
  proof -
    have "set_store_wf s \<Longrightarrow> set_store_wf (fold (\<lambda>p s. fst (import_set now s p)) ps s)" for s
      by (induction ps arbitrary: s) (simp_all add: set_store_wf_import)
    then show ?thesis by (simp add: set_store_wf_empty)
  qed
  have d: "distinct (set_enumerate (?run ps) n)" for ps
    using wf [of ps] by (auto simp: set_enumerate_def live_rows_def set_store_wf_def
        member_pk_def distinct_map inj_on_def)
  have "set (set_enumerate (?run packs) n) = set (set_enumerate (?run packs') n)"
    using rset.converge(1) [OF assms] by (simp add: live_set_def)
  then show ?thesis
    by (intro sorted_distinct_set_unique d) (simp_all add: set_enumerate_def)
qed

definition pack_1 :: set_pack where
  "pack_1 = \<lparr>sp_namespace = ''r'',
     sp_objects = [\<lparr>so_object_hash = ''h1'', so_blob = [1, 2]\<rparr>,
                   \<lparr>so_object_hash = ''h2'', so_blob = [3]\<rparr>], sp_tombstones = []\<rparr>"

definition pack_2 :: set_pack where
  "pack_2 = \<lparr>sp_namespace = ''r'',
     sp_objects = [\<lparr>so_object_hash = ''h3'', so_blob = []\<rparr>],
     sp_tombstones = [\<lparr>st_target_hash = ''h1'', st_ts = ''t0''\<rparr>]\<rparr>"

theorem set_replicas_converge_witness:
  "set_enumerate (fold (\<lambda>p s. fst (import_set ''t'' s p)) [pack_1, pack_2] (ensure_set_tables None)) ''r'' =
   set_enumerate (fold (\<lambda>p s. fst (import_set ''t'' s p)) [pack_2, pack_1, pack_2] (ensure_set_tables None)) ''r'' \<and>
   set [pack_1, pack_2] = set [pack_2, pack_1, pack_2]"
proof -
  have h: "set [pack_1, pack_2] = set [pack_2, pack_1, pack_2]" by auto
  show ?thesis using set_replicas_converge [OF h, of "''t''" "''r''"] h by blast
qed

text \<open>
  C16: no resurrection. Once a hash is retracted in a namespace, no sequence of publications,
  imports of packs from any peer and retractions makes it listed, exported or even stored
  there again.
\<close>

theorem set_no_resurrection:
  assumes "set_run s t" and "set_store_wf s" and "h \<in> retracted s n"
  shows "h \<notin> set (set_enumerate t n) \<and> h \<notin> stored t n \<and>
    h \<notin> so_object_hash ` set (sp_objects (export_set t n))"
proof -
  have "h \<in> retracted t n" and wf: "set_store_wf t"
    using assms by (auto intro: set_run_retracted set_run_wf)
  then have "h \<notin> live_set t n" by (simp add: live_set_eq)
  then show ?thesis
    using wf by (simp add: wf_stored_live export_set_views flip: live_set_def)
qed

definition store_x :: set_store where
  "store_x = tombstone_set ''t0'' (fst (put (ensure_set_tables None) ''r'' ''h1'' [7])) ''r'' ''h1''"

lemma store_x_eq: "store_x = \<lparr>members = [], tombs = [\<lparr>t_namespace = ''r'', t_target_hash = ''h1'', t_ts = ''t0''\<rparr>]\<rparr>"
  by (simp add: store_x_def tombstone_set_def set_apply_tombstone_tx_def Let_def put_def
      set_is_tombstoned_def count_where_def ensure_set_tables_def insert_or_ignore_def delete_where_def)

theorem set_no_resurrection_witness:
  "''h1'' \<in> retracted store_x ''r'' \<and>
   ''h1'' \<notin> stored (fst (import_set ''t1'' (fst (put store_x ''r'' ''h1'' [8])) pack_1)) ''r''"
proof -
  let ?t = "fst (import_set ''t1'' (fst (put store_x ''r'' ''h1'' [8])) pack_1)"
  have run: "set_run store_x ?t"
    unfolding set_run_def by (meson rtranclp.intros step_put step_import)
  have wf: "set_store_wf store_x" and dead: "''h1'' \<in> retracted store_x ''r''"
    by (simp_all add: store_x_eq set_store_wf_def retracted_def column_iff)
  show ?thesis using set_no_resurrection [OF run wf dead] dead by blast
qed

text \<open>
  the relay keeps blobs byte for byte. A store that held nothing of a namespace and
  imports a peer's export re-exports exactly the peer's objects.
\<close>

theorem set_relay_verbatim:
  assumes "set_store_wf a" and "stored b n = {}" and "retracted b n = {}"
  shows "set (sp_objects (export_set (fst (import_set now b (export_set a n))) n)) =
         set (sp_objects (export_set a n))"
proof -
  let ?pack = "export_set a n"
  let ?b = "fst (import_set now b ?pack)"
  have "rows_of b n = {}" using assms(2) by (simp add: stored_rows)
  then have sub: "set (sp_objects (export_set ?b n)) \<subseteq> set (sp_objects ?pack)"
    using import_set_rows_subset [of now b ?pack]
    by (auto simp: export_objects_eq [of ?b] export_set_views(1))
  have live: "so_object_hash ` set (sp_objects (export_set ?b n)) =
      so_object_hash ` set (sp_objects ?pack)"
  proof -
    have "live_set b n = {}" using assms(2) by (simp add: live_set_eq)
    then have "live_set ?b n = live_set a n - retracted a n"
      using assms(3) by (simp add: import_set_views export_set_views)
    also have "\<dots> = live_set a n" by (simp add: Diff_triv)
    finally show ?thesis by (simp add: export_set_views)
  qed
  have uniq: "o1 = o2" if "o1 \<in> set (sp_objects ?pack)" "o2 \<in> set (sp_objects ?pack)"
      "so_object_hash o1 = so_object_hash o2" for o1 o2
  proof -
    from that(1,2) obtain m1 m2 where m: "o1 = object_of m1" "m1 \<in> rows_of a n"
        "o2 = object_of m2" "m2 \<in> rows_of a n"
      unfolding export_objects_eq by blast
    with that(3) have "m1 = m2" by (intro wf_rows_unique [OF assms(1)]) simp_all
    with m show ?thesis by simp
  qed
  show ?thesis
  proof
    show "set (sp_objects ?pack) \<subseteq> set (sp_objects (export_set ?b n))"
    proof
      fix ob assume ob: "ob \<in> set (sp_objects ?pack)"
      then have "so_object_hash ob \<in> so_object_hash ` set (sp_objects (export_set ?b n))"
        unfolding live by simp
      then obtain ob' where "ob' \<in> set (sp_objects (export_set ?b n))"
        and "so_object_hash ob = so_object_hash ob'" by auto
      with sub ob uniq show "ob \<in> set (sp_objects (export_set ?b n))" by (metis subsetD)
    qed
  qed (rule sub)
qed

definition store_y :: set_store where
  "store_y = fst (put (fst (put (ensure_set_tables None) ''r'' ''h2'' [1, 2])) ''r'' ''h1'' [7])"

theorem set_relay_verbatim_witness:
  "set_store_wf store_y \<and>
   set (sp_objects (export_set (fst (import_set ''t'' (ensure_set_tables None)
     (export_set store_y ''r''))) ''r'')) = set (sp_objects (export_set store_y ''r''))"
proof -
  have wf: "set_store_wf store_y"
    unfolding store_y_def by (intro set_store_wf_put set_store_wf_empty)
  have e: "stored (ensure_set_tables None) ''r'' = {}" "retracted (ensure_set_tables None) ''r'' = {}"
    by (simp_all add: stored_def retracted_def ensure_set_tables_def)
  show ?thesis using set_relay_verbatim [OF wf e, of "''t''"] wf by blast
qed

text \<open>
  \<open>import_set\<close> reports exactly the objects that are new: those of the pack that neither
  the pack nor the store retracts and that the store did not hold. Repeating the import
  reports none.
\<close>

theorem set_import_count:
  assumes "set_store_wf s"
  shows "snd (import_set now s pack) =
      card (so_object_hash ` set (sp_objects pack) - st_target_hash ` set (sp_tombstones pack) -
        retracted s (sp_namespace pack) - stored s (sp_namespace pack))
    \<and> snd (import_set now (fst (import_set now s pack)) pack) = 0"
proof
  have count: "snd (import_set now u pack) =
      card (so_object_hash ` set (sp_objects pack) - st_target_hash ` set (sp_tombstones pack) -
        retracted u (sp_namespace pack) - stored u (sp_namespace pack))" if "set_store_wf u" for u
    using that by (simp add: import_set_def Let_def split_beta import_objects_count)
  show "snd (import_set now s pack) =
      card (so_object_hash ` set (sp_objects pack) - st_target_hash ` set (sp_tombstones pack) -
        retracted s (sp_namespace pack) - stored s (sp_namespace pack))"
    using assms by (rule count)
  have wf: "set_store_wf (fst (import_set now s pack))" using assms by (rule set_store_wf_import)
  have none: "so_object_hash ` set (sp_objects pack) - st_target_hash ` set (sp_tombstones pack) -
      retracted (fst (import_set now s pack)) (sp_namespace pack) -
      stored (fst (import_set now s pack)) (sp_namespace pack) = {}"
    unfolding wf_stored_live [OF wf] by (auto simp: import_set_views)
  show "snd (import_set now (fst (import_set now s pack)) pack) = 0"
    unfolding count [OF wf] none by simp
qed

theorem set_import_count_witness:
  "set_store_wf store_x \<and> snd (import_set ''t'' store_x pack_1) = 1"
proof -
  have wf: "set_store_wf store_x"
    by (simp add: store_x_eq set_store_wf_def retracted_def column_def)
  have "snd (import_set ''t'' store_x pack_1) = card {''h2''}"
    unfolding set_import_count [OF wf, of "''t''" pack_1, THEN conjunct1]
    by (rule arg_cong [of _ _ card])
      (auto simp: store_x_eq pack_1_def retracted_def stored_def column_def)
  then show ?thesis using wf by simp
qed

end
