(* ===== verification/Graph_Store.thy ===== *)
theory Graph_Store
  imports Visibility Hex_Id "HOL-Library.Product_Lexorder"
begin

text \<open>
  The knowledge-graph store, \<open>spectral-graph/src/graph_store.rs\<close>: entities, bi-temporal
  triples, documents and mentions in four tables, each a list of rows in insertion order. No
  statement of the source deletes from them, so the rowid of a row is its position from 1.
  \<open>last_rowid\<close> is the connection's \<open>last_insert_rowid()\<close>, which a statement that inserts no
  row leaves as it was.

  \<open>'f\<close> is the type of the \<open>f64\<close> columns, which are stored and read back only. \<open>instant\<close> is a
  \<open>DateTime<Utc>\<close>; \<open>chrono\<close> is not part of the repository, so its printer and parser are the
  fields of \<open>graph_env\<close>, and \<open>now\<close> is the value of \<open>Utc::now()\<close> in a call.
\<close>

type_synonym instant = int

record 'f graph_env =
  to_rfc3339 :: "instant \<Rightarrow> string"
  parse_rfc3339 :: "string \<Rightarrow> instant option"
  f_one :: 'f

text \<open>The typed values of the interface.\<close>

record 'f entity =
  ent_id :: id32
  ent_type :: string
  ent_canonical :: string
  ent_visibility :: visibility
  ent_created_at :: instant
  ent_updated_at :: instant
  ent_weight :: 'f
  ent_description :: "string option"

record 'f triple =
  tr_from :: id32
  tr_to :: id32
  tr_predicate :: string
  tr_confidence :: 'f
  tr_source_doc_id :: "byte list option"
  tr_source_brain_id :: id32
  tr_asserted_at :: instant
  tr_visibility :: visibility
  tr_weight :: 'f

record document_node =
  doc_id :: "byte list"
  doc_source :: string
  doc_ingested_at :: instant
  doc_visibility :: visibility

text \<open>The rows, as the schema declares them.\<close>

record 'f entity_row =
  e_id :: "byte list"
  e_type :: string
  e_canonical :: string
  e_visibility :: string
  e_created_at :: string
  e_updated_at :: string
  e_weight :: 'f
  e_description :: "string option"

record 'f triple_row =
  r_rowid :: int
  r_from_id :: "byte list"
  r_to_id :: "byte list"
  r_predicate :: string
  r_confidence :: 'f
  r_source_doc_id :: "byte list option"
  r_source_brain_id :: "byte list"
  r_asserted_at :: string
  r_visibility :: string
  r_weight :: 'f
  r_valid_to :: "string option"
  r_superseded_by :: "int option"
  r_superseded_by_agent :: "string option"

record document_row =
  d_id :: "byte list"
  d_source :: string
  d_ingested_at :: string
  d_visibility :: string

record mention_row =
  mn_doc_id :: "byte list"
  mn_entity_id :: "byte list"
  mn_span_start :: int
  mn_span_end :: int
  mn_extracted_at :: string

record 'f graph =
  g_entity :: "'f entity_row list"
  g_triple :: "'f triple_row list"
  g_document :: "document_row list"
  g_mention :: "mention_row list"
  last_rowid :: int

subsection \<open>Reading rows\<close>

datatype graph_error = Schema schema_error | Core core_error

text \<open>\<open>for r in rows { out.push(f(r)?) }\<close>: the first error ends the loop.\<close>

fun collect :: "('a \<Rightarrow> 'e + 'b) \<Rightarrow> 'a list \<Rightarrow> 'e + 'b list" where
  "collect f [] = Inr []"
| "collect f (x # xs) =
     (case f x of Inl e \<Rightarrow> Inl e
      | Inr y \<Rightarrow> (case collect f xs of Inl e \<Rightarrow> Inl e | Inr ys \<Rightarrow> Inr (y # ys)))"

definition blob32 :: "byte list \<Rightarrow> graph_error + byte list" where
  "blob32 v = (if length v = 32 then Inr v else Inl (Schema (BadBlobLength (length v))))"

definition entity_id_from_blob :: "byte list \<Rightarrow> graph_error + id32" where
  "entity_id_from_blob v =
     (case blob32 v of Inl e \<Rightarrow> Inl e
      | Inr bytes \<Rightarrow> map_sum Core id (entity_id_from_str (to_hex bytes)))"

definition parse_dt :: "'f graph_env \<Rightarrow> string \<Rightarrow> graph_error + instant" where
  "parse_dt G s =
     (case parse_rfc3339 G s of Some t \<Rightarrow> Inr t | None \<Rightarrow> Inl (Schema (InvalidTimestamp s)))"

definition read_visibility :: "string \<Rightarrow> graph_error + visibility" where
  "read_visibility s = map_sum Schema id (str_to_visibility s)"

definition entity_from_row :: "'f graph_env \<Rightarrow> 'f entity_row \<Rightarrow> graph_error + 'f entity" where
  "entity_from_row G r =
     (case entity_id_from_blob (e_id r) of Inl e \<Rightarrow> Inl e | Inr i \<Rightarrow>
      case read_visibility (e_visibility r) of Inl e \<Rightarrow> Inl e | Inr v \<Rightarrow>
      case parse_dt G (e_created_at r) of Inl e \<Rightarrow> Inl e | Inr c \<Rightarrow>
      case parse_dt G (e_updated_at r) of Inl e \<Rightarrow> Inl e | Inr u \<Rightarrow>
      Inr \<lparr>ent_id = i, ent_type = e_type r, ent_canonical = e_canonical r, ent_visibility = v,
           ent_created_at = c, ent_updated_at = u, ent_weight = e_weight r,
           ent_description =
             (case e_description r of Some s \<Rightarrow> if s = [] then None else Some s | None \<Rightarrow> None)\<rparr>)"

definition triple_from_row :: "'f graph_env \<Rightarrow> 'f triple_row \<Rightarrow> graph_error + 'f triple" where
  "triple_from_row G r =
     (case entity_id_from_blob (r_from_id r) of Inl e \<Rightarrow> Inl e | Inr f \<Rightarrow>
      case entity_id_from_blob (r_to_id r) of Inl e \<Rightarrow> Inl e | Inr t \<Rightarrow>
      case (case r_source_doc_id r of None \<Rightarrow> Inr None
            | Some v \<Rightarrow> map_sum id Some (blob32 v)) of Inl e \<Rightarrow> Inl e | Inr d \<Rightarrow>
      case blob32 (r_source_brain_id r) of Inl e \<Rightarrow> Inl e | Inr b \<Rightarrow>
      case parse_dt G (r_asserted_at r) of Inl e \<Rightarrow> Inl e | Inr a \<Rightarrow>
      case read_visibility (r_visibility r) of Inl e \<Rightarrow> Inl e | Inr v \<Rightarrow>
      Inr \<lparr>tr_from = f, tr_to = t, tr_predicate = r_predicate r, tr_confidence = r_confidence r,
           tr_source_doc_id = d, tr_source_brain_id = b, tr_asserted_at = a,
           tr_visibility = v, tr_weight = r_weight r\<rparr>)"

definition document_from_row :: "'f graph_env \<Rightarrow> document_row \<Rightarrow> graph_error + document_node" where
  "document_from_row G r =
     (case blob32 (d_id r) of Inl e \<Rightarrow> Inl e | Inr i \<Rightarrow>
      case parse_dt G (d_ingested_at r) of Inl e \<Rightarrow> Inl e | Inr t \<Rightarrow>
      case read_visibility (d_visibility r) of Inl e \<Rightarrow> Inl e | Inr v \<Rightarrow>
      Inr \<lparr>doc_id = i, doc_source = d_source r, doc_ingested_at = t, doc_visibility = v\<rparr>)"

subsection \<open>Schema\<close>

text \<open>
  \<open>create_schema\<close> followed by \<open>migrate_bitemporal_triple\<close>, on the list of columns of the
  \<open>triple\<close> table (\<open>None\<close>: no such table yet). Each \<open>ALTER TABLE\<close> is guarded by a fresh
  look at the columns.
\<close>

definition base_triple_columns :: "string list" where
  "base_triple_columns =
     [''from_id'', ''to_id'', ''predicate'', ''confidence'', ''source_doc_id'',
      ''source_brain_id'', ''asserted_at'', ''visibility'', ''weight'']"

definition migrate_bitemporal_triple :: "string list \<Rightarrow> string list" where
  "migrate_bitemporal_triple cols =
     (let cols1 = (if ''valid_to'' \<in> set cols then cols else cols @ [''valid_to''])
      in if ''superseded_by'' \<in> set cols1 then cols1
         else cols1 @ [''superseded_by'', ''superseded_by_agent''])"

definition create_schema :: "string list option \<Rightarrow> string list" where
  "create_schema table =
     migrate_bitemporal_triple (case table of None \<Rightarrow> base_triple_columns | Some cols \<Rightarrow> cols)"

definition empty_graph :: "'f graph" where
  "empty_graph = \<lparr>g_entity = [], g_triple = [], g_document = [], g_mention = [], last_rowid = 0\<rparr>"

subsection \<open>Entities\<close>

definition entity_exists :: "'f graph \<Rightarrow> byte list \<Rightarrow> bool" where
  "entity_exists g i \<longleftrightarrow> (\<exists>r \<in> set (g_entity g). e_id r = i)"

text \<open>The rowid an \<open>INSERT .. ON CONFLICT DO UPDATE\<close> leaves behind: only an insertion sets it.\<close>

definition rowid_after :: "bool \<Rightarrow> 'r list \<Rightarrow> int \<Rightarrow> int" where
  "rowid_after inserted table old = (if inserted then int (length table) + 1 else old)"

definition upsert_entity :: "'f graph_env \<Rightarrow> 'f entity \<Rightarrow> 'f graph \<Rightarrow> 'f graph" where
  "upsert_entity G ent g =
     (let row = \<lparr>e_id = ent_id ent, e_type = ent_type ent, e_canonical = ent_canonical ent,
                 e_visibility = visibility_to_str (ent_visibility ent),
                 e_created_at = to_rfc3339 G (ent_created_at ent),
                 e_updated_at = to_rfc3339 G (ent_updated_at ent),
                 e_weight = ent_weight ent, e_description = None\<rparr>
      in g\<lparr>g_entity := upsert e_id row
              (\<lambda>old. row\<lparr>e_description := e_description old\<rparr>) (g_entity g),
           last_rowid := rowid_after (\<not> entity_exists g (e_id row)) (g_entity g) (last_rowid g)\<rparr>)"

definition get_entity_conn :: "'f graph_env \<Rightarrow> 'f graph \<Rightarrow> id32 \<Rightarrow> graph_error + 'f entity option" where
  "get_entity_conn G g i =
     (case select_first (\<lambda>r. e_id r = i) (g_entity g) of
        None \<Rightarrow> Inr None
      | Some r \<Rightarrow> map_sum id Some (entity_from_row G r))"

definition set_entity_description ::
    "'f graph_env \<Rightarrow> instant \<Rightarrow> id32 \<Rightarrow> string \<Rightarrow> 'f graph \<Rightarrow> 'f graph" where
  "set_entity_description G now i description g =
     (let row = \<lparr>e_id = i, e_type = [], e_canonical = [], e_visibility = ''private'',
                 e_created_at = to_rfc3339 G now, e_updated_at = to_rfc3339 G now,
                 e_weight = f_one G, e_description = Some description\<rparr>
      in g\<lparr>g_entity := upsert e_id row (\<lambda>old. old\<lparr>e_description := Some description\<rparr>) (g_entity g),
           last_rowid := rowid_after (\<not> entity_exists g i) (g_entity g) (last_rowid g)\<rparr>)"

subsection \<open>Triples\<close>

definition triple_to_row :: "'f graph_env \<Rightarrow> int \<Rightarrow> 'f triple \<Rightarrow> 'f triple_row" where
  "triple_to_row G rowid t =
     \<lparr>r_rowid = rowid, r_from_id = tr_from t, r_to_id = tr_to t, r_predicate = tr_predicate t,
      r_confidence = tr_confidence t, r_source_doc_id = tr_source_doc_id t,
      r_source_brain_id = tr_source_brain_id t, r_asserted_at = to_rfc3339 G (tr_asserted_at t),
      r_visibility = visibility_to_str (tr_visibility t), r_weight = tr_weight t,
      r_valid_to = None, r_superseded_by = None, r_superseded_by_agent = None\<rparr>"

text \<open>\<open>INSERT .. SELECT .. WHERE EXISTS (from) AND EXISTS (to)\<close>.\<close>

definition insert_triple :: "'f graph_env \<Rightarrow> 'f triple \<Rightarrow> 'f graph \<Rightarrow> 'f graph" where
  "insert_triple G t g =
     (if entity_exists g (tr_from t) \<and> entity_exists g (tr_to t)
      then let n = int (length (g_triple g)) + 1
           in g\<lparr>g_triple := g_triple g @ [triple_to_row G n t], last_rowid := n\<rparr>
      else g)"

text \<open>A row that is live in the slot \<open>(from, predicate)\<close> with an object other than \<open>keep\<close>.\<close>

definition conflicts :: "byte list \<Rightarrow> string \<Rightarrow> byte list \<Rightarrow> 'f triple_row \<Rightarrow> bool" where
  "conflicts fr p keep r \<longleftrightarrow>
     r_from_id r = fr \<and> r_predicate r = p \<and> r_to_id r \<noteq> keep \<and> r_valid_to r = None"

definition retire :: "string \<Rightarrow> int \<Rightarrow> string option \<Rightarrow> 'f triple_row \<Rightarrow> 'f triple_row" where
  "retire now by agent r =
     r\<lparr>r_valid_to := Some now, r_superseded_by := Some by, r_superseded_by_agent := agent\<rparr>"

definition insert_triple_superseding_by ::
    "'f graph_env \<Rightarrow> 'f triple \<Rightarrow> string option \<Rightarrow> 'f graph \<Rightarrow> 'f graph \<times> nat" where
  "insert_triple_superseding_by G t agent g =
     (let fr = tr_from t; now = to_rfc3339 G (tr_asserted_at t);
          already = count_where (\<lambda>r. r_from_id r = fr \<and> r_predicate r = tr_predicate t \<and>
                      r_to_id r = tr_to t \<and> r_valid_to r = None) (g_triple g)
      in if already > 0 then (g, 0)
         else let g1 = insert_triple G t g;
                  new_rowid = last_rowid g1;
                  P = conflicts fr (tr_predicate t) (tr_to t)
              in (g1\<lparr>g_triple := update_where P (retire now new_rowid agent) (g_triple g1)\<rparr>,
                  count_where P (g_triple g1)))"

definition insert_triple_superseding ::
    "'f graph_env \<Rightarrow> 'f triple \<Rightarrow> 'f graph \<Rightarrow> 'f graph \<times> nat" where
  "insert_triple_superseding G t g = insert_triple_superseding_by G t None g"

definition retire_conflicting_objects ::
    "'f graph_env \<Rightarrow> instant \<Rightarrow> id32 \<Rightarrow> string \<Rightarrow> id32 \<Rightarrow> string \<Rightarrow> 'f graph \<Rightarrow> 'f graph \<times> nat" where
  "retire_conflicting_objects G now fr p keep agent g =
     (case select_first (\<lambda>r. r_from_id r = fr \<and> r_predicate r = p \<and> r_to_id r = keep \<and>
             r_valid_to r = None) (g_triple g) of
        None \<Rightarrow> (g, 0)
      | Some survivor \<Rightarrow>
          let P = conflicts fr p keep
          in (g\<lparr>g_triple := update_where P
                 (retire (to_rfc3339 G now) (r_rowid survivor) (Some agent)) (g_triple g)\<rparr>,
              count_where P (g_triple g)))"

definition undo_supersession ::
    "'f graph_env \<Rightarrow> instant \<Rightarrow> int \<Rightarrow> 'f graph \<Rightarrow> 'f graph \<times> nat" where
  "undo_supersession G now superseding_rowid g =
     (let P = (\<lambda>r. r_superseded_by r = Some superseding_rowid);
          reinstated = count_where P (g_triple g);
          ts = update_where P (\<lambda>r. r\<lparr>r_valid_to := None, r_superseded_by := None,
                 r_superseded_by_agent := None\<rparr>) (g_triple g);
          ts' = (if reinstated > 0
                 then update_where (\<lambda>r. r_rowid r = superseding_rowid \<and> r_valid_to r = None)
                        (\<lambda>r. r\<lparr>r_valid_to := Some (to_rfc3339 G now)\<rparr>) ts
                 else ts)
      in (g\<lparr>g_triple := ts'\<rparr>, reinstated))"

subsection \<open>Queries\<close>

text \<open>The \<open>WHERE\<close> clause built from the optional arguments: \<open>None\<close> is a wildcard.\<close>

definition pattern ::
    "id32 option \<Rightarrow> id32 option \<Rightarrow> string option \<Rightarrow> 'f triple_row \<Rightarrow> bool" where
  "pattern fr t p r \<longleftrightarrow>
     (case fr of Some f \<Rightarrow> r_from_id r = f | None \<Rightarrow> True) \<and>
     (case t of Some i \<Rightarrow> r_to_id r = i | None \<Rightarrow> True) \<and>
     (case p of Some q \<Rightarrow> r_predicate r = q | None \<Rightarrow> True)"

definition find_triples_including_superseded ::
    "'f graph_env \<Rightarrow> 'f graph \<Rightarrow> id32 option \<Rightarrow> id32 option \<Rightarrow> string option \<Rightarrow>
      graph_error + ('f triple \<times> string option) list" where
  "find_triples_including_superseded G g fr t p =
     collect (\<lambda>r. map_sum id (\<lambda>x. (x, r_valid_to r)) (triple_from_row G r))
       (filter (pattern fr t p) (g_triple g))"

definition find_triples ::
    "'f graph_env \<Rightarrow> 'f graph \<Rightarrow> id32 option \<Rightarrow> id32 option \<Rightarrow> string option \<Rightarrow>
      graph_error + 'f triple list" where
  "find_triples G g fr t p =
     collect (triple_from_row G)
       (filter (\<lambda>r. pattern fr t p r \<and> r_valid_to r = None) (g_triple g))"

definition find_triples_by_doc ::
    "'f graph_env \<Rightarrow> 'f graph \<Rightarrow> byte list \<Rightarrow> graph_error + 'f triple list" where
  "find_triples_by_doc G g doc =
     collect (triple_from_row G)
       (filter (\<lambda>r. r_source_doc_id r = Some doc \<and> r_valid_to r = None) (g_triple g))"

definition find_triples_as_of ::
    "'f graph_env \<Rightarrow> 'f graph \<Rightarrow> id32 option \<Rightarrow> id32 option \<Rightarrow> string option \<Rightarrow> instant \<Rightarrow>
      graph_error + 'f triple list" where
  "find_triples_as_of G g fr t p as_of =
     (case find_triples_including_superseded G g fr t p of
        Inl e \<Rightarrow> Inl e
      | Inr all_rows \<Rightarrow>
          let stamp = to_rfc3339 G as_of
          in Inr (map fst (filter (\<lambda>(x, valid_to). tr_asserted_at x \<le> as_of \<and>
                (case valid_to of None \<Rightarrow> True | Some v \<Rightarrow> v > stamp)) all_rows)))"

text \<open>
  \<open>multi_valued_live_groups\<close>: the live rows of every slot with more than one of them, in the
  query's order, grouped by the loop; a group beyond the limit ends it.
\<close>

type_synonym live_object = "int \<times> id32 \<times> instant"
type_synonym live_slot = "id32 \<times> string \<times> live_object list"

definition live_multi_rows :: "'f graph \<Rightarrow> 'f triple_row list" where
  "live_multi_rows g =
     (let live = filter (\<lambda>r. r_valid_to r = None) (g_triple g)
      in sort_key (\<lambda>r. (r_from_id r, r_predicate r, r_asserted_at r, r_rowid r))
           (filter (\<lambda>r. count_where (\<lambda>q. r_from_id q = r_from_id r \<and> r_predicate q = r_predicate r) live > 1)
              live))"

fun group_slots ::
    "'f graph_env \<Rightarrow> instant \<Rightarrow> nat \<Rightarrow> 'f triple_row list \<Rightarrow> live_slot list \<Rightarrow> graph_error + live_slot list"
where
  "group_slots G now limit [] grouped = Inr grouped"
| "group_slots G now limit (r # rs) grouped =
     (case entity_id_from_blob (r_from_id r) of Inl e \<Rightarrow> Inl e | Inr fr \<Rightarrow>
      case entity_id_from_blob (r_to_id r) of Inl e \<Rightarrow> Inl e | Inr t \<Rightarrow>
      let ts = (case parse_rfc3339 G (r_asserted_at r) of Some d \<Rightarrow> d | None \<Rightarrow> now);
          obj = (r_rowid r, t, ts)
      in if grouped \<noteq> [] \<and> fst (last grouped) = fr \<and> fst (snd (last grouped)) = r_predicate r
         then group_slots G now limit rs
                (butlast grouped @ [(fr, r_predicate r, snd (snd (last grouped)) @ [obj])])
         else if length grouped \<ge> limit then Inr grouped
         else group_slots G now limit rs (grouped @ [(fr, r_predicate r, [obj])]))"

definition multi_valued_live_groups ::
    "'f graph_env \<Rightarrow> instant \<Rightarrow> 'f graph \<Rightarrow> nat \<Rightarrow> graph_error + live_slot list" where
  "multi_valued_live_groups G now g limit = group_slots G now limit (live_multi_rows g) []"

subsection \<open>Documents and mentions\<close>

definition upsert_document ::
    "'f graph_env \<Rightarrow> instant \<Rightarrow> byte list \<Rightarrow> string \<Rightarrow> visibility \<Rightarrow> 'f graph \<Rightarrow> 'f graph" where
  "upsert_document G now i source v g =
     (let row = \<lparr>d_id = i, d_source = source, d_ingested_at = to_rfc3339 G now,
                 d_visibility = visibility_to_str v\<rparr>
      in g\<lparr>g_document := upsert d_id row (\<lambda>_. row) (g_document g),
           last_rowid := rowid_after (\<not> (\<exists>r \<in> set (g_document g). d_id r = i))
                           (g_document g) (last_rowid g)\<rparr>)"

definition mention_pk :: "mention_row \<Rightarrow> byte list \<times> byte list" where
  "mention_pk m = (mn_doc_id m, mn_entity_id m)"

definition insert_mention ::
    "'f graph_env \<Rightarrow> instant \<Rightarrow> byte list \<Rightarrow> id32 \<Rightarrow> int \<Rightarrow> int \<Rightarrow> 'f graph \<Rightarrow> 'f graph" where
  "insert_mention G now doc ent span_start span_end g =
     (if (\<exists>r \<in> set (g_document g). d_id r = doc) \<and> entity_exists g ent
      then let row = \<lparr>mn_doc_id = doc, mn_entity_id = ent, mn_span_start = span_start,
                      mn_span_end = span_end, mn_extracted_at = to_rfc3339 G now\<rparr>
           in g\<lparr>g_mention := upsert mention_pk row (\<lambda>_. row) (g_mention g),
                last_rowid := rowid_after (mention_pk row \<notin> mention_pk ` set (g_mention g))
                                (g_mention g) (last_rowid g)\<rparr>
      else g)"

definition count_mentions :: "'f graph \<Rightarrow> byte list \<Rightarrow> id32 \<Rightarrow> nat" where
  "count_mentions g doc ent =
     count_where (\<lambda>m. mn_doc_id m = doc \<and> mn_entity_id m = ent) (g_mention g)"

subsection \<open>Neighborhood\<close>

definition find_triples_directed ::
    "'f graph_env \<Rightarrow> 'f graph \<Rightarrow> id32 \<Rightarrow> bool \<Rightarrow> graph_error + 'f triple list" where
  "find_triples_directed G g i outgoing =
     collect (triple_from_row G)
       (filter (\<lambda>r. if outgoing then r_from_id r = i else r_to_id r = i) (g_triple g))"

definition find_mentioning_documents ::
    "'f graph_env \<Rightarrow> 'f graph \<Rightarrow> id32 \<Rightarrow> graph_error + document_node list" where
  "find_mentioning_documents G g ent =
     collect (document_from_row G)
       (concat (map (\<lambda>d. map (\<lambda>_. d)
          (filter (\<lambda>m. mn_doc_id m = d_id d \<and> mn_entity_id m = ent) (g_mention g))) (g_document g)))"

definition MAX_FRONTIER :: nat where "MAX_FRONTIER = 512"
definition MAX_TRIPLES :: nat where "MAX_TRIPLES = 10000"
definition MAX_DOCUMENTS :: nat where "MAX_DOCUMENTS = 100"

text \<open>The variables of the traversal. \<open>HashSet\<close>s are sets; only membership is asked of them.\<close>

record 'f bfs =
  visited :: "id32 set"
  seen_edges :: "(id32 \<times> id32 \<times> string) set"
  all_entities :: "'f entity list"
  all_triples :: "'f triple list"
  next_frontier :: "id32 list"
  truncated :: bool

text \<open>The body of the inner loops: mark the far end, then record the edge.\<close>

definition visit_end :: "'f graph_env \<Rightarrow> 'f graph \<Rightarrow> id32 \<Rightarrow> 'f bfs \<Rightarrow> graph_error + 'f bfs" where
  "visit_end G g other b =
     (if other \<in> visited b then Inr b
      else case get_entity_conn G g other of
             Inl e \<Rightarrow> Inl e
           | Inr found \<Rightarrow>
               Inr (b\<lparr>visited := insert other (visited b),
                      next_frontier := next_frontier b @ [other],
                      all_entities := all_entities b @ (case found of None \<Rightarrow> [] | Some x \<Rightarrow> [x])\<rparr>))"

definition record_edge :: "'f triple \<Rightarrow> 'f bfs \<Rightarrow> 'f bfs" where
  "record_edge t b =
     (let key = (tr_from t, tr_to t, tr_predicate t)
      in if key \<in> seen_edges b then b
         else b\<lparr>seen_edges := insert key (seen_edges b), all_triples := all_triples b @ [t]\<rparr>)"

definition over_budget :: "'f bfs \<Rightarrow> bool" where
  "over_budget b \<longleftrightarrow>
     length (all_triples b) \<ge> MAX_TRIPLES \<or> length (next_frontier b) \<ge> MAX_FRONTIER"

text \<open>One \<open>for triple in ..\<close> loop; the boolean says that it left the hop.\<close>

fun scan_triples ::
    "'f graph_env \<Rightarrow> 'f graph \<Rightarrow> bool \<Rightarrow> 'f triple list \<Rightarrow> 'f bfs \<Rightarrow> graph_error + 'f bfs \<times> bool" where
  "scan_triples G g outgoing [] b = Inr (b, False)"
| "scan_triples G g outgoing (t # ts) b =
     (case visit_end G g (if outgoing then tr_to t else tr_from t) b of
        Inl e \<Rightarrow> Inl e
      | Inr b1 \<Rightarrow>
          let b2 = record_edge t b1
          in if over_budget b2 then Inr (b2\<lparr>truncated := True\<rparr>, True)
             else scan_triples G g outgoing ts b2)"

definition expand_id ::
    "'f graph_env \<Rightarrow> 'f graph \<Rightarrow> id32 \<Rightarrow> 'f bfs \<Rightarrow> graph_error + 'f bfs \<times> bool" where
  "expand_id G g i b =
     (case find_triples_directed G g i True of Inl e \<Rightarrow> Inl e | Inr out_ts \<Rightarrow>
      case scan_triples G g True out_ts b of Inl e \<Rightarrow> Inl e | Inr (b1, broke) \<Rightarrow>
      if broke then Inr (b1, True)
      else case find_triples_directed G g i False of Inl e \<Rightarrow> Inl e | Inr in_ts \<Rightarrow>
           scan_triples G g False in_ts b1)"

text \<open>The loop labelled \<open>'hop\<close> over the frontier, and the loop over the hops.\<close>

fun expand_hop ::
    "'f graph_env \<Rightarrow> 'f graph \<Rightarrow> id32 list \<Rightarrow> 'f bfs \<Rightarrow> graph_error + 'f bfs" where
  "expand_hop G g [] b = Inr b"
| "expand_hop G g (i # is) b =
     (case expand_id G g i b of Inl e \<Rightarrow> Inl e
      | Inr (b1, broke) \<Rightarrow> if broke then Inr b1 else expand_hop G g is b1)"

fun hops ::
    "'f graph_env \<Rightarrow> 'f graph \<Rightarrow> nat \<Rightarrow> id32 list \<Rightarrow> 'f bfs \<Rightarrow> graph_error + 'f bfs" where
  "hops G g 0 frontier b = Inr b"
| "hops G g (Suc n) frontier b =
     (if frontier = [] then Inr b
      else case expand_hop G g frontier (b\<lparr>next_frontier := []\<rparr>) of
             Inl e \<Rightarrow> Inl e
           | Inr b1 \<Rightarrow> hops G g n (next_frontier b1) b1)"

text \<open>The document scan: a document is kept once, and the cap ends both loops.\<close>

fun add_documents :: "document_node list \<Rightarrow> document_node list \<Rightarrow> document_node list \<times> bool" where
  "add_documents [] acc = (acc, False)"
| "add_documents (d # ds) acc =
     (if doc_id d \<in> doc_id ` set acc then add_documents ds acc
      else if length (acc @ [d]) \<ge> MAX_DOCUMENTS then (acc @ [d], True)
      else add_documents ds (acc @ [d]))"

fun scan_documents ::
    "'f graph_env \<Rightarrow> 'f graph \<Rightarrow> id32 list \<Rightarrow> document_node list \<Rightarrow> graph_error + document_node list" where
  "scan_documents G g [] acc = Inr acc"
| "scan_documents G g (i # is) acc =
     (case find_mentioning_documents G g i of Inl e \<Rightarrow> Inl e
      | Inr ds \<Rightarrow> let (acc1, full) = add_documents ds acc
                 in if full then Inr acc1 else scan_documents G g is acc1)"

record 'f neighborhood =
  nb_entities :: "'f entity list"
  nb_triples :: "'f triple list"
  nb_documents :: "document_node list"
  nb_truncated :: bool

definition neighborhood ::
    "'f graph_env \<Rightarrow> 'f graph \<Rightarrow> id32 \<Rightarrow> nat \<Rightarrow> graph_error + 'f neighborhood" where
  "neighborhood G g start max_hops =
     (case get_entity_conn G g start of Inl e \<Rightarrow> Inl e | Inr found \<Rightarrow>
      let b0 = \<lparr>visited = {start}, seen_edges = {},
                all_entities = (case found of None \<Rightarrow> [] | Some x \<Rightarrow> [x]),
                all_triples = [], next_frontier = [], truncated = False\<rparr>
      in case hops G g max_hops [start] b0 of Inl e \<Rightarrow> Inl e | Inr b \<Rightarrow>
         case scan_documents G g (sorted_list_of_set (visited b)) [] of Inl e \<Rightarrow> Inl e | Inr ds \<Rightarrow>
         Inr \<lparr>nb_entities = all_entities b, nb_triples = all_triples b,
              nb_documents = ds, nb_truncated = truncated b\<rparr>)"

end
