(* ===== verification/Graph_Slots.thy ===== *)
theory Graph_Slots
  imports Graph_Store
begin

text \<open>
  Assertions on the graph: the ontology's cardinality test and the write of a triple
  (\<open>brain.rs\<close>), and what supersession guarantees. A \<open>slot\<close> is a subject with a predicate; its
  live rows are those with no end of validity.
\<close>

subsection \<open>Writing an assertion\<close>

text \<open>\<open>OntologyPredicate\<close> (\<open>ontology.rs\<close>).\<close>

record ontology_predicate =
  op_name :: string
  op_domain :: "string list"
  op_range :: "string list"
  op_symmetric :: bool
  op_single_valued :: bool
  op_single_valued_for :: "string list"

definition predicate_is_single_valued :: "ontology_predicate list \<Rightarrow> string \<Rightarrow> string \<Rightarrow> bool" where
  "predicate_is_single_valued preds p subject_type \<longleftrightarrow>
     list_ex (\<lambda>d. if op_name d \<noteq> p then False
                 else if subject_type \<in> set (op_single_valued_for d) then True
                 else op_single_valued d \<and>
                      (op_domain d = [] \<or> subject_type \<in> set (op_domain d))) preds"

text \<open>The fields of \<open>MatchedMention\<close> that the write reads.\<close>

record matched_mention =
  mm_entity_id :: id32
  mm_entity_type :: string
  mm_canonical :: string

record assert_result =
  triple_written :: bool
  ar_subject :: matched_mention
  ar_predicate :: string
  ar_object :: matched_mention
  ar_superseded :: nat

definition mention_entity ::
    "'f graph_env \<Rightarrow> instant \<Rightarrow> visibility \<Rightarrow> matched_mention \<Rightarrow> 'f entity" where
  "mention_entity G now v m =
     \<lparr>ent_id = mm_entity_id m, ent_type = mm_entity_type m, ent_canonical = mm_canonical m,
      ent_visibility = v, ent_created_at = now, ent_updated_at = now, ent_weight = f_one G,
      ent_description = None\<rparr>"

definition write_triple_with_doc ::
    "'f graph_env \<Rightarrow> ontology_predicate list \<Rightarrow> id32 \<Rightarrow> instant \<Rightarrow> matched_mention \<Rightarrow> string \<Rightarrow>
      matched_mention \<Rightarrow> 'f \<Rightarrow> visibility \<Rightarrow> byte list option \<Rightarrow> 'f graph \<Rightarrow> 'f graph \<times> assert_result" where
  "write_triple_with_doc G preds self_id now subject p object confidence v doc g =
     (let g1 = upsert_entity G (mention_entity G now v subject) g;
          g2 = upsert_entity G (mention_entity G now v object) g1;
          edge = \<lparr>tr_from = mm_entity_id subject, tr_to = mm_entity_id object, tr_predicate = p,
                  tr_confidence = confidence, tr_source_doc_id = doc, tr_source_brain_id = self_id,
                  tr_asserted_at = now, tr_visibility = v, tr_weight = f_one G\<rparr>;
          (g3, superseded) =
            (if predicate_is_single_valued preds p (mm_entity_type subject)
             then insert_triple_superseding G edge g2
             else (insert_triple G edge g2, 0))
      in (g3, \<lparr>triple_written = True, ar_subject = subject, ar_predicate = p, ar_object = object,
               ar_superseded = superseded\<rparr>))"

definition write_triple ::
    "'f graph_env \<Rightarrow> ontology_predicate list \<Rightarrow> id32 \<Rightarrow> instant \<Rightarrow> matched_mention \<Rightarrow> string \<Rightarrow>
      matched_mention \<Rightarrow> 'f \<Rightarrow> visibility \<Rightarrow> 'f graph \<Rightarrow> 'f graph \<times> assert_result" where
  "write_triple G preds self_id now subject p object confidence v g =
     write_triple_with_doc G preds self_id now subject p object confidence v None g"

subsection \<open>Slots\<close>

definition in_slot :: "id32 \<Rightarrow> string \<Rightarrow> 'f triple_row \<Rightarrow> bool" where
  "in_slot fr p r \<longleftrightarrow> r_from_id r = fr \<and> r_predicate r = p \<and> r_valid_to r = None"

definition slot_rows :: "'f graph \<Rightarrow> id32 \<Rightarrow> string \<Rightarrow> 'f triple_row list" where
  "slot_rows g fr p = filter (in_slot fr p) (g_triple g)"

lemma conflicts_iff: "conflicts fr p keep r \<longleftrightarrow> in_slot fr p r \<and> r_to_id r \<noteq> keep"
  by (auto simp: conflicts_def in_slot_def)

lemma retire_not_in_slot [simp]: "\<not> in_slot f q (retire now by agent r)"
  by (simp add: in_slot_def retire_def)

lemma filter_retire:
  "filter (in_slot f q) (update_where P (retire now by agent) ts) =
     filter (\<lambda>r. in_slot f q r \<and> \<not> P r) ts"
  by (induction ts) (auto simp: update_where_def)

lemma entity_exists_image: "entity_exists g i \<longleftrightarrow> i \<in> e_id ` set (g_entity g)"
  by (auto simp: entity_exists_def)

lemma entity_exists_upsert [simp]:
  "entity_exists (upsert_entity G ent g) i \<longleftrightarrow> i = ent_id ent \<or> entity_exists g i"
proof -
  have "e_id ` set (g_entity (upsert_entity G ent g)) = insert (ent_id ent) (e_id ` set (g_entity g))"
    unfolding upsert_entity_def Let_def by (simp add: keys_upsert)
  then show ?thesis by (simp only: entity_exists_image insert_iff)
qed

lemma g_triple_upsert [simp]: "g_triple (upsert_entity G ent g) = g_triple g"
  by (simp add: upsert_entity_def Let_def)

lemma in_slot_triple_to_row [simp]:
  "in_slot f q (triple_to_row G n t) \<longleftrightarrow> tr_from t = f \<and> tr_predicate t = q"
  by (simp add: in_slot_def triple_to_row_def)

lemma r_to_id_triple_to_row [simp]: "r_to_id (triple_to_row G n t) = tr_to t"
  by (simp add: triple_to_row_def)

text \<open>The effect of a superseding insertion on every slot.\<close>

lemma slot_rows_superseding:
  assumes "entity_exists g (tr_from t)" and "entity_exists g (tr_to t)"
    and fresh: "\<forall>r \<in> set (slot_rows g (tr_from t) (tr_predicate t)). r_to_id r \<noteq> tr_to t"
  shows "slot_rows (fst (insert_triple_superseding_by G t agent g)) f q =
      (if f = tr_from t \<and> q = tr_predicate t
       then [triple_to_row G (int (length (g_triple g)) + 1) t] else slot_rows g f q)
    \<and> snd (insert_triple_superseding_by G t agent g) =
      length (slot_rows g (tr_from t) (tr_predicate t))"
proof -
  let ?P = "conflicts (tr_from t) (tr_predicate t) (tr_to t)"
  have old: "filter (\<lambda>r. in_slot f q r \<and> \<not> ?P r) (g_triple g) =
      (if f = tr_from t \<and> q = tr_predicate t then [] else filter (in_slot f q) (g_triple g))"
    using fresh by (auto simp: filter_empty_conv conflicts_iff slot_rows_def intro!: filter_cong)
      (auto simp: in_slot_def)
  have cnt: "filter ?P (g_triple g) = slot_rows g (tr_from t) (tr_predicate t)"
    using fresh by (auto simp: slot_rows_def conflicts_iff intro!: filter_cong)
  have "\<not> count_where (\<lambda>r. r_from_id r = tr_from t \<and> r_predicate r = tr_predicate t \<and>
      r_to_id r = tr_to t \<and> r_valid_to r = None) (g_triple g) > 0"
    using fresh by (auto simp: slot_rows_def in_slot_def)
  with assms(1,2) old cnt show ?thesis
    by (auto simp: insert_triple_superseding_by_def Let_def insert_triple_def slot_rows_def
        filter_retire count_where_def conflicts_iff)
qed

lemma slot_rows_superseding_already:
  assumes "\<exists>r \<in> set (slot_rows g (tr_from t) (tr_predicate t)). r_to_id r = tr_to t"
  shows "insert_triple_superseding_by G t agent g = (g, 0)"
proof -
  have "count_where (\<lambda>r. r_from_id r = tr_from t \<and> r_predicate r = tr_predicate t \<and>
      r_to_id r = tr_to t \<and> r_valid_to r = None) (g_triple g) \<noteq> 0"
    using assms unfolding count_where_0 by (auto simp: slot_rows_def in_slot_def)
  then have "count_where (\<lambda>r. r_from_id r = tr_from t \<and> r_predicate r = tr_predicate t \<and>
      r_to_id r = tr_to t \<and> r_valid_to r = None) (g_triple g) > 0"
    by (simp only: neq0_conv)
  then show ?thesis unfolding insert_triple_superseding_by_def Let_def by (simp only: if_True)
qed

lemma slot_rows_insert:
  "slot_rows (insert_triple G t g) f q =
     slot_rows g f q @
       (if entity_exists g (tr_from t) \<and> entity_exists g (tr_to t) \<and> f = tr_from t \<and> q = tr_predicate t
        then [triple_to_row G (int (length (g_triple g)) + 1) t] else [])"
  by (auto simp: insert_triple_def slot_rows_def Let_def)

lemma slot_rows_upsert [simp]: "slot_rows (upsert_entity G ent g) f q = slot_rows g f q"
  by (simp add: slot_rows_def)

subsection \<open>The latest assertion wins\<close>

text \<open>One call of \<open>write_triple_with_doc\<close>, and a sequence of them.\<close>

record 'f assertion =
  w_now :: instant
  w_subject :: matched_mention
  w_predicate :: string
  w_object :: matched_mention
  w_confidence :: 'f
  w_visibility :: visibility
  w_doc :: "byte list option"

definition do_write ::
    "'f graph_env \<Rightarrow> ontology_predicate list \<Rightarrow> id32 \<Rightarrow> 'f assertion \<Rightarrow> 'f graph \<Rightarrow> 'f graph" where
  "do_write G preds self_id w g =
     fst (write_triple_with_doc G preds self_id (w_now w) (w_subject w) (w_predicate w) (w_object w)
            (w_confidence w) (w_visibility w) (w_doc w) g)"

definition do_writes ::
    "'f graph_env \<Rightarrow> ontology_predicate list \<Rightarrow> id32 \<Rightarrow> 'f assertion list \<Rightarrow> 'f graph \<Rightarrow> 'f graph" where
  "do_writes G preds self_id ws g = fold (do_write G preds self_id) ws g"

definition to_slot :: "id32 \<Rightarrow> string \<Rightarrow> 'f assertion \<Rightarrow> bool" where
  "to_slot f q w \<longleftrightarrow> mm_entity_id (w_subject w) = f \<and> w_predicate w = q"

definition slot_objects :: "'f graph \<Rightarrow> id32 \<Rightarrow> string \<Rightarrow> byte list list" where
  "slot_objects g f q = map r_to_id (slot_rows g f q)"

lemma slot_objects_superseding:
  assumes "entity_exists g (tr_from t)" and "entity_exists g (tr_to t)"
    and "length (slot_objects g (tr_from t) (tr_predicate t)) \<le> 1"
  shows "slot_objects (fst (insert_triple_superseding_by G t agent g)) f q =
    (if f = tr_from t \<and> q = tr_predicate t then [tr_to t] else slot_objects g f q)"
proof (cases "\<exists>r \<in> set (slot_rows g (tr_from t) (tr_predicate t)). r_to_id r = tr_to t")
  case True
  then obtain r where "slot_rows g (tr_from t) (tr_predicate t) = [r]" "r_to_id r = tr_to t"
    using assms(3) by (cases "slot_rows g (tr_from t) (tr_predicate t)")
      (auto simp: slot_objects_def)
  then show ?thesis
    by (auto simp: slot_rows_superseding_already[OF True] slot_objects_def)
next
  case False
  then have fresh: "\<forall>r \<in> set (slot_rows g (tr_from t) (tr_predicate t)). r_to_id r \<noteq> tr_to t"
    by blast
  show ?thesis
    by (simp add: slot_objects_def slot_rows_superseding[OF assms(1,2) fresh, THEN conjunct1])
qed

lemma slot_objects_other:
  assumes "\<not> (f = tr_from t \<and> q = tr_predicate t)"
  shows "slot_objects (fst (insert_triple_superseding_by G t agent g)) f q = slot_objects g f q"
proof -
  have "filter (\<lambda>r. in_slot f q r \<and> \<not> conflicts (tr_from t) (tr_predicate t) (tr_to t) r) ts =
      filter (in_slot f q) ts" for ts :: "'a triple_row list"
    using assms by (auto simp: in_slot_def conflicts_def intro!: filter_cong)
  with assms show ?thesis
    by (auto simp: slot_objects_def insert_triple_superseding_by_def Let_def insert_triple_def
        slot_rows_def filter_retire)
qed

lemma slot_objects_write:
  assumes "to_slot f q w \<Longrightarrow> predicate_is_single_valued preds q (mm_entity_type (w_subject w))"
    and "length (slot_objects g f q) \<le> 1"
  shows "slot_objects (do_write G preds self_id w g) f q =
    (if to_slot f q w then [mm_entity_id (w_object w)] else slot_objects g f q)"
proof -
  let ?g = "upsert_entity G (mention_entity G (w_now w) (w_visibility w) (w_object w))
     (upsert_entity G (mention_entity G (w_now w) (w_visibility w) (w_subject w)) g)"
  let ?t = "\<lparr>tr_from = mm_entity_id (w_subject w), tr_to = mm_entity_id (w_object w),
     tr_predicate = w_predicate w, tr_confidence = w_confidence w, tr_source_doc_id = w_doc w,
     tr_source_brain_id = self_id, tr_asserted_at = w_now w, tr_visibility = w_visibility w,
     tr_weight = f_one G\<rparr>"
  have ex: "entity_exists ?g (tr_from ?t)" "entity_exists ?g (tr_to ?t)"
    by (simp_all add: mention_entity_def)
  have keep: "slot_objects ?g a b = slot_objects g a b" for a b
    by (simp add: slot_objects_def)
  have w: "do_write G preds self_id w g =
      (if predicate_is_single_valued preds (w_predicate w) (mm_entity_type (w_subject w))
       then fst (insert_triple_superseding_by G ?t None ?g) else insert_triple G ?t ?g)"
    by (simp add: do_write_def write_triple_with_doc_def Let_def split_beta insert_triple_superseding_def)
  show ?thesis
  proof (cases "to_slot f q w")
    case True
    then have slot: "f = tr_from ?t \<and> q = tr_predicate ?t" by (simp add: to_slot_def)
    with assms(2) have len: "length (slot_objects ?g (tr_from ?t) (tr_predicate ?t)) \<le> 1"
      by (simp add: keep)
    have "slot_objects (fst (insert_triple_superseding_by G ?t None ?g)) f q = [tr_to ?t]"
      using slot_objects_superseding[OF ex len, where agent = None and f = f and q = q and G = G] slot by simp
    with True slot assms(1) show ?thesis by (simp add: w)
  next
    case False
    then have other: "\<not> (f = tr_from ?t \<and> q = tr_predicate ?t)" by (auto simp: to_slot_def)
    have "slot_objects (insert_triple G ?t ?g) f q = slot_objects g f q"
      using other by (simp add: slot_objects_def slot_rows_insert)
    moreover have "slot_objects (fst (insert_triple_superseding_by G ?t None ?g)) f q = slot_objects g f q"
      using other by (simp add: slot_objects_other keep)
    ultimately show ?thesis using False by (simp add: w)
  qed
qed

text \<open>The object of the last assertion of the slot, if there was one.\<close>

fun last_object :: "id32 \<Rightarrow> string \<Rightarrow> 'f assertion list \<Rightarrow> id32 option" where
  "last_object f q [] = None"
| "last_object f q (w # ws) =
     (case last_object f q ws of Some i \<Rightarrow> Some i
      | None \<Rightarrow> if to_slot f q w then Some (mm_entity_id (w_object w)) else None)"

text \<open>
  C27: On a slot whose predicate the ontology declares single-valued for the subject's type, and that holds at
  most one live object to begin with (data older than the declaration may hold more), any sequence of assertions leaves exactly the object of the last assertion of that slot live (and
  what was live before, if none of them concerned the slot), whatever assertions of other slots
  are interleaved.
\<close>

theorem single_valued_latest_wins:
  assumes "\<forall>w \<in> set ws. to_slot f q w \<longrightarrow>
      predicate_is_single_valued preds q (mm_entity_type (w_subject w))"
    and "length (slot_objects g f q) \<le> 1"
  shows "slot_objects (do_writes G preds self_id ws g) f q =
    (case last_object f q ws of Some i \<Rightarrow> [i] | None \<Rightarrow> slot_objects g f q)"
  using assms
proof (induction ws arbitrary: g)
  case Nil
  then show ?case by (simp add: do_writes_def)
next
  case (Cons w ws)
  have one: "slot_objects (do_write G preds self_id w g) f q =
      (if to_slot f q w then [mm_entity_id (w_object w)] else slot_objects g f q)"
    using Cons.prems by (intro slot_objects_write) auto
  have "do_writes G preds self_id (w # ws) g = do_writes G preds self_id ws (do_write G preds self_id w g)"
    by (simp add: do_writes_def)
  then show ?case
    using Cons.IH[of "do_write G preds self_id w g"] Cons.prems one
    by (auto split: option.splits)
qed

subsection \<open>Concrete instances for the witnesses\<close>

definition toy_env :: "nat graph_env" where
  "toy_env = \<lparr>to_rfc3339 = (\<lambda>i. replicate (nat i) (CHR ''t'')),
     parse_rfc3339 = (\<lambda>s. Some (int (length s))), f_one = 1\<rparr>"

definition toy_id :: "nat \<Rightarrow> id32" where
  "toy_id n = replicate 32 (of_nat n)"

definition toy_mention :: "nat \<Rightarrow> string \<Rightarrow> matched_mention" where
  "toy_mention n ty = \<lparr>mm_entity_id = toy_id n, mm_entity_type = ty, mm_canonical = ''x''\<rparr>"

definition toy_assertion :: "instant \<Rightarrow> nat \<Rightarrow> nat \<Rightarrow> nat assertion" where
  "toy_assertion now i j = \<lparr>w_now = now, w_subject = toy_mention i ''person'', w_predicate = ''lives_in'',
     w_object = toy_mention j ''place'', w_confidence = 1, w_visibility = Team, w_doc = None\<rparr>"

definition toy_ontology :: "ontology_predicate list" where
  "toy_ontology = [\<lparr>op_name = ''lives_in'', op_domain = [''person''], op_range = [''place''],
     op_symmetric = False, op_single_valued = True, op_single_valued_for = []\<rparr>]"

lemma toy_id_eq [simp]: "toy_id m = toy_id n \<longleftrightarrow> (of_nat m :: byte) = of_nat n"
  by (simp add: toy_id_def)

lemma single_valued_latest_wins_witness:
  "slot_objects (do_writes toy_env toy_ontology (toy_id 9)
       [toy_assertion 1 1 2, toy_assertion 2 1 3, toy_assertion 3 4 2, toy_assertion 4 1 5] empty_graph)
     (toy_id 1) ''lives_in'' = [toy_id 5]"
proof -
  let ?ws = "[toy_assertion 1 1 2, toy_assertion 2 1 3, toy_assertion 3 4 2, toy_assertion 4 1 5]"
  have "\<forall>w \<in> set ?ws. to_slot (toy_id 1) ''lives_in'' w \<longrightarrow>
      predicate_is_single_valued toy_ontology ''lives_in'' (mm_entity_type (w_subject w))"
    by (simp add: toy_assertion_def toy_mention_def toy_ontology_def predicate_is_single_valued_def)
  from single_valued_latest_wins[OF this, of empty_graph toy_env "toy_id 9"]
  show ?thesis
    by (simp add: slot_objects_def slot_rows_def empty_graph_def to_slot_def toy_assertion_def toy_mention_def)
qed

end
