(* ===== verification/Graph_Ledger.thy ===== *)
theory Graph_Ledger
  imports Graph_Slots
begin

text \<open>
  The graph as a state machine: every public call that changes a table is a step, the superseding
  insertion with whatever endpoints it is given. A step carries a flag that says whether a
  superseding insertion had both its entities, and the flag of a reachable state is the
  conjunction of those of its steps: what the tables satisfy after any calls (\<open>graph_sound\<close>) is
  told apart from what they satisfy when no superseding insertion missed an endpoint
  (\<open>graph_wf\<close>). The ledger of triples is append-only up to the validity columns, and an undo
  right after a superseding assertion restores it.
\<close>

subsection \<open>The invariant\<close>

text \<open>What an assertion says, as opposed to the columns that retire it.\<close>

definition asserted :: "'f triple_row \<Rightarrow> 'f triple_row" where
  "asserted r = r\<lparr>r_valid_to := None, r_superseded_by := None, r_superseded_by_agent := None\<rparr>"

text \<open>
  Keys are unique, rowids are positions, the endpoints of triples and mentions exist, a live row
  carries no retirement, and a row retired by supersession names a row of its own slot with
  another object.
\<close>

definition triple_ok :: "'f triple_row list \<Rightarrow> 'f triple_row \<Rightarrow> bool" where
  "triple_ok ts r \<longleftrightarrow>
     (r_valid_to r = None \<longrightarrow> r_superseded_by r = None \<and> r_superseded_by_agent r = None) \<and>
     (\<forall>n. r_superseded_by r = Some n \<longrightarrow>
        (\<exists>s \<in> set ts. r_rowid s = n \<and> r_from_id s = r_from_id r \<and> r_predicate s = r_predicate r \<and>
           r_to_id s \<noteq> r_to_id r))"

definition numbered :: "'f triple_row list \<Rightarrow> bool" where
  "numbered ts \<longleftrightarrow> map r_rowid ts = map (\<lambda>i. int i + 1) [0..<length ts]"

definition endpoints_exist :: "'f graph \<Rightarrow> bool" where
  "endpoints_exist g \<longleftrightarrow>
     (\<forall>r \<in> set (g_triple g). r_from_id r \<in> e_id ` set (g_entity g) \<and> r_to_id r \<in> e_id ` set (g_entity g)) \<and>
     (\<forall>m \<in> set (g_mention g). mn_doc_id m \<in> d_id ` set (g_document g) \<and>
        mn_entity_id m \<in> e_id ` set (g_entity g))"

definition live_row_ok :: "'f triple_row \<Rightarrow> bool" where
  "live_row_ok r \<longleftrightarrow> (r_valid_to r = None \<longrightarrow> r_superseded_by r = None \<and> r_superseded_by_agent r = None)"

text \<open>What holds of the tables whatever was called: all but where a retirement points to.\<close>

definition graph_sound :: "'f graph \<Rightarrow> bool" where
  "graph_sound g \<longleftrightarrow>
     distinct (map e_id (g_entity g)) \<and> distinct (map d_id (g_document g)) \<and>
     distinct (map mention_pk (g_mention g)) \<and> numbered (g_triple g) \<and> endpoints_exist g \<and>
     (\<forall>r \<in> set (g_triple g). live_row_ok r)"

definition graph_wf :: "'f graph \<Rightarrow> bool" where
  "graph_wf g \<longleftrightarrow>
     distinct (map e_id (g_entity g)) \<and> distinct (map d_id (g_document g)) \<and>
     distinct (map mention_pk (g_mention g)) \<and> numbered (g_triple g) \<and> endpoints_exist g \<and>
     (\<forall>r \<in> set (g_triple g). triple_ok (g_triple g) r)"

lemma asserted_simps [simp]:
  "asserted (asserted r) = asserted r"
  "r_rowid (asserted r) = r_rowid r" "r_from_id (asserted r) = r_from_id r"
  "r_to_id (asserted r) = r_to_id r" "r_predicate (asserted r) = r_predicate r"
  "r_asserted_at (asserted r) = r_asserted_at r"
  by (simp_all add: asserted_def)

lemma asserted_retire [simp]: "asserted (retire now by agent r) = asserted r"
  by (simp add: asserted_def retire_def)

lemma asserted_update:
  "(\<And>r. asserted (f r) = asserted r) \<Longrightarrow> map asserted (update_where P f ts) = map asserted ts"
  by (simp add: update_where_def)

lemma asserted_fields:
  assumes "map asserted ts = map asserted us"
  shows "map r_rowid ts = map r_rowid us"
    and "(\<exists>s \<in> set ts. Q (r_rowid s) (r_from_id s) (r_to_id s) (r_predicate s)) \<longleftrightarrow>
         (\<exists>s \<in> set us. Q (r_rowid s) (r_from_id s) (r_to_id s) (r_predicate s))"
    and "length ts = length us"
proof -
  have "map r_rowid (map asserted ts) = map r_rowid (map asserted us)" using assms by simp
  then show "map r_rowid ts = map r_rowid us" by (simp add: comp_def)
  have "asserted ` set ts = asserted ` set us" using assms by (metis list.set_map)
  then have "(\<exists>s \<in> asserted ` set ts. Q (r_rowid s) (r_from_id s) (r_to_id s) (r_predicate s)) \<longleftrightarrow>
      (\<exists>s \<in> asserted ` set us. Q (r_rowid s) (r_from_id s) (r_to_id s) (r_predicate s))" by simp
  then show "(\<exists>s \<in> set ts. Q (r_rowid s) (r_from_id s) (r_to_id s) (r_predicate s)) \<longleftrightarrow>
      (\<exists>s \<in> set us. Q (r_rowid s) (r_from_id s) (r_to_id s) (r_predicate s))" by simp
  show "length ts = length us" using assms by (metis length_map)
qed

lemma triple_ok_asserted:
  assumes "map asserted ts = map asserted us"
  shows "triple_ok ts r \<longleftrightarrow> triple_ok us r"
  unfolding triple_ok_def
  using asserted_fields(2)[OF assms, where Q = "\<lambda>n f t p. n = _ \<and> f = _ \<and> p = _ \<and> t \<noteq> _"] by simp

subsection \<open>Every statement keeps it\<close>

definition both_ends :: "'f triple \<Rightarrow> 'f graph \<Rightarrow> bool" where
  "both_ends t g \<longleftrightarrow> entity_exists g (tr_from t) \<and> entity_exists g (tr_to t)"

inductive graph_step :: "'f graph_env \<Rightarrow> bool \<Rightarrow> 'f graph \<Rightarrow> 'f graph \<Rightarrow> bool" for G where
  entity: "graph_step G True g (upsert_entity G ent g)"
| describe: "graph_step G True g (set_entity_description G now i d g)"
| assert: "graph_step G True g (insert_triple G t g)"
| supersede: "graph_step G (both_ends t g) g (fst (insert_triple_superseding_by G t agent g))"
| resolve: "graph_step G True g (fst (retire_conflicting_objects G now fr p keep by g))"
| undo: "graph_step G True g (fst (undo_supersession G now rowid g))"
| document: "graph_step G True g (upsert_document G now i source v g)"
| mention: "graph_step G True g (insert_mention G now doc ent a b g)"

inductive_simps graph_step_iff: "graph_step G ok g g'"

inductive graph_reachable :: "'f graph_env \<Rightarrow> bool \<Rightarrow> 'f graph \<Rightarrow> bool" for G where
  start: "graph_reachable G True empty_graph"
| step: "graph_reachable G ok g \<Longrightarrow> graph_step G ok' g g' \<Longrightarrow> graph_reachable G (ok \<and> ok') g'"

lemma graph_reachable_step_True:
  "graph_reachable G True g \<Longrightarrow> graph_step G True g g' \<Longrightarrow> graph_reachable G True g'"
  using graph_reachable.step[of G True g True g'] by simp

lemma graph_wf_split: "graph_wf g \<longleftrightarrow> graph_sound g \<and> (\<forall>r \<in> set (g_triple g). triple_ok (g_triple g) r)"
  by (auto simp: graph_wf_def graph_sound_def live_row_ok_def triple_ok_def)

lemma graph_wf_sound: "graph_wf g \<Longrightarrow> graph_sound g"
  by (simp add: graph_wf_split)

lemma wf_keeps_triples: "graph_wf g \<Longrightarrow> graph_sound g' \<Longrightarrow> g_triple g' = g_triple g \<Longrightarrow> graph_wf g'"
  by (simp add: graph_wf_split)

lemma wf_empty: "graph_wf empty_graph"
  by (simp add: graph_wf_def empty_graph_def numbered_def endpoints_exist_def)

text \<open>A statement that rewrites only the validity columns of the triples.\<close>

lemma sound_retirement:
  assumes "graph_sound g" and "map asserted ts = map asserted (g_triple g)"
    and "\<forall>r \<in> set ts. live_row_ok r"
  shows "graph_sound (g\<lparr>g_triple := ts\<rparr>)"
proof -
  have "(\<forall>r \<in> set ts. r_from_id r \<in> E \<and> r_to_id r \<in> E) \<longleftrightarrow>
      (\<forall>r \<in> set (g_triple g). r_from_id r \<in> E \<and> r_to_id r \<in> E)" for E
    using asserted_fields(2)[OF assms(2), where Q = "\<lambda>n f t p. \<not> (f \<in> E \<and> t \<in> E)"] by blast
  then show ?thesis
    using assms asserted_fields(1,3)[OF assms(2)]
    by (simp add: graph_sound_def numbered_def endpoints_exist_def)
qed

lemma wf_retirement:
  assumes "graph_wf g" and "map asserted ts = map asserted (g_triple g)"
    and "\<forall>r \<in> set ts. triple_ok ts r"
  shows "graph_wf (g\<lparr>g_triple := ts\<rparr>)"
  using assms sound_retirement[OF graph_wf_sound assms(2)]
  by (simp add: graph_wf_split live_row_ok_def triple_ok_def)

text \<open>A statement that touches the other tables and keeps the ids of the entities and documents.\<close>

lemma sound_tables:
  assumes "graph_sound g" and "g_triple g' = g_triple g"
    and "e_id ` set (g_entity g) \<subseteq> e_id ` set (g_entity g')" and "distinct (map e_id (g_entity g'))"
    and "d_id ` set (g_document g) \<subseteq> d_id ` set (g_document g')" and "distinct (map d_id (g_document g'))"
    and "g_mention g' = g_mention g"
  shows "graph_sound g'"
  using assms unfolding graph_sound_def endpoints_exist_def by auto

lemma sound_upsert_entity: "graph_sound g \<Longrightarrow> graph_sound (upsert_entity G ent g)"
  by (rule sound_tables[of g])
    (auto simp: upsert_entity_def Let_def keys_upsert graph_sound_def intro!: distinct_upsert)

lemma sound_set_description: "graph_sound g \<Longrightarrow> graph_sound (set_entity_description G now i d g)"
  by (rule sound_tables[of g])
    (auto simp: set_entity_description_def Let_def keys_upsert graph_sound_def intro!: distinct_upsert)

lemma sound_upsert_document: "graph_sound g \<Longrightarrow> graph_sound (upsert_document G now i source v g)"
  by (rule sound_tables[of g])
    (auto simp: upsert_document_def Let_def keys_upsert graph_sound_def intro!: distinct_upsert)

lemma sound_insert_mention:
  assumes "graph_sound g"
  shows "graph_sound (insert_mention G now doc ent a b g)"
proof (cases "(\<exists>r \<in> set (g_document g). d_id r = doc) \<and> entity_exists g ent")
  case False
  then show ?thesis using assms unfolding insert_mention_def by (simp only: if_False)
next
  case True
  let ?row = "\<lparr>mn_doc_id = doc, mn_entity_id = ent, mn_span_start = a, mn_span_end = b,
    mn_extracted_at = to_rfc3339 G now\<rparr>"
  let ?ms = "upsert mention_pk ?row (\<lambda>_. ?row) (g_mention g)"
  have d: "distinct (map mention_pk ?ms)"
    using assms by (intro distinct_upsert) (simp_all add: graph_sound_def)
  have "set ?ms \<subseteq> insert ?row (set (g_mention g))"
    by (auto simp: upsert_def set_update_where)
  moreover have "doc \<in> d_id ` set (g_document g)" "ent \<in> e_id ` set (g_entity g)"
    using True by (auto simp: entity_exists_image)
  ultimately have "\<forall>m \<in> set ?ms. mn_doc_id m \<in> d_id ` set (g_document g) \<and>
      mn_entity_id m \<in> e_id ` set (g_entity g)"
    using assms by (auto simp: graph_sound_def endpoints_exist_def)
  with d assms show ?thesis
    using True by (simp add: insert_mention_def Let_def graph_sound_def endpoints_exist_def)
qed

lemma sound_insert_triple: "graph_sound g \<Longrightarrow> graph_sound (insert_triple G t g)"
  by (auto simp: insert_triple_def Let_def graph_sound_def numbered_def endpoints_exist_def
      entity_exists_image triple_to_row_def live_row_ok_def)

lemma wf_upsert_entity: "graph_wf g \<Longrightarrow> graph_wf (upsert_entity G ent g)"
  by (rule wf_keeps_triples[of g, OF _ sound_upsert_entity[OF graph_wf_sound]])
    (simp_all add: upsert_entity_def Let_def)

lemma wf_set_description: "graph_wf g \<Longrightarrow> graph_wf (set_entity_description G now i d g)"
  by (rule wf_keeps_triples[of g, OF _ sound_set_description[OF graph_wf_sound]])
    (simp_all add: set_entity_description_def Let_def)

lemma wf_upsert_document: "graph_wf g \<Longrightarrow> graph_wf (upsert_document G now i source v g)"
  by (rule wf_keeps_triples[of g, OF _ sound_upsert_document[OF graph_wf_sound]])
    (simp_all add: upsert_document_def Let_def)

lemma wf_insert_mention: "graph_wf g \<Longrightarrow> graph_wf (insert_mention G now doc ent a b g)"
  by (rule wf_keeps_triples[of g, OF _ sound_insert_mention[OF graph_wf_sound]])
    (simp_all add: insert_mention_def Let_def)

lemma triple_ok_append: "triple_ok ts r \<Longrightarrow> triple_ok (ts @ us) r"
  by (auto simp: triple_ok_def)

lemma wf_insert_triple:
  assumes "graph_wf g"
  shows "graph_wf (insert_triple G t g)"
  using assms
  by (auto simp: insert_triple_def Let_def graph_wf_def numbered_def endpoints_exist_def
      entity_exists_image triple_ok_append triple_to_row_def)
    (auto simp: triple_ok_def)

lemma ok_retire:
  assumes "s \<in> set ts" and "r_rowid s = n" and "r_from_id s = fr" and "r_predicate s = p"
    and "r_to_id s = keep"
    and "\<forall>r \<in> set us. triple_ok ts r"
  shows "\<forall>r \<in> set (update_where (conflicts fr p keep) (retire now n agent) us). triple_ok ts r"
  using assms by (auto simp: all_update_where triple_ok_def conflicts_def retire_def)

lemma wf_retire_slot:
  assumes "graph_wf g" and "s \<in> set (g_triple g)" and "r_from_id s = fr" and "r_predicate s = p"
    and "r_to_id s = keep"
  shows "graph_wf (g\<lparr>g_triple := update_where (conflicts fr p keep)
                      (retire now (r_rowid s) agent) (g_triple g)\<rparr>)"
proof -
  let ?ts = "update_where (conflicts fr p keep) (retire now (r_rowid s) agent) (g_triple g)"
  have core: "map asserted ?ts = map asserted (g_triple g)" by (simp add: asserted_update)
  have "\<forall>r \<in> set ?ts. triple_ok (g_triple g) r"
    using assms by (intro ok_retire[OF assms(2)]) (simp_all add: graph_wf_def)
  then have "\<forall>r \<in> set ?ts. triple_ok ?ts r" by (simp add: triple_ok_asserted[OF core])
  from wf_retirement[OF assms(1) core this] show ?thesis .
qed

lemma wf_superseding:
  assumes "graph_wf g" and "entity_exists g (tr_from t)" and "entity_exists g (tr_to t)"
  shows "graph_wf (fst (insert_triple_superseding_by G t agent g))"
proof -
  let ?n = "int (length (g_triple g)) + 1"
  let ?g1 = "insert_triple G t g"
  have g1: "g_triple ?g1 = g_triple g @ [triple_to_row G ?n t]" "last_rowid ?g1 = ?n"
    using assms by (simp_all add: insert_triple_def Let_def)
  have "graph_wf (?g1\<lparr>g_triple := update_where (conflicts (tr_from t) (tr_predicate t) (tr_to t))
          (retire (to_rfc3339 G (tr_asserted_at t)) (r_rowid (triple_to_row G ?n t)) agent) (g_triple ?g1)\<rparr>)"
    by (intro wf_retire_slot wf_insert_triple assms) (simp_all add: g1 triple_to_row_def)
  moreover have "r_rowid (triple_to_row G ?n t) = last_rowid ?g1" by (simp add: g1 triple_to_row_def)
  ultimately show ?thesis using assms(1) by (simp add: insert_triple_superseding_by_def Let_def)
qed

lemma wf_resolve:
  assumes "graph_wf g"
  shows "graph_wf (fst (retire_conflicting_objects G now fr p keep by g))"
proof (cases "select_first (\<lambda>r. r_from_id r = fr \<and> r_predicate r = p \<and> r_to_id r = keep \<and>
             r_valid_to r = None) (g_triple g)")
  case None
  then show ?thesis using assms by (simp add: retire_conflicting_objects_def)
next
  case (Some s)
  then have "s \<in> set (g_triple g)" "r_from_id s = fr" "r_predicate s = p" "r_to_id s = keep"
    by (auto dest: select_first_Some)
  from wf_retire_slot[OF assms this] Some show ?thesis
    by (simp add: retire_conflicting_objects_def Let_def)
qed

text \<open>The two updates of an undo, as one row function.\<close>

definition undo_row :: "string \<Rightarrow> int \<Rightarrow> 'f triple_row \<Rightarrow> 'f triple_row" where
  "undo_row now n r =
     (if r_superseded_by r = Some n then asserted r
      else if r_rowid r = n \<and> r_valid_to r = None then r\<lparr>r_valid_to := Some now\<rparr> else r)"

lemma undo_rows:
  assumes "\<forall>r \<in> set ts. r_superseded_by r = Some n \<longrightarrow> r_rowid r \<noteq> n"
  shows "update_where (\<lambda>r. r_rowid r = n \<and> r_valid_to r = None) (\<lambda>r. r\<lparr>r_valid_to := Some now\<rparr>)
     (update_where (\<lambda>r. r_superseded_by r = Some n)
        (\<lambda>r. r\<lparr>r_valid_to := None, r_superseded_by := None, r_superseded_by_agent := None\<rparr>) ts) =
     map (undo_row now n) ts"
  using assms by (induction ts) (auto simp: update_where_def undo_row_def asserted_def)

lemma asserted_undo_row [simp]: "asserted (undo_row now n r) = asserted r"
  by (simp add: undo_row_def asserted_def)

lemma numbered_distinct: "numbered ts \<Longrightarrow> distinct (map r_rowid ts)"
  by (simp add: numbered_def distinct_map inj_on_def)

lemma wf_not_own_successor:
  assumes "graph_wf g" and "r \<in> set (g_triple g)" and "r_superseded_by r = Some n"
  shows "r_rowid r \<noteq> n"
proof
  assume "r_rowid r = n"
  moreover obtain s where "s \<in> set (g_triple g)" "r_rowid s = n" "r_to_id s \<noteq> r_to_id r"
    using assms by (force simp: graph_wf_def triple_ok_def)
  moreover have "distinct (map r_rowid (g_triple g))"
    using assms(1) by (simp add: graph_wf_def numbered_distinct)
  ultimately show False using assms(2) by (metis distinct_map inj_on_eq_iff)
qed

lemma undo_supersession_rows:
  assumes "graph_wf g"
  shows "undo_supersession G now n g =
    (if \<exists>r \<in> set (g_triple g). r_superseded_by r = Some n
     then (g\<lparr>g_triple := map (undo_row (to_rfc3339 G now) n) (g_triple g)\<rparr>,
           count_where (\<lambda>r. r_superseded_by r = Some n) (g_triple g))
     else (g, 0))"
proof (cases "\<exists>r \<in> set (g_triple g). r_superseded_by r = Some n")
  case True
  then have "count_where (\<lambda>r. r_superseded_by r = Some n) (g_triple g) \<noteq> 0" by simp
  moreover have "\<forall>r \<in> set (g_triple g). r_superseded_by r = Some n \<longrightarrow> r_rowid r \<noteq> n"
    using wf_not_own_successor[OF assms] by blast
  ultimately show ?thesis
    using True by (simp add: undo_supersession_def Let_def undo_rows del: count_where_0)
next
  case False
  then have "count_where (\<lambda>r. r_superseded_by r = Some n) (g_triple g) = 0"
    and "\<forall>r \<in> set (g_triple g). r_superseded_by r \<noteq> Some n" by simp_all
  then show ?thesis by (simp add: undo_supersession_def Let_def update_where_none del: count_where_0)
qed

lemma wf_undo:
  assumes "graph_wf g"
  shows "graph_wf (fst (undo_supersession G now n g))"
proof (cases "\<exists>r \<in> set (g_triple g). r_superseded_by r = Some n")
  case True
  let ?ts = "map (undo_row (to_rfc3339 G now) n) (g_triple g)"
  have core: "map asserted ?ts = map asserted (g_triple g)" by simp
  have "\<forall>r \<in> set (g_triple g). triple_ok (g_triple g) r" using assms by (simp add: graph_wf_def)
  then have "\<forall>r \<in> set ?ts. triple_ok (g_triple g) r"
    by (auto simp: undo_row_def triple_ok_def asserted_def)
  then have "\<forall>r \<in> set ?ts. triple_ok ?ts r" by (simp add: triple_ok_asserted[OF core])
  from wf_retirement[OF assms core this] True show ?thesis
    by (simp add: undo_supersession_rows[OF assms])
qed (use assms in \<open>simp add: undo_supersession_rows[OF assms]\<close>)

lemmas wf_steps = wf_upsert_entity wf_set_description wf_insert_triple wf_superseding wf_resolve
  wf_undo wf_upsert_document wf_insert_mention

text \<open>The superseding insertion, the resolution and the undo, whatever they are called with.\<close>

lemma live_row_retire [simp]: "live_row_ok (retire now by agent r)"
  by (simp add: live_row_ok_def retire_def)

lemma sound_retire_rows:
  assumes "graph_sound g"
  shows "graph_sound (g\<lparr>g_triple := update_where P (retire now by agent) (g_triple g)\<rparr>)"
  using assms by (intro sound_retirement) (auto simp: asserted_update all_update_where graph_sound_def)

lemma sound_superseding:
  "graph_sound g \<Longrightarrow> graph_sound (fst (insert_triple_superseding_by G t agent g))"
  by (simp add: insert_triple_superseding_by_def Let_def sound_retire_rows sound_insert_triple)

lemma sound_resolve:
  "graph_sound g \<Longrightarrow> graph_sound (fst (retire_conflicting_objects G now fr p keep by g))"
  by (simp add: retire_conflicting_objects_def Let_def sound_retire_rows split: option.splits)

lemma sound_undo:
  assumes "graph_sound g"
  shows "graph_sound (fst (undo_supersession G now n g))"
proof -
  let ?undone = "update_where (\<lambda>r. r_superseded_by r = Some n)
      (\<lambda>r. r\<lparr>r_valid_to := None, r_superseded_by := None, r_superseded_by_agent := None\<rparr>) (g_triple g)"
  let ?cut = "update_where (\<lambda>r. r_rowid r = n \<and> r_valid_to r = None)
      (\<lambda>r. r\<lparr>r_valid_to := Some (to_rfc3339 G now)\<rparr>)"
  have "\<forall>r \<in> set ?undone. live_row_ok r"
    using assms by (auto simp: all_update_where graph_sound_def live_row_ok_def)
  moreover have core: "map asserted ?undone = map asserted (g_triple g)"
    by (intro asserted_update) (simp add: asserted_def)
  ultimately have one: "graph_sound (g\<lparr>g_triple := ?undone\<rparr>)" using assms by (intro sound_retirement)
  then have "\<forall>r \<in> set (?cut ?undone). live_row_ok r"
    by (auto simp: all_update_where graph_sound_def live_row_ok_def)
  moreover have "map asserted (?cut ?undone) = map asserted (g_triple g)"
    by (subst asserted_update) (simp_all add: core, simp add: asserted_def)
  ultimately have "graph_sound (g\<lparr>g_triple := ?cut ?undone\<rparr>)" using assms by (intro sound_retirement)
  with one assms show ?thesis by (simp add: undo_supersession_def Let_def del: count_where_0)
qed

lemmas sound_steps = sound_upsert_entity sound_set_description sound_insert_triple sound_superseding
  sound_resolve sound_undo sound_upsert_document sound_insert_mention

lemma step_sound: "graph_step G ok g g' \<Longrightarrow> graph_sound g \<Longrightarrow> graph_sound g'"
  by (auto elim!: graph_step.cases intro: sound_steps)

lemma step_wf:
  assumes "graph_step G ok g g'" and "ok" and "graph_wf g"
  shows "graph_wf g'"
  using assms by cases (auto simp: both_ends_def intro: wf_steps)

lemma reachable_sound: "graph_reachable G ok g \<Longrightarrow> graph_sound g"
  by (induction rule: graph_reachable.induct) (auto intro: step_sound graph_wf_sound wf_empty)

lemma reachable_wf_if: "graph_reachable G ok g \<Longrightarrow> ok \<Longrightarrow> graph_wf g"
  by (induction rule: graph_reachable.induct) (auto intro: step_wf wf_empty)

lemma reachable_wf: "graph_reachable G True g \<Longrightarrow> graph_wf g"
  by (rule reachable_wf_if) simp_all

text \<open>
  C30: In every state the store can reach from the empty database, whatever calls ran: ids are
  unique, rowids count the rows, every triple and mention has its endpoints, and a live row carries
  no retirement. When no superseding insertion among the calls missed one of its entities (the
  flag \<open>ok\<close>), every superseded row moreover names a row of its own slot with another object.
\<close>

theorem graph_reachable_wf:
  assumes "graph_reachable G ok g"
  shows "graph_sound g \<and> (ok \<longrightarrow> graph_wf g)"
  using reachable_sound[OF assms] reachable_wf_if[OF assms] by blast

text \<open>
  Two entities, a fact between them, and a superseding insertion whose object is not in the graph:
  the tables stay sound although the flag is off.
\<close>

lemma graph_reachable_wf_witness:
  defines "t \<equiv> \<lparr>tr_from = toy_id 1, tr_to = toy_id 2, tr_predicate = ''knows'', tr_confidence = 1,
      tr_source_doc_id = None, tr_source_brain_id = toy_id 9, tr_asserted_at = 3,
      tr_visibility = Team, tr_weight = 1::nat\<rparr>"
  defines "g \<equiv> insert_triple toy_env t
     (upsert_entity toy_env (mention_entity toy_env 2 Team (toy_mention 2 ''person''))
        (upsert_entity toy_env (mention_entity toy_env 1 Team (toy_mention 1 ''person'')) empty_graph))"
  shows "graph_wf g \<and> graph_sound (fst (insert_triple_superseding_by toy_env (t\<lparr>tr_to := toy_id 7\<rparr>) None g))"
proof -
  have g: "graph_reachable toy_env True g"
    unfolding g_def
    by (rule graph_reachable_step_True[OF graph_reachable_step_True[OF
        graph_reachable_step_True[OF graph_reachable.start graph_step.entity] graph_step.entity]
        graph_step.assert])
  have "graph_wf g" using graph_reachable_wf[OF g] by simp
  moreover have "graph_sound (fst (insert_triple_superseding_by toy_env (t\<lparr>tr_to := toy_id 7\<rparr>) None g))"
    using graph_reachable_wf[OF graph_reachable.step[OF g graph_step.supersede]] by simp
  ultimately show ?thesis by simp
qed

subsection \<open>The ledger only grows\<close>

lemma asserted_undo:
  "map asserted (g_triple (fst (undo_supersession G now n g))) = map asserted (g_triple g)"
proof -
  have "asserted (r\<lparr>r_valid_to := None, r_superseded_by := None, r_superseded_by_agent := None\<rparr>) = asserted r"
    and "asserted (r\<lparr>r_valid_to := v\<rparr>) = asserted r" for r :: "'a triple_row" and v
    by (simp_all add: asserted_def)
  then show ?thesis by (simp add: undo_supersession_def Let_def asserted_update del: count_where_0)
qed

lemma step_appends:
  assumes "graph_step G ok g g'"
  shows "\<exists>new. map asserted (g_triple g') = map asserted (g_triple g) @ new"
  using assms
proof cases
  case (supersede t agent)
  then show ?thesis
    by (auto simp: insert_triple_superseding_by_def Let_def insert_triple_def asserted_update)
next
  case (resolve now fr p keep "by")
  then show ?thesis
    by (auto simp: retire_conflicting_objects_def Let_def asserted_update split: option.splits)
next
  case (undo now rowid)
  then have "map asserted (g_triple g') = map asserted (g_triple g)" by (simp add: asserted_undo)
  then show ?thesis by simp
qed (auto simp: upsert_entity_def set_entity_description_def upsert_document_def insert_mention_def
    insert_triple_def Let_def)

text \<open>
  The ledger of triples is append-only: whatever statements run after a state, the
  assertions it held are still the first rows of the table, in the same order and with the same
  rowids, contents and assertion times; only validity columns may have changed.
\<close>

theorem ledger_append_only:
  assumes "(\<lambda>g g'. \<exists>ok. graph_step G ok g g')\<^sup>*\<^sup>* g g'"
  shows "take (length (g_triple g)) (map asserted (g_triple g')) = map asserted (g_triple g)"
proof -
  have "\<exists>new. map asserted (g_triple g') = map asserted (g_triple g) @ new"
    using assms
  proof induction
    case (step y z)
    then obtain new where "map asserted (g_triple y) = map asserted (g_triple g) @ new" by blast
    moreover obtain more where "map asserted (g_triple z) = map asserted (g_triple y) @ more"
      using step_appends step.hyps(2) by blast
    ultimately show ?case by simp
  qed simp
  then show ?thesis by (metis append_eq_conv_conj length_map)
qed

subsection \<open>Undo\<close>

lemma row_below:
  assumes "graph_wf g" and "r \<in> set (g_triple g)"
  shows "r_rowid r \<le> int (length (g_triple g))"
    and "r_superseded_by r = Some n \<Longrightarrow> n \<le> int (length (g_triple g))"
proof -
  have below: "r_rowid s \<le> int (length (g_triple g))" if "s \<in> set (g_triple g)" for s
  proof -
    have "r_rowid s \<in> set (map r_rowid (g_triple g))" using that by simp
    also have "map r_rowid (g_triple g) = map (\<lambda>i. int i + 1) [0..<length (g_triple g)]"
      using assms(1) by (simp add: graph_wf_def numbered_def)
    finally show ?thesis by auto
  qed
  show "r_rowid r \<le> int (length (g_triple g))" using assms(2) by (rule below)
  assume "r_superseded_by r = Some n"
  then obtain s where "s \<in> set (g_triple g)" "r_rowid s = n"
    using assms by (force simp: graph_wf_def triple_ok_def)
  then show "n \<le> int (length (g_triple g))" using below by blast
qed

lemma undo_restores:
  fixes g t
  defines "n \<equiv> int (length (g_triple g)) + 1"
  assumes "graph_wf g"
  shows "map (undo_row stamp n) (update_where (conflicts f p k) (retire now n agent) (g_triple g)) = g_triple g"
proof -
  have "undo_row stamp n (if conflicts f p k r then retire now n agent r else r) = r"
    if r: "r \<in> set (g_triple g)" for r
  proof -
    have "r_superseded_by r \<noteq> Some n" "r_rowid r \<noteq> n"
      using row_below[OF assms(2) r] by (force simp: n_def)+
    moreover have "conflicts f p k r \<Longrightarrow> r_superseded_by r = None \<and> r_superseded_by_agent r = None \<and>
        r_valid_to r = None"
      using assms(2) r by (auto simp: graph_wf_def triple_ok_def conflicts_def)
    ultimately show ?thesis by (auto simp: undo_row_def retire_def asserted_def)
  qed
  then show ?thesis by (simp add: update_where_def comp_def map_idI)
qed

lemma superseding_rows:
  assumes "entity_exists g (tr_from t)" and "entity_exists g (tr_to t)"
  shows "insert_triple_superseding_by G t agent g =
    (let n = int (length (g_triple g)) + 1; P = conflicts (tr_from t) (tr_predicate t) (tr_to t)
     in if \<exists>r \<in> set (slot_rows g (tr_from t) (tr_predicate t)). r_to_id r = tr_to t then (g, 0)
        else ((insert_triple G t g)\<lparr>g_triple :=
                 update_where P (retire (to_rfc3339 G (tr_asserted_at t)) n agent) (g_triple g) @
                 [triple_to_row G n t]\<rparr>, count_where P (g_triple g)))"
proof (cases "\<exists>r \<in> set (slot_rows g (tr_from t) (tr_predicate t)). r_to_id r = tr_to t")
  case True
  then show ?thesis by (simp add: slot_rows_superseding_already Let_def)
next
  case False
  then have "count_where (\<lambda>r. r_from_id r = tr_from t \<and> r_predicate r = tr_predicate t \<and>
      r_to_id r = tr_to t \<and> r_valid_to r = None) (g_triple g) = 0"
    by (auto simp: slot_rows_def in_slot_def)
  moreover have "\<not> conflicts (tr_from t) (tr_predicate t) (tr_to t) (triple_to_row G n t)" for n
    by (simp add: conflicts_iff)
  ultimately show ?thesis using assms False
    by (simp add: insert_triple_superseding_by_def Let_def insert_triple_def update_where_def
        count_where_def)
qed

text \<open>
  C31: In a graph that no superseding insertion without its entities has touched, undoing the superseding
  assertion that was just made, between existing entities, reinstates exactly the assertions it
  retired: the earlier rows are again what they were, column for column, the new row is retired,
  and the reported count is the number retired.
\<close>

theorem undo_reverses_supersession:
  assumes "graph_reachable G True g"
    and "entity_exists g (tr_from t)" and "entity_exists g (tr_to t)"
    and "insert_triple_superseding_by G t agent g = (g', retired)" and "retired > 0"
    and "undo_supersession G now (last_rowid g') g' = (g'', n)"
  shows "n = retired \<and> g_triple g'' =
     g_triple g @ [(triple_to_row G (last_rowid g') t)\<lparr>r_valid_to := Some (to_rfc3339 G now)\<rparr>]"
proof -
  let ?N = "int (length (g_triple g)) + 1"
  let ?P = "conflicts (tr_from t) (tr_predicate t) (tr_to t)"
  let ?cut = "retire (to_rfc3339 G (tr_asserted_at t)) ?N agent"
  have wf: "graph_wf g" using assms(1) by (rule reachable_wf)
  have old: "r_superseded_by r \<noteq> Some ?N" if "r \<in> set (g_triple g)" for r
    using row_below(2)[OF wf that] by force
  have g': "g' = insert_triple G t g\<lparr>g_triple := update_where ?P ?cut (g_triple g) @ [triple_to_row G ?N t]\<rparr>"
    "retired = count_where ?P (g_triple g)" "last_rowid g' = ?N"
    using assms(2-5) by (auto simp: superseding_rows Let_def insert_triple_def split: if_splits)
  have wf': "graph_wf g'" using wf_superseding[OF wf assms(2,3), of G agent] assms(4) by simp
  let ?ts = "g_triple g" and ?stamp = "to_rfc3339 G now"
  have rows: "map (undo_row ?stamp ?N) (g_triple g') =
      ?ts @ [(triple_to_row G ?N t)\<lparr>r_valid_to := Some ?stamp\<rparr>]"
    by (simp add: g' undo_restores[OF wf]) (simp add: undo_row_def triple_to_row_def)
  have "filter (\<lambda>r. r_superseded_by (if ?P r then ?cut r else r) = Some ?N) ?ts = filter ?P ?ts"
    using old by (intro filter_cong) (auto simp: retire_def)
  then have cnt: "count_where (\<lambda>r. r_superseded_by r = Some ?N) (g_triple g') = count_where ?P ?ts"
    by (simp add: g' count_where_def update_where_def filter_map comp_def triple_to_row_def)
  then have "count_where (\<lambda>r. r_superseded_by r = Some ?N) (g_triple g') \<noteq> 0"
    using assms(5) g'(2) by simp
  then have hit: "\<exists>r \<in> set (g_triple g'). r_superseded_by r = Some ?N" by (simp only: count_where_0) blast
  show ?thesis
    using assms(6) hit rows cnt g'(2,3) by (auto simp: undo_supersession_rows[OF wf'])
qed

definition toy_triple :: "instant \<Rightarrow> nat \<Rightarrow> nat \<Rightarrow> nat triple" where
  "toy_triple now i j =
     \<lparr>tr_from = toy_id i, tr_to = toy_id j, tr_predicate = ''lives_in'', tr_confidence = 1,
      tr_source_doc_id = None, tr_source_brain_id = toy_id 9, tr_asserted_at = now,
      tr_visibility = Team, tr_weight = 1\<rparr>"

text \<open>Four entities, and the first of them related to the second.\<close>

definition toy_base :: "nat graph" where
  "toy_base = insert_triple toy_env (toy_triple 3 1 2)
     (fold (\<lambda>n. upsert_entity toy_env (mention_entity toy_env 1 Team (toy_mention n ''x''))) [1, 2, 3, 4]
        empty_graph)"

lemma toy_base_reachable: "graph_reachable toy_env True toy_base"
  unfolding toy_base_def fold.simps comp_def id_def
  by (rule graph_reachable_step_True[OF graph_reachable_step_True[OF graph_reachable_step_True[OF
        graph_reachable_step_True[OF graph_reachable_step_True[OF graph_reachable.start graph_step.entity]
        graph_step.entity] graph_step.entity] graph_step.entity] graph_step.assert])

lemma ledger_append_only_witness:
  "take (length (g_triple toy_base)) (map asserted (g_triple (insert_triple toy_env (toy_triple 5 1 3) toy_base)))
     = map asserted (g_triple toy_base)"
  by (rule ledger_append_only, rule r_into_rtranclp, rule exI, rule graph_step.assert)

lemma toy_base_exists [simp]:
  "entity_exists toy_base (toy_id 1)" "entity_exists toy_base (toy_id 2)"
  "entity_exists toy_base (toy_id 3)" "entity_exists toy_base (toy_id 4)"
proof -
  have same: "entity_exists (insert_triple G t g) i = entity_exists g i" for G :: "'f graph_env" and t g i
    by (simp add: insert_triple_def entity_exists_def Let_def)
  show "entity_exists toy_base (toy_id 1)" "entity_exists toy_base (toy_id 2)"
    "entity_exists toy_base (toy_id 3)" "entity_exists toy_base (toy_id 4)"
    by (simp_all add: toy_base_def same mention_entity_def toy_mention_def)
qed

lemma toy_triple_simps [simp]:
  "tr_from (toy_triple now i j) = toy_id i" "tr_to (toy_triple now i j) = toy_id j"
  "tr_predicate (toy_triple now i j) = ''lives_in''"
  by (simp_all add: toy_triple_def)

lemma toy_base_triples:
  "g_triple toy_base = [triple_to_row toy_env 1 (toy_triple 3 1 2)]"
  by (simp add: toy_base_def insert_triple_def Let_def mention_entity_def toy_mention_def empty_graph_def)

lemma undo_reverses_supersession_witness:
  "g_triple (fst (undo_supersession toy_env 9 2
      (fst (insert_triple_superseding_by toy_env (toy_triple 5 1 3) (Some ''librarian'') toy_base)))) =
   g_triple toy_base @ [(triple_to_row toy_env 2 (toy_triple 5 1 3))\<lparr>r_valid_to := Some (to_rfc3339 toy_env 9)\<rparr>]"
proof -
  let ?r = "insert_triple_superseding_by toy_env (toy_triple 5 1 3) (Some ''librarian'') toy_base"
  have n: "last_rowid (fst ?r) = 2" "snd ?r > 0"
    by (simp_all add: superseding_rows Let_def slot_rows_def toy_base_triples in_slot_def
        triple_to_row_def insert_triple_def conflicts_def del: One_nat_def)
  from undo_reverses_supersession[OF toy_base_reachable, of "toy_triple 5 1 3" "Some ''librarian''"
      "fst ?r" "snd ?r" 9 "fst (undo_supersession toy_env 9 2 (fst ?r))"
      "snd (undo_supersession toy_env 9 2 (fst ?r))"]
  show ?thesis using n by (simp del: One_nat_def)
qed

text \<open>
  Supersessions undone out of order break the single-valued slot: when \<open>A\<close> was superseded by
  \<open>B\<close> and then \<open>B\<close> by \<open>C\<close>, undoing the assertion of \<open>B\<close> leaves \<open>A\<close> and \<open>C\<close> both live.
\<close>

theorem undo_out_of_order_leaves_two:
  assumes "graph_reachable G True g" and "slot_objects g f p = [a]" and "a \<noteq> b" and "b \<noteq> c"
    and "tr_from tb = f" and "tr_predicate tb = p" and "tr_to tb = b"
    and "tr_from tc = f" and "tr_predicate tc = p" and "tr_to tc = c"
    and "entity_exists g f" and "entity_exists g b" and "entity_exists g c"
  shows "let g1 = fst (insert_triple_superseding G tb g);
             g2 = fst (insert_triple_superseding G tc g1);
             g3 = fst (undo_supersession G now (last_rowid g1) g2)
         in slot_objects g2 f p = [c] \<and> slot_objects g3 f p = [a, c]"
proof -
  let ?N = "int (length (g_triple g)) + 1"
  define g1 where "g1 = fst (insert_triple_superseding G tb g)"
  define g2 where "g2 = fst (insert_triple_superseding G tc g1)"
  have wf: "graph_wf g" using assms(1) by (rule reachable_wf)
  obtain ra where ra: "slot_rows g f p = [ra]" "r_to_id ra = a"
    using assms(2) by (auto simp: slot_objects_def)
  let ?rb = "triple_to_row G ?N tb" and ?rc = "triple_to_row G (?N + 1) tc"
  let ?cut = "update_where (conflicts f p b) (retire (to_rfc3339 G (tr_asserted_at tb)) ?N None) (g_triple g)"
  have g1: "g_triple g1 = ?cut @ [?rb]" "last_rowid g1 = ?N" "\<And>i. entity_exists g1 i = entity_exists g i"
    using assms(3,5-) ra by (simp_all add: g1_def insert_triple_superseding_def superseding_rows Let_def
        insert_triple_def entity_exists_def)
  have gone: "\<forall>r \<in> set ?cut. \<not> in_slot f p r"
  proof -
    have "filter (in_slot f p) ?cut = filter (\<lambda>r. r_to_id r = b) (slot_rows g f p)"
      by (auto simp: filter_retire slot_rows_def conflicts_iff intro!: filter_cong)
    then show ?thesis using ra assms(3) by (simp add: filter_empty_conv)
  qed
  then have one: "slot_rows g1 f p = [?rb]"
    using assms(5,6) by (simp add: slot_rows_def g1 filter_empty_conv)
  have cut2: "update_where (conflicts f p c) h ?cut = ?cut" for h
    using gone unfolding conflicts_iff by (blast intro: update_where_none)
  have wf1: "graph_wf g1" using wf_superseding[OF wf] assms by (simp add: g1_def insert_triple_superseding_def)
  have len: "length (g_triple g1) = Suc (length (g_triple g))" by (simp add: g1)
  have g2: "g_triple g2 = ?cut @ [retire (to_rfc3339 G (tr_asserted_at tc)) (?N + 1) None ?rb, ?rc]"
  proof -
    have "update_where (conflicts f p c) h [?rb] = [h ?rb]" for h
      using assms(4-7) by (simp add: update_where_def conflicts_iff)
    then show ?thesis
      using assms(4-) one
      by (simp add: g2_def insert_triple_superseding_def superseding_rows Let_def g1 len cut2
          update_where_append)
  qed
  have wf2: "graph_wf g2" using wf_superseding[OF wf1] assms
    by (simp add: g2_def insert_triple_superseding_def g1)
  have back_n: "map (undo_row stamp ?N) (g_triple g2) = g_triple g @
      [retire (to_rfc3339 G (tr_asserted_at tc)) (?N + 1) None ?rb, ?rc]" for stamp
    by (simp add: g2 undo_restores[OF wf]) (simp add: undo_row_def retire_def triple_to_row_def)
  have hit: "\<exists>r \<in> set (g_triple g2). r_superseded_by r = Some ?N"
  proof -
    have "ra \<in> set (g_triple g)" "conflicts f p b ra"
      using ra assms(3) by (auto simp: slot_rows_def conflicts_iff filter_eq_Cons_iff)
    then have "retire (to_rfc3339 G (tr_asserted_at tb)) ?N None ra \<in> set ?cut"
      by (force simp: set_update_where)
    then show ?thesis by (force simp: g2 retire_def)
  qed
  have "slot_objects g2 f p = [c]"
    using gone assms(8-10) by (simp add: slot_objects_def slot_rows_def g2 filter_empty_conv)
  moreover have "slot_objects (fst (undo_supersession G now ?N g2)) f p = [a, c]"
    using ra assms(8-10) hit
    by (simp add: undo_supersession_rows[OF wf2] slot_objects_def slot_rows_def back_n)
  ultimately show ?thesis by (simp add: Let_def g1_def[symmetric] g2_def[symmetric] g1)
qed

lemma undo_out_of_order_leaves_two_witness:
  "let g1 = fst (insert_triple_superseding toy_env (toy_triple 5 1 3) toy_base);
       g2 = fst (insert_triple_superseding toy_env (toy_triple 6 1 4) g1);
       g3 = fst (undo_supersession toy_env 7 (last_rowid g1) g2)
   in slot_objects g2 (toy_id 1) ''lives_in'' = [toy_id 4] \<and>
      slot_objects g3 (toy_id 1) ''lives_in'' = [toy_id 2, toy_id 4]"
  by (rule undo_out_of_order_leaves_two[OF toy_base_reachable, where b = "toy_id 3"])
    (simp_all add: slot_objects_def slot_rows_def toy_base_triples in_slot_def triple_to_row_def
      del: One_nat_def)

text \<open>
  A superseding insertion whose object entity does not exist inserts no row but still retires
  every live assertion of the slot, so the slot ends up empty and nothing replaces what it held.
\<close>

theorem missing_object_empties_slot:
  assumes "\<not> entity_exists g (tr_to t)"
    and "tr_to t \<notin> set (slot_objects g (tr_from t) (tr_predicate t))"
  shows "let r = insert_triple_superseding G t g
     in length (g_triple (fst r)) = length (g_triple g) \<and>
        slot_objects (fst r) (tr_from t) (tr_predicate t) = [] \<and>
        snd r = length (slot_objects g (tr_from t) (tr_predicate t))"
proof -
  have none: "\<forall>r \<in> set (g_triple g). \<not> (r_from_id r = tr_from t \<and> r_predicate r = tr_predicate t \<and>
      r_to_id r = tr_to t \<and> r_valid_to r = None)"
  proof (intro ballI notI)
    fix r
    assume r: "r \<in> set (g_triple g)" "r_from_id r = tr_from t \<and> r_predicate r = tr_predicate t \<and>
      r_to_id r = tr_to t \<and> r_valid_to r = None"
    then have "r_to_id r \<in> set (slot_objects g (tr_from t) (tr_predicate t))"
      unfolding slot_objects_def slot_rows_def set_map
      by (intro imageI) (simp add: in_slot_def)
    with assms(2) r show False by simp
  qed
  then have "filter (\<lambda>r. in_slot (tr_from t) (tr_predicate t) r \<and>
      \<not> conflicts (tr_from t) (tr_predicate t) (tr_to t) r) (g_triple g) = []"
    by (auto simp: filter_empty_conv conflicts_def in_slot_def)
  moreover have "filter (conflicts (tr_from t) (tr_predicate t) (tr_to t)) (g_triple g) =
      filter (in_slot (tr_from t) (tr_predicate t)) (g_triple g)"
    using none by (intro filter_cong) (auto simp: conflicts_def in_slot_def)
  ultimately show ?thesis
    using none assms(1)
    by (auto simp: insert_triple_superseding_def insert_triple_superseding_by_def Let_def
        insert_triple_def slot_objects_def slot_rows_def filter_retire count_where_def)
qed

lemma missing_object_empties_slot_witness:
  "let r = insert_triple_superseding toy_env (toy_triple 5 1 7) toy_base
   in slot_objects toy_base (toy_id 1) ''lives_in'' = [toy_id 2] \<and>
      slot_objects (fst r) (toy_id 1) ''lives_in'' = []"
proof -
  have one: "slot_objects toy_base (toy_id 1) ''lives_in'' = [toy_id 2]"
    by (simp add: slot_objects_def slot_rows_def toy_base_triples in_slot_def triple_to_row_def)
  have "\<not> entity_exists toy_base (toy_id 7)"
    by (simp add: toy_base_def insert_triple_def Let_def mention_entity_def toy_mention_def
        entity_exists_image upsert_entity_def upsert_def empty_graph_def)
  with missing_object_empties_slot[of toy_base "toy_triple 5 1 7" toy_env] one
  show ?thesis by (simp add: Let_def del: One_nat_def)
qed

end
