(* ===== verification/Graph_Bfs.thy ===== *)
theory Graph_Bfs
  imports Graph_Ledger
begin

text \<open>
  The bounded breadth-first traversal of the graph and graph recall. The reference is the ball of
  radius \<open>n\<close> in the undirected graph of the triple rows: what the traversal reports lies in it,
  and it is exactly it when no budget was hit.
\<close>

subsection \<open>Reading rows\<close>

lemma collect_Inr:
  "collect f xs = Inr ys \<longleftrightarrow> list_all2 (\<lambda>x y. f x = Inr y) xs ys"
proof (induction xs arbitrary: ys)
  case Nil
  then show ?case by auto
next
  case (Cons x xs)
  show ?case
  proof (cases "f x")
    case (Inl e)
    then show ?thesis by (auto simp: list_all2_Cons1)
  next
    case (Inr y)
    then show ?thesis using Cons.IH
      by (cases "collect f xs") (auto simp: list_all2_Cons1)
  qed
qed

lemma collect_total: "\<forall>x \<in> set xs. \<exists>y. f x = Inr y \<Longrightarrow> \<exists>ys. collect f xs = Inr ys"
proof (induction xs)
  case (Cons x xs)
  then obtain y ys where "f x = Inr y" "collect f xs = Inr ys" by auto
  then show ?case by simp
qed simp

lemma collect_image:
  assumes "collect f xs = Inr ys" and "\<And>x y. f x = Inr y \<Longrightarrow> h y = k x"
  shows "h ` set ys = k ` set xs"
proof -
  have "list_all2 (\<lambda>x y. f x = Inr y) xs ys" using assms(1) by (simp add: collect_Inr)
  then show ?thesis by induction (use assms(2) in auto)
qed

lemma entity_id_from_blob_Inr: "entity_id_from_blob v = Inr i \<Longrightarrow> i = v"
  by (auto simp: entity_id_from_blob_def blob32_def entity_id_from_str_def id_round_trip split: sum.splits if_splits)

lemma triple_from_row_ends:
  "triple_from_row G r = Inr t \<Longrightarrow>
     tr_from t = r_from_id r \<and> tr_to t = r_to_id r \<and> tr_predicate t = r_predicate r"
  by (auto simp: triple_from_row_def dest: entity_id_from_blob_Inr split: sum.splits)

lemma entity_from_row_id: "entity_from_row G r = Inr x \<Longrightarrow> ent_id x = e_id r"
  by (auto simp: entity_from_row_def dest: entity_id_from_blob_Inr split: sum.splits)

lemma document_from_row_id: "document_from_row G r = Inr x \<Longrightarrow> doc_id x = d_id r"
  by (auto simp: document_from_row_def blob32_def split: sum.splits if_splits)

lemma get_entity_conn_Inr:
  assumes "get_entity_conn G g i = Inr found"
  shows "found = None \<longleftrightarrow> \<not> entity_exists g i" and "found = Some x \<Longrightarrow> ent_id x = i"
  using assms
  by (auto simp: get_entity_conn_def entity_exists_def select_first_None
      dest!: entity_from_row_id select_first_Some split: option.splits sum.splits)

text \<open>Every row of the store parses, so that no read of it fails.\<close>

definition readable :: "'f graph_env \<Rightarrow> 'f graph \<Rightarrow> bool" where
  "readable G g \<longleftrightarrow>
     (\<forall>r \<in> set (g_entity g). \<exists>x. entity_from_row G r = Inr x) \<and>
     (\<forall>r \<in> set (g_triple g). \<exists>x. triple_from_row G r = Inr x) \<and>
     (\<forall>r \<in> set (g_document g). \<exists>x. document_from_row G r = Inr x)"

subsection \<open>Balls\<close>

definition neighbours :: "'f graph \<Rightarrow> id32 set \<Rightarrow> id32 set" where
  "neighbours g S = {r_to_id r |r. r \<in> set (g_triple g) \<and> r_from_id r \<in> S} \<union>
     {r_from_id r |r. r \<in> set (g_triple g) \<and> r_to_id r \<in> S}"

type_synonym edge_key = "id32 \<times> id32 \<times> string"

definition row_key :: "'f triple_row \<Rightarrow> edge_key" where
  "row_key r = (r_from_id r, r_to_id r, r_predicate r)"

definition triple_key :: "'f triple \<Rightarrow> edge_key" where
  "triple_key t = (tr_from t, tr_to t, tr_predicate t)"

definition edges_at :: "'f graph \<Rightarrow> id32 set \<Rightarrow> edge_key set" where
  "edges_at g S = row_key ` {r \<in> set (g_triple g). r_from_id r \<in> S \<or> r_to_id r \<in> S}"

fun ball :: "'f graph \<Rightarrow> id32 \<Rightarrow> nat \<Rightarrow> id32 set" where
  "ball g s 0 = {s}"
| "ball g s (Suc n) = ball g s n \<union> neighbours g (ball g s n)"

text \<open>The entities whose edges a search of \<open>n\<close> hops looks at.\<close>

fun interior :: "'f graph \<Rightarrow> id32 \<Rightarrow> nat \<Rightarrow> id32 set" where
  "interior g s 0 = {}"
| "interior g s (Suc n) = ball g s n"

lemma neighbours_Un: "neighbours g (S \<union> T) = neighbours g S \<union> neighbours g T"
  by (auto simp: neighbours_def)

lemma edges_at_Un: "edges_at g (S \<union> T) = edges_at g S \<union> edges_at g T"
  by (auto simp: edges_at_def)

lemma neighbours_mono: "S \<subseteq> T \<Longrightarrow> neighbours g S \<subseteq> neighbours g T"
  by (auto simp: neighbours_def)

lemma edges_at_mono: "S \<subseteq> T \<Longrightarrow> edges_at g S \<subseteq> edges_at g T"
  by (auto simp: edges_at_def)

lemma neighbours_empty [simp]: "neighbours g {} = {}"
  by (simp add: neighbours_def)

lemma edges_at_empty [simp]: "edges_at g {} = {}"
  by (simp add: edges_at_def)

lemma neighbours_interior: "neighbours g (interior g s n) \<subseteq> ball g s n"
  by (cases n) auto

lemma interior_ball: "interior g s n \<subseteq> ball g s n"
  by (cases n) auto

lemma ball_stable: "neighbours g (ball g s k) \<subseteq> ball g s k \<Longrightarrow> ball g s (k + n) = ball g s k"
  by (induction n) auto

lemma ball_mono: "m \<le> n \<Longrightarrow> ball g s m \<subseteq> ball g s n"
  by (induction n) (auto simp: le_Suc_eq)

lemma interior_mono: "m \<le> n \<Longrightarrow> interior g s m \<subseteq> interior g s n"
  by (cases m; cases n) (simp_all add: ball_mono)

subsection \<open>The traversal against the balls\<close>

text \<open>What the collections hold at any moment of the traversal.\<close>

definition bfs_ok :: "'f graph_env \<Rightarrow> 'f graph \<Rightarrow> 'f bfs \<Rightarrow> bool" where
  "bfs_ok G g b \<longleftrightarrow>
     ent_id ` set (all_entities b) = {i \<in> visited b. entity_exists g i} \<and>
     distinct (map ent_id (all_entities b)) \<and>
     (\<forall>e \<in> set (all_entities b). get_entity_conn G g (ent_id e) = Inr (Some e)) \<and>
     triple_key ` set (all_triples b) = seen_edges b \<and> distinct (map triple_key (all_triples b))"

text \<open>
  \<open>b'\<close> comes from \<open>b\<close> by visiting ends in \<open>S\<close> and recording edges in \<open>E\<close>: all of them, unless
  a budget was hit.
\<close>

definition extends :: "id32 set \<Rightarrow> edge_key set \<Rightarrow> 'f bfs \<Rightarrow> 'f bfs \<Rightarrow> bool" where
  "extends S E b b' \<longleftrightarrow>
     visited b \<subseteq> visited b' \<and> visited b' \<subseteq> visited b \<union> S \<and>
     seen_edges b \<subseteq> seen_edges b' \<and> seen_edges b' \<subseteq> seen_edges b \<union> E \<and>
     set (next_frontier b') = set (next_frontier b) \<union> (visited b' - visited b) \<and>
     (truncated b \<longrightarrow> truncated b') \<and>
     (\<not> truncated b' \<longrightarrow> visited b' = visited b \<union> S \<and> seen_edges b' = seen_edges b \<union> E)"

lemma extends_refl: "extends {} {} b b"
  by (simp add: extends_def)

lemma extends_trans:
  assumes "extends S E b c" and "extends T F c d"
  shows "extends (S \<union> T) (E \<union> F) b d"
proof -
  have sub: "visited b \<subseteq> visited c" "visited c \<subseteq> visited d"
    using assms by (simp_all add: extends_def)
  have "set (next_frontier d) = set (next_frontier b) \<union> (visited c - visited b) \<union> (visited d - visited c)"
    using assms by (simp add: extends_def)
  then have nf: "set (next_frontier d) = set (next_frontier b) \<union> (visited d - visited b)"
    using sub by blast
  have flags: "truncated b \<Longrightarrow> truncated d" "\<not> truncated d \<Longrightarrow> \<not> truncated c"
    using assms by (auto simp: extends_def)
  have upper: "visited d \<subseteq> visited b \<union> (S \<union> T)" "seen_edges d \<subseteq> seen_edges b \<union> (E \<union> F)"
    "seen_edges b \<subseteq> seen_edges d"
    using assms unfolding extends_def by blast+
  have "visited d = visited b \<union> (S \<union> T) \<and> seen_edges d = seen_edges b \<union> (E \<union> F)"
    if "\<not> truncated d"
    using assms flags(2)[OF that] that by (simp add: extends_def Un_assoc)
  with sub nf flags(1) upper show ?thesis unfolding extends_def by blast
qed

lemma extends_more:
  assumes "extends S E b c" and "truncated c" and "S \<subseteq> T" and "E \<subseteq> F"
  shows "extends T F b c"
  using assms unfolding extends_def by blast

lemma visit_end_extends:
  assumes "visit_end G g other b = Inr c" and "bfs_ok G g b"
  shows "extends {other} {} b c \<and> bfs_ok G g c \<and> seen_edges c = seen_edges b \<and> truncated c = truncated b"
proof (cases "other \<in> visited b")
  case True
  then show ?thesis using assms by (auto simp: visit_end_def extends_def)
next
  case False
  then obtain found where found: "get_entity_conn G g other = Inr found"
    and c: "c = b\<lparr>visited := insert other (visited b), next_frontier := next_frontier b @ [other],
      all_entities := all_entities b @ (case found of None \<Rightarrow> [] | Some x \<Rightarrow> [x])\<rparr>"
    using assms(1) by (auto simp: visit_end_def split: sum.splits)
  have "extends {other} {} b c" using False by (auto simp: c extends_def)
  moreover have "bfs_ok G g c"
  proof (cases found)
    case None
    with get_entity_conn_Inr(1)[OF found] assms(2) show ?thesis by (auto simp: c bfs_ok_def)
  next
    case (Some x)
    then have "entity_exists g other" "ent_id x = other"
      using get_entity_conn_Inr[OF found] by auto
    with Some False assms(2) found show ?thesis by (auto simp: c bfs_ok_def)
  qed
  ultimately show ?thesis by (simp add: c)
qed

lemma record_edge_extends:
  assumes "bfs_ok G g b"
  shows "extends {} {triple_key t} b (record_edge t b) \<and> bfs_ok G g (record_edge t b)"
  using assms by (auto simp: record_edge_def Let_def extends_def bfs_ok_def triple_key_def)

definition far_end :: "bool \<Rightarrow> 'f triple \<Rightarrow> id32" where
  "far_end outgoing t = (if outgoing then tr_to t else tr_from t)"

lemma extends_flag:
  "extends S E b c \<Longrightarrow> extends S E b (c\<lparr>truncated := True\<rparr>)"
  by (auto simp: extends_def)

lemma bfs_ok_flag [simp]: "bfs_ok G g (b\<lparr>truncated := x\<rparr>) = bfs_ok G g b"
  by (simp add: bfs_ok_def)

lemma scan_triples_extends:
  assumes "scan_triples G g outgoing ts b = Inr (c, broke)" and "bfs_ok G g b"
  shows "extends (far_end outgoing ` set ts) (triple_key ` set ts) b c \<and> bfs_ok G g c \<and>
    (broke \<longrightarrow> truncated c)"
  using assms
proof (induction ts arbitrary: b)
  case Nil
  then show ?case by (simp add: extends_refl)
next
  case (Cons t ts)
  obtain b1 where b1: "visit_end G g (far_end outgoing t) b = Inr b1"
    using Cons.prems(1) by (auto simp: far_end_def split: sum.splits)
  let ?b2 = "record_edge t b1"
  have e1: "extends {far_end outgoing t} {} b b1" "bfs_ok G g b1"
    using visit_end_extends[OF b1 Cons.prems(2)] by auto
  have e2: "extends {} {triple_key t} b1 ?b2" "bfs_ok G g ?b2"
    using record_edge_extends[OF e1(2)] by auto
  have e12: "extends {far_end outgoing t} {triple_key t} b ?b2"
    using extends_trans[OF e1(1) e2(1)] by simp
  show ?case
  proof (cases "over_budget ?b2")
    case True
    then have "c = ?b2\<lparr>truncated := True\<rparr>" "broke"
      using Cons.prems(1) b1 by (auto simp: far_end_def)
    then show ?thesis
      using e2(2) by (auto intro!: extends_more[OF extends_flag[OF e12]])
  next
    case False
    then have rest: "scan_triples G g outgoing ts ?b2 = Inr (c, broke)"
      using Cons.prems(1) b1 by (simp add: far_end_def Let_def)
    from Cons.IH[OF rest e2(2)] extends_trans[OF e12] show ?thesis by auto
  qed
qed

lemma directed_image:
  assumes "find_triples_directed G g i outgoing = Inr ts"
  shows "triple_key ` set ts = row_key ` {r \<in> set (g_triple g). (if outgoing then r_from_id r else r_to_id r) = i}"
    and "far_end outgoing ` set ts = (\<lambda>r. if outgoing then r_to_id r else r_from_id r) `
      {r \<in> set (g_triple g). (if outgoing then r_from_id r else r_to_id r) = i}"
proof -
  have ts: "collect (triple_from_row G) (filter (\<lambda>r. (if outgoing then r_from_id r else r_to_id r) = i)
      (g_triple g)) = Inr ts"
    using assms by (simp add: find_triples_directed_def if_distrib[where f = "\<lambda>x. x = i"] cong: if_cong)
  show "triple_key ` set ts = row_key ` {r \<in> set (g_triple g). (if outgoing then r_from_id r else r_to_id r) = i}"
    using collect_image[OF ts, of triple_key row_key]
    by (simp add: triple_key_def row_key_def triple_from_row_ends)
  show "far_end outgoing ` set ts = (\<lambda>r. if outgoing then r_to_id r else r_from_id r) `
      {r \<in> set (g_triple g). (if outgoing then r_from_id r else r_to_id r) = i}"
    using collect_image[OF ts, of "far_end outgoing" "\<lambda>r. if outgoing then r_to_id r else r_from_id r"]
    by (simp add: far_end_def triple_from_row_ends)
qed

lemma expand_id_extends:
  assumes "expand_id G g i b = Inr (c, broke)" and "bfs_ok G g b"
  shows "extends (neighbours g {i}) (edges_at g {i}) b c \<and> bfs_ok G g c \<and> (broke \<longrightarrow> truncated c)"
proof -
  obtain out_ts b1 broke1 where out: "find_triples_directed G g i True = Inr out_ts"
    and b1: "scan_triples G g True out_ts b = Inr (b1, broke1)"
    using assms(1) by (auto simp: expand_id_def split: sum.splits)
  from scan_triples_extends[OF b1 assms(2)] directed_image[OF out]
  have e1: "extends (r_to_id ` {r \<in> set (g_triple g). r_from_id r = i})
      (row_key ` {r \<in> set (g_triple g). r_from_id r = i}) b b1" "bfs_ok G g b1" "broke1 \<longrightarrow> truncated b1"
    by simp_all
  have split: "neighbours g {i} = r_to_id ` {r \<in> set (g_triple g). r_from_id r = i} \<union>
      r_from_id ` {r \<in> set (g_triple g). r_to_id r = i}"
    "edges_at g {i} = row_key ` {r \<in> set (g_triple g). r_from_id r = i} \<union>
      row_key ` {r \<in> set (g_triple g). r_to_id r = i}"
    by (auto simp: neighbours_def edges_at_def)
  show ?thesis
  proof (cases broke1)
    case True
    then have "c = b1" "broke" using assms(1) out b1 by (auto simp: expand_id_def)
    with True e1 show ?thesis by (auto simp: split intro: extends_more)
  next
    case False
    then obtain in_ts where "in": "find_triples_directed G g i False = Inr in_ts"
      and c: "scan_triples G g False in_ts b1 = Inr (c, broke)"
      using assms(1) out b1 by (auto simp: expand_id_def split: sum.splits)
    from scan_triples_extends[OF c e1(2)] directed_image[OF "in"] extends_trans[OF e1(1)]
    show ?thesis by (simp add: split)
  qed
qed

lemma expand_hop_extends:
  assumes "expand_hop G g is b = Inr c" and "bfs_ok G g b"
  shows "extends (neighbours g (set is)) (edges_at g (set is)) b c \<and> bfs_ok G g c"
  using assms
proof (induction "is" arbitrary: b)
  case Nil
  then show ?case by (simp add: extends_refl)
next
  case (Cons i "is")
  obtain b1 broke where b1: "expand_id G g i b = Inr (b1, broke)"
    using Cons.prems(1) by (auto split: sum.splits)
  note e1 = expand_id_extends[OF b1 Cons.prems(2)]
  have split: "neighbours g (set (i # is)) = neighbours g {i} \<union> neighbours g (set is)"
    "edges_at g (set (i # is)) = edges_at g {i} \<union> edges_at g (set is)"
    by (auto simp: neighbours_def edges_at_def)
  show ?case
  proof (cases broke)
    case True
    then have "c = b1" using Cons.prems(1) b1 by simp
    with True e1 show ?thesis unfolding split by (auto intro: extends_more)
  next
    case False
    then have rest: "expand_hop G g is b1 = Inr c" using Cons.prems(1) b1 by simp
    from Cons.IH[OF rest] e1 extends_trans show ?thesis unfolding split by blast
  qed
qed

text \<open>The invariant between hops: \<open>k\<close> hops done, \<open>frontier\<close> to expand next.\<close>

definition hop_inv :: "'f graph_env \<Rightarrow> 'f graph \<Rightarrow> id32 \<Rightarrow> nat \<Rightarrow> id32 list \<Rightarrow> 'f bfs \<Rightarrow> bool" where
  "hop_inv G g s k frontier b \<longleftrightarrow>
     bfs_ok G g b \<and> s \<in> visited b \<and> visited b \<subseteq> ball g s k \<and> set frontier \<subseteq> visited b \<and>
     seen_edges b \<subseteq> edges_at g (interior g s k) \<and>
     (\<not> truncated b \<longrightarrow> visited b = ball g s k \<and> seen_edges b = edges_at g (interior g s k) \<and>
        ball g s k = interior g s k \<union> set frontier)"

lemma hop_inv_step:
  assumes "hop_inv G g s k frontier b" and "expand_hop G g frontier (b\<lparr>next_frontier := []\<rparr>) = Inr c"
  shows "hop_inv G g s (Suc k) (next_frontier c) c"
proof -
  have ok: "bfs_ok G g (b\<lparr>next_frontier := []\<rparr>)" using assms(1) by (simp add: hop_inv_def bfs_ok_def)
  note e = expand_hop_extends[OF assms(2) ok]
  have vis: "visited b \<subseteq> visited c" "visited c \<subseteq> visited b \<union> neighbours g (set frontier)"
    "seen_edges c \<subseteq> seen_edges b \<union> edges_at g (set frontier)"
    "set (next_frontier c) = visited c - visited b" "bfs_ok G g c"
    using e by (auto simp: extends_def)
  have f: "set frontier \<subseteq> ball g s k" using assms(1) by (auto simp: hop_inv_def)
  have up: "visited c \<subseteq> ball g s (Suc k)"
    using vis(2) assms(1) neighbours_mono[OF f] by (auto simp: hop_inv_def)
  have sup: "seen_edges c \<subseteq> edges_at g (ball g s k)"
  proof -
    have "seen_edges b \<subseteq> edges_at g (ball g s k)"
      using assms(1) edges_at_mono[OF interior_ball[of g s k]] unfolding hop_inv_def by blast
    with vis(3) edges_at_mono[OF f] show ?thesis by blast
  qed
  have exact: "visited c = ball g s (Suc k) \<and> seen_edges c = edges_at g (ball g s k) \<and>
      ball g s (Suc k) = ball g s k \<union> set (next_frontier c)" if "\<not> truncated c"
  proof -
    have nt: "\<not> truncated b" using e that by (auto simp: extends_def)
    then have b: "visited b = ball g s k" "seen_edges b = edges_at g (interior g s k)"
      "ball g s k = interior g s k \<union> set frontier" using assms(1) by (auto simp: hop_inv_def)
    have c: "visited c = ball g s k \<union> neighbours g (set frontier)"
      "seen_edges c = edges_at g (interior g s k) \<union> edges_at g (set frontier)"
      using e that b by (auto simp: extends_def)
    have nb: "neighbours g (ball g s k) = neighbours g (interior g s k) \<union> neighbours g (set frontier)"
      by (subst b(3)) (rule neighbours_Un)
    have ed: "edges_at g (ball g s k) = edges_at g (interior g s k) \<union> edges_at g (set frontier)"
      by (subst b(3)) (rule edges_at_Un)
    have v: "visited c = ball g s (Suc k)"
      unfolding ball.simps nb c(1) using neighbours_interior[of g s k] by blast
    have "ball g s (Suc k) = ball g s k \<union> set (next_frontier c)"
      unfolding v[symmetric] vis(4) b(1)[symmetric] using vis(1) by blast
    with v c(2) ed show ?thesis by simp
  qed
  have "s \<in> visited c" using vis(1) assms(1) unfolding hop_inv_def by blast
  moreover have "set (next_frontier c) \<subseteq> visited c" using vis(4) by blast
  ultimately show ?thesis
    unfolding hop_inv_def interior.simps using vis(5) up sup exact by (intro conjI impI) simp_all
qed

lemma hops_inv:
  assumes "hops G g n frontier b = Inr c" and "hop_inv G g s k frontier b"
  shows "\<exists>frontier'. hop_inv G g s (k + n) frontier' c"
  using assms
proof (induction n arbitrary: k frontier b)
  case 0
  then show ?case by auto
next
  case (Suc n)
  show ?case
  proof (cases "frontier = []")
    case True
    then have c: "c = b" using Suc.prems(1) by simp
    have sub: "ball g s k \<subseteq> ball g s (k + Suc n)" "interior g s k \<subseteq> interior g s (k + Suc n)"
      by (rule ball_mono, simp) (rule interior_mono, simp)
    have "ball g s (k + Suc n) = ball g s k \<and> interior g s (k + Suc n) = interior g s k" if "\<not> truncated b"
    proof -
      have eq: "ball g s k = interior g s k" using Suc.prems(2) that True by (simp add: hop_inv_def)
      have "neighbours g (ball g s k) \<subseteq> ball g s k" unfolding eq using neighbours_interior eq by metis
      from ball_stable[OF this, of "Suc n"] ball_stable[OF this, of n] eq show ?thesis by simp
    qed
    moreover have "edges_at g (interior g s k) \<subseteq> edges_at g (interior g s (k + Suc n))"
      by (rule edges_at_mono[OF sub(2)])
    ultimately have "hop_inv G g s (k + Suc n) [] b"
      using Suc.prems(2) sub True unfolding hop_inv_def by (simp del: ball.simps add: subset_iff)
    then show ?thesis unfolding c by blast
  next
    case False
    then obtain b1 where b1: "expand_hop G g frontier (b\<lparr>next_frontier := []\<rparr>) = Inr b1"
      and rest: "hops G g n (next_frontier b1) b1 = Inr c"
      using Suc.prems(1) by (auto split: sum.splits)
    from Suc.IH[OF rest hop_inv_step[OF Suc.prems(2) b1]] show ?thesis by simp
  qed
qed

lemma neighborhood_Inr:
  assumes "neighborhood G g start h = Inr nb"
  obtains b ds frontier where "hop_inv G g start h frontier b"
    and "scan_documents G g (sorted_list_of_set (visited b)) [] = Inr ds"
    and "nb = \<lparr>nb_entities = all_entities b, nb_triples = all_triples b, nb_documents = ds,
             nb_truncated = truncated b\<rparr>"
proof -
  obtain found where found: "get_entity_conn G g start = Inr found"
    using assms by (auto simp: neighborhood_def split: sum.splits)
  define b0 where "b0 = \<lparr>visited = {start}, seen_edges = {},
    all_entities = (case found of None \<Rightarrow> [] | Some x \<Rightarrow> [x]),
    all_triples = [], next_frontier = [], truncated = False\<rparr>"
  obtain b ds where b: "hops G g h [start] b0 = Inr b"
    and ds: "scan_documents G g (sorted_list_of_set (visited b)) [] = Inr ds"
    and nb: "nb = \<lparr>nb_entities = all_entities b, nb_triples = all_triples b, nb_documents = ds,
             nb_truncated = truncated b\<rparr>"
    using assms found by (auto simp: neighborhood_def b0_def Let_def split: sum.splits)
  have "bfs_ok G g b0"
    using get_entity_conn_Inr[OF found] found by (cases found) (auto simp: bfs_ok_def b0_def)
  then have "hop_inv G g start 0 [start] b0" by (simp add: hop_inv_def b0_def)
  from hops_inv[OF b this] that ds nb show ?thesis by auto
qed

lemma neighborhood_exact:
  assumes "neighborhood G g start h = Inr nb"
  shows "distinct (map ent_id (nb_entities nb)) \<and> distinct (map triple_key (nb_triples nb)) \<and>
    ent_id ` set (nb_entities nb) \<subseteq> {i \<in> ball g start h. entity_exists g i} \<and>
    triple_key ` set (nb_triples nb) \<subseteq> edges_at g (interior g start h) \<and>
    (\<not> nb_truncated nb \<longrightarrow>
      ent_id ` set (nb_entities nb) = {i \<in> ball g start h. entity_exists g i} \<and>
      triple_key ` set (nb_triples nb) = edges_at g (interior g start h))"
proof -
  obtain b ds frontier where inv: "hop_inv G g start h frontier b"
    and nb: "nb = \<lparr>nb_entities = all_entities b, nb_triples = all_triples b, nb_documents = ds,
             nb_truncated = truncated b\<rparr>"
    using neighborhood_Inr[OF assms] by blast
  then have ok: "bfs_ok G g b" "visited b \<subseteq> ball g start h" "seen_edges b \<subseteq> edges_at g (interior g start h)"
    "\<not> truncated b \<longrightarrow> visited b = ball g start h \<and> seen_edges b = edges_at g (interior g start h)"
    unfolding hop_inv_def by blast+
  then show ?thesis by (auto simp: nb bfs_ok_def)
qed

lemma neighborhood_entities:
  assumes "neighborhood G g start h = Inr nb"
  shows "\<forall>e \<in> set (nb_entities nb). get_entity_conn G g (ent_id e) = Inr (Some e)"
proof -
  obtain b ds frontier where "hop_inv G g start h frontier b" "nb_entities nb = all_entities b"
    using neighborhood_Inr[OF assms] by (metis neighborhood.select_convs(1))
  then show ?thesis unfolding hop_inv_def bfs_ok_def by simp
qed

text \<open>
  C32: A neighborhood search lists every entity and every edge once; what it lists lies in the ball
  of \<open>h\<close> hops around the start, and when it does not report truncation it is exact: the entities
  are those of the ball, and the edges are all those with an end within \<open>h - 1\<close> hops.
\<close>

theorem neighborhood_is_ball:
  assumes "neighborhood G g start h = Inr nb"
  shows "distinct (map ent_id (nb_entities nb)) \<and> distinct (map triple_key (nb_triples nb)) \<and>
    ent_id ` set (nb_entities nb) \<subseteq> {i \<in> ball g start h. entity_exists g i} \<and>
    triple_key ` set (nb_triples nb) \<subseteq> edges_at g (interior g start h) \<and>
    (\<not> nb_truncated nb \<longrightarrow>
      ent_id ` set (nb_entities nb) = {i \<in> ball g start h. entity_exists g i} \<and>
      triple_key ` set (nb_triples nb) = edges_at g (interior g start h))"
  using assms by (rule neighborhood_exact)

subsection \<open>Budgets\<close>

definition in_budget :: "nat \<Rightarrow> nat \<Rightarrow> 'f bfs \<Rightarrow> bool" where
  "in_budget t0 n0 b \<longleftrightarrow> length (next_frontier b) < MAX_FRONTIER \<and>
     (length (all_triples b) = t0 \<or> length (all_triples b) < MAX_TRIPLES) \<and>
     length (all_entities b) \<le> n0 + length (next_frontier b)"

definition at_budget :: "nat \<Rightarrow> nat \<Rightarrow> 'f bfs \<Rightarrow> bool" where
  "at_budget t0 n0 b \<longleftrightarrow> length (next_frontier b) \<le> MAX_FRONTIER \<and>
     length (all_triples b) \<le> max (t0 + 1) MAX_TRIPLES \<and>
     length (all_entities b) \<le> n0 + length (next_frontier b)"

lemma in_at_budget: "in_budget t0 n0 b \<Longrightarrow> at_budget t0 n0 b"
  by (auto simp: in_budget_def at_budget_def)

lemma visit_end_budget:
  assumes "visit_end G g other b = Inr c"
  shows "all_triples c = all_triples b \<and> length (next_frontier c) \<le> length (next_frontier b) + 1 \<and>
    length (all_entities c) + length (next_frontier b) \<le> length (all_entities b) + length (next_frontier c)"
  using assms by (auto simp: visit_end_def split: if_splits sum.splits option.splits)

lemma record_edge_budget:
  "next_frontier (record_edge t b) = next_frontier b \<and> all_entities (record_edge t b) = all_entities b \<and>
   length (all_triples (record_edge t b)) \<le> length (all_triples b) + 1"
  by (simp add: record_edge_def Let_def)

lemma scan_triples_budget:
  assumes "scan_triples G g outgoing ts b = Inr (c, broke)" and "in_budget t0 n0 b"
  shows "at_budget t0 n0 c \<and> (\<not> broke \<longrightarrow> in_budget t0 n0 c)"
  using assms
proof (induction ts arbitrary: b)
  case Nil
  then show ?case by (simp add: in_at_budget)
next
  case (Cons t ts)
  obtain b1 where b1: "visit_end G g (far_end outgoing t) b = Inr b1"
    using Cons.prems(1) by (auto simp: far_end_def split: sum.splits)
  let ?b2 = "record_edge t b1"
  note v = visit_end_budget[OF b1] and r = record_edge_budget[of t b1]
  have at: "at_budget t0 n0 ?b2"
    using Cons.prems(2) v r unfolding in_budget_def at_budget_def by auto
  show ?case
  proof (cases "over_budget ?b2")
    case True
    then have "c = ?b2\<lparr>truncated := True\<rparr>" "broke"
      using Cons.prems(1) b1 by (auto simp: far_end_def)
    with at show ?thesis by (simp add: at_budget_def)
  next
    case False
    then have rest: "scan_triples G g outgoing ts ?b2 = Inr (c, broke)"
      using Cons.prems(1) b1 by (simp add: far_end_def Let_def)
    have "in_budget t0 n0 ?b2" using False at by (auto simp: over_budget_def in_budget_def at_budget_def)
    from Cons.IH[OF rest this] show ?thesis .
  qed
qed

lemma expand_id_budget:
  assumes "expand_id G g i b = Inr (c, broke)" and "in_budget t0 n0 b"
  shows "at_budget t0 n0 c \<and> (\<not> broke \<longrightarrow> in_budget t0 n0 c)"
  using assms scan_triples_budget
  by (fastforce simp: expand_id_def split: sum.splits if_splits prod.splits)

lemma expand_hop_budget:
  assumes "expand_hop G g is b = Inr c" and "in_budget t0 n0 b"
  shows "at_budget t0 n0 c"
  using assms
proof (induction "is" arbitrary: b)
  case Nil
  then show ?case by (simp add: in_at_budget)
next
  case (Cons i "is")
  obtain b1 broke where b1: "expand_id G g i b = Inr (b1, broke)"
    using Cons.prems(1) by (auto split: sum.splits)
  from expand_id_budget[OF b1 Cons.prems(2)] Cons.IH Cons.prems(1) b1 show ?case
    by (cases broke) auto
qed

lemma hops_budget:
  assumes "hops G g n frontier b = Inr c"
    and "length (all_triples b) + 1 \<le> MAX_TRIPLES + k"
    and "length (all_entities b) \<le> 1 + MAX_FRONTIER * k"
  shows "length (all_triples c) + 1 \<le> MAX_TRIPLES + (k + n) \<and>
    length (all_entities c) \<le> 1 + MAX_FRONTIER * (k + n)"
  using assms
proof (induction n arbitrary: k frontier b)
  case 0
  then show ?case by simp
next
  case (Suc n)
  show ?case
  proof (cases "frontier = []")
    case True
    then show ?thesis using Suc.prems by (simp add: algebra_simps)
  next
    case False
    then obtain b1 where b1: "expand_hop G g frontier (b\<lparr>next_frontier := []\<rparr>) = Inr b1"
      and rest: "hops G g n (next_frontier b1) b1 = Inr c"
      using Suc.prems(1) by (auto split: sum.splits)
    have "at_budget (length (all_triples b)) (length (all_entities b)) b1"
      by (rule expand_hop_budget[OF b1]) (simp add: in_budget_def MAX_FRONTIER_def)
    then have "length (all_triples b1) + 1 \<le> MAX_TRIPLES + Suc k"
      "length (all_entities b1) \<le> 1 + MAX_FRONTIER * Suc k"
      using Suc.prems(2,3) by (auto simp: at_budget_def)
    from Suc.IH[OF rest this] show ?thesis by simp
  qed
qed

lemma add_documents_ok:
  assumes "add_documents ds acc = (acc', full)" and "length acc < MAX_DOCUMENTS"
    and "distinct (map doc_id acc)"
  shows "distinct (map doc_id acc') \<and> length acc' \<le> MAX_DOCUMENTS \<and>
    (\<not> full \<longrightarrow> length acc' < MAX_DOCUMENTS)"
  using assms by (induction ds acc rule: add_documents.induct) (auto simp: Let_def split: if_splits)

lemma scan_documents_ok:
  assumes "scan_documents G g is acc = Inr ds" and "length acc < MAX_DOCUMENTS"
    and "distinct (map doc_id acc)"
  shows "distinct (map doc_id ds) \<and> length ds \<le> MAX_DOCUMENTS"
  using assms
proof (induction "is" arbitrary: acc)
  case (Cons i "is")
  obtain new acc1 full where new: "find_mentioning_documents G g i = Inr new"
    and acc1: "add_documents new acc = (acc1, full)"
    using Cons.prems(1) by (cases "add_documents (projr (find_mentioning_documents G g i)) acc")
      (auto split: sum.splits)
  from add_documents_ok[OF acc1 Cons.prems(2,3)] Cons.IH Cons.prems(1) new acc1
  show ?case by (cases full) (auto simp: Let_def)
qed auto

text \<open>On a readable store no read of the traversal fails.\<close>

lemma get_entity_conn_total: "readable G g \<Longrightarrow> \<exists>x. get_entity_conn G g i = Inr x"
  by (auto simp: get_entity_conn_def readable_def dest!: select_first_Some split: option.split)

lemma find_triples_directed_total:
  "readable G g \<Longrightarrow> \<exists>ts. find_triples_directed G g i outgoing = Inr ts"
  unfolding find_triples_directed_def by (rule collect_total) (auto simp: readable_def)

lemma find_mentioning_documents_total:
  "readable G g \<Longrightarrow> \<exists>ds. find_mentioning_documents G g i = Inr ds"
  unfolding find_mentioning_documents_def by (rule collect_total) (auto simp: readable_def)

lemma visit_end_total: "readable G g \<Longrightarrow> \<exists>c. visit_end G g i b = Inr c"
  using get_entity_conn_total[of G g i] by (auto simp: visit_end_def)

lemma scan_triples_total:
  "readable G g \<Longrightarrow> \<exists>c. scan_triples G g outgoing ts b = Inr c"
proof (induction ts arbitrary: b)
  case Nil
  show ?case unfolding scan_triples.simps by blast
next
  case (Cons t ts)
  obtain b1 where "visit_end G g (if outgoing then tr_to t else tr_from t) b = Inr b1"
    using visit_end_total[OF Cons.prems] by blast
  with Cons show ?case by (auto simp: Let_def)
qed

lemma expand_id_total:
  assumes "readable G g"
  shows "\<exists>c. expand_id G g i b = Inr c"
proof -
  obtain out_ts in_ts where ts: "find_triples_directed G g i True = Inr out_ts"
    "find_triples_directed G g i False = Inr in_ts"
    using find_triples_directed_total[OF assms] by metis
  obtain b1 broke where "scan_triples G g True out_ts b = Inr (b1, broke)"
    using scan_triples_total[OF assms] by (metis surj_pair)
  with ts scan_triples_total[OF assms, of False in_ts b1] show ?thesis by (auto simp: expand_id_def)
qed

lemma expand_hop_total: "readable G g \<Longrightarrow> \<exists>c. expand_hop G g is b = Inr c"
proof (induction "is" arbitrary: b)
  case (Cons i "is")
  obtain b1 broke where "expand_id G g i b = Inr (b1, broke)"
    using expand_id_total[OF Cons.prems] by (metis surj_pair)
  with Cons show ?case by auto
qed simp

lemma hops_total: "readable G g \<Longrightarrow> \<exists>c. hops G g n frontier b = Inr c"
proof (induction n arbitrary: frontier b)
  case (Suc n)
  obtain b1 where "expand_hop G g frontier (b\<lparr>next_frontier := []\<rparr>) = Inr b1"
    using expand_hop_total[OF Suc.prems] by blast
  with Suc show ?case by auto
qed simp

lemma scan_documents_total: "readable G g \<Longrightarrow> \<exists>ds. scan_documents G g is acc = Inr ds"
proof (induction "is" arbitrary: acc)
  case (Cons i "is")
  obtain new where "find_mentioning_documents G g i = Inr new"
    using find_mentioning_documents_total[OF Cons.prems] by blast
  with Cons show ?case by (auto simp: Let_def split: prod.split)
qed simp

lemma neighborhood_returns:
  assumes "readable G g"
  shows "\<exists>nb. neighborhood G g start h = Inr nb \<and>
    distinct (map doc_id (nb_documents nb)) \<and> length (nb_documents nb) \<le> MAX_DOCUMENTS \<and>
    length (nb_entities nb) \<le> 1 + MAX_FRONTIER * h \<and>
    length (nb_triples nb) + 1 \<le> MAX_TRIPLES + h"
proof -
  obtain found where found: "get_entity_conn G g start = Inr found"
    using get_entity_conn_total[OF assms] by blast
  define b0 where "b0 = \<lparr>visited = {start}, seen_edges = {},
    all_entities = (case found of None \<Rightarrow> [] | Some x \<Rightarrow> [x]),
    all_triples = [], next_frontier = [], truncated = False\<rparr>"
  obtain b where b: "hops G g h [start] b0 = Inr b" using hops_total[OF assms] by blast
  obtain ds where ds: "scan_documents G g (sorted_list_of_set (visited b)) [] = Inr ds"
    using scan_documents_total[OF assms] by blast
  have nb: "neighborhood G g start h = Inr \<lparr>nb_entities = all_entities b, nb_triples = all_triples b,
      nb_documents = ds, nb_truncated = truncated b\<rparr>"
    using found b ds by (simp add: neighborhood_def b0_def Let_def)
  have "length (all_triples b) + 1 \<le> MAX_TRIPLES + (0 + h) \<and>
      length (all_entities b) \<le> 1 + MAX_FRONTIER * (0 + h)"
    by (rule hops_budget[OF b]) (simp_all add: b0_def MAX_TRIPLES_def split: option.split)
  moreover have "distinct (map doc_id ds) \<and> length ds \<le> MAX_DOCUMENTS"
    by (rule scan_documents_ok[OF ds]) (simp_all add: MAX_DOCUMENTS_def)
  ultimately show ?thesis using nb by simp
qed

text \<open>
  On a store whose rows parse, a neighborhood search always returns, and what it returns is
  bounded: at most \<open>MAX_DOCUMENTS\<close> documents, all different, at most \<open>MAX_FRONTIER\<close> new entities
  per hop, and at most \<open>MAX_TRIPLES\<close> edges plus one for each hop after the first.
\<close>

theorem neighborhood_total_bounded:
  assumes "readable G g"
  shows "\<exists>nb. neighborhood G g start h = Inr nb \<and>
    distinct (map doc_id (nb_documents nb)) \<and> length (nb_documents nb) \<le> MAX_DOCUMENTS \<and>
    length (nb_entities nb) \<le> 1 + MAX_FRONTIER * h \<and>
    length (nb_triples nb) + 1 \<le> MAX_TRIPLES + h"
  using assms by (rule neighborhood_returns)

lemma do_write_appends:
  "asserted ` set (g_triple g) \<subseteq> asserted ` set (g_triple (do_write G preds self_id w g))"
proof -
  have "asserted ` set (g_triple g) \<subseteq> asserted ` set (g_triple (insert_triple G t g))" for t and g
    by (auto simp: insert_triple_def Let_def)
  moreover have "asserted ` set (update_where P (retire now n by) ts) = asserted ` set ts"
    for P now n "by" and ts :: "'a triple_row list"
    by (metis asserted_retire asserted_update list.set_map)
  ultimately show ?thesis
    by (simp add: do_write_def write_triple_with_doc_def Let_def split_beta insert_triple_superseding_def
        insert_triple_superseding_by_def) (metis g_triple_upsert)
qed

text \<open>
  A neighborhood search does not follow supersession: after an assertion has replaced the
  object of a single-valued slot, a complete search from the subject reports the edge to the old
  object as well as the edge to the new one, although only the new one is live.
\<close>

theorem neighborhood_reports_superseded:
  assumes "predicate_is_single_valued preds (w_predicate w) (mm_entity_type (w_subject w))"
    and "mm_entity_id (w_subject w) = s" and "w_predicate w = p" and "mm_entity_id (w_object w) = new"
    and "slot_objects g s p = [old]" and "old \<noteq> new"
    and "neighborhood G (do_write G preds self_id w g) s h = Inr nb"
    and "\<not> nb_truncated nb" and "h > 0"
  shows "slot_objects (do_write G preds self_id w g) s p = [new] \<and>
    (s, old, p) \<in> triple_key ` set (nb_triples nb) \<and> (s, new, p) \<in> triple_key ` set (nb_triples nb)"
proof -
  let ?g = "do_write G preds self_id w g"
  have live: "slot_objects ?g s p = [new]"
    using assms by (subst slot_objects_write) (auto simp: to_slot_def)
  obtain n where h: "h = Suc n" using assms(9) gr0_implies_Suc by blast
  have s: "s \<in> interior ?g s h"
    unfolding h interior.simps using ball_mono[of 0 n ?g s] by auto
  have keys: "triple_key ` set (nb_triples nb) = edges_at ?g (interior ?g s h)"
    using neighborhood_exact[OF assms(7)] assms(8) by blast
  have in_keys: "row_key r \<in> triple_key ` set (nb_triples nb)"
    if "r \<in> set (g_triple ?g)" "r_from_id r = s" for r
    using that s by (auto simp: keys edges_at_def)
  obtain r where r: "r \<in> set (slot_rows g s p)" "r_to_id r = old"
    using assms(5) by (auto simp: slot_objects_def)
  then have "asserted r \<in> asserted ` set (g_triple ?g)"
    using do_write_appends[where G = G and preds = preds and self_id = self_id and w = w and g = g] by (auto simp: slot_rows_def)
  then obtain r' where r': "r' \<in> set (g_triple ?g)" "asserted r' = asserted r" by auto
  from r'(2) have "row_key r' = row_key r" by (metis asserted_simps(3,4,5) row_key_def)
  moreover have "row_key r = (s, old, p)" using r by (auto simp: row_key_def slot_rows_def in_slot_def)
  ultimately have old: "(s, old, p) \<in> triple_key ` set (nb_triples nb)"
    using in_keys[OF r'(1)] by (auto simp: row_key_def)
  obtain q where q: "q \<in> set (slot_rows ?g s p)" "r_to_id q = new"
    using live by (auto simp: slot_objects_def)
  then have "q \<in> set (g_triple ?g)" "r_from_id q = s" "row_key q = (s, new, p)"
    by (auto simp: slot_rows_def in_slot_def row_key_def)
  with in_keys[of q] live old show ?thesis by simp
qed

subsection \<open>Concrete instances\<close>

lemma entity_id_from_blob_32: "length v = 32 \<Longrightarrow> entity_id_from_blob v = Inr v"
  by (simp add: entity_id_from_blob_def blob32_def entity_id_from_str_def id_round_trip)

lemma length_toy_id [simp]: "length (toy_id n) = 32"
  by (simp add: toy_id_def)

definition toy_moved :: "nat graph" where
  "toy_moved = do_write toy_env toy_ontology (toy_id 9) (toy_assertion 5 1 3) toy_base"

lemmas toy_rows = toy_moved_def do_write_def write_triple_with_doc_def toy_base_def insert_triple_def
  upsert_entity_def upsert_def update_where_def empty_graph_def Let_def mention_entity_def toy_mention_def
  toy_triple_def toy_assertion_def predicate_is_single_valued_def toy_ontology_def
  insert_triple_superseding_def insert_triple_superseding_by_def count_where_def conflicts_def retire_def
  triple_to_row_def entity_exists_def

lemma toy_moved_readable: "readable toy_env toy_moved"
  by (simp add: readable_def toy_rows entity_from_row_def triple_from_row_def entity_id_from_blob_32
      read_visibility_def str_to_visibility_def parse_dt_def toy_env_def blob32_def del: One_nat_def)

lemma toy_moved_triples: "g_triple toy_moved =
  [retire (to_rfc3339 toy_env 5) 2 None (triple_to_row toy_env 1 (toy_triple 3 1 2)),
   triple_to_row toy_env 2 (toy_triple 5 1 3)]"
  by (simp add: toy_rows toy_env_def del: One_nat_def)

lemma neighborhood_is_ball_witness:
  "\<exists>nb. neighborhood toy_env toy_moved (toy_id 1) 2 = Inr nb \<and>
     distinct (map ent_id (nb_entities nb)) \<and>
     triple_key ` set (nb_triples nb) \<subseteq>
       {(toy_id 1, toy_id 2, ''lives_in''), (toy_id 1, toy_id 3, ''lives_in'')}"
proof -
  obtain nb where nb: "neighborhood toy_env toy_moved (toy_id 1) 2 = Inr nb"
    using neighborhood_returns[OF toy_moved_readable] by blast
  have sub: "edges_at toy_moved S \<subseteq> {(toy_id 1, toy_id 2, ''lives_in''), (toy_id 1, toy_id 3, ''lives_in'')}" for S
    by (auto simp: edges_at_def toy_moved_triples row_key_def retire_def triple_to_row_def)
  note is_ball = neighborhood_is_ball[OF nb]
  show ?thesis
  proof (intro exI conjI)
    show "neighborhood toy_env toy_moved (toy_id 1) 2 = Inr nb" by (rule nb)
    show "distinct (map ent_id (nb_entities nb))" by (rule conjunct1[OF is_ball])
    show "triple_key ` set (nb_triples nb) \<subseteq>
       {(toy_id 1, toy_id 2, ''lives_in''), (toy_id 1, toy_id 3, ''lives_in'')}"
      by (rule subset_trans[OF _ sub])
        (rule conjunct1[OF conjunct2[OF conjunct2[OF conjunct2[OF is_ball]]]])
  qed
qed

lemma neighborhood_total_bounded_witness:
  "\<exists>nb. neighborhood toy_env toy_moved (toy_id 1) 2 = Inr nb \<and> length (nb_documents nb) \<le> MAX_DOCUMENTS"
  using neighborhood_total_bounded[OF toy_moved_readable, of "toy_id 1" 2] by blast

lemma toy_moved_exact: "\<exists>nb. neighborhood toy_env toy_moved (toy_id 1) 1 = Inr nb \<and> \<not> nb_truncated nb"
proof -
  have t: "find_triples_directed toy_env toy_moved (toy_id 1) True = Inr [toy_triple 3 1 2, toy_triple 5 1 3]"
    "find_triples_directed toy_env toy_moved (toy_id 1) False = Inr []"
    by (simp_all add: find_triples_directed_def toy_moved_triples retire_def triple_to_row_def
       triple_from_row_def entity_id_from_blob_32 read_visibility_def str_to_visibility_def parse_dt_def
       toy_env_def blob32_def toy_triple_def del: One_nat_def)
  obtain nb where nb: "neighborhood toy_env toy_moved (toy_id 1) 1 = Inr nb"
    using neighborhood_returns[OF toy_moved_readable] by blast
  obtain e1 e2 e3 where e: "get_entity_conn toy_env toy_moved (toy_id 1) = Inr e1"
    "get_entity_conn toy_env toy_moved (toy_id 2) = Inr e2"
    "get_entity_conn toy_env toy_moved (toy_id 3) = Inr e3"
    using get_entity_conn_total[OF toy_moved_readable] by metis
  have "\<not> nb_truncated nb"
    using nb t e
    by (auto simp: neighborhood_def expand_id_def visit_end_def record_edge_def over_budget_def Let_def
        MAX_TRIPLES_def MAX_FRONTIER_def toy_triple_def split: sum.splits)
  with nb show ?thesis by blast
qed

lemma neighborhood_reports_superseded_witness:
  "\<exists>nb. neighborhood toy_env toy_moved (toy_id 1) 1 = Inr nb \<and>
     slot_objects toy_moved (toy_id 1) ''lives_in'' = [toy_id 3] \<and>
     (toy_id 1, toy_id 2, ''lives_in'') \<in> triple_key ` set (nb_triples nb) \<and>
     (toy_id 1, toy_id 3, ''lives_in'') \<in> triple_key ` set (nb_triples nb)"
proof -
  obtain nb where nb: "neighborhood toy_env toy_moved (toy_id 1) 1 = Inr nb" "\<not> nb_truncated nb"
    using toy_moved_exact by blast
  have "slot_objects toy_moved (toy_id 1) ''lives_in'' = [toy_id 3] \<and>
     (toy_id 1, toy_id 2, ''lives_in'') \<in> triple_key ` set (nb_triples nb) \<and>
     (toy_id 1, toy_id 3, ''lives_in'') \<in> triple_key ` set (nb_triples nb)"
    unfolding toy_moved_def
    by (rule neighborhood_reports_superseded[where G = toy_env and h = 1])
      (use nb in \<open>simp_all add: toy_moved_def toy_assertion_def toy_mention_def toy_ontology_def
        predicate_is_single_valued_def slot_objects_def slot_rows_def toy_base_triples in_slot_def
        triple_to_row_def del: One_nat_def\<close>)
  with nb show ?thesis by blast
qed

end
