(* ===== verification/Graph_Recall.thy ===== *)
theory Graph_Recall
  imports Graph_Bfs
begin

text \<open>
  Graph recall, \<open>Brain::recall_graph\<close>: the two-hop neighborhoods of the entities the query names
  are merged, first occurrence first, and then filtered by the visibility of the context. The
  seeds are the entities the canonicalizer matched.
\<close>

text \<open>\<open>for x in xs { if seen.insert(key(x)) { acc.push(x) } }\<close>, where \<open>seen\<close> holds the keys of \<open>acc\<close>.\<close>

definition push_new :: "('a \<Rightarrow> 'k) \<Rightarrow> 'a list \<Rightarrow> 'a list \<Rightarrow> 'a list" where
  "push_new key xs acc = foldl (\<lambda>a x. if key x \<in> key ` set a then a else a @ [x]) acc xs"

fun merge_hoods ::
    "'f graph_env \<Rightarrow> 'f graph \<Rightarrow> id32 list \<Rightarrow> 'f neighborhood \<Rightarrow> graph_error + 'f neighborhood" where
  "merge_hoods G g [] acc = Inr acc"
| "merge_hoods G g (seed # seeds) acc =
     (case neighborhood G g seed 2 of Inl e \<Rightarrow> Inl e
      | Inr hood \<Rightarrow> merge_hoods G g seeds
          \<lparr>nb_entities = push_new ent_id (nb_entities hood) (nb_entities acc),
           nb_triples = push_new triple_key (nb_triples hood) (nb_triples acc),
           nb_documents = push_new doc_id (nb_documents hood) (nb_documents acc),
           nb_truncated = (nb_truncated acc \<or> nb_truncated hood)\<rparr>)"

record 'f recall_result =
  rr_seed_entities :: "id32 list"
  rr_triples :: "'f triple list"
  rr_neighborhood :: "'f neighborhood"

definition no_neighborhood :: "'f neighborhood" where
  "no_neighborhood = \<lparr>nb_entities = [], nb_triples = [], nb_documents = [], nb_truncated = False\<rparr>"

definition recall_graph ::
    "'f graph_env \<Rightarrow> 'f graph \<Rightarrow> id32 list \<Rightarrow> visibility \<Rightarrow> graph_error + 'f recall_result" where
  "recall_graph G g seeds ctx =
     (if seeds = [] then Inr \<lparr>rr_seed_entities = [], rr_triples = [], rr_neighborhood = no_neighborhood\<rparr>
      else case merge_hoods G g seeds no_neighborhood of Inl e \<Rightarrow> Inl e
      | Inr m \<Rightarrow>
          let es = filter (\<lambda>x. allows (ent_visibility x) ctx) (nb_entities m);
              ts = filter (\<lambda>x. allows (tr_visibility x) ctx) (nb_triples m);
              ds = filter (\<lambda>x. allows (doc_visibility x) ctx) (nb_documents m)
          in Inr \<lparr>rr_seed_entities = seeds, rr_triples = ts,
                  rr_neighborhood = \<lparr>nb_entities = es, nb_triples = ts, nb_documents = ds,
                                     nb_truncated = nb_truncated m\<rparr>\<rparr>)"

subsection \<open>Merging\<close>

lemma push_new_keys: "key ` set (push_new key xs acc) = key ` set acc \<union> key ` set xs"
  unfolding push_new_def by (induction xs arbitrary: acc) auto

lemma push_new_distinct: "distinct (map key acc) \<Longrightarrow> distinct (map key (push_new key xs acc))"
  unfolding push_new_def by (induction xs arbitrary: acc) auto

lemma push_new_sub: "set (push_new key xs acc) \<subseteq> set acc \<union> set xs"
  unfolding push_new_def
proof (induction xs arbitrary: acc)
  case (Cons a xs)
  from Cons.IH[of "acc @ [a]"] Cons.IH[of acc] show ?case by auto
qed simp

text \<open>The merged search after the seeds in \<open>S\<close>.\<close>

definition merged :: "'f graph_env \<Rightarrow> 'f graph \<Rightarrow> id32 set \<Rightarrow> 'f neighborhood \<Rightarrow> bool" where
  "merged G g S m \<longleftrightarrow>
     distinct (map ent_id (nb_entities m)) \<and> distinct (map triple_key (nb_triples m)) \<and>
     distinct (map doc_id (nb_documents m)) \<and>
     (\<forall>e \<in> set (nb_entities m). get_entity_conn G g (ent_id e) = Inr (Some e)) \<and>
     ent_id ` set (nb_entities m) \<subseteq> (\<Union>s \<in> S. {i \<in> ball g s 2. entity_exists g i}) \<and>
     triple_key ` set (nb_triples m) \<subseteq> (\<Union>s \<in> S. edges_at g (ball g s 1)) \<and>
     (\<not> nb_truncated m \<longrightarrow>
       ent_id ` set (nb_entities m) = (\<Union>s \<in> S. {i \<in> ball g s 2. entity_exists g i}) \<and>
       triple_key ` set (nb_triples m) = (\<Union>s \<in> S. edges_at g (ball g s 1)))"

lemma interior_2: "interior g s 2 = ball g s 1"
  by (simp add: numeral_2_eq_2)

lemma merge_hoods_merged:
  assumes "merge_hoods G g seeds acc = Inr m" and "merged G g S acc"
  shows "merged G g (S \<union> set seeds) m"
  using assms
proof (induction seeds arbitrary: acc S)
  case Nil
  then show ?case by simp
next
  case (Cons s seeds)
  obtain hood where hood: "neighborhood G g s 2 = Inr hood"
    using Cons.prems(1) by (auto split: sum.splits)
  let ?acc = "\<lparr>nb_entities = push_new ent_id (nb_entities hood) (nb_entities acc),
     nb_triples = push_new triple_key (nb_triples hood) (nb_triples acc),
     nb_documents = push_new doc_id (nb_documents hood) (nb_documents acc),
     nb_truncated = (nb_truncated acc \<or> nb_truncated hood)\<rparr>"
  have rest: "merge_hoods G g seeds ?acc = Inr m" using Cons.prems(1) hood by simp
  note exact = neighborhood_exact[OF hood, unfolded interior_2]
  have "merged G g (insert s S) ?acc"
    unfolding merged_def neighborhood.simps
  proof (intro conjI)
    show "distinct (map ent_id (push_new ent_id (nb_entities hood) (nb_entities acc)))"
      "distinct (map triple_key (push_new triple_key (nb_triples hood) (nb_triples acc)))"
      "distinct (map doc_id (push_new doc_id (nb_documents hood) (nb_documents acc)))"
      using Cons.prems(2) by (auto simp: merged_def intro: push_new_distinct)
    show "\<forall>e \<in> set (push_new ent_id (nb_entities hood) (nb_entities acc)).
        get_entity_conn G g (ent_id e) = Inr (Some e)"
      using Cons.prems(2) neighborhood_entities[OF hood] push_new_sub[of ent_id "nb_entities hood" "nb_entities acc"]
      by (auto simp: merged_def)
  qed (use Cons.prems(2) exact in \<open>auto simp: merged_def push_new_keys\<close>)
  from Cons.IH[OF rest this] show ?case by simp
qed

lemma mergedD:
  assumes "merged G g S m"
  shows "distinct (map ent_id (nb_entities m))" "distinct (map triple_key (nb_triples m))"
    "distinct (map doc_id (nb_documents m))"
    "\<forall>e \<in> set (nb_entities m). get_entity_conn G g (ent_id e) = Inr (Some e)"
    "ent_id ` set (nb_entities m) \<subseteq> (\<Union>s \<in> S. {i \<in> ball g s 2. entity_exists g i})"
    "triple_key ` set (nb_triples m) \<subseteq> (\<Union>s \<in> S. edges_at g (ball g s 1))"
    "\<not> nb_truncated m \<Longrightarrow>
      ent_id ` set (nb_entities m) = (\<Union>s \<in> S. {i \<in> ball g s 2. entity_exists g i})"
proof -
  from assms show "distinct (map ent_id (nb_entities m))"
    unfolding merged_def by (elim conjE)
  from assms show "distinct (map triple_key (nb_triples m))"
    unfolding merged_def by (elim conjE)
  from assms show "distinct (map doc_id (nb_documents m))"
    unfolding merged_def by (elim conjE)
  from assms show "\<forall>e \<in> set (nb_entities m). get_entity_conn G g (ent_id e) = Inr (Some e)"
    unfolding merged_def by (elim conjE)
  from assms show "ent_id ` set (nb_entities m) \<subseteq> (\<Union>s \<in> S. {i \<in> ball g s 2. entity_exists g i})"
    unfolding merged_def by (elim conjE)
  from assms show "triple_key ` set (nb_triples m) \<subseteq> (\<Union>s \<in> S. edges_at g (ball g s 1))"
    unfolding merged_def by (elim conjE)
  assume "\<not> nb_truncated m"
  with assms show "ent_id ` set (nb_entities m) = (\<Union>s \<in> S. {i \<in> ball g s 2. entity_exists g i})"
    unfolding merged_def by (elim conjE) (drule mp, assumption, elim conjE)
qed

lemma merged_none: "merged G g {} no_neighborhood"
  by (simp add: merged_def no_neighborhood_def)

text \<open>
  Graph recall returns every entity and edge at most once, only what the visibility of the
  context allows, and only what lies within two hops of a seed; when no search was truncated, it
  returns every stored entity within two hops of a seed that the context may see.
\<close>

theorem recall_graph_visible:
  assumes "recall_graph G g seeds ctx = Inr rr"
  defines "nb \<equiv> rr_neighborhood rr"
  shows "distinct (map ent_id (nb_entities nb)) \<and> distinct (map triple_key (nb_triples nb)) \<and>
    distinct (map doc_id (nb_documents nb)) \<and> rr_triples rr = nb_triples nb \<and>
    (\<forall>e \<in> set (nb_entities nb). allows (ent_visibility e) ctx \<and>
       (\<exists>s \<in> set seeds. ent_id e \<in> ball g s 2)) \<and>
    (\<forall>t \<in> set (nb_triples nb). allows (tr_visibility t) ctx \<and>
       (\<exists>s \<in> set seeds. triple_key t \<in> edges_at g (ball g s 1))) \<and>
    (\<forall>d \<in> set (nb_documents nb). allows (doc_visibility d) ctx) \<and>
    (\<not> nb_truncated nb \<longrightarrow> (\<forall>s \<in> set seeds. \<forall>i \<in> ball g s 2. \<forall>e.
       get_entity_conn G g i = Inr (Some e) \<and> allows (ent_visibility e) ctx \<longrightarrow> e \<in> set (nb_entities nb)))"
proof (cases "seeds = []")
  case True
  then show ?thesis using assms(1) by (auto simp: recall_graph_def nb_def no_neighborhood_def)
next
  case False
  then obtain m where m: "merge_hoods G g seeds no_neighborhood = Inr m"
    using assms(1) by (auto simp: recall_graph_def split: sum.splits)
  from merge_hoods_merged[OF m merged_none] have ok: "merged G g (set seeds) m" by simp
  have nb: "nb_entities nb = filter (\<lambda>x. allows (ent_visibility x) ctx) (nb_entities m)"
    "nb_triples nb = filter (\<lambda>x. allows (tr_visibility x) ctx) (nb_triples m)"
    "nb_documents nb = filter (\<lambda>x. allows (doc_visibility x) ctx) (nb_documents m)"
    "nb_truncated nb = nb_truncated m" "rr_triples rr = nb_triples nb"
    using assms(1) False m by (auto simp: recall_graph_def Let_def nb_def)
  have full: "e \<in> set (nb_entities m)"
    if "\<not> nb_truncated m" "s \<in> set seeds" "i \<in> ball g s 2" "get_entity_conn G g i = Inr (Some e)" for s i e
  proof -
    have "entity_exists g i" using get_entity_conn_Inr(1)[OF that(4)] by simp
    then have "i \<in> ent_id ` set (nb_entities m)" using mergedD(7)[OF ok that(1)] that(2,3) by auto
    then obtain e' where "e' \<in> set (nb_entities m)" "ent_id e' = i" by blast
    moreover from this have "get_entity_conn G g i = Inr (Some e')" using mergedD(4)[OF ok] by auto
    ultimately show ?thesis using that(4) by simp
  qed
  have sub: "\<exists>s \<in> set seeds. ent_id e \<in> ball g s 2" if "e \<in> set (nb_entities m)" for e
    using mergedD(5)[OF ok] that by auto
  have subt: "\<exists>s \<in> set seeds. triple_key t \<in> edges_at g (ball g s 1)" if "t \<in> set (nb_triples m)" for t
    using mergedD(6)[OF ok] that by auto
  note d = mergedD(1-3)[OF ok]
  show ?thesis
    unfolding nb set_filter
  proof (intro conjI)
    show "\<not> nb_truncated m \<longrightarrow> (\<forall>s \<in> set seeds. \<forall>i \<in> ball g s 2. \<forall>e.
       get_entity_conn G g i = Inr (Some e) \<and> allows (ent_visibility e) ctx \<longrightarrow>
       e \<in> {x \<in> set (nb_entities m). allows (ent_visibility x) ctx})"
      using full by blast
    show "\<forall>e \<in> {x \<in> set (nb_entities m). allows (ent_visibility x) ctx}.
       allows (ent_visibility e) ctx \<and> (\<exists>s \<in> set seeds. ent_id e \<in> ball g s 2)"
      using sub by blast
    show "\<forall>t \<in> {x \<in> set (nb_triples m). allows (tr_visibility x) ctx}.
       allows (tr_visibility t) ctx \<and> (\<exists>s \<in> set seeds. triple_key t \<in> edges_at g (ball g s 1))"
      using subt by blast
  qed (use d in \<open>simp_all add: distinct_map_filter\<close>)
qed

lemma recall_graph_visible_witness:
  "\<exists>rr. recall_graph toy_env toy_moved [toy_id 1, toy_id 4] Public = Inr rr \<and>
     (\<forall>e \<in> set (nb_entities (rr_neighborhood rr)). allows (ent_visibility e) Public)"
proof -
  obtain h1 where h1: "neighborhood toy_env toy_moved (toy_id 1) 2 = Inr h1"
    using neighborhood_returns[OF toy_moved_readable] by blast
  obtain h4 where h4: "neighborhood toy_env toy_moved (toy_id 4) 2 = Inr h4"
    using neighborhood_returns[OF toy_moved_readable] by blast
  obtain rr where rr: "recall_graph toy_env toy_moved [toy_id 1, toy_id 4] Public = Inr rr"
    by (simp add: recall_graph_def h1 h4 Let_def del: One_nat_def)
  from recall_graph_visible[OF rr] have "\<forall>e \<in> set (nb_entities (rr_neighborhood rr)).
      allows (ent_visibility e) Public \<and> (\<exists>s \<in> set [toy_id 1, toy_id 4]. ent_id e \<in> ball toy_moved s 2)"
    by (elim conjE)
  with rr show ?thesis by blast
qed

end
