(* ===== verification/Supersession_Pass.thy ===== *)
theory Supersession_Pass
  imports Graph_Recall
begin

text \<open>
  The adjudication pass over undeclared multi-valued slots, \<open>spectral-graph/src/supersession.rs\<close>:
  detection of the candidates and application of the verdicts. The adjudicator is supplied by the
  embedding program and is a function here; \<open>lt\<close> is the comparison \<open><\<close> of the \<open>f64\<close> confidences,
  which is false when one of them is not a number.
\<close>

record candidate_object =
  co_rowid :: int
  co_object :: id32
  co_canonical :: string
  co_asserted_at :: instant

record supersession_candidate =
  sc_subject :: id32
  sc_subject_canonical :: string
  sc_subject_type :: string
  sc_predicate :: string
  sc_objects :: "candidate_object list"

datatype 'f adjudication = AllHold | Supersedes id32 'f | Unknown

record supersession_report =
  considered :: nat
  applied :: nat
  retired :: nat
  below_threshold :: nat
  left_alone :: nat
  invalid_verdicts :: nat
  report_errors :: "string list"

definition no_op_adjudicator :: "supersession_candidate \<Rightarrow> string + 'f adjudication" where
  "no_op_adjudicator c = Inr Unknown"

text \<open>\<open>get_entity(..)?.map(|e| e.canonical).unwrap_or_default()\<close>, for each object of a slot.\<close>

definition resolve_object :: "'f graph_env \<Rightarrow> 'f graph \<Rightarrow> live_object \<Rightarrow> graph_error + candidate_object" where
  "resolve_object G g obj =
     (case obj of (rowid, i, t) \<Rightarrow>
        map_sum id (\<lambda>x. \<lparr>co_rowid = rowid, co_object = i,
            co_canonical = (case x of None \<Rightarrow> [] | Some y \<Rightarrow> ent_canonical y), co_asserted_at = t\<rparr>)
          (get_entity_conn G g i))"

fun detect_loop ::
    "'f graph_env \<Rightarrow> ontology_predicate list \<Rightarrow> 'f graph \<Rightarrow> live_slot list \<Rightarrow>
      graph_error + supersession_candidate list" where
  "detect_loop G preds g [] = Inr []"
| "detect_loop G preds g ((subject, p, objects) # slots) =
     (case get_entity_conn G g subject of Inl e \<Rightarrow> Inl e | Inr found \<Rightarrow>
      let ty = (case found of None \<Rightarrow> [] | Some x \<Rightarrow> ent_type x)
      in if predicate_is_single_valued preds p ty then detect_loop G preds g slots
         else case collect (resolve_object G g) objects of Inl e \<Rightarrow> Inl e | Inr resolved \<Rightarrow>
              map_sum id (\<lambda>rest. \<lparr>sc_subject = subject,
                  sc_subject_canonical = (case found of None \<Rightarrow> [] | Some x \<Rightarrow> ent_canonical x),
                  sc_subject_type = ty, sc_predicate = p, sc_objects = resolved\<rparr> # rest)
                (detect_loop G preds g slots))"

definition detect_candidates ::
    "'f graph_env \<Rightarrow> ontology_predicate list \<Rightarrow> instant \<Rightarrow> 'f graph \<Rightarrow> nat \<Rightarrow>
      graph_error + supersession_candidate list" where
  "detect_candidates G preds now g limit =
     (case multi_valued_live_groups G now g limit of Inl e \<Rightarrow> Inl e
      | Inr slots \<Rightarrow> detect_loop G preds g slots)"

definition apply_verdict ::
    "'f graph_env \<Rightarrow> ('f \<Rightarrow> 'f \<Rightarrow> bool) \<Rightarrow> (supersession_candidate \<Rightarrow> string + 'f adjudication) \<Rightarrow>
      'f \<Rightarrow> string \<Rightarrow> instant \<Rightarrow> supersession_candidate \<Rightarrow> 'f graph \<times> supersession_report \<Rightarrow>
      'f graph \<times> supersession_report" where
  "apply_verdict G lt adjudicate min_confidence agent now c s =
     (case s of (g, rep) \<Rightarrow>
      case adjudicate c of
        Inl e \<Rightarrow> (g, rep\<lparr>report_errors := report_errors rep @
                   [sc_subject_canonical c @ ''/'' @ sc_predicate c @ '': '' @ e]\<rparr>)
      | Inr AllHold \<Rightarrow> (g, rep\<lparr>left_alone := left_alone rep + 1\<rparr>)
      | Inr Unknown \<Rightarrow> (g, rep\<lparr>left_alone := left_alone rep + 1\<rparr>)
      | Inr (Supersedes keep confidence) \<Rightarrow>
          if \<not> list_ex (\<lambda>ob. co_object ob = keep) (sc_objects c)
          then (g, rep\<lparr>invalid_verdicts := invalid_verdicts rep + 1\<rparr>)
          else if lt confidence min_confidence
          then (g, rep\<lparr>below_threshold := below_threshold rep + 1\<rparr>)
          else let (g', n) = retire_conflicting_objects G now (sc_subject c) (sc_predicate c) keep agent g
               in (g', rep\<lparr>applied := applied rep + 1, retired := retired rep + n\<rparr>))"

definition apply_adjudications ::
    "'f graph_env \<Rightarrow> ontology_predicate list \<Rightarrow> ('f \<Rightarrow> 'f \<Rightarrow> bool) \<Rightarrow>
      (supersession_candidate \<Rightarrow> string + 'f adjudication) \<Rightarrow> nat \<Rightarrow> 'f \<Rightarrow> string \<Rightarrow> instant \<Rightarrow>
      'f graph \<Rightarrow> graph_error + 'f graph \<times> supersession_report" where
  "apply_adjudications G preds lt adjudicate limit min_confidence agent now g =
     (case detect_candidates G preds now g limit of Inl e \<Rightarrow> Inl e
      | Inr candidates \<Rightarrow>
          Inr (fold (apply_verdict G lt adjudicate min_confidence agent now) candidates
            (g, \<lparr>considered = length candidates, applied = 0, retired = 0, below_threshold = 0,
                 left_alone = 0, invalid_verdicts = 0, report_errors = []\<rparr>)))"

subsection \<open>One verdict\<close>

lemma live_count_retire:
  "length (filter (\<lambda>r. r_valid_to r = None) ts) =
     length (filter (\<lambda>r. r_valid_to r = None) (update_where (conflicts fr p keep) (retire t n agent) ts)) +
     count_where (conflicts fr p keep) ts"
proof (induction ts)
  case Nil
  then show ?case by (simp add: update_where_def count_where_def)
next
  case (Cons r ts)
  have "conflicts fr p keep r \<Longrightarrow> r_valid_to r = None" by (simp add: conflicts_def)
  moreover have "r_valid_to (retire t n agent r) = Some t" by (simp add: retire_def)
  ultimately show ?case using Cons.IH by (simp add: update_where_def count_where_def)
qed

text \<open>A slot keeps a live row, every other slot is untouched, and nothing is asserted.\<close>

lemma retire_slots:
  assumes "retire_conflicting_objects G now fr p keep agent g = (g', n)"
  shows "map asserted (g_triple g') = map asserted (g_triple g)"
    and "\<not> (f = fr \<and> q = p) \<Longrightarrow> slot_rows g' f q = slot_rows g f q"
    and "slot_rows g f q \<noteq> [] \<Longrightarrow> slot_rows g' f q \<noteq> []"
    and "length (filter (\<lambda>r. r_valid_to r = None) (g_triple g)) =
         length (filter (\<lambda>r. r_valid_to r = None) (g_triple g')) + n"
    and "g_entity g' = g_entity g"
proof -
  consider (stale) "g' = g" "n = 0"
    | (live) s now' where "s \<in> set (g_triple g)" "in_slot fr p s" "r_to_id s = keep"
      "g' = g\<lparr>g_triple := update_where (conflicts fr p keep) (retire now' (r_rowid s) (Some agent)) (g_triple g)\<rparr>"
      "n = count_where (conflicts fr p keep) (g_triple g)"
  proof (cases "select_first (\<lambda>r. r_from_id r = fr \<and> r_predicate r = p \<and> r_to_id r = keep \<and>
             r_valid_to r = None) (g_triple g)")
    case None
    then show ?thesis using assms stale by (simp add: retire_conflicting_objects_def)
  next
    case (Some s)
    then have "s \<in> set (g_triple g)" "in_slot fr p s" "r_to_id s = keep"
      by (auto simp: in_slot_def dest: select_first_Some)
    with Some assms show ?thesis
      by (intro live) (auto simp: retire_conflicting_objects_def Let_def)
  qed
  then have all: "map asserted (g_triple g') = map asserted (g_triple g) \<and>
      (\<not> (f = fr \<and> q = p) \<longrightarrow> slot_rows g' f q = slot_rows g f q) \<and>
      (slot_rows g f q \<noteq> [] \<longrightarrow> slot_rows g' f q \<noteq> []) \<and>
      length (filter (\<lambda>r. r_valid_to r = None) (g_triple g)) =
        length (filter (\<lambda>r. r_valid_to r = None) (g_triple g')) + n \<and> g_entity g' = g_entity g"
  proof cases
    case stale
    then show ?thesis by simp
  next
    case live
    have other: "slot_rows g' f q = slot_rows g f q" if "\<not> (f = fr \<and> q = p)"
    proof -
      have "filter (\<lambda>r. in_slot f q r \<and> \<not> conflicts fr p keep r) (g_triple g) =
          filter (in_slot f q) (g_triple g)"
        using that by (intro filter_cong) (auto simp: conflicts_iff in_slot_def)
      then show ?thesis by (simp add: slot_rows_def live(4) filter_retire)
    qed
    have "s \<in> set (slot_rows g' fr p)"
      using live(1-3) by (simp add: slot_rows_def live(4) filter_retire conflicts_def)
    with other have keep: "slot_rows g f q \<noteq> [] \<longrightarrow> slot_rows g' f q \<noteq> []" by (cases "f = fr \<and> q = p") auto
    show ?thesis using other keep live(4,5)
      by (simp add: asserted_update live_count_retire)
  qed
  from all show "map asserted (g_triple g') = map asserted (g_triple g)"
    and "\<not> (f = fr \<and> q = p) \<Longrightarrow> slot_rows g' f q = slot_rows g f q"
    and "slot_rows g f q \<noteq> [] \<Longrightarrow> slot_rows g' f q \<noteq> []"
    and "length (filter (\<lambda>r. r_valid_to r = None) (g_triple g)) =
         length (filter (\<lambda>r. r_valid_to r = None) (g_triple g')) + n"
    and "g_entity g' = g_entity g" by simp_all
qed

lemmas verdict_simps = apply_verdict_def Let_def split_beta

lemma verdict_cases:
  obtains (kept) "fst (apply_verdict G lt adjudicate m agent now c (g, rep)) = g"
    "retired (snd (apply_verdict G lt adjudicate m agent now c (g, rep))) = retired rep"
  | (cut) keep g' n where "retire_conflicting_objects G now (sc_subject c) (sc_predicate c) keep agent g = (g', n)"
    "keep \<in> co_object ` set (sc_objects c)"
    "fst (apply_verdict G lt adjudicate m agent now c (g, rep)) = g'"
    "retired (snd (apply_verdict G lt adjudicate m agent now c (g, rep))) = retired rep + n"
proof (cases "adjudicate c")
  case (Inr v)
  show ?thesis
  proof (cases v)
    case (Supersedes keep conf)
    show ?thesis
    proof (cases "list_ex (\<lambda>ob. co_object ob = keep) (sc_objects c) \<and> \<not> lt conf m")
      case True
      then show ?thesis
        using Inr Supersedes
        by (intro cut[of keep "fst (retire_conflicting_objects G now (sc_subject c) (sc_predicate c) keep agent g)"
              "snd (retire_conflicting_objects G now (sc_subject c) (sc_predicate c) keep agent g)"])
          (auto simp: verdict_simps list_ex_iff)
    qed (use Inr Supersedes in \<open>auto simp: verdict_simps intro!: kept\<close>)
  qed (use Inr in \<open>auto simp: verdict_simps intro!: kept\<close>)
qed (auto simp: verdict_simps intro!: kept)

definition judged :: "supersession_report \<Rightarrow> nat" where
  "judged rep = applied rep + below_threshold rep + left_alone rep + invalid_verdicts rep +
     length (report_errors rep)"

lemma verdict_judged:
  "judged (snd (apply_verdict G lt adjudicate m agent now c (g, rep))) = judged rep + 1 \<and>
   considered (snd (apply_verdict G lt adjudicate m agent now c (g, rep))) = considered rep"
  by (auto simp: verdict_simps judged_def split: sum.split adjudication.split)

definition live_count :: "'f graph \<Rightarrow> nat" where
  "live_count g = length (filter (\<lambda>r. r_valid_to r = None) (g_triple g))"

text \<open>What a pass over candidates \<open>cs\<close> keeps, from \<open>g\<close> to \<open>g'\<close>.\<close>

definition pass_keeps :: "supersession_candidate list \<Rightarrow> 'f graph \<Rightarrow> 'f graph \<Rightarrow> bool" where
  "pass_keeps cs g g' \<longleftrightarrow>
     map asserted (g_triple g') = map asserted (g_triple g) \<and> g_entity g' = g_entity g \<and>
     (\<forall>f q. slot_rows g f q \<noteq> [] \<longrightarrow> slot_rows g' f q \<noteq> []) \<and>
     (\<forall>f q. (\<forall>c \<in> set cs. \<not> (sc_subject c = f \<and> sc_predicate c = q)) \<longrightarrow> slot_rows g' f q = slot_rows g f q)"

lemma verdict_keeps:
  assumes "apply_verdict G lt adjudicate m agent now c (g, rep) = (g', rep')"
  shows "pass_keeps [c] g g' \<and> live_count g + retired rep = live_count g' + retired rep'"
proof (cases rule: verdict_cases[of G lt adjudicate m agent now c g rep])
  case kept
  with assms show ?thesis by (simp add: pass_keeps_def)
next
  case (cut keep g1 n)
  with assms have g1: "g1 = g'" "retired rep' = retired rep + n" by simp_all
  note r = retire_slots[OF cut(1)]
  show ?thesis using r unfolding pass_keeps_def live_count_def g1 by auto
qed

lemma fold_keeps:
  assumes "fold (apply_verdict G lt adjudicate m agent now) cs (g, rep) = (g', rep')"
  shows "pass_keeps cs g g' \<and> live_count g + retired rep = live_count g' + retired rep' \<and>
    judged rep' = judged rep + length cs \<and> considered rep' = considered rep"
  using assms
proof (induction cs arbitrary: g rep)
  case Nil
  then show ?case by (simp add: pass_keeps_def)
next
  case (Cons c cs)
  obtain g1 rep1 where one: "apply_verdict G lt adjudicate m agent now c (g, rep) = (g1, rep1)"
    by fastforce
  then have rest: "fold (apply_verdict G lt adjudicate m agent now) cs (g1, rep1) = (g', rep')"
    using Cons.prems by simp
  note v = verdict_keeps[OF one] and IH = Cons.IH[OF rest]
  have "pass_keeps (c # cs) g g'"
    using v IH unfolding pass_keeps_def by simp
  moreover have "judged rep1 = judged rep + 1" "considered rep1 = considered rep"
    using verdict_judged[of G lt adjudicate m agent now c g rep] one by simp_all
  ultimately show ?case using v IH by simp
qed

text \<open>The type the store holds for an entity, empty when there is none.\<close>

definition stored_type :: "'f graph_env \<Rightarrow> 'f graph \<Rightarrow> id32 \<Rightarrow> string" where
  "stored_type G g i = (case get_entity_conn G g i of Inr (Some x) \<Rightarrow> ent_type x | _ \<Rightarrow> [])"

lemma detect_loop_undeclared:
  assumes "detect_loop G preds g slots = Inr cs"
  shows "\<forall>c \<in> set cs. \<not> predicate_is_single_valued preds (sc_predicate c) (stored_type G g (sc_subject c))"
  using assms
proof (induction slots arbitrary: cs)
  case (Cons slot slots)
  obtain subject p objects where slot: "slot = (subject, p, objects)" by (cases slot)
  then show ?case using Cons
    by (auto simp: Let_def stored_type_def split: sum.splits if_splits option.splits)
qed simp

text \<open>
  An adjudication pass never asserts, deletes or rewrites a fact and never empties a slot:
  the assertions of the ledger are the same after it, every slot with a live row still has one,
  and the slots of predicates declared single-valued for the stored type of their subject are not
  touched at all.
\<close>

theorem adjudication_pass_safe:
  assumes "apply_adjudications G preds lt adjudicate limit min_confidence agent now g = Inr (g', rep)"
  shows "map asserted (g_triple g') = map asserted (g_triple g) \<and>
    (\<forall>f q. slot_rows g f q \<noteq> [] \<longrightarrow> slot_rows g' f q \<noteq> []) \<and>
    (\<forall>f q. predicate_is_single_valued preds q (stored_type G g f) \<longrightarrow> slot_rows g' f q = slot_rows g f q)"
proof -
  obtain cs where cs: "detect_candidates G preds now g limit = Inr cs"
    and run: "fold (apply_verdict G lt adjudicate min_confidence agent now) cs
       (g, \<lparr>considered = length cs, applied = 0, retired = 0, below_threshold = 0,
            left_alone = 0, invalid_verdicts = 0, report_errors = []\<rparr>) = (g', rep)"
    using assms by (auto simp: apply_adjudications_def split: sum.splits)
  have free: "\<forall>c \<in> set cs. \<not> predicate_is_single_valued preds (sc_predicate c) (stored_type G g (sc_subject c))"
    using cs by (auto simp: detect_candidates_def split: sum.splits dest!: detect_loop_undeclared)
  have keeps: "pass_keeps cs g g'" using fold_keeps[OF run] by (rule conjunct1)
  then have rest: "\<forall>f q. (\<forall>c \<in> set cs. \<not> (sc_subject c = f \<and> sc_predicate c = q)) \<longrightarrow>
      slot_rows g' f q = slot_rows g f q"
    unfolding pass_keeps_def by (elim conjE)
  have "slot_rows g' f q = slot_rows g f q" if "predicate_is_single_valued preds q (stored_type G g f)" for f q
    using rest free that by metis
  with keeps show ?thesis unfolding pass_keeps_def by simp
qed

text \<open>
  The report of a pass adds up: every candidate is counted once, as applied, below the
  threshold, left alone, invalid or failed, and the number retired is exactly the number of live
  assertions the store has lost.
\<close>

theorem adjudication_report_adds_up:
  assumes "apply_adjudications G preds lt adjudicate limit min_confidence agent now g = Inr (g', rep)"
  shows "considered rep = applied rep + below_threshold rep + left_alone rep + invalid_verdicts rep +
      length (report_errors rep) \<and>
    live_count g = live_count g' + retired rep"
proof -
  obtain cs where "fold (apply_verdict G lt adjudicate min_confidence agent now) cs
       (g, \<lparr>considered = length cs, applied = 0, retired = 0, below_threshold = 0,
            left_alone = 0, invalid_verdicts = 0, report_errors = []\<rparr>) = (g', rep)"
    using assms by (auto simp: apply_adjudications_def split: sum.splits)
  from fold_keeps[OF this] show ?thesis by (simp add: judged_def)
qed

subsection \<open>A concrete pass\<close>

definition toy_two :: "nat graph" where
  "toy_two = insert_triple toy_env (toy_triple 5 1 3) toy_base"

definition toy_judge :: "supersession_candidate \<Rightarrow> string + nat adjudication" where
  "toy_judge c = Inr (Supersedes (co_object (last (sc_objects c))) 9)"

lemma toy_two_triples: "g_triple toy_two =
  [triple_to_row toy_env 1 (toy_triple 3 1 2), triple_to_row toy_env 2 (toy_triple 5 1 3)]"
  by (simp add: toy_two_def insert_triple_def Let_def toy_base_triples del: One_nat_def)

lemma toy_two_entities: "g_entity toy_two = g_entity toy_base"
  by (simp add: toy_two_def insert_triple_def Let_def)

lemma toy_stamps_le: "replicate 3 (CHR ''t'') \<le> replicate 5 (CHR ''t'')"
  by (simp add: numeral_eq_Suc)

lemma toy_two_groups:
  "multi_valued_live_groups toy_env 7 toy_two 10 =
     Inr [(toy_id 1, ''lives_in'', [(1, toy_id 2, 3), (2, toy_id 3, 5)])]"
  by (simp add: multi_valued_live_groups_def live_multi_rows_def toy_two_triples triple_to_row_def
      toy_triple_def toy_env_def count_where_def Let_def sort_key_def entity_id_from_blob_32
      toy_stamps_le del: One_nat_def)

lemma toy_two_readable: "readable toy_env toy_two"
  by (simp add: readable_def toy_two_def toy_rows entity_from_row_def triple_from_row_def
      entity_id_from_blob_32 read_visibility_def str_to_visibility_def parse_dt_def toy_env_def blob32_def
      del: One_nat_def)

lemma toy_candidates:
  "\<exists>n1 ty n2 n3. detect_candidates toy_env [] 7 toy_two 10 = Inr
     [\<lparr>sc_subject = toy_id 1, sc_subject_canonical = n1, sc_subject_type = ty, sc_predicate = ''lives_in'',
       sc_objects = [\<lparr>co_rowid = 1, co_object = toy_id 2, co_canonical = n2, co_asserted_at = 3\<rparr>,
                     \<lparr>co_rowid = 2, co_object = toy_id 3, co_canonical = n3, co_asserted_at = 5\<rparr>]\<rparr>]"
proof -
  obtain e1 e2 e3 where "get_entity_conn toy_env toy_two (toy_id 1) = Inr e1"
    "get_entity_conn toy_env toy_two (toy_id 2) = Inr e2"
    "get_entity_conn toy_env toy_two (toy_id 3) = Inr e3"
    using get_entity_conn_total[OF toy_two_readable] by metis
  then show ?thesis
    by (simp add: detect_candidates_def toy_two_groups resolve_object_def Let_def
        predicate_is_single_valued_def del: One_nat_def)
qed

text \<open>The librarian keeps the newer place; one assertion is retired.\<close>

lemma toy_pass:
  "\<exists>g' rep. apply_adjudications toy_env [] (<) toy_judge 10 5 ''librarian'' 7 toy_two = Inr (g', rep) \<and>
     applied rep = 1 \<and> retired rep = 1"
proof -
  obtain n1 ty n2 n3 where "detect_candidates toy_env [] 7 toy_two 10 = Inr
     [\<lparr>sc_subject = toy_id 1, sc_subject_canonical = n1, sc_subject_type = ty, sc_predicate = ''lives_in'',
       sc_objects = [\<lparr>co_rowid = 1, co_object = toy_id 2, co_canonical = n2, co_asserted_at = 3\<rparr>,
                     \<lparr>co_rowid = 2, co_object = toy_id 3, co_canonical = n3, co_asserted_at = 5\<rparr>]\<rparr>]"
    using toy_candidates by blast
  then show ?thesis
    by (simp add: apply_adjudications_def verdict_simps toy_judge_def retire_conflicting_objects_def
        select_first_def toy_two_triples triple_to_row_def conflicts_def count_where_def del: One_nat_def)
qed

lemma adjudication_pass_safe_witness:
  "\<exists>g' rep. apply_adjudications toy_env [] (<) toy_judge 10 5 ''librarian'' 7 toy_two = Inr (g', rep) \<and>
     slot_rows g' (toy_id 1) ''lives_in'' \<noteq> []"
proof -
  obtain g' rep where run: "apply_adjudications toy_env [] (<) toy_judge 10 5 ''librarian'' 7 toy_two = Inr (g', rep)"
    using toy_pass by blast
  have "slot_rows toy_two (toy_id 1) ''lives_in'' \<noteq> []"
    by (simp add: slot_rows_def toy_two_triples in_slot_def triple_to_row_def)
  with adjudication_pass_safe[OF run] run show ?thesis by blast
qed

lemma adjudication_report_adds_up_witness:
  "\<exists>g' rep. apply_adjudications toy_env [] (<) toy_judge 10 5 ''librarian'' 7 toy_two = Inr (g', rep) \<and>
     applied rep = 1 \<and> live_count toy_two = live_count g' + 1"
proof -
  obtain g' rep where run: "apply_adjudications toy_env [] (<) toy_judge 10 5 ''librarian'' 7 toy_two = Inr (g', rep)"
    "applied rep = 1" "retired rep = 1"
    using toy_pass by blast
  with adjudication_report_adds_up[OF run(1)] show ?thesis by auto
qed

end
