(* ===== verification/Federation_Sync.thy ===== *)
theory Federation_Sync
  imports Orset Identity
begin

text \<open>
  Shared wings, \<open>spectral-ingest/src/federation_sync.rs\<close>: content-addressed memory objects, the
  export gate, the import under a trust policy, retraction, and provenance.

  The state is the columns of \<open>memories\<close> this module touches and its own two tables, rows in
  insertion order. \<open>blake3\<close> and Ed25519 are the fields of \<open>crypto\<close>, a signature is its bytes;
  regular expressions and floating-point scoring make the classifier of the importer a parameter
  (\<open>sync_env\<close>). \<open>now\<close> is \<open>datetime('now')\<close> at a statement.
\<close>

record memory_object =
  mo_key :: string
  mo_content :: string
  mo_author_id :: "id32 option"
  mo_created_at :: string
  mo_visibility :: string
  mo_supersedes :: "string option"
  mo_signature :: "byte list option"

record tombstone_msg =
  ts_target_hash :: string
  ts_author_id :: "id32 option"
  ts_ts :: string
  ts_signature :: "byte list option"

record pack =
  pk_wing_id :: string
  pk_objects :: "memory_object list"
  pk_tombstones :: "tombstone_msg list"

datatype 'vk import_policy = TrustedTransport | RequireSigned "id32 \<rightharpoonup> 'vk"

record import_outcome =
  oc_merged :: nat
  oc_rejected_objects :: nat
  oc_rejected_tombstones :: nat

definition had_rejections :: "import_outcome \<Rightarrow> bool" where
  "had_rejections o1 \<longleftrightarrow> oc_rejected_objects o1 > 0 \<or> oc_rejected_tombstones o1 > 0"

text \<open>What the importer computes with code outside this module.\<close>

record ('vk, 'f) sync_env =
  se_crypto :: "('vk, byte list) crypto"
  se_classify_wing :: "string \<Rightarrow> string \<Rightarrow> string"
  se_classify_hall :: "string \<Rightarrow> string"
  se_score :: "string \<Rightarrow> string \<Rightarrow> 'f"
  se_one :: 'f

subsection \<open>Policies\<close>

definition to_signature :: "byte list \<Rightarrow> byte list option" where
  "to_signature bytes = (if length bytes = 64 then Some bytes else None)"

definition accepts_object ::
    "('vk, byte list) crypto \<Rightarrow> 'vk import_policy \<Rightarrow> memory_object \<Rightarrow> string \<Rightarrow> bool" where
  "accepts_object C policy ob h =
     (case policy of TrustedTransport \<Rightarrow> True
      | RequireSigned keys \<Rightarrow>
          (case (mo_author_id ob, mo_signature ob) of
             (Some author, Some sig_bytes) \<Rightarrow>
               (case (keys author, to_signature sig_bytes) of
                  (Some vk, Some sig) \<Rightarrow> verify C author vk (federation_object_signing_payload h) sig
                | _ \<Rightarrow> False)
           | _ \<Rightarrow> False))"

definition accepts_tombstone ::
    "('vk, byte list) crypto \<Rightarrow> 'vk import_policy \<Rightarrow> string \<Rightarrow> tombstone_msg \<Rightarrow> bool" where
  "accepts_tombstone C policy wing_id t =
     (case policy of TrustedTransport \<Rightarrow> True
      | RequireSigned keys \<Rightarrow>
          (case (ts_author_id t, ts_signature t) of
             (Some author, Some sig_bytes) \<Rightarrow>
               (case (keys author, to_signature sig_bytes) of
                  (Some vk, Some sig) \<Rightarrow>
                    verify C author vk
                      (federation_tombstone_signing_payload wing_id (ts_target_hash t) (ts_ts t)) sig
                | _ \<Rightarrow> False)
           | _ \<Rightarrow> False))"

subsection \<open>Content addresses\<close>

definition OBJ_DOMAIN :: "byte list" where
  "OBJ_DOMAIN = as_bytes ''spectral.federation.memobj.v1''"

definition object_preimage :: "memory_object \<Rightarrow> byte list" where
  "object_preimage ob =
     OBJ_DOMAIN @
     (case mo_author_id ob of Some a \<Rightarrow> [1] @ framed 8 a | None \<Rightarrow> [0]) @
     framed 8 (as_bytes (mo_key ob)) @ framed 8 (as_bytes (mo_created_at ob)) @
     framed 8 (as_bytes (mo_content ob)) @ framed 8 (as_bytes (mo_visibility ob)) @
     framed 8 (as_bytes (case mo_supersedes ob of Some s \<Rightarrow> s | None \<Rightarrow> []))"

definition object_hash :: "('vk, byte list) crypto \<Rightarrow> memory_object \<Rightarrow> string" where
  "object_hash C ob = to_hex (blake3 C (object_preimage ob))"

definition hex8 :: "byte list \<Rightarrow> string" where
  "hex8 b = concat (map fmt_02x b)"

definition author_short :: "id32 option \<Rightarrow> string" where
  "author_short author = (case author of Some a \<Rightarrow> hex8 (take 4 a) | None \<Rightarrow> ''anon'')"

subsection \<open>Tables\<close>

record 'f mem_row =
  mr_id :: string
  mr_key :: string
  mr_content :: string
  mr_visibility :: string
  mr_created_at :: "string option"
  mr_content_hash :: "string option"
  mr_source_brain_id :: "byte list option"
  mr_wing :: "string option"
  mr_hall :: "string option"
  mr_signal_score :: 'f
  mr_confidence :: 'f

record wing_member =
  wm_wing_id :: string
  wm_object_hash :: string
  wm_mem_key :: string
  wm_orig_key :: "string option"
  wm_supersedes :: "string option"
  wm_sig :: "byte list option"

record sync_tombstone =
  sy_wing_id :: string
  sy_target_hash :: string
  sy_ts :: string
  sy_sig :: "byte list option"
  sy_author_id :: "byte list option"

record 'f sync_store =
  memories :: "'f mem_row list"
  wing_members :: "wing_member list"
  sync_tombs :: "sync_tombstone list"

text \<open>\<open>ensure_sync_tables\<close>: the columns each table ends with, from those it had (if it existed).\<close>

definition add_column :: "string \<Rightarrow> string list \<Rightarrow> string list" where
  "add_column c cols = (if c \<in> set cols then cols else cols @ [c])"

definition ensure_sync_tables ::
    "string list option \<times> string list option \<Rightarrow> string list \<times> string list" where
  "ensure_sync_tables db =
     (let m = (case fst db of Some cols \<Rightarrow> cols
               | None \<Rightarrow> [''wing_id'', ''object_hash'', ''mem_key'', ''orig_key'', ''supersedes'']);
          t = (case snd db of Some cols \<Rightarrow> cols | None \<Rightarrow> [''wing_id'', ''target_hash'', ''ts''])
      in (add_column ''sig'' (add_column ''supersedes'' (add_column ''orig_key'' m)),
          add_column ''author_id'' (add_column ''sig'' t)))"

definition wing_member_pk :: "wing_member \<Rightarrow> string \<times> string" where
  "wing_member_pk m = (wm_wing_id m, wm_object_hash m)"

definition wing_tomb_pk :: "sync_tombstone \<Rightarrow> string \<times> string" where
  "wing_tomb_pk t = (sy_wing_id t, sy_target_hash t)"

text \<open>\<open>v.try_into().ok()\<close> into 32 bytes.\<close>

definition author_of_blob :: "byte list option \<Rightarrow> id32 option" where
  "author_of_blob a = (case a of Some v \<Rightarrow> if length v = 32 then Some v else None | None \<Rightarrow> None)"

text \<open>\<open>unwrap_or_default\<close> of a column that may be \<open>NULL\<close>.\<close>

definition created_or_empty :: "'f mem_row \<Rightarrow> string" where
  "created_or_empty r = (case mr_created_at r of Some t \<Rightarrow> t | None \<Rightarrow> [])"

lemma created_stored [simp]: "mr_created_at r = Some t \<Longrightarrow> created_or_empty r = t"
  by (simp add: created_or_empty_def)

definition object_for_key :: "'f sync_store \<Rightarrow> string \<Rightarrow> memory_object option" where
  "object_for_key s mem_key =
     map_option (\<lambda>r. \<lparr>mo_key = mr_key r, mo_content = mr_content r,
         mo_author_id = author_of_blob (mr_source_brain_id r), mo_created_at = created_or_empty r,
         mo_visibility = mr_visibility r, mo_supersedes = None, mo_signature = None\<rparr>)
       (select_first (\<lambda>r. mr_key r = mem_key) (memories s))"

datatype sync_error = NoMemoryWithKey string

definition share ::
    "('vk, 'f) sync_env \<Rightarrow> 'f sync_store \<Rightarrow> string \<Rightarrow> string \<Rightarrow> sync_error + 'f sync_store \<times> string" where
  "share E s mem_key wing_id =
     (case object_for_key s mem_key of
        None \<Rightarrow> Inl (NoMemoryWithKey mem_key)
      | Some ob \<Rightarrow>
          let oh = object_hash (se_crypto E) ob;
              row = \<lparr>wm_wing_id = wing_id, wm_object_hash = oh, wm_mem_key = mem_key,
                     wm_orig_key = Some (mo_key ob), wm_supersedes = mo_supersedes ob, wm_sig = None\<rparr>
          in Inr (s\<lparr>wing_members := insert_or_ignore wing_member_pk row (wing_members s)\<rparr>, oh))"

definition is_tombstoned :: "'f sync_store \<Rightarrow> string \<Rightarrow> string \<Rightarrow> bool" where
  "is_tombstoned s wing_id h =
     (count_where (\<lambda>t. sy_wing_id t = wing_id \<and> sy_target_hash t = h) (sync_tombs s) > 0)"

definition live_members :: "'f sync_store \<Rightarrow> string \<Rightarrow> wing_member list" where
  "live_members s wing_id =
     filter (\<lambda>m. wm_wing_id m = wing_id \<and>
        wm_object_hash m \<notin> sy_target_hash ` {t \<in> set (sync_tombs s). sy_wing_id t = wing_id})
       (wing_members s)"

definition enumerate_wing :: "'f sync_store \<Rightarrow> string \<Rightarrow> string list" where
  "enumerate_wing s wing_id = sort (map wm_object_hash (live_members s wing_id))"

subsection \<open>Export\<close>

definition export_object :: "wing_member \<Rightarrow> 'f mem_row \<Rightarrow> memory_object" where
  "export_object m r =
     \<lparr>mo_key = (case wm_orig_key m of Some k \<Rightarrow> k | None \<Rightarrow> wm_mem_key m),
      mo_content = mr_content r, mo_author_id = author_of_blob (mr_source_brain_id r),
      mo_created_at = created_or_empty r, mo_visibility = mr_visibility r,
      mo_supersedes = wm_supersedes m, mo_signature = wm_sig m\<rparr>"

definition export_pack :: "('vk, 'f) sync_env \<Rightarrow> 'f sync_store \<Rightarrow> string \<Rightarrow> pack" where
  "export_pack E s wing_id =
     (let joined = concat (map (\<lambda>m. map (\<lambda>r. (wm_object_hash m, export_object m r))
             (filter (\<lambda>r. mr_key r = wm_mem_key m) (memories s))) (live_members s wing_id));
          objects = map snd (filter (\<lambda>(expected, ob). object_hash (se_crypto E) ob = expected) joined);
          tombstones = map (\<lambda>t. \<lparr>ts_target_hash = sy_target_hash t,
              ts_author_id = author_of_blob (sy_author_id t), ts_ts = sy_ts t, ts_signature = sy_sig t\<rparr>)
            (filter (\<lambda>t. sy_wing_id t = wing_id) (sync_tombs s))
      in \<lparr>pk_wing_id = wing_id, pk_objects = objects, pk_tombstones = tombstones\<rparr>)"

subsection \<open>Import\<close>

text \<open>\<open>INSERT OR IGNORE INTO memories\<close>: the id is the primary key and the key is unique.\<close>

definition mem_conflict :: "'f mem_row \<Rightarrow> 'f mem_row \<Rightarrow> bool" where
  "mem_conflict row r \<longleftrightarrow> mr_id r = mr_id row \<or> mr_key r = mr_key row"

definition insert_memory :: "'f mem_row \<Rightarrow> 'f mem_row list \<Rightarrow> 'f mem_row list \<times> nat" where
  "insert_memory row t = (if list_ex (mem_conflict row) t then (t, 0) else (t @ [row], 1))"

definition local_key :: "memory_object \<Rightarrow> string \<Rightarrow> string" where
  "local_key ob oh = author_short (mo_author_id ob) @ ''::'' @ mo_key ob @ ''::'' @ take 16 oh"

definition import_row :: "('vk, 'f) sync_env \<Rightarrow> memory_object \<Rightarrow> string \<Rightarrow> 'f mem_row" where
  "import_row E ob oh =
     (let hall = se_classify_hall E (mo_content ob)
      in \<lparr>mr_id = oh, mr_key = local_key ob oh, mr_content = mo_content ob,
          mr_visibility = mo_visibility ob, mr_created_at = Some (mo_created_at ob),
          mr_content_hash = Some (to_hex (blake3 (se_crypto E) (as_bytes (mo_content ob)))),
          mr_source_brain_id = mo_author_id ob,
          mr_wing = Some (se_classify_wing E (mo_key ob) (mo_content ob)), mr_hall = Some hall,
          mr_signal_score = se_score E (mo_content ob) hall, mr_confidence = se_one E\<rparr>)"

definition manifest_row :: "string \<Rightarrow> memory_object \<Rightarrow> string \<Rightarrow> string \<Rightarrow> wing_member" where
  "manifest_row wing_id ob oh mem_key =
     \<lparr>wm_wing_id = wing_id, wm_object_hash = oh, wm_mem_key = mem_key, wm_orig_key = Some (mo_key ob),
      wm_supersedes = mo_supersedes ob, wm_sig = mo_signature ob\<rparr>"

text \<open>One round of the object loop; \<open>retracted\<close> are the hashes the pack itself retracts.\<close>

definition import_object ::
    "('vk, 'f) sync_env \<Rightarrow> 'vk import_policy \<Rightarrow> string \<Rightarrow> string set \<Rightarrow> memory_object \<Rightarrow>
      'f sync_store \<times> import_outcome \<Rightarrow> 'f sync_store \<times> import_outcome" where
  "import_object E policy wing_id retracted ob acc =
     (case acc of (s, oc) \<Rightarrow>
      let oh = object_hash (se_crypto E) ob
      in if \<not> accepts_object (se_crypto E) policy ob oh
         then (s, oc\<lparr>oc_rejected_objects := oc_rejected_objects oc + 1\<rparr>)
         else if oh \<in> retracted \<or> is_tombstoned s wing_id oh then (s, oc)
         else case map_option wm_mem_key (select_first (\<lambda>m. wm_object_hash m = oh) (wing_members s)) of
           Some existing_key \<Rightarrow>
             (s\<lparr>wing_members := insert_or_ignore wing_member_pk (manifest_row wing_id ob oh existing_key)
                  (wing_members s)\<rparr>, oc)
         | None \<Rightarrow>
             let (ms, n) = insert_memory (import_row E ob oh) (memories s)
             in (s\<lparr>memories := ms,
                    wing_members := insert_or_ignore wing_member_pk
                      (manifest_row wing_id ob oh (local_key ob oh)) (wing_members s)\<rparr>,
                 oc\<lparr>oc_merged := oc_merged oc + n\<rparr>))"

definition apply_tombstone_tx :: "string \<Rightarrow> string \<Rightarrow> string \<Rightarrow> 'f sync_store \<Rightarrow> 'f sync_store" where
  "apply_tombstone_tx now wing_id target s =
     (let s1 = s\<lparr>sync_tombs := insert_or_ignore wing_tomb_pk
                  \<lparr>sy_wing_id = wing_id, sy_target_hash = target, sy_ts = now, sy_sig = None,
                   sy_author_id = None\<rparr> (sync_tombs s)\<rparr>;
          elsewhere = list_ex (\<lambda>m. wm_object_hash m = target \<and> wm_wing_id m \<noteq> wing_id) (wing_members s1);
          s2 = s1\<lparr>memories := delete_where (\<lambda>r. mr_id r = target \<and> \<not> elsewhere) (memories s1)\<rparr>
      in s2\<lparr>wing_members := delete_where
              (\<lambda>m. wm_wing_id m = wing_id \<and> wm_object_hash m = target) (wing_members s2)\<rparr>)"

definition tombstone :: "string \<Rightarrow> 'f sync_store \<Rightarrow> string \<Rightarrow> string \<Rightarrow> 'f sync_store" where
  "tombstone now s wing_id target = apply_tombstone_tx now wing_id target s"

definition import_tombstone :: "string \<Rightarrow> string \<Rightarrow> tombstone_msg \<Rightarrow> 'f sync_store \<Rightarrow> 'f sync_store" where
  "import_tombstone now wing_id t s =
     (let s1 = apply_tombstone_tx now wing_id (ts_target_hash t) s
      in s1\<lparr>sync_tombs := update_where
              (\<lambda>r. sy_wing_id r = wing_id \<and> sy_target_hash r = ts_target_hash t)
              (\<lambda>r. r\<lparr>sy_author_id := ts_author_id t, sy_sig := ts_signature t\<rparr>) (sync_tombs s1)\<rparr>)"

definition import_pack_with_policy ::
    "('vk, 'f) sync_env \<Rightarrow> string \<Rightarrow> 'vk import_policy \<Rightarrow> pack \<Rightarrow> 'f sync_store \<Rightarrow>
      'f sync_store \<times> import_outcome" where
  "import_pack_with_policy E now policy pk s =
     (let admitted = filter (accepts_tombstone (se_crypto E) policy (pk_wing_id pk)) (pk_tombstones pk);
          oc = \<lparr>oc_merged = 0, oc_rejected_objects = 0,
                oc_rejected_tombstones = length (pk_tombstones pk) - length admitted\<rparr>;
          retracted = set (map ts_target_hash admitted);
          (s1, oc1) = fold (import_object E policy (pk_wing_id pk) retracted) (pk_objects pk) (s, oc)
      in (fold (import_tombstone now (pk_wing_id pk)) admitted s1, oc1))"

definition import_pack ::
    "('vk, 'f) sync_env \<Rightarrow> string \<Rightarrow> pack \<Rightarrow> 'f sync_store \<Rightarrow> 'f sync_store \<times> nat" where
  "import_pack E now pk s =
     (let (s1, oc) = import_pack_with_policy E now TrustedTransport pk s in (s1, oc_merged oc))"

subsection \<open>Provenance\<close>

datatype origin = Private_Origin | Shared_Origin string "id32 option"

definition provenance :: "'f sync_store \<Rightarrow> string \<Rightarrow> origin" where
  "provenance s mem_key =
     (case select_first (\<lambda>m. wm_mem_key m = mem_key) (wing_members s) of
        None \<Rightarrow> Private_Origin
      | Some m \<Rightarrow>
          Shared_Origin (wm_wing_id m)
            (author_of_blob
              (case select_first (\<lambda>r. mr_key r = mem_key) (memories s) of
                 None \<Rightarrow> None | Some r \<Rightarrow> mr_source_brain_id r)))"

text \<open>The rows of the join for one member, and for one chunk in the order of the wings.\<close>

definition member_origins :: "'f sync_store \<Rightarrow> wing_member \<Rightarrow> (string \<times> origin) list" where
  "member_origins s m =
     (case filter (\<lambda>r. mr_key r = wm_mem_key m) (memories s) of
        [] \<Rightarrow> [(wm_mem_key m, Shared_Origin (wm_wing_id m) None)]
      | rs \<Rightarrow> map (\<lambda>r. (wm_mem_key m, Shared_Origin (wm_wing_id m) (author_of_blob (mr_source_brain_id r)))) rs)"

definition members_for :: "'f sync_store \<Rightarrow> string list \<Rightarrow> wing_member list" where
  "members_for s chunk = sort_key wm_wing_id (filter (\<lambda>m. wm_mem_key m \<in> set chunk) (wing_members s))"

definition provenance_rows :: "'f sync_store \<Rightarrow> string list \<Rightarrow> (string \<times> origin) list" where
  "provenance_rows s chunk = concat (map (member_origins s) (members_for s chunk))"

definition provenance_batch :: "'f sync_store \<Rightarrow> string list \<Rightarrow> string \<rightharpoonup> origin" where
  "provenance_batch s mem_keys =
     (let out = fold (\<lambda>k m. m(k \<mapsto> Private_Origin)) mem_keys Map.empty
      in if mem_keys = [] then out
         else fold (\<lambda>chunk m. fold (\<lambda>(k, og) m. m(k \<mapsto> og)) (provenance_rows s chunk) m)
                (chunks 400 mem_keys) out)"

definition add_wing :: "wing_member \<Rightarrow> (string \<rightharpoonup> string list) \<Rightarrow> (string \<rightharpoonup> string list)" where
  "add_wing m out = out(wm_mem_key m \<mapsto>
     (case out (wm_mem_key m) of None \<Rightarrow> [] | Some ws \<Rightarrow> ws) @ [wm_wing_id m])"

definition wings_for_keys :: "'f sync_store \<Rightarrow> string list \<Rightarrow> string \<rightharpoonup> string list" where
  "wings_for_keys s mem_keys =
     fold (\<lambda>chunk out. fold add_wing (members_for s chunk) out) (chunks 400 mem_keys) Map.empty"

end
