(* ===== verification/Federation_Merge.thy ===== *)
theory Federation_Merge
  imports Federation_Sync
begin

text \<open>
  The merge of shared wings keeps the contract of \<open>Orset\<close>: what an import adds and removes, the
  trust policy, and convergence.
\<close>

subsection \<open>Views of a store\<close>

definition wing_dead :: "'f sync_store \<Rightarrow> string \<Rightarrow> string set" where
  "wing_dead s n = column sy_wing_id sy_target_hash n (sync_tombs s)"

definition wing_stored :: "'f sync_store \<Rightarrow> string \<Rightarrow> string set" where
  "wing_stored s n = column wm_wing_id wm_object_hash n (wing_members s)"

definition wing_live :: "'f sync_store \<Rightarrow> string \<Rightarrow> string set" where
  "wing_live s n = set (enumerate_wing s n)"

lemmas wing_views = wing_dead_def wing_stored_def wing_member_pk_def wing_tomb_pk_def

lemma is_tombstoned_iff: "is_tombstoned s n h \<longleftrightarrow> h \<in> wing_dead s n"
  unfolding is_tombstoned_def wing_dead_def by (rule column_count)

lemma wing_live_eq: "wing_live s n = wing_stored s n - wing_dead s n"
  by (auto simp: wing_live_def enumerate_wing_def live_members_def wing_views column_def)

lemma wing_live_dead [simp]: "wing_live s n \<inter> wing_dead s n = {}"
  by (auto simp: wing_live_eq)

lemma column_manifest:
  "column wm_wing_id wm_object_hash n (insert_or_ignore wing_member_pk r ms) =
     (if n = wm_wing_id r then insert (wm_object_hash r) (column wm_wing_id wm_object_hash n ms)
      else column wm_wing_id wm_object_hash n ms)"
  by (rule column_insert) (simp add: wing_member_pk_def)

lemma manifest_row_simps [simp]:
  "wm_wing_id (manifest_row w ob h k) = w" "wm_object_hash (manifest_row w ob h k) = h"
  "wm_mem_key (manifest_row w ob h k) = k"
  by (simp_all add: manifest_row_def)

text \<open>The hashes of the objects a policy admits, and those of the retractions it admits.\<close>

definition admitted_hashes ::
    "('vk, 'f) sync_env \<Rightarrow> 'vk import_policy \<Rightarrow> pack \<Rightarrow> string set" where
  "admitted_hashes E policy pk =
     object_hash (se_crypto E) `
       {ob \<in> set (pk_objects pk). accepts_object (se_crypto E) policy ob (object_hash (se_crypto E) ob)}"

definition admitted_retractions ::
    "('vk, 'f) sync_env \<Rightarrow> 'vk import_policy \<Rightarrow> pack \<Rightarrow> string set" where
  "admitted_retractions E policy pk =
     ts_target_hash ` {t \<in> set (pk_tombstones pk). accepts_tombstone (se_crypto E) policy (pk_wing_id pk) t}"

lemma import_object_views:
  "sync_tombs (fst (import_object E policy w del ob (s, oc))) = sync_tombs s"
  "wing_stored (fst (import_object E policy w del ob (s, oc))) n =
     (let oh = object_hash (se_crypto E) ob
      in if n = w \<and> accepts_object (se_crypto E) policy ob oh \<and> oh \<notin> del \<and> oh \<notin> wing_dead s w
         then insert oh (wing_stored s n) else wing_stored s n)"
  by (simp_all add: import_object_def Let_def is_tombstoned_iff column_manifest split_beta wing_stored_def
      split: option.split)

lemma import_objects_tombs:
  "sync_tombs (fst (fold (import_object E policy w del) obs acc)) = sync_tombs (fst acc)"
proof (induction obs arbitrary: acc)
  case (Cons ob obs)
  then show ?case by (cases acc) (simp add: import_object_views(1))
qed simp

lemma import_objects_stored:
  "wing_stored (fst (fold (import_object E policy w del) obs (s, oc))) n =
     (if n = w then wing_stored s n \<union>
        (object_hash (se_crypto E) ` {ob \<in> set obs. accepts_object (se_crypto E) policy ob
            (object_hash (se_crypto E) ob)} - del - wing_dead s n)
      else wing_stored s n)"
proof (induction obs arbitrary: s oc)
  case Nil
  show ?case by simp
next
  case (Cons ob obs)
  obtain s1 oc1 where one: "import_object E policy w del ob (s, oc) = (s1, oc1)" by fastforce
  then have "sync_tombs s1 = sync_tombs s" using import_object_views(1)[of E policy w del ob s oc] by simp
  then have d1: "wing_dead s1 m = wing_dead s m" for m by (simp add: wing_dead_def)
  have step: "fold (import_object E policy w del) (ob # obs) (s, oc) =
      fold (import_object E policy w del) obs (s1, oc1)"
    by (simp add: one)
  have "wing_stored s1 n = (if n = w \<and> accepts_object (se_crypto E) policy ob (object_hash (se_crypto E) ob) \<and>
      object_hash (se_crypto E) ob \<notin> del \<and> object_hash (se_crypto E) ob \<notin> wing_dead s w
      then insert (object_hash (se_crypto E) ob) (wing_stored s n) else wing_stored s n)"
    using import_object_views(2)[of E policy w del ob s oc n] one by (simp add: Let_def)
  moreover have "f ` {x \<in> set (ob # obs). Q x} = (if Q ob then {f ob} else {}) \<union> f ` {x \<in> set obs. Q x}"
    for f :: "memory_object \<Rightarrow> string" and Q by auto
  ultimately show ?case unfolding step Cons.IH d1 by (cases "n = w") (simp_all split: if_split, blast+)
qed

lemma apply_tombstone_views:
  "wing_dead (apply_tombstone_tx now w h s) n = (if n = w then insert h (wing_dead s n) else wing_dead s n)"
  "wing_stored (apply_tombstone_tx now w h s) n = (if n = w then wing_stored s n - {h} else wing_stored s n)"
  by (simp_all add: apply_tombstone_tx_def Let_def wing_views column_insert column_delete)

lemma column_update:
  assumes "\<And>r. g (f r) = g r" and "\<And>r. h (f r) = h r"
  shows "column g h n (update_where P f t) = column g h n t"
proof -
  have pairs: "column g h n u = snd ` {p \<in> set (map (\<lambda>r. (g r, h r)) u). fst p = n}" for u
    by (force simp: column_def)
  have "map (\<lambda>r. (g r, h r)) (update_where P f t) = map (\<lambda>r. (g r, h r)) t"
    using assms by (simp add: update_where_def)
  then show ?thesis unfolding pairs by (simp only:)
qed

lemma import_tombstone_views:
  "wing_dead (import_tombstone now w t s) n =
     (if n = w then insert (ts_target_hash t) (wing_dead s n) else wing_dead s n)"
  "wing_stored (import_tombstone now w t s) n =
     (if n = w then wing_stored s n - {ts_target_hash t} else wing_stored s n)"
proof -
  let ?s = "apply_tombstone_tx now w (ts_target_hash t) s"
  have "wing_dead (import_tombstone now w t s) n = wing_dead ?s n"
    by (simp add: import_tombstone_def Let_def wing_dead_def column_update)
  then show "wing_dead (import_tombstone now w t s) n =
     (if n = w then insert (ts_target_hash t) (wing_dead s n) else wing_dead s n)"
    by (simp add: apply_tombstone_views)
  have "wing_stored (import_tombstone now w t s) n = wing_stored ?s n"
    by (simp add: import_tombstone_def Let_def wing_stored_def)
  then show "wing_stored (import_tombstone now w t s) n =
     (if n = w then wing_stored s n - {ts_target_hash t} else wing_stored s n)"
    by (simp add: apply_tombstone_views)
qed

lemma fold_import_tombstone:
  "wing_dead (fold (import_tombstone now w) ts s) n =
     (if n = w then wing_dead s n \<union> ts_target_hash ` set ts else wing_dead s n)"
  "wing_stored (fold (import_tombstone now w) ts s) n =
     (if n = w then wing_stored s n - ts_target_hash ` set ts else wing_stored s n)"
  by (induction ts arbitrary: s) (auto simp: import_tombstone_views)

lemma import_pack_views:
  "wing_dead (fst (import_pack_with_policy E now policy pk s)) n =
     (if n = pk_wing_id pk then wing_dead s n \<union> admitted_retractions E policy pk else wing_dead s n)"
  "wing_live (fst (import_pack_with_policy E now policy pk s)) n =
     (if n = pk_wing_id pk
      then (wing_live s n \<union> admitted_hashes E policy pk) - (wing_dead s n \<union> admitted_retractions E policy pk)
      else wing_live s n)"
proof -
  let ?ad = "filter (accepts_tombstone (se_crypto E) policy (pk_wing_id pk)) (pk_tombstones pk)"
  define oc where "oc = \<lparr>oc_merged = 0, oc_rejected_objects = 0,
    oc_rejected_tombstones = length (pk_tombstones pk) - length ?ad\<rparr>"
  define s1 where "s1 = fst (fold (import_object E policy (pk_wing_id pk) (set (map ts_target_hash ?ad)))
    (pk_objects pk) (s, oc))"
  have imp: "fst (import_pack_with_policy E now policy pk s) = fold (import_tombstone now (pk_wing_id pk)) ?ad s1"
    by (simp add: import_pack_with_policy_def Let_def split_beta s1_def oc_def)
  have ret: "ts_target_hash ` set ?ad = admitted_retractions E policy pk"
    by (simp add: admitted_retractions_def)
  have dead1: "wing_dead s1 m = wing_dead s m" for m
    by (simp add: s1_def wing_dead_def import_objects_tombs)
  show d: "wing_dead (fst (import_pack_with_policy E now policy pk s)) n =
     (if n = pk_wing_id pk then wing_dead s n \<union> admitted_retractions E policy pk else wing_dead s n)"
    unfolding imp fold_import_tombstone(1) dead1 ret ..
  show "wing_live (fst (import_pack_with_policy E now policy pk s)) n =
     (if n = pk_wing_id pk
      then (wing_live s n \<union> admitted_hashes E policy pk) - (wing_dead s n \<union> admitted_retractions E policy pk)
      else wing_live s n)"
    unfolding wing_live_eq d unfolding imp fold_import_tombstone(2) ret s1_def import_objects_stored
    by (auto simp: admitted_hashes_def admitted_retractions_def)
qed

lemma import_object_rejections:
  "oc_rejected_objects (snd (import_object E policy w del ob (s, oc))) = oc_rejected_objects oc +
     (if accepts_object (se_crypto E) policy ob (object_hash (se_crypto E) ob) then 0 else 1)"
  "oc_rejected_tombstones (snd (import_object E policy w del ob (s, oc))) = oc_rejected_tombstones oc"
  by (simp_all add: import_object_def Let_def split_beta split: option.split)

lemma import_objects_rejections:
  "oc_rejected_objects (snd (fold (import_object E policy w del) obs acc)) = oc_rejected_objects (snd acc) +
     length (filter (\<lambda>ob. \<not> accepts_object (se_crypto E) policy ob (object_hash (se_crypto E) ob)) obs) \<and>
   oc_rejected_tombstones (snd (fold (import_object E policy w del) obs acc)) = oc_rejected_tombstones (snd acc)"
proof (induction obs arbitrary: acc)
  case (Cons ob obs)
  then show ?case by (cases acc) (simp add: import_object_rejections)
qed simp

lemma import_rejections:
  "oc_rejected_objects (snd (import_pack_with_policy E now policy pk s)) =
     length (filter (\<lambda>ob. \<not> accepts_object (se_crypto E) policy ob (object_hash (se_crypto E) ob)) (pk_objects pk))"
  "oc_rejected_tombstones (snd (import_pack_with_policy E now policy pk s)) =
     length (filter (\<lambda>t. \<not> accepts_tombstone (se_crypto E) policy (pk_wing_id pk) t) (pk_tombstones pk))"
proof -
  have "length ts - length (filter Q ts) = length (filter (\<lambda>t. \<not> Q t) ts)" for Q and ts :: "tombstone_msg list"
    using sum_length_filter_compl[of Q ts] by simp
  then show "oc_rejected_tombstones (snd (import_pack_with_policy E now policy pk s)) =
     length (filter (\<lambda>t. \<not> accepts_tombstone (se_crypto E) policy (pk_wing_id pk) t) (pk_tombstones pk))"
    by (simp add: import_pack_with_policy_def Let_def split_beta import_objects_rejections)
qed (simp add: import_pack_with_policy_def Let_def split_beta import_objects_rejections)

text \<open>A shared wing keeps the contract of \<open>Orset\<close>, under any policy.\<close>

interpretation wing: orset wing_live wing_dead "\<lambda>p s. fst (import_pack_with_policy E now policy p s)"
  pk_wing_id "admitted_hashes E policy" "admitted_retractions E policy"
  by unfold_locales (simp_all add: import_pack_views)

text \<open>A trusting peer also exports: all its retractions, and none but its live objects.\<close>

lemma export_pack_wing [simp]: "pk_wing_id (export_pack E s n) = n"
  by (simp add: export_pack_def Let_def)

lemma export_objects:
  "set (pk_objects (export_pack E s n)) =
     {export_object m r |m r. m \<in> set (live_members s n) \<and> r \<in> set (memories s) \<and>
        mr_key r = wm_mem_key m \<and> object_hash (se_crypto E) (export_object m r) = wm_object_hash m}"
  by (force simp: export_pack_def Let_def)

lemma live_members_live: "m \<in> set (live_members s n) \<Longrightarrow> wm_object_hash m \<in> wing_live s n"
  by (auto simp: wing_live_def enumerate_wing_def)

interpretation wing_peer: orset_peer wing_live wing_dead
  "\<lambda>p s. fst (import_pack_with_policy E now TrustedTransport p s)" pk_wing_id
  "admitted_hashes E TrustedTransport" "admitted_retractions E TrustedTransport" "export_pack E"
proof unfold_locales
  fix s n
  show "admitted_retractions E TrustedTransport (export_pack E s n) = wing_dead s n"
    by (force simp: admitted_retractions_def accepts_tombstone_def export_pack_def Let_def wing_dead_def
        column_def)
  show "admitted_hashes E TrustedTransport (export_pack E s n) \<subseteq> wing_live s n"
    using live_members_live by (auto simp: admitted_hashes_def export_objects)
qed simp

subsection \<open>Properties\<close>

text \<open>The store after importing the packs of a list, in order, under one policy.\<close>

definition import_all ::
    "('vk, 'f) sync_env \<Rightarrow> string \<Rightarrow> 'vk import_policy \<Rightarrow> pack list \<Rightarrow> 'f sync_store \<Rightarrow> 'f sync_store" where
  "import_all E now policy ps s = fold (\<lambda>p s. fst (import_pack_with_policy E now policy p s)) ps s"

text \<open>
  C2: Under one policy, importing the same packs in any order and any number of times gives the
  same live objects and the same retractions in every wing, and a hash retracted in a wing is never
  listed in it again.
\<close>

theorem wing_replicas_converge:
  assumes "set ps = set qs"
  shows "wing_live (import_all E now policy ps s) n = wing_live (import_all E now policy qs s) n \<and>
    wing_dead (import_all E now policy ps s) n = wing_dead (import_all E now policy qs s) n \<and>
    wing_live (import_all E now policy ps s) n \<inter> wing_dead s n = {}"
proof -
  note same = wing.converge[OF assms, where E = E and now = now and policy = policy and s = s and n = n]
  have "h \<notin> wing_live (import_all E now policy ps s) n" if "h \<in> wing_dead s n" for h
    unfolding import_all_def by (rule wing.no_resurrection[OF that])
  with same show ?thesis unfolding import_all_def by blast
qed

text \<open>
  C33: Under \<open>RequireSigned\<close> an import adds to the wing only objects whose signature verifies with the
  key registered for the author they name, that key hashing to the author's identity, and removes
  only what such signed retractions of this very wing name; the other wings are untouched and the
  outcome counts every object and retraction turned away.
\<close>

theorem signed_import_authentic:
  assumes "import_pack_with_policy E now (RequireSigned keys) pk s = (s', oc)"
  defines "C \<equiv> se_crypto E"
  shows "(\<forall>h \<in> wing_live s' (pk_wing_id pk) - wing_live s (pk_wing_id pk).
        \<exists>ob a vk sig. ob \<in> set (pk_objects pk) \<and> h = object_hash C ob \<and> mo_author_id ob = Some a \<and>
          mo_signature ob = Some sig \<and> keys a = Some vk \<and> a = blake3 C (vk_bytes C vk) \<and>
          accepts C vk (federation_object_signing_payload h) sig) \<and>
    (\<forall>h \<in> wing_live s (pk_wing_id pk) - wing_live s' (pk_wing_id pk).
        \<exists>t a vk sig. t \<in> set (pk_tombstones pk) \<and> h = ts_target_hash t \<and> ts_author_id t = Some a \<and>
          ts_signature t = Some sig \<and> keys a = Some vk \<and> a = blake3 C (vk_bytes C vk) \<and>
          accepts C vk (federation_tombstone_signing_payload (pk_wing_id pk) h (ts_ts t)) sig) \<and>
    (\<forall>n. n \<noteq> pk_wing_id pk \<longrightarrow> wing_live s' n = wing_live s n \<and> wing_dead s' n = wing_dead s n) \<and>
    oc_rejected_objects oc = length (filter (\<lambda>ob. \<not> accepts_object C (RequireSigned keys) ob (object_hash C ob)) (pk_objects pk)) \<and>
    oc_rejected_tombstones oc = length (filter (\<lambda>t. \<not> accepts_tombstone C (RequireSigned keys) (pk_wing_id pk) t) (pk_tombstones pk))"
proof -
  let ?P = "RequireSigned keys"
  have s': "s' = fst (import_pack_with_policy E now ?P pk s)" using assms(1) by simp
  have obj: "\<exists>a vk sig. mo_author_id ob = Some a \<and> mo_signature ob = Some sig \<and> keys a = Some vk \<and>
      a = blake3 C (vk_bytes C vk) \<and> accepts C vk (federation_object_signing_payload h) sig"
    if "accepts_object C ?P ob h" for ob h
    using that by (auto simp: accepts_object_def to_signature_def verify_iff split: option.splits if_splits)
  have tomb: "\<exists>a vk sig. ts_author_id t = Some a \<and> ts_signature t = Some sig \<and> keys a = Some vk \<and>
      a = blake3 C (vk_bytes C vk) \<and>
      accepts C vk (federation_tombstone_signing_payload w (ts_target_hash t) (ts_ts t)) sig"
    if "accepts_tombstone C ?P w t" for t w
    using that by (auto simp: accepts_tombstone_def to_signature_def verify_iff split: option.splits if_splits)
  have added: "wing_live s' (pk_wing_id pk) - wing_live s (pk_wing_id pk) \<subseteq> admitted_hashes E ?P pk"
    unfolding s' import_pack_views by auto
  have removed: "wing_live s (pk_wing_id pk) - wing_live s' (pk_wing_id pk) \<subseteq> admitted_retractions E ?P pk"
  proof
    fix h
    assume h: "h \<in> wing_live s (pk_wing_id pk) - wing_live s' (pk_wing_id pk)"
    then have "h \<notin> wing_dead s (pk_wing_id pk)" using wing_live_dead[of s "pk_wing_id pk"] by blast
    with h show "h \<in> admitted_retractions E ?P pk" by (auto simp: s' import_pack_views)
  qed
  show ?thesis
  proof (intro conjI)
    show "\<forall>h \<in> wing_live s' (pk_wing_id pk) - wing_live s (pk_wing_id pk).
        \<exists>ob a vk sig. ob \<in> set (pk_objects pk) \<and> h = object_hash C ob \<and> mo_author_id ob = Some a \<and>
          mo_signature ob = Some sig \<and> keys a = Some vk \<and> a = blake3 C (vk_bytes C vk) \<and>
          accepts C vk (federation_object_signing_payload h) sig"
      using added obj unfolding admitted_hashes_def C_def by blast
    show "\<forall>h \<in> wing_live s (pk_wing_id pk) - wing_live s' (pk_wing_id pk).
        \<exists>t a vk sig. t \<in> set (pk_tombstones pk) \<and> h = ts_target_hash t \<and> ts_author_id t = Some a \<and>
          ts_signature t = Some sig \<and> keys a = Some vk \<and> a = blake3 C (vk_bytes C vk) \<and>
          accepts C vk (federation_tombstone_signing_payload (pk_wing_id pk) h (ts_ts t)) sig"
      using removed tomb unfolding admitted_retractions_def C_def by blast
    show "\<forall>n. n \<noteq> pk_wing_id pk \<longrightarrow> wing_live s' n = wing_live s n \<and> wing_dead s' n = wing_dead s n"
      unfolding s' import_pack_views by simp
    show "oc_rejected_objects oc = length (filter (\<lambda>ob. \<not> accepts_object C ?P ob (object_hash C ob)) (pk_objects pk))"
      using assms(1) import_rejections[of E now ?P pk s] by (simp add: C_def)
    show "oc_rejected_tombstones oc = length (filter (\<lambda>t. \<not> accepts_tombstone C ?P (pk_wing_id pk) t) (pk_tombstones pk))"
      using assms(1) import_rejections[of E now ?P pk s] by (simp add: C_def)
  qed
qed

definition toy_sync :: "(byte list, nat) sync_env" where
  "toy_sync = \<lparr>se_crypto = toy_crypto, se_classify_wing = (\<lambda>k c. ''general''), se_classify_hall = (\<lambda>c. ''event''),
     se_score = (\<lambda>c h. 0), se_one = 1\<rparr>"

definition toy_object :: memory_object where
  "toy_object = \<lparr>mo_key = ''k'', mo_content = ''c'', mo_author_id = None, mo_created_at = ''t'',
     mo_visibility = ''team'', mo_supersedes = None, mo_signature = None\<rparr>"

definition toy_pack :: pack where
  "toy_pack = \<lparr>pk_wing_id = ''w'', pk_objects = [toy_object], pk_tombstones = []\<rparr>"

definition toy_retraction :: pack where
  "toy_retraction = \<lparr>pk_wing_id = ''w'', pk_objects = [],
     pk_tombstones = [\<lparr>ts_target_hash = ''h'', ts_author_id = None, ts_ts = ''t'', ts_signature = None\<rparr>]\<rparr>"

definition no_sync_store :: "nat sync_store" where
  "no_sync_store = \<lparr>memories = [], wing_members = [], sync_tombs = []\<rparr>"

lemma wing_replicas_converge_witness:
  "wing_live (import_all toy_sync ''now'' TrustedTransport [toy_pack, toy_retraction] no_sync_store) ''w'' =
   wing_live (import_all toy_sync ''now'' TrustedTransport [toy_retraction, toy_pack, toy_pack] no_sync_store) ''w''"
  by (rule wing_replicas_converge[THEN conjunct1]) auto

lemma signed_import_authentic_witness:
  "oc_rejected_tombstones (snd (import_pack_with_policy toy_sync ''now'' (RequireSigned Map.empty) toy_retraction no_sync_store)) = 1"
  using signed_import_authentic[of toy_sync "''now''" Map.empty toy_retraction no_sync_store, OF prod.collapse[symmetric]]
  by (simp add: toy_retraction_def accepts_tombstone_def)

text \<open>
  Only shared memories leave: every exported object is the content of a stored memory that a
  manifest row of this wing names, its content address is that row's hash, and the hash is live in
  the wing. So a memory no row of the wing's manifest names is never exported.
\<close>

theorem export_sovereign:
  assumes "ob \<in> set (pk_objects (export_pack E s wing_id))"
  shows "object_hash (se_crypto E) ob \<in> wing_live s wing_id \<and>
    (\<exists>m \<in> set (wing_members s). \<exists>r \<in> set (memories s). wm_wing_id m = wing_id \<and> wm_mem_key m = mr_key r \<and>
       wm_object_hash m = object_hash (se_crypto E) ob \<and> mo_content ob = mr_content r \<and>
       mo_visibility ob = mr_visibility r \<and> mo_signature ob = wm_sig m)"
proof -
  obtain m r where mr: "ob = export_object m r" "m \<in> set (live_members s wing_id)" "r \<in> set (memories s)"
    "mr_key r = wm_mem_key m" "object_hash (se_crypto E) ob = wm_object_hash m"
    using assms by (auto simp: export_objects)
  then have "m \<in> set (wing_members s)" "wm_wing_id m = wing_id" by (auto simp: live_members_def)
  moreover have "wm_object_hash m \<in> wing_live s wing_id" by (rule live_members_live[OF mr(2)])
  ultimately show ?thesis
    using mr by (intro conjI bexI[of _ m] bexI[of _ r]) (simp_all add: export_object_def)
qed

lemma author_of_blob_length: "author_of_blob a = Some v \<Longrightarrow> length v = 32"
  by (auto simp: author_of_blob_def split: option.splits if_splits)

text \<open>
  The content address covers every source field: two objects with the same hashed bytes have the
  same key, creation time, content, visibility and author, and supersede the same object, where none
  and the empty hash are not told apart.
\<close>

theorem object_preimage_injective:
  assumes "object_preimage a = object_preimage b"
    and "\<And>x. x \<in> {a, b} \<Longrightarrow> length (mo_key x) < 2 ^ 64 \<and> length (mo_created_at x) < 2 ^ 64 \<and>
      length (mo_content x) < 2 ^ 64 \<and> length (mo_visibility x) < 2 ^ 64 \<and>
      (\<forall>s. mo_supersedes x = Some s \<longrightarrow> length s < 2 ^ 64) \<and> (\<forall>v. mo_author_id x = Some v \<longrightarrow> length v = 32)"
  shows "mo_key a = mo_key b \<and> mo_created_at a = mo_created_at b \<and> mo_content a = mo_content b \<and>
    mo_visibility a = mo_visibility b \<and> mo_author_id a = mo_author_id b \<and>
    (case mo_supersedes a of Some s \<Rightarrow> s | None \<Rightarrow> []) = (case mo_supersedes b of Some s \<Rightarrow> s | None \<Rightarrow> [])"
proof -
  let ?sup = "\<lambda>x. case mo_supersedes x of Some s \<Rightarrow> s | None \<Rightarrow> []"
  let ?fields = "\<lambda>x. map as_bytes [mo_key x, mo_created_at x, mo_content x, mo_visibility x, ?sup x]"
  let ?tail = "\<lambda>x. concat (map (framed 8) (?fields x))"
  have small: "\<forall>f \<in> set (?fields x). length f < 256 ^ 8" if "x \<in> {a, b}" for x
    using assms(2)[OF that] by (auto split: option.split)
  have eq: "(case mo_author_id a of Some v \<Rightarrow> [1] @ framed 8 v | None \<Rightarrow> [0]) @ ?tail a =
      (case mo_author_id b of Some v \<Rightarrow> [1] @ framed 8 v | None \<Rightarrow> [0]) @ ?tail b"
    using assms(1) by (simp add: object_preimage_def)
  have "mo_author_id a = mo_author_id b \<and> ?tail a = ?tail b"
  proof (cases "mo_author_id a"; cases "mo_author_id b")
    fix v w
    assume vw: "mo_author_id a = Some v" "mo_author_id b = Some w"
    then have "length v = 32" "length w = 32" using assms(2) by auto
    then show ?thesis using eq vw framed_append_inject[of 8 v "?tail a" w "?tail b"] by simp
  qed (use eq in simp_all)
  moreover from this have "?fields a = ?fields b"
    using small by (intro framed_fields_inject[of 8]) auto
  ultimately show ?thesis by (simp add: inj_map_eq_map)
qed

lemma export_sovereign_witness:
  "\<exists>ob \<in> set (pk_objects (export_pack toy_sync
       (fst (import_pack_with_policy toy_sync ''now'' TrustedTransport toy_pack no_sync_store)) ''w'')).
     mo_content ob = ''c'' \<and>
     object_hash toy_crypto ob \<in> wing_live (fst (import_pack_with_policy toy_sync ''now'' TrustedTransport toy_pack no_sync_store)) ''w''"
proof -
  let ?s = "fst (import_pack_with_policy toy_sync ''now'' TrustedTransport toy_pack no_sync_store)"
  have "pk_objects (export_pack toy_sync ?s ''w'') = [toy_object]"
    by (simp add: import_pack_with_policy_def toy_pack_def import_object_def no_sync_store_def Let_def
        is_tombstoned_def count_where_def accepts_object_def select_first_def insert_memory_def import_row_def
        manifest_row_def insert_or_ignore_def export_pack_def live_members_def export_object_def
        toy_object_def toy_sync_def author_of_blob_def)
  with export_sovereign[of toy_object toy_sync ?s "''w''"] show ?thesis
    by (auto simp: toy_object_def toy_sync_def)
qed

lemma object_preimage_injective_witness:
  "object_preimage toy_object = object_preimage (toy_object\<lparr>mo_supersedes := Some []\<rparr>) \<and>
   mo_key toy_object = mo_key (toy_object\<lparr>mo_supersedes := Some []\<rparr>)"
proof -
  have eq: "object_preimage toy_object = object_preimage (toy_object\<lparr>mo_supersedes := Some []\<rparr>)"
    by (simp add: object_preimage_def toy_object_def)
  from object_preimage_injective[OF eq] eq show ?thesis by (auto simp: toy_object_def)
qed

text \<open>
  A relayed retraction cannot be verified: an admitted signed retraction is stored with the time
  of the import instead of the signed time, so what the importer exports carries the signature next
  to another timestamp, and the payload a third brain checks is not the one that was signed.
\<close>

theorem relayed_retraction_unverifiable:
  assumes "pk_tombstones pk = [t]" and "accepts_tombstone (se_crypto E) policy (pk_wing_id pk) t"
    and "ts_target_hash t \<notin> wing_dead s (pk_wing_id pk)" and "now \<noteq> ts_ts t"
    and "length (pk_wing_id pk) < 2 ^ 32" and "length (ts_target_hash t) < 2 ^ 32"
    and "length (ts_ts t) < 2 ^ 32" and "length now < 2 ^ 32"
  defines "s' \<equiv> fst (import_pack_with_policy E now policy pk s)"
  shows "\<exists>t' \<in> set (pk_tombstones (export_pack E s' (pk_wing_id pk))).
      ts_target_hash t' = ts_target_hash t \<and> ts_signature t' = ts_signature t \<and> ts_ts t' = now \<and>
      federation_tombstone_signing_payload (pk_wing_id pk) (ts_target_hash t') (ts_ts t') \<noteq>
      federation_tombstone_signing_payload (pk_wing_id pk) (ts_target_hash t) (ts_ts t)"
proof -
  let ?w = "pk_wing_id pk" and ?h = "ts_target_hash t"
  let ?row = "\<lparr>sy_wing_id = ?w, sy_target_hash = ?h, sy_ts = now, sy_sig = ts_signature t,
     sy_author_id = ts_author_id t\<rparr>"
  obtain s1 where s': "s' = import_tombstone now ?w t s1" and s1: "sync_tombs s1 = sync_tombs s"
    using assms(1,2)
    by (auto simp: s'_def import_pack_with_policy_def Let_def split_beta import_objects_tombs)
  have new: "\<not> (\<exists>x \<in> set (sync_tombs s). wing_tomb_pk x = (?w, ?h))"
    using assms(3) by (auto simp: wing_views column_iff)
  have "?row \<in> set (sync_tombs s')"
    using new by (auto simp: s' import_tombstone_def apply_tombstone_tx_def Let_def s1 insert_or_ignore_def
        wing_tomb_pk_def update_where_def)
  then have mem: "\<lparr>ts_target_hash = ?h, ts_author_id = author_of_blob (ts_author_id t), ts_ts = now,
      ts_signature = ts_signature t\<rparr> \<in> set (pk_tombstones (export_pack E s' ?w))"
    by (force simp: export_pack_def Let_def)
  have differ: "federation_tombstone_signing_payload ?w ?h now \<noteq>
      federation_tombstone_signing_payload ?w ?h (ts_ts t)"
    unfolding federation_tombstone_signing_payload_def
    using length_prefixed_inject[of _ "[?w, ?h, now]" "[?w, ?h, ts_ts t]"] assms(4-8) by auto
  show ?thesis by (rule bexI[OF _ mem]) (simp add: differ)
qed

lemma relayed_retraction_unverifiable_witness:
  "\<exists>t' \<in> set (pk_tombstones (export_pack toy_sync
       (fst (import_pack_with_policy toy_sync ''now'' TrustedTransport toy_retraction no_sync_store)) ''w'')).
     ts_ts t' = ''now'' \<and> ts_ts t' \<noteq> ''t''"
proof -
  have "pk_tombstones toy_retraction = [\<lparr>ts_target_hash = ''h'', ts_author_id = None, ts_ts = ''t'', ts_signature = None\<rparr>]"
    "pk_wing_id toy_retraction = ''w''" by (simp_all add: toy_retraction_def)
  with relayed_retraction_unverifiable[of toy_retraction _ toy_sync TrustedTransport no_sync_store "''now''"]
  show ?thesis by (auto simp: accepts_tombstone_def wing_dead_def no_sync_store_def)
qed

subsection \<open>Retraction and the other wings\<close>

lemma tombstone_other_members:
  assumes "n \<noteq> w"
  shows "live_members (tombstone now s w h) n = live_members s n"
proof -
  let ?s = "tombstone now s w h"
  have "sy_target_hash ` {t \<in> set (sync_tombs ?s). sy_wing_id t = n} =
      sy_target_hash ` {t \<in> set (sync_tombs s). sy_wing_id t = n}"
    using assms by (auto simp: tombstone_def apply_tombstone_tx_def Let_def set_insert_or_ignore)
  moreover have "wing_members ?s = filter (\<lambda>m. \<not> (wm_wing_id m = w \<and> wm_object_hash m = h)) (wing_members s)"
    by (simp add: tombstone_def apply_tombstone_tx_def Let_def delete_where_def)
  ultimately show ?thesis
    using assms unfolding live_members_def by (auto intro!: filter_cong)
qed

lemma tombstone_memories:
  "set (memories (tombstone now s w h)) =
     {r \<in> set (memories s). mr_id r = h \<longrightarrow> (\<exists>m \<in> set (wing_members s). wm_object_hash m = h \<and> wm_wing_id m \<noteq> w)}"
  by (auto simp: tombstone_def apply_tombstone_tx_def Let_def list_ex_iff)

text \<open>
  A retraction in one wing leaves what every other wing exports as it was, even when the same
  object is shared there, provided the retracted row is not also shared under another hash.
\<close>

theorem retraction_spares_other_wings:
  assumes "n \<noteq> w"
    and "\<forall>m \<in> set (wing_members s). \<forall>r \<in> set (memories s).
      mr_key r = wm_mem_key m \<and> mr_id r = h \<and> wm_wing_id m = n \<longrightarrow> wm_object_hash m = h"
  shows "set (pk_objects (export_pack E (tombstone now s w h) n)) = set (pk_objects (export_pack E s n))"
proof -
  have "r \<in> set (memories (tombstone now s w h)) \<longleftrightarrow> r \<in> set (memories s)"
    if "m \<in> set (live_members s n)" "mr_key r = wm_mem_key m" for m r
    using that assms by (auto simp: tombstone_memories live_members_def)
  then show ?thesis unfolding export_objects tombstone_other_members[OF assms(1)] by blast
qed

text \<open>
  C34: The proviso is needed: when a row that an import stored under \<open>h\<close> has been shared onward into
  wing \<open>n\<close> under its own new address, retracting \<open>h\<close> in the wing it came from deletes the row, and
  wing \<open>n\<close> still lists the address but can no longer export it.
\<close>

theorem retraction_destroys_reshared:
  assumes "n \<noteq> w" and "m \<in> set (live_members s n)" and "r \<in> set (memories s)"
    and "mr_key r = wm_mem_key m" and "mr_id r = h"
    and "distinct (map mr_key (memories s))"
    and "\<forall>m' \<in> set (wing_members s). wm_object_hash m' = h \<longrightarrow> wm_wing_id m' = w"
    and "distinct (map wing_member_pk (wing_members s))"
  shows "wm_object_hash m \<in> wing_live (tombstone now s w h) n \<and>
    wm_object_hash m \<notin> object_hash (se_crypto E) ` set (pk_objects (export_pack E (tombstone now s w h) n))"
proof
  have live: "m \<in> set (live_members (tombstone now s w h) n)"
    using assms(2) by (simp add: tombstone_other_members[OF assms(1)])
  then show "wm_object_hash m \<in> wing_live (tombstone now s w h) n" by (rule live_members_live)
  show "wm_object_hash m \<notin> object_hash (se_crypto E) ` set (pk_objects (export_pack E (tombstone now s w h) n))"
  proof
    assume "wm_object_hash m \<in> object_hash (se_crypto E) ` set (pk_objects (export_pack E (tombstone now s w h) n))"
    then obtain m' r' where m': "m' \<in> set (live_members s n)" "wm_object_hash m' = wm_object_hash m"
      "r' \<in> set (memories (tombstone now s w h))" "mr_key r' = wm_mem_key m'"
      by (auto simp: export_objects tombstone_other_members[OF assms(1)])
    have "m' = m"
      using m'(1,2) assms(2,8) by (auto simp: live_members_def wing_member_pk_def distinct_map inj_on_def)
    moreover have "r' \<in> set (memories s)" using m'(3) by (simp add: tombstone_memories)
    ultimately have "r' = r" using m'(4) assms(3,4,6) by (auto simp: distinct_map inj_on_def)
    then show False using m'(3) assms(5,7) by (auto simp: tombstone_memories)
  qed
qed

text \<open>An imported row shared onward: \<open>v\<close> lists it under the address \<open>share\<close> computes for it.\<close>

definition toy_reshared :: "nat sync_store" where
  "toy_reshared =
     fst (projr (share toy_sync (fst (import_pack_with_policy toy_sync ''now'' TrustedTransport toy_pack no_sync_store))
       (local_key toy_object (object_hash toy_crypto toy_object)) ''v''))"

definition toy_hash :: string where
  "toy_hash = object_hash toy_crypto toy_object"

definition toy_row :: "nat mem_row" where
  "toy_row = import_row toy_sync toy_object toy_hash"

definition toy_second :: memory_object where
  "toy_second = toy_object\<lparr>mo_key := local_key toy_object toy_hash\<rparr>"

lemma toy_reshared_tables:
  "memories toy_reshared = [toy_row]" "sync_tombs toy_reshared = []"
  "wing_members toy_reshared =
     [manifest_row ''w'' toy_object toy_hash (local_key toy_object toy_hash),
      manifest_row ''v'' toy_second (object_hash toy_crypto toy_second) (local_key toy_object toy_hash)]"
  by (simp_all add: toy_reshared_def import_pack_with_policy_def toy_pack_def import_object_def no_sync_store_def
      Let_def is_tombstoned_def count_where_def accepts_object_def select_first_def insert_memory_def import_row_def
      manifest_row_def insert_or_ignore_def wing_member_pk_def share_def object_for_key_def toy_sync_def
      toy_hash_def toy_row_def toy_second_def toy_object_def author_of_blob_def)

lemma toy_row_keys: "mr_id toy_row = toy_hash" "mr_key toy_row = local_key toy_object toy_hash"
  by (simp_all add: toy_row_def import_row_def Let_def)

lemma length_toy_hash: "length toy_hash = 64"
  by (simp add: toy_hash_def object_hash_def toy_crypto_def)

lemma retraction_spares_other_wings_witness:
  "set (pk_objects (export_pack toy_sync (tombstone ''now'' toy_reshared ''v'' ''h'') ''w'')) =
   set (pk_objects (export_pack toy_sync toy_reshared ''w''))"
proof (rule retraction_spares_other_wings)
  have "length toy_hash \<noteq> length ''h''" by (simp add: length_toy_hash)
  then have "toy_hash \<noteq> ''h''" by metis
  then show "\<forall>m \<in> set (wing_members toy_reshared). \<forall>r \<in> set (memories toy_reshared).
      mr_key r = wm_mem_key m \<and> mr_id r = ''h'' \<and> wm_wing_id m = ''w'' \<longrightarrow> wm_object_hash m = ''h''"
    by (simp add: toy_reshared_tables toy_row_keys)
qed simp

text \<open>The toy hash keeps 32 bytes, the 31st of which is the low byte of the length of the key.\<close>

lemma toy_hash_byte:
  assumes "mo_author_id x = None"
  shows "blake3 toy_crypto (object_preimage x) ! 30 = of_nat (length (mo_key x))"
proof -
  have len: "length (framed 8 b) = 8 + length b" for b by (simp add: framed_def)
  have "le_bytes 8 n = of_nat n # le_bytes 7 (n div 256)" for n
    using le_bytes.simps(2)[of 7 n] by (simp del: le_bytes.simps)
  then have "framed 8 (as_bytes (mo_key x)) ! 0 = of_nat (length (mo_key x))"
    by (simp add: framed_def)
  then show ?thesis
    using assms by (simp add: toy_crypto_def object_preimage_def OBJ_DOMAIN_def nth_append len)
qed

lemma retraction_destroys_reshared_witness:
  "object_hash toy_crypto toy_second \<in> wing_live (tombstone ''now'' toy_reshared ''w'' toy_hash) ''v'' \<and>
   object_hash toy_crypto toy_second \<notin>
     object_hash toy_crypto ` set (pk_objects (export_pack toy_sync (tombstone ''now'' toy_reshared ''w'' toy_hash) ''v''))"
proof -
  have differ: "object_hash toy_crypto toy_second \<noteq> toy_hash"
  proof
    let ?h = "\<lambda>x. blake3 toy_crypto (object_preimage x)"
    have len: "length (?h x) = 32" for x by (simp add: toy_crypto_def)
    assume "object_hash toy_crypto toy_second = toy_hash"
    then have "to_hex (?h toy_second) = to_hex (?h toy_object)" by (simp add: object_hash_def toy_hash_def)
    then have "id_from_str (to_hex (?h toy_second)) = id_from_str (to_hex (?h toy_object))" by simp
    then have "?h toy_second = ?h toy_object" by (simp add: id_round_trip[OF len])
    then have "?h toy_second ! 30 = ?h toy_object ! 30" by simp
    moreover have "mo_author_id toy_second = None" "mo_author_id toy_object = None"
      by (simp_all add: toy_second_def toy_object_def)
    ultimately have "(of_nat (length (mo_key toy_second)) :: byte) = of_nat (length (mo_key toy_object))"
      by (simp add: toy_hash_byte)
    then show False
      by (simp add: toy_second_def toy_object_def local_key_def author_short_def length_toy_hash)
  qed
  let ?m = "manifest_row ''v'' toy_second (object_hash toy_crypto toy_second) (local_key toy_object toy_hash)"
  have crypto: "se_crypto toy_sync = toy_crypto" by (simp add: toy_sync_def)
  have "wm_object_hash ?m \<in> wing_live (tombstone ''now'' toy_reshared ''w'' toy_hash) ''v'' \<and>
     wm_object_hash ?m \<notin> object_hash (se_crypto toy_sync) `
       set (pk_objects (export_pack toy_sync (tombstone ''now'' toy_reshared ''w'' toy_hash) ''v''))"
    by (rule retraction_destroys_reshared[where r = toy_row])
      (simp_all add: toy_reshared_tables live_members_def wing_member_pk_def toy_row_keys differ)
  then show ?thesis unfolding crypto manifest_row_simps .
qed

end
