(* ===== verification/Federation_Origin.thy ===== *)
theory Federation_Origin
  imports Federation_Merge Replicated_Set
begin

text \<open>
  Provenance of recalled memories: the batched query the recall path uses, in chunks of 400 keys,
  against the query for one key.
\<close>

lemma fold_fold_concat: "fold (\<lambda>c. fold f (rows c)) cs m = fold f (concat (map rows cs)) m"
  by (induction cs arbitrary: m) auto

lemma fold_upd_other: "k \<notin> fst ` set rows \<Longrightarrow> fold (\<lambda>(k, v) m. m(k \<mapsto> v)) rows m k = m k"
  by (induction rows arbitrary: m) auto

lemma fold_upd_in:
  "k \<in> fst ` set rows \<Longrightarrow> \<exists>v. (k, v) \<in> set rows \<and> fold (\<lambda>(k, v) m. m(k \<mapsto> v)) rows m k = Some v"
proof (induction rows arbitrary: m)
  case (Cons row rows)
  obtain a b where row: "row = (a, b)" by (cases row)
  show ?case
  proof (cases "k \<in> fst ` set rows")
    case True
    with Cons.IH show ?thesis by (fastforce simp: row)
  next
    case False
    with Cons.prems have "k = a" by (auto simp: row)
    with False show ?thesis using fold_upd_other[OF False, of "m(k \<mapsto> b)"]
      by (auto simp: row simp del: fun_upd_apply) (simp_all add: row)
  qed
qed simp

lemma member_origins_keys: "fst ` set (member_origins s m) = {wm_mem_key m}"
  by (cases "filter (\<lambda>r. mr_key r = wm_mem_key m) (memories s)") (auto simp: member_origins_def image_image)

lemma member_origins_shared: "(k, og) \<in> set (member_origins s m) \<Longrightarrow> og \<noteq> Private_Origin"
  by (cases "filter (\<lambda>r. mr_key r = wm_mem_key m) (memories s)") (auto simp: member_origins_def)

lemma set_members_for [simp]: "set (members_for s chunk) = {m \<in> set (wing_members s). wm_mem_key m \<in> set chunk}"
  by (auto simp: members_for_def)

lemma provenance_rows_keys:
  "fst ` set (provenance_rows s chunk) = wm_mem_key ` {m \<in> set (wing_members s). wm_mem_key m \<in> set chunk}"
  by (simp add: provenance_rows_def image_UN member_origins_keys UNION_singleton_eq_range)

lemma provenance_rows_shared: "(k, og) \<in> set (provenance_rows s chunk) \<Longrightarrow> og \<noteq> Private_Origin"
  by (auto simp: provenance_rows_def dest: member_origins_shared)

definition provenance_all :: "'f sync_store \<Rightarrow> string list \<Rightarrow> (string \<times> origin) list" where
  "provenance_all s keys = concat (map (provenance_rows s) (chunks 400 keys))"

lemma provenance_all_keys:
  "fst ` set (provenance_all s keys) = wm_mem_key ` {m \<in> set (wing_members s). wm_mem_key m \<in> set keys}"
proof -
  have "(\<Union>c \<in> set (chunks 400 keys). set c) = set keys"
    using concat_chunks[of 400 keys] by (metis set_concat)
  then show ?thesis
    by (auto simp: provenance_all_def image_UN provenance_rows_keys)
qed

lemma provenance_all_shared: "(k, og) \<in> set (provenance_all s keys) \<Longrightarrow> og \<noteq> Private_Origin"
  by (auto simp: provenance_all_def dest: provenance_rows_shared)

lemma fold_private: "fold (\<lambda>k m. m(k \<mapsto> Private_Origin)) keys m k =
    (if k \<in> set keys then Some Private_Origin else m k)"
  by (induction keys arbitrary: m) auto

lemma provenance_batch_eq:
  "provenance_batch s keys k =
     (if k \<notin> set keys then None
      else fold (\<lambda>(k, v) m. m(k \<mapsto> v)) (provenance_all s keys)
             (\<lambda>k. if k \<in> set keys then Some Private_Origin else None) k)"
proof -
  have base: "fold (\<lambda>k m. m(k \<mapsto> Private_Origin)) keys Map.empty =
      (\<lambda>k. if k \<in> set keys then Some Private_Origin else None)"
    by (rule ext) (simp add: fold_private)
  have "k \<notin> fst ` set (provenance_all s keys)" if "k \<notin> set keys"
    using that by (auto simp: provenance_all_keys)
  from fold_upd_other[OF this] show ?thesis
    by (cases "keys = []")
      (auto simp: provenance_batch_def Let_def base fold_fold_concat provenance_all_def)
qed

lemma provenance_private: "provenance s k = Private_Origin \<longleftrightarrow> (\<forall>m \<in> set (wing_members s). wm_mem_key m \<noteq> k)"
  by (simp add: provenance_def select_first_None[symmetric] split: option.split)

definition wings_of :: "'f sync_store \<Rightarrow> string \<Rightarrow> string set" where
  "wings_of s k = {wm_wing_id m |m. m \<in> set (wing_members s) \<and> wm_mem_key m = k}"

lemma wings_of_filter: "wings_of s k = set (map wm_wing_id (filter (\<lambda>m. wm_mem_key m = k) (wing_members s)))"
  by (auto simp: wings_of_def)

definition listed :: "(string \<rightharpoonup> string list) \<Rightarrow> string \<Rightarrow> string set" where
  "listed out k = set (case out k of None \<Rightarrow> [] | Some ws \<Rightarrow> ws)"

lemma listed_add_wing:
  "listed (add_wing m out) k = listed out k \<union> (if wm_mem_key m = k then {wm_wing_id m} else {})"
  by (auto simp: listed_def add_wing_def split: option.split)

lemma listed_fold: "listed (fold add_wing ms out) k = listed out k \<union> {wm_wing_id m |m. m \<in> set ms \<and> wm_mem_key m = k}"
  by (induction ms arbitrary: out) (auto simp: listed_add_wing)

lemma wings_for_keys_set:
  assumes "k \<in> set keys"
  shows "set (case wings_for_keys s keys k of None \<Rightarrow> [] | Some ws \<Rightarrow> ws) = wings_of s k"
proof -
  have "(\<exists>c \<in> set (chunks 400 keys). k \<in> set c)"
    using concat_chunks[of 400 keys] assms by (metis UN_iff set_concat)
  then have "{wm_wing_id m |m. m \<in> set (concat (map (members_for s) (chunks 400 keys))) \<and> wm_mem_key m = k} = wings_of s k"
    by (auto simp: wings_of_def)
  moreover have "listed Map.empty k = {}" by (simp add: listed_def)
  ultimately have "listed (wings_for_keys s keys) k = wings_of s k"
    by (simp only: wings_for_keys_def fold_fold_concat listed_fold Un_empty_left)
  then show ?thesis by (simp only: listed_def)
qed

text \<open>
  The batched query answers for exactly the keys asked, calls a memory private exactly when the
  single query does, which is when no shared wing names it; the full set of wings it returns beside
  it is exact.
\<close>

lemma provenance_batch_agrees:
  shows "dom (provenance_batch s keys) = set keys \<and>
    (\<forall>k \<in> set keys.
       (provenance_batch s keys k = Some Private_Origin \<longleftrightarrow> provenance s k = Private_Origin) \<and>
       (provenance s k = Private_Origin \<longleftrightarrow> wings_of s k = {}) \<and>
       set (case wings_for_keys s keys k of None \<Rightarrow> [] | Some ws \<Rightarrow> ws) = wings_of s k)"
proof -
  let ?rows = "provenance_all s keys" and ?base = "\<lambda>k. if k \<in> set keys then Some Private_Origin else None"
  have known: "\<exists>og. provenance_batch s keys k = Some og \<and> (og = Private_Origin \<longleftrightarrow> provenance s k = Private_Origin)"
    if k: "k \<in> set keys" for k
  proof (cases "k \<in> fst ` set ?rows")
    case True
    then obtain m where "m \<in> set (wing_members s)" "wm_mem_key m = k" by (auto simp: provenance_all_keys)
    then have "provenance s k \<noteq> Private_Origin" by (auto simp: provenance_private)
    with fold_upd_in[OF True, of ?base] k provenance_all_shared[of k _ s keys] show ?thesis
      by (auto simp: provenance_batch_eq)
  next
    case False
    then have "\<forall>m \<in> set (wing_members s). wm_mem_key m \<noteq> k" using k by (auto simp: provenance_all_keys)
    with fold_upd_other[OF False, of ?base] k show ?thesis
      by (auto simp: provenance_batch_eq provenance_private)
  qed
  have unknown: "provenance_batch s keys k = None" if "k \<notin> set keys" for k
    using that by (simp add: provenance_batch_eq)
  have "k \<in> dom (provenance_batch s keys) \<longleftrightarrow> k \<in> set keys" for k
    using known[of k] unknown[of k] by (cases "k \<in> set keys") auto
  then have "dom (provenance_batch s keys) = set keys" by blast
  moreover have "provenance_batch s keys k = Some Private_Origin \<longleftrightarrow> provenance s k = Private_Origin"
    if "k \<in> set keys" for k
    using known[OF that] by auto
  moreover have "provenance s k = Private_Origin \<longleftrightarrow> wings_of s k = {}" for k
    by (auto simp: provenance_private wings_of_def)
  ultimately show ?thesis by (simp add: wings_for_keys_set)
qed

subsection \<open>Scoped recall\<close>

text \<open>
  \<open>spectral-graph/src/federation_recall.rs\<close>. The hits come from the recall pipeline; a hit is its
  key with the rest of it.
\<close>

datatype realm_scope = All_Realms | Shared_Realms "string list" | Private_Realm

fun admits :: "realm_scope \<Rightarrow> origin \<Rightarrow> bool" where
  "admits All_Realms og = True"
| "admits Private_Realm Private_Origin = True"
| "admits Private_Realm (Shared_Origin w a) = False"
| "admits (Shared_Realms ws) (Shared_Origin w a) = list_ex (\<lambda>x. x = w) ws"
| "admits (Shared_Realms ws) Private_Origin = False"

definition scope_admission ::
    "realm_scope \<Rightarrow> (string \<rightharpoonup> string list) option \<Rightarrow> string \<Rightarrow> origin \<Rightarrow> origin option" where
  "scope_admission scope wings_map key og =
     (case (scope, og) of
        (Shared_Realms wanted, Shared_Origin w a) \<Rightarrow>
          let member_wings = (case wings_map of None \<Rightarrow> []
                | Some m \<Rightarrow> (case m key of None \<Rightarrow> [] | Some ws \<Rightarrow> ws))
          in map_option (\<lambda>w. Shared_Origin w a) (select_first (\<lambda>w. w \<in> set wanted) member_wings)
      | _ \<Rightarrow> if admits scope og then Some og else None)"

definition recall_scoped ::
    "'f sync_store \<Rightarrow> (string \<times> 'h) list \<Rightarrow> realm_scope \<Rightarrow> ((string \<times> 'h) \<times> origin) list" where
  "recall_scoped s hits scope =
     (let keys = map fst hits;
          origins = provenance_batch s keys;
          wings_map = (case scope of Shared_Realms _ \<Rightarrow> Some (wings_for_keys s keys) | _ \<Rightarrow> None)
      in concat (map (\<lambda>hit.
           let og = (case origins (fst hit) of Some x \<Rightarrow> x | None \<Rightarrow> Private_Origin)
           in case scope_admission scope wings_map (fst hit) og of
                Some x \<Rightarrow> [(hit, x)] | None \<Rightarrow> []) hits))"

definition shared_wing_want :: "'f sync_store \<Rightarrow> string \<Rightarrow> string list \<Rightarrow> string list" where
  "shared_wing_want s wing_id remote = missing_locally (enumerate_wing s wing_id) remote"

text \<open>What a scope should admit, stated on the manifests alone.\<close>

fun in_scope :: "'f sync_store \<Rightarrow> realm_scope \<Rightarrow> string \<Rightarrow> bool" where
  "in_scope s All_Realms k = True"
| "in_scope s Private_Realm k = (wings_of s k = {})"
| "in_scope s (Shared_Realms ws) k = (wings_of s k \<inter> set ws \<noteq> {})"

fun origin_ok :: "'f sync_store \<Rightarrow> realm_scope \<Rightarrow> string \<Rightarrow> origin \<Rightarrow> bool" where
  "origin_ok s scope k Private_Origin = (wings_of s k = {})"
| "origin_ok s (Shared_Realms ws) k (Shared_Origin w a) = (w \<in> wings_of s k \<and> w \<in> set ws)"
| "origin_ok s scope k (Shared_Origin w a) = (wings_of s k \<noteq> {})"

lemma scope_admission_spec:
  fixes s :: "'f sync_store" and scope :: realm_scope
  assumes k: "k \<in> set keys"
  defines "adm \<equiv> scope_admission scope
      (case scope of Shared_Realms _ \<Rightarrow> Some (wings_for_keys s keys) | _ \<Rightarrow> None) k
      (case provenance_batch s keys k of Some x \<Rightarrow> x | None \<Rightarrow> Private_Origin)"
  shows "(adm \<noteq> None \<longleftrightarrow> in_scope s scope k) \<and> (\<forall>og. adm = Some og \<longrightarrow> origin_ok s scope k og)"
proof -
  obtain og where og: "provenance_batch s keys k = Some og"
    using provenance_batch_agrees[of s keys] k by blast
  have priv: "og = Private_Origin \<longleftrightarrow> wings_of s k = {}"
    using provenance_batch_agrees[of s keys] k og by auto
  have ws: "set (case wings_for_keys s keys k of None \<Rightarrow> [] | Some ws \<Rightarrow> ws) = wings_of s k"
    using k by (rule wings_for_keys_set)
  show ?thesis
  proof (cases scope)
    case All_Realms
    then show ?thesis using og priv by (cases og) (auto simp: adm_def scope_admission_def)
  next
    case Private_Realm
    then show ?thesis using og priv by (cases og) (auto simp: adm_def scope_admission_def)
  next
    case (Shared_Realms wanted)
    show ?thesis
    proof (cases og)
      case Private_Origin
      then show ?thesis using og priv Shared_Realms by (auto simp: adm_def scope_admission_def)
    next
      case (Shared_Origin w a)
      let ?ws = "case wings_for_keys s keys k of None \<Rightarrow> [] | Some ws \<Rightarrow> ws"
      have adm: "adm = map_option (\<lambda>w. Shared_Origin w a) (select_first (\<lambda>w. w \<in> set wanted) ?ws)"
        using og Shared_Realms Shared_Origin by (simp add: adm_def scope_admission_def Let_def)
      show ?thesis
      proof (cases "select_first (\<lambda>w. w \<in> set wanted) ?ws")
        case None
        then have "set ?ws \<inter> set wanted = {}" by (auto simp only: select_first_None)
        then have "\<not> in_scope s scope k" unfolding ws using Shared_Realms by simp
        then show ?thesis by (simp only: adm None option.map) simp
      next
        case (Some x)
        then have x: "x \<in> set ?ws \<and> x \<in> set wanted" by (rule select_first_Some)
        then have "x \<in> wings_of s k \<inter> set wanted" using ws by blast
        with Some show ?thesis using adm Shared_Realms by auto
      qed
    qed
  qed
qed

lemma fst_admitted:
  "map fst (concat (map (\<lambda>h. case A h of Some x \<Rightarrow> [(h, x)] | None \<Rightarrow> []) hs)) = filter (\<lambda>h. A h \<noteq> None) hs"
  by (induction hs) (auto split: option.split)

text \<open>
  A scoped recall returns, in the order of the pipeline, exactly the hits of its scope: all of
  them, those no shared wing names, or those some named wing contains, even when the memory is
  shared into several wings; and the origin it reports is true, naming a requested wing.
\<close>

theorem recall_scoped_exact:
  "map fst (recall_scoped s hits scope) = filter (\<lambda>h. in_scope s scope (fst h)) hits \<and>
   (\<forall>(h, og) \<in> set (recall_scoped s hits scope). origin_ok s scope (fst h) og)"
proof -
  let ?adm = "\<lambda>k. scope_admission scope
      (case scope of Shared_Realms _ \<Rightarrow> Some (wings_for_keys s (map fst hits)) | _ \<Rightarrow> None) k
      (case provenance_batch s (map fst hits) k of Some x \<Rightarrow> x | None \<Rightarrow> Private_Origin)"
  have spec: "(?adm (fst h) \<noteq> None \<longleftrightarrow> in_scope s scope (fst h)) \<and>
      (\<forall>og. ?adm (fst h) = Some og \<longrightarrow> origin_ok s scope (fst h) og)" if "h \<in> set hits" for h
    by (rule scope_admission_spec) (use that in simp)
  have rs: "recall_scoped s hits scope =
      concat (map (\<lambda>h. case ?adm (fst h) of Some x \<Rightarrow> [(h, x)] | None \<Rightarrow> []) hits)"
    by (simp add: recall_scoped_def Let_def)
  have "map fst (recall_scoped s hits scope) = filter (\<lambda>h. ?adm (fst h) \<noteq> None) hits"
    unfolding rs by (rule fst_admitted)
  also have "\<dots> = filter (\<lambda>h. in_scope s scope (fst h)) hits"
    using spec by (intro filter_cong) auto
  finally show ?thesis
    using spec by (auto simp: rs split: option.splits)
qed

lemma recall_scoped_exact_witness:
  "map fst (recall_scoped toy_reshared [(''mine'', ()), (local_key toy_object toy_hash, ())] (Shared_Realms [''v''])) =
     [(local_key toy_object toy_hash, ())]"
proof -
  have "wings_of toy_reshared ''mine'' = {}"
    by (auto simp: wings_of_def toy_reshared_tables local_key_def author_short_def toy_object_def)
  moreover have "wings_of toy_reshared (local_key toy_object toy_hash) = {''w'', ''v''}"
    by (simp add: wings_of_filter toy_reshared_tables manifest_row_def insert_commute)
  ultimately show ?thesis
    using recall_scoped_exact[of toy_reshared "[(''mine'', ()), (local_key toy_object toy_hash, ())]"
      "Shared_Realms [''v'']", THEN conjunct1] by simp
qed

end
