(* ===== verification/Memory_Tables.thy ===== *)
theory Memory_Tables
  imports Prelude Identity "HOL-Library.Multiset"
begin

text \<open>
  The tables of the memory store, \<open>spectral-ingest/src/sqlite_store.rs\<close> and \<open>lib.rs\<close>: one record per
  table, the store as the record of its tables and of the wing read cache, and the statements that
  several operations share.

  Floating-point columns have the type \<open>'f\<close>; their arithmetic and order, the content hash, the JSON
  reader and SQLite's \<open>datetime()\<close> are the fields of \<open>db_env\<close>. \<open>now\<close> is \<open>datetime('now')\<close> at the
  statement. The FTS index is a shadow of \<open>memories\<close> that triggers keep; it holds nothing of its own.
\<close>

datatype compaction_tier = Raw | Hourly_Rollup | Daily_Rollup | Weekly_Rollup

fun tier_as_str :: "compaction_tier \<Rightarrow> string" where
  "tier_as_str Raw = ''raw''"
| "tier_as_str Hourly_Rollup = ''hourly_rollup''"
| "tier_as_str Daily_Rollup = ''daily_rollup''"
| "tier_as_str Weekly_Rollup = ''weekly_rollup''"

definition tier_parse :: "string \<Rightarrow> compaction_tier option" where
  "tier_parse s =
     (if s = ''raw'' then Some Raw else if s = ''hourly_rollup'' then Some Hourly_Rollup
      else if s = ''daily_rollup'' then Some Daily_Rollup
      else if s = ''weekly_rollup'' then Some Weekly_Rollup else None)"

lemma tier_parse_as_str [simp]: "tier_parse (tier_as_str t) = Some t"
  by (cases t) (simp_all add: tier_parse_def)

text \<open>\<open>Memory\<close>, what callers pass and get.\<close>

record 'f memory =
  me_id :: string
  me_key :: string
  me_content :: string
  me_wing :: "string option"
  me_hall :: "string option"
  me_signal_score :: 'f
  me_visibility :: string
  me_source :: "string option"
  me_device_id :: "byte list option"
  me_confidence :: 'f
  me_created_at :: "string option"
  me_last_reinforced_at :: "string option"
  me_episode_id :: "string option"
  me_compaction_tier :: "compaction_tier option"
  me_declarative_density :: "'f option"
  me_description :: "string option"
  me_description_generated_at :: "string option"
  me_content_hash :: "string option"
  me_source_brain_id :: "byte list option"
  me_signature :: "byte list option"

text \<open>A row of \<open>memories\<close>.\<close>

record 'f memory_row =
  row_id :: string
  row_key :: string
  row_content :: string
  row_category :: string
  row_wing :: "string option"
  row_hall :: "string option"
  row_signal_score :: 'f
  row_visibility :: string
  row_created_at :: string
  row_updated_at :: string
  row_source :: "string option"
  row_device_id :: "byte list option"
  row_confidence :: 'f
  row_last_reinforced_at :: "string option"
  row_episode_id :: "string option"
  row_compaction_tier :: "string option"
  row_declarative_density :: "'f option"
  row_description :: "string option"
  row_description_generated_at :: "string option"
  row_valid_from :: "string option"
  row_valid_to :: string
  row_content_hash :: "string option"
  row_source_brain_id :: "byte list option"
  row_signature :: "byte list option"

record 'f memory_hit =
  hit_id :: string
  hit_key :: string
  hit_content :: string
  hit_wing :: "string option"
  hit_hall :: "string option"
  hit_signal_score :: 'f
  hit_visibility :: string
  hit_hits :: nat
  hit_source :: "string option"
  hit_device_id :: "byte list option"
  hit_confidence :: 'f
  hit_created_at :: "string option"
  hit_last_reinforced_at :: "string option"
  hit_episode_id :: "string option"
  hit_declarative_density :: "'f option"
  hit_description :: "string option"
  hit_source_brain_id :: "byte list option"
  hit_signature :: "byte list option"

text \<open>\<open>row.get(10).ok()\<close> on a nullable column reads NULL as absent.\<close>

definition opt_id32 :: "byte list option \<Rightarrow> byte list option" where
  "opt_id32 b = (case b of Some v \<Rightarrow> if length v = 32 then Some v else None | None \<Rightarrow> None)"

definition memory_from_row :: "'f memory_row \<Rightarrow> 'f memory" where
  "memory_from_row r =
     \<lparr>me_id = row_id r, me_key = row_key r, me_content = row_content r, me_wing = row_wing r,
      me_hall = row_hall r, me_signal_score = row_signal_score r, me_visibility = row_visibility r,
      me_source = row_source r, me_device_id = opt_id32 (row_device_id r),
      me_confidence = row_confidence r, me_created_at = Some (row_created_at r),
      me_last_reinforced_at = row_last_reinforced_at r, me_episode_id = row_episode_id r,
      me_compaction_tier = Option.bind (row_compaction_tier r) tier_parse,
      me_declarative_density = row_declarative_density r, me_description = row_description r,
      me_description_generated_at = row_description_generated_at r,
      me_content_hash = row_content_hash r, me_source_brain_id = opt_id32 (row_source_brain_id r),
      me_signature = row_signature r\<rparr>"

definition memory_hit_from_row :: "'f memory_row \<Rightarrow> nat \<Rightarrow> 'f memory_hit" where
  "memory_hit_from_row r hits =
     \<lparr>hit_id = row_id r, hit_key = row_key r, hit_content = row_content r, hit_wing = row_wing r,
      hit_hall = row_hall r, hit_signal_score = row_signal_score r, hit_visibility = row_visibility r,
      hit_hits = hits, hit_source = row_source r, hit_device_id = opt_id32 (row_device_id r),
      hit_confidence = row_confidence r, hit_created_at = Some (row_created_at r),
      hit_last_reinforced_at = row_last_reinforced_at r, hit_episode_id = row_episode_id r,
      hit_declarative_density = row_declarative_density r, hit_description = row_description r,
      hit_source_brain_id = opt_id32 (row_source_brain_id r), hit_signature = row_signature r\<rparr>"

subsection \<open>The other tables\<close>

record fingerprint =
  fp_id :: string
  fp_hash :: string
  fp_anchor_memory_id :: string
  fp_target_memory_id :: string
  fp_wing :: string
  fp_anchor_hall :: string
  fp_target_hall :: string
  fp_time_delta_bucket :: string

record 'f spectrogram_row =
  sg_memory_id :: string
  sg_entity_density :: 'f
  sg_action_type :: string
  sg_decision_polarity :: 'f
  sg_causal_depth :: 'f
  sg_emotional_valence :: 'f
  sg_temporal_specificity :: 'f
  sg_novelty :: 'f
  sg_peak_dimensions :: string

record episode_row =
  ep_id :: string
  ep_started_at :: string
  ep_ended_at :: string
  ep_memory_count :: nat
  ep_wing :: string
  ep_summary_preview :: "string option"

record annotation_row =
  an_id :: string
  an_memory_id :: string
  an_description :: string
  an_who :: string
  an_why :: string
  an_where :: "string option"
  an_when :: string
  an_how :: string
  an_created_at :: string

record consolidation_edge =
  ce_source_key :: string
  ce_target_key :: string
  ce_consolidated_at :: string

record entity_field_row =
  ef_entity_id :: string
  ef_field_name :: string
  ef_value :: string
  ef_source :: string
  ef_source_url :: "string option"
  ef_updated_at :: string

record retrieval_event =
  ev_query_hash :: string
  ev_timestamp :: string
  ev_memory_ids_json :: string
  ev_method :: string
  ev_wing :: "string option"
  ev_question_type :: "string option"
  ev_session_id :: "string option"

record pair_row =
  cp_memory_id_a :: string
  cp_memory_id_b :: string
  cp_co_count :: nat
  cp_last_updated :: string

record session_row =
  sn_memory_id :: string
  sn_session_id :: string

record turn_event =
  tv_occurrence_id :: string
  tv_delivery_digest :: string
  tv_query_hash :: "string option"
  tv_session_id :: "string option"
  tv_policy :: string
  tv_delivered_at :: string
  tv_committed_at :: "string option"
  tv_voided_at :: "string option"

record turn_member =
  tm_occurrence_id :: string
  tm_rank :: nat
  tm_memory_id :: string
  tm_memory_key :: string
  tm_outcome :: string

record 'f db =
  db_memories :: "'f memory_row list"
  db_fingerprints :: "fingerprint list"
  db_spectrograms :: "'f spectrogram_row list"
  db_episodes :: "episode_row list"
  db_annotations :: "annotation_row list"
  db_edges :: "consolidation_edge list"
  db_entity_fields :: "entity_field_row list"
  db_events :: "retrieval_event list"
  db_pairs :: "pair_row list"
  db_sessions :: "session_row list"
  db_turns :: "turn_event list"
  db_members :: "turn_member list"
  db_wing_cache :: "string \<rightharpoonup> 'f memory_hit list"

definition empty_db :: "'f db" where
  "empty_db =
     \<lparr>db_memories = [], db_fingerprints = [], db_spectrograms = [], db_episodes = [],
      db_annotations = [], db_edges = [], db_entity_fields = [], db_events = [], db_pairs = [],
      db_sessions = [], db_turns = [], db_members = [], db_wing_cache = (\<lambda>w. None)\<rparr>"

record 'f db_env =
  dv_hash :: "string \<Rightarrow> string"
  dv_sha16 :: "string \<Rightarrow> string"
  dv_add :: "'f \<Rightarrow> 'f \<Rightarrow> 'f"
  dv_min :: "'f \<Rightarrow> 'f \<Rightarrow> 'f"
  dv_le :: "'f \<Rightarrow> 'f \<Rightarrow> bool"
  dv_zero :: 'f
  dv_sum :: "'f list \<Rightarrow> 'f"
  dv_one :: 'f
  dv_ids_of_json :: "string \<Rightarrow> string list option"
  dv_json_of_ids :: "string list \<Rightarrow> string"
  dv_datetime :: "string \<Rightarrow> string option"

text \<open>Failures of a statement and of the operations.\<close>

datatype db_error =
    Unique_Constraint string
  | Foreign_Key string
  | Memory_Not_Found string
  | Target_Missing string
  | Source_Missing string
  | Turn_Voided string
  | Turn_Committed string
  | Unknown_Turn string

subsection \<open>Statements that operations share\<close>

definition has_memory :: "'f db \<Rightarrow> string \<Rightarrow> bool" where
  "has_memory d i \<longleftrightarrow> (\<exists>r \<in> set (db_memories d). row_id r = i)"

definition has_key :: "'f db \<Rightarrow> string \<Rightarrow> bool" where
  "has_key d k \<longleftrightarrow> (\<exists>r \<in> set (db_memories d). row_key r = k)"

definition find_key :: "'f db \<Rightarrow> string \<Rightarrow> 'f memory_row option" where
  "find_key d k = select_first (\<lambda>r. row_key r = k) (db_memories d)"

text \<open>
  \<open>ORDER BY\<close> and the stable \<open>sort_by\<close>: \<open>le\<close> is the order of the keys; rows with equal keys stay in table order. It
  stands for the code's sorts where \<open>le\<close> is a total preorder on the rows (\<open>row_order\<close> below). On others,
  such as a comparison of \<open>f64\<close> scores with a NaN among them, \<open>order_by\<close> still returns a permutation while
  \<open>sort_by\<close> may return any permutation or panic: that a ranking returns is shown only up to this, and what the theorems
  say of the order of scores assumes \<open>linear_floats\<close>.
\<close>

fun insert_row :: "('r \<Rightarrow> 'r \<Rightarrow> bool) \<Rightarrow> 'r \<Rightarrow> 'r list \<Rightarrow> 'r list" where
  "insert_row le x [] = [x]"
| "insert_row le x (y # ys) = (if le x y then x # y # ys else y # insert_row le x ys)"

definition order_by :: "('r \<Rightarrow> 'r \<Rightarrow> bool) \<Rightarrow> 'r list \<Rightarrow> 'r list" where
  "order_by le t = foldr (insert_row le) t []"

lemma set_insert_row [simp]: "set (insert_row le x ys) = insert x (set ys)"
  by (induction ys) auto

lemma set_order_by [simp]: "set (order_by le t) = set t"
  unfolding order_by_def by (induction t) auto

lemma length_insert_row [simp]: "length (insert_row le x ys) = Suc (length ys)"
  by (induction ys) auto

lemma length_order_by [simp]: "length (order_by le t) = length t"
  unfolding order_by_def by (induction t) auto

lemma insert_row_map:
  "(\<And>x y. le (g x) (g y) = le x y) \<Longrightarrow> insert_row le (g x) (map g ys) = map g (insert_row le x ys)"
  by (induction ys) simp_all

lemma order_by_map: "(\<And>x y. le (g x) (g y) = le x y) \<Longrightarrow> order_by le (map g t) = map g (order_by le t)"
  unfolding order_by_def by (induction t) (simp_all add: insert_row_map)

lemma mset_insert_row [simp]: "mset (insert_row le x ys) = add_mset x (mset ys)"
  by (induction ys) auto

lemma mset_order_by [simp]: "mset (order_by le t) = mset t"
  unfolding order_by_def by (induction t) simp_all

text \<open>What a sort promises when its comparison is a total preorder.\<close>

locale row_order =
  fixes le :: "'r \<Rightarrow> 'r \<Rightarrow> bool"
  assumes total: "le x y \<or> le y x"
    and trans: "le x y \<Longrightarrow> le y z \<Longrightarrow> le x z"
begin

lemma insert_row_sorted: "sorted_wrt le ys \<Longrightarrow> sorted_wrt le (insert_row le x ys)"
proof (induction ys)
  case (Cons y ys)
  then show ?case using total trans by auto
qed simp

lemma order_by_sorted: "sorted_wrt le (order_by le t)"
  unfolding order_by_def by (induction t) (simp_all add: insert_row_sorted)

lemma order_by_id: "sorted_wrt le t \<Longrightarrow> order_by le t = t"
proof (induction t)
  case (Cons x t)
  then have "order_by le t = t" by simp
  moreover have "insert_row le x t = x # t" using Cons.prems by (cases t) auto
  ultimately show ?case by (simp add: order_by_def)
qed (simp add: order_by_def)

lemma order_by_idem [simp]: "order_by le (order_by le t) = order_by le t"
  by (rule order_by_id) (rule order_by_sorted)

lemma insert_row_front: "\<forall>y \<in> set ys. le x y \<Longrightarrow> insert_row le x ys = x # ys"
  by (cases ys) auto

lemma filter_insert_row:
  "sorted_wrt le ys \<Longrightarrow>
     filter P (insert_row le x ys) = (if P x then insert_row le x (filter P ys) else filter P ys)"
proof (induction ys)
  case (Cons y ys)
  show ?case
  proof (cases "le x y")
    case True
    then have "\<forall>z \<in> set (filter P (y # ys)). le x z" using Cons.prems trans by auto
    then have "insert_row le x (filter P (y # ys)) = x # filter P (y # ys)" by (rule insert_row_front)
    then show ?thesis using True by simp
  next
    case False
    then show ?thesis using Cons by auto
  qed
qed simp

lemma filter_order_by: "filter P (order_by le t) = order_by le (filter P t)"
proof (induction t)
  case (Cons x t)
  have "filter P (order_by le (x # t)) = filter P (insert_row le x (order_by le t))" by (simp add: order_by_def)
  also have "\<dots> = (if P x then insert_row le x (order_by le (filter P t)) else order_by le (filter P t))"
    by (simp add: filter_insert_row order_by_sorted Cons.IH)
  also have "\<dots> = order_by le (filter P (x # t))" by (simp add: order_by_def)
  finally show ?case .
qed (simp add: order_by_def)

end

text \<open>\<open>ORDER BY signal_score DESC, id\<close>.\<close>

definition by_signal :: "'f db_env \<Rightarrow> 'f memory_row \<Rightarrow> 'f memory_row \<Rightarrow> bool" where
  "by_signal E r q \<longleftrightarrow>
     (if \<not> dv_le E (row_signal_score r) (row_signal_score q) then True
      else if \<not> dv_le E (row_signal_score q) (row_signal_score r) then False
      else row_id r \<le> row_id q)"

text \<open>
  \<open>DELETE FROM memories WHERE P\<close> with \<open>PRAGMA foreign_keys = ON\<close>: every child table declared
  \<open>ON DELETE CASCADE\<close> loses the rows of the deleted memories.
\<close>

definition delete_memories :: "('f memory_row \<Rightarrow> bool) \<Rightarrow> 'f db \<Rightarrow> 'f db" where
  "delete_memories P d =
     (let gone = filter P (db_memories d);
          ids = row_id ` set gone;
          keys = row_key ` set gone
      in d\<lparr>db_memories := delete_where P (db_memories d),
           db_fingerprints := delete_where
             (\<lambda>f. fp_anchor_memory_id f \<in> ids \<or> fp_target_memory_id f \<in> ids) (db_fingerprints d),
           db_spectrograms := delete_where (\<lambda>s. sg_memory_id s \<in> ids) (db_spectrograms d),
           db_annotations := delete_where (\<lambda>a. an_memory_id a \<in> ids) (db_annotations d),
           db_edges := delete_where (\<lambda>e. ce_source_key e \<in> keys) (db_edges d),
           db_sessions := delete_where (\<lambda>s. sn_memory_id s \<in> ids) (db_sessions d),
           db_members := delete_where (\<lambda>m. tm_memory_id m \<in> ids) (db_members d)\<rparr>)"

definition update_memories :: "('f memory_row \<Rightarrow> bool) \<Rightarrow> ('f memory_row \<Rightarrow> 'f memory_row) \<Rightarrow> 'f db \<Rightarrow> 'f db" where
  "update_memories P f d = d\<lparr>db_memories := update_where P f (db_memories d)\<rparr>"

subsection \<open>The wing read cache\<close>

definition wing_cache_pop :: "string \<Rightarrow> 'f db \<Rightarrow> 'f db" where
  "wing_cache_pop w d = d\<lparr>db_wing_cache := (db_wing_cache d)(w := None)\<rparr>"

definition wing_cache_pop_opt :: "string option \<Rightarrow> 'f db \<Rightarrow> 'f db" where
  "wing_cache_pop_opt w d = (case w of Some x \<Rightarrow> wing_cache_pop x d | None \<Rightarrow> d)"

definition wing_cache_clear :: "'f db \<Rightarrow> 'f db" where
  "wing_cache_clear d = d\<lparr>db_wing_cache := (\<lambda>w. None)\<rparr>"

text \<open>What \<open>wing_search\<close> reads when the wing is not cached.\<close>

definition wing_hits :: "'f db_env \<Rightarrow> 'f db \<Rightarrow> string \<Rightarrow> 'f memory_hit list" where
  "wing_hits E d w =
     map (\<lambda>r. memory_hit_from_row r 0)
       (order_by (by_signal E) (filter (\<lambda>r. row_wing r = Some w) (db_memories d)))"

end
