(* ===== verification/Memory_Write.thy ===== *)
theory Memory_Write
  imports Memory_Tables "HOL-Library.Option_ord"
begin

text \<open>
  The operations of \<open>spectral-ingest/src/sqlite_store.rs\<close> on the memories themselves: writes with
  content deduplication, field updates, reinforcement, retention, validity windows, the cached wing
  search and the listings. An operation returns the store it leaves and its result; a transaction
  that fails leaves the store as it was.
\<close>

definition VALID_TO_SENTINEL :: string where
  "VALID_TO_SENTINEL = ''9999-12-31T23:59:59.999Z''"

datatype write_outcome = Inserted | No_Op | Content_Updated

subsection \<open>Writing a memory\<close>

definition new_row :: "'f memory \<Rightarrow> string \<Rightarrow> string \<Rightarrow> 'f memory_row" where
  "new_row m now hash =
     \<lparr>row_id = me_id m, row_key = me_key m, row_content = me_content m, row_category = ''core'',
      row_wing = me_wing m, row_hall = me_hall m, row_signal_score = me_signal_score m,
      row_visibility = me_visibility m,
      row_created_at = (case me_created_at m of Some c \<Rightarrow> c | None \<Rightarrow> now), row_updated_at = now,
      row_source = me_source m, row_device_id = me_device_id m, row_confidence = me_confidence m,
      row_last_reinforced_at = None, row_episode_id = None, row_compaction_tier = None,
      row_declarative_density = None, row_description = None, row_description_generated_at = None,
      row_valid_from = None, row_valid_to = VALID_TO_SENTINEL, row_content_hash = Some hash,
      row_source_brain_id = me_source_brain_id m, row_signature = me_signature m\<rparr>"

definition insert_new_memory :: "'f memory \<Rightarrow> string \<Rightarrow> string \<Rightarrow> 'f db \<Rightarrow> db_error + 'f db" where
  "insert_new_memory m now hash d =
     (if has_memory d (me_id m) then Inl (Unique_Constraint (me_id m))
      else if has_key d (me_key m) then Inl (Unique_Constraint (me_key m))
      else
        let d1 = d\<lparr>db_memories := db_memories d @ [new_row m now hash]\<rparr>;
            d2 = (case me_episode_id m of None \<Rightarrow> d1
                  | Some ep \<Rightarrow> update_memories (\<lambda>r. row_id r = me_id m) (\<lambda>r. r\<lparr>row_episode_id := Some ep\<rparr>) d1);
            d3 = (case me_compaction_tier m of None \<Rightarrow> d2
                  | Some t \<Rightarrow> update_memories (\<lambda>r. row_id r = me_id m)
                      (\<lambda>r. r\<lparr>row_compaction_tier := Some (tier_as_str t)\<rparr>) d2)
        in Inr (case me_declarative_density m of None \<Rightarrow> d3
                | Some dd \<Rightarrow> update_memories (\<lambda>r. row_id r = me_id m)
                    (\<lambda>r. r\<lparr>row_declarative_density := Some dd\<rparr>) d3))"

text \<open>\<open>INSERT OR IGNORE\<close> resolves a duplicate key; a missing parent row is still an error.\<close>

definition insert_fingerprint :: "fingerprint \<Rightarrow> 'f db \<Rightarrow> db_error + 'f db" where
  "insert_fingerprint f d =
     (if \<exists>x \<in> set (db_fingerprints d). fp_id x = fp_id f then Inr d
      else if \<not> has_memory d (fp_anchor_memory_id f) then Inl (Foreign_Key (fp_anchor_memory_id f))
      else if \<not> has_memory d (fp_target_memory_id f) then Inl (Foreign_Key (fp_target_memory_id f))
      else Inr (d\<lparr>db_fingerprints := db_fingerprints d @ [f]\<rparr>))"

fun insert_fingerprints :: "fingerprint list \<Rightarrow> 'f db \<Rightarrow> db_error + 'f db" where
  "insert_fingerprints [] d = Inr d"
| "insert_fingerprints (f # fs) d =
     (case insert_fingerprint f d of Inl e \<Rightarrow> Inl e | Inr d1 \<Rightarrow> insert_fingerprints fs d1)"

definition delete_fingerprints_of :: "string \<Rightarrow> 'f db \<Rightarrow> 'f db" where
  "delete_fingerprints_of i d =
     d\<lparr>db_fingerprints := delete_where
         (\<lambda>f. fp_anchor_memory_id f = i \<or> fp_target_memory_id f = i) (db_fingerprints d)\<rparr>"

definition write_memory_in_tx ::
    "'f db_env \<Rightarrow> string \<Rightarrow> 'f memory \<Rightarrow> fingerprint list \<Rightarrow> 'f db \<Rightarrow>
      db_error + ('f db \<times> write_outcome \<times> string option)" where
  "write_memory_in_tx E now m fps d =
     (let incoming_hash = dv_hash E (me_content m)
      in case find_key d (me_key m) of
           None \<Rightarrow>
             (case insert_new_memory m now incoming_hash d of
                Inl e \<Rightarrow> Inl e
              | Inr d1 \<Rightarrow> map_sum (\<lambda>e. e) (\<lambda>d2. (d2, Inserted, None)) (insert_fingerprints fps d1))
         | Some r \<Rightarrow>
             let effective = (case row_content_hash r of Some h \<Rightarrow> h | None \<Rightarrow> dv_hash E (row_content r))
             in if effective = incoming_hash
                then Inr (update_memories (\<lambda>q. row_key q = me_key m \<and> row_content_hash q = None)
                            (\<lambda>q. q\<lparr>row_content_hash := Some incoming_hash\<rparr>) d, No_Op, row_wing r)
                else
                  let d1 = update_memories (\<lambda>q. row_key q = me_key m)
                        (\<lambda>q. q\<lparr>row_content := me_content m, row_content_hash := Some incoming_hash,
                               row_updated_at := now\<rparr>) d;
                      d2 = delete_fingerprints_of (row_id r) d1
                  in map_sum (\<lambda>e. e) (\<lambda>d3. (d3, Content_Updated, row_wing r)) (insert_fingerprints fps d2))"

definition write_memory ::
    "'f db_env \<Rightarrow> string \<Rightarrow> 'f memory \<Rightarrow> fingerprint list \<Rightarrow> 'f db \<Rightarrow> 'f db \<times> (db_error + write_outcome)" where
  "write_memory E now m fps d =
     (case write_memory_in_tx E now m fps d of
        Inl e \<Rightarrow> (d, Inl e)
      | Inr (d1, outcome, stored_wing) \<Rightarrow>
          (if outcome = No_Op then d1 else wing_cache_pop_opt stored_wing (wing_cache_pop_opt (me_wing m) d1),
           Inr outcome))"

fun write_items ::
    "'f db_env \<Rightarrow> string \<Rightarrow> ('f memory \<times> fingerprint list) list \<Rightarrow> 'f db \<Rightarrow>
      db_error + ('f db \<times> write_outcome list \<times> string list)" where
  "write_items E now [] d = Inr (d, [], [])"
| "write_items E now ((m, fps) # items) d =
     (case write_memory_in_tx E now m fps d of
        Inl e \<Rightarrow> Inl e
      | Inr (d1, outcome, stored_wing) \<Rightarrow>
          (case write_items E now items d1 of
             Inl e \<Rightarrow> Inl e
           | Inr (d2, outcomes, wings) \<Rightarrow>
               Inr (d2, outcome # outcomes,
                    (if outcome = No_Op then []
                     else (case me_wing m of Some w \<Rightarrow> [w] | None \<Rightarrow> []) @
                          (case stored_wing of Some w \<Rightarrow> [w] | None \<Rightarrow> [])) @ wings)))"

definition write_batch ::
    "'f db_env \<Rightarrow> string \<Rightarrow> ('f memory \<times> fingerprint list) list \<Rightarrow> 'f db \<Rightarrow>
      'f db \<times> (db_error + write_outcome list)" where
  "write_batch E now items d =
     (case write_items E now items d of
        Inl e \<Rightarrow> (d, Inl e)
      | Inr (d1, outcomes, wings) \<Rightarrow>
          (fold wing_cache_pop (remdups_adj (sort wings)) d1, Inr outcomes))"

subsection \<open>Updating fields\<close>

definition set_wing :: "string \<Rightarrow> string \<Rightarrow> 'f db \<Rightarrow> 'f db \<times> bool" where
  "set_wing key wing d =
     (wing_cache_clear (update_memories (\<lambda>r. row_key r = key) (\<lambda>r. r\<lparr>row_wing := Some wing\<rparr>) d),
      count_where (\<lambda>r. row_key r = key) (db_memories d) > 0)"

definition set_description :: "string \<Rightarrow> string \<Rightarrow> string \<Rightarrow> 'f db \<Rightarrow> 'f db \<times> (db_error + unit)" where
  "set_description now i description d =
     (if count_where (\<lambda>r. row_id r = i) (db_memories d) = 0 then (d, Inl (Memory_Not_Found i))
      else (wing_cache_clear (update_memories (\<lambda>r. row_id r = i)
              (\<lambda>r. r\<lparr>row_description := Some description, row_description_generated_at := Some now\<rparr>) d),
            Inr ()))"

definition set_declarative_density :: "string \<Rightarrow> 'f \<Rightarrow> 'f db \<Rightarrow> 'f db" where
  "set_declarative_density memory_id density d =
     wing_cache_clear (update_memories (\<lambda>r. row_id r = memory_id)
       (\<lambda>r. r\<lparr>row_declarative_density := Some density\<rparr>) d)"

definition set_compaction_tier :: "string \<Rightarrow> compaction_tier \<Rightarrow> 'f db \<Rightarrow> 'f db" where
  "set_compaction_tier memory_id tier d =
     wing_cache_clear (update_memories (\<lambda>r. row_id r = memory_id)
       (\<lambda>r. r\<lparr>row_compaction_tier := Some (tier_as_str tier)\<rparr>) d)"

definition set_signature :: "string \<Rightarrow> byte list \<Rightarrow> byte list \<Rightarrow> 'f db \<Rightarrow> 'f db \<times> nat" where
  "set_signature memory_id brain sig d =
     (let n = count_where (\<lambda>r. row_id r = memory_id) (db_memories d);
          d1 = update_memories (\<lambda>r. row_id r = memory_id)
                 (\<lambda>r. r\<lparr>row_source_brain_id := Some brain, row_signature := Some sig\<rparr>) d
      in (if n > 0 then wing_cache_clear d1 else d1, n))"

definition backfill_content_hashes :: "'f db_env \<Rightarrow> 'f db \<Rightarrow> 'f db \<times> nat" where
  "backfill_content_hashes E d =
     (let rows = map (\<lambda>r. (row_id r, row_content r)) (filter (\<lambda>r. row_content_hash r = None) (db_memories d))
      in (fold (\<lambda>(i, content). update_memories (\<lambda>r. row_id r = i)
                  (\<lambda>r. r\<lparr>row_content_hash := Some (dv_hash E content)\<rparr>)) rows d, length rows))"

subsection \<open>Halls and the fingerprints that hash them\<close>

datatype time_bucket = Same_Day | Same_Week | Same_Month | Older | Unknown_Bucket

fun bucket_as_str :: "time_bucket \<Rightarrow> string" where
  "bucket_as_str Same_Day = ''same_day''"
| "bucket_as_str Same_Week = ''same_week''"
| "bucket_as_str Same_Month = ''same_month''"
| "bucket_as_str Older = ''older''"
| "bucket_as_str Unknown_Bucket = ''unknown''"

definition bucket_parse :: "string \<Rightarrow> time_bucket option" where
  "bucket_parse s =
     (if s = ''same_day'' then Some Same_Day else if s = ''same_week'' then Some Same_Week
      else if s = ''same_month'' then Some Same_Month else if s = ''older'' then Some Older
      else if s = ''unknown'' then Some Unknown_Bucket else None)"

lemma bucket_parse_as_str [simp]: "bucket_parse (bucket_as_str b) = Some b"
  by (cases b) (simp_all add: bucket_parse_def)

definition make_fingerprint_hash ::
    "'f db_env \<Rightarrow> string \<Rightarrow> string \<Rightarrow> string \<Rightarrow> time_bucket \<Rightarrow> string" where
  "make_fingerprint_hash E anchor_hall target_hall wing bucket =
     dv_sha16 E (anchor_hall @ ''|'' @ target_hall @ ''|'' @ wing @ ''|'' @ bucket_as_str bucket)"

definition rehash :: "'f db_env \<Rightarrow> string \<Rightarrow> string \<Rightarrow> fingerprint \<Rightarrow> fingerprint" where
  "rehash E i hall f =
     (let joined = fp_wing f @ ''|'' @ fp_time_delta_bucket f;
          (wing, bucket_s) = (case rsplit_once (CHR ''|'') joined of Some p \<Rightarrow> p | None \<Rightarrow> (joined, ''unknown''));
          bucket = (case bucket_parse bucket_s of Some b \<Rightarrow> b | None \<Rightarrow> Unknown_Bucket);
          (new_anchor, new_target) =
            (if fp_anchor_memory_id f = i then (hall, fp_target_hall f) else (fp_anchor_hall f, hall))
      in f\<lparr>fp_anchor_hall := new_anchor, fp_target_hall := new_target,
           fp_hash := make_fingerprint_hash E new_anchor new_target wing bucket\<rparr>)"

definition set_hall :: "'f db_env \<Rightarrow> string \<Rightarrow> string \<Rightarrow> 'f db \<Rightarrow> 'f db \<times> bool" where
  "set_hall E i hall d =
     (if count_where (\<lambda>r. row_id r = i) (db_memories d) = 0 then (d, False)
      else
        let d1 = update_memories (\<lambda>r. row_id r = i) (\<lambda>r. r\<lparr>row_hall := Some hall\<rparr>) d;
            rows = filter (\<lambda>f. fp_anchor_memory_id f = i \<or> fp_target_memory_id f = i) (db_fingerprints d1)
        in (d1\<lparr>db_fingerprints := fold (\<lambda>f. update_where (\<lambda>g. fp_id g = fp_id f)
                  (\<lambda>g. let h = rehash E i hall f
                       in g\<lparr>fp_anchor_hall := fp_anchor_hall h, fp_target_hall := fp_target_hall h,
                            fp_hash := fp_hash h\<rparr>)) rows (db_fingerprints d1)\<rparr>, True))"

end
