(* ===== verification/Memory_Ops.thy ===== *)
theory Memory_Ops
  imports Memory_Write
begin

text \<open>
  Reinforcement, validity windows, retention, the cached wing search and the listings of
  \<open>spectral-ingest/src/sqlite_store.rs\<close>.
\<close>

subsection \<open>Reinforcement\<close>

definition reinforced :: "'f db_env \<Rightarrow> string \<Rightarrow> 'f \<Rightarrow> 'f memory_row \<Rightarrow> 'f memory_row" where
  "reinforced E now strength r =
     r\<lparr>row_signal_score := dv_min E (dv_add E (row_signal_score r) strength) (dv_one E),
       row_last_reinforced_at := Some now, row_updated_at := now\<rparr>"

definition reinforce_memory ::
    "'f db_env \<Rightarrow> string \<Rightarrow> string \<Rightarrow> 'f \<Rightarrow> 'f db \<Rightarrow> 'f db \<times> string option" where
  "reinforce_memory E now key strength d =
     (let wing = Option.bind (find_key d key) row_wing;
          updated = count_where (\<lambda>r. row_key r = key) (db_memories d);
          d1 = update_memories (\<lambda>r. row_key r = key) (reinforced E now strength) d
      in if updated = 0 then (d1, None) else (wing_cache_pop_opt wing d1, wing))"

text \<open>One chunk: the wings it touches, then the update.\<close>

definition reinforce_chunk ::
    "'f db_env \<Rightarrow> string \<Rightarrow> 'f \<Rightarrow> string list \<Rightarrow> 'f db \<times> nat \<times> string list \<Rightarrow> 'f db \<times> nat \<times> string list" where
  "reinforce_chunk E now strength chunk acc =
     (case acc of (d, n, wings) \<Rightarrow>
       (update_memories (\<lambda>r. row_key r \<in> set chunk) (reinforced E now strength) d,
        n + count_where (\<lambda>r. row_key r \<in> set chunk) (db_memories d),
        wings @ remdups (List.map_filter (\<lambda>r. if row_key r \<in> set chunk then row_wing r else None) (db_memories d))))"

definition reinforce_batch ::
    "'f db_env \<Rightarrow> string \<Rightarrow> string list \<Rightarrow> 'f \<Rightarrow> 'f db \<Rightarrow> 'f db \<times> nat" where
  "reinforce_batch E now keys strength d =
     (case fold (reinforce_chunk E now strength) (chunks 900 keys) (d, 0, []) of
        (d1, n, wings) \<Rightarrow> (fold wing_cache_pop wings d1, n))"

subsection \<open>Validity in the world\<close>

definition invalidate_at :: "string \<Rightarrow> string \<Rightarrow> string \<Rightarrow> 'f db \<Rightarrow> 'f db \<times> bool" where
  "invalidate_at now key valid_to d =
     (wing_cache_clear (update_memories (\<lambda>r. row_key r = key)
        (\<lambda>r. r\<lparr>row_valid_to := valid_to, row_updated_at := now\<rparr>) d),
      count_where (\<lambda>r. row_key r = key) (db_memories d) > 0)"

definition set_valid_from :: "string \<Rightarrow> string \<Rightarrow> string \<Rightarrow> 'f db \<Rightarrow> 'f db \<times> bool" where
  "set_valid_from now key valid_from d =
     (wing_cache_clear (update_memories (\<lambda>r. row_key r = key)
        (\<lambda>r. r\<lparr>row_valid_from := Some valid_from, row_updated_at := now\<rparr>) d),
      count_where (\<lambda>r. row_key r = key) (db_memories d) > 0)"

definition valid_at :: "string \<Rightarrow> 'f memory_row \<Rightarrow> bool" where
  "valid_at instant r \<longleftrightarrow>
     (case row_valid_from r of Some f \<Rightarrow> f | None \<Rightarrow> row_created_at r) \<le> instant \<and> instant < row_valid_to r"

definition keys_as_of :: "string \<Rightarrow> 'f db \<Rightarrow> string list" where
  "keys_as_of instant d = order_by (\<le>) (map row_key (filter (valid_at instant) (db_memories d)))"

definition validity_of :: "string \<Rightarrow> 'f db \<Rightarrow> (string option \<times> string) option" where
  "validity_of key d = map_option (\<lambda>r. (row_valid_from r, row_valid_to r)) (find_key d key)"

subsection \<open>Retention\<close>

text \<open>\<open>datetime(a) < datetime(b)\<close>, which is not true when either is NULL.\<close>

definition before_time :: "'f db_env \<Rightarrow> string \<Rightarrow> string \<Rightarrow> bool" where
  "before_time E a b \<longleftrightarrow>
     (case (dv_datetime E a, dv_datetime E b) of (Some x, Some y) \<Rightarrow> x < y | _ \<Rightarrow> False)"

definition delete_wing_memories_before ::
    "'f db_env \<Rightarrow> string \<Rightarrow> string \<Rightarrow> 'f db \<Rightarrow> 'f db \<times> nat" where
  "delete_wing_memories_before E wing limit d =
     (let P = (\<lambda>r. row_wing r = Some wing \<and> before_time E (row_created_at r) limit)
      in (wing_cache_pop wing (delete_memories P d), count_where P (db_memories d)))"

text \<open>\<open>ORDER BY datetime(created_at) DESC, id DESC\<close>; NULL is the least value.\<close>

definition by_recency :: "'f db_env \<Rightarrow> 'f memory_row \<Rightarrow> 'f memory_row \<Rightarrow> bool" where
  "by_recency E r q \<longleftrightarrow>
     (let a = dv_datetime E (row_created_at r); b = dv_datetime E (row_created_at q)
      in b < a \<or> b = a \<and> row_id q \<le> row_id r)"

definition of_source :: "string \<Rightarrow> string \<Rightarrow> 'f memory_row \<Rightarrow> bool" where
  "of_source wing src r \<longleftrightarrow> row_wing r = Some wing \<and> row_source r = Some src"

definition prune_source ::
    "'f db_env \<Rightarrow> string \<Rightarrow> nat \<Rightarrow> string \<Rightarrow> 'f db \<times> nat \<Rightarrow> 'f db \<times> nat" where
  "prune_source E wing keep src acc =
     (case acc of (d, n) \<Rightarrow>
       let kept = map row_id (take keep (order_by (by_recency E) (filter (of_source wing src) (db_memories d))));
           P = (\<lambda>r. of_source wing src r \<and> row_id r \<notin> set kept)
       in (delete_memories P d, n + count_where P (db_memories d)))"

definition prune_wing_keeping_recent_per_source ::
    "'f db_env \<Rightarrow> string \<Rightarrow> nat \<Rightarrow> 'f db \<Rightarrow> 'f db \<times> nat" where
  "prune_wing_keeping_recent_per_source E wing keep d =
     (let sources = remdups (List.map_filter (\<lambda>r. if row_wing r = Some wing then row_source r else None) (db_memories d));
          (d1, n) = fold (prune_source E wing keep) sources (d, 0)
      in (if n > 0 then wing_cache_pop wing d1 else d1, n))"

subsection \<open>Search in a wing\<close>

text \<open>
  \<open>low\<close> is \<open>to_lowercase\<close>; \<open>kept\<close> says which entries the LRU cache still holds after an insertion.
\<close>

definition term_matches :: "(string \<Rightarrow> string) \<Rightarrow> string list \<Rightarrow> 'f memory_hit \<Rightarrow> nat" where
  "term_matches low terms h =
     length (filter (str_contains (low (hit_key h) @ '' '' @ low (hit_content h))) terms)"

definition wing_search ::
    "'f db_env \<Rightarrow> (string \<Rightarrow> string) \<Rightarrow> (string \<Rightarrow> bool) \<Rightarrow> string \<Rightarrow> string list \<Rightarrow> nat \<Rightarrow> 'f db \<Rightarrow>
      'f db \<times> 'f memory_hit list" where
  "wing_search E low kept wing query_terms max_results d =
     (let (d1, all_results) =
            (case db_wing_cache d wing of
               Some cached \<Rightarrow> (d, cached)
             | None \<Rightarrow>
                 let fetched = wing_hits E d wing
                 in (d\<lparr>db_wing_cache := (\<lambda>w. if kept w then db_wing_cache d w else None)(wing \<mapsto> fetched)\<rparr>, fetched));
          terms = map low (filter (\<lambda>t. length t > 1) query_terms);
          ranked = (if terms = [] then all_results
                    else order_by (\<lambda>a b. term_matches low terms b \<le> term_matches low terms a) all_results)
      in (d1, take max_results ranked))"

subsection \<open>Listings\<close>

definition latest_created_at :: "'f db \<Rightarrow> string option" where
  "latest_created_at d =
     (case map row_created_at (db_memories d) of [] \<Rightarrow> None | c # cs \<Rightarrow> Some (fold max cs c))"

definition list_wing_memories :: "'f db_env \<Rightarrow> string \<Rightarrow> 'f \<Rightarrow> 'f db \<Rightarrow> 'f memory list" where
  "list_wing_memories E wing min_signal d =
     map memory_from_row (order_by (by_signal E)
       (filter (\<lambda>r. row_wing r = Some wing \<and> dv_le E min_signal (row_signal_score r)) (db_memories d)))"

definition list_wing_memories_capped ::
    "'f db_env \<Rightarrow> string \<Rightarrow> 'f \<Rightarrow> nat \<Rightarrow> 'f db \<Rightarrow> 'f memory list" where
  "list_wing_memories_capped E wing min_signal limit d =
     map memory_from_row (take limit (order_by (by_recency E)
       (filter (\<lambda>r. row_wing r = Some wing \<and> dv_le E min_signal (row_signal_score r)) (db_memories d))))"

definition list_memories_by_signal :: "'f db_env \<Rightarrow> 'f \<Rightarrow> nat \<Rightarrow> 'f db \<Rightarrow> 'f memory list" where
  "list_memories_by_signal E min_signal limit d =
     map memory_from_row (take limit (order_by (by_signal E)
       (filter (\<lambda>r. dv_le E min_signal (row_signal_score r)) (db_memories d))))"

definition list_wing_memories_since ::
    "'f db_env \<Rightarrow> string \<Rightarrow> string \<Rightarrow> nat \<Rightarrow> 'f db \<Rightarrow> 'f memory list" where
  "list_wing_memories_since E wing since limit d =
     map memory_from_row (take limit (order_by (by_recency E)
       (filter (\<lambda>r. row_wing r = Some wing \<and> before_time E since (row_created_at r)) (db_memories d))))"

definition fetch_by_ids :: "string list \<Rightarrow> 'f db \<Rightarrow> 'f memory list" where
  "fetch_by_ids ids d =
     concat (map (\<lambda>chunk. map memory_from_row (filter (\<lambda>r. row_id r \<in> set chunk) (db_memories d))) (chunks 900 ids))"

definition get_memory :: "string \<Rightarrow> 'f db \<Rightarrow> 'f memory option" where
  "get_memory i d = map_option memory_from_row (select_first (\<lambda>r. row_id r = i) (db_memories d))"

definition list_undescribed :: "nat \<Rightarrow> 'f db \<Rightarrow> 'f memory list" where
  "list_undescribed limit d =
     map memory_from_row (take limit (order_by
       (\<lambda>r q. row_created_at q < row_created_at r \<or> row_created_at q = row_created_at r \<and> row_id q \<le> row_id r)
       (filter (\<lambda>r. row_description r = None) (db_memories d))))"

definition list_memories_by_episode :: "string \<Rightarrow> 'f db \<Rightarrow> 'f memory list" where
  "list_memories_by_episode episode_id d =
     map memory_from_row (order_by
       (\<lambda>r q. row_created_at r < row_created_at q \<or> row_created_at r = row_created_at q \<and> row_id r \<le> row_id q)
       (filter (\<lambda>r. row_episode_id r = Some episode_id) (db_memories d)))"

end
