(* ===== verification/Memory_Forget.thy ===== *)
theory Memory_Forget
  imports Memory_Ops
begin

text \<open>
  Forgetting a memory, \<open>delete_memory_by_key\<close> of \<open>spectral-ingest/src/sqlite_store.rs\<close>: the scrub of
  every table that can hold a trace of it, with the receipt, and SQL's \<open>LIKE\<close> by which the access
  log is searched.
\<close>

subsection \<open>\<open>LIKE .. ESCAPE\<close>\<close>

definition BACKSLASH :: char where "BACKSLASH = CHR 0x5C"
definition QUOTE :: char where "QUOTE = CHR 0x22"

text \<open>SQLite folds the case of ASCII letters in \<open>LIKE\<close>.\<close>

definition ascii_lower :: "char \<Rightarrow> char" where
  "ascii_lower c =
     (if 65 \<le> (of_char c :: nat) \<and> (of_char c :: nat) \<le> 90 then char_of ((of_char c :: nat) + 32) else c)"

fun like_match :: "string \<Rightarrow> string \<Rightarrow> bool" where
  "like_match [] s \<longleftrightarrow> s = []"
| "like_match (p # ps) [] \<longleftrightarrow> p = CHR ''%'' \<and> like_match ps []"
| "like_match (p # ps) (c # s) \<longleftrightarrow>
     (if p = CHR ''%'' then like_match ps (c # s) \<or> like_match (p # ps) s
      else if p = CHR ''_'' then like_match ps s
      else if p = BACKSLASH then
        (case ps of [] \<Rightarrow> False | q # qs \<Rightarrow> ascii_lower q = ascii_lower c \<and> like_match qs s)
      else ascii_lower p = ascii_lower c \<and> like_match ps s)"

definition replace_char :: "char \<Rightarrow> string \<Rightarrow> string \<Rightarrow> string" where
  "replace_char c r s = concat (map (\<lambda>x. if x = c then r else [x]) s)"

definition escape_like :: "string \<Rightarrow> string" where
  "escape_like i =
     replace_char (CHR ''_'') [BACKSLASH, CHR ''_'']
       (replace_char (CHR ''%'') [BACKSLASH, CHR ''%'']
         (replace_char BACKSLASH [BACKSLASH, BACKSLASH] i))"

definition id_needle :: "string \<Rightarrow> string" where
  "id_needle i = ''%'' @ [QUOTE] @ escape_like i @ [QUOTE] @ ''%''"

subsection \<open>Forgetting\<close>

record forget_receipt =
  fr_existed :: bool
  fr_memory_rows :: nat
  fr_fingerprints :: nat
  fr_spectrograms :: nat
  fr_annotations :: nat
  fr_consolidation_edges :: nat
  fr_co_retrieval_pairs :: nat
  fr_retrieval_events :: nat
  fr_episodes :: nat
  fr_fts_rows :: nat

definition no_receipt :: forget_receipt where
  "no_receipt =
     \<lparr>fr_existed = False, fr_memory_rows = 0, fr_fingerprints = 0, fr_spectrograms = 0,
      fr_annotations = 0, fr_consolidation_edges = 0, fr_co_retrieval_pairs = 0,
      fr_retrieval_events = 0, fr_episodes = 0, fr_fts_rows = 0\<rparr>"

text \<open>\<open>instr(content, summary_preview) = 1\<close>.\<close>

definition quotes :: "string \<Rightarrow> episode_row \<Rightarrow> bool" where
  "quotes content e \<longleftrightarrow>
     (case ep_summary_preview e of
        None \<Rightarrow> False
      | Some p \<Rightarrow> p \<noteq> [] \<and> take (length p) content = p)"

definition mentions :: "string \<Rightarrow> retrieval_event \<Rightarrow> bool" where
  "mentions i ev \<longleftrightarrow> like_match (id_needle i) (ev_memory_ids_json ev)"

text \<open>The tables that do not cascade, and those scrubbed before the row goes.\<close>

definition scrub_traces :: "'f memory_row \<Rightarrow> 'f db \<Rightarrow> 'f db" where
  "scrub_traces r d =
     d\<lparr>db_fingerprints := delete_where
         (\<lambda>f. fp_anchor_memory_id f = row_id r \<or> fp_target_memory_id f = row_id r) (db_fingerprints d),
       db_spectrograms := delete_where (\<lambda>s. sg_memory_id s = row_id r) (db_spectrograms d),
       db_annotations := delete_where (\<lambda>a. an_memory_id a = row_id r) (db_annotations d),
       db_edges := delete_where (\<lambda>e. ce_source_key e = row_key r \<or> ce_target_key e = row_key r) (db_edges d),
       db_pairs := delete_where (\<lambda>p. cp_memory_id_a p = row_id r \<or> cp_memory_id_b p = row_id r) (db_pairs d),
       db_events := delete_where (mentions (row_id r)) (db_events d),
       db_episodes := update_where (quotes (row_content r)) (\<lambda>e. e\<lparr>ep_summary_preview := None\<rparr>) (db_episodes d)\<rparr>"

definition in_episode :: "string \<Rightarrow> 'f memory_row \<Rightarrow> bool" where
  "in_episode ep r \<longleftrightarrow> row_episode_id r = Some ep"

text \<open>The episode of the deleted memory is dropped when it is empty and recounted otherwise.\<close>

definition settle_episode :: "string option \<Rightarrow> 'f db \<Rightarrow> 'f db \<times> nat" where
  "settle_episode episode d =
     (case episode of
        None \<Rightarrow> (d, 0)
      | Some ep \<Rightarrow>
          let left = count_where (in_episode ep) (db_memories d);
              P = (\<lambda>e. ep_id e = ep \<and> left = 0);
              dropped = count_where P (db_episodes d);
              d1 = d\<lparr>db_episodes := delete_where P (db_episodes d)\<rparr>
          in (if dropped = 0
              then d1\<lparr>db_episodes := update_where (\<lambda>e. ep_id e = ep) (\<lambda>e. e\<lparr>ep_memory_count := left\<rparr>) (db_episodes d1)\<rparr>
              else d1, dropped))"

definition delete_memory_by_key :: "string \<Rightarrow> 'f db \<Rightarrow> 'f db \<times> forget_receipt" where
  "delete_memory_by_key key d =
     (case find_key d key of
        None \<Rightarrow> (d, no_receipt)
      | Some r \<Rightarrow>
          let d1 = scrub_traces r d;
              n = count_where (\<lambda>q. row_key q = key) (db_memories d1);
              (d2, dropped) = settle_episode (row_episode_id r) (delete_memories (\<lambda>q. row_key q = key) d1)
          in (wing_cache_clear d2,
              \<lparr>fr_existed = True, fr_memory_rows = n,
               fr_fingerprints = count_where
                 (\<lambda>f. fp_anchor_memory_id f = row_id r \<or> fp_target_memory_id f = row_id r) (db_fingerprints d),
               fr_spectrograms = count_where (\<lambda>s. sg_memory_id s = row_id r) (db_spectrograms d),
               fr_annotations = count_where (\<lambda>a. an_memory_id a = row_id r) (db_annotations d),
               fr_consolidation_edges = count_where
                 (\<lambda>e. ce_source_key e = key \<or> ce_target_key e = key) (db_edges d),
               fr_co_retrieval_pairs = count_where
                 (\<lambda>p. cp_memory_id_a p = row_id r \<or> cp_memory_id_b p = row_id r) (db_pairs d),
               fr_retrieval_events = count_where (mentions (row_id r)) (db_events d),
               fr_episodes = count_where (quotes (row_content r)) (db_episodes d) + dropped,
               fr_fts_rows = n\<rparr>))"

subsection \<open>What the pattern finds\<close>

definition escape_char :: "char \<Rightarrow> string" where
  "escape_char c = (if c \<in> {BACKSLASH, CHR ''%'', CHR ''_''} then [BACKSLASH, c] else [c])"

lemma replace_char_append: "replace_char c r (s @ t) = replace_char c r s @ replace_char c r t"
  by (simp add: replace_char_def)

lemma escape_like_Cons: "escape_like (c # i) = escape_char c @ escape_like i"
proof -
  have "escape_like (c # i) = escape_like [c] @ escape_like i"
    using replace_char_append[of _ _ "[c]" i]
    by (simp add: escape_like_def replace_char_append[symmetric])
  moreover have "escape_like [c] = escape_char c"
    by (simp add: escape_like_def escape_char_def replace_char_def BACKSLASH_def)
  ultimately show ?thesis by simp
qed

lemma escape_like_Nil: "escape_like [] = []"
  by (simp add: escape_like_def replace_char_def)

lemma like_escaped:
  "like_match (escape_like i @ ps) s \<longleftrightarrow>
     (\<exists>t u. s = t @ u \<and> map ascii_lower t = map ascii_lower i \<and> like_match ps u)"
proof (induction i arbitrary: s)
  case Nil
  then show ?case by (simp add: escape_like_Nil)
next
  case (Cons c i)
  have step: "like_match (escape_like (c # i) @ ps) (x # s) \<longleftrightarrow>
      ascii_lower x = ascii_lower c \<and> like_match (escape_like i @ ps) s" for x s
    by (auto simp: escape_like_Cons escape_char_def BACKSLASH_def)
  have empty: "\<not> like_match (escape_like (c # i) @ ps) []"
    by (auto simp: escape_like_Cons escape_char_def BACKSLASH_def)
  show ?case
  proof (cases s)
    case Nil
    then show ?thesis using empty by simp
  next
    case (Cons x s')
    have "(\<exists>t u. x # s' = t @ u \<and> map ascii_lower t = map ascii_lower (c # i) \<and> like_match ps u) \<longleftrightarrow>
        ascii_lower x = ascii_lower c \<and>
        (\<exists>t u. s' = t @ u \<and> map ascii_lower t = map ascii_lower i \<and> like_match ps u)"
      by (auto simp: Cons_eq_append_conv map_eq_Cons_conv)
    then show ?thesis unfolding Cons step Cons.IH by (rule sym)
  qed
qed

lemma like_percent: "like_match (CHR ''%'' # ps) s \<longleftrightarrow> (\<exists>t u. s = t @ u \<and> like_match ps u)"
proof (induction s)
  case Nil
  then show ?case by simp
next
  case (Cons c s)
  have "(\<exists>t u. c # s = t @ u \<and> like_match ps u) \<longleftrightarrow>
      like_match ps (c # s) \<or> (\<exists>t u. s = t @ u \<and> like_match ps u)"
    by (auto simp: Cons_eq_append_conv)
  then show ?case using Cons.IH by simp
qed

lemma like_quote: "like_match (QUOTE # ps) s \<longleftrightarrow> (\<exists>u. s = QUOTE # u \<and> like_match ps u)"
proof -
  have "ascii_lower QUOTE = ascii_lower c \<longleftrightarrow> c = QUOTE" for c
  proof
    assume a: "ascii_lower QUOTE = ascii_lower c"
    have q: "ascii_lower QUOTE = QUOTE" by (simp add: ascii_lower_def QUOTE_def)
    have n: "(of_char QUOTE :: nat) = 34" by (simp add: QUOTE_def)
    show "c = QUOTE"
    proof (cases "65 \<le> (of_char c :: nat) \<and> (of_char c :: nat) \<le> 90")
      case True
      then have "(of_char (ascii_lower c) :: nat) = of_char c + 32" by (simp add: ascii_lower_def)
      with a q n True show ?thesis by simp
    next
      case False
      then have "ascii_lower c = c" by (auto simp: ascii_lower_def)
      with a q show ?thesis by simp
    qed
  qed simp
  then show ?thesis by (cases s) (auto simp: QUOTE_def BACKSLASH_def)
qed

text \<open>The scrub finds exactly the events whose text has the quoted id, up to the case of ASCII letters.\<close>

lemma mentions_iff:
  "mentions i ev \<longleftrightarrow>
     (\<exists>a t b. ev_memory_ids_json ev = a @ [QUOTE] @ t @ [QUOTE] @ b \<and> map ascii_lower t = map ascii_lower i)"
proof -
  have "like_match [CHR ''%''] s" for s by (simp only: like_percent) (auto intro: exI[of _ s])
  then show ?thesis
    unfolding mentions_def id_needle_def
    by (simp add: like_percent like_quote like_escaped del: like_match.simps) blast
qed

subsection \<open>What is left\<close>

lemma gone_by_key:
  assumes "find_key d k = Some r" and "distinct (map row_key (db_memories d))"
  shows "filter (\<lambda>q. row_key q = k) (db_memories d) = [r]"
proof -
  have r: "r \<in> set (db_memories d)" "row_key r = k"
    using assms(1) by (auto simp: find_key_def dest: select_first_Some)
  have "filter (\<lambda>q. row_key q = row_key r) t = [r]" if "distinct (map row_key t)" "r \<in> set t" for t
    using that
  proof (induction t)
    case (Cons x t)
    have "filter (\<lambda>q. row_key q = row_key x) t = []" using Cons.prems(1)
      by (fastforce simp: filter_empty_conv image_iff)
    moreover have "r \<noteq> x \<Longrightarrow> row_key x \<noteq> row_key r" using Cons.prems by force
    ultimately show ?case using Cons by auto
  qed simp
  then show ?thesis using assms(2) r by auto
qed

lemma delete_by_key:
  assumes "find_key d k = Some r" and "distinct (map row_key (db_memories d))"
  shows "delete_memories (\<lambda>q. row_key q = k) d =
    d\<lparr>db_memories := delete_where (\<lambda>q. row_key q = k) (db_memories d),
      db_fingerprints := delete_where
        (\<lambda>f. fp_anchor_memory_id f = row_id r \<or> fp_target_memory_id f = row_id r) (db_fingerprints d),
      db_spectrograms := delete_where (\<lambda>s. sg_memory_id s = row_id r) (db_spectrograms d),
      db_annotations := delete_where (\<lambda>a. an_memory_id a = row_id r) (db_annotations d),
      db_edges := delete_where (\<lambda>e. ce_source_key e = k) (db_edges d),
      db_sessions := delete_where (\<lambda>s. sn_memory_id s = row_id r) (db_sessions d),
      db_members := delete_where (\<lambda>m. tm_memory_id m = row_id r) (db_members d)\<rparr>"
proof -
  have "row_key r = k" using assms(1) by (auto simp: find_key_def dest: select_first_Some)
  then show ?thesis unfolding delete_memories_def Let_def gone_by_key[OF assms] by simp
qed

lemma settle_episode_frame:
  "db_memories (fst (settle_episode ep d)) = db_memories d"
  "db_fingerprints (fst (settle_episode ep d)) = db_fingerprints d"
  "db_spectrograms (fst (settle_episode ep d)) = db_spectrograms d"
  "db_annotations (fst (settle_episode ep d)) = db_annotations d"
  "db_edges (fst (settle_episode ep d)) = db_edges d"
  "db_entity_fields (fst (settle_episode ep d)) = db_entity_fields d"
  "db_events (fst (settle_episode ep d)) = db_events d"
  "db_pairs (fst (settle_episode ep d)) = db_pairs d"
  "db_sessions (fst (settle_episode ep d)) = db_sessions d"
  "db_turns (fst (settle_episode ep d)) = db_turns d"
  "db_members (fst (settle_episode ep d)) = db_members d"
  "db_wing_cache (fst (settle_episode ep d)) = db_wing_cache d"
  by (cases ep; simp add: settle_episode_def Let_def)+

lemma settle_episode_previews:
  "e \<in> set (db_episodes (fst (settle_episode ep d))) \<Longrightarrow>
     \<exists>x \<in> set (db_episodes d). ep_summary_preview x = ep_summary_preview e"
  by (cases ep) (auto simp: settle_episode_def Let_def set_update_where split: if_splits)

lemma fst_delete_memory_by_key:
  assumes "find_key d k = Some r"
  shows "fst (delete_memory_by_key k d) =
    wing_cache_clear (fst (settle_episode (row_episode_id r)
      (delete_memories (\<lambda>q. row_key q = k) (scrub_traces r d))))"
  using assms by (simp add: delete_memory_by_key_def Let_def split: prod.split)

text \<open>
  C4: Forgetting a memory removes its row, leaves every other memory as it was, and scrubs the tables of the
  memory store: exactly the fingerprints, spectrograms, annotations, consolidation edges, co-retrieval pairs,
  session rows and turn members with its id or key go; no event of the access log has its id between
  quotes in its text; no episode preview quotes its content; nothing is cached; entity fields and turns are
  untouched. Two traces are outside of this: the manifest of the shared wings (\<open>shared_wing_members\<close>, which
  the transaction does not touch and which is not part of \<open>db\<close>) keeps its key, and an event whose JSON text
  holds the id escaped (an id with a quote or a backslash) stays.
\<close>

theorem forget_scrubs_tables:
  assumes "find_key d k = Some r" and "distinct (map row_key (db_memories d))"
    and "distinct (map row_id (db_memories d))" and "d' = fst (delete_memory_by_key k d)"
  shows "db_memories d' = filter (\<lambda>q. row_key q \<noteq> k) (db_memories d) \<and>
     \<not> has_key d' k \<and> \<not> has_memory d' (row_id r) \<and>
     db_fingerprints d' = filter (\<lambda>f. fp_anchor_memory_id f \<noteq> row_id r \<and> fp_target_memory_id f \<noteq> row_id r)
       (db_fingerprints d) \<and>
     db_spectrograms d' = filter (\<lambda>s. sg_memory_id s \<noteq> row_id r) (db_spectrograms d) \<and>
     db_annotations d' = filter (\<lambda>a. an_memory_id a \<noteq> row_id r) (db_annotations d) \<and>
     db_edges d' = filter (\<lambda>e. ce_source_key e \<noteq> k \<and> ce_target_key e \<noteq> k) (db_edges d) \<and>
     db_pairs d' = filter (\<lambda>p. cp_memory_id_a p \<noteq> row_id r \<and> cp_memory_id_b p \<noteq> row_id r) (db_pairs d) \<and>
     db_sessions d' = filter (\<lambda>s. sn_memory_id s \<noteq> row_id r) (db_sessions d) \<and>
     db_members d' = filter (\<lambda>m. tm_memory_id m \<noteq> row_id r) (db_members d) \<and>
     (\<forall>ev \<in> set (db_events d'). \<nexists>a b. ev_memory_ids_json ev = a @ [QUOTE] @ row_id r @ [QUOTE] @ b) \<and>
     (\<forall>e \<in> set (db_episodes d'). \<not> quotes (row_content r) e) \<and>
     db_entity_fields d' = db_entity_fields d \<and> db_turns d' = db_turns d \<and>
     db_wing_cache d' = (\<lambda>w. None)"
proof -
  have r: "r \<in> set (db_memories d)" "row_key r = k"
    using assms(1) by (auto simp: find_key_def dest: select_first_Some)
  let ?d1 = "scrub_traces r d"
  have mem: "db_memories ?d1 = db_memories d" by (simp add: scrub_traces_def)
  have "find_key ?d1 k = Some r" "distinct (map row_key (db_memories ?d1))"
    using assms(1,2) by (simp_all add: find_key_def mem)
  note del = delete_by_key[OF this]
  define d2 where "d2 = delete_memories (\<lambda>q. row_key q = k) ?d1"
  note d2 = d2_def[unfolded del]
  have d': "d' = wing_cache_clear (fst (settle_episode (row_episode_id r) d2))"
    unfolding assms(4) fst_delete_memory_by_key[OF assms(1)] d2_def ..
  have "\<not> quotes (row_content r) e" if "e \<in> set (db_episodes d')" for e
  proof -
    have "e \<in> set (db_episodes (fst (settle_episode (row_episode_id r) d2)))"
      using that by (simp add: d' wing_cache_clear_def)
    from settle_episode_previews[OF this] obtain x
      where "x \<in> set (db_episodes d2)" "ep_summary_preview x = ep_summary_preview e" ..
    then show ?thesis
      by (auto simp: d2 scrub_traces_def set_update_where quotes_def split: if_splits)
  qed
  moreover have "\<not> mentions (row_id r) ev" if "ev \<in> set (db_events d')" for ev
    using that by (simp add: d' wing_cache_clear_def settle_episode_frame d2 scrub_traces_def)
  then have "\<forall>ev \<in> set (db_events d'). \<nexists>a b. ev_memory_ids_json ev = a @ [QUOTE] @ row_id r @ [QUOTE] @ b"
    unfolding mentions_iff by blast
  moreover have "db_memories d' = filter (\<lambda>q. row_key q \<noteq> k) (db_memories d)"
    by (simp add: d' wing_cache_clear_def settle_episode_frame d2 scrub_traces_def delete_where_def)
  moreover from this have "\<not> has_memory d' (row_id r)"
    using assms(3) r by (auto simp: has_memory_def distinct_map inj_on_eq_iff)
  ultimately show ?thesis
    using r by (simp add: has_key_def d' wing_cache_clear_def settle_episode_frame d2
        scrub_traces_def delete_where_def conj_comms)
qed

definition toy_memory :: "nat memory_row" where
  "toy_memory =
     \<lparr>row_id = ''i1'', row_key = ''k1'', row_content = ''tea'', row_category = ''core'',
      row_wing = Some ''w'', row_hall = None, row_signal_score = 5, row_visibility = ''private'',
      row_created_at = ''2026'', row_updated_at = ''2026'', row_source = None, row_device_id = None,
      row_confidence = 9, row_last_reinforced_at = None, row_episode_id = None,
      row_compaction_tier = None, row_declarative_density = None, row_description = None,
      row_description_generated_at = None, row_valid_from = None, row_valid_to = VALID_TO_SENTINEL,
      row_content_hash = None, row_source_brain_id = None, row_signature = None\<rparr>"

definition toy_db :: "nat db" where
  "toy_db = empty_db\<lparr>db_memories := [toy_memory, toy_memory\<lparr>row_id := ''i2'', row_key := ''k2''\<rparr>],
     db_edges := [\<lparr>ce_source_key = ''k2'', ce_target_key = ''k1'', ce_consolidated_at = ''2026''\<rparr>]\<rparr>"

lemma forget_scrubs_tables_witness:
  "db_edges (fst (delete_memory_by_key ''k1'' toy_db)) = [] \<and>
   map row_key (db_memories (fst (delete_memory_by_key ''k1'' toy_db))) = [''k2'']"
proof -
  have "find_key toy_db ''k1'' = Some toy_memory"
    by (simp add: find_key_def select_first_def toy_db_def toy_memory_def)
  from forget_scrubs_tables[OF this _ _ refl]
  show ?thesis by (simp add: toy_db_def toy_memory_def)
qed

end
