(* ===== verification/Memory_Links.thy ===== *)
theory Memory_Links
  imports Memory_Forget
begin

text \<open>
  The access log and the co-retrieval graph of \<open>spectral-ingest/src/sqlite_store.rs\<close>: events, the
  write-time sessions of memories, the pair counts kept incrementally and rebuilt from scratch, and
  the queries on them. The rebuild inserts the entries of a hash map; the model inserts them in the
  order in which they were first counted.
\<close>

subsection \<open>Events\<close>

definition log_retrieval_event :: "retrieval_event \<Rightarrow> 'f db \<Rightarrow> 'f db" where
  "log_retrieval_event ev d = d\<lparr>db_events := db_events d @ [ev]\<rparr>"

definition count_retrieval_events :: "'f db \<Rightarrow> nat" where
  "count_retrieval_events d = length (db_events d)"

definition count_retrieval_events_by_method :: "string \<Rightarrow> 'f db \<Rightarrow> nat" where
  "count_retrieval_events_by_method m d = count_where (\<lambda>ev. ev_method ev = m) (db_events d)"

definition events_for_session :: "string \<Rightarrow> nat \<Rightarrow> 'f db \<Rightarrow> retrieval_event list" where
  "events_for_session s limit d =
     take limit (order_by (\<lambda>x y. ev_timestamp x \<le> ev_timestamp y)
       (filter (\<lambda>ev. ev_session_id ev = Some s) (db_events d)))"

definition memories_for_session :: "'f db_env \<Rightarrow> string \<Rightarrow> 'f db \<Rightarrow> string list" where
  "memories_for_session E s d =
     fold (\<lambda>json result.
         case dv_ids_of_json E json of
           None \<Rightarrow> result
         | Some ids \<Rightarrow> fold (\<lambda>i res. if i \<in> set res then res else res @ [i]) ids result)
       (map ev_memory_ids_json (order_by (\<lambda>x y. ev_timestamp x \<le> ev_timestamp y)
         (filter (\<lambda>ev. ev_session_id ev = Some s) (db_events d)))) []"

subsection \<open>Sessions and pairs\<close>

definition session_pk :: "session_row \<Rightarrow> string \<times> string" where
  "session_pk r = (sn_memory_id r, sn_session_id r)"

definition pair_pk :: "pair_row \<Rightarrow> string \<times> string" where
  "pair_pk r = (cp_memory_id_a r, cp_memory_id_b r)"

definition in_order :: "string \<Rightarrow> string \<Rightarrow> string \<times> string" where
  "in_order a b = (if a < b then (a, b) else (b, a))"

definition count_peer :: "string \<Rightarrow> string \<Rightarrow> string \<Rightarrow> pair_row list \<Rightarrow> pair_row list" where
  "count_peer now memory_id peer t =
     (case in_order memory_id peer of (a, b) \<Rightarrow>
       upsert pair_pk \<lparr>cp_memory_id_a = a, cp_memory_id_b = b, cp_co_count = 1, cp_last_updated = now\<rparr>
         (\<lambda>r. r\<lparr>cp_co_count := cp_co_count r + 1, cp_last_updated := now\<rparr>) t)"

definition associate_memory_session ::
    "string \<Rightarrow> string \<Rightarrow> string \<Rightarrow> 'f db \<Rightarrow> 'f db \<times> (db_error + nat)" where
  "associate_memory_session now memory_id session_id d =
     (let row = \<lparr>sn_memory_id = memory_id, sn_session_id = session_id\<rparr>
      in if \<exists>x \<in> set (db_sessions d). session_pk x = session_pk row then (d, Inr 0)
         else if \<not> has_memory d memory_id then (d, Inl (Foreign_Key memory_id))
         else
           let d1 = d\<lparr>db_sessions := db_sessions d @ [row]\<rparr>;
               peers = map sn_memory_id (filter (\<lambda>x. sn_session_id x = session_id \<and> sn_memory_id x \<noteq> memory_id)
                         (db_sessions d1))
           in (d1\<lparr>db_pairs := fold (count_peer now memory_id) peers (db_pairs d1)\<rparr>, Inr (length peers)))"

subsection \<open>The rebuild\<close>

text \<open>\<open>LIKE\<close> without an escape character.\<close>

fun like_plain :: "string \<Rightarrow> string \<Rightarrow> bool" where
  "like_plain [] s \<longleftrightarrow> s = []"
| "like_plain (p # ps) [] \<longleftrightarrow> p = CHR ''%'' \<and> like_plain ps []"
| "like_plain (p # ps) (c # s) \<longleftrightarrow>
     (if p = CHR ''%'' then like_plain ps (c # s) \<or> like_plain (p # ps) s
      else if p = CHR ''_'' then like_plain ps s
      else ascii_lower p = ascii_lower c \<and> like_plain ps s)"

fun event_pairs :: "string list \<Rightarrow> (string \<times> string) list" where
  "event_pairs [] = []"
| "event_pairs (i # ids) = map (in_order i) ids @ event_pairs ids"

definition session_pairs :: "session_row list \<Rightarrow> (string \<times> string) list" where
  "session_pairs ss =
     map (\<lambda>(a, b). (sn_memory_id a, sn_memory_id b))
       (filter (\<lambda>(a, b). sn_session_id a = sn_session_id b \<and> sn_memory_id a < sn_memory_id b)
         (List.product ss ss))"

fun bump :: "'k \<Rightarrow> ('k \<times> nat) list \<Rightarrow> ('k \<times> nat) list" where
  "bump k [] = [(k, 1)]"
| "bump k ((x, n) # t) = (if x = k then (x, n + 1) # t else (x, n) # bump k t)"

definition rebuild_events :: "'f db_env \<Rightarrow> string list \<Rightarrow> 'f db \<Rightarrow> string list" where
  "rebuild_events E method_prefixes d =
     map ev_memory_ids_json
       (filter (\<lambda>ev. method_prefixes = [] \<or> list_ex (\<lambda>p. like_plain (p @ ''%'') (ev_method ev)) method_prefixes)
         (db_events d))"

definition counted_pairs :: "'f db_env \<Rightarrow> string list \<Rightarrow> 'f db \<Rightarrow> (string \<times> string) list" where
  "counted_pairs E method_prefixes d =
     concat (map (\<lambda>json. case dv_ids_of_json E json of None \<Rightarrow> [] | Some ids \<Rightarrow> event_pairs ids)
       (rebuild_events E method_prefixes d)) @ session_pairs (db_sessions d)"

definition rebuild_co_retrieval_index_for_methods ::
    "'f db_env \<Rightarrow> string \<Rightarrow> string list \<Rightarrow> 'f db \<Rightarrow> 'f db \<times> nat" where
  "rebuild_co_retrieval_index_for_methods E now method_prefixes d =
     (let pair_counts = fold bump (counted_pairs E method_prefixes d) []
      in (d\<lparr>db_pairs := map (\<lambda>((a, b), n). \<lparr>cp_memory_id_a = a, cp_memory_id_b = b, cp_co_count = n,
                                          cp_last_updated = now\<rparr>) pair_counts\<rparr>,
          length pair_counts))"

definition rebuild_co_retrieval_index :: "'f db_env \<Rightarrow> string \<Rightarrow> 'f db \<Rightarrow> 'f db \<times> nat" where
  "rebuild_co_retrieval_index E now d = rebuild_co_retrieval_index_for_methods E now [] d"

subsection \<open>Neighbours\<close>

definition related_memories :: "string \<Rightarrow> nat \<Rightarrow> 'f db \<Rightarrow> (string \<times> nat) list" where
  "related_memories i limit d =
     take limit (order_by (\<lambda>(x, n) (y, m). m < n \<or> n = m \<and> x \<le> y)
       (map (\<lambda>p. (cp_memory_id_b p, cp_co_count p)) (filter (\<lambda>p. cp_memory_id_a p = i) (db_pairs d)) @
        map (\<lambda>p. (cp_memory_id_a p, cp_co_count p)) (filter (\<lambda>p. cp_memory_id_b p = i) (db_pairs d))))"

definition fingerprint_neighbors :: "string \<Rightarrow> nat \<Rightarrow> 'f db \<Rightarrow> (string \<times> nat) list" where
  "fingerprint_neighbors i limit d =
     (let others = map fp_target_memory_id (filter (\<lambda>f. fp_anchor_memory_id f = i) (db_fingerprints d)) @
                   map fp_anchor_memory_id (filter (\<lambda>f. fp_target_memory_id f = i) (db_fingerprints d))
      in take limit (order_by (\<lambda>(x, n) (y, m). m < n \<or> n = m \<and> x \<le> y)
           (map (\<lambda>x. (x, count_list others x)) (remdups others))))"

subsection \<open>Counting\<close>

definition pair_count :: "pair_row list \<Rightarrow> string \<Rightarrow> string \<Rightarrow> nat" where
  "pair_count t x y = (case select_first (\<lambda>r. pair_pk r = (x, y)) t of None \<Rightarrow> 0 | Some r \<Rightarrow> cp_co_count r)"

definition counted :: "('k \<times> nat) list \<Rightarrow> 'k \<Rightarrow> nat" where
  "counted l k = (case map_of l k of None \<Rightarrow> 0 | Some n \<Rightarrow> n)"

lemma counted_bump: "counted (bump k l) x = counted l x + (if x = k then 1 else 0)"
  by (induction k l rule: bump.induct) (auto simp: counted_def)

lemma counted_fold_bump: "counted (fold bump ks l) x = counted l x + count_list ks x"
  by (induction ks arbitrary: l) (auto simp: counted_bump)

lemma pair_count_rebuild:
  "pair_count (db_pairs (fst (rebuild_co_retrieval_index_for_methods E now ms d))) x y =
     count_list (counted_pairs E ms d) (x, y)"
proof -
  have "pair_count (map (\<lambda>((a, b), n). \<lparr>cp_memory_id_a = a, cp_memory_id_b = b, cp_co_count = n,
      cp_last_updated = now\<rparr>) l) x y = counted l (x, y)" for l
    by (induction l) (auto simp: pair_count_def counted_def select_first_def pair_pk_def)
  then show ?thesis
    by (simp add: rebuild_co_retrieval_index_for_methods_def Let_def counted_fold_bump)
       (simp add: counted_def)
qed

lemma find_map_key:
  assumes "\<And>r. P (f r) = P r"
  shows "List.find P (map f t) = map_option f (List.find P t)"
  using assms by (induction t) auto

lemma new_pair_pk [simp]:
  "pair_pk \<lparr>cp_memory_id_a = a, cp_memory_id_b = b, cp_co_count = n, cp_last_updated = now\<rparr> = (a, b)"
  by (simp add: pair_pk_def)

lemma pair_count_peer:
  "pair_count (count_peer now m p t) x y = pair_count t x y + (if in_order m p = (x, y) then 1 else 0)"
proof -
  obtain a b where ab: "in_order m p = (a, b)" by (cases "in_order m p")
  let ?r = "\<lparr>cp_memory_id_a = a, cp_memory_id_b = b, cp_co_count = 1, cp_last_updated = now\<rparr>"
  let ?g = "\<lambda>r. if pair_pk r = (a, b)
              then r\<lparr>cp_co_count := cp_co_count r + 1, cp_last_updated := now\<rparr> else r"
  have g: "pair_pk (?g r) = pair_pk r" for r by (simp add: pair_pk_def)
  show ?thesis
  proof (cases "\<exists>r \<in> set t. pair_pk r = (a, b)")
    case True
    then have eq: "count_peer now m p t = map ?g t" by (simp add: count_peer_def ab upsert_def update_where_def)
    have look: "select_first (\<lambda>r. pair_pk r = (x, y)) (map ?g t) =
        map_option ?g (select_first (\<lambda>r. pair_pk r = (x, y)) t)"
      unfolding select_first_def by (rule find_map_key) (simp only: g)
    show ?thesis
    proof (cases "select_first (\<lambda>r. pair_pk r = (x, y)) t")
      case None
      then have "(a, b) \<noteq> (x, y)" using True by (auto simp: select_first_None)
      with None show ?thesis by (simp only: eq pair_count_def look ab) simp
    next
      case (Some r)
      then have "pair_pk r = (x, y)" by (auto dest: select_first_Some)
      with Some show ?thesis by (auto simp only: eq pair_count_def look ab option.map option.case) simp_all
    qed
  next
    case False
    then have "count_peer now m p t = t @ [?r]" by (simp add: count_peer_def ab upsert_def)
    moreover have "select_first (\<lambda>r. pair_pk r = (x, y)) (t @ [?r]) =
        (case select_first (\<lambda>r. pair_pk r = (x, y)) t of Some r \<Rightarrow> Some r
         | None \<Rightarrow> if (a, b) = (x, y) then Some ?r else None)"
      unfolding select_first_def by (induction t) auto
    moreover have "(a, b) = (x, y) \<Longrightarrow> select_first (\<lambda>r. pair_pk r = (x, y)) t = None"
      using False by (auto simp: select_first_None)
    ultimately show ?thesis using ab by (auto simp: pair_count_def split: option.split)
  qed
qed

lemma pair_count_peers:
  "pair_count (fold (count_peer now m) peers t) x y =
     pair_count t x y + length (filter (\<lambda>p. in_order m p = (x, y)) peers)"
  by (induction peers arbitrary: t) (auto simp: pair_count_peer)

text \<open>The sessions two memories share.\<close>

definition shared_sessions :: "session_row list \<Rightarrow> string \<Rightarrow> string \<Rightarrow> string set" where
  "shared_sessions ss x y = {s. (x, s) \<in> session_pk ` set ss \<and> (y, s) \<in> session_pk ` set ss}"

lemma finite_shared_sessions [simp]: "finite (shared_sessions ss x y)"
proof (rule finite_subset)
  show "shared_sessions ss x y \<subseteq> sn_session_id ` set ss"
    by (auto simp: shared_sessions_def session_pk_def)
qed simp

lemma count_list_map_filter: "count_list (map f (filter P xs)) v = length (filter (\<lambda>x. P x \<and> f x = v) xs)"
  by (induction xs) auto

lemma count_session_pairs:
  assumes "distinct (map session_pk ss)"
  shows "count_list (session_pairs ss) (x, y) = (if x < y then card (shared_sessions ss x y) else 0)"
proof -
  let ?Q = "\<lambda>(a, b). sn_session_id a = sn_session_id b \<and> sn_memory_id a = x \<and> sn_memory_id b = y \<and> x < y"
  have "count_list (session_pairs ss) (x, y) = length (filter ?Q (List.product ss ss))"
    unfolding session_pairs_def count_list_map_filter by (intro arg_cong[where f = length] filter_cong) auto
  also have "\<dots> = card {p \<in> set ss \<times> set ss. ?Q p}"
  proof -
    have "distinct ss" using assms by (simp add: distinct_map)
    then have "distinct (filter ?Q (List.product ss ss))"
      by (intro distinct_filter distinct_product)
    then have "length (filter ?Q (List.product ss ss)) = card (set (filter ?Q (List.product ss ss)))"
      by (rule distinct_card[symmetric])
    then show ?thesis by (simp only: set_filter set_product)
  qed
  also have "\<dots> = (if x < y then card (shared_sessions ss x y) else 0)"
  proof (cases "x < y")
    case True
    have inj: "inj_on session_pk (set ss)" using assms by (simp add: distinct_map)
    have "bij_betw (\<lambda>(a, b). sn_session_id a) {p \<in> set ss \<times> set ss. ?Q p} (shared_sessions ss x y)"
    proof (rule bij_betwI')
      fix p q assume p: "p \<in> {p \<in> set ss \<times> set ss. ?Q p}" and q: "q \<in> {p \<in> set ss \<times> set ss. ?Q p}"
      obtain a b c e where pq: "p = (a, b)" "q = (c, e)" by (cases p, cases q)
      have "a = c \<and> b = e" if "sn_session_id a = sn_session_id c"
        using inj p q that unfolding pq inj_on_def session_pk_def by simp
      then show "((case p of (a, b) \<Rightarrow> sn_session_id a) = (case q of (a, b) \<Rightarrow> sn_session_id a)) = (p = q)"
        unfolding pq by auto
    next
      fix p assume "p \<in> {p \<in> set ss \<times> set ss. ?Q p}"
      then obtain a b where p: "p = (a, b)" "a \<in> set ss" "b \<in> set ss"
          "session_pk a = (x, sn_session_id a)" "session_pk b = (y, sn_session_id a)"
        by (cases p) (simp add: session_pk_def)
      then have "(x, sn_session_id a) \<in> session_pk ` set ss" "(y, sn_session_id a) \<in> session_pk ` set ss"
        by (metis imageI)+
      then show "(case p of (a, b) \<Rightarrow> sn_session_id a) \<in> shared_sessions ss x y"
        by (simp add: shared_sessions_def p(1))
    next
      fix s assume "s \<in> shared_sessions ss x y"
      then obtain a b where ab: "a \<in> set ss" "b \<in> set ss" "session_pk a = (x, s)" "session_pk b = (y, s)"
        unfolding shared_sessions_def by (elim CollectE conjE imageE) metis
      then have "(a, b) \<in> {p \<in> set ss \<times> set ss. ?Q p}" using True by (simp add: session_pk_def)
      moreover have "s = (case (a, b) of (a, b) \<Rightarrow> sn_session_id a)" using ab(3) by (simp add: session_pk_def)
      ultimately show "\<exists>p \<in> {p \<in> set ss \<times> set ss. ?Q p}. s = (case p of (a, b) \<Rightarrow> sn_session_id a)" by (rule bexI[rotated])
    qed
    then show ?thesis using True by (simp add: bij_betw_same_card)
  next
    case False
    then have "{p \<in> set ss \<times> set ss. ?Q p} = {}" by auto
    then show ?thesis using False by simp
  qed
  finally show ?thesis .
qed

subsection \<open>The incremental counts\<close>

definition pairs_from_sessions :: "'f db \<Rightarrow> bool" where
  "pairs_from_sessions d \<longleftrightarrow> distinct (map session_pk (db_sessions d)) \<and>
     (\<forall>x y. pair_count (db_pairs d) x y =
        (if x < y then card (shared_sessions (db_sessions d) x y) else 0))"

lemma filter_eq: "distinct xs \<Longrightarrow> filter (\<lambda>z. z = v) xs = (if v \<in> set xs then [v] else [])"
  by (induction xs) auto

lemma filter_in_order:
  assumes "distinct peers" and "m \<notin> set peers"
  shows "length (filter (\<lambda>p. in_order m p = (x, y)) peers) =
     (if x < y \<and> (x = m \<and> y \<in> set peers \<or> y = m \<and> x \<in> set peers) then 1 else 0)"
proof -
  have "in_order m p = (x, y) \<longleftrightarrow> x < y \<and> (x = m \<and> p = y \<or> y = m \<and> p = x)" if "p \<in> set peers" for p
  proof -
    have "m < p \<or> p < m" using that assms(2) by (metis neqE)
    then show ?thesis by (auto simp: in_order_def)
  qed
  then have "filter (\<lambda>p. in_order m p = (x, y)) peers =
      filter (\<lambda>p. x < y \<and> (x = m \<and> p = y \<or> y = m \<and> p = x)) peers"
    by (intro filter_cong) auto
  moreover have "filter (\<lambda>p. x < y \<and> (x = m \<and> p = y \<or> y = m \<and> p = x)) peers =
      (if x < y then if x = m then filter (\<lambda>p. p = y) peers
         else if y = m then filter (\<lambda>p. p = x) peers else [] else [])"
    by (auto intro: filter_cong)
  ultimately show ?thesis using assms by (auto simp: filter_eq)
qed

lemma pairs_from_sessions_associate:
  assumes "pairs_from_sessions d"
  shows "pairs_from_sessions (fst (associate_memory_session now m s d))"
proof (cases "(m, s) \<in> session_pk ` set (db_sessions d) \<or> \<not> has_memory d m")
  case True
  then have "fst (associate_memory_session now m s d) = d"
    by (auto simp: associate_memory_session_def Let_def session_pk_def)
  then show ?thesis using assms by simp
next
  case False
  let ?ss = "db_sessions d" and ?row = "\<lparr>sn_memory_id = m, sn_session_id = s\<rparr>"
  let ?peers = "map sn_memory_id (filter (\<lambda>x. sn_session_id x = s \<and> sn_memory_id x \<noteq> m) ?ss)"
  have new: "(m, s) \<notin> session_pk ` set ?ss" using False by blast
  have pk: "session_pk ?row = (m, s)" by (simp add: session_pk_def)
  have d': "db_sessions (fst (associate_memory_session now m s d)) = ?ss @ [?row]"
      "db_pairs (fst (associate_memory_session now m s d)) = fold (count_peer now m) ?peers (db_pairs d)"
    using False by (auto simp: associate_memory_session_def Let_def session_pk_def image_iff)
  have dist: "distinct (map session_pk ?ss)" using assms by (simp add: pairs_from_sessions_def)
  have peers: "p \<in> set ?peers \<longleftrightarrow> p \<noteq> m \<and> (p, s) \<in> session_pk ` set ?ss" for p
    by (auto simp: session_pk_def image_iff)
  have "distinct ?peers"
  proof -
    have "inj_on sn_memory_id {x \<in> set ?ss. sn_session_id x = s}"
      using dist by (auto simp: distinct_map inj_on_def session_pk_def)
    then show ?thesis using dist
      by (auto simp: distinct_map intro: distinct_filter inj_on_subset)
  qed
  moreover have "m \<notin> set ?peers" by auto
  ultimately have count: "length (filter (\<lambda>p. in_order m p = (x, y)) ?peers) =
      (if x < y \<and> (x = m \<and> y \<in> set ?peers \<or> y = m \<and> x \<in> set ?peers) then 1 else 0)" for x y
    by (rule filter_in_order)
  have "pair_count (fold (count_peer now m) ?peers (db_pairs d)) x y =
      (if x < y then card (shared_sessions (?ss @ [?row]) x y) else 0)" for x y
  proof (cases "x < y")
    case True
    let ?joins = "x = m \<and> y \<in> set ?peers \<or> y = m \<and> x \<in> set ?peers"
    have "shared_sessions (?ss @ [?row]) x y =
        (if ?joins then insert s (shared_sessions ?ss x y) else shared_sessions ?ss x y)"
      unfolding shared_sessions_def peers set_append image_Un
      using True pk by (auto simp: image_iff)
    moreover have "s \<notin> shared_sessions ?ss x y" if ?joins
      using that new by (auto simp: shared_sessions_def)
    ultimately have "card (shared_sessions (?ss @ [?row]) x y) =
        card (shared_sessions ?ss x y) + (if ?joins then 1 else 0)"
      by simp
    then show ?thesis
      using True assms by (simp only: pair_count_peers count pairs_from_sessions_def) simp
  next
    case False
    then show ?thesis using assms by (simp only: pair_count_peers count pairs_from_sessions_def) simp
  qed
  moreover have "distinct (map session_pk (?ss @ [?row]))" using dist new by (simp add: session_pk_def)
  ultimately show ?thesis unfolding pairs_from_sessions_def d' by blast
qed

lemma shared_sessions_forget:
  "shared_sessions (filter (\<lambda>s. sn_memory_id s \<noteq> i) ss) x y =
     (if x = i \<or> y = i then {} else shared_sessions ss x y)"
  by (auto simp: shared_sessions_def session_pk_def image_iff)

lemma pair_count_forget:
  "pair_count (filter (\<lambda>p. cp_memory_id_a p \<noteq> i \<and> cp_memory_id_b p \<noteq> i) t) x y =
     (if x = i \<or> y = i then 0 else pair_count t x y)"
  by (induction t) (auto simp: pair_count_def select_first_def pair_pk_def)

lemma forget_links:
  assumes "distinct (map row_key (db_memories d))"
  shows "fst (delete_memory_by_key k d) = d \<or>
    (\<exists>i. db_sessions (fst (delete_memory_by_key k d)) = filter (\<lambda>s. sn_memory_id s \<noteq> i) (db_sessions d) \<and>
         db_pairs (fst (delete_memory_by_key k d)) =
           filter (\<lambda>p. cp_memory_id_a p \<noteq> i \<and> cp_memory_id_b p \<noteq> i) (db_pairs d))"
proof (cases "find_key d k")
  case None
  then show ?thesis by (simp add: delete_memory_by_key_def)
next
  case (Some r)
  let ?d1 = "scrub_traces r d"
  have "db_memories ?d1 = db_memories d" by (simp add: scrub_traces_def)
  then have "find_key ?d1 k = Some r" "distinct (map row_key (db_memories ?d1))"
    using Some assms by (simp_all add: find_key_def)
  note del = delete_by_key[OF this]
  show ?thesis
    unfolding fst_delete_memory_by_key[OF Some] del
    by (intro disjI2 exI[of _ "row_id r"])
       (simp add: wing_cache_clear_def settle_episode_frame scrub_traces_def delete_where_def)
qed

lemma pairs_from_sessions_forget:
  assumes "pairs_from_sessions d" and "distinct (map row_key (db_memories d))"
  shows "pairs_from_sessions (fst (delete_memory_by_key k d))"
  using forget_links[OF assms(2), of k]
proof (elim disjE exE conjE)
  fix i
  assume "db_sessions (fst (delete_memory_by_key k d)) = filter (\<lambda>s. sn_memory_id s \<noteq> i) (db_sessions d)"
    "db_pairs (fst (delete_memory_by_key k d)) =
       filter (\<lambda>p. cp_memory_id_a p \<noteq> i \<and> cp_memory_id_b p \<noteq> i) (db_pairs d)"
  then show ?thesis using assms(1)
    by (simp add: pairs_from_sessions_def pair_count_forget shared_sessions_forget distinct_map_filter)
qed (use assms(1) in simp)

text \<open>
  C23: The pair counts kept at write time are the ones a rebuild computes: whatever memories are
  associated with sessions, and whatever memories are forgotten, each pair counts the sessions its
  two memories share, and with an empty access log rebuilding the index changes no count.
\<close>

theorem co_retrieval_incremental:
  assumes "pairs_from_sessions d" and "distinct (map row_key (db_memories d))"
  shows "pairs_from_sessions (fst (associate_memory_session now m s d)) \<and>
     pairs_from_sessions (fst (delete_memory_by_key k d)) \<and>
     (db_events d = [] \<longrightarrow>
       (\<forall>x y. pair_count (db_pairs (fst (rebuild_co_retrieval_index E now d))) x y = pair_count (db_pairs d) x y))"
proof -
  have "pair_count (db_pairs (fst (rebuild_co_retrieval_index E now d))) x y = pair_count (db_pairs d) x y"
    if "db_events d = []" for x y
    using assms(1) that
    by (simp add: rebuild_co_retrieval_index_def pair_count_rebuild counted_pairs_def rebuild_events_def
        count_session_pairs pairs_from_sessions_def)
  then show ?thesis
    using pairs_from_sessions_associate[OF assms(1)] pairs_from_sessions_forget[OF assms] by simp
qed

lemma co_retrieval_incremental_witness:
  "pairs_from_sessions (fst (associate_memory_session ''now'' ''i1'' ''s'' toy_db)) \<and>
   (\<forall>E x y. pair_count (db_pairs (fst (rebuild_co_retrieval_index E ''now'' toy_db))) x y = 0)"
proof (intro conjI allI)
  have "pairs_from_sessions toy_db"
    by (simp add: pairs_from_sessions_def toy_db_def empty_db_def pair_count_def select_first_def
        shared_sessions_def)
  moreover have "distinct (map row_key (db_memories toy_db))" by (simp add: toy_db_def empty_db_def toy_memory_def)
  ultimately have step: "pairs_from_sessions (fst (associate_memory_session ''now'' ''i1'' ''s'' toy_db)) \<and>
      pairs_from_sessions (fst (delete_memory_by_key ''k'' toy_db)) \<and>
      (db_events toy_db = [] \<longrightarrow>
        (\<forall>x y. pair_count (db_pairs (fst (rebuild_co_retrieval_index E ''now'' toy_db))) x y =
               pair_count (db_pairs toy_db) x y))" for E
    by (rule co_retrieval_incremental)
  show "pairs_from_sessions (fst (associate_memory_session ''now'' ''i1'' ''s'' toy_db))"
    using step by simp
  show "pair_count (db_pairs (fst (rebuild_co_retrieval_index E ''now'' toy_db))) x y = 0" for E x y
    using step[of E] by (simp add: toy_db_def empty_db_def toy_memory_def pair_count_def select_first_def)
qed

end
