(* ===== verification/Consolidation.thy ===== *)
theory Consolidation
  imports Memory_Links
begin

text \<open>
  Consolidation of memories into a target, \<open>consolidate_into\<close> of
  \<open>spectral-ingest/src/sqlite_store.rs\<close>, and the queries that hide consolidated sources.
\<close>

datatype invalid_source_policy = Abort_All | Skip_And_Report

datatype skip_reason = Source_Not_Found | Already_Consolidated_Elsewhere string | Source_Equals_Target

record 'f consolidation_result =
  cr_consolidated :: "string list"
  cr_skipped :: "(string \<times> skip_reason) list"
  cr_target_score_after :: 'f

definition edge_pk :: "consolidation_edge \<Rightarrow> string \<times> string" where
  "edge_pk e = (ce_source_key e, ce_target_key e)"

definition add_edge :: "string \<Rightarrow> string \<Rightarrow> string \<Rightarrow> consolidation_edge list \<Rightarrow> consolidation_edge list" where
  "add_edge now target source t =
     insert_or_ignore edge_pk \<lparr>ce_source_key = source, ce_target_key = target, ce_consolidated_at = now\<rparr> t"

text \<open>Chain flattening: the sources of \<open>source\<close> point at the new target as well.\<close>

definition flatten_chain :: "string \<Rightarrow> string \<Rightarrow> string \<Rightarrow> consolidation_edge list \<Rightarrow> consolidation_edge list" where
  "flatten_chain now target source t =
     fold (add_edge now target)
       (map ce_source_key (filter (\<lambda>e. ce_target_key e = source \<and> ce_source_key e \<noteq> target) t)) t"

text \<open>
  One source of the loop. The query for an existing target has no \<open>ORDER BY\<close>; the model takes the
  oldest edge.
\<close>

definition consolidate_source ::
    "string \<Rightarrow> invalid_source_policy \<Rightarrow> string \<Rightarrow> string \<Rightarrow>
      'f db \<times> string list \<times> (string \<times> skip_reason) list \<Rightarrow>
      db_error + ('f db \<times> string list \<times> (string \<times> skip_reason) list)" where
  "consolidate_source now policy target source acc =
     (case acc of (d, consolidated, skipped) \<Rightarrow>
       if source = target then Inr (d, consolidated, skipped @ [(source, Source_Equals_Target)])
       else if \<not> has_key d source then
         (if policy = Abort_All then Inl (Source_Missing source)
          else Inr (d, consolidated, skipped @ [(source, Source_Not_Found)]))
       else case map_option ce_target_key (select_first (\<lambda>e. ce_source_key e = source) (db_edges d)) of
         Some existing \<Rightarrow>
           if existing = target then Inr (d, consolidated @ [source], skipped)
           else Inr (d, consolidated, skipped @ [(source, Already_Consolidated_Elsewhere existing)])
       | None \<Rightarrow>
           Inr (d\<lparr>db_edges := flatten_chain now target source (add_edge now target source (db_edges d))\<rparr>,
                consolidated @ [source], skipped))"

fun consolidate_sources ::
    "string \<Rightarrow> invalid_source_policy \<Rightarrow> string \<Rightarrow> string list \<Rightarrow>
      'f db \<times> string list \<times> (string \<times> skip_reason) list \<Rightarrow>
      db_error + ('f db \<times> string list \<times> (string \<times> skip_reason) list)" where
  "consolidate_sources now policy target [] acc = Inr acc"
| "consolidate_sources now policy target (source # sources) acc =
     (case consolidate_source now policy target source acc of
        Inl e \<Rightarrow> Inl e
      | Inr acc1 \<Rightarrow> consolidate_sources now policy target sources acc1)"

definition signal_sum :: "'f db_env \<Rightarrow> string list \<Rightarrow> 'f db \<Rightarrow> 'f" where
  "signal_sum E keys d =
     dv_sum E (map row_signal_score (filter (\<lambda>r. row_key r \<in> set keys) (db_memories d)))"

definition consolidate_into ::
    "'f db_env \<Rightarrow> string \<Rightarrow> invalid_source_policy \<Rightarrow> string list \<Rightarrow> string \<Rightarrow> 'f db \<Rightarrow>
      'f db \<times> (db_error + 'f consolidation_result)" where
  "consolidate_into E now policy source_keys target d =
     (case find_key d target of
        None \<Rightarrow> (d, Inl (Target_Missing target))
      | Some t \<Rightarrow>
          (case consolidate_sources now policy target source_keys (d, [], []) of
             Inl e \<Rightarrow> (d, Inl e)
           | Inr (d1, consolidated, skipped) \<Rightarrow>
               if consolidated = []
               then (d1, Inr \<lparr>cr_consolidated = consolidated, cr_skipped = skipped,
                              cr_target_score_after = row_signal_score t\<rparr>)
               else
                 let new_score = dv_min E (dv_add E (row_signal_score t) (signal_sum E consolidated d1)) (dv_one E)
                 in (wing_cache_clear (update_memories (\<lambda>r. row_key r = target)
                       (\<lambda>r. r\<lparr>row_signal_score := new_score\<rparr>) d1),
                     Inr \<lparr>cr_consolidated = consolidated, cr_skipped = skipped,
                          cr_target_score_after = new_score\<rparr>)))"

definition by_consolidation :: "consolidation_edge \<Rightarrow> consolidation_edge \<Rightarrow> bool" where
  "by_consolidation e g \<longleftrightarrow>
     ce_consolidated_at g < ce_consolidated_at e \<or>
     ce_consolidated_at g = ce_consolidated_at e \<and>
       (ce_source_key e < ce_source_key g \<or>
        ce_source_key e = ce_source_key g \<and> ce_target_key e \<le> ce_target_key g)"

definition list_consolidated :: "string option \<Rightarrow> 'f db \<Rightarrow> consolidation_edge list" where
  "list_consolidated target d =
     (case target of
        Some t \<Rightarrow> order_by by_consolidation (filter (\<lambda>e. ce_target_key e = t) (db_edges d))
      | None \<Rightarrow> order_by by_consolidation (db_edges d))"

definition consolidated_source_keys :: "'f db \<Rightarrow> string set" where
  "consolidated_source_keys d = set (map ce_source_key (db_edges d))"

definition list_unconsolidated :: "nat \<Rightarrow> 'f db \<Rightarrow> string list" where
  "list_unconsolidated limit d =
     map row_key (take limit (order_by
       (\<lambda>r q. row_created_at q < row_created_at r \<or> row_created_at q = row_created_at r \<and> row_id q \<le> row_id r)
       (filter (\<lambda>r. \<not> list_ex (\<lambda>e. ce_source_key e = row_key r) (db_edges d)) (db_memories d))))"

subsection \<open>What a consolidation does\<close>

lemma sources_add_edge [simp]: "ce_source_key ` set (add_edge now t s es) = insert s (ce_source_key ` set es)"
proof (cases "\<exists>x \<in> set es. edge_pk x = (s, t)")
  case True
  then have "s \<in> ce_source_key ` set es" by (auto simp: edge_pk_def)
  with True show ?thesis by (auto simp: add_edge_def insert_or_ignore_def edge_pk_def)
next
  case False
  then show ?thesis by (auto simp: add_edge_def insert_or_ignore_def edge_pk_def)
qed

lemma set_add_edge_mono: "set es \<subseteq> set (add_edge now t s es)"
  by (auto simp: add_edge_def insert_or_ignore_def)

lemma sources_fold_add_edge:
  "ce_source_key ` set (fold (add_edge now t) ss es) = ce_source_key ` set es \<union> set ss"
  by (induction ss arbitrary: es) auto

lemma fold_add_edge_mono: "set es \<subseteq> set (fold (add_edge now t) ss es)"
proof (induction ss arbitrary: es)
  case (Cons s ss)
  have "set es \<subseteq> set (add_edge now t s es)" by (rule set_add_edge_mono)
  also have "\<dots> \<subseteq> set (fold (add_edge now t) ss (add_edge now t s es))" by (rule Cons)
  finally show ?case by simp
qed simp

lemma sources_flatten [simp]:
  "ce_source_key ` set (flatten_chain now t s es) = ce_source_key ` set es"
  by (auto simp: flatten_chain_def sources_fold_add_edge)

lemma flatten_mono: "set es \<subseteq> set (flatten_chain now t s es)"
  unfolding flatten_chain_def by (rule fold_add_edge_mono)

lemma added_edge: "\<exists>e \<in> set (add_edge now t s es). edge_pk e = (s, t)"
  by (auto simp: add_edge_def insert_or_ignore_def edge_pk_def)

lemma flatten_frame: "edge_pk e = p \<Longrightarrow> e \<in> set es \<Longrightarrow> \<exists>g \<in> set (flatten_chain now t s es). edge_pk g = p"
  using flatten_mono[of es now t s] by blast

text \<open>One round of the loop: what each list gains, and that only edges change.\<close>

text \<open>
  When a skip reason holds: the policy of aborting never skips a missing source, and the other
  target that a source is said to have is one it has an edge into.
\<close>

definition skip_reason_holds ::
    "invalid_source_policy \<Rightarrow> string \<Rightarrow> 'f db \<Rightarrow> consolidation_edge list \<Rightarrow> string \<Rightarrow> skip_reason \<Rightarrow> bool" where
  "skip_reason_holds policy target d es k why =
     (case why of
        Source_Equals_Target \<Rightarrow> k = target
      | Source_Not_Found \<Rightarrow> k \<noteq> target \<and> \<not> has_key d k \<and> policy = Skip_And_Report
      | Already_Consolidated_Elsewhere t \<Rightarrow> k \<noteq> target \<and> has_key d k \<and> t \<noteq> target \<and>
          (\<exists>e \<in> set es. edge_pk e = (k, t)))"

lemma skip_reason_mono:
  "skip_reason_holds policy target d es k why \<Longrightarrow> set es \<subseteq> set es' \<Longrightarrow> skip_reason_holds policy target d es' k why"
  by (auto simp: skip_reason_holds_def split: skip_reason.splits)

lemma skip_reason_has_key:
  "(\<And>k. has_key d k = has_key d' k) \<Longrightarrow>
     skip_reason_holds policy target d es k why = skip_reason_holds policy target d' es k why"
  by (simp add: skip_reason_holds_def split: skip_reason.splits)

lemma consolidate_source_spec:
  assumes "consolidate_source now policy target source (d, cs, ks) = Inr (d', cs', ks')"
  shows "db_memories d' = db_memories d \<and> set (db_edges d) \<subseteq> set (db_edges d') \<and>
    d' = d\<lparr>db_edges := db_edges d'\<rparr> \<and>
    (cs' = cs @ [source] \<and> ks' = ks \<and> source \<noteq> target \<and> has_key d source \<and>
       (\<exists>e \<in> set (db_edges d'). edge_pk e = (source, target)) \<or>
     (\<exists>why. cs' = cs \<and> ks' = ks @ [(source, why)] \<and>
        skip_reason_holds policy target d (db_edges d') source why))"
proof (cases "source = target \<or> \<not> has_key d source")
  case True
  then show ?thesis using assms
    by (cases policy) (auto simp: consolidate_source_def skip_reason_holds_def split: if_splits)
next
  case False
  show ?thesis
  proof (cases "select_first (\<lambda>e. ce_source_key e = source) (db_edges d)")
    case None
    let ?es = "flatten_chain now target source (add_edge now target source (db_edges d))"
    have d': "d' = d\<lparr>db_edges := ?es\<rparr>" "cs' = cs @ [source]" "ks' = ks"
      using False None assms by (auto simp: consolidate_source_def)
    have "set (db_edges d) \<subseteq> set ?es"
      using set_add_edge_mono flatten_mono by (rule subset_trans)
    moreover obtain e where "e \<in> set (add_edge now target source (db_edges d))" "edge_pk e = (source, target)"
      using added_edge[of now target source "db_edges d"] by blast
    then have "\<exists>g \<in> set ?es. edge_pk g = (source, target)" by (intro flatten_frame)
    ultimately show ?thesis using False d' by simp
  next
    case (Some e)
    then have "e \<in> set (db_edges d)" "ce_source_key e = source" by (auto dest: select_first_Some)
    then show ?thesis using False Some assms
      by (auto simp: consolidate_source_def edge_pk_def skip_reason_holds_def split: if_splits)
  qed
qed

lemma consolidate_sources_spec:
  assumes "consolidate_sources now policy target sources (d, cs, ks) = Inr (d', cs', ks')"
  shows "\<exists>cs1 ks1. cs' = cs @ cs1 \<and> ks' = ks @ ks1 \<and> length cs1 + length ks1 = length sources \<and>
    set cs1 \<union> fst ` set ks1 = set sources \<and>
    db_memories d' = db_memories d \<and> set (db_edges d) \<subseteq> set (db_edges d') \<and>
    d' = d\<lparr>db_edges := db_edges d'\<rparr> \<and>
    (\<forall>k \<in> set cs1. k \<noteq> target \<and> has_key d k \<and> (\<exists>e \<in> set (db_edges d'). edge_pk e = (k, target))) \<and>
    (\<forall>(k, why) \<in> set ks1. skip_reason_holds policy target d (db_edges d') k why)"
  using assms
proof (induction sources arbitrary: d cs ks)
  case Nil
  then show ?case by simp
next
  case (Cons source sources)
  then obtain d1 cs1 ks1 where step: "consolidate_source now policy target source (d, cs, ks) = Inr (d1, cs1, ks1)"
    and rest: "consolidate_sources now policy target sources (d1, cs1, ks1) = Inr (d', cs', ks')"
    by (auto split: sum.splits)
  note one = consolidate_source_spec[OF step]
  from Cons.IH[OF rest] obtain cs2 ks2 where ih:
    "cs' = cs1 @ cs2" "ks' = ks1 @ ks2" "length cs2 + length ks2 = length sources"
    "set cs2 \<union> fst ` set ks2 = set sources" "db_memories d' = db_memories d1"
    "set (db_edges d1) \<subseteq> set (db_edges d')" "d' = d1\<lparr>db_edges := db_edges d'\<rparr>"
    "\<forall>k \<in> set cs2. k \<noteq> target \<and> has_key d1 k \<and> (\<exists>e \<in> set (db_edges d'). edge_pk e = (k, target))"
    "\<forall>(k, why) \<in> set ks2. skip_reason_holds policy target d1 (db_edges d') k why"
    by blast
  have mem: "has_key d1 k = has_key d k" for k using one by (simp add: has_key_def)
  note reasons = ih(9)[unfolded skip_reason_has_key[of d1 d, OF mem]]
  have d1: "d1 = d\<lparr>db_edges := db_edges d1\<rparr>" and sub: "set (db_edges d) \<subseteq> set (db_edges d1)"
    using one by blast+
  have frame: "d' = d\<lparr>db_edges := db_edges d'\<rparr>"
    by (subst ih(7), subst d1) simp
  have edges: "set (db_edges d) \<subseteq> set (db_edges d')" using sub ih(6) by (rule subset_trans)
  from one consider
    (taken) "cs1 = cs @ [source]" "ks1 = ks" "source \<noteq> target" "has_key d source"
      "\<exists>e \<in> set (db_edges d1). edge_pk e = (source, target)"
    | (skipped) why where "cs1 = cs" "ks1 = ks @ [(source, why)]"
      "skip_reason_holds policy target d (db_edges d1) source why"
    by (elim conjE disjE exE) simp_all
  then show ?case
  proof cases
    case taken
    have "\<exists>e \<in> set (db_edges d'). edge_pk e = (source, target)" using taken(5) ih(6) by blast
    then show ?thesis using taken ih(1-8) reasons edges frame mem one
      by (intro exI[of _ "source # cs2"] exI[of _ ks2]) auto
  next
    case (skipped why)
    then show ?thesis using ih(1-8) reasons edges frame mem one skip_reason_mono[OF skipped(3) ih(6)]
      by (intro exI[of _ cs2] exI[of _ "(source, why) # ks2"]) auto
  qed
qed

text \<open>
  C19: A consolidation accounts for every source: each is reported as consolidated, and then it is an
  existing memory other than the target with an edge into the target, or as skipped,
  and then the reason given holds: it is the target itself, no memory has its key (and the policy
  is to skip), or it is a memory with an edge into the other target that is named; no edge is lost,
  and of the memories only the score of the target changes. A failed one changes nothing.
\<close>

theorem consolidate_accounts:
  assumes "consolidate_into E now policy sources target d = (d', res)"
  shows "case res of
      Inl e \<Rightarrow> d' = d
    | Inr r \<Rightarrow> length (cr_consolidated r) + length (cr_skipped r) = length sources \<and>
        set (cr_consolidated r) \<union> fst ` set (cr_skipped r) = set sources \<and>
        (\<forall>k \<in> set (cr_consolidated r). k \<noteq> target \<and> has_key d k \<and> k \<in> consolidated_source_keys d' \<and>
           (\<exists>e \<in> set (db_edges d'). edge_pk e = (k, target))) \<and>
        (\<forall>(k, why) \<in> set (cr_skipped r). case why of
             Source_Equals_Target \<Rightarrow> k = target
           | Source_Not_Found \<Rightarrow> k \<noteq> target \<and> \<not> has_key d k \<and> policy = Skip_And_Report
           | Already_Consolidated_Elsewhere t \<Rightarrow> k \<noteq> target \<and> has_key d k \<and> t \<noteq> target \<and>
               (\<exists>e \<in> set (db_edges d'). edge_pk e = (k, t))) \<and>
        set (db_edges d) \<subseteq> set (db_edges d') \<and>
        map (row_signal_score_update (\<lambda>x. cr_target_score_after r)) (filter (\<lambda>q. row_key q = target) (db_memories d)) =
          map (row_signal_score_update (\<lambda>x. cr_target_score_after r)) (filter (\<lambda>q. row_key q = target) (db_memories d')) \<and>
        filter (\<lambda>q. row_key q \<noteq> target) (db_memories d') = filter (\<lambda>q. row_key q \<noteq> target) (db_memories d)"
proof (cases "find_key d target")
  case None
  then show ?thesis using assms by (auto simp: consolidate_into_def)
next
  case (Some t)
  show ?thesis
  proof (cases "consolidate_sources now policy target sources (d, [], [])")
    case (Inl e)
    then show ?thesis using assms Some by (auto simp: consolidate_into_def)
  next
    case (Inr acc)
    then obtain d1 cs ks where run: "consolidate_sources now policy target sources (d, [], []) = Inr (d1, cs, ks)"
      by (cases acc) auto
    from consolidate_sources_spec[OF run] have spec:
      "length cs + length ks = length sources" "set cs \<union> fst ` set ks = set sources"
      "db_memories d1 = db_memories d" "set (db_edges d) \<subseteq> set (db_edges d1)"
      "\<forall>k \<in> set cs. k \<noteq> target \<and> has_key d k \<and> (\<exists>e \<in> set (db_edges d1). edge_pk e = (k, target))"
      "\<forall>(k, why) \<in> set ks. skip_reason_holds policy target d (db_edges d1) k why"
      by simp_all
    note why = spec(6)[unfolded skip_reason_holds_def]
    have src: "k \<in> ce_source_key ` set (db_edges d1)" if "k \<in> set cs" for k
      using spec(5) that by (force simp: edge_pk_def)
    obtain r where r: "res = Inr r" "cr_consolidated r = cs" "cr_skipped r = ks"
        "db_edges d' = db_edges d1"
        "db_memories d' = update_where (\<lambda>q. row_key q = target \<and> cs \<noteq> [])
           (row_signal_score_update (\<lambda>x. cr_target_score_after r)) (db_memories d)"
      using assms Some run spec(3)
      by (auto simp: consolidate_into_def Let_def wing_cache_clear_def update_memories_def update_where_def
          split: if_splits)
    have "filter (\<lambda>q. row_key q \<noteq> target) (update_where (\<lambda>q. row_key q = target \<and> cs \<noteq> [])
        (row_signal_score_update (\<lambda>x. v)) ms) = filter (\<lambda>q. row_key q \<noteq> target) ms"
      and "map (row_signal_score_update (\<lambda>x. v)) (filter (\<lambda>q. row_key q = target) ms) =
        map (row_signal_score_update (\<lambda>x. v)) (filter (\<lambda>q. row_key q = target)
          (update_where (\<lambda>q. row_key q = target \<and> cs \<noteq> []) (row_signal_score_update (\<lambda>x. v)) ms))"
      for v and ms :: "'a memory_row list"
      by (induction ms) (auto simp: update_where_def)
    then show ?thesis
      unfolding r(1) using spec(1-5) why src r by (simp add: consolidated_source_keys_def)
  qed
qed

definition toy_floats :: "nat db_env" where
  "toy_floats =
     \<lparr>dv_hash = (\<lambda>s. s), dv_sha16 = (\<lambda>s. s), dv_add = (+), dv_min = min, dv_le = (\<le>), dv_zero = 0,
      dv_sum = sum_list, dv_one = 100, dv_ids_of_json = (\<lambda>s. None), dv_json_of_ids = concat,
      dv_datetime = Some\<rparr>"

definition toy_trio :: "nat db" where
  "toy_trio = empty_db\<lparr>db_memories := [toy_memory, toy_memory\<lparr>row_id := ''i2'', row_key := ''k2''\<rparr>]\<rparr>"

lemma consolidate_accounts_witness:
  "\<exists>d' r. consolidate_into toy_floats ''now'' Skip_And_Report [''k1'', ''k9''] ''k2'' toy_trio = (d', Inr r) \<and>
     length (cr_consolidated r) + length (cr_skipped r) = 2"
proof -
  obtain d' res where run: "consolidate_into toy_floats ''now'' Skip_And_Report [''k1'', ''k9''] ''k2'' toy_trio = (d', res)"
    by (cases "consolidate_into toy_floats ''now'' Skip_And_Report [''k1'', ''k9''] ''k2'' toy_trio")
  moreover obtain r where "res = Inr r"
    using run by (auto simp: consolidate_into_def find_key_def select_first_def toy_trio_def toy_memory_def
        consolidate_source_def has_key_def empty_db_def Let_def split: if_splits)
  moreover from consolidate_accounts[OF run] this
  have "length (cr_consolidated r) + length (cr_skipped r) = 2" by simp
  ultimately show ?thesis by blast
qed

subsection \<open>Consolidating one source\<close>

lemma no_edge_first: "k \<notin> ce_source_key ` set es \<Longrightarrow> select_first (\<lambda>e. ce_source_key e = k) es = None"
  by (auto simp: select_first_None)

lemma find_key_has: "find_key d k = Some r \<Longrightarrow> has_key d k"
  by (auto simp: find_key_def has_key_def dest: select_first_Some)

lemma has_key_find: "has_key d k \<Longrightarrow> \<exists>r. find_key d k = Some r"
  by (cases "find_key d k") (auto simp: find_key_def has_key_def select_first_None)

definition rescored :: "string \<Rightarrow> 'f \<Rightarrow> 'f memory_row \<Rightarrow> 'f memory_row" where
  "rescored target v r = (if row_key r = target then r\<lparr>row_signal_score := v\<rparr> else r)"

lemma row_key_rescored [simp]: "row_key (rescored t v r) = row_key r"
  by (simp add: rescored_def)

text \<open>A source without an edge, and a source whose only edge is into the target already.\<close>

lemma consolidate_one:
  assumes t: "find_key d t = Some r" and s: "has_key d s" "s \<noteq> t"
    and "s \<notin> ce_source_key ` set (db_edges d)"
  shows "\<exists>d1 v. consolidate_into E now Skip_And_Report [s] t d =
      (d1, Inr \<lparr>cr_consolidated = [s], cr_skipped = [], cr_target_score_after = v\<rparr>) \<and>
    v = dv_min E (dv_add E (row_signal_score r) (signal_sum E [s] d)) (dv_one E) \<and>
    db_memories d1 = map (rescored t v) (db_memories d) \<and>
    db_edges d1 = flatten_chain now t s (add_edge now t s (db_edges d))"
  using assms
  by (simp add: consolidate_into_def consolidate_source_def no_edge_first Let_def wing_cache_clear_def
      update_memories_def update_where_def rescored_def signal_sum_def)

lemma consolidate_one_again:
  assumes t: "find_key d t = Some r" and s: "has_key d s" "s \<noteq> t"
    and "select_first (\<lambda>e. ce_source_key e = s) (db_edges d) = Some e" "ce_target_key e = t"
  shows "\<exists>d1 v. consolidate_into E now Skip_And_Report [s] t d =
      (d1, Inr \<lparr>cr_consolidated = [s], cr_skipped = [], cr_target_score_after = v\<rparr>) \<and>
    v = dv_min E (dv_add E (row_signal_score r) (signal_sum E [s] d)) (dv_one E) \<and>
    db_edges d1 = db_edges d"
  using assms
  by (simp add: consolidate_into_def consolidate_source_def Let_def wing_cache_clear_def
      update_memories_def signal_sum_def)

lemma find_key_map_rescored:
  "db_memories d1 = map (rescored t v) (db_memories d) \<Longrightarrow> find_key d1 k = map_option (rescored t v) (find_key d k)"
  unfolding find_key_def select_first_def by (simp add: find_map_key)

lemma has_key_map_rescored:
  "db_memories d1 = map (rescored t v) (db_memories d) \<Longrightarrow> has_key d1 k = has_key d k"
  by (auto simp: has_key_def)

lemma signal_sum_rescored:
  assumes "db_memories d1 = map (rescored t v) (db_memories d)" and "s \<noteq> t"
  shows "signal_sum E [s] d1 = signal_sum E [s] d"
proof -
  have "map row_signal_score (filter (\<lambda>r. row_key r = s) (map (rescored t v) ms)) =
      map row_signal_score (filter (\<lambda>r. row_key r = s) ms)" for ms :: "'a memory_row list"
    using assms(2) by (induction ms) (auto simp: rescored_def)
  then show ?thesis using assms(1) by (simp add: signal_sum_def)
qed

lemma select_source_after:
  assumes "s \<notin> ce_source_key ` set es"
  shows "\<exists>e. select_first (\<lambda>e. ce_source_key e = s) (flatten_chain now t s (add_edge now t s es)) = Some e \<and>
    ce_target_key e = t"
proof -
  let ?es = "flatten_chain now t s (add_edge now t s es)"
  have others: "\<forall>e \<in> set (fold (add_edge now t) ss xs). ce_source_key e = s \<longrightarrow> ce_target_key e = t"
    if "\<forall>e \<in> set xs. ce_source_key e = s \<longrightarrow> ce_target_key e = t" for ss xs
    using that
  proof (induction ss arbitrary: xs)
    case (Cons a ss)
    have "\<forall>e \<in> set (add_edge now t a xs). ce_source_key e = s \<longrightarrow> ce_target_key e = t"
      using Cons.prems by (auto simp: add_edge_def insert_or_ignore_def)
    from Cons.IH[OF this] show ?case by simp
  qed simp
  have "\<forall>e \<in> set ?es. ce_source_key e = s \<longrightarrow> ce_target_key e = t"
    unfolding flatten_chain_def
    by (rule others) (use assms in \<open>auto simp: add_edge_def insert_or_ignore_def\<close>)
  moreover have "s \<in> ce_source_key ` set ?es" by (simp only: sources_flatten sources_add_edge insertI1)
  then have "select_first (\<lambda>e. ce_source_key e = s) ?es \<noteq> None"
    by (simp only: select_first_None) blast
  ultimately show ?thesis by (auto dest: select_first_Some)
qed

text \<open>
  Repeating a consolidation is not harmless: the edge stays as it was, but the score of the
  source is added to the score of the target a second time.
\<close>

theorem consolidate_again_adds_again:
  assumes "find_key d t = Some r" and "has_key d s" and "s \<noteq> t"
    and "s \<notin> ce_source_key ` set (db_edges d)"
    and "d1 = fst (consolidate_into E now Skip_And_Report [s] t d)"
    and "x = signal_sum E [s] d"
  shows "\<exists>d2. consolidate_into E later Skip_And_Report [s] t d1 =
      (d2, Inr \<lparr>cr_consolidated = [s], cr_skipped = [], cr_target_score_after =
         dv_min E (dv_add E (dv_min E (dv_add E (row_signal_score r) x) (dv_one E)) x) (dv_one E)\<rparr>) \<and>
    db_edges d2 = db_edges d1"
proof -
  obtain v where v: "v = dv_min E (dv_add E (row_signal_score r) x) (dv_one E)"
      "db_memories d1 = map (rescored t v) (db_memories d)"
      "db_edges d1 = flatten_chain now t s (add_edge now t s (db_edges d))"
    using consolidate_one[OF assms(1-4), of E now] assms(5,6) by auto
  have "row_key r = t" using assms(1) by (auto simp: find_key_def dest: select_first_Some)
  then have "find_key d1 t = Some (r\<lparr>row_signal_score := v\<rparr>)"
    using find_key_map_rescored[OF v(2)] assms(1) by (simp add: rescored_def)
  moreover have "has_key d1 s" using has_key_map_rescored[OF v(2)] assms(2) by simp
  moreover obtain e where "select_first (\<lambda>e. ce_source_key e = s) (db_edges d1) = Some e" "ce_target_key e = t"
    using select_source_after[OF assms(4)] v(3) by metis
  ultimately obtain d2 where "consolidate_into E later Skip_And_Report [s] t d1 =
      (d2, Inr \<lparr>cr_consolidated = [s], cr_skipped = [], cr_target_score_after =
         dv_min E (dv_add E v (signal_sum E [s] d1)) (dv_one E)\<rparr>)" "db_edges d2 = db_edges d1"
    using consolidate_one_again[of d1 t "r\<lparr>row_signal_score := v\<rparr>" s e E later] assms(3) by auto
  then show ?thesis using signal_sum_rescored[OF v(2) assms(3)] v(1) assms(6) by auto
qed

lemma consolidate_again_adds_again_witness:
  "\<exists>d2 rs. consolidate_into toy_floats ''later'' Skip_And_Report [''k1''] ''k2''
      (fst (consolidate_into toy_floats ''now'' Skip_And_Report [''k1''] ''k2'' toy_trio)) = (d2, Inr rs) \<and>
    cr_target_score_after rs = 15"
proof -
  have "find_key toy_trio ''k2'' = Some (toy_memory\<lparr>row_id := ''i2'', row_key := ''k2''\<rparr>)"
    by (simp add: find_key_def select_first_def toy_trio_def toy_memory_def)
  moreover have "has_key toy_trio ''k1''" by (simp add: has_key_def toy_trio_def toy_memory_def)
  moreover have "''k1'' \<notin> ce_source_key ` set (db_edges toy_trio)" by (simp add: toy_trio_def empty_db_def)
  moreover have "signal_sum toy_floats [''k1''] toy_trio = 5"
    by (simp add: signal_sum_def toy_floats_def toy_trio_def toy_memory_def)
  ultimately show ?thesis
    using consolidate_again_adds_again[of toy_trio "''k2''" _ "''k1''" _ toy_floats "''now''" 5 "''later''"]
    by (fastforce simp: toy_floats_def toy_memory_def)
qed

text \<open>
  Two consolidations can hide both memories: after \<open>a\<close> into \<open>b\<close> and then \<open>b\<close> into \<open>a\<close>, which are
  both reported as done, each is a consolidated source and neither is listed for recall.
\<close>

theorem consolidation_cycle_hides_both:
  assumes "has_key d a" and "has_key d b" and "a \<noteq> b"
    and "a \<notin> ce_source_key ` set (db_edges d)" and "b \<notin> ce_source_key ` set (db_edges d)"
    and "consolidate_into E now Skip_And_Report [a] b d = (d1, res1)"
    and "consolidate_into E later Skip_And_Report [b] a d1 = (d2, res2)"
  shows "(\<exists>r1 r2. res1 = Inr r1 \<and> cr_consolidated r1 = [a] \<and> res2 = Inr r2 \<and> cr_consolidated r2 = [b]) \<and>
    a \<in> consolidated_source_keys d2 \<and> b \<in> consolidated_source_keys d2 \<and>
    a \<notin> set (list_unconsolidated limit d2) \<and> b \<notin> set (list_unconsolidated limit d2)"
proof -
  obtain rb where "find_key d b = Some rb" using has_key_find[OF assms(2)] by blast
  from consolidate_one[OF this assms(1,3,4), of E now] assms(6) obtain v where
    one: "res1 = Inr \<lparr>cr_consolidated = [a], cr_skipped = [], cr_target_score_after = v\<rparr>"
      "db_memories d1 = map (rescored b v) (db_memories d)"
      "db_edges d1 = flatten_chain now b a (add_edge now b a (db_edges d))"
    by auto
  have hb: "has_key d1 b" "has_key d1 a" using has_key_map_rescored[OF one(2)] assms(1,2) by simp_all
  obtain ra where ra: "find_key d1 a = Some ra" using has_key_find[OF hb(2)] by blast
  have src1: "ce_source_key ` set (db_edges d1) = insert a (ce_source_key ` set (db_edges d))"
    using one(3) by simp
  then have nb: "b \<notin> ce_source_key ` set (db_edges d1)" using assms(3,5) by simp
  have "b \<noteq> a" using assms(3) by simp
  from consolidate_one[OF ra hb(1) this nb, of E later] assms(7) obtain u where
    two: "res2 = Inr \<lparr>cr_consolidated = [b], cr_skipped = [], cr_target_score_after = u\<rparr>"
      "db_edges d2 = flatten_chain later a b (add_edge later a b (db_edges d1))"
    by auto
  have src2: "ce_source_key ` set (db_edges d2) = insert b (insert a (ce_source_key ` set (db_edges d)))"
    using two(2) src1 by simp
  have hidden: "k \<notin> set (list_unconsolidated limit d2)" if "k \<in> ce_source_key ` set (db_edges d2)" for k
    using that by (auto simp: list_unconsolidated_def list_ex_iff dest: in_set_takeD)
  show ?thesis using one(1) two(1) src2 hidden by (simp add: consolidated_source_keys_def)
qed

lemma consolidation_cycle_hides_both_witness:
  "\<exists>d2. ''k1'' \<notin> set (list_unconsolidated 9 d2) \<and> ''k2'' \<notin> set (list_unconsolidated 9 d2) \<and>
     d2 = fst (consolidate_into toy_floats ''later'' Skip_And_Report [''k2''] ''k1''
       (fst (consolidate_into toy_floats ''now'' Skip_And_Report [''k1''] ''k2'' toy_trio)))"
proof -
  have "has_key toy_trio ''k1''" "has_key toy_trio ''k2''" "''k1'' \<noteq> ''k2''"
    by (simp_all add: has_key_def toy_trio_def toy_memory_def)
  moreover have "ce_source_key ` set (db_edges toy_trio) = {}" by (simp add: toy_trio_def empty_db_def)
  ultimately show ?thesis
    using consolidation_cycle_hides_both[of toy_trio "''k1''" "''k2''" toy_floats "''now''" _ _ "''later''" _ _ 9]
    by (metis empty_iff prod.collapse)
qed

end
