(* ===== verification/Turn_Ledger.thy ===== *)
theory Turn_Ledger
  imports Consolidation
begin

text \<open>
  The turn-outcome ledger: \<open>record_turn_delivery\<close>, \<open>commit_turn_outcomes\<close>, \<open>void_turn\<close> and
  \<open>memory_outcome_evidence\<close> of \<open>spectral-ingest/src/sqlite_store.rs\<close> with the types of \<open>lib.rs\<close>,
  and the state machine of one turn that they implement.
\<close>

datatype ledger_outcome = Used | Wrong | Ignored | Unreported

fun outcome_as_str :: "ledger_outcome \<Rightarrow> string" where
  "outcome_as_str Used = ''used''"
| "outcome_as_str Wrong = ''wrong''"
| "outcome_as_str Ignored = ''ignored''"
| "outcome_as_str Unreported = ''unreported''"

definition outcome_from_db_str :: "string \<Rightarrow> ledger_outcome" where
  "outcome_from_db_str s =
     (if s = ''used'' then Used else if s = ''wrong'' then Wrong
      else if s = ''ignored'' then Ignored else Unreported)"

lemma outcome_labels [simp]: "outcome_from_db_str (outcome_as_str x) = x"
  by (cases x) (simp_all add: outcome_from_db_str_def)

lemma outcome_as_str_inject [simp]: "outcome_as_str x = outcome_as_str y \<longleftrightarrow> x = y"
  by (metis outcome_labels)

record turn_delivery =
  td_occurrence_id :: string
  td_delivery_digest :: string
  td_query_hash :: "string option"
  td_session_id :: "string option"
  td_policy :: string
  td_delivered_at :: string
  td_members :: "(nat \<times> string \<times> string) list"

subsection \<open>Delivery\<close>

definition turn_row :: "turn_delivery \<Rightarrow> turn_event" where
  "turn_row t =
     \<lparr>tv_occurrence_id = td_occurrence_id t, tv_delivery_digest = td_delivery_digest t,
      tv_query_hash = td_query_hash t, tv_session_id = td_session_id t, tv_policy = td_policy t,
      tv_delivered_at = td_delivered_at t, tv_committed_at = None, tv_voided_at = None\<rparr>"

definition member_pk :: "turn_member \<Rightarrow> string \<times> string" where
  "member_pk m = (tm_occurrence_id m, tm_memory_id m)"

fun insert_members :: "string \<Rightarrow> (nat \<times> string \<times> string) list \<Rightarrow> 'f db \<Rightarrow> db_error + 'f db" where
  "insert_members occ [] d = Inr d"
| "insert_members occ ((rank, memory_id, memory_key) # ms) d =
     (if \<exists>x \<in> set (db_members d). member_pk x = (occ, memory_id) then insert_members occ ms d
      else if \<not> has_memory d memory_id then Inl (Foreign_Key memory_id)
      else insert_members occ ms (d\<lparr>db_members := db_members d @
             [\<lparr>tm_occurrence_id = occ, tm_rank = rank, tm_memory_id = memory_id,
               tm_memory_key = memory_key, tm_outcome = ''unreported''\<rparr>]\<rparr>))"

definition record_turn_delivery :: "turn_delivery \<Rightarrow> 'f db \<Rightarrow> 'f db \<times> (db_error + unit)" where
  "record_turn_delivery t d =
     (let d1 = d\<lparr>db_turns := insert_or_ignore tv_occurrence_id (turn_row t) (db_turns d)\<rparr>
      in case insert_members (td_occurrence_id t) (td_members t) d1 of
           Inl e \<Rightarrow> (d, Inl e)
         | Inr d2 \<Rightarrow> (d2, Inr ()))"

subsection \<open>Outcomes\<close>

definition find_turn :: "'f db \<Rightarrow> string \<Rightarrow> turn_event option" where
  "find_turn d occ = select_first (\<lambda>t. tv_occurrence_id t = occ) (db_turns d)"

definition of_key :: "string \<Rightarrow> string \<Rightarrow> turn_member \<Rightarrow> bool" where
  "of_key occ key m \<longleftrightarrow> tm_occurrence_id m = occ \<and> tm_memory_key m = key"

definition credited :: "'f db_env \<Rightarrow> string \<Rightarrow> 'f \<Rightarrow> 'f memory_row \<Rightarrow> 'f memory_row" where
  "credited E now strength r =
     r\<lparr>row_signal_score := dv_min E (dv_one E) (dv_add E (row_signal_score r) strength),
       row_last_reinforced_at := Some now, row_updated_at := now\<rparr>"

definition apply_outcome ::
    "'f db_env \<Rightarrow> string \<Rightarrow> string \<Rightarrow> 'f \<Rightarrow> string \<times> ledger_outcome \<Rightarrow> 'f db \<times> nat \<Rightarrow> 'f db \<times> nat" where
  "apply_outcome E now occ strength ko acc =
     (case (ko, acc) of ((key, outcome), (d, changed)) \<Rightarrow>
       let n = count_where (of_key occ key) (db_members d);
           d1 = d\<lparr>db_members := update_where (of_key occ key)
                   (\<lambda>m. m\<lparr>tm_outcome := outcome_as_str outcome\<rparr>) (db_members d)\<rparr>
       in (if outcome = Used \<and> n > 0
           then update_memories (\<lambda>r. row_key r = key) (credited E now strength) d1 else d1,
           changed + n))"

definition commit_turn_outcomes ::
    "'f db_env \<Rightarrow> string \<Rightarrow> string \<Rightarrow> (string \<times> ledger_outcome) list \<Rightarrow> 'f \<Rightarrow> string \<Rightarrow> 'f db \<Rightarrow>
      'f db \<times> (db_error + nat)" where
  "commit_turn_outcomes E now occ outcomes strength committed_at d =
     (let row = find_turn d occ
      in if \<exists>t. row = Some t \<and> tv_voided_at t \<noteq> None then (d, Inl (Turn_Voided occ))
         else if \<exists>t. row = Some t \<and> tv_committed_at t \<noteq> None then (d, Inr 0)
         else
           let (d1, changed) = fold (apply_outcome E now occ strength) outcomes (d, 0)
           in (d1\<lparr>db_turns := update_where (\<lambda>t. tv_occurrence_id t = occ)
                    (\<lambda>t. t\<lparr>tv_committed_at := Some committed_at\<rparr>) (db_turns d1)\<rparr>, Inr changed))"

definition void_turn :: "string \<Rightarrow> string \<Rightarrow> 'f db \<Rightarrow> 'f db \<times> (db_error + bool)" where
  "void_turn occ voided_at d =
     (case find_turn d occ of
        None \<Rightarrow> (d, Inl (Unknown_Turn occ))
      | Some t \<Rightarrow>
          if tv_committed_at t \<noteq> None then (d, Inl (Turn_Committed occ))
          else if tv_voided_at t \<noteq> None then (d, Inr False)
          else (d\<lparr>db_turns := update_where (\<lambda>t. tv_occurrence_id t = occ)
                   (\<lambda>t. t\<lparr>tv_voided_at := Some voided_at\<rparr>) (db_turns d)\<rparr>, Inr True))"

subsection \<open>Evidence\<close>

record outcome_evidence =
  oe_memory_id :: string
  oe_memory_key :: string
  oe_delivered :: nat
  oe_used :: nat
  oe_wrong :: nat
  oe_ignored :: nat
  oe_unreported :: nat
  oe_best_rank :: nat

definition not_voided :: "'f db \<Rightarrow> turn_member \<Rightarrow> bool" where
  "not_voided d m \<longleftrightarrow>
     (\<exists>t \<in> set (db_turns d). tv_occurrence_id t = tm_occurrence_id m \<and> tv_voided_at t = None)"

definition evidence_of :: "turn_member list \<Rightarrow> string \<times> string \<Rightarrow> outcome_evidence" where
  "evidence_of ms g =
     (let rows = filter (\<lambda>m. (tm_memory_id m, tm_memory_key m) = g) ms;
          labelled = (\<lambda>x. count_where (\<lambda>m. tm_outcome m = outcome_as_str x) rows)
      in \<lparr>oe_memory_id = fst g, oe_memory_key = snd g, oe_delivered = length rows,
          oe_used = labelled Used, oe_wrong = labelled Wrong, oe_ignored = labelled Ignored,
          oe_unreported = labelled Unreported,
          oe_best_rank = (case map tm_rank rows of [] \<Rightarrow> 0 | n # ns \<Rightarrow> fold min ns n)\<rparr>)"

definition memory_outcome_evidence :: "nat \<Rightarrow> 'f db \<Rightarrow> outcome_evidence list" where
  "memory_outcome_evidence limit d =
     (let ms = filter (not_voided d) (db_members d);
          groups = remdups (map (\<lambda>m. (tm_memory_id m, tm_memory_key m)) ms)
      in take limit (order_by
           (\<lambda>x y. oe_delivered y < oe_delivered x \<or>
                  oe_delivered y = oe_delivered x \<and> oe_memory_id x \<le> oe_memory_id y)
           (map (evidence_of ms) groups)))"

definition delivered_never_used :: "nat \<Rightarrow> outcome_evidence \<Rightarrow> bool" where
  "delivered_never_used min_deliveries e \<longleftrightarrow> oe_delivered e \<ge> min_deliveries \<and> oe_used e = 0"

end
