(* ===== verification/Turn_Machine.thy ===== *)
theory Turn_Machine
  imports Turn_Ledger
begin

text \<open>
  The life of one turn as a state machine, and the ledger as an implementation of it: every operation
  is a step of the machine of the turn it names and leaves the machines of the other turns alone.
\<close>

datatype phase = Fresh | Open | Adjudicated | Abandoned

datatype request = Deliver | Commit | Void

datatype answer = Accepted | Refused

inductive turn_step :: "phase \<Rightarrow> request \<Rightarrow> answer \<Rightarrow> phase \<Rightarrow> bool" where
  delivered: "turn_step Fresh Deliver Accepted Open"
| redelivered: "p \<noteq> Fresh \<Longrightarrow> turn_step p Deliver Accepted p"
| not_delivered: "turn_step p Deliver Refused p"
| committed: "turn_step Open Commit Accepted Adjudicated"
| recommitted: "turn_step Adjudicated Commit Accepted Adjudicated"
| commit_unknown: "turn_step Fresh Commit Accepted Fresh"
| commit_abandoned: "turn_step Abandoned Commit Refused Abandoned"
| voided: "turn_step Open Void Accepted Abandoned"
| revoided: "turn_step Abandoned Void Accepted Abandoned"
| void_refused: "p \<in> {Fresh, Adjudicated} \<Longrightarrow> turn_step p Void Refused p"

inductive_cases terminal_stepE: "turn_step Adjudicated q a p" "turn_step Abandoned q a p"

inductive turn_run :: "phase \<Rightarrow> (request \<times> answer) list \<Rightarrow> phase \<Rightarrow> bool" where
  stay: "turn_run p [] p"
| step: "turn_step p q a p1 \<Longrightarrow> turn_run p1 tr p2 \<Longrightarrow> turn_run p ((q, a) # tr) p2"

lemma terminal_step: "turn_step p q a p' \<Longrightarrow> p = Adjudicated \<or> p = Abandoned \<Longrightarrow> p' = p"
  by (auto elim: terminal_stepE)

lemma terminal_run: "turn_run p tr p' \<Longrightarrow> p = Adjudicated \<or> p = Abandoned \<Longrightarrow> p' = p"
proof (induction rule: turn_run.induct)
  case (step p q a p1 tr p2)
  then have "p1 = p" by (blast dest: terminal_step)
  then show ?case using step by simp
qed simp

subsection \<open>The operations as requests\<close>

datatype 'f ledger_op =
    Deliver_Op turn_delivery
  | Commit_Op string "(string \<times> ledger_outcome) list" 'f string string
  | Void_Op string string
  | Forget_Op string

fun subject :: "'f ledger_op \<Rightarrow> (string \<times> request) option" where
  "subject (Deliver_Op t) = Some (td_occurrence_id t, Deliver)"
| "subject (Commit_Op occ outcomes strength now committed_at) = Some (occ, Commit)"
| "subject (Void_Op occ voided_at) = Some (occ, Void)"
| "subject (Forget_Op key) = None"

definition answer_of :: "'e + 'r \<Rightarrow> answer" where
  "answer_of r = (case r of Inl e \<Rightarrow> Refused | Inr x \<Rightarrow> Accepted)"

fun run_op :: "'f db_env \<Rightarrow> 'f ledger_op \<Rightarrow> 'f db \<Rightarrow> 'f db \<times> answer" where
  "run_op E (Deliver_Op t) d = map_prod (\<lambda>x. x) answer_of (record_turn_delivery t d)"
| "run_op E (Commit_Op occ outcomes strength now committed_at) d =
     map_prod (\<lambda>x. x) answer_of (commit_turn_outcomes E now occ outcomes strength committed_at d)"
| "run_op E (Void_Op occ voided_at) d = map_prod (\<lambda>x. x) answer_of (void_turn occ voided_at d)"
| "run_op E (Forget_Op key) d = (fst (delete_memory_by_key key d), Accepted)"

text \<open>The store after a sequence of operations, and what a turn saw of it.\<close>

fun run_ops :: "'f db_env \<Rightarrow> 'f ledger_op list \<Rightarrow> 'f db \<Rightarrow> 'f db" where
  "run_ops E [] d = d"
| "run_ops E (op # ops) d = run_ops E ops (fst (run_op E op d))"

fun trace_of :: "'f db_env \<Rightarrow> string \<Rightarrow> 'f ledger_op list \<Rightarrow> 'f db \<Rightarrow> (request \<times> answer) list" where
  "trace_of E occ [] d = []"
| "trace_of E occ (op # ops) d =
     (case subject op of
        Some (o1, q) \<Rightarrow> if o1 = occ then [(q, snd (run_op E op d))] else []
      | None \<Rightarrow> []) @ trace_of E occ ops (fst (run_op E op d))"

definition turn_phase :: "turn_event \<Rightarrow> phase" where
  "turn_phase t =
     (if tv_voided_at t \<noteq> None then Abandoned else if tv_committed_at t \<noteq> None then Adjudicated else Open)"

definition phase_of :: "'f db \<Rightarrow> string \<Rightarrow> phase" where
  "phase_of d occ = (case find_turn d occ of None \<Rightarrow> Fresh | Some t \<Rightarrow> turn_phase t)"

subsection \<open>The simulation\<close>

lemma phase_of_cong: "db_turns d' = db_turns d \<Longrightarrow> phase_of d' occ = phase_of d occ"
  by (simp add: phase_of_def find_turn_def)

lemma select_insert:
  "select_first (\<lambda>x. key x = k) (insert_or_ignore key r t) =
     (case select_first (\<lambda>x. key x = k) t of Some x \<Rightarrow> Some x | None \<Rightarrow> if key r = k then Some r else None)"
proof (cases "\<exists>x \<in> set t. key x = key r")
  case True
  then have "key r = k \<Longrightarrow> select_first (\<lambda>x. key x = k) t \<noteq> None" by (auto simp: select_first_None)
  then show ?thesis using True by (auto simp: insert_or_ignore_def split: option.split)
next
  case False
  have "select_first P (t @ [r]) = (case select_first P t of Some x \<Rightarrow> Some x | None \<Rightarrow> if P r then Some r else None)" for P
    unfolding select_first_def by (induction t) auto
  then show ?thesis using False by (simp add: insert_or_ignore_def)
qed

lemma find_turn_update:
  assumes "\<And>t. tv_occurrence_id (f t) = tv_occurrence_id t"
  shows "select_first (\<lambda>t. tv_occurrence_id t = occ) (update_where (\<lambda>t. tv_occurrence_id t = o1) f ts) =
    map_option (\<lambda>t. if tv_occurrence_id t = o1 then f t else t) (select_first (\<lambda>t. tv_occurrence_id t = occ) ts)"
  unfolding select_first_def update_where_def by (rule find_map_key) (simp add: assms)

lemma insert_members_frame:
  "insert_members occ ms d = Inr d' \<Longrightarrow> \<exists>t. d' = d\<lparr>db_members := t\<rparr>"
proof (induction occ ms d arbitrary: d' rule: insert_members.induct)
  case (1 occ d)
  then show ?case by (intro exI[of _ "db_members d"]) simp
next
  case (2 occ rank memory_id memory_key ms d)
  show ?case
  proof (cases "\<exists>x \<in> set (db_members d). member_pk x = (occ, memory_id)")
    case True
    then have "insert_members occ ms d = Inr d'" using 2(3) by simp
    then show ?thesis by (rule 2(1)[OF True])
  next
    case False
    then have mem: "\<not> \<not> has_memory d memory_id" using 2(3) by (auto split: if_splits)
    have "\<exists>t. d' = (d\<lparr>db_members := db_members d @
             [\<lparr>tm_occurrence_id = occ, tm_rank = rank, tm_memory_id = memory_id,
               tm_memory_key = memory_key, tm_outcome = ''unreported''\<rparr>]\<rparr>)\<lparr>db_members := t\<rparr>"
      by (rule 2(2)[OF False mem]) (use 2(3) False mem in simp)
    then show ?thesis by simp
  qed
qed

lemma insert_members_turns: "insert_members occ ms d = Inr d' \<Longrightarrow> db_turns d' = db_turns d"
  using insert_members_frame[of occ ms d d'] by auto

lemma phase_record:
  "turn_step (phase_of d (td_occurrence_id t)) Deliver (answer_of (snd (record_turn_delivery t d)))
     (phase_of (fst (record_turn_delivery t d)) (td_occurrence_id t)) \<and>
   (occ \<noteq> td_occurrence_id t \<longrightarrow> phase_of (fst (record_turn_delivery t d)) occ = phase_of d occ)"
proof -
  let ?d1 = "d\<lparr>db_turns := insert_or_ignore tv_occurrence_id (turn_row t) (db_turns d)\<rparr>"
  let ?o = "td_occurrence_id t"
  show ?thesis
  proof (cases "insert_members ?o (td_members t) ?d1")
    case (Inl e)
    then show ?thesis by (simp add: record_turn_delivery_def answer_of_def not_delivered)
  next
    case (Inr d2)
    then have "db_turns d2 = insert_or_ignore tv_occurrence_id (turn_row t) (db_turns d)"
      using insert_members_turns[OF Inr] by simp
    moreover have "turn_phase (turn_row t) = Open" "tv_occurrence_id (turn_row t) = ?o" "turn_phase x \<noteq> Fresh" for x
      by (simp_all add: turn_row_def turn_phase_def)
    ultimately have p: "phase_of d2 x = (if x = ?o \<and> phase_of d x = Fresh then Open else phase_of d x)" for x
      by (simp add: phase_of_def find_turn_def select_insert split: option.split)
    have "phase_of d ?o = Fresh \<or> phase_of d ?o \<noteq> Fresh" by blast
    then show ?thesis using Inr p
      by (auto simp: record_turn_delivery_def answer_of_def intro: delivered redelivered)
  qed
qed

lemma apply_outcomes_turns:
  "db_turns (fst (fold (apply_outcome E now occ strength) outcomes (d, n))) = db_turns d"
proof (induction outcomes arbitrary: d n)
  case (Cons ko outcomes)
  have "db_turns (fst (apply_outcome E now occ strength ko (d, n))) = db_turns d"
    by (cases ko) (simp add: apply_outcome_def Let_def update_memories_def)
  then show ?case using Cons by (cases "apply_outcome E now occ strength ko (d, n)") simp
qed simp

lemma phase_update:
  assumes "\<And>t. tv_occurrence_id (f t) = tv_occurrence_id t" and "db_turns d1 = db_turns d"
  shows "phase_of (d1\<lparr>db_turns := update_where (\<lambda>t. tv_occurrence_id t = o1) f (db_turns d1)\<rparr>) x =
    (if x = o1 then (case find_turn d x of None \<Rightarrow> Fresh | Some t \<Rightarrow> turn_phase (f t)) else phase_of d x)"
proof (cases "find_turn d x")
  case None
  then show ?thesis using find_turn_update[of f x o1, OF assms(1)] assms(2)
    by (auto simp: phase_of_def find_turn_def)
next
  case (Some t)
  then have "tv_occurrence_id t = x" unfolding find_turn_def by (auto dest: select_first_Some)
  then show ?thesis using Some find_turn_update[of f x o1, OF assms(1)] assms(2)
    by (auto simp: phase_of_def find_turn_def)
qed

text \<open>No turn is both committed and voided.\<close>

definition exclusive :: "'f db \<Rightarrow> bool" where
  "exclusive d \<longleftrightarrow> (\<forall>t \<in> set (db_turns d). tv_committed_at t = None \<or> tv_voided_at t = None)"

lemma phase_commit:
  "turn_step (phase_of d o1) Commit (answer_of (snd (commit_turn_outcomes E now o1 outcomes strength at d)))
     (phase_of (fst (commit_turn_outcomes E now o1 outcomes strength at d)) o1) \<and>
   (occ \<noteq> o1 \<longrightarrow> phase_of (fst (commit_turn_outcomes E now o1 outcomes strength at d)) occ = phase_of d occ)"
proof -
  obtain d1 n where run: "fold (apply_outcome E now o1 strength) outcomes (d, 0) = (d1, n)"
    by (cases "fold (apply_outcome E now o1 strength) outcomes (d, 0)")
  have turns: "db_turns d1 = db_turns d"
    using apply_outcomes_turns[of E now o1 strength outcomes d 0] run by simp
  let ?f = "\<lambda>t. t\<lparr>tv_committed_at := Some at\<rparr>"
  note upd = phase_update[of ?f d1 d o1, OF _ turns, simplified]
  show ?thesis
  proof (cases "find_turn d o1")
    case None
    then show ?thesis
      using run upd by (simp add: commit_turn_outcomes_def answer_of_def phase_of_def[of d] commit_unknown)
  next
    case (Some t)
    then show ?thesis
      using run upd
      by (auto simp: commit_turn_outcomes_def answer_of_def phase_of_def[of d] turn_phase_def
          intro: committed recommitted commit_abandoned)
  qed
qed

lemma phase_void:
  assumes "exclusive d"
  shows "turn_step (phase_of d o1) Void (answer_of (snd (void_turn o1 at d))) (phase_of (fst (void_turn o1 at d)) o1) \<and>
   (occ \<noteq> o1 \<longrightarrow> phase_of (fst (void_turn o1 at d)) occ = phase_of d occ)"
proof (cases "find_turn d o1")
  case None
  then show ?thesis by (simp add: void_turn_def phase_of_def answer_of_def void_refused)
next
  case (Some t)
  then have "tv_committed_at t = None \<or> tv_voided_at t = None"
    using assms by (auto simp: exclusive_def find_turn_def dest: select_first_Some)
  then show ?thesis
    using Some phase_update[of "\<lambda>t. t\<lparr>tv_voided_at := Some at\<rparr>" d d o1, simplified]
    by (auto simp: void_turn_def answer_of_def phase_of_def[of d] turn_phase_def
        intro: voided revoided void_refused)
qed

lemma forget_turns: "db_turns (fst (delete_memory_by_key key d)) = db_turns d"
proof (cases "find_key d key")
  case None
  then show ?thesis by (simp add: delete_memory_by_key_def)
next
  case (Some r)
  show ?thesis
    unfolding fst_delete_memory_by_key[OF Some]
    by (simp add: wing_cache_clear_def settle_episode_frame delete_memories_def Let_def scrub_traces_def)
qed

lemma record_turns:
  "db_turns (fst (record_turn_delivery t d)) = db_turns d \<or>
   db_turns (fst (record_turn_delivery t d)) = insert_or_ignore tv_occurrence_id (turn_row t) (db_turns d)"
proof (cases "insert_members (td_occurrence_id t) (td_members t)
    (d\<lparr>db_turns := insert_or_ignore tv_occurrence_id (turn_row t) (db_turns d)\<rparr>)")
  case (Inl e)
  then show ?thesis by (simp add: record_turn_delivery_def Let_def)
next
  case (Inr d2)
  then show ?thesis using insert_members_turns[OF Inr] by (simp add: record_turn_delivery_def Let_def)
qed

lemma unique_turn:
  assumes "distinct (map tv_occurrence_id (db_turns d))" "t \<in> set (db_turns d)" "tv_occurrence_id t = occ"
  shows "find_turn d occ = Some t"
  unfolding find_turn_def using assms by (rule select_first_unique)

text \<open>Turns are keyed by their occurrence, and none is both committed and voided.\<close>

definition turns_ok :: "'f db \<Rightarrow> bool" where
  "turns_ok d \<longleftrightarrow> distinct (map tv_occurrence_id (db_turns d)) \<and> exclusive d"

lemma turns_ok_cong: "db_turns d' = db_turns d \<Longrightarrow> turns_ok d' = turns_ok d"
  by (simp add: turns_ok_def exclusive_def)

lemma turns_ok_op:
  assumes "turns_ok d"
  shows "turns_ok (fst (run_op E op d))"
proof (cases op)
  case (Deliver_Op t)
  have "turns_ok (d\<lparr>db_turns := insert_or_ignore tv_occurrence_id (turn_row t) (db_turns d)\<rparr>)"
    using assms by (auto simp: turns_ok_def exclusive_def distinct_insert_or_ignore set_insert_or_ignore turn_row_def)
  then have "turns_ok (fst (record_turn_delivery t d))"
    using record_turns[of t d] assms by (auto simp: turns_ok_def exclusive_def)
  then show ?thesis using Deliver_Op by simp
next
  case (Commit_Op occ outcomes strength now at)
  obtain d1 n where run: "fold (apply_outcome E now occ strength) outcomes (d, 0) = (d1, n)"
    by (cases "fold (apply_outcome E now occ strength) outcomes (d, 0)")
  have turns: "db_turns d1 = db_turns d"
    using apply_outcomes_turns[of E now occ strength outcomes d 0] run by simp
  show ?thesis
  proof (cases "\<exists>t \<in> set (db_turns d). tv_occurrence_id t = occ \<and> tv_voided_at t \<noteq> None")
    case True
    then have "\<exists>t. find_turn d occ = Some t \<and> tv_voided_at t \<noteq> None"
      using assms unique_turn unfolding turns_ok_def by blast
    then show ?thesis using assms Commit_Op by (simp add: commit_turn_outcomes_def)
  next
    case False
    let ?ts = "update_where (\<lambda>t. tv_occurrence_id t = occ) (\<lambda>t. t\<lparr>tv_committed_at := Some at\<rparr>) (db_turns d)"
    have "map tv_occurrence_id ?ts = map tv_occurrence_id (db_turns d)" by (rule map_update_where_key) simp
    moreover have "\<forall>t \<in> set ?ts. tv_committed_at t = None \<or> tv_voided_at t = None"
      using assms False by (auto simp: set_update_where turns_ok_def exclusive_def)
    ultimately have "turns_ok (d1\<lparr>db_turns := ?ts\<rparr>)"
      using assms by (simp add: turns_ok_def exclusive_def)
    then show ?thesis using assms Commit_Op run turns
      by (simp add: commit_turn_outcomes_def Let_def)
  qed
next
  case (Void_Op occ at)
  show ?thesis
  proof (cases "find_turn d occ")
    case None
    then show ?thesis using assms Void_Op by (simp add: void_turn_def)
  next
    case (Some t)
    have uniq: "x = t" if "x \<in> set (db_turns d)" "tv_occurrence_id x = occ" for x
      using unique_turn[of d x occ] that assms Some by (simp add: turns_ok_def)
    let ?ts = "update_where (\<lambda>t. tv_occurrence_id t = occ) (\<lambda>t. t\<lparr>tv_voided_at := Some at\<rparr>) (db_turns d)"
    have "map tv_occurrence_id ?ts = map tv_occurrence_id (db_turns d)" by (rule map_update_where_key) simp
    moreover have "\<forall>t \<in> set ?ts. tv_committed_at t = None \<or> tv_voided_at t = None" if "tv_committed_at t = None"
      using assms uniq that by (auto simp: set_update_where turns_ok_def exclusive_def)
    ultimately have "tv_committed_at t = None \<Longrightarrow> turns_ok (d\<lparr>db_turns := ?ts\<rparr>)"
      using assms by (simp add: turns_ok_def exclusive_def)
    then show ?thesis using assms Void_Op Some by (simp add: void_turn_def)
  qed
next
  case (Forget_Op key)
  have "turns_ok (fst (delete_memory_by_key key d))" using assms by (simp add: turns_ok_def exclusive_def forget_turns)
  then show ?thesis unfolding Forget_Op by simp
qed

lemma turns_ok_ops: "turns_ok d \<Longrightarrow> turns_ok (run_ops E ops d)"
  by (induction ops arbitrary: d) (auto intro: turns_ok_op)

lemma op_is_step:
  assumes "turns_ok d"
  shows "case subject op of
      Some (o1, q) \<Rightarrow> turn_step (phase_of d o1) q (snd (run_op E op d)) (phase_of (fst (run_op E op d)) o1) \<and>
        (occ \<noteq> o1 \<longrightarrow> phase_of (fst (run_op E op d)) occ = phase_of d occ)
    | None \<Rightarrow> phase_of (fst (run_op E op d)) occ = phase_of d occ"
proof (cases op)
  case (Void_Op o1 at)
  have "exclusive d" using assms by (simp add: turns_ok_def)
  from phase_void[OF this] show ?thesis unfolding Void_Op by simp
qed (use phase_record phase_commit phase_of_cong[OF forget_turns] in simp_all)

lemma ops_are_run:
  "turns_ok d \<Longrightarrow> turn_run (phase_of d occ) (trace_of E occ ops d) (phase_of (run_ops E ops d) occ)"
proof (induction ops arbitrary: d)
  case (Cons op ops)
  let ?d1 = "fst (run_op E op d)"
  have rest: "turn_run (phase_of ?d1 occ) (trace_of E occ ops ?d1) (phase_of (run_ops E ops ?d1) occ)"
    by (rule Cons.IH) (rule turns_ok_op[OF Cons.prems])
  show ?case
  proof (cases "subject op")
    case None
    then show ?thesis using rest op_is_step[OF Cons.prems, where op = op and E = E and occ = occ] by simp
  next
    case (Some oq)
    then obtain o1 q where oq: "subject op = Some (o1, q)" by (cases oq) auto
    note st = op_is_step[OF Cons.prems, where op = op and E = E and occ = occ, unfolded oq, simplified]
    show ?thesis
    proof (cases "o1 = occ")
      case True
      then show ?thesis using rest st oq by (auto intro: turn_run.step)
    next
      case False
      then show ?thesis using rest st oq by simp
    qed
  qed
qed (simp add: stay)

text \<open>
  C3: The ledger refines the life of a turn: whatever sequence of deliveries, commits, voids and
  forgets runs on the store, what any one turn sees of it is a run of the machine from its phase
  before to its phase after. So a turn that was adjudicated or abandoned stays so, never both.
\<close>

theorem ledger_refines_turn_machine:
  assumes "turns_ok d"
  shows "turn_run (phase_of d occ) (trace_of E occ ops d) (phase_of (run_ops E ops d) occ) \<and>
    turns_ok (run_ops E ops d) \<and>
    (phase_of d occ \<in> {Adjudicated, Abandoned} \<longrightarrow> phase_of (run_ops E ops d) occ = phase_of d occ)"
  using ops_are_run[OF assms, of occ E ops] turns_ok_ops[OF assms] by (auto dest: terminal_run)

definition toy_delivery :: turn_delivery where
  "toy_delivery =
     \<lparr>td_occurrence_id = ''t1'', td_delivery_digest = ''dg'', td_query_hash = None, td_session_id = None,
      td_policy = ''v1'', td_delivered_at = ''2026'', td_members = [(0, ''i1'', ''k1'')]\<rparr>"

lemma ledger_refines_turn_machine_witness:
  "turn_run Fresh (trace_of toy_floats ''t1'' [Deliver_Op toy_delivery, Void_Op ''t1'' ''now''] toy_db)
     (phase_of (run_ops toy_floats [Deliver_Op toy_delivery, Void_Op ''t1'' ''now''] toy_db) ''t1'')"
proof -
  have "turns_ok toy_db" by (simp add: turns_ok_def exclusive_def toy_db_def empty_db_def)
  moreover have "phase_of toy_db ''t1'' = Fresh"
    by (simp add: phase_of_def find_turn_def toy_db_def empty_db_def select_first_def)
  ultimately show ?thesis by (metis ledger_refines_turn_machine)
qed

end
