(* ===== verification/Turn_Deferred.thy ===== *)
theory Turn_Deferred
  imports Turn_Machine
begin

text \<open>
  Deferred delivery writes and deferred voids of \<open>Brain\<close>, \<open>spectral-graph/src/brain.rs\<close>. A spawned
  write is a task that has not run or has finished with a result; the runtime may run any of them
  between two calls (\<open>background\<close>). The hash map of handles is kept in insertion order; a handle that
  is replaced leaves its task running with nobody to await it.
\<close>

datatype task = Running turn_delivery | Finished "db_error + unit"

datatype brain_error = Read_Only string | Store_Error db_error | Delivery_Write db_error

record 'f turn_state =
  bs_db :: "'f db"
  bs_read_only :: bool
  bs_async_turn_delivery :: bool
  bs_pending :: "(string \<times> task) list"
  bs_detached :: "turn_delivery list"
  bs_voids :: "string list"

definition is_finished :: "task \<Rightarrow> bool" where
  "is_finished t = (case t of Running x \<Rightarrow> False | Finished r \<Rightarrow> True)"

definition ensure_writable :: "'f turn_state \<Rightarrow> string \<Rightarrow> brain_error option" where
  "ensure_writable b op = (if bs_read_only b then Some (Read_Only op) else None)"

subsection \<open>The runtime\<close>

datatype slot = Pending_Slot string | Detached_Slot nat

definition run_task :: "'f turn_state \<Rightarrow> task \<Rightarrow> 'f turn_state \<times> (db_error + unit)" where
  "run_task b t =
     (case t of
        Running x \<Rightarrow> (case record_turn_delivery x (bs_db b) of (d, r) \<Rightarrow> (b\<lparr>bs_db := d\<rparr>, r))
      | Finished r \<Rightarrow> (b, r))"

definition background_step :: "slot \<Rightarrow> 'f turn_state \<Rightarrow> 'f turn_state" where
  "background_step sl b =
     (case sl of
        Pending_Slot occ \<Rightarrow>
          (case map_of (bs_pending b) occ of
             None \<Rightarrow> b
           | Some t \<Rightarrow>
               (case run_task b t of (b1, r) \<Rightarrow>
                  b1\<lparr>bs_pending := map (\<lambda>(k, x). if k = occ then (k, Finished r) else (k, x)) (bs_pending b)\<rparr>))
      | Detached_Slot i \<Rightarrow>
          (if i < length (bs_detached b)
           then (fst (run_task b (Running (bs_detached b ! i))))
                  \<lparr>bs_detached := take i (bs_detached b) @ drop (Suc i) (bs_detached b)\<rparr>
           else b))"

definition background :: "slot list \<Rightarrow> 'f turn_state \<Rightarrow> 'f turn_state" where
  "background sched b = fold background_step sched b"

subsection \<open>Deliveries\<close>

definition running_of :: "(string \<times> task) list \<Rightarrow> string \<Rightarrow> turn_delivery list" where
  "running_of ps occ = (case map_of ps occ of Some (Running x) \<Rightarrow> [x] | _ \<Rightarrow> [])"

definition brain_record_turn_delivery :: "turn_delivery \<Rightarrow> 'f turn_state \<Rightarrow> 'f turn_state \<times> (brain_error + unit)" where
  "brain_record_turn_delivery t b =
     (case ensure_writable b ''record_turn_delivery'' of
        Some e \<Rightarrow> (b, Inl e)
      | None \<Rightarrow>
          if bs_async_turn_delivery b then
            let retained = filter (\<lambda>(k, h). \<not> is_finished h) (bs_pending b);
                occ = td_occurrence_id t
            in (b\<lparr>bs_pending := filter (\<lambda>(k, h). k \<noteq> occ) retained @ [(occ, Running t)],
                  bs_detached := bs_detached b @ running_of retained occ\<rparr>, Inr ())
          else (case record_turn_delivery t (bs_db b) of
                  (d, Inl e) \<Rightarrow> (b\<lparr>bs_db := d\<rparr>, Inl (Store_Error e))
                | (d, Inr u) \<Rightarrow> (b\<lparr>bs_db := d\<rparr>, Inr ())))"

definition set_async_turn_delivery :: "bool \<Rightarrow> 'f turn_state \<Rightarrow> 'f turn_state" where
  "set_async_turn_delivery on b = b\<lparr>bs_async_turn_delivery := on\<rparr>"

definition await_pending_delivery :: "string \<Rightarrow> 'f turn_state \<Rightarrow> 'f turn_state \<times> (brain_error + unit)" where
  "await_pending_delivery occ b =
     (case map_of (bs_pending b) occ of
        None \<Rightarrow> (b, Inr ())
      | Some t \<Rightarrow>
          (case run_task (b\<lparr>bs_pending := filter (\<lambda>(k, h). k \<noteq> occ) (bs_pending b)\<rparr>) t of
             (b1, Inl e) \<Rightarrow> (b1, Inl (Delivery_Write e))
           | (b1, Inr u) \<Rightarrow> (b1, Inr ())))"

subsection \<open>Outcomes and voids\<close>

definition brain_commit_turn_outcomes ::
    "'f db_env \<Rightarrow> string \<Rightarrow> string \<Rightarrow> string \<Rightarrow> (string \<times> ledger_outcome) list \<Rightarrow> 'f \<Rightarrow> 'f turn_state \<Rightarrow>
      'f turn_state \<times> (brain_error + nat)" where
  "brain_commit_turn_outcomes E now at occ outcomes strength b =
     (case ensure_writable b ''commit_turn_outcomes'' of
        Some e \<Rightarrow> (b, Inl e)
      | None \<Rightarrow>
          (case await_pending_delivery occ b of
             (b1, Inl e) \<Rightarrow> (b1, Inl e)
           | (b1, Inr u) \<Rightarrow>
               (case commit_turn_outcomes E now occ outcomes strength at (bs_db b1) of
                  (d, Inl e) \<Rightarrow> (b1\<lparr>bs_db := d\<rparr>, Inl (Store_Error e))
                | (d, Inr n) \<Rightarrow> (b1\<lparr>bs_db := d\<rparr>, Inr n))))"

definition brain_void_turn :: "string \<Rightarrow> string \<Rightarrow> 'f turn_state \<Rightarrow> 'f turn_state \<times> (brain_error + bool)" where
  "brain_void_turn at occ b =
     (case ensure_writable b ''void_turn'' of
        Some e \<Rightarrow> (b, Inl e)
      | None \<Rightarrow>
          (case await_pending_delivery occ b of
             (b1, Inl e) \<Rightarrow> (b1, Inl e)
           | (b1, Inr u) \<Rightarrow>
               (case void_turn occ at (bs_db b1) of
                  (d, Inl e) \<Rightarrow> (b1\<lparr>bs_db := d\<rparr>, Inl (Store_Error e))
                | (d, Inr v) \<Rightarrow> (b1\<lparr>bs_db := d\<rparr>, Inr v))))"

definition void_turn_deferred :: "string \<Rightarrow> 'f turn_state \<Rightarrow> 'f turn_state" where
  "void_turn_deferred occ b = b\<lparr>bs_voids := bs_voids b @ [occ]\<rparr>"

definition drain_void ::
    "string \<Rightarrow> string \<Rightarrow> 'f turn_state \<times> nat \<times> brain_error list \<Rightarrow> 'f turn_state \<times> nat \<times> brain_error list" where
  "drain_void at occ acc =
     (case acc of (b, n, errs) \<Rightarrow>
        (case brain_void_turn at occ b of
           (b1, Inr True) \<Rightarrow> (b1, n + 1, errs)
         | (b1, Inr False) \<Rightarrow> (b1, n, errs)
         | (b1, Inl e) \<Rightarrow> (b1, n, errs @ [e])))"

definition drain_pending_voids :: "string \<Rightarrow> 'f turn_state \<Rightarrow> 'f turn_state \<times> nat \<times> brain_error list" where
  "drain_pending_voids at b = fold (drain_void at) (bs_voids b) (b\<lparr>bs_voids := []\<rparr>, 0, [])"

definition await_handle ::
    "string \<times> task \<Rightarrow> 'f turn_state \<times> brain_error option \<Rightarrow> 'f turn_state \<times> brain_error option" where
  "await_handle h acc =
     (case acc of (b, first) \<Rightarrow>
        (case run_task b (snd h) of
           (b1, Inl e) \<Rightarrow> (b1, if first = None then Some (Delivery_Write e) else first)
         | (b1, Inr u) \<Rightarrow> (b1, first)))"

definition flush_turn_deliveries :: "string \<Rightarrow> 'f turn_state \<Rightarrow> 'f turn_state \<times> (brain_error + unit)" where
  "flush_turn_deliveries at b =
     (case drain_pending_voids at b of (b1, n, errs) \<Rightarrow>
        (case fold await_handle (bs_pending b1) (b1\<lparr>bs_pending := []\<rparr>, case errs of [] \<Rightarrow> None | e # es \<Rightarrow> Some e) of
           (b2, None) \<Rightarrow> (b2, Inr ())
         | (b2, Some e) \<Rightarrow> (b2, Inl e)))"

subsection \<open>What a pending write guarantees\<close>

text \<open>Each member of the delivery is a memory of the store; each has its row in the ledger.\<close>

definition deliverable :: "'f db \<Rightarrow> turn_delivery \<Rightarrow> bool" where
  "deliverable d t \<longleftrightarrow> (\<forall>(rank, i, k) \<in> set (td_members t). has_memory d i)"

definition landed :: "'f db \<Rightarrow> turn_delivery \<Rightarrow> bool" where
  "landed d t \<longleftrightarrow>
     (\<forall>(rank, i, k) \<in> set (td_members t). (td_occurrence_id t, i) \<in> member_pk ` set (db_members d))"

lemma insert_members_total:
  assumes "\<forall>(rank, i, k) \<in> set ms. has_memory d i"
  shows "\<exists>d'. insert_members occ ms d = Inr d' \<and>
    (\<forall>(rank, i, k) \<in> set ms. (occ, i) \<in> member_pk ` set (db_members d'))"
  using assms
proof (induction occ ms d rule: insert_members.induct)
  case (2 occ rank i k ms d)
  let ?row = "\<lparr>tm_occurrence_id = occ, tm_rank = rank, tm_memory_id = i, tm_memory_key = k,
      tm_outcome = ''unreported''\<rparr>"
  have grows: "member_pk ` set (db_members d) \<subseteq> member_pk ` set (db_members d')"
    if "insert_members occ ms d = Inr d'" for ms and d d' :: "'a db"
    using that by (induction occ ms d rule: insert_members.induct) (fastforce split: if_splits)+
  show ?case
  proof (cases "\<exists>x \<in> set (db_members d). member_pk x = (occ, i)")
    case True
    with 2 obtain d' where "insert_members occ ms d = Inr d'"
        "\<forall>(rank, i, k) \<in> set ms. (occ, i) \<in> member_pk ` set (db_members d')" by auto
    moreover have "(occ, i) \<in> member_pk ` set (db_members d)" using True by (metis imageI)
    ultimately have "\<forall>(rank, i, k) \<in> set ((rank, i, k) # ms). (occ, i) \<in> member_pk ` set (db_members d')"
      using subsetD[OF grows] by (simp only: list.set ball_simps(7) prod.case)
    then show ?thesis using \<open>insert_members occ ms d = Inr d'\<close> True by simp
  next
    case False
    let ?d1 = "d\<lparr>db_members := db_members d @ [?row]\<rparr>"
    have mem: "\<not> \<not> has_memory d i" using 2(3) by simp
    have "\<forall>(rank, i, k) \<in> set ms. has_memory ?d1 i" using 2(3) by (auto simp: has_memory_def)
    from 2(2)[OF False mem this] obtain d' where d': "insert_members occ ms ?d1 = Inr d'"
        "\<forall>(rank, i, k) \<in> set ms. (occ, i) \<in> member_pk ` set (db_members d')" by auto
    have "(occ, i) \<in> member_pk ` set (db_members ?d1)" by (simp add: member_pk_def)
    with grows[OF d'(1)] have "(occ, i) \<in> member_pk ` set (db_members d')" by blast
    then show ?thesis using d' False mem by auto
  qed
qed auto

lemma insert_members_grow:
  "insert_members occ ms d = Inr d' \<Longrightarrow> set (db_members d) \<subseteq> set (db_members d')"
  by (induction occ ms d rule: insert_members.induct) (fastforce split: if_splits)+

lemma record_memories [simp]: "db_memories (fst (record_turn_delivery t d)) = db_memories d"
proof (cases "insert_members (td_occurrence_id t) (td_members t)
    (d\<lparr>db_turns := insert_or_ignore tv_occurrence_id (turn_row t) (db_turns d)\<rparr>)")
  case (Inr d2)
  then show ?thesis using insert_members_frame[OF Inr] by (auto simp: record_turn_delivery_def Let_def)
qed (simp add: record_turn_delivery_def Let_def)

lemma record_members: "set (db_members d) \<subseteq> set (db_members (fst (record_turn_delivery t d)))"
proof (cases "insert_members (td_occurrence_id t) (td_members t)
    (d\<lparr>db_turns := insert_or_ignore tv_occurrence_id (turn_row t) (db_turns d)\<rparr>)")
  case (Inr d2)
  then show ?thesis using insert_members_grow[OF Inr] by (simp add: record_turn_delivery_def Let_def)
qed (simp add: record_turn_delivery_def Let_def)

lemma record_lands:
  assumes "deliverable d t"
  shows "snd (record_turn_delivery t d) = Inr () \<and> landed (fst (record_turn_delivery t d)) t"
proof -
  let ?d1 = "d\<lparr>db_turns := insert_or_ignore tv_occurrence_id (turn_row t) (db_turns d)\<rparr>"
  have "\<forall>(rank, i, k) \<in> set (td_members t). has_memory ?d1 i"
    using assms by (simp add: deliverable_def has_memory_def)
  from insert_members_total[OF this, of "td_occurrence_id t"] show ?thesis
    by (auto simp: record_turn_delivery_def Let_def landed_def)
qed

lemma record_keeps_landed: "landed d t \<Longrightarrow> landed (fst (record_turn_delivery x d)) t"
  unfolding landed_def using record_members[of d x] by fastforce

lemma record_phase:
  assumes "phase_of d occ \<in> {Fresh, Open}"
  shows "phase_of (fst (record_turn_delivery x d)) occ \<in> {phase_of d occ, Open}"
  using phase_record[of d x occ] assms by (cases "occ = td_occurrence_id x") (auto elim: turn_step.cases)

lemma record_opens:
  assumes "phase_of d (td_occurrence_id t) \<in> {Fresh, Open}" and "deliverable d t"
  shows "phase_of (fst (record_turn_delivery t d)) (td_occurrence_id t) = Open"
proof -
  have "answer_of (snd (record_turn_delivery t d)) = Accepted"
    using record_lands[OF assms(2)] by (simp add: answer_of_def)
  then have "turn_step (phase_of d (td_occurrence_id t)) Deliver Accepted
      (phase_of (fst (record_turn_delivery t d)) (td_occurrence_id t))"
    using phase_record[of d t] by simp
  then show ?thesis using assms(1) by cases auto
qed

text \<open>What holds of a delivery from the call that spawns its write until it is awaited.\<close>

definition in_flight :: "turn_delivery \<Rightarrow> 'f turn_state \<Rightarrow> bool" where
  "in_flight t b \<longleftrightarrow> \<not> bs_read_only b \<and> deliverable (bs_db b) t \<and>
     phase_of (bs_db b) (td_occurrence_id t) \<in> {Fresh, Open} \<and>
     (map_of (bs_pending b) (td_occurrence_id t) = Some (Running t) \<or>
      map_of (bs_pending b) (td_occurrence_id t) = Some (Finished (Inr ())) \<and>
      landed (bs_db b) t \<and> phase_of (bs_db b) (td_occurrence_id t) = Open)"

lemma map_of_finish:
  "map_of (map (\<lambda>(k, x). if k = occ then (k, v) else (k, x)) ps) k =
     (if k = occ then map_option (\<lambda>x. v) (map_of ps k) else map_of ps k)"
  by (induction ps) auto

lemma map_of_replaced: "map_of (filter (\<lambda>(k, h). k \<noteq> occ) ps @ [(occ, v)]) occ = Some v"
  by (induction ps) auto

lemma in_flight_run:
  assumes "in_flight t b" and "run_task b x = (b1, r)"
  shows "in_flight t b1 \<and> bs_pending b1 = bs_pending b"
proof (cases x)
  case (Running y)
  let ?d = "fst (record_turn_delivery y (bs_db b))"
  have b1: "b1 = b\<lparr>bs_db := ?d\<rparr>" using assms(2) Running by (auto simp: run_task_def split: prod.splits)
  have "deliverable ?d t" using assms(1) by (simp add: in_flight_def deliverable_def has_memory_def)
  then show ?thesis
    using assms(1) record_phase[of "bs_db b" "td_occurrence_id t" y] record_keeps_landed[of "bs_db b" t y]
    by (auto simp: b1 in_flight_def)
next
  case (Finished r')
  then show ?thesis using assms by (simp add: run_task_def)
qed

lemma in_flight_step:
  assumes "in_flight t b"
  shows "in_flight t (background_step sl b)"
proof (cases sl)
  case (Pending_Slot occ)
  show ?thesis
  proof (cases "map_of (bs_pending b) occ")
    case None
    then show ?thesis using Pending_Slot assms by (simp add: background_step_def)
  next
    case (Some x)
    obtain b1 r where run: "run_task b x = (b1, r)" by (cases "run_task b x")
    note b1 = in_flight_run[OF assms run]
    let ?b2 = "b1\<lparr>bs_pending := map (\<lambda>(k, x). if k = occ then (k, Finished r) else (k, x)) (bs_pending b)\<rparr>"
    have step: "background_step sl b = ?b2" using Pending_Slot Some run by (simp add: background_step_def)
    show ?thesis
    proof (cases "occ = td_occurrence_id t")
      case False
      then show ?thesis using b1 by (auto simp: step in_flight_def map_of_finish)
    next
      case True
      consider "x = Running t" | "x = Finished (Inr ())" "landed (bs_db b) t" "phase_of (bs_db b) occ = Open"
        using assms Some True by (auto simp: in_flight_def)
      then show ?thesis
      proof cases
        case 1
        have "deliverable (bs_db b) t" "phase_of (bs_db b) occ \<in> {Fresh, Open}"
          using assms True by (auto simp: in_flight_def)
        with 1 run record_lands[of "bs_db b" t] record_opens[of "bs_db b" t] True
        have "r = Inr ()" "landed (bs_db b1) t" "phase_of (bs_db b1) occ = Open"
          by (auto simp: run_task_def split: prod.splits)
        then show ?thesis using b1 Some True by (simp add: step in_flight_def map_of_finish)
      next
        case 2
        then have "r = Inr ()" "b1 = b" using run by (auto simp: run_task_def)
        then show ?thesis using assms 2 Some True by (simp add: step in_flight_def map_of_finish)
      qed
    qed
  qed
next
  case (Detached_Slot i)
  show ?thesis
  proof (cases "i < length (bs_detached b)")
    case True
    obtain b1 r where run: "run_task b (Running (bs_detached b ! i)) = (b1, r)"
      by (cases "run_task b (Running (bs_detached b ! i))")
    have "in_flight t b1" by (rule in_flight_run[OF assms run, THEN conjunct1])
    then show ?thesis using run Detached_Slot True by (simp add: background_step_def in_flight_def)
  next
    case False
    then show ?thesis using assms Detached_Slot by (simp add: background_step_def)
  qed
qed

lemma in_flight_background: "in_flight t b \<Longrightarrow> in_flight t (background sched b)"
  unfolding background_def by (induction sched arbitrary: b) (auto intro: in_flight_step)

lemma in_flight_awaited:
  assumes "in_flight t b"
  shows "\<exists>b1. await_pending_delivery (td_occurrence_id t) b = (b1, Inr ()) \<and>
    \<not> bs_read_only b1 \<and> landed (bs_db b1) t \<and> phase_of (bs_db b1) (td_occurrence_id t) = Open"
proof -
  let ?b0 = "b\<lparr>bs_pending := filter (\<lambda>(k, h). k \<noteq> td_occurrence_id t) (bs_pending b)\<rparr>"
  have d: "deliverable (bs_db b) t" "phase_of (bs_db b) (td_occurrence_id t) \<in> {Fresh, Open}" "\<not> bs_read_only b"
    using assms by (simp_all add: in_flight_def)
  consider "map_of (bs_pending b) (td_occurrence_id t) = Some (Running t)"
    | "map_of (bs_pending b) (td_occurrence_id t) = Some (Finished (Inr ()))"
      "landed (bs_db b) t" "phase_of (bs_db b) (td_occurrence_id t) = Open"
    using assms by (auto simp: in_flight_def)
  then show ?thesis
  proof cases
    case 1
    obtain d1 where "record_turn_delivery t (bs_db b) = (d1, Inr ())" "landed d1 t"
        "phase_of d1 (td_occurrence_id t) = Open"
      using record_lands[OF d(1)] record_opens[OF d(2,1)]
      by (cases "record_turn_delivery t (bs_db b)") auto
    then show ?thesis using 1 d by (simp add: await_pending_delivery_def run_task_def)
  next
    case 2
    then show ?thesis using d by (simp add: await_pending_delivery_def run_task_def)
  qed
qed

lemma apply_outcomes_members:
  "map member_pk (db_members (fst (fold (apply_outcome E now occ strength) outcomes (d, n)))) =
     map member_pk (db_members d)"
proof (induction outcomes arbitrary: d n)
  case (Cons ko outcomes)
  have "map member_pk (db_members (fst (apply_outcome E now occ strength ko (d, n)))) =
      map member_pk (db_members d)"
    by (cases ko) (simp add: apply_outcome_def Let_def update_memories_def update_where_def member_pk_def)
  then show ?case using Cons by (cases "apply_outcome E now occ strength ko (d, n)") simp
qed simp

lemma commit_members:
  "member_pk ` set (db_members (fst (commit_turn_outcomes E now occ outcomes strength at d))) =
     member_pk ` set (db_members d)"
proof -
  obtain d1 n where run: "fold (apply_outcome E now occ strength) outcomes (d, 0) = (d1, n)"
    by (cases "fold (apply_outcome E now occ strength) outcomes (d, 0)")
  have "map member_pk (db_members d1) = map member_pk (db_members d)"
    using apply_outcomes_members[of E now occ strength outcomes d 0] run by simp
  then have "member_pk ` set (db_members d1) = member_pk ` set (db_members d)" by (metis set_map)
  then show ?thesis using run by (simp add: commit_turn_outcomes_def Let_def)
qed

text \<open>
  C24: An outcome never lands without its delivery: on a writable brain with deferred writes on, and a turn that is
  fresh or open and whose delivery the store can take, whatever the runtime runs between the delivery and the commit,
  the commit waits for the write, succeeds, adjudicates the turn, and every delivered memory has its row in the
  ledger. (When the store cannot take the delivery, the commit reports the failed write instead.)
\<close>

theorem deferred_delivery_lands:
  assumes "\<not> bs_read_only b" and "bs_async_turn_delivery b" and "deliverable (bs_db b) t"
    and "phase_of (bs_db b) (td_occurrence_id t) \<in> {Fresh, Open}"
    and "brain_record_turn_delivery t b = (b1, r1)"
    and "brain_commit_turn_outcomes E now at (td_occurrence_id t) outcomes strength (background sched b1) = (b2, res)"
  shows "r1 = Inr () \<and> (\<exists>n. res = Inr n) \<and> phase_of (bs_db b2) (td_occurrence_id t) = Adjudicated \<and>
    landed (bs_db b2) t"
proof -
  let ?o = "td_occurrence_id t"
  have "map_of (bs_pending b1) ?o = Some (Running t)" "bs_db b1 = bs_db b" "bs_read_only b1 = bs_read_only b"
    "r1 = Inr ()"
    using assms(1,2,5)
    by (auto simp: brain_record_turn_delivery_def ensure_writable_def Let_def map_of_replaced
        simp del: filter_filter map_of_append)
  then have b1: "r1 = Inr ()" "in_flight t b1" using assms(1,3,4) by (simp_all add: in_flight_def)
  from in_flight_awaited[OF in_flight_background[OF b1(2), of sched]] obtain b3 where
    b3: "await_pending_delivery ?o (background sched b1) = (b3, Inr ())" "\<not> bs_read_only b3"
      "landed (bs_db b3) t" "phase_of (bs_db b3) ?o = Open" by blast
  have ro: "\<not> bs_read_only (background sched b1)"
    using in_flight_background[OF b1(2), of sched] by (simp add: in_flight_def)
  let ?c = "commit_turn_outcomes E now ?o outcomes strength at (bs_db b3)"
  have "turn_step Open Commit (answer_of (snd ?c)) (phase_of (fst ?c) ?o)"
    using phase_commit[of "bs_db b3" ?o] b3(4) by simp
  then have c: "answer_of (snd ?c) = Accepted" "phase_of (fst ?c) ?o = Adjudicated" by (cases; simp)+
  then obtain n where n: "snd ?c = Inr n" by (cases "snd ?c") (auto simp: answer_of_def)
  have "member_pk ` set (db_members (fst ?c)) = member_pk ` set (db_members (bs_db b3))" by (rule commit_members)
  then have "landed (fst ?c) t" using b3(3) by (simp only: landed_def)
  moreover have "b2 = b3\<lparr>bs_db := fst ?c\<rparr>" "res = Inr n"
    using assms(6) b3(1) ro n by (cases ?c; auto simp: brain_commit_turn_outcomes_def ensure_writable_def)+
  ultimately show ?thesis using b1(1) c(2) by simp
qed

definition toy_brain :: "nat turn_state" where
  "toy_brain = \<lparr>bs_db = toy_db, bs_read_only = False, bs_async_turn_delivery = True, bs_pending = [],
     bs_detached = [], bs_voids = []\<rparr>"

lemma toy_deliverable: "deliverable toy_db toy_delivery"
  by (simp add: deliverable_def toy_delivery_def has_memory_def toy_db_def toy_memory_def)

lemma toy_fresh: "phase_of toy_db occ = Fresh"
  by (simp add: phase_of_def find_turn_def toy_db_def empty_db_def select_first_def)

lemma deferred_delivery_lands_witness:
  "\<exists>b2 n. brain_commit_turn_outcomes toy_floats ''now'' ''2026'' ''t1'' [(''k1'', Used)] 1
      (background [Pending_Slot ''t1''] (fst (brain_record_turn_delivery toy_delivery toy_brain))) = (b2, Inr n) \<and>
    phase_of (bs_db b2) ''t1'' = Adjudicated"
proof -
  obtain b1 r1 where b1: "brain_record_turn_delivery toy_delivery toy_brain = (b1, r1)"
    by (cases "brain_record_turn_delivery toy_delivery toy_brain")
  have occ: "td_occurrence_id toy_delivery = ''t1''" by (simp add: toy_delivery_def)
  obtain b2 res where b2: "brain_commit_turn_outcomes toy_floats ''now'' ''2026'' ''t1'' [(''k1'', Used)] 1
      (background [Pending_Slot ''t1''] b1) = (b2, res)"
    by (cases "brain_commit_turn_outcomes toy_floats ''now'' ''2026'' ''t1'' [(''k1'', Used)] 1
      (background [Pending_Slot ''t1''] b1)")
  have pre: "\<not> bs_read_only toy_brain" "bs_async_turn_delivery toy_brain" "deliverable (bs_db toy_brain) toy_delivery"
      "phase_of (bs_db toy_brain) (td_occurrence_id toy_delivery) \<in> {Fresh, Open}"
    by (simp_all add: toy_brain_def toy_deliverable toy_fresh)
  from deferred_delivery_lands[OF pre b1 b2[folded occ]] show ?thesis using b1 b2 occ by auto
qed

lemma apply_outcomes_none:
  assumes "\<forall>m \<in> set (db_members d). tm_occurrence_id m \<noteq> occ"
  shows "fold (apply_outcome E now occ strength) outcomes (d, n) = (d, n)"
proof (induction outcomes)
  case (Cons ko outcomes)
  have none: "\<forall>m \<in> set (db_members d). \<not> of_key occ k m" for k using assms by (simp add: of_key_def)
  then have "count_where (of_key occ k) (db_members d) = 0" for k by (simp add: count_where_0)
  with none have "apply_outcome E now occ strength ko (d, n) = (d, n)"
    by (cases ko) (simp add: apply_outcome_def Let_def update_where_none)
  then show ?case using Cons by simp
qed simp

text \<open>
  A failed delivery write can vanish: when it finished with an error and another delivery is
  recorded before the turn is committed, the handle with the error is dropped, and the commit, which
  would have reported the failure, succeeds with no outcome recorded.
\<close>

theorem failed_delivery_forgotten:
  assumes "\<not> bs_read_only b" and "bs_async_turn_delivery b"
    and "map_of (bs_pending b) occ = Some (Finished (Inl e))" and "td_occurrence_id u \<noteq> occ"
    and "phase_of (bs_db b) occ = Fresh" and "\<forall>m \<in> set (db_members (bs_db b)). tm_occurrence_id m \<noteq> occ"
    and "distinct (map fst (bs_pending b))"
  shows "snd (brain_commit_turn_outcomes E now at occ outcomes strength b) = Inl (Delivery_Write e) \<and>
    snd (brain_commit_turn_outcomes E now at occ outcomes strength (fst (brain_record_turn_delivery u b))) = Inr 0 \<and>
    phase_of (bs_db (fst (brain_commit_turn_outcomes E now at occ outcomes strength
      (fst (brain_record_turn_delivery u b))))) occ = Fresh"
proof -
  let ?b1 = "fst (brain_record_turn_delivery u b)"
  have none: "map_of (bs_pending ?b1) occ = None"
  proof -
    have "map_of (filter (\<lambda>(k, h). \<not> is_finished h) ps) occ = None"
      if "distinct (map fst ps)" "map_of ps occ = Some (Finished (Inl e))" for ps
      using that by (induction ps) (auto simp: is_finished_def map_of_eq_None_iff split: if_splits)
    then have "map_of (filter (\<lambda>(k, h). \<not> is_finished h) (bs_pending b)) occ = None"
      using assms(7,3) by blast
    then show ?thesis using assms(1,2,4)
      by (auto simp: brain_record_turn_delivery_def ensure_writable_def Let_def map_of_eq_None_iff image_iff)
  qed
  have "find_turn (bs_db b) occ = None"
    using assms(5) by (simp add: phase_of_def turn_phase_def split: option.splits if_splits)
  moreover from this have "update_where (\<lambda>t. tv_occurrence_id t = occ) f (db_turns (bs_db b)) = db_turns (bs_db b)" for f
    unfolding find_turn_def select_first_None by (rule update_where_none)
  ultimately have "commit_turn_outcomes E now occ outcomes strength at (bs_db b) = (bs_db b, Inr 0)"
    unfolding commit_turn_outcomes_def apply_outcomes_none[OF assms(6)] by simp
  moreover have "bs_db ?b1 = bs_db b" "\<not> bs_read_only ?b1"
    using assms(1,2) by (simp_all add: brain_record_turn_delivery_def ensure_writable_def Let_def)
  ultimately show ?thesis using assms(1,3,5) none
    by (simp add: brain_commit_turn_outcomes_def ensure_writable_def await_pending_delivery_def run_task_def)
qed

lemma failed_delivery_forgotten_witness:
  "snd (brain_commit_turn_outcomes toy_floats ''now'' ''2026'' ''t0'' [(''k1'', Used)] 1
     (fst (brain_record_turn_delivery toy_delivery
       (toy_brain\<lparr>bs_pending := [(''t0'', Finished (Inl (Foreign_Key ''i9'')))]\<rparr>)))) = Inr 0"
proof -
  let ?b = "toy_brain\<lparr>bs_pending := [(''t0'', Finished (Inl (Foreign_Key ''i9'')))]\<rparr>"
  have "\<not> bs_read_only ?b" "bs_async_turn_delivery ?b" "td_occurrence_id toy_delivery \<noteq> ''t0''"
    "map_of (bs_pending ?b) ''t0'' = Some (Finished (Inl (Foreign_Key ''i9'')))"
    "phase_of (bs_db ?b) ''t0'' = Fresh" "\<forall>m \<in> set (db_members (bs_db ?b)). tm_occurrence_id m \<noteq> ''t0''"
    "distinct (map fst (bs_pending ?b))"
    by (simp_all add: toy_brain_def toy_delivery_def toy_fresh) (simp add: toy_db_def empty_db_def)
  then show ?thesis by (intro failed_delivery_forgotten[THEN conjunct2, THEN conjunct1])
qed

end
