(* ===== verification/Turn_Policy.thy ===== *)
theory Turn_Policy
  imports Complex_Main Memory_Tables
begin

text \<open>
  The retrieval policy, \<open>spectral/src/policy.rs\<close>, the cascade configuration it selects
  (\<open>spectral-graph/src/cascade_layers.rs\<close>), and the policy versions of \<open>spectral/src/turn.rs\<close>.

  Patterns are the source's regular expressions; the matcher of the \<open>regex\<close> package and
  \<open>to_lowercase\<close> are arguments. A floating-point setting is its decimal literal.
\<close>

datatype retrieval_route = Topk_Fts | Tact | Graph_Route | Cascade

datatype retrieval_policy_version = Policy_V1 | Policy_V2_Fixed

fun retrieval_policy_as_str :: "retrieval_policy_version \<Rightarrow> string" where
  "retrieval_policy_as_str Policy_V1 = ''retrieval-v1''"
| "retrieval_policy_as_str Policy_V2_Fixed = ''retrieval-v2-fixed''"

datatype question_shape =
    Counting | Counting_Current_State | Temporal | Factual | Factual_Current_State
  | General_Preference | General_Recall | General

subsection \<open>Patterns\<close>

definition re_temporal_counting :: string where
  "re_temporal_counting = ''how many (?:days|weeks|months|years) (?:ago|since|passed|before|after|between|had passed|have passed|did it take)|how old''"

definition re_counting :: string where
  "re_counting = ''how many|how much|total|in total|altogether''"

definition WORD_EDGE :: string where "WORD_EDGE = CHR 0x5C # ''b''"

definition re_counting_recency :: string where
  "re_counting_recency = WORD_EDGE @ ''(currently|right now|most recent|latest|newest|do i still|now)'' @ WORD_EDGE"

definition re_where :: string where
  "re_where = ''^where'' @ WORD_EDGE"

definition re_where_recency :: string where
  "re_where_recency = WORD_EDGE @ ''(currently|right now|most recent|latest|newest|do i still|now|recent)'' @ WORD_EDGE"

definition re_temporal :: string where
  "re_temporal = ''when did|how long|(?:^|'' @ CHR 0x5C # ''W)first'' @ WORD_EDGE @ ''|(?:^|'' @ CHR 0x5C # ''W)last'' @ WORD_EDGE @
     ''|before|after|ago|since|order.+(?:earliest|latest)|from earliest|chronological|(?:^|'' @ CHR 0x5C # ''W)order of'' @ WORD_EDGE"

definition re_factual :: string where
  "re_factual = ''^(?:what|where|who|which)'' @ WORD_EDGE"

definition re_factual_recency :: string where
  "re_factual_recency = WORD_EDGE @ ''(currently|right now|most recent|most recently|latest|newest|do i still|now)'' @ WORD_EDGE"

definition re_general_preference :: string where
  "re_general_preference = WORD_EDGE @ ''(suggest|recommend|tips?|advice|recommendations?|what should i)'' @ WORD_EDGE"

definition re_general_preference_any :: string where
  "re_general_preference_any = WORD_EDGE @ ''any (tips?|advice|suggestions?|ideas?|thoughts?|recommendations?)'' @ WORD_EDGE"

definition re_counting_recency_v2 :: string where
  "re_counting_recency_v2 = WORD_EDGE @ ''(current|currently|right now|most recent|latest|newest|do i still|now)'' @ WORD_EDGE"

definition re_where_recency_v2 :: string where
  "re_where_recency_v2 = WORD_EDGE @ ''(current|currently|right now|most recent|latest|newest|do i still|now|recent)'' @ WORD_EDGE"

definition re_factual_recency_v2 :: string where
  "re_factual_recency_v2 = WORD_EDGE @ ''(current|currently|right now|most recent|most recently|latest|newest|do i still|now)'' @ WORD_EDGE"

definition re_general_recall :: string where
  "re_general_recall = WORD_EDGE @ ''(remind me|going back to|previous|earlier conversation|we (discussed|talked about)|can you remind me)'' @ WORD_EDGE"

subsection \<open>Classification\<close>

definition classify_with ::
    "(string \<Rightarrow> string \<Rightarrow> bool) \<Rightarrow> (string \<Rightarrow> string) \<Rightarrow> string \<Rightarrow> retrieval_policy_version \<Rightarrow> question_shape" where
  "classify_with is_match low question version =
     (let v2 = (version = Policy_V2_Fixed); q = low question
      in if v2 \<and> (is_match re_general_preference q \<or> is_match re_general_preference_any q) then General_Preference
         else if is_match re_temporal_counting q then Temporal
         else if is_match re_counting q then
           (if is_match (if v2 then re_counting_recency_v2 else re_counting_recency) q
            then Counting_Current_State else Counting)
         else if is_match re_where q then
           (if is_match (if v2 then re_where_recency_v2 else re_where_recency) q
            then Factual_Current_State else Factual)
         else if is_match re_temporal q then Temporal
         else if is_match re_factual q then
           (if is_match (if v2 then re_factual_recency_v2 else re_factual_recency) q
            then Factual_Current_State else Factual)
         else if is_match re_general_preference q then General_Preference
         else if is_match re_general_preference_any q then General_Preference
         else if is_match re_general_recall q then General_Recall
         else General)"

definition classify :: "(string \<Rightarrow> string \<Rightarrow> bool) \<Rightarrow> (string \<Rightarrow> string) \<Rightarrow> string \<Rightarrow> question_shape" where
  "classify is_match low question = classify_with is_match low question Policy_V1"

text \<open>\<open>CascadePipelineConfig\<close>; the weights and the spread settings are opaque here.\<close>

record ('w, 's) cascade_config =
  cc_k :: nat
  cc_apply_ambient_boost :: bool
  cc_ambient_weights :: 'w
  cc_adaptive_ambient :: bool
  cc_apply_signal_reranking :: bool
  cc_apply_recency :: bool
  cc_recency_half_life_days :: rat
  cc_apply_episode_diversity :: bool
  cc_max_per_episode :: nat
  cc_apply_context_dedup :: bool
  cc_apply_proximity :: bool
  cc_proximity_weight :: rat
  cc_use_rrf :: bool
  cc_rrf_weights :: "rat list"
  cc_co_retrieval_weight :: rat
  cc_fetch_mult :: nat
  cc_apply_declarative_boost :: bool
  cc_spread :: 's
  cc_write_back :: bool

definition default_config :: "'w \<Rightarrow> 's \<Rightarrow> ('w, 's) cascade_config" where
  "default_config weights spread =
     \<lparr>cc_k = 40, cc_apply_ambient_boost = True, cc_ambient_weights = weights, cc_adaptive_ambient = True,
      cc_apply_signal_reranking = True, cc_apply_recency = True, cc_recency_half_life_days = 365,
      cc_apply_episode_diversity = False, cc_max_per_episode = 5, cc_apply_context_dedup = True,
      cc_apply_proximity = False, cc_proximity_weight = 15 / 100, cc_use_rrf = False, cc_rrf_weights = [1, 1, 1, 1, 1, 1],
      cc_co_retrieval_weight = 0, cc_fetch_mult = 1, cc_apply_declarative_boost = True,
      cc_spread = spread, cc_write_back = True\<rparr>"

definition cascade_profile :: "'w \<Rightarrow> 's \<Rightarrow> question_shape \<Rightarrow> ('w, 's) cascade_config" where
  "cascade_profile weights spread shape =
     (let base = default_config weights spread
      in if shape \<in> {Counting, Counting_Current_State}
         then base\<lparr>cc_k := 60, cc_max_per_episode := 3, cc_recency_half_life_days := 730\<rparr>
         else if shape = Temporal
         then base\<lparr>cc_k := 40, cc_max_per_episode := 5, cc_recency_half_life_days := 60\<rparr>
         else if shape \<in> {Factual, Factual_Current_State}
         then base\<lparr>cc_k := 30, cc_max_per_episode := 8\<rparr>
         else base)"

definition retrieval_route :: "question_shape \<Rightarrow> retrieval_route" where
  "retrieval_route shape = (if shape = Temporal then Topk_Fts else Cascade)"

subsection \<open>The policy of a turn\<close>

datatype turn_policy_version = V1 | V2_Shaped

fun turn_policy_as_str :: "turn_policy_version \<Rightarrow> string" where
  "turn_policy_as_str V1 = ''v1''"
| "turn_policy_as_str V2_Shaped = ''v2-shaped''"

definition retrieval_config ::
    "(string \<Rightarrow> string \<Rightarrow> bool) \<Rightarrow> (string \<Rightarrow> string) \<Rightarrow> 'w \<Rightarrow> 's \<Rightarrow> turn_policy_version \<Rightarrow> string option \<Rightarrow>
      ('w, 's) cascade_config" where
  "retrieval_config is_match low weights spread p query =
     (case p of
        V1 \<Rightarrow> (default_config weights spread)\<lparr>cc_write_back := False\<rparr>
      | V2_Shaped \<Rightarrow>
          (case query of
             Some q \<Rightarrow> cascade_profile weights spread (classify is_match low q)
           | None \<Rightarrow> default_config weights spread)\<lparr>cc_write_back := False\<rparr>)"

definition turn_route ::
    "(string \<Rightarrow> string \<Rightarrow> bool) \<Rightarrow> (string \<Rightarrow> string) \<Rightarrow> turn_policy_version \<Rightarrow> string option \<Rightarrow> retrieval_route" where
  "turn_route is_match low p query =
     (case (p, query) of
        (V1, _) \<Rightarrow> Cascade
      | (_, None) \<Rightarrow> Cascade
      | (V2_Shaped, Some q) \<Rightarrow> retrieval_route (classify is_match low q))"

text \<open>No turn writes back at read time, whatever its policy and its query.\<close>

lemma retrieval_config_read_only [simp]:
  "\<not> cc_write_back (retrieval_config is_match low weights spread p query)"
  by (cases p; cases query) (simp_all add: retrieval_config_def)

end
