(* ===== verification/Turn_Contract.thy ===== *)
theory Turn_Contract
  imports Turn_Deferred Turn_Policy Visibility
begin

text \<open>
  The agent-turn contract of \<open>spectral/src/turn.rs\<close>: a turn retrieves read-only, records its delivery
  and returns a receipt; the outcome is committed later against the receipt.

  The recall pipelines, recognition, the clock, the query hash and the process counter enter through
  \<open>turn_env\<close> and the arguments.
\<close>

datatype memory_outcome = Was_Used | Was_Wrong | Was_Ignored

definition outcome_reinforces :: "memory_outcome \<Rightarrow> bool" where
  "outcome_reinforces x \<longleftrightarrow> x = Was_Used"

fun ledger_outcome_of :: "memory_outcome \<Rightarrow> ledger_outcome" where
  "ledger_outcome_of Was_Used = Used"
| "ledger_outcome_of Was_Wrong = Wrong"
| "ledger_outcome_of Was_Ignored = Ignored"

lemma ledger_outcome_used [simp]:
  "ledger_outcome_of x = Used \<longleftrightarrow> x = Was_Used" "Used = ledger_outcome_of x \<longleftrightarrow> x = Was_Used"
  by (cases x; simp)+

record 'c turn_request =
  tq_query :: "string option"
  tq_observations :: "string list"
  tq_visibility :: visibility
  tq_context :: 'c
  tq_policy :: turn_policy_version

record delivered_hit =
  dh_rank :: nat
  dh_id :: string
  dh_key :: string

record turn_receipt =
  rc_id :: string
  rc_delivery_digest :: string
  rc_query_hash :: "string option"
  rc_session_id :: "string option"
  rc_wing :: "string option"
  rc_delivered :: "delivered_hit list"
  rc_policy :: turn_policy_version

definition delivered_key :: "turn_receipt \<Rightarrow> string \<Rightarrow> bool" where
  "delivered_key rc key \<longleftrightarrow> list_ex (\<lambda>h. dh_key h = key) (rc_delivered rc)"

record ('f, 'v) turn_result =
  tr_receipt :: turn_receipt
  tr_hits :: "'f memory_hit list"
  tr_recognition :: "'v list"

record outcome_receipt =
  or_turn_id :: string
  or_reinforced :: "string list"
  or_not_reinforced :: "string list"

datatype 'x turn_error = Brain_Error brain_error | Not_Delivered string string | Retrieval 'x

record ('f, 'c, 'w, 's, 'v, 'x) turn_env =
  tn_db_env :: "'f db_env"
  tn_recall_cascade :: "string \<Rightarrow> 'c \<Rightarrow> ('w, 's) cascade_config \<Rightarrow> visibility \<Rightarrow> 'f db \<Rightarrow> 'x + 'f memory_hit list"
  tn_recall_topk :: "string \<Rightarrow> nat \<Rightarrow> visibility \<Rightarrow> 'f db \<Rightarrow> 'x + 'f memory_hit list"
  tn_recognize :: "string \<Rightarrow> 'x + 'v"
  tn_session_id :: "'c \<Rightarrow> string option"
  tn_is_match :: "string \<Rightarrow> string \<Rightarrow> bool"
  tn_low :: "string \<Rightarrow> string"
  tn_weights :: 'w
  tn_spread :: 's
  tn_strength :: 'f

definition TOPK_MIN_K :: nat where "TOPK_MIN_K = 40"

definition UNIT_SEP :: string where "UNIT_SEP = [CHR 0x01]"

text \<open>Decimal digits, as \<open>format!\<close> prints an unsigned integer.\<close>

fun decimal :: "nat \<Rightarrow> string" where
  "decimal n = (if n < 10 then [char_of (48 + n)] else decimal (n div 10) @ [char_of (48 + n mod 10)])"

declare decimal.simps [simp del]

definition join_ids :: "string list \<Rightarrow> string" where
  "join_ids ids = concat (case ids of [] \<Rightarrow> [] | i # is \<Rightarrow> i # map (\<lambda>x. '','' @ x) is)"

definition delivered_of :: "'f memory_hit list \<Rightarrow> delivered_hit list" where
  "delivered_of hits =
     map (\<lambda>(rank, h). \<lparr>dh_rank = rank, dh_id = hit_id h, dh_key = hit_key h\<rparr>) (enumerate 0 hits)"

fun recognize_all :: "(string \<Rightarrow> 'x + 'v) \<Rightarrow> string list \<Rightarrow> 'x + 'v list" where
  "recognize_all f [] = Inr []"
| "recognize_all f (s # ss) =
     (case f s of Inl e \<Rightarrow> Inl e
      | Inr v \<Rightarrow> (case recognize_all f ss of Inl e \<Rightarrow> Inl e | Inr vs \<Rightarrow> Inr (v # vs)))"

definition turn_hits ::
    "('f, 'c, 'w, 's, 'v, 'x) turn_env \<Rightarrow> 'c turn_request \<Rightarrow> 'f db \<Rightarrow> 'x + 'f memory_hit list" where
  "turn_hits T rq d =
     (let config = retrieval_config (tn_is_match T) (tn_low T) (tn_weights T) (tn_spread T) (tq_policy rq) (tq_query rq);
          route = turn_route (tn_is_match T) (tn_low T) (tq_policy rq) (tq_query rq)
      in case tq_query rq of
           None \<Rightarrow> Inr []
         | Some q \<Rightarrow>
             (if route = Cascade then tn_recall_cascade T q (tq_context rq) config (tq_visibility rq) d
              else tn_recall_topk T q (max (cc_k config) TOPK_MIN_K) (tq_visibility rq) d))"

definition delivery_digest :: "'f db_env \<Rightarrow> turn_policy_version \<Rightarrow> string option \<Rightarrow> delivered_hit list \<Rightarrow> string" where
  "delivery_digest E p query_hash delivered =
     dv_hash E (turn_policy_as_str p @ UNIT_SEP @ (case query_hash of Some h \<Rightarrow> h | None \<Rightarrow> []) @ UNIT_SEP @
       join_ids (map dh_id delivered))"

definition occurrence_id :: "'f db_env \<Rightarrow> string \<Rightarrow> string \<Rightarrow> nat \<Rightarrow> string" where
  "occurrence_id E digest nanos seq = dv_hash E (digest @ UNIT_SEP @ nanos @ UNIT_SEP @ decimal seq)"

definition make_receipt ::
    "('f, 'c, 'w, 's, 'v, 'x) turn_env \<Rightarrow> string \<Rightarrow> nat \<Rightarrow> 'c turn_request \<Rightarrow> 'f memory_hit list \<Rightarrow> turn_receipt" where
  "make_receipt T nanos seq rq hits =
     (let E = tn_db_env T;
          delivered = delivered_of hits;
          query_hash = map_option (dv_hash E) (tq_query rq);
          digest = delivery_digest E (tq_policy rq) query_hash delivered
      in \<lparr>rc_id = occurrence_id E digest nanos seq, rc_delivery_digest = digest, rc_query_hash = query_hash,
          rc_session_id = tn_session_id T (tq_context rq),
          rc_wing = (case hits of [] \<Rightarrow> None | h # hs \<Rightarrow> hit_wing h),
          rc_delivered = delivered, rc_policy = tq_policy rq\<rparr>)"

definition delivery_of :: "turn_receipt \<Rightarrow> string \<Rightarrow> turn_delivery" where
  "delivery_of rc delivered_at =
     \<lparr>td_occurrence_id = rc_id rc, td_delivery_digest = rc_delivery_digest rc, td_query_hash = rc_query_hash rc,
      td_session_id = rc_session_id rc, td_policy = turn_policy_as_str (rc_policy rc),
      td_delivered_at = delivered_at,
      td_members = map (\<lambda>h. (dh_rank h, dh_id h, dh_key h)) (rc_delivered rc)\<rparr>"

definition turn ::
    "('f, 'c, 'w, 's, 'v, 'x) turn_env \<Rightarrow> string \<Rightarrow> string \<Rightarrow> nat \<Rightarrow> 'c turn_request \<Rightarrow> 'f turn_state \<Rightarrow>
      'f turn_state \<times> ('x turn_error + ('f, 'v) turn_result)" where
  "turn T nanos delivered_at seq rq b =
     (case turn_hits T rq (bs_db b) of
        Inl e \<Rightarrow> (b, Inl (Retrieval e))
      | Inr hits \<Rightarrow>
          (case recognize_all (tn_recognize T) (tq_observations rq) of
             Inl e \<Rightarrow> (b, Inl (Retrieval e))
           | Inr recognition \<Rightarrow>
               let rc = make_receipt T nanos seq rq hits
               in case brain_record_turn_delivery (delivery_of rc delivered_at) b of
                    (b1, Inl e) \<Rightarrow> (b1, Inl (Brain_Error e))
                  | (b1, Inr u) \<Rightarrow> (b1, Inr \<lparr>tr_receipt = rc, tr_hits = hits, tr_recognition = recognition\<rparr>)))"

definition outcome_event ::
    "'f db_env \<Rightarrow> string \<Rightarrow> turn_receipt \<Rightarrow> string list \<Rightarrow> retrieval_event" where
  "outcome_event E now rc used =
     \<lparr>ev_query_hash = (case rc_query_hash rc of Some h \<Rightarrow> h | None \<Rightarrow> []), ev_timestamp = now,
      ev_memory_ids_json = dv_json_of_ids E (map dh_id (filter (\<lambda>h. dh_key h \<in> set used) (rc_delivered rc))),
      ev_method = ''turn:'' @ turn_policy_as_str (rc_policy rc), ev_wing = rc_wing rc,
      ev_question_type = None, ev_session_id = rc_session_id rc\<rparr>"

text \<open>\<open>Brain::commit_outcome\<close>: reinforce the keys, then log the event.\<close>

definition commit_outcome ::
    "'f db_env \<Rightarrow> string \<Rightarrow> string list \<Rightarrow> retrieval_event \<Rightarrow> 'f \<Rightarrow> 'f turn_state \<Rightarrow>
      'f turn_state \<times> (brain_error + unit)" where
  "commit_outcome E now used_keys ev strength b =
     (case ensure_writable b ''commit_outcome'' of
        Some e \<Rightarrow> (b, Inl e)
      | None \<Rightarrow>
          let d = (if used_keys = [] then bs_db b else fst (reinforce_batch E now used_keys strength (bs_db b)))
          in (b\<lparr>bs_db := log_retrieval_event ev d\<rparr>, Inr ()))"

definition record_turn_outcome ::
    "('f, 'c, 'w, 's, 'v, 'x) turn_env \<Rightarrow> string \<Rightarrow> string \<Rightarrow> turn_receipt \<Rightarrow> (string \<times> memory_outcome) list \<Rightarrow>
      'f turn_state \<Rightarrow> 'f turn_state \<times> ('x turn_error + outcome_receipt)" where
  "record_turn_outcome T now at_time rc outcomes b =
     (case List.find (\<lambda>(key, x). \<not> delivered_key rc key) outcomes of
        Some (key, x) \<Rightarrow> (b, Inl (Not_Delivered key (rc_id rc)))
      | None \<Rightarrow>
          let used = map fst (filter (\<lambda>(key, x). outcome_reinforces x) outcomes);
              not_reinforced = map fst (filter (\<lambda>(key, x). \<not> outcome_reinforces x) outcomes);
              ledger = map (\<lambda>(key, x). (key, ledger_outcome_of x)) outcomes;
              E = tn_db_env T
          in case brain_commit_turn_outcomes E now at_time (rc_id rc) ledger (tn_strength T) b of
               (b1, Inl e) \<Rightarrow> (b1, Inl (Brain_Error e))
             | (b1, Inr n) \<Rightarrow>
                 (case commit_outcome E now [] (outcome_event E at_time rc used) (tn_strength T) b1 of
                    (b2, Inl e) \<Rightarrow> (b2, Inl (Brain_Error e))
                  | (b2, Inr u) \<Rightarrow>
                      (b2, Inr \<lparr>or_turn_id = rc_id rc, or_reinforced = used,
                                or_not_reinforced = not_reinforced\<rparr>)))"

subsection \<open>What a turn and its outcome change\<close>

lemma filter_update_key:
  assumes "\<And>r. row_key (f r) = row_key r" and "k \<noteq> key"
  shows "filter (\<lambda>r. row_key r = k) (update_where (\<lambda>r. row_key r = key) f t) = filter (\<lambda>r. row_key r = k) t"
  using assms by (induction t) (auto simp: update_where_def)

definition same_key_rows :: "string \<Rightarrow> 'f db \<Rightarrow> 'f db \<Rightarrow> bool" where
  "same_key_rows k d d' \<longleftrightarrow>
     filter (\<lambda>r. row_key r = k) (db_memories d') = filter (\<lambda>r. row_key r = k) (db_memories d)"

lemma same_key_rows_refl [simp]: "same_key_rows k d d"
  by (simp add: same_key_rows_def)

lemma same_key_rows_trans: "same_key_rows k d d1 \<Longrightarrow> same_key_rows k d1 d2 \<Longrightarrow> same_key_rows k d d2"
  by (simp add: same_key_rows_def)

lemma same_key_rows_outcomes:
  assumes "(k, Used) \<notin> set outcomes"
  shows "same_key_rows k d (fst (fold (apply_outcome E now occ strength) outcomes (d, n)))"
  using assms
proof (induction outcomes arbitrary: d n)
  case (Cons ko outcomes)
  obtain key x where ko: "ko = (key, x)" by (cases ko)
  obtain d1 m where one: "apply_outcome E now occ strength ko (d, n) = (d1, m)"
    by (cases "apply_outcome E now occ strength ko (d, n)")
  have "same_key_rows k d d1"
  proof (cases "x = Used")
    case True
    then have "k \<noteq> key" using Cons.prems ko by auto
    then show ?thesis using one ko
      by (auto simp: apply_outcome_def Let_def update_memories_def same_key_rows_def filter_update_key credited_def
          split: if_splits)
  next
    case False
    then show ?thesis using one ko by (auto simp: apply_outcome_def Let_def same_key_rows_def)
  qed
  then show ?case using Cons.IH[of d1 m] Cons.prems one by (auto intro: same_key_rows_trans)
qed simp

lemma same_key_rows_commit:
  assumes "(k, Used) \<notin> set outcomes"
  shows "same_key_rows k d (fst (commit_turn_outcomes E now occ outcomes strength at_time d))"
proof -
  obtain d1 n where run: "fold (apply_outcome E now occ strength) outcomes (d, 0) = (d1, n)"
    by (cases "fold (apply_outcome E now occ strength) outcomes (d, 0)")
  have "same_key_rows k d d1" using same_key_rows_outcomes[OF assms, of d E now occ strength 0] run by simp
  then show ?thesis using run by (simp add: commit_turn_outcomes_def Let_def same_key_rows_def)
qed

lemma await_db:
  "bs_db (fst (await_pending_delivery occ b)) = bs_db b \<or>
   (\<exists>x. bs_db (fst (await_pending_delivery occ b)) = fst (record_turn_delivery x (bs_db b)))"
proof (cases "map_of (bs_pending b) occ")
  case (Some t)
  show ?thesis
  proof (cases t)
    case (Running x)
    obtain d r where "record_turn_delivery x (bs_db b) = (d, r)" by (cases "record_turn_delivery x (bs_db b)")
    then have "bs_db (fst (await_pending_delivery occ b)) = fst (record_turn_delivery x (bs_db b))"
      using Some Running by (cases r) (simp_all add: await_pending_delivery_def run_task_def)
    then show ?thesis by blast
  next
    case (Finished r)
    then show ?thesis using Some by (cases r) (simp_all add: await_pending_delivery_def run_task_def)
  qed
qed (simp add: await_pending_delivery_def)

lemma await_memories: "db_memories (bs_db (fst (await_pending_delivery occ b))) = db_memories (bs_db b)"
  using await_db[of occ b] by auto

lemma same_key_rows_brain_commit:
  assumes "(k, Used) \<notin> set outcomes"
  shows "same_key_rows k (bs_db b) (bs_db (fst (brain_commit_turn_outcomes E now at_time occ outcomes strength b)))"
proof -
  obtain b1 r where aw: "await_pending_delivery occ b = (b1, r)" by (cases "await_pending_delivery occ b")
  then have "same_key_rows k (bs_db b) (bs_db b1)"
    using await_memories[of occ b] by (simp add: same_key_rows_def)
  moreover have "same_key_rows k (bs_db b1) (fst (commit_turn_outcomes E now occ outcomes strength at_time (bs_db b1)))"
    using assms by (rule same_key_rows_commit)
  ultimately show ?thesis using aw
    by (auto simp: brain_commit_turn_outcomes_def intro: same_key_rows_trans split: option.split sum.split prod.split)
qed

lemma apply_outcomes_events:
  "db_events (fst (fold (apply_outcome E now occ strength) outcomes (d, n))) = db_events d"
proof (induction outcomes arbitrary: d n)
  case (Cons ko outcomes)
  have "db_events (fst (apply_outcome E now occ strength ko (d, n))) = db_events d"
    by (cases ko) (simp add: apply_outcome_def Let_def update_memories_def)
  then show ?case using Cons by (cases "apply_outcome E now occ strength ko (d, n)") simp
qed simp

lemma record_events [simp]: "db_events (fst (record_turn_delivery t d)) = db_events d"
proof (cases "insert_members (td_occurrence_id t) (td_members t)
    (d\<lparr>db_turns := insert_or_ignore tv_occurrence_id (turn_row t) (db_turns d)\<rparr>)")
  case (Inr d2)
  then show ?thesis using insert_members_frame[OF Inr] by (auto simp: record_turn_delivery_def Let_def)
qed (simp add: record_turn_delivery_def Let_def)

lemma commit_events:
  "db_events (bs_db (fst (brain_commit_turn_outcomes E now at_time occ outcomes strength b))) = db_events (bs_db b)"
proof -
  obtain b1 r where aw: "await_pending_delivery occ b = (b1, r)" by (cases "await_pending_delivery occ b")
  have "db_events (bs_db b1) = db_events (bs_db b)" using await_db[of occ b] aw by auto
  moreover have "db_events (fst (commit_turn_outcomes E now occ outcomes strength at_time d)) = db_events d" for d
    using apply_outcomes_events[of E now occ strength outcomes d 0]
    by (cases "fold (apply_outcome E now occ strength) outcomes (d, 0)") (simp add: commit_turn_outcomes_def Let_def)
  then have "db_events (fst (commit_turn_outcomes E now occ outcomes strength at_time (bs_db b1))) = db_events (bs_db b1)" .
  ultimately show ?thesis using aw
    by (auto simp: brain_commit_turn_outcomes_def split: option.split sum.split prod.split)
qed

text \<open>
  C25: Only use earns credit: committing an outcome leaves every memory that was not reported used
  exactly as it was, logs at most one event, naming only used memories, and an outcome for a memory
  that the turn did not deliver changes nothing at all and is an error.
\<close>

theorem outcome_credits_only_used:
  assumes "record_turn_outcome T now at_time rc outcomes b = (b', res)"
  shows "((k, Was_Used) \<notin> set outcomes \<longrightarrow> same_key_rows k (bs_db b) (bs_db b')) \<and>
    ((\<exists>(key, x) \<in> set outcomes. \<not> delivered_key rc key) \<longrightarrow> b' = b \<and> (\<exists>key. res = Inl (Not_Delivered key (rc_id rc)))) \<and>
    (\<forall>r. res = Inr r \<longrightarrow>
       (\<exists>ev evs. db_events (bs_db b') = evs @ [ev] \<and> evs = db_events (bs_db b) \<and>
         ev_memory_ids_json ev = dv_json_of_ids (tn_db_env T)
           (map dh_id (filter (\<lambda>h. (dh_key h, Was_Used) \<in> set outcomes) (rc_delivered rc)))))"
proof (cases "List.find (\<lambda>(key, x). \<not> delivered_key rc key) outcomes")
  case (Some kx)
  then have "b' = b" "\<exists>key. res = Inl (Not_Delivered key (rc_id rc))"
    using assms by (auto simp: record_turn_outcome_def split: prod.splits)
  then show ?thesis by auto
next
  case None
  then have "\<not> (\<exists>(key, x) \<in> set outcomes. \<not> delivered_key rc key)" by (auto simp: find_None_iff)
  let ?L = "map (\<lambda>(key, x). (key, ledger_outcome_of x)) outcomes"
  let ?used = "map fst (filter (\<lambda>(key, x). outcome_reinforces x) outcomes)"
  obtain b1 r1 where c: "brain_commit_turn_outcomes (tn_db_env T) now at_time (rc_id rc) ?L (tn_strength T) b = (b1, r1)"
    by (cases "brain_commit_turn_outcomes (tn_db_env T) now at_time (rc_id rc) ?L (tn_strength T) b")
  have "(k, Was_Used) \<notin> set outcomes \<Longrightarrow> (k, Used) \<notin> set ?L"
    by auto
  then have keep: "(k, Was_Used) \<notin> set outcomes \<Longrightarrow> same_key_rows k (bs_db b) (bs_db b1)"
    using same_key_rows_brain_commit[of k ?L b "tn_db_env T" now at_time "rc_id rc" "tn_strength T"] c by simp
  have used: "h \<in> set ?used \<longleftrightarrow> (h, Was_Used) \<in> set outcomes" for h
    by (force simp: outcome_reinforces_def)
  have events: "db_events (bs_db b1) = db_events (bs_db b)"
    using commit_events[of "tn_db_env T" now at_time "rc_id rc" ?L "tn_strength T" b] c by simp
  show ?thesis
  proof (cases r1)
    case (Inl e)
    then show ?thesis using assms None c keep \<open>\<not> (\<exists>(key, x) \<in> set outcomes. \<not> delivered_key rc key)\<close>
      by (auto simp: record_turn_outcome_def Let_def)
  next
    case (Inr n)
    let ?ev = "outcome_event (tn_db_env T) at_time rc ?used"
    have "b' = b1 \<and> (\<exists>e. res = Inl e) \<or> bs_db b' = log_retrieval_event ?ev (bs_db b1)"
      using assms None c Inr
      by (auto simp: record_turn_outcome_def commit_outcome_def Let_def split: option.splits)
    then show ?thesis
      using keep events used \<open>\<not> (\<exists>(key, x) \<in> set outcomes. \<not> delivered_key rc key)\<close>
      by (auto simp: log_retrieval_event_def same_key_rows_def outcome_event_def)
  qed
qed

definition toy_turn_env :: "(nat, unit, unit, unit, unit, unit) turn_env" where
  "toy_turn_env =
     \<lparr>tn_db_env = toy_floats, tn_recall_cascade = (\<lambda>q c cfg v d. Inr (map (\<lambda>r. memory_hit_from_row r 0) (db_memories d))),
      tn_recall_topk = (\<lambda>q k v d. Inr []), tn_recognize = (\<lambda>x. Inr ()), tn_session_id = (\<lambda>c. None),
      tn_is_match = (\<lambda>p q. False), tn_low = (\<lambda>x. x), tn_weights = (), tn_spread = (), tn_strength = 1\<rparr>"

definition toy_receipt :: turn_receipt where
  "toy_receipt =
     \<lparr>rc_id = ''t1'', rc_delivery_digest = ''dg'', rc_query_hash = None, rc_session_id = None, rc_wing = None,
      rc_delivered = [\<lparr>dh_rank = 0, dh_id = ''i1'', dh_key = ''k1''\<rparr>], rc_policy = V1\<rparr>"

text \<open>A store that has recorded the delivery.\<close>

definition toy_delivered :: "nat turn_state" where
  "toy_delivered = toy_brain\<lparr>bs_db := toy_db\<lparr>db_turns := [turn_row toy_delivery],
     db_members := [\<lparr>tm_occurrence_id = ''t1'', tm_rank = 0, tm_memory_id = ''i1'', tm_memory_key = ''k1'',
                     tm_outcome = ''unreported''\<rparr>]\<rparr>\<rparr>"

lemma outcome_credits_only_used_witness:
  "\<exists>b'. record_turn_outcome toy_turn_env ''now'' ''2026'' toy_receipt [(''k9'', Was_Used)] toy_delivered = (b', Inl (Not_Delivered ''k9'' ''t1'')) \<and>
     same_key_rows ''k1'' (bs_db toy_delivered) (bs_db b') \<and> b' = toy_delivered"
proof -
  have not: "\<not> delivered_key toy_receipt ''k9''" by (simp add: delivered_key_def toy_receipt_def)
  then have run: "record_turn_outcome toy_turn_env ''now'' ''2026'' toy_receipt [(''k9'', Was_Used)] toy_delivered =
      (toy_delivered, Inl (Not_Delivered ''k9'' ''t1''))"
    by (simp add: record_turn_outcome_def) (simp add: toy_receipt_def)
  from outcome_credits_only_used[OF run, of "''k1''"] not run show ?thesis by auto
qed

subsection \<open>The same key twice\<close>

lemma find_key_update:
  assumes "\<And>r. row_key (f r) = row_key r"
  shows "find_key (update_memories (\<lambda>r. row_key r = key) f d) k =
    (if k = key then map_option f (find_key d k) else find_key d k)"
proof -
  have "find_key (update_memories (\<lambda>r. row_key r = key) f d) k =
      map_option (\<lambda>r. if row_key r = key then f r else r) (find_key d k)"
    unfolding find_key_def select_first_def update_memories_def update_where_def
    by (simp add: find_map_key assms)
  moreover have "row_key r = k" if "find_key d k = Some r" for r
    using that by (auto simp: find_key_def dest: select_first_Some)
  ultimately show ?thesis by (cases "find_key d k") auto
qed

definition relabelled :: "string \<Rightarrow> string \<Rightarrow> ledger_outcome \<Rightarrow> turn_member list \<Rightarrow> turn_member list" where
  "relabelled occ k x ms = update_where (of_key occ k) (\<lambda>m. m\<lparr>tm_outcome := outcome_as_str x\<rparr>) ms"

lemma of_key_relabelled [simp]: "of_key occ k (m\<lparr>tm_outcome := v\<rparr>) = of_key occ k m"
  by (simp add: of_key_def)

lemma apply_outcome_key:
  assumes "\<exists>m \<in> set (db_members d). of_key occ k m"
  shows "\<exists>d1 n1. apply_outcome E now occ strength (k, x) (d, n) = (d1, n1) \<and>
    db_members d1 = relabelled occ k x (db_members d) \<and> db_turns d1 = db_turns d \<and>
    find_key d1 k = (if x = Used then map_option (credited E now strength) (find_key d k) else find_key d k)"
proof -
  have pos: "count_where (of_key occ k) (db_members d) > 0" using assms by (simp add: count_where_pos)
  have fk: "find_key (update_memories P f (d\<lparr>db_members := ms\<rparr>)) k = find_key (update_memories P f d) k" for P f ms
    by (simp add: find_key_def update_memories_def)
  have fk2: "find_key (d\<lparr>db_members := ms\<rparr>) k = find_key d k" for ms by (simp add: find_key_def)
  have upd: "find_key (update_memories (\<lambda>r. row_key r = k) (credited E now strength) d) k =
      map_option (credited E now strength) (find_key d k)"
    using find_key_update[of "credited E now strength" k d k] by (simp add: credited_def)
  show ?thesis
    using pos upd fk fk2
    by (simp add: apply_outcome_def Let_def relabelled_def) (simp add: update_memories_def)
qed

lemma relabelled_some: "\<exists>m \<in> set ms. of_key occ k m \<Longrightarrow> \<exists>m \<in> set (relabelled occ k x ms). of_key occ k m"
proof -
  let ?f = "\<lambda>r. if of_key occ k r then r\<lparr>tm_outcome := outcome_as_str x\<rparr> else r"
  assume "\<exists>m \<in> set ms. of_key occ k m"
  then obtain m where m: "m \<in> set ms" "of_key occ k m" by blast
  have "?f m \<in> set (relabelled occ k x ms)"
    unfolding relabelled_def update_where_def set_map by (rule imageI[OF m(1)])
  moreover have "of_key occ k (?f m)" using m(2) by (simp add: of_key_def)
  ultimately show ?thesis by (rule bexI[rotated])
qed

lemma relabelled_label:
  assumes "m \<in> set (relabelled occ k y ms)" and "of_key occ k m"
  shows "tm_outcome m = outcome_as_str y"
proof -
  obtain a where "m = (if of_key occ k a then a\<lparr>tm_outcome := outcome_as_str y\<rparr> else a)"
    using assms(1) unfolding relabelled_def update_where_def set_map by (rule imageE)
  then show ?thesis using assms(2) by (simp split: if_splits)
qed

text \<open>
  The ledger and the scores can disagree: when the outcomes of a turn list one delivered key as
  used and then as wrong, the commit succeeds, the memory has been credited for a use, and every row
  of the ledger for it says wrong. Listing it twice as used credits it twice.
\<close>

theorem duplicate_outcome_disagrees:
  assumes "\<not> bs_read_only b" and "delivered_key rc k" and "map_of (bs_pending b) (rc_id rc) = None"
    and "phase_of (bs_db b) (rc_id rc) = Open" and "find_key (bs_db b) k = Some r"
    and "\<exists>m \<in> set (db_members (bs_db b)). of_key (rc_id rc) k m"
    and "record_turn_outcome T now at_time rc [(k, Was_Used), (k, x)] b = (b', res)"
    and "credit = credited (tn_db_env T) now (tn_strength T)"
  shows "(\<exists>oc. res = Inr oc) \<and>
    find_key (bs_db b') k = Some (if x = Was_Used then credit (credit r) else credit r) \<and>
    (\<forall>m \<in> set (db_members (bs_db b')). of_key (rc_id rc) k m \<longrightarrow> tm_outcome m = outcome_as_str (ledger_outcome_of x))"
proof -
  let ?E = "tn_db_env T" and ?o = "rc_id rc" and ?d = "bs_db b" and ?s = "tn_strength T"
  obtain d1 n1 where one: "apply_outcome ?E now ?o ?s (k, Used) (?d, 0) = (d1, n1)"
      "db_members d1 = relabelled ?o k Used (db_members ?d)" "db_turns d1 = db_turns ?d"
      "find_key d1 k = Some (credit r)"
    using apply_outcome_key[OF assms(6), of ?E now ?s Used 0] assms(5,8) by auto
  have "\<exists>m \<in> set (db_members d1). of_key ?o k m" unfolding one(2) by (rule relabelled_some) (rule assms(6))
  from apply_outcome_key[OF this, of ?E now ?s "ledger_outcome_of x" n1] one(4) assms(8)
  obtain d2 n2 where two: "apply_outcome ?E now ?o ?s (k, ledger_outcome_of x) (d1, n1) = (d2, n2)"
      "db_members d2 = relabelled ?o k (ledger_outcome_of x) (db_members d1)" "db_turns d2 = db_turns d1"
      "find_key d2 k = Some (if x = Was_Used then credit (credit r) else credit r)"
    by auto
  obtain t where t: "find_turn ?d ?o = Some t" "tv_voided_at t = None" "tv_committed_at t = None"
    using assms(4) by (auto simp: phase_of_def turn_phase_def split: option.splits if_splits)
  let ?d3 = "d2\<lparr>db_turns := update_where (\<lambda>t. tv_occurrence_id t = ?o)
      (\<lambda>t. t\<lparr>tv_committed_at := Some at_time\<rparr>) (db_turns d2)\<rparr>"
  have commit: "commit_turn_outcomes ?E now ?o [(k, Used), (k, ledger_outcome_of x)] ?s at_time ?d = (?d3, Inr n2)"
    using t one(1) two(1) by (simp add: commit_turn_outcomes_def)
  have valid: "List.find (\<lambda>(key, x). \<not> delivered_key rc key) [(k, Was_Used), (k, x)] = None" using assms(2) by simp
  have b': "\<exists>ev. bs_db b' = log_retrieval_event ev ?d3" "\<exists>oc. res = Inr oc"
    using assms(1,3,7) commit valid
    by (auto simp: record_turn_outcome_def Let_def brain_commit_turn_outcomes_def ensure_writable_def
        await_pending_delivery_def commit_outcome_def)
  then obtain ev where "bs_db b' = log_retrieval_event ev ?d3" by blast
  then have "find_key (bs_db b') k = find_key d2 k" "db_members (bs_db b') = db_members d2"
    by (simp_all add: log_retrieval_event_def find_key_def)
  then show ?thesis using b'(2) two(2,4) relabelled_label by (metis (no_types))
qed

lemma duplicate_outcome_disagrees_witness:
  "\<exists>b' oc. record_turn_outcome toy_turn_env ''now'' ''2026'' toy_receipt [(''k1'', Was_Used), (''k1'', Was_Wrong)] toy_delivered = (b', Inr oc) \<and>
     map_option row_signal_score (find_key (bs_db b') ''k1'') = Some 6 \<and>
     (\<forall>m \<in> set (db_members (bs_db b')). of_key ''t1'' ''k1'' m \<longrightarrow> tm_outcome m = ''wrong'')"
proof -
  obtain b' res where run: "record_turn_outcome toy_turn_env ''now'' ''2026'' toy_receipt
      [(''k1'', Was_Used), (''k1'', Was_Wrong)] toy_delivered = (b', res)"
    by (cases "record_turn_outcome toy_turn_env ''now'' ''2026'' toy_receipt
      [(''k1'', Was_Used), (''k1'', Was_Wrong)] toy_delivered")
  have id: "rc_id toy_receipt = ''t1''" by (simp add: toy_receipt_def)
  have pre: "\<not> bs_read_only toy_delivered" "delivered_key toy_receipt ''k1''"
    "map_of (bs_pending toy_delivered) (rc_id toy_receipt) = None"
    "phase_of (bs_db toy_delivered) (rc_id toy_receipt) = Open"
    "find_key (bs_db toy_delivered) ''k1'' = Some toy_memory"
    "\<exists>m \<in> set (db_members (bs_db toy_delivered)). of_key (rc_id toy_receipt) ''k1'' m"
    by (simp_all add: toy_delivered_def toy_brain_def delivered_key_def toy_receipt_def phase_of_def find_turn_def
        select_first_def turn_phase_def turn_row_def toy_delivery_def find_key_def toy_db_def toy_memory_def of_key_def)
  from duplicate_outcome_disagrees[OF pre run refl] run show ?thesis
    by (auto simp: id toy_turn_env_def toy_floats_def credited_def toy_memory_def)
qed

end
