(* ===== verification/Memory_Sidecar.thy ===== *)
theory Memory_Sidecar
  imports Memory_Links
begin

text \<open>
  The tables of \<open>spectral-ingest/src/sqlite_store.rs\<close> that annotate memories: entity fields with their
  provenance, cognitive spectrograms, episodes and annotations; the retrieval by constellation
  fingerprints; the recomputation of time buckets at brain open; and recommendation by lift.
\<close>

subsection \<open>Entity fields\<close>

datatype field_source = Manual | Enriched

fun source_as_str :: "field_source \<Rightarrow> string" where
  "source_as_str Manual = ''manual''"
| "source_as_str Enriched = ''enriched''"

definition source_from_db :: "string \<Rightarrow> field_source" where
  "source_from_db s = (if s = ''manual'' then Manual else Enriched)"

record entity_field =
  ff_field_name :: string
  ff_value :: string
  ff_source :: field_source
  ff_source_url :: "string option"
  ff_updated_at :: string

definition ef_pk :: "entity_field_row \<Rightarrow> string \<times> string" where
  "ef_pk r = (ef_entity_id r, ef_field_name r)"

definition set_entity_field ::
    "string \<Rightarrow> string \<Rightarrow> string \<Rightarrow> string \<Rightarrow> field_source \<Rightarrow> string option \<Rightarrow> 'f db \<Rightarrow> 'f db \<times> bool" where
  "set_entity_field now ent field_name value source source_url d =
     (let existing = map_option ef_source
            (select_first (\<lambda>r. ef_entity_id r = ent \<and> ef_field_name r = field_name) (db_entity_fields d));
          row = \<lparr>ef_entity_id = ent, ef_field_name = field_name, ef_value = value,
                 ef_source = source_as_str source, ef_source_url = source_url, ef_updated_at = now\<rparr>
      in if source_as_str source = ''enriched'' \<and> existing = Some ''manual'' then (d, False)
         else (d\<lparr>db_entity_fields := upsert ef_pk row
                 (\<lambda>r. r\<lparr>ef_value := value, ef_source := source_as_str source,
                        ef_source_url := source_url, ef_updated_at := now\<rparr>) (db_entity_fields d)\<rparr>, True))"

definition get_entity_fields :: "string \<Rightarrow> 'f db \<Rightarrow> entity_field list" where
  "get_entity_fields ent d =
     map (\<lambda>r. \<lparr>ff_field_name = ef_field_name r, ff_value = ef_value r, ff_source = source_from_db (ef_source r),
               ff_source_url = ef_source_url r, ff_updated_at = ef_updated_at r\<rparr>)
       (order_by (\<lambda>r q. ef_field_name r \<le> ef_field_name q)
         (filter (\<lambda>r. ef_entity_id r = ent) (db_entity_fields d)))"

subsection \<open>Spectrograms\<close>

text \<open>The row without its creation time; the wing of a loaded spectrogram is its memory's.\<close>

definition write_spectrogram :: "'f spectrogram_row \<Rightarrow> 'f db \<Rightarrow> 'f db \<times> (db_error + unit)" where
  "write_spectrogram s d =
     (if \<not> has_memory d (sg_memory_id s) then (d, Inl (Foreign_Key (sg_memory_id s)))
      else (d\<lparr>db_spectrograms := upsert sg_memory_id s
              (\<lambda>r. r\<lparr>sg_entity_density := sg_entity_density s, sg_action_type := sg_action_type s,
                     sg_decision_polarity := sg_decision_polarity s, sg_causal_depth := sg_causal_depth s,
                     sg_emotional_valence := sg_emotional_valence s,
                     sg_temporal_specificity := sg_temporal_specificity s, sg_novelty := sg_novelty s,
                     sg_peak_dimensions := sg_peak_dimensions s\<rparr>) (db_spectrograms d)\<rparr>, Inr ()))"

text \<open>\<open>JOIN memories m ON m.id = s.memory_id\<close>.\<close>

definition spectrogram_join :: "'f db \<Rightarrow> ('f spectrogram_row \<times> string option) list" where
  "spectrogram_join d =
     concat (map (\<lambda>s. map (\<lambda>m. (s, row_wing m)) (filter (\<lambda>m. row_id m = sg_memory_id s) (db_memories d)))
       (db_spectrograms d))"

definition load_spectrogram :: "string \<Rightarrow> 'f db \<Rightarrow> ('f spectrogram_row \<times> string option) option" where
  "load_spectrogram memory_id d = select_first (\<lambda>(s, w). sg_memory_id s = memory_id) (spectrogram_join d)"

definition load_spectrograms :: "string option \<Rightarrow> nat \<Rightarrow> 'f db \<Rightarrow> ('f spectrogram_row \<times> string option) list" where
  "load_spectrograms wing_filter limit d =
     take limit (case wing_filter of
       Some wing \<Rightarrow> filter (\<lambda>(s, w). w = Some wing) (spectrogram_join d)
     | None \<Rightarrow> spectrogram_join d)"

definition memories_without_spectrogram :: "nat \<Rightarrow> 'f db \<Rightarrow> string list" where
  "memories_without_spectrogram limit d =
     take limit (map row_id
       (filter (\<lambda>m. \<not> (\<exists>s \<in> set (db_spectrograms d). sg_memory_id s = row_id m)) (db_memories d)))"

subsection \<open>Episodes\<close>

text \<open>On a conflict the wing and the start of the stored episode are kept.\<close>

definition write_episode :: "episode_row \<Rightarrow> 'f db \<Rightarrow> 'f db" where
  "write_episode e d =
     d\<lparr>db_episodes := upsert ep_id e
         (\<lambda>r. r\<lparr>ep_ended_at := ep_ended_at e, ep_memory_count := ep_memory_count e,
                ep_summary_preview := ep_summary_preview e\<rparr>) (db_episodes d)\<rparr>"

definition by_end :: "episode_row \<Rightarrow> episode_row \<Rightarrow> bool" where
  "by_end e f \<longleftrightarrow> ep_ended_at f < ep_ended_at e \<or> ep_ended_at f = ep_ended_at e \<and> ep_id e \<le> ep_id f"

definition find_recent_episode :: "string \<Rightarrow> string \<Rightarrow> 'f db \<Rightarrow> episode_row option" where
  "find_recent_episode wing since d =
     (case order_by by_end (filter (\<lambda>e. ep_wing e = wing \<and> since < ep_ended_at e) (db_episodes d)) of
        [] \<Rightarrow> None | e # es \<Rightarrow> Some e)"

definition list_episodes :: "string option \<Rightarrow> nat \<Rightarrow> 'f db \<Rightarrow> episode_row list" where
  "list_episodes wing limit d =
     take limit (order_by by_end
       (case wing of Some w \<Rightarrow> filter (\<lambda>e. ep_wing e = w) (db_episodes d) | None \<Rightarrow> db_episodes d))"

subsection \<open>Annotations\<close>

text \<open>
  A row already carries the JSON of \<open>who\<close> and the RFC 3339 text of its times. The identical
  annotation is skipped before the identifier and the foreign key are looked at.
\<close>

definition same_annotation :: "annotation_row \<Rightarrow> annotation_row \<Rightarrow> bool" where
  "same_annotation a b \<longleftrightarrow>
     an_memory_id b = an_memory_id a \<and> an_description b = an_description a \<and> an_when b = an_when a"

definition write_annotation :: "annotation_row \<Rightarrow> 'f db \<Rightarrow> 'f db \<times> (db_error + unit)" where
  "write_annotation a d =
     (if \<exists>b \<in> set (db_annotations d). same_annotation a b then (d, Inr ())
      else if \<exists>b \<in> set (db_annotations d). an_id b = an_id a then (d, Inl (Unique_Constraint (an_id a)))
      else if \<not> has_memory d (an_memory_id a) then (d, Inl (Foreign_Key (an_memory_id a)))
      else (d\<lparr>db_annotations := db_annotations d @ [a]\<rparr>, Inr ()))"

definition list_annotations :: "string \<Rightarrow> 'f db \<Rightarrow> annotation_row list" where
  "list_annotations memory_id d =
     order_by (\<lambda>a b. an_created_at a \<le> an_created_at b)
       (filter (\<lambda>a. an_memory_id a = memory_id) (db_annotations d))"

subsection \<open>Time buckets\<close>

text \<open>
  Seconds are \<open>'g\<close> (\<open>f64\<close> in the source): absolute value, difference, comparison and the literals are
  parameters, like the parsers of the two timestamp formats.
\<close>

record 'g clock_env =
  ck_abs :: "'g \<Rightarrow> 'g"
  ck_sub :: "'g \<Rightarrow> 'g \<Rightarrow> 'g"
  ck_less :: "'g \<Rightarrow> 'g \<Rightarrow> bool"
  ck_secs :: "nat \<Rightarrow> 'g"
  ck_sql_time :: "string \<Rightarrow> 'g option"
  ck_rfc3339 :: "string \<Rightarrow> 'g option"

definition parse_ts :: "'g clock_env \<Rightarrow> string \<Rightarrow> 'g option" where
  "parse_ts K s = (case ck_sql_time K s of Some t \<Rightarrow> Some t | None \<Rightarrow> ck_rfc3339 K s)"

definition from_delta_secs :: "'g clock_env \<Rightarrow> 'g \<Rightarrow> time_bucket" where
  "from_delta_secs K delta =
     (if ck_less K (ck_abs K delta) (ck_secs K 86400) then Same_Day
      else if ck_less K (ck_abs K delta) (ck_secs K 604800) then Same_Week
      else if ck_less K (ck_abs K delta) (ck_secs K 2592000) then Same_Month
      else Older)"

text \<open>The bucket column is a string here: NULL and \<open>unknown\<close> are treated alike by the query.\<close>

definition bucket_of_pair :: "'g clock_env \<Rightarrow> string \<Rightarrow> string \<Rightarrow> time_bucket" where
  "bucket_of_pair K a t =
     (case (parse_ts K a, parse_ts K t) of
        (Some x, Some y) \<Rightarrow> from_delta_secs K (ck_sub K x y)
      | _ \<Rightarrow> Older)"

definition backfill_rows :: "'f db \<Rightarrow> (fingerprint \<times> string \<times> string) list" where
  "backfill_rows d =
     concat (map (\<lambda>f. concat (map (\<lambda>a. map (\<lambda>t. (f, row_created_at a, row_created_at t))
           (filter (\<lambda>m. row_id m = fp_target_memory_id f) (db_memories d)))
         (filter (\<lambda>m. row_id m = fp_anchor_memory_id f) (db_memories d))))
       (filter (\<lambda>f. fp_time_delta_bucket f = ''unknown'') (db_fingerprints d)))"

definition backfill_one ::
    "'f db_env \<Rightarrow> 'g clock_env \<Rightarrow> fingerprint \<times> string \<times> string \<Rightarrow> fingerprint list \<Rightarrow> fingerprint list" where
  "backfill_one E K row fps =
     (case row of (f, anchor_ts, target_ts) \<Rightarrow>
       let bucket = bucket_of_pair K anchor_ts target_ts;
           new_hash = make_fingerprint_hash E (fp_anchor_hall f) (fp_target_hall f) (fp_wing f) bucket
       in update_where (\<lambda>g. fp_id g = fp_id f)
            (\<lambda>g. g\<lparr>fp_time_delta_bucket := bucket_as_str bucket, fp_hash := new_hash\<rparr>) fps)"

definition backfill_fingerprint_time_buckets ::
    "'f db_env \<Rightarrow> 'g clock_env \<Rightarrow> 'f db \<Rightarrow> 'f db \<times> nat" where
  "backfill_fingerprint_time_buckets E K d =
     (let rows = backfill_rows d
      in (d\<lparr>db_fingerprints := fold (backfill_one E K) rows (db_fingerprints d)\<rparr>, length rows))"

subsection \<open>Retrieval by fingerprints\<close>

text \<open>The pairs matched by hash and by hall, each once (\<open>UNION\<close>).\<close>

definition matched_pairs :: "string \<Rightarrow> string \<Rightarrow> string list \<Rightarrow> 'f db \<Rightarrow> (string \<times> string) list" where
  "matched_pairs wing hall hashes d =
     remdups (map (\<lambda>f. (fp_anchor_memory_id f, fp_target_memory_id f))
       (filter (\<lambda>f. fp_wing f = wing \<and>
            (fp_hash f \<in> set hashes \<or> fp_anchor_hall f = hall \<or> fp_target_hall f = hall))
         (db_fingerprints d)))"

definition consolidated_id :: "'f db \<Rightarrow> string \<Rightarrow> bool" where
  "consolidated_id d i \<longleftrightarrow>
     (\<exists>m \<in> set (db_memories d). row_id m = i \<and> (\<exists>e \<in> set (db_edges d). ce_source_key e = row_key m))"

definition memory_scores :: "string \<Rightarrow> string \<Rightarrow> string list \<Rightarrow> 'f db \<Rightarrow> (string \<times> nat) list" where
  "memory_scores wing hall hashes d =
     (let ends = map fst (matched_pairs wing hall hashes d) @ map snd (matched_pairs wing hall hashes d);
          open_ends = filter (\<lambda>i. \<not> consolidated_id d i) ends
      in map (\<lambda>i. (i, count_list open_ends i)) (remdups open_ends))"

definition by_hits :: "string \<times> nat \<Rightarrow> string \<times> nat \<Rightarrow> bool" where
  "by_hits a b \<longleftrightarrow> snd b < snd a \<or> snd b = snd a \<and> fst a \<le> fst b"

interpretation hits_order: row_order by_hits
  by unfold_locales (auto simp: by_hits_def)

definition fingerprint_search ::
    "string \<Rightarrow> string \<Rightarrow> string list \<Rightarrow> nat \<Rightarrow> 'f db \<Rightarrow> 'f memory_hit list" where
  "fingerprint_search wing hall hashes max_results d =
     (if hashes = [] then []
      else concat (map (\<lambda>(i, hits). map (\<lambda>m. memory_hit_from_row m hits) (filter (\<lambda>m. row_id m = i) (db_memories d)))
             (take max_results (order_by by_hits (memory_scores wing hall hashes d)))))"

subsection \<open>Recommendation by lift\<close>

text \<open>
  \<open>occ_sum\<close> sums a memory's counts over its pairs. The quotient of floats is a parameter \<open>ratio\<close>; \<open>NULLIF\<close>
  makes the lift NULL when a sum is 0, which sorts last and is reported as 0.
\<close>

definition occ_sum :: "'f db \<Rightarrow> string \<Rightarrow> nat" where
  "occ_sum d i =
     sum_list (map cp_co_count (filter (\<lambda>p. cp_memory_id_a p = i) (db_pairs d))) +
     sum_list (map cp_co_count (filter (\<lambda>p. cp_memory_id_b p = i) (db_pairs d)))"

definition neighbors :: "'f db \<Rightarrow> string \<Rightarrow> (string \<times> nat) list" where
  "neighbors d i =
     map (\<lambda>p. (cp_memory_id_b p, cp_co_count p)) (filter (\<lambda>p. cp_memory_id_a p = i) (db_pairs d)) @
     map (\<lambda>p. (cp_memory_id_a p, cp_co_count p)) (filter (\<lambda>p. cp_memory_id_b p = i) (db_pairs d))"

definition lift_of :: "(nat \<Rightarrow> nat \<Rightarrow> 'g) \<Rightarrow> 'f db \<Rightarrow> string \<Rightarrow> string \<times> nat \<Rightarrow> 'g option" where
  "lift_of ratio d seed n =
     (if occ_sum d seed = 0 \<or> occ_sum d (fst n) = 0 then None
      else Some (ratio (snd n * sum_list (map cp_co_count (db_pairs d))) (occ_sum d seed * occ_sum d (fst n))))"

text \<open>\<open>ORDER BY lift DESC, co_count DESC, rid\<close>.\<close>

definition by_lift :: "('g \<Rightarrow> 'g \<Rightarrow> bool) \<Rightarrow> (string \<times> nat) \<times> 'g option \<Rightarrow> (string \<times> nat) \<times> 'g option \<Rightarrow> bool" where
  "by_lift lt a b =
     (let tie = snd (fst b) < snd (fst a) \<or> snd (fst b) = snd (fst a) \<and> fst (fst a) \<le> fst (fst b)
      in case (snd a, snd b) of
           (None, None) \<Rightarrow> tie
         | (Some x, None) \<Rightarrow> True
         | (None, Some y) \<Rightarrow> False
         | (Some x, Some y) \<Rightarrow> lt y x \<or> \<not> lt x y \<and> tie)"

definition recommend_by_lift ::
    "(nat \<Rightarrow> nat \<Rightarrow> 'g) \<Rightarrow> ('g \<Rightarrow> 'g \<Rightarrow> bool) \<Rightarrow> 'g \<Rightarrow> string \<Rightarrow> nat \<Rightarrow> nat \<Rightarrow> 'f db \<Rightarrow>
      (string \<times> nat \<times> 'g) list" where
  "recommend_by_lift ratio lt zero memory_id limit min_co_count d =
     map (\<lambda>((i, n), l). (i, n, case l of Some x \<Rightarrow> x | None \<Rightarrow> zero))
       (take limit (order_by (by_lift lt)
         (map (\<lambda>n. (n, lift_of ratio d memory_id n))
           (filter (\<lambda>n. min_co_count \<le> snd n) (neighbors d memory_id)))))"

end
