(* ===== verification/Store_Types.thy ===== *)
theory Store_Types
  imports Memory_Sidecar Turn_Ledger
begin

text \<open>
  The well-formedness of the SQLite store: the primary keys and \<open>UNIQUE\<close> columns of its schema are
  unique, its foreign keys point at rows that exist, and the label columns hold labels their readers
  know. Every operation of the store keeps it, so every store reached from an empty one has it.
\<close>

subsection \<open>The constraints\<close>

named_theorems keeps "preservation of the constraints of a table"

definition keyed :: "('r \<Rightarrow> 'k) \<Rightarrow> 'r list \<Rightarrow> bool" where
  "keyed key t \<longleftrightarrow> distinct (map key t)"

definition refers :: "('r \<Rightarrow> string) \<Rightarrow> string set \<Rightarrow> 'r list \<Rightarrow> bool" where
  "refers col parents t \<longleftrightarrow> (\<forall>r \<in> set t. col r \<in> parents)"

definition ids :: "'f db \<Rightarrow> string set" where "ids d = row_id ` set (db_memories d)"
definition keys :: "'f db \<Rightarrow> string set" where "keys d = row_key ` set (db_memories d)"

definition tier_label :: "'f memory_row \<Rightarrow> bool" where
  "tier_label r \<longleftrightarrow> (case row_compaction_tier r of None \<Rightarrow> True | Some l \<Rightarrow> tier_parse l \<noteq> None)"

definition memories_ok :: "'f memory_row list \<Rightarrow> bool" where
  "memories_ok t \<longleftrightarrow> keyed row_id t \<and> keyed row_key t \<and> (\<forall>r \<in> set t. tier_label r)"

definition fingerprints_ok :: "string set \<Rightarrow> fingerprint list \<Rightarrow> bool" where
  "fingerprints_ok is t \<longleftrightarrow> keyed fp_id t \<and> refers fp_anchor_memory_id is t \<and> refers fp_target_memory_id is t"

definition edges_ok :: "string set \<Rightarrow> consolidation_edge list \<Rightarrow> bool" where
  "edges_ok ks t \<longleftrightarrow> keyed edge_pk t \<and> refers ce_source_key ks t"

definition fields_ok :: "entity_field_row list \<Rightarrow> bool" where
  "fields_ok t \<longleftrightarrow> keyed ef_pk t \<and> (\<forall>r \<in> set t. source_as_str (source_from_db (ef_source r)) = ef_source r)"

definition members_ok :: "string set \<Rightarrow> string set \<Rightarrow> turn_member list \<Rightarrow> bool" where
  "members_ok is occs t \<longleftrightarrow> keyed member_pk t \<and> refers tm_memory_id is t \<and> refers tm_occurrence_id occs t \<and>
     (\<forall>m \<in> set t. outcome_as_str (outcome_from_db_str (tm_outcome m)) = tm_outcome m)"

definition occurrences :: "'f db \<Rightarrow> string set" where
  "occurrences d = tv_occurrence_id ` set (db_turns d)"

definition store_ok :: "'f db \<Rightarrow> bool" where
  "store_ok d \<longleftrightarrow>
     memories_ok (db_memories d) \<and>
     fingerprints_ok (ids d) (db_fingerprints d) \<and>
     (keyed sg_memory_id (db_spectrograms d) \<and> refers sg_memory_id (ids d) (db_spectrograms d)) \<and>
     keyed ep_id (db_episodes d) \<and>
     (keyed an_id (db_annotations d) \<and> refers an_memory_id (ids d) (db_annotations d)) \<and>
     edges_ok (keys d) (db_edges d) \<and>
     fields_ok (db_entity_fields d) \<and>
     keyed pair_pk (db_pairs d) \<and>
     (keyed session_pk (db_sessions d) \<and> refers sn_memory_id (ids d) (db_sessions d)) \<and>
     keyed tv_occurrence_id (db_turns d) \<and>
     members_ok (ids d) (occurrences d) (db_members d)"

subsection \<open>Statements keep constraints\<close>

lemma keyed_Nil [keeps]: "keyed key []"
  by (simp add: keyed_def)

lemma keyed_insert [keeps]: "keyed key t \<Longrightarrow> \<forall>x \<in> set t. key x \<noteq> key r \<Longrightarrow> keyed key (t @ [r])"
  by (auto simp: keyed_def)

lemma keyed_ignore [keeps]: "keyed key t \<Longrightarrow> keyed key (insert_or_ignore key r t)"
  unfolding keyed_def by (rule distinct_insert_or_ignore)

lemma keyed_upsert [keeps]: "(\<And>x. key x = key r \<Longrightarrow> key (f x) = key r) \<Longrightarrow> keyed key t \<Longrightarrow> keyed key (upsert key r f t)"
  unfolding keyed_def by (rule distinct_upsert)

lemma keyed_delete [keeps]: "keyed key t \<Longrightarrow> keyed key (delete_where P t)"
  unfolding keyed_def by (rule distinct_delete_where)

lemma keyed_update [keeps]: "(\<And>r. key (f r) = key r) \<Longrightarrow> keyed key t \<Longrightarrow> keyed key (update_where P f t)"
  by (simp add: keyed_def map_update_where_key)

lemma refers_Nil [keeps]: "refers col S []"
  by (simp add: refers_def)

lemma refers_insert [keeps]: "refers col S t \<Longrightarrow> col r \<in> S \<Longrightarrow> refers col S (t @ [r])"
  by (auto simp: refers_def)

lemma refers_upsert: "refers col S t \<Longrightarrow> col r \<in> S \<Longrightarrow> (\<And>x. col (f x) = col x) \<Longrightarrow> refers col S (upsert key r f t)"
  by (auto simp: refers_def upsert_def update_where_def)

lemma refers_delete [keeps]: "refers col S t \<Longrightarrow> refers col S (delete_where P t)"
  by (auto simp: refers_def)

lemma refers_update [keeps]: "(\<And>r. col (f r) = col r) \<Longrightarrow> refers col S t \<Longrightarrow> refers col S (update_where P f t)"
  by (auto simp: refers_def update_where_def)

lemma refers_mono: "refers col S t \<Longrightarrow> S \<subseteq> T \<Longrightarrow> refers col T t"
  by (auto simp: refers_def)

text \<open>The rows that cascade are those that would dangle.\<close>

lemma refers_cascade:
  "refers col S t \<Longrightarrow> (\<And>r. r \<in> set t \<Longrightarrow> \<not> P r \<Longrightarrow> col r \<in> S \<Longrightarrow> col r \<in> T) \<Longrightarrow> refers col T (delete_where P t)"
  by (auto simp: refers_def)

lemma has_memory_ids: "has_memory d i \<longleftrightarrow> i \<in> ids d"
  by (auto simp: has_memory_def ids_def)

lemma has_key_keys: "has_key d k \<longleftrightarrow> k \<in> keys d"
  by (auto simp: has_key_def keys_def)

lemma find_key_keys: "find_key d k = None \<longleftrightarrow> k \<notin> keys d"
  by (auto simp: find_key_def select_first_None keys_def)

lemma store_ok_empty: "store_ok empty_db"
  by (simp add: store_ok_def empty_db_def memories_ok_def fingerprints_ok_def edges_ok_def fields_ok_def
      members_ok_def keyed_def refers_def)

lemma store_ok_cache [simp]: "store_ok (d\<lparr>db_wing_cache := c\<rparr>) = store_ok d"
  by (simp add: store_ok_def ids_def keys_def occurrences_def)

lemma store_ok_pop [simp]: "store_ok (wing_cache_pop w d) = store_ok d"
  by (simp add: wing_cache_pop_def)

lemma store_ok_pop_opt [simp]: "store_ok (wing_cache_pop_opt w d) = store_ok d"
  by (simp add: wing_cache_pop_opt_def split: option.split)

lemma store_ok_clear [simp]: "store_ok (wing_cache_clear d) = store_ok d"
  by (simp add: wing_cache_clear_def)

lemma store_ok_pops [simp]: "store_ok (fold wing_cache_pop ws d) = store_ok d"
  by (induction ws arbitrary: d) simp_all

subsection \<open>Updates and deletions of memories\<close>

lemma image_update_where:
  "(\<And>r. key (f r) = key r) \<Longrightarrow> key ` set (update_where P f t) = key ` set t"
  using map_update_where_key[of t P key f] by (metis set_map)

lemma ids_update: "(\<And>r. row_id (f r) = row_id r) \<Longrightarrow> ids (update_memories P f d) = ids d"
  by (simp add: ids_def update_memories_def image_update_where)

lemma keys_update: "(\<And>r. row_key (f r) = row_key r) \<Longrightarrow> keys (update_memories P f d) = keys d"
  by (simp add: keys_def update_memories_def image_update_where)

definition column_update :: "('f memory_row \<Rightarrow> 'f memory_row) \<Rightarrow> bool" where
  "column_update f \<longleftrightarrow> (\<forall>r. row_id (f r) = row_id r \<and> row_key (f r) = row_key r \<and> (tier_label r \<longrightarrow> tier_label (f r)))"

lemma store_ok_update:
  assumes "store_ok d" and "column_update f"
  shows "store_ok (update_memories P f d)"
proof -
  have i: "ids (update_memories P f d) = ids d" by (rule ids_update) (use assms(2) in \<open>simp add: column_update_def\<close>)
  have k: "keys (update_memories P f d) = keys d" by (rule keys_update) (use assms(2) in \<open>simp add: column_update_def\<close>)
  have "memories_ok (db_memories (update_memories P f d))"
    using assms by (auto simp: store_ok_def memories_ok_def update_memories_def column_update_def keyed_update
        set_update_where)
  then show ?thesis using assms(1) i k
    by (simp add: store_ok_def occurrences_def) (simp add: update_memories_def)
qed

text \<open>What a deletion leaves, with the identifiers and keys of the deleted rows as plain sets.\<close>

lemma delete_tables:
  obtains gi gk where
    "\<And>i. i \<in> ids d \<Longrightarrow> i \<notin> gi \<Longrightarrow> i \<in> ids (delete_memories P d)"
    "\<And>k. k \<in> keys d \<Longrightarrow> k \<notin> gk \<Longrightarrow> k \<in> keys (delete_memories P d)"
    "delete_memories P d = d\<lparr>db_memories := delete_where P (db_memories d),
       db_fingerprints := delete_where
         (\<lambda>f. fp_anchor_memory_id f \<in> gi \<or> fp_target_memory_id f \<in> gi) (db_fingerprints d),
       db_spectrograms := delete_where (\<lambda>s. sg_memory_id s \<in> gi) (db_spectrograms d),
       db_annotations := delete_where (\<lambda>a. an_memory_id a \<in> gi) (db_annotations d),
       db_edges := delete_where (\<lambda>e. ce_source_key e \<in> gk) (db_edges d),
       db_sessions := delete_where (\<lambda>s. sn_memory_id s \<in> gi) (db_sessions d),
       db_members := delete_where (\<lambda>m. tm_memory_id m \<in> gi) (db_members d)\<rparr>"
proof (rule that)
  show "delete_memories P d = d\<lparr>db_memories := delete_where P (db_memories d),
       db_fingerprints := delete_where
         (\<lambda>f. fp_anchor_memory_id f \<in> row_id ` set (filter P (db_memories d)) \<or>
              fp_target_memory_id f \<in> row_id ` set (filter P (db_memories d))) (db_fingerprints d),
       db_spectrograms := delete_where (\<lambda>s. sg_memory_id s \<in> row_id ` set (filter P (db_memories d))) (db_spectrograms d),
       db_annotations := delete_where (\<lambda>a. an_memory_id a \<in> row_id ` set (filter P (db_memories d))) (db_annotations d),
       db_edges := delete_where (\<lambda>e. ce_source_key e \<in> row_key ` set (filter P (db_memories d))) (db_edges d),
       db_sessions := delete_where (\<lambda>s. sn_memory_id s \<in> row_id ` set (filter P (db_memories d))) (db_sessions d),
       db_members := delete_where (\<lambda>m. tm_memory_id m \<in> row_id ` set (filter P (db_memories d))) (db_members d)\<rparr>"
    unfolding delete_memories_def Let_def by (rule refl)
qed (auto simp: ids_def keys_def delete_memories_def Let_def)

lemma store_ok_delete:
  assumes "store_ok d"
  shows "store_ok (delete_memories P d)"
proof -
  obtain gi gk where i: "\<And>i. i \<in> ids d \<Longrightarrow> i \<notin> gi \<Longrightarrow> i \<in> ids (delete_memories P d)"
    and k: "\<And>k. k \<in> keys d \<Longrightarrow> k \<notin> gk \<Longrightarrow> k \<in> keys (delete_memories P d)"
    and del: "delete_memories P d = d\<lparr>db_memories := delete_where P (db_memories d),
       db_fingerprints := delete_where
         (\<lambda>f. fp_anchor_memory_id f \<in> gi \<or> fp_target_memory_id f \<in> gi) (db_fingerprints d),
       db_spectrograms := delete_where (\<lambda>s. sg_memory_id s \<in> gi) (db_spectrograms d),
       db_annotations := delete_where (\<lambda>a. an_memory_id a \<in> gi) (db_annotations d),
       db_edges := delete_where (\<lambda>e. ce_source_key e \<in> gk) (db_edges d),
       db_sessions := delete_where (\<lambda>s. sn_memory_id s \<in> gi) (db_sessions d),
       db_members := delete_where (\<lambda>m. tm_memory_id m \<in> gi) (db_members d)\<rparr>"
    by (rule delete_tables[of d P]) (rule that)
  define I where "I = ids (delete_memories P d)"
  define K where "K = keys (delete_memories P d)"
  have occ: "occurrences (delete_memories P d) = occurrences d" by (simp add: del occurrences_def)
  have refs: "refers col I (delete_where Q t)"
    if "refers col (ids d) t" "\<And>r. \<not> Q r \<Longrightarrow> col r \<notin> gi" for col :: "'r \<Rightarrow> string" and Q t
    using that i unfolding I_def refers_def by auto
  have refk: "refers ce_source_key K (delete_where (\<lambda>e. ce_source_key e \<in> gk) t)"
    if "refers ce_source_key (keys d) t" for t
    using that k unfolding K_def refers_def by auto
  have reff: "refers col I (delete_where (\<lambda>f. fp_anchor_memory_id f \<in> gi \<or> fp_target_memory_id f \<in> gi) t)"
    if "refers col (ids d) t" "col = fp_anchor_memory_id \<or> col = fp_target_memory_id" for col t
    by (rule refs[OF that(1)]) (use that(2) in auto)
  show ?thesis
    using assms unfolding store_ok_def I_def[symmetric] K_def[symmetric] occ
    by (simp add: del memories_ok_def fingerprints_ok_def edges_ok_def members_ok_def refs reff refk
        keyed_delete refers_delete)
qed

end
