(* ===== verification/Store_Ops.thy ===== *)
theory Store_Ops
  imports Store_Types
begin

text \<open>
  Every operation of the SQLite store that writes keeps its constraints, one lemma per operation; the
  operations as one type of requests, and the stores they reach.
\<close>

subsection \<open>Updates of single columns\<close>

lemma column_updates [simp]:
  "column_update (\<lambda>r. r\<lparr>row_content_hash := h\<rparr>)"
  "column_update (\<lambda>r. r\<lparr>row_content := c, row_content_hash := h, row_updated_at := u\<rparr>)"
  "column_update (\<lambda>r. r\<lparr>row_wing := w\<rparr>)"
  "column_update (\<lambda>r. r\<lparr>row_hall := l\<rparr>)"
  "column_update (\<lambda>r. r\<lparr>row_episode_id := p\<rparr>)"
  "column_update (\<lambda>r. r\<lparr>row_description := x, row_description_generated_at := g\<rparr>)"
  "column_update (\<lambda>r. r\<lparr>row_declarative_density := y\<rparr>)"
  "column_update (\<lambda>r. r\<lparr>row_compaction_tier := Some (tier_as_str t)\<rparr>)"
  "column_update (\<lambda>r. r\<lparr>row_source_brain_id := b, row_signature := s\<rparr>)"
  "column_update (\<lambda>r. r\<lparr>row_valid_to := v, row_updated_at := u\<rparr>)"
  "column_update (\<lambda>r. r\<lparr>row_valid_from := f, row_updated_at := u\<rparr>)"
  "column_update (\<lambda>r. r\<lparr>row_signal_score := z\<rparr>)"
  "column_update (reinforced E now q)"
  "column_update (credited E now q)"
  by (simp_all add: column_update_def tier_label_def reinforced_def credited_def)

lemma ok_set_wing: "store_ok d \<Longrightarrow> store_ok (fst (set_wing k w d))"
  by (simp add: set_wing_def store_ok_update)

lemma ok_set_description: "store_ok d \<Longrightarrow> store_ok (fst (set_description now i x d))"
  by (simp add: set_description_def store_ok_update)

lemma ok_set_declarative_density: "store_ok d \<Longrightarrow> store_ok (set_declarative_density i y d)"
  by (simp add: set_declarative_density_def store_ok_update)

lemma ok_set_compaction_tier: "store_ok d \<Longrightarrow> store_ok (set_compaction_tier i t d)"
  by (simp add: set_compaction_tier_def store_ok_update)

lemma ok_set_signature: "store_ok d \<Longrightarrow> store_ok (fst (set_signature i b s d))"
  by (simp add: set_signature_def Let_def store_ok_update)

lemma ok_backfill_content_hashes: "store_ok d \<Longrightarrow> store_ok (fst (backfill_content_hashes E d))"
proof -
  have "store_ok (fold (\<lambda>(i, content). update_memories (\<lambda>r. row_id r = i)
          (\<lambda>r. r\<lparr>row_content_hash := Some (dv_hash E content)\<rparr>)) rows d)" if "store_ok d" for rows and d :: "'a db"
    using that by (induction rows arbitrary: d) (simp_all add: case_prod_beta store_ok_update)
  then show "store_ok d \<Longrightarrow> ?thesis" by (simp add: backfill_content_hashes_def Let_def)
qed

lemma ok_reinforce_memory: "store_ok d \<Longrightarrow> store_ok (fst (reinforce_memory E now k s d))"
  by (simp add: reinforce_memory_def Let_def store_ok_update)

lemma ok_reinforce_batch:
  assumes "store_ok d"
  shows "store_ok (fst (reinforce_batch E now ks s d))"
proof -
  have "store_ok (fst (fold (reinforce_chunk E now s) cs (d, n, ws)))" if "store_ok d" for cs n ws and d :: "'a db"
    using that
    by (induction cs arbitrary: d n ws) (simp_all add: reinforce_chunk_def store_ok_update)
  note ok = this[OF assms]
  obtain d1 n ws where "fold (reinforce_chunk E now s) (chunks 900 ks) (d, 0, []) = (d1, n, ws)" by (rule prod_cases3)
  then show ?thesis using ok[of "chunks 900 ks" 0 "[]"] by (simp add: reinforce_batch_def)
qed

lemma ok_invalidate_at: "store_ok d \<Longrightarrow> store_ok (fst (invalidate_at now k v d))"
  by (simp add: invalidate_at_def store_ok_update)

lemma ok_set_valid_from: "store_ok d \<Longrightarrow> store_ok (fst (set_valid_from now k v d))"
  by (simp add: set_valid_from_def store_ok_update)

subsection \<open>Retention and forgetting\<close>

lemma ok_delete_before: "store_ok d \<Longrightarrow> store_ok (fst (delete_wing_memories_before E w l d))"
  by (simp add: delete_wing_memories_before_def Let_def store_ok_delete)

lemma ok_prune:
  assumes "store_ok d"
  shows "store_ok (fst (prune_wing_keeping_recent_per_source E w keep d))"
proof -
  have "store_ok (fst (fold (prune_source E w keep) ss (d, n)))" if "store_ok d" for ss n and d :: "'a db"
    using that by (induction ss arbitrary: d n) (simp_all add: prune_source_def Let_def store_ok_delete)
  note ok = this[OF assms]
  let ?ss = "remdups (List.map_filter (\<lambda>r. if row_wing r = Some w then row_source r else None) (db_memories d))"
  obtain d1 n where "fold (prune_source E w keep) ?ss (d, 0) = (d1, n)" by force
  then show ?thesis using ok[of ?ss 0] by (simp add: prune_wing_keeping_recent_per_source_def Let_def)
qed

lemma ok_scrub: "store_ok d \<Longrightarrow> store_ok (scrub_traces r d)"
  unfolding store_ok_def
  by (simp add: scrub_traces_def ids_def keys_def occurrences_def fingerprints_ok_def edges_ok_def
      keyed_delete keyed_update refers_delete)

lemma ok_settle: "store_ok d \<Longrightarrow> store_ok (fst (settle_episode e d))"
  unfolding store_ok_def
  by (cases e) (simp_all add: settle_episode_def Let_def ids_def keys_def occurrences_def
      keyed_delete keyed_update)

lemma ok_forget: "store_ok d \<Longrightarrow> store_ok (fst (delete_memory_by_key k d))"
  by (simp add: delete_memory_by_key_def Let_def split: option.split prod.split)
    (metis fst_conv ok_scrub ok_settle store_ok_delete)

subsection \<open>Writing memories\<close>

lemma ok_insert_fingerprints: "insert_fingerprints fps d = Inr d1 \<Longrightarrow> store_ok d \<Longrightarrow> store_ok d1"
proof (induction fps arbitrary: d)
  case (Cons f fps)
  obtain d2 where step: "insert_fingerprint f d = Inr d2" and rest: "insert_fingerprints fps d2 = Inr d1"
    using Cons.prems(1) by (auto split: sum.splits)
  have "store_ok d2"
    using step Cons.prems(2)
    by (auto simp: insert_fingerprint_def store_ok_def fingerprints_ok_def has_memory_ids ids_def keys_def
        occurrences_def keyed_insert refers_insert split: if_splits)
  then show ?case by (rule Cons.IH[OF rest])
qed simp

lemma ok_new_row:
  assumes "store_ok d" and "\<not> has_memory d (me_id m)" and "\<not> has_key d (me_key m)"
  shows "store_ok (d\<lparr>db_memories := db_memories d @ [new_row m now h]\<rparr>)"
proof -
  let ?d = "d\<lparr>db_memories := db_memories d @ [new_row m now h]\<rparr>"
  have grow: "ids d \<subseteq> ids ?d" "keys d \<subseteq> keys ?d" "occurrences ?d = occurrences d"
    by (auto simp: ids_def keys_def occurrences_def)
  have "memories_ok (db_memories ?d)"
    using assms
    by (auto simp: store_ok_def memories_ok_def has_memory_def has_key_def new_row_def tier_label_def intro!: keyed_insert)
  then show ?thesis
    using assms(1) unfolding store_ok_def grow(3)
    by (simp add: fingerprints_ok_def edges_ok_def members_ok_def refers_mono[OF _ grow(1)] refers_mono[OF _ grow(2)])
qed

lemma ok_insert_new_memory: "insert_new_memory m now h d = Inr d1 \<Longrightarrow> store_ok d \<Longrightarrow> store_ok d1"
  using ok_new_row[of d m now h]
  by (auto simp: insert_new_memory_def Let_def store_ok_update split: if_splits option.splits)

lemma ok_delete_fingerprints: "store_ok d \<Longrightarrow> store_ok (delete_fingerprints_of i d)"
  by (simp add: delete_fingerprints_of_def store_ok_def ids_def keys_def occurrences_def fingerprints_ok_def
      keyed_delete refers_delete)

lemma ok_write_memory_in_tx:
  assumes "write_memory_in_tx E now m fps d = Inr (d1, out, w)" and "store_ok d"
  shows "store_ok d1"
proof (cases "find_key d (me_key m)")
  case None
  then show ?thesis using assms
    by (auto simp: write_memory_in_tx_def Let_def split: sum.splits
        dest: ok_insert_new_memory ok_insert_fingerprints)
next
  case (Some r)
  then show ?thesis using assms
    by (auto simp: write_memory_in_tx_def Let_def store_ok_update ok_delete_fingerprints split: if_splits
        dest: ok_insert_fingerprints)
qed

lemma ok_write: "store_ok d \<Longrightarrow> store_ok (fst (write_memory E now m fps d))"
  by (auto simp: write_memory_def split: sum.split prod.split dest: ok_write_memory_in_tx)

lemma ok_write_items: "write_items E now items d = Inr (d1, outs, ws) \<Longrightarrow> store_ok d \<Longrightarrow> store_ok d1"
proof (induction items arbitrary: d outs ws)
  case (Cons item items)
  obtain m fps where item: "item = (m, fps)" by (cases item)
  show ?case using Cons.prems ok_write_memory_in_tx[of E now m fps d] Cons.IH
    by (auto simp: item split: sum.splits prod.splits)
qed simp

lemma ok_write_batch: "store_ok d \<Longrightarrow> store_ok (fst (write_batch E now items d))"
  by (auto simp: write_batch_def split: sum.split prod.split dest: ok_write_items)

lemma ok_set_fingerprints:
  assumes "store_ok d" and "map fp_id fps = map fp_id (db_fingerprints d)"
    and "map fp_anchor_memory_id fps = map fp_anchor_memory_id (db_fingerprints d)"
    and "map fp_target_memory_id fps = map fp_target_memory_id (db_fingerprints d)"
  shows "store_ok (d\<lparr>db_fingerprints := fps\<rparr>)"
proof -
  have "refers col S fps = refers col S t" if "map col fps = map col t" for col :: "fingerprint \<Rightarrow> string" and S t
    using arg_cong[OF that, of set] by (auto simp: refers_def) (metis image_eqI image_iff)+
  then show ?thesis using assms
    by (simp add: store_ok_def fingerprints_ok_def keyed_def ids_def keys_def occurrences_def)
qed

lemma map_fold_update_where:
  assumes "\<And>x r. key (h x r) = key r"
  shows "map key (fold (\<lambda>x. update_where (Q x) (h x)) xs t) = map key t"
  using assms by (induction xs arbitrary: t) (simp_all add: map_update_where_key)

lemma ok_set_hall:
  assumes "store_ok d"
  shows "store_ok (fst (set_hall E i hall d))"
proof -
  have "store_ok (update_memories (\<lambda>r. row_id r = i) (\<lambda>r. r\<lparr>row_hall := Some hall\<rparr>) d)"
    using assms by (simp add: store_ok_update)
  then show ?thesis using assms
    by (auto simp: set_hall_def Let_def intro!: ok_set_fingerprints map_fold_update_where)
qed

lemma ok_backfill_buckets:
  assumes "store_ok d"
  shows "store_ok (fst (backfill_fingerprint_time_buckets E K d))"
proof -
  have "map key (fold (backfill_one E K) rows t) = map key t"
    if "\<And>r b h. key (r\<lparr>fp_time_delta_bucket := b, fp_hash := h\<rparr>) = key r" for key :: "fingerprint \<Rightarrow> string" and rows t
    using that by (induction rows arbitrary: t) (simp_all add: backfill_one_def Let_def case_prod_beta map_update_where_key)
  then show ?thesis using assms
    by (simp add: backfill_fingerprint_time_buckets_def Let_def ok_set_fingerprints)
qed

subsection \<open>The access log and the co-retrieval index\<close>

lemma ok_log: "store_ok d \<Longrightarrow> store_ok (log_retrieval_event ev d)"
  by (simp add: log_retrieval_event_def store_ok_def ids_def keys_def occurrences_def)

lemma ok_pairs: "store_ok d \<Longrightarrow> keyed pair_pk ps \<Longrightarrow> store_ok (d\<lparr>db_pairs := ps\<rparr>)"
  by (simp add: store_ok_def ids_def keys_def occurrences_def)

lemma keyed_count_peer: "keyed pair_pk t \<Longrightarrow> keyed pair_pk (count_peer now m p t)"
  by (auto simp: count_peer_def pair_pk_def split: prod.split intro!: keyed_upsert)

lemma keyed_count_peers: "keyed pair_pk t \<Longrightarrow> keyed pair_pk (fold (count_peer now m) ps t)"
  by (induction ps arbitrary: t) (simp_all add: keyed_count_peer)

lemma ok_associate:
  assumes "store_ok d"
  shows "store_ok (fst (associate_memory_session now m s d))"
proof -
  let ?row = "\<lparr>sn_memory_id = m, sn_session_id = s\<rparr>"
  have "store_ok (d\<lparr>db_sessions := db_sessions d @ [?row]\<rparr>)"
    if "\<forall>x \<in> set (db_sessions d). session_pk x \<noteq> session_pk ?row" "has_memory d m"
    using assms that
    by (simp add: store_ok_def ids_def keys_def occurrences_def keyed_insert refers_insert has_memory_ids)
  moreover have "keyed pair_pk (db_pairs d)" using assms by (simp add: store_ok_def)
  ultimately show ?thesis using assms ok_pairs[OF _ keyed_count_peers]
    by (auto simp: associate_memory_session_def Let_def)
qed

lemma keys_bump: "fst ` set (bump k t) = insert k (fst ` set t)"
proof (induction t)
  case (Cons x t)
  then show ?case by (cases x) (simp add: insert_commute)
qed simp

lemma distinct_bump: "distinct (map fst t) \<Longrightarrow> distinct (map fst (bump k t))"
  by (induction t) (auto simp: keys_bump)

lemma distinct_bumps: "distinct (map fst t) \<Longrightarrow> distinct (map fst (fold bump ks t))"
  by (induction ks arbitrary: t) (simp_all add: distinct_bump)

lemma ok_rebuild: "store_ok d \<Longrightarrow> store_ok (fst (rebuild_co_retrieval_index_for_methods E now ps d))"
proof -
  assume "store_ok d"
  moreover have "distinct (map fst (fold bump (counted_pairs E ps d) []))" by (simp add: distinct_bumps)
  ultimately show ?thesis
    by (auto simp: rebuild_co_retrieval_index_for_methods_def Let_def keyed_def comp_def pair_pk_def case_prod_beta
        intro!: ok_pairs)
qed

subsection \<open>Consolidation\<close>

lemma edges_add: "edges_ok ks t \<Longrightarrow> s \<in> ks \<Longrightarrow> edges_ok ks (add_edge now target s t)"
  by (auto simp: edges_ok_def add_edge_def keyed_ignore refers_def set_insert_or_ignore)

lemma edges_adds: "edges_ok ks t \<Longrightarrow> set ss \<subseteq> ks \<Longrightarrow> edges_ok ks (fold (add_edge now target) ss t)"
  by (induction ss arbitrary: t) (simp_all add: edges_add)

lemma edges_flatten: "edges_ok ks t \<Longrightarrow> edges_ok ks (flatten_chain now target s t)"
  unfolding flatten_chain_def by (rule edges_adds) (auto simp: edges_ok_def refers_def)

lemma ok_edges: "store_ok d \<Longrightarrow> edges_ok (keys d) es \<Longrightarrow> store_ok (d\<lparr>db_edges := es\<rparr>)"
  by (simp add: store_ok_def ids_def keys_def occurrences_def)

lemma ok_consolidate_source:
  assumes "consolidate_source now policy target s (d, cs, sk) = Inr (d1, r)" and "store_ok d"
  shows "store_ok d1"
proof -
  have "edges_ok (keys d) (db_edges d)" using assms(2) by (simp add: store_ok_def)
  then have "has_key d s \<Longrightarrow> edges_ok (keys d) (flatten_chain now target s (add_edge now target s (db_edges d)))"
    by (simp add: edges_flatten edges_add has_key_keys)
  with assms show ?thesis
    by (auto simp: consolidate_source_def ok_edges split: if_splits option.splits)
qed

lemma ok_consolidate_sources:
  "consolidate_sources now policy target ss (d, cs, sk) = Inr (d1, r) \<Longrightarrow> store_ok d \<Longrightarrow> store_ok d1"
proof (induction ss arbitrary: d cs sk)
  case (Cons s ss)
  then obtain d2 cs2 sk2 where "consolidate_source now policy target s (d, cs, sk) = Inr (d2, cs2, sk2)"
      "consolidate_sources now policy target ss (d2, cs2, sk2) = Inr (d1, r)"
    by (auto split: sum.splits)
  then show ?case using ok_consolidate_source Cons.IH Cons.prems(2) by metis
qed simp

lemma ok_consolidate:
  assumes "store_ok d"
  shows "store_ok (fst (consolidate_into E now policy ss target d))"
  using assms ok_consolidate_sources[of now policy target ss d "[]" "[]"]
  by (auto simp: consolidate_into_def Let_def store_ok_update split: option.split sum.split)

subsection \<open>The turn ledger\<close>

lemma ok_insert_members:
  "insert_members occ ms d = Inr d1 \<Longrightarrow> store_ok d \<Longrightarrow> occ \<in> occurrences d \<Longrightarrow> store_ok d1"
proof (induction ms arbitrary: d)
  case (Cons m ms)
  obtain rank i k where m: "m = (rank, i, k)" by (cases m)
  let ?row = "\<lparr>tm_occurrence_id = occ, tm_rank = rank, tm_memory_id = i, tm_memory_key = k, tm_outcome = ''unreported''\<rparr>"
  have "store_ok (d\<lparr>db_members := db_members d @ [?row]\<rparr>)"
    if "\<forall>x \<in> set (db_members d). member_pk x \<noteq> (occ, i)" "has_memory d i"
    using Cons.prems(2,3) that
    by (simp add: store_ok_def members_ok_def ids_def keys_def occurrences_def keyed_insert refers_insert
        has_memory_ids member_pk_def outcome_from_db_str_def)
  moreover have "occ \<in> occurrences (d\<lparr>db_members := db_members d @ [?row]\<rparr>)"
    using Cons.prems(3) by (simp add: occurrences_def)
  ultimately show ?case using Cons m by (auto split: if_splits)
qed simp

lemma ok_record_turn:
  assumes "store_ok d"
  shows "store_ok (fst (record_turn_delivery t d))"
proof -
  let ?d = "d\<lparr>db_turns := insert_or_ignore tv_occurrence_id (turn_row t) (db_turns d)\<rparr>"
  have occ: "occurrences ?d = insert (td_occurrence_id t) (occurrences d)"
    by (simp add: occurrences_def keys_insert_or_ignore) (simp add: turn_row_def)
  have "refers tm_occurrence_id (occurrences ?d) (db_members d)"
    using assms refers_mono[of tm_occurrence_id "occurrences d"] occ by (auto simp: store_ok_def members_ok_def)
  then have "store_ok ?d"
    using assms by (simp add: store_ok_def members_ok_def ids_def keys_def keyed_ignore)
  then show ?thesis using assms occ
    by (auto simp: record_turn_delivery_def Let_def split: sum.split dest: ok_insert_members)
qed

lemma ok_members_label:
  "store_ok d \<Longrightarrow> store_ok (d\<lparr>db_members := update_where P (\<lambda>m. m\<lparr>tm_outcome := outcome_as_str x\<rparr>) (db_members d)\<rparr>)"
  by (simp add: store_ok_def members_ok_def ids_def keys_def occurrences_def keyed_update refers_update
      member_pk_def all_update_where)

lemma ok_apply_outcome:
  assumes "store_ok d"
  shows "store_ok (fst (apply_outcome E now occ s kx (d, n)))"
proof (cases kx)
  case (Pair k x)
  have "store_ok (d\<lparr>db_members := update_where (of_key occ k) (\<lambda>m. m\<lparr>tm_outcome := outcome_as_str x\<rparr>) (db_members d)\<rparr>)"
    using assms by (rule ok_members_label)
  from this store_ok_update[OF this column_updates(14), of "\<lambda>r. row_key r = k" E now s]
  show ?thesis unfolding Pair apply_outcome_def Let_def prod.case by (simp only: fst_conv simp_thms split: if_split)
qed

lemma ok_apply_outcomes: "store_ok d \<Longrightarrow> store_ok (fst (fold (apply_outcome E now occ s) xs (d, n)))"
proof (induction xs arbitrary: d n)
  case (Cons x xs)
  obtain d1 n1 where "apply_outcome E now occ s x (d, n) = (d1, n1)" by force
  then show ?case using Cons.IH[of d1 n1] ok_apply_outcome[OF Cons.prems, of E now occ s x n] by simp
qed simp

lemma ok_turns:
  assumes "store_ok d" and "\<And>t. tv_occurrence_id (f t) = tv_occurrence_id t"
  shows "store_ok (d\<lparr>db_turns := update_where P f (db_turns d)\<rparr>)"
proof -
  have "occurrences (d\<lparr>db_turns := update_where P f (db_turns d)\<rparr>) = occurrences d"
    by (simp add: occurrences_def image_update_where assms(2))
  then show ?thesis using assms(1) by (simp add: store_ok_def ids_def keys_def keyed_update assms(2))
qed

lemma ok_commit: 
  assumes "store_ok d"
  shows "store_ok (fst (commit_turn_outcomes E now occ xs s at_time d))"
proof -
  obtain d1 n where run: "fold (apply_outcome E now occ s) xs (d, 0) = (d1, n)" by force
  have "store_ok d1" using ok_apply_outcomes[OF assms, of E now occ s xs 0] run by simp
  then show ?thesis using assms run by (simp add: commit_turn_outcomes_def Let_def ok_turns)
qed

lemma ok_void: "store_ok d \<Longrightarrow> store_ok (fst (void_turn occ at_time d))"
  by (simp add: void_turn_def ok_turns split: option.split)

subsection \<open>Fields, spectrograms, episodes and annotations\<close>

lemma ok_set_entity_field:
  assumes "store_ok d"
  shows "store_ok (fst (set_entity_field now e n v s u d))"
proof -
  have "source_as_str (source_from_db (source_as_str s)) = source_as_str s" by (cases s) (simp_all add: source_from_db_def)
  then show ?thesis using assms
    by (auto simp: set_entity_field_def Let_def store_ok_def fields_ok_def ids_def keys_def occurrences_def ef_pk_def
        upsert_def all_update_where keyed_update keyed_insert)
qed

lemma ok_write_spectrogram: "store_ok d \<Longrightarrow> store_ok (fst (write_spectrogram s d))"
  by (auto simp: write_spectrogram_def store_ok_def ids_def keys_def occurrences_def has_memory_ids
      intro!: keyed_upsert refers_upsert)

lemma ok_write_episode: "store_ok d \<Longrightarrow> store_ok (write_episode e d)"
  by (auto simp: write_episode_def store_ok_def ids_def keys_def occurrences_def intro!: keyed_upsert)

lemma ok_write_annotation: "store_ok d \<Longrightarrow> store_ok (fst (write_annotation a d))"
  by (auto simp: write_annotation_def store_ok_def ids_def keys_def occurrences_def has_memory_ids
      intro!: keyed_insert refers_insert)

subsection \<open>The operations as requests\<close>

text \<open>
  Each request is one call of the store. The calls that only read are not listed; \<open>wing_search\<close> is,
  because it fills the read cache.
\<close>

datatype ('f, 'g) store_op =
    Write string "'f memory" "fingerprint list"
  | Write_Batch string "('f memory \<times> fingerprint list) list"
  | Set_Wing string string
  | Set_Hall string string
  | Set_Description string string string
  | Set_Declarative_Density string 'f
  | Set_Compaction_Tier string compaction_tier
  | Set_Signature string "byte list" "byte list"
  | Backfill_Content_Hashes
  | Backfill_Buckets "'g clock_env"
  | Reinforce string string 'f
  | Reinforce_Batch string "string list" 'f
  | Invalidate_At string string string
  | Set_Valid_From string string string
  | Delete_Before string string
  | Prune string nat
  | Forget string
  | Log_Event retrieval_event
  | Rebuild_Index string "string list"
  | Associate string string string
  | Consolidate string invalid_source_policy "string list" string
  | Record_Turn turn_delivery
  | Commit_Outcomes string string "(string \<times> ledger_outcome) list" 'f string
  | Void_Turn string string
  | Set_Field string string string string field_source "string option"
  | Write_Spectrogram "'f spectrogram_row"
  | Write_Episode episode_row
  | Write_Annotation annotation_row
  | Wing_Search "string \<Rightarrow> string" "string \<Rightarrow> bool" string "string list" nat

fun apply_op :: "'f db_env \<Rightarrow> ('f, 'g) store_op \<Rightarrow> 'f db \<Rightarrow> 'f db" where
  "apply_op E (Write now m fps) d = fst (write_memory E now m fps d)"
| "apply_op E (Write_Batch now items) d = fst (write_batch E now items d)"
| "apply_op E (Set_Wing k w) d = fst (set_wing k w d)"
| "apply_op E (Set_Hall i hall) d = fst (set_hall E i hall d)"
| "apply_op E (Set_Description now i x) d = fst (set_description now i x d)"
| "apply_op E (Set_Declarative_Density i y) d = set_declarative_density i y d"
| "apply_op E (Set_Compaction_Tier i t) d = set_compaction_tier i t d"
| "apply_op E (Set_Signature i b s) d = fst (set_signature i b s d)"
| "apply_op E Backfill_Content_Hashes d = fst (backfill_content_hashes E d)"
| "apply_op E (Backfill_Buckets K) d = fst (backfill_fingerprint_time_buckets E K d)"
| "apply_op E (Reinforce now k s) d = fst (reinforce_memory E now k s d)"
| "apply_op E (Reinforce_Batch now ks s) d = fst (reinforce_batch E now ks s d)"
| "apply_op E (Invalidate_At now k v) d = fst (invalidate_at now k v d)"
| "apply_op E (Set_Valid_From now k v) d = fst (set_valid_from now k v d)"
| "apply_op E (Delete_Before w l) d = fst (delete_wing_memories_before E w l d)"
| "apply_op E (Prune w keep) d = fst (prune_wing_keeping_recent_per_source E w keep d)"
| "apply_op E (Forget k) d = fst (delete_memory_by_key k d)"
| "apply_op E (Log_Event ev) d = log_retrieval_event ev d"
| "apply_op E (Rebuild_Index now ps) d = fst (rebuild_co_retrieval_index_for_methods E now ps d)"
| "apply_op E (Associate now m s) d = fst (associate_memory_session now m s d)"
| "apply_op E (Consolidate now policy ss t) d = fst (consolidate_into E now policy ss t d)"
| "apply_op E (Record_Turn t) d = fst (record_turn_delivery t d)"
| "apply_op E (Commit_Outcomes now occ xs s c) d = fst (commit_turn_outcomes E now occ xs s c d)"
| "apply_op E (Void_Turn occ v) d = fst (void_turn occ v d)"
| "apply_op E (Set_Field now e n v s u) d = fst (set_entity_field now e n v s u d)"
| "apply_op E (Write_Spectrogram s) d = fst (write_spectrogram s d)"
| "apply_op E (Write_Episode e) d = write_episode e d"
| "apply_op E (Write_Annotation a) d = fst (write_annotation a d)"
| "apply_op E (Wing_Search low kept w ts n) d = fst (wing_search E low kept w ts n d)"

definition apply_ops :: "'f db_env \<Rightarrow> ('f, 'g) store_op list \<Rightarrow> 'f db \<Rightarrow> 'f db" where
  "apply_ops E ops d = fold (apply_op E) ops d"

lemma ok_wing_search: "store_ok d \<Longrightarrow> store_ok (fst (wing_search E low kept w ts n d))"
  by (simp add: wing_search_def Let_def split: option.split)

lemmas ok_ops = ok_write ok_write_batch ok_set_wing ok_set_hall ok_set_description ok_set_declarative_density
  ok_set_compaction_tier ok_set_signature ok_backfill_content_hashes ok_backfill_buckets ok_reinforce_memory
  ok_reinforce_batch ok_invalidate_at ok_set_valid_from ok_delete_before ok_prune ok_forget ok_log ok_rebuild
  ok_associate ok_consolidate ok_record_turn ok_commit ok_void ok_set_entity_field ok_write_spectrogram
  ok_write_episode ok_write_annotation ok_wing_search

lemma store_ok_op: "store_ok d \<Longrightarrow> store_ok (apply_op E op d)"
  by (cases op) (simp_all add: ok_ops)

lemma store_ok_ops: "store_ok d \<Longrightarrow> store_ok (apply_ops E ops d)"
  unfolding apply_ops_def by (induction ops arbitrary: d) (simp_all add: store_ok_op)

text \<open>What the constraints say of the readers.\<close>

lemma labels_read_back:
  assumes "store_ok d"
  shows "\<forall>r \<in> set (db_memories d). map_option tier_as_str (me_compaction_tier (memory_from_row r)) = row_compaction_tier r"
    and "\<forall>m \<in> set (db_members d). \<exists>x. tm_outcome m = outcome_as_str x"
proof -
  have parse: "tier_as_str t = l" if "tier_parse l = Some t" for l t
    using that by (auto simp: tier_parse_def split: if_splits)
  show "\<forall>r \<in> set (db_memories d). map_option tier_as_str (me_compaction_tier (memory_from_row r)) = row_compaction_tier r"
  proof
    fix r
    assume "r \<in> set (db_memories d)"
    then have "tier_label r" using assms by (simp add: store_ok_def memories_ok_def)
    then show "map_option tier_as_str (me_compaction_tier (memory_from_row r)) = row_compaction_tier r"
      using parse by (cases "row_compaction_tier r") (auto simp: tier_label_def memory_from_row_def)
  qed
  show "\<forall>m \<in> set (db_members d). \<exists>x. tm_outcome m = outcome_as_str x"
    using assms unfolding store_ok_def members_ok_def by metis
qed

lemma get_memory_exact:
  assumes "store_ok d" and "r \<in> set (db_memories d)"
  shows "get_memory (row_id r) d = Some (memory_from_row r) \<and> find_key d (row_key r) = Some r"
proof -
  have "distinct (map row_id (db_memories d))" "distinct (map row_key (db_memories d))"
    using assms(1) by (simp_all add: store_ok_def memories_ok_def keyed_def)
  then show ?thesis using assms(2) by (simp add: get_memory_def find_key_def select_first_unique)
qed

text \<open>
  C21: Whatever sequence of the calls of the memory store runs on an empty store (shared-wing imports and retractions
  write the same table by statements of their own, are modelled over \<open>sync_store\<close>, and are not among them), the store
  is well-typed: its keys are unique,
  every fingerprint, spectrogram, annotation, session and ledger row belongs to a memory that exists,
  every consolidated source exists, and every label column is read back as the value that was
  written. So a memory is found by its identifier and by its key exactly.
\<close>

theorem reachable_store_well_typed:
  shows "store_ok (apply_ops E ops empty_db) \<and>
    (\<forall>r \<in> set (db_memories (apply_ops E ops empty_db)).
       get_memory (row_id r) (apply_ops E ops empty_db) = Some (memory_from_row r) \<and>
       find_key (apply_ops E ops empty_db) (row_key r) = Some r \<and>
       map_option tier_as_str (me_compaction_tier (memory_from_row r)) = row_compaction_tier r) \<and>
    (\<forall>m \<in> set (db_members (apply_ops E ops empty_db)). \<exists>x. tm_outcome m = outcome_as_str x)"
  using store_ok_ops[OF store_ok_empty, of E ops] get_memory_exact labels_read_back by blast

definition toy_ops :: "(nat, nat) store_op list" where
  "toy_ops = [Write ''now'' (memory_from_row toy_memory) [], Set_Compaction_Tier (row_id toy_memory) Daily_Rollup]"

lemma reachable_store_well_typed_witness:
  "\<exists>r \<in> set (db_memories (apply_ops toy_floats toy_ops empty_db)).
     get_memory ''i1'' (apply_ops toy_floats toy_ops empty_db) = Some (memory_from_row r) \<and>
     me_compaction_tier (memory_from_row r) = Some Daily_Rollup"
proof -
  obtain r where r: "db_memories (apply_ops toy_floats toy_ops empty_db) = [r]" "row_id r = ''i1''"
    "me_compaction_tier (memory_from_row r) = Some Daily_Rollup"
    by (simp add: apply_ops_def toy_ops_def write_memory_def write_memory_in_tx_def find_key_def empty_db_def
        select_first_def insert_new_memory_def has_memory_def has_key_def memory_from_row_def toy_memory_def
        new_row_def Let_def wing_cache_pop_opt_def wing_cache_pop_def set_compaction_tier_def update_memories_def
        update_where_def wing_cache_clear_def tier_parse_def opt_id32_def)
  have "r \<in> set (db_memories (apply_ops toy_floats toy_ops empty_db))" using r(1) by simp
  with reachable_store_well_typed[of toy_floats toy_ops] r(2,3) show ?thesis by metis
qed

end
