(* ===== verification/Store_Cache.thy ===== *)
theory Store_Cache
  imports Store_Ops
begin

text \<open>
  The read cache of \<open>wing_search\<close>: what is cached for a wing must be what the query would fetch. Each
  operation that changes a served column clears the cache or drops the wings it touched, except
  \<open>set_hall\<close> and \<open>commit_turn_outcomes\<close>.
\<close>

definition cache_ok :: "'f db_env \<Rightarrow> 'f db \<Rightarrow> bool" where
  "cache_ok E d \<longleftrightarrow> (\<forall>w hits. db_wing_cache d w = Some hits \<longrightarrow> hits = wing_hits E d w)"

lemma cache_ok_empty: "cache_ok E empty_db"
  by (simp add: cache_ok_def empty_db_def)

lemma cache_ok_clear [simp]: "cache_ok E (wing_cache_clear d)"
  by (simp add: cache_ok_def wing_cache_clear_def)

lemma wing_hits_cong: "db_memories d1 = db_memories d \<Longrightarrow> wing_hits E d1 w = wing_hits E d w"
  by (simp add: wing_hits_def)

lemma wing_hits_cache [simp]:
  "wing_hits E (wing_cache_pop x d) w = wing_hits E d w"
  "wing_hits E (wing_cache_pop_opt o1 d) w = wing_hits E d w"
  "wing_hits E (fold wing_cache_pop ws d) w = wing_hits E d w"
proof -
  show pop: "wing_hits E (wing_cache_pop x d) w = wing_hits E d w" for x and d :: "'a db"
    by (simp add: wing_hits_def wing_cache_pop_def)
  then show "wing_hits E (wing_cache_pop_opt o1 d) w = wing_hits E d w"
    by (simp add: wing_cache_pop_opt_def split: option.split)
  show "wing_hits E (fold wing_cache_pop ws d) w = wing_hits E d w"
    by (induction ws arbitrary: d) (simp_all add: pop)
qed

lemma cached_pop: "db_wing_cache (wing_cache_pop x d) w = (if w = x then None else db_wing_cache d w)"
  by (simp add: wing_cache_pop_def)

lemma cached_pop_opt: "db_wing_cache (wing_cache_pop_opt o1 d) w = (if o1 = Some w then None else db_wing_cache d w)"
  by (auto simp: wing_cache_pop_opt_def cached_pop split: option.split)

lemma cached_pops: "db_wing_cache (fold wing_cache_pop ws d) w = (if w \<in> set ws then None else db_wing_cache d w)"
  by (induction ws arbitrary: d) (simp_all add: cached_pop)

text \<open>A step is sound when the entries it keeps are of wings it did not change.\<close>

lemma cache_step:
  assumes "cache_ok E d"
    and "\<And>w. db_wing_cache d1 w = None \<or> db_wing_cache d1 w = db_wing_cache d w \<and> wing_hits E d1 w = wing_hits E d w"
  shows "cache_ok E d1"
  using assms unfolding cache_ok_def by (metis option.distinct(1))

lemma cache_frame: "cache_ok E d \<Longrightarrow> db_memories d1 = db_memories d \<Longrightarrow> db_wing_cache d1 = db_wing_cache d \<Longrightarrow> cache_ok E d1"
  unfolding cache_ok_def using wing_hits_cong[of d1 d E] by simp

subsection \<open>What changes the answer of a wing\<close>

text \<open>Updates of columns that are not served.\<close>

definition unserved :: "('f memory_row \<Rightarrow> 'f memory_row) \<Rightarrow> bool" where
  "unserved f \<longleftrightarrow> (\<forall>r n. memory_hit_from_row (f r) n = memory_hit_from_row r n)"

lemma unserved_hash [simp]: "unserved (\<lambda>r. r\<lparr>row_content_hash := h\<rparr>)"
  by (simp add: unserved_def memory_hit_from_row_def)

lemma unserved_fields:
  assumes "unserved f"
  shows "row_wing (f r) = row_wing r" "row_signal_score (f r) = row_signal_score r" "row_id (f r) = row_id r"
proof -
  have "hit_wing (memory_hit_from_row (f r) 0) = hit_wing (memory_hit_from_row r 0)"
    "hit_signal_score (memory_hit_from_row (f r) 0) = hit_signal_score (memory_hit_from_row r 0)"
    "hit_id (memory_hit_from_row (f r) 0) = hit_id (memory_hit_from_row r 0)"
    using assms by (simp_all add: unserved_def)
  then show "row_wing (f r) = row_wing r" "row_signal_score (f r) = row_signal_score r" "row_id (f r) = row_id r"
    by (simp_all add: memory_hit_from_row_def)
qed

lemma filter_update_where:
  "(\<And>r. Q (f r) = Q r) \<Longrightarrow> filter Q (update_where P f t) = map (\<lambda>r. if P r then f r else r) (filter Q t)"
  by (simp add: update_where_def filter_map comp_def if_distrib cong: if_cong filter_cong)

lemma wing_hits_unserved:
  assumes "unserved f"
  shows "wing_hits E (update_memories P f d) w = wing_hits E d w"
proof -
  let ?g = "\<lambda>r. if P r then f r else r"
  have le: "by_signal E (?g r) (?g q) = by_signal E r q" for r q
    by (simp add: by_signal_def unserved_fields[OF assms])
  have "filter (\<lambda>r. row_wing r = Some w) (update_where P f (db_memories d)) =
      map ?g (filter (\<lambda>r. row_wing r = Some w) (db_memories d))"
    by (rule filter_update_where) (simp add: unserved_fields[OF assms])
  moreover have "memory_hit_from_row (?g r) n = memory_hit_from_row r n" for r n
    using assms by (simp add: unserved_def)
  ultimately show ?thesis
    by (simp add: wing_hits_def update_memories_def order_by_map[of "by_signal E" ?g, OF le] comp_def)
qed

text \<open>Changes confined to rows of other wings.\<close>

lemma wing_hits_elsewhere:
  assumes "\<And>r. r \<in> set (db_memories d) \<Longrightarrow> P r \<Longrightarrow> row_wing r \<noteq> Some w" and "\<And>r. row_wing (f r) = row_wing r"
  shows "wing_hits E (update_memories P f d) w = wing_hits E d w"
proof -
  have "filter (\<lambda>r. row_wing r = Some w) (update_where P f t) = filter (\<lambda>r. row_wing r = Some w) t"
    if "\<forall>r \<in> set t. P r \<longrightarrow> row_wing r \<noteq> Some w" for t
    using that by (induction t) (auto simp: update_where_def assms(2))
  then show ?thesis using assms(1) by (simp add: wing_hits_def update_memories_def)
qed

lemma wing_hits_deleted:
  assumes "\<And>r. r \<in> set (db_memories d) \<Longrightarrow> P r \<Longrightarrow> row_wing r \<noteq> Some w"
  shows "wing_hits E (delete_memories P d) w = wing_hits E d w"
proof -
  have "filter (\<lambda>r. row_wing r = Some w) (delete_where P (db_memories d)) = filter (\<lambda>r. row_wing r = Some w) (db_memories d)"
    unfolding delete_where_def filter_filter by (rule filter_cong) (use assms in auto)
  then show ?thesis by (simp add: wing_hits_def delete_memories_def Let_def)
qed

lemma cached_delete [simp]: "db_wing_cache (delete_memories P d) = db_wing_cache d"
  by (simp add: delete_memories_def Let_def)

lemma cached_update [simp]: "db_wing_cache (update_memories P f d) = db_wing_cache d"
  by (simp add: update_memories_def)

subsection \<open>The operations\<close>

lemma unique_key: "store_ok d \<Longrightarrow> find_key d k = Some r \<Longrightarrow> q \<in> set (db_memories d) \<Longrightarrow> row_key q = k \<Longrightarrow> q = r"
  using get_memory_exact by fastforce

lemma insert_fingerprints_frame:
  "insert_fingerprints fps d = Inr d1 \<Longrightarrow> db_memories d1 = db_memories d \<and> db_wing_cache d1 = db_wing_cache d"
proof (induction fps arbitrary: d)
  case (Cons f fps)
  then show ?case by (fastforce simp: insert_fingerprint_def split: sum.splits if_splits)
qed simp

text \<open>The stores an insertion of \<open>m\<close> goes through, seen by the cache of wing \<open>w\<close>.\<close>

definition inserting :: "'f db_env \<Rightarrow> 'f memory \<Rightarrow> string \<Rightarrow> 'f db \<Rightarrow> 'f db \<Rightarrow> bool" where
  "inserting E m w d c \<longleftrightarrow> db_wing_cache c = db_wing_cache d \<and>
     (\<forall>r \<in> set (db_memories c). row_id r = me_id m \<longrightarrow> row_wing r = me_wing m) \<and>
     (me_wing m \<noteq> Some w \<longrightarrow> wing_hits E c w = wing_hits E d w)"

lemma inserting_update:
  assumes "inserting E m w d c" and "\<And>r. row_wing (f r) = row_wing r" and "\<And>r. row_id (f r) = row_id r"
  shows "inserting E m w d (update_memories (\<lambda>r. row_id r = me_id m) f c)"
proof -
  have own: "\<forall>r \<in> set (db_memories c). row_id r = me_id m \<longrightarrow> row_wing r = me_wing m"
    using assms(1) by (simp add: inserting_def)
  have "wing_hits E (update_memories (\<lambda>r. row_id r = me_id m) f c) w = wing_hits E c w" if "me_wing m \<noteq> Some w"
    by (rule wing_hits_elsewhere) (use own that assms(2) in auto)
  moreover have "\<forall>r \<in> set (db_memories (update_memories (\<lambda>r. row_id r = me_id m) f c)).
      row_id r = me_id m \<longrightarrow> row_wing r = me_wing m"
    using own by (auto simp: update_memories_def set_update_where assms(2,3))
  ultimately show ?thesis using assms(1) by (simp add: inserting_def)
qed

lemma insert_new_memory_frame:
  assumes "insert_new_memory m now h d = Inr d1"
  shows "inserting E m w d d1"
proof -
  let ?new = "d\<lparr>db_memories := db_memories d @ [new_row m now h]\<rparr>"
  have "\<forall>r \<in> set (db_memories d). row_id r \<noteq> me_id m"
    using assms by (auto simp: insert_new_memory_def has_memory_def split: if_splits)
  then have start: "inserting E m w d ?new" by (auto simp: inserting_def wing_hits_def new_row_def)
  show ?thesis using assms
    by (auto simp: insert_new_memory_def Let_def start inserting_update split: if_splits option.splits)
qed

lemma write_in_tx_frame:
  assumes "write_memory_in_tx E now m fps d = Inr (d1, out, sw)" and "store_ok d"
  shows "db_wing_cache d1 = db_wing_cache d \<and>
    (out = No_Op \<or> me_wing m \<noteq> Some w \<and> sw \<noteq> Some w \<longrightarrow> wing_hits E d1 w = wing_hits E d w)"
proof (cases "find_key d (me_key m)")
  case None
  then obtain d2 where ins: "insert_new_memory m now (dv_hash E (me_content m)) d = Inr d2"
      and fps: "insert_fingerprints fps d2 = Inr d1" and out: "out = Inserted"
    using assms(1) by (auto simp: write_memory_in_tx_def Let_def split: sum.splits)
  show ?thesis
    using insert_new_memory_frame[OF ins, of E w] insert_fingerprints_frame[OF fps] out wing_hits_cong[of d1 d2 E w]
    by (simp add: inserting_def)
next
  case (Some r)
  let ?h = "dv_hash E (me_content m)"
  show ?thesis
  proof (cases "(case row_content_hash r of Some h \<Rightarrow> h | None \<Rightarrow> dv_hash E (row_content r)) = ?h")
    case True
    then show ?thesis using assms(1) Some by (auto simp: write_memory_in_tx_def Let_def wing_hits_unserved)
  next
    case False
    let ?f = "\<lambda>q. q\<lparr>row_content := me_content m, row_content_hash := Some ?h, row_updated_at := now\<rparr>"
    obtain fps_ok: "insert_fingerprints fps (delete_fingerprints_of (row_id r)
        (update_memories (\<lambda>q. row_key q = me_key m) ?f d)) = Inr d1" and sw: "sw = row_wing r" and out: "out = Content_Updated"
      using assms(1) Some False by (auto simp: write_memory_in_tx_def Let_def)
    have "wing_hits E (update_memories (\<lambda>q. row_key q = me_key m) ?f d) w = wing_hits E d w" if "row_wing r \<noteq> Some w"
      by (rule wing_hits_elsewhere) (use that unique_key[OF assms(2) Some] in auto)
    then show ?thesis
      using insert_fingerprints_frame[OF fps_ok] sw out wing_hits_cong[of d1 "update_memories (\<lambda>q. row_key q = me_key m) ?f d" E w]
      by (simp add: delete_fingerprints_of_def)
  qed
qed

lemma cache_write:
  assumes "cache_ok E d" and "store_ok d"
  shows "cache_ok E (fst (write_memory E now m fps d))"
proof (cases "write_memory_in_tx E now m fps d")
  case (Inl e)
  then show ?thesis using assms(1) by (simp add: write_memory_def)
next
  case (Inr x)
  obtain d1 out sw where x: "x = (d1, out, sw)" by (rule prod_cases3)
  note fr = write_in_tx_frame[OF Inr[unfolded x] assms(2)]
  show ?thesis
    by (rule cache_step[OF assms(1)]) (use fr in \<open>auto simp: write_memory_def Inr x cached_pop_opt\<close>)
qed

lemma write_items_frame:
  "write_items E now items d = Inr (d1, outs, ws) \<Longrightarrow> store_ok d \<Longrightarrow>
    db_wing_cache d1 = db_wing_cache d \<and> (w \<notin> set ws \<longrightarrow> wing_hits E d1 w = wing_hits E d w)"
proof (induction items arbitrary: d outs ws)
  case (Cons item items)
  obtain m fps where item: "item = (m, fps)" by (cases item)
  obtain d2 out sw where tx: "write_memory_in_tx E now m fps d = Inr (d2, out, sw)"
    using Cons.prems(1) by (auto simp: item split: sum.splits)
  obtain outs2 ws2 where rest: "write_items E now items d2 = Inr (d1, outs2, ws2)"
    and ws: "ws = (if out = No_Op then [] else (case me_wing m of Some w \<Rightarrow> [w] | None \<Rightarrow> []) @
      (case sw of Some w \<Rightarrow> [w] | None \<Rightarrow> [])) @ ws2"
    using Cons.prems(1) tx by (auto simp: item split: sum.splits)
  note hd = write_in_tx_frame[OF tx Cons.prems(2), of w]
  note tl = Cons.IH[OF rest ok_write_memory_in_tx[OF tx Cons.prems(2)]]
  show ?case
  proof (intro conjI impI)
    show "db_wing_cache d1 = db_wing_cache d" using hd tl by simp
    assume "w \<notin> set ws"
    then have "out = No_Op \<or> me_wing m \<noteq> Some w \<and> sw \<noteq> Some w" "w \<notin> set ws2" using ws by auto
    then show "wing_hits E d1 w = wing_hits E d w" using hd tl by simp
  qed
qed simp

lemma cache_write_batch:
  assumes "cache_ok E d" and "store_ok d"
  shows "cache_ok E (fst (write_batch E now items d))"
proof (cases "write_items E now items d")
  case (Inl e)
  then show ?thesis using assms(1) by (simp add: write_batch_def)
next
  case (Inr x)
  obtain d1 outs ws where x: "x = (d1, outs, ws)" by (rule prod_cases3)
  note fr = write_items_frame[OF Inr[unfolded x] assms(2)]
  show ?thesis
    by (rule cache_step[OF assms(1)]) (use fr in \<open>auto simp: write_batch_def Inr x cached_pops\<close>)
qed

lemma cache_unserved_updates:
  assumes "cache_ok E d"
  shows "cache_ok E (fst (backfill_content_hashes E d))"
proof -
  have "cache_ok E (fold (\<lambda>(i, content). update_memories (\<lambda>r. row_id r = i)
          (\<lambda>r. r\<lparr>row_content_hash := Some (dv_hash E content)\<rparr>)) rows d)" if "cache_ok E d" for rows and d :: "'a db"
    using that
  proof (induction rows arbitrary: d)
    case (Cons x rows)
    have "cache_ok E (update_memories (\<lambda>r. row_id r = fst x)
        (\<lambda>r. r\<lparr>row_content_hash := Some (dv_hash E (snd x))\<rparr>) d)"
      by (rule cache_step[OF Cons.prems]) (simp add: wing_hits_unserved)
    then show ?case using Cons.IH by (simp add: case_prod_beta)
  qed simp
  then show ?thesis using assms by (simp add: backfill_content_hashes_def Let_def)
qed

lemma cache_reinforce_memory:
  assumes "cache_ok E d" and "store_ok d"
  shows "cache_ok E (fst (reinforce_memory E now k s d))"
proof (cases "find_key d k")
  case None
  then have "\<forall>r \<in> set (db_memories d). row_key r \<noteq> k" by (simp add: find_key_def select_first_None)
  then show ?thesis using assms(1) by (simp add: reinforce_memory_def Let_def update_memories_def update_where_none)
next
  case (Some r)
  have wing: "row_wing (reinforced E now s q) = row_wing q" for q by (simp add: reinforced_def)
  have "wing_hits E (update_memories (\<lambda>r. row_key r = k) (reinforced E now s) d) w = wing_hits E d w"
    if "row_wing r \<noteq> Some w" for w
    by (rule wing_hits_elsewhere) (use that unique_key[OF assms(2) Some] wing in auto)
  moreover have "\<exists>r \<in> set (db_memories d). row_key r = k" using Some by (auto simp: find_key_def dest: select_first_Some)
  ultimately show ?thesis
    by (intro cache_step[OF assms(1)]) (auto simp: reinforce_memory_def Let_def Some cached_pop_opt)
qed

lemma reinforce_chunks_frame:
  "fold (reinforce_chunk E now s) cs (d, n, ws) = (d1, n1, ws1) \<Longrightarrow>
    db_wing_cache d1 = db_wing_cache d \<and> set ws \<subseteq> set ws1 \<and> (w \<notin> set ws1 \<longrightarrow> wing_hits E d1 w = wing_hits E d w)"
proof (induction cs arbitrary: d n ws)
  case (Cons c cs)
  let ?touched = "List.map_filter (\<lambda>r. if row_key r \<in> set c then row_wing r else None) (db_memories d)"
  let ?d = "update_memories (\<lambda>r. row_key r \<in> set c) (reinforced E now s) d"
  note tl = Cons.IH[of ?d "n + count_where (\<lambda>r. row_key r \<in> set c) (db_memories d)" "ws @ remdups ?touched"]
  have "wing_hits E ?d w = wing_hits E d w" if "w \<notin> set ?touched"
    by (rule wing_hits_elsewhere) (use that in \<open>force simp: List.map_filter_def reinforced_def\<close>)+
  then show ?case using tl Cons.prems by (auto simp: reinforce_chunk_def)
qed simp

lemma cache_reinforce_batch:
  assumes "cache_ok E d"
  shows "cache_ok E (fst (reinforce_batch E now ks s d))"
proof -
  obtain d1 n ws where run: "fold (reinforce_chunk E now s) (chunks 900 ks) (d, 0, []) = (d1, n, ws)" by (rule prod_cases3)
  note fr = reinforce_chunks_frame[OF run]
  show ?thesis
    by (rule cache_step[OF assms]) (use fr in \<open>auto simp: reinforce_batch_def run cached_pops\<close>)
qed

lemma cache_delete_before:
  assumes "cache_ok E d"
  shows "cache_ok E (fst (delete_wing_memories_before E x l d))"
proof -
  let ?P = "\<lambda>r. row_wing r = Some x \<and> before_time E (row_created_at r) l"
  have "w \<noteq> x \<Longrightarrow> wing_hits E (delete_memories ?P d) w = wing_hits E d w" for w
    by (rule wing_hits_deleted) auto
  then show ?thesis
    by (intro cache_step[OF assms]) (auto simp: delete_wing_memories_before_def Let_def cached_pop)
qed

lemma prune_sources_frame:
  "fold (prune_source E x keep) ss (d, n) = (d1, n1) \<Longrightarrow>
    db_wing_cache d1 = db_wing_cache d \<and> n \<le> n1 \<and> (w \<noteq> x \<or> n1 = n \<longrightarrow> wing_hits E d1 w = wing_hits E d w)"
proof (induction ss arbitrary: d n)
  case (Cons src ss)
  let ?kept = "set (map row_id (take keep (order_by (by_recency E) (filter (of_source x src) (db_memories d)))))"
  let ?P = "\<lambda>r. of_source x src r \<and> row_id r \<notin> ?kept"
  let ?d = "delete_memories ?P d" and ?n = "n + count_where ?P (db_memories d)"
  have step: "prune_source E x keep src (d, n) = (?d, ?n)" by (simp add: prune_source_def Let_def)
  have tl: "db_wing_cache d1 = db_wing_cache ?d \<and> ?n \<le> n1 \<and> (w \<noteq> x \<or> n1 = ?n \<longrightarrow> wing_hits E d1 w = wing_hits E ?d w)"
    by (rule Cons.IH) (use Cons.prems step in simp)
  have other: "w \<noteq> x \<Longrightarrow> wing_hits E ?d w = wing_hits E d w"
    by (rule wing_hits_deleted) (auto simp: of_source_def)
  have none: "wing_hits E ?d w = wing_hits E d w" if "n1 = n"
  proof -
    have "count_where ?P (db_memories d) = 0" using tl that by linarith
    then have "\<forall>r \<in> set (db_memories d). \<not> ?P r" unfolding count_where_0 .
    then show ?thesis by (intro wing_hits_deleted) blast
  qed
  show ?case
  proof (intro conjI impI)
    show "db_wing_cache d1 = db_wing_cache d" using tl by simp
    show "n \<le> n1" using tl by linarith
    assume "w \<noteq> x \<or> n1 = n"
    then show "wing_hits E d1 w = wing_hits E d w"
    proof
      assume "w \<noteq> x"
      then have "wing_hits E d1 w = wing_hits E ?d w" using tl by blast
      also have "\<dots> = wing_hits E d w" by (rule other) (rule \<open>w \<noteq> x\<close>)
      finally show ?thesis .
    next
      assume "n1 = n"
      have "n1 = ?n" using tl \<open>n1 = n\<close> by linarith
      then have "wing_hits E d1 w = wing_hits E ?d w" using tl by blast
      also have "\<dots> = wing_hits E d w" by (rule none) (rule \<open>n1 = n\<close>)
      finally show ?thesis .
    qed
  qed
qed simp

lemma cache_prune:
  assumes "cache_ok E d"
  shows "cache_ok E (fst (prune_wing_keeping_recent_per_source E x keep d))"
proof -
  let ?ss = "remdups (List.map_filter (\<lambda>r. if row_wing r = Some x then row_source r else None) (db_memories d))"
  obtain d1 n where run: "fold (prune_source E x keep) ?ss (d, 0) = (d1, n)" by force
  note fr = prune_sources_frame[OF run]
  have d1: "fst (prune_wing_keeping_recent_per_source E x keep d) = (if n > 0 then wing_cache_pop x d1 else d1)"
    unfolding prune_wing_keeping_recent_per_source_def Let_def run prod.case fst_conv by (rule refl)
  have "cache_ok E (wing_cache_pop x d1)"
    by (rule cache_step[OF assms]) (use fr in \<open>simp add: cached_pop\<close>)
  moreover have "n = 0 \<Longrightarrow> cache_ok E d1"
    by (rule cache_step[OF assms]) (use fr in simp)
  ultimately show ?thesis unfolding d1 by simp
qed

lemma consolidate_sources_cached:
  "consolidate_sources now policy target ss (d, cs, sk) = Inr (d1, r) \<Longrightarrow>
    db_memories d1 = db_memories d \<and> db_wing_cache d1 = db_wing_cache d"
proof (induction ss arbitrary: d cs sk)
  case (Cons x ss)
  then obtain d2 cs2 sk2 where one: "consolidate_source now policy target x (d, cs, sk) = Inr (d2, cs2, sk2)"
      and rest: "consolidate_sources now policy target ss (d2, cs2, sk2) = Inr (d1, r)"
    by (auto split: sum.splits)
  have "db_memories d2 = db_memories d \<and> db_wing_cache d2 = db_wing_cache d"
    using one by (auto simp: consolidate_source_def split: if_splits option.splits)
  then show ?case using Cons.IH[OF rest] by simp
qed simp

lemma cache_consolidate:
  assumes "cache_ok E d"
  shows "cache_ok E (fst (consolidate_into E now policy ss target d))"
proof (cases "find_key d target")
  case None
  then show ?thesis using assms by (simp add: consolidate_into_def)
next
  case (Some t)
  show ?thesis
  proof (cases "consolidate_sources now policy target ss (d, [], [])")
    case (Inl e)
    then show ?thesis using assms Some by (simp add: consolidate_into_def)
  next
    case (Inr x)
    obtain d1 cs sk where x: "x = (d1, cs, sk)" by (rule prod_cases3)
    have "cache_ok E d1"
      using consolidate_sources_cached[OF Inr[unfolded x]] by (intro cache_frame[OF assms]) simp_all
    then show ?thesis using Some Inr x by (simp add: consolidate_into_def Let_def)
  qed
qed

lemma insert_members_cached:
  "insert_members occ ms d = Inr d1 \<Longrightarrow> db_memories d1 = db_memories d \<and> db_wing_cache d1 = db_wing_cache d"
proof (induction ms arbitrary: d)
  case (Cons m ms)
  obtain rank i k where "m = (rank, i, k)" by (cases m)
  then show ?case using Cons by (auto split: if_splits)
qed simp

lemma cache_record_turn:
  assumes "cache_ok E d"
  shows "cache_ok E (fst (record_turn_delivery t d))"
  using cache_frame[OF assms] assms
  by (auto simp: record_turn_delivery_def Let_def split: sum.split dest: insert_members_cached)

lemma cache_forget: "cache_ok E d \<Longrightarrow> cache_ok E (fst (delete_memory_by_key k d))"
  by (simp add: delete_memory_by_key_def Let_def split: option.split prod.split)

text \<open>The calls that touch neither the memories nor the cache.\<close>

lemma cache_side_tables:
  assumes "cache_ok E d"
  shows "cache_ok E (log_retrieval_event ev d)"
    "cache_ok E (fst (rebuild_co_retrieval_index_for_methods E now ps d))"
    "cache_ok E (fst (associate_memory_session now m s d))"
    "cache_ok E (fst (void_turn o1 v d))"
    "cache_ok E (fst (set_entity_field now e n x src u d))"
    "cache_ok E (fst (write_spectrogram sg d))"
    "cache_ok E (write_episode ep d)"
    "cache_ok E (fst (write_annotation an d))"
    "cache_ok E (fst (backfill_fingerprint_time_buckets E K d))"
  by (rule cache_frame[OF assms];
      simp add: log_retrieval_event_def rebuild_co_retrieval_index_for_methods_def associate_memory_session_def
        void_turn_def set_entity_field_def write_spectrogram_def write_episode_def write_annotation_def
        backfill_fingerprint_time_buckets_def Let_def split: option.split)+

lemma cache_signature:
  assumes "cache_ok E d"
  shows "cache_ok E (fst (set_signature i b s d))"
proof (cases "count_where (\<lambda>r. row_id r = i) (db_memories d) > 0")
  case False
  then have "update_memories (\<lambda>r. row_id r = i) f d = d" for f
    by (simp add: update_memories_def update_where_none)
  then show ?thesis using False assms by (simp add: set_signature_def Let_def)
qed (simp add: set_signature_def Let_def)

lemma cache_wing_search:
  assumes "cache_ok E d"
  shows "cache_ok E (fst (wing_search E low kept w ts n d))"
proof (cases "db_wing_cache d w")
  case None
  then have d1: "fst (wing_search E low kept w ts n d) =
      d\<lparr>db_wing_cache := (\<lambda>w. if kept w then db_wing_cache d w else None)(w \<mapsto> wing_hits E d w)\<rparr>"
    by (simp add: wing_search_def Let_def)
  have "wing_hits E (d\<lparr>db_wing_cache := c\<rparr>) x = wing_hits E d x" for c x by (simp add: wing_hits_def)
  then show ?thesis using assms unfolding d1 cache_ok_def by simp
qed (use assms in \<open>simp add: wing_search_def Let_def\<close>)

fun keeps_cache :: "('f, 'g) store_op \<Rightarrow> bool" where
  "keeps_cache (Set_Hall i hall) \<longleftrightarrow> False"
| "keeps_cache (Commit_Outcomes now o1 xs s c) \<longleftrightarrow> False"
| "keeps_cache op \<longleftrightarrow> True"

lemma cache_op:
  assumes "cache_ok E d" and "store_ok d" and "keeps_cache op"
  shows "cache_ok E (apply_op E op d)"
  using assms(3)
  by (cases op) (simp_all add: cache_write cache_write_batch cache_unserved_updates cache_reinforce_memory
      cache_reinforce_batch cache_delete_before cache_prune cache_consolidate cache_record_turn cache_forget
      cache_side_tables cache_signature cache_wing_search assms(1,2) set_wing_def set_description_def
      set_declarative_density_def set_compaction_tier_def invalidate_at_def set_valid_from_def)

lemma cache_ops:
  "cache_ok E d \<Longrightarrow> store_ok d \<Longrightarrow> \<forall>op \<in> set ops. keeps_cache op \<Longrightarrow> cache_ok E (apply_ops E ops d)"
  unfolding apply_ops_def by (induction ops arbitrary: d) (simp_all add: cache_op store_ok_op)

text \<open>What \<open>wing_search\<close> answers with no cache at all.\<close>

lemma cached_answer:
  assumes "cache_ok E d"
  shows "snd (wing_search E low kept w ts n d) = snd (wing_search E low kept w ts n (wing_cache_clear d))"
proof -
  have "wing_hits E (wing_cache_clear d) w = wing_hits E d w" by (simp add: wing_hits_def wing_cache_clear_def)
  moreover have "db_wing_cache (wing_cache_clear d) w = None" by (simp add: wing_cache_clear_def)
  ultimately show ?thesis using assms
    by (cases "db_wing_cache d w") (auto simp: wing_search_def Let_def cache_ok_def)
qed

text \<open>
  C22: The read cache of a wing is transparent: whatever sequence of calls runs on an empty store, as
  long as none is \<open>set_hall\<close> or \<open>commit_turn_outcomes\<close>, a search of any wing answers what it would
  answer with an empty cache.
\<close>

theorem cached_search_fresh:
  assumes "\<forall>op \<in> set ops. keeps_cache op"
  shows "snd (wing_search E low kept w ts n (apply_ops E ops empty_db)) =
    snd (wing_search E low kept w ts n (wing_cache_clear (apply_ops E ops empty_db)))"
  by (rule cached_answer) (rule cache_ops[OF cache_ok_empty store_ok_empty assms])

definition toy_reads :: "(nat, nat) store_op list" where
  "toy_reads = [Wing_Search (\<lambda>s. s) (\<lambda>w. True) ''w'' [] 5, Write ''now'' (memory_from_row toy_memory) [],
     Wing_Search (\<lambda>s. s) (\<lambda>w. True) ''w'' [] 5, Set_Wing (row_key toy_memory) ''w'']"

lemma cached_search_fresh_witness:
  "snd (wing_search toy_floats (\<lambda>s. s) (\<lambda>w. True) ''w'' [] 5 (apply_ops toy_floats toy_reads empty_db)) =
   snd (wing_search toy_floats (\<lambda>s. s) (\<lambda>w. True) ''w'' [] 5 (wing_cache_clear (apply_ops toy_floats toy_reads empty_db)))"
  by (rule cached_search_fresh) (simp add: toy_reads_def)

subsection \<open>The two operations that leave the cache behind\<close>

lemma set_hall_cached: "db_wing_cache (fst (set_hall E i hall d)) = db_wing_cache d"
  by (simp add: set_hall_def Let_def)

lemma apply_outcomes_cached: "db_wing_cache (fst (fold (apply_outcome E now o1 s) xs (d, n))) = db_wing_cache d"
proof (induction xs arbitrary: d n)
  case (Cons x xs)
  obtain d1 n1 where one: "apply_outcome E now o1 s x (d, n) = (d1, n1)" by force
  then have "db_wing_cache d1 = db_wing_cache d"
    by (auto simp: apply_outcome_def Let_def split: prod.splits if_splits)
  then show ?case using Cons.IH[of d1 n1] one by simp
qed simp

lemma commit_cached: "db_wing_cache (fst (commit_turn_outcomes E now o1 xs s c d)) = db_wing_cache d"
proof -
  obtain d1 n where "fold (apply_outcome E now o1 s) xs (d, 0) = (d1, n)" by force
  then show ?thesis using apply_outcomes_cached[of E now o1 s xs d 0]
    by (simp add: commit_turn_outcomes_def Let_def)
qed

lemma cached_search:
  assumes "db_wing_cache d w = Some hits" and "length hits \<le> n"
  shows "snd (wing_search E low kept w [] n d) = hits"
  using assms by (simp add: wing_search_def Let_def)

lemma wing_hits_member: "r \<in> set (db_memories d) \<Longrightarrow> row_wing r = Some w \<Longrightarrow> memory_hit_from_row r 0 \<in> set (wing_hits E d w)"
  by (simp add: wing_hits_def)

lemma length_wing_hits: "length (wing_hits E d w) \<le> length (db_memories d)"
  by (simp add: wing_hits_def)

lemma set_hall_row:
  assumes "store_ok d" and "r \<in> set (db_memories d)"
  shows "get_memory (row_id r) (fst (set_hall E (row_id r) hall d)) = Some ((memory_from_row r)\<lparr>me_hall := Some hall\<rparr>)"
proof -
  let ?r = "r\<lparr>row_hall := Some hall\<rparr>" and ?d = "fst (set_hall E (row_id r) hall d)"
  have "\<exists>q \<in> set (db_memories d). row_id q = row_id r" using assms(2) by blast
  then have mems: "db_memories ?d = update_where (\<lambda>q. row_id q = row_id r) (\<lambda>q. q\<lparr>row_hall := Some hall\<rparr>) (db_memories d)"
    by (auto simp: set_hall_def Let_def update_memories_def)
  have "?r = (if row_id r = row_id r then r\<lparr>row_hall := Some hall\<rparr> else r)" by simp
  then have "?r \<in> set (db_memories ?d)" unfolding mems set_update_where by (rule image_eqI) (rule assms(2))
  from get_memory_exact[OF ok_set_hall[OF assms(1)] this]
  show ?thesis by (simp add: memory_from_row_def)
qed

text \<open>
  Changing the hall of a memory whose wing is cached leaves the cache behind: looked up by its
  identifier the memory has its new hall, while a search of its wing goes on serving the hit with the
  old one; and committing the outcomes of a turn, which credits signal scores, changes no answer of
  a cached wing either.
\<close>

theorem hall_and_credit_left_stale:
  assumes "cache_ok E d" and "store_ok d" and "r \<in> set (db_memories d)" and "row_wing r = Some w"
    and "db_wing_cache d w \<noteq> None" and "row_hall r \<noteq> Some hall" and "length (db_memories d) \<le> n"
  shows "get_memory (row_id r) (fst (set_hall E (row_id r) hall d)) = Some ((memory_from_row r)\<lparr>me_hall := Some hall\<rparr>) \<and>
    (\<exists>h \<in> set (snd (wing_search E low kept w [] n (fst (set_hall E (row_id r) hall d)))).
       hit_id h = row_id r \<and> hit_hall h \<noteq> Some hall) \<and>
    snd (wing_search E low kept w ts m (fst (commit_turn_outcomes E now o1 xs s c d))) = snd (wing_search E low kept w ts m d)"
proof -
  obtain hits where hits: "db_wing_cache d w = Some hits" using assms(5) by blast
  then have eq: "hits = wing_hits E d w" using assms(1) by (simp add: cache_ok_def)
  have "length hits \<le> n" unfolding eq using length_wing_hits[of E d w] assms(7) by linarith
  then have served: "snd (wing_search E low kept w [] n (fst (set_hall E (row_id r) hall d))) = hits"
    by (intro cached_search) (simp_all add: set_hall_cached hits)
  have "memory_hit_from_row r 0 \<in> set hits" unfolding eq using assms(3,4) by (rule wing_hits_member)
  moreover have "hit_id (memory_hit_from_row r 0) = row_id r" "hit_hall (memory_hit_from_row r 0) \<noteq> Some hall"
    using assms(6) by (simp_all add: memory_hit_from_row_def)
  moreover have "snd (wing_search E low kept w ts m (fst (commit_turn_outcomes E now o1 xs s c d))) =
      snd (wing_search E low kept w ts m d)"
    by (simp add: wing_search_def Let_def commit_cached hits)
  ultimately show ?thesis using set_hall_row[OF assms(2,3), of E hall] unfolding served by blast
qed

lemma hall_and_credit_left_stale_witness:
  "\<exists>d :: nat db. \<exists>h \<in> set (snd (wing_search toy_floats (\<lambda>s. s) (\<lambda>w. True) ''w'' [] 5 (fst (set_hall toy_floats ''i1'' ''fact'' d)))).
     hit_id h = ''i1'' \<and> hit_hall h \<noteq> Some ''fact'' \<and> map_option me_hall (get_memory ''i1'' (fst (set_hall toy_floats ''i1'' ''fact'' d))) = Some (Some ''fact'')"
proof -
  let ?r = "toy_memory\<lparr>row_wing := Some ''w'', row_hall := None\<rparr>"
  let ?d = "empty_db\<lparr>db_memories := [?r], db_wing_cache := [''w'' \<mapsto> [memory_hit_from_row ?r 0]]\<rparr>"
  have hits: "wing_hits toy_floats ?d ''w'' = [memory_hit_from_row ?r 0]" by (simp add: wing_hits_def order_by_def)
  then have cache: "cache_ok toy_floats ?d" by (simp add: cache_ok_def)
  have ok: "store_ok ?d"
    using store_ok_empty[where 'a = nat]
    by (simp add: store_ok_def ids_def keys_def occurrences_def memories_ok_def keyed_def tier_label_def toy_memory_def
        empty_db_def fingerprints_ok_def refers_def edges_ok_def members_ok_def fields_ok_def)
  have id: "row_id ?r = ''i1''" by (simp add: toy_memory_def)
  from hall_and_credit_left_stale[OF cache ok, of ?r "''w''" "''fact''" 5 "\<lambda>s. s" "\<lambda>w. True"]
  show ?thesis unfolding id by (intro exI[of _ ?d]) (auto simp: id)
qed

end
