(* ===== verification/Temporal.thy ===== *)
theory Temporal
  imports Prelude
begin

text \<open>
  Resolution of relative dates, \<open>spectral/src/temporal.rs\<close>. The calendar of chrono and the regular
  expression engine are parameters; the patterns, the calendar loops and the resolution of overlapping
  matches are the source's. A date operation that panics (out of chrono's range) is \<open>None\<close>, and so is a
  loop that does not return.
\<close>

datatype weekday = Mon | Tue | Wed | Thu | Fri | Sat | Sun

fun weekday_index :: "weekday \<Rightarrow> int" where
  "weekday_index Mon = 0"
| "weekday_index Tue = 1"
| "weekday_index Wed = 2"
| "weekday_index Thu = 3"
| "weekday_index Fri = 4"
| "weekday_index Sat = 5"
| "weekday_index Sun = 6"

text \<open>
  \<open>cal_add d n\<close> is \<open>d + Duration::days(n)\<close>; \<open>cal_num\<close> is \<open>num_days_from_ce\<close>, which the code does not call
  and the properties use to say how dates follow each other.
\<close>

record 'd calendar =
  cal_add :: "'d \<Rightarrow> int \<Rightarrow> 'd option"
  cal_weekday :: "'d \<Rightarrow> weekday"
  cal_ymd :: "int \<Rightarrow> nat \<Rightarrow> nat \<Rightarrow> 'd option"
  cal_year :: "'d \<Rightarrow> int"
  cal_month0 :: "'d \<Rightarrow> nat"
  cal_day :: "'d \<Rightarrow> nat"
  cal_num :: "'d \<Rightarrow> int"

datatype certainty = Exact | Ambiguous

record 'd resolved_date =
  rd_phrase :: string
  rd_offset :: nat
  rd_resolved :: 'd
  rd_certainty :: certainty

definition weekday_from :: "string \<Rightarrow> weekday option" where
  "weekday_from name =
     (if name \<in> {''monday'', ''mon''} then Some Mon
      else if name \<in> {''tuesday'', ''tue'', ''tues''} then Some Tue
      else if name \<in> {''wednesday'', ''wed''} then Some Wed
      else if name \<in> {''thursday'', ''thu'', ''thurs''} then Some Thu
      else if name \<in> {''friday'', ''fri''} then Some Fri
      else if name \<in> {''saturday'', ''sat''} then Some Sat
      else if name \<in> {''sunday'', ''sun''} then Some Sun
      else None)"

definition WEEKDAY_ALT :: string where
  "WEEKDAY_ALT = ''monday|mon|tuesday|tues|tue|wednesday|wed|thursday|thurs|thu|friday|fri|saturday|sat|sunday|sun''"

subsection \<open>The calendar loops\<close>

text \<open>The loop of both weekday searches: step by \<open>n\<close> days until the weekday is met.\<close>

partial_function (option) seek_weekday :: "'d calendar \<Rightarrow> int \<Rightarrow> weekday \<Rightarrow> 'd \<Rightarrow> 'd option" where
  "seek_weekday C n wd d =
     (if cal_weekday C d = wd then Some d
      else case cal_add C d n of None \<Rightarrow> None | Some e \<Rightarrow> seek_weekday C n wd e)"

definition previous_weekday :: "'d calendar \<Rightarrow> 'd \<Rightarrow> weekday \<Rightarrow> 'd option" where
  "previous_weekday C anchor wd = Option.bind (cal_add C anchor (- 1)) (seek_weekday C (- 1) wd)"

definition next_weekday :: "'d calendar \<Rightarrow> 'd \<Rightarrow> weekday \<Rightarrow> 'd option" where
  "next_weekday C anchor wd = Option.bind (cal_add C anchor 1) (seek_weekday C 1 wd)"

text \<open>The clamping loop; \<open>day -= 1\<close> on an unsigned 0 does not return a date.\<close>

fun clamp_day :: "'d calendar \<Rightarrow> int \<Rightarrow> nat \<Rightarrow> nat \<Rightarrow> 'd option" where
  "clamp_day C y m 0 = cal_ymd C y m 0"
| "clamp_day C y m (Suc d) = (case cal_ymd C y m (Suc d) of Some x \<Rightarrow> Some x | None \<Rightarrow> clamp_day C y m d)"

definition shift_months :: "'d calendar \<Rightarrow> 'd \<Rightarrow> int \<Rightarrow> 'd option" where
  "shift_months C anchor months =
     (let months_from_0 = cal_year C anchor * 12 + int (cal_month0 C anchor) + months
      in clamp_day C (months_from_0 div 12) (nat (months_from_0 mod 12) + 1) (cal_day C anchor))"

subsection \<open>The matches\<close>

text \<open>
  \<open>rx_find p t\<close> lists the matches of \<open>p\<close> in \<open>t\<close> with their byte offsets, \<open>rx_captures\<close> also the groups
  after the whole match; \<open>rx_i64\<close> is \<open>str::parse::<i64>\<close>.
\<close>

record regex_env =
  rx_lower :: "string \<Rightarrow> string"
  rx_find :: "string \<Rightarrow> string \<Rightarrow> (nat \<times> nat \<times> string) list"
  rx_captures :: "string \<Rightarrow> string \<Rightarrow> ((nat \<times> nat \<times> string) \<times> string list) list"
  rx_i64 :: "string \<Rightarrow> int option"

record 'd hit =
  ht_start :: nat
  ht_end :: nat
  ht_phrase :: string
  ht_resolved :: 'd
  ht_certainty :: certainty

definition hit_of :: "nat \<times> nat \<times> string \<Rightarrow> 'd \<Rightarrow> certainty \<Rightarrow> 'd hit" where
  "hit_of m d c = (case m of (s, e, p) \<Rightarrow>
     \<lparr>ht_start = s, ht_end = e, ht_phrase = p, ht_resolved = d, ht_certainty = c\<rparr>)"

definition BS :: "char \<Rightarrow> string" where "BS c = [CHR 0x5C, c]"
definition EDGE :: string where "EDGE = BS (CHR ''b'')"
definition SPACES :: string where "SPACES = BS (CHR ''s'') @ ''+''"

text \<open>A panic of one match ends the whole call.\<close>

fun all_hits :: "'d hit option list \<Rightarrow> 'd hit list option" where
  "all_hits [] = Some []"
| "all_hits (h # hs) =
     (case h of None \<Rightarrow> None | Some x \<Rightarrow> (case all_hits hs of None \<Rightarrow> None | Some xs \<Rightarrow> Some (x # xs)))"

definition plain_hits :: "regex_env \<Rightarrow> string \<Rightarrow> string \<Rightarrow> 'd option \<Rightarrow> certainty \<Rightarrow> 'd hit option list" where
  "plain_hits R p t d c = map (\<lambda>m. map_option (\<lambda>x. hit_of m x c) d) (rx_find R p t)"

definition day_hits :: "'d calendar \<Rightarrow> regex_env \<Rightarrow> string \<Rightarrow> 'd \<Rightarrow> 'd hit option list" where
  "day_hits C R t anchor =
     plain_hits R (EDGE @ ''(?:the'' @ SPACES @ '')?day'' @ SPACES @ ''before'' @ SPACES @ ''yesterday'' @ EDGE) t
       (cal_add C anchor (- 2)) Exact @
     plain_hits R (EDGE @ ''(?:the'' @ SPACES @ '')?day'' @ SPACES @ ''after'' @ SPACES @ ''tomorrow'' @ EDGE) t
       (cal_add C anchor 2) Exact @
     plain_hits R (EDGE @ ''yesterday'' @ EDGE) t (cal_add C anchor (- 1)) Exact @
     plain_hits R (EDGE @ ''today'' @ EDGE) t (Some anchor) Exact @
     plain_hits R (EDGE @ ''tomorrow'' @ EDGE) t (cal_add C anchor 1) Exact @
     plain_hits R (EDGE @ ''last'' @ SPACES @ ''night'' @ EDGE) t (cal_add C anchor (- 1)) Exact @
     plain_hits R (EDGE @ ''(?:tonight|this'' @ SPACES @ ''evening)'' @ EDGE) t (Some anchor) Exact"

definition number_word :: "regex_env \<Rightarrow> string \<Rightarrow> int option" where
  "number_word R w =
     (if w \<in> {''a'', ''an'', ''one''} then Some 1 else if w = ''two'' then Some 2 else if w = ''three'' then Some 3
      else if w = ''four'' then Some 4 else if w = ''five'' then Some 5 else if w = ''six'' then Some 6
      else if w = ''seven'' then Some 7 else if w = ''eight'' then Some 8 else if w = ''nine'' then Some 9
      else if w = ''ten'' then Some 10 else rx_i64 R w)"

definition ago_date :: "'d calendar \<Rightarrow> 'd \<Rightarrow> int \<Rightarrow> string \<Rightarrow> 'd option \<times> certainty" where
  "ago_date C anchor n unit =
     (if unit = ''day'' then (cal_add C anchor (- n), Exact)
      else if unit = ''week'' then (cal_add C anchor (- 7 * n), Exact)
      else if unit = ''month'' then (shift_months C anchor (- n), Ambiguous)
      else (shift_months C anchor (- n * 12), Ambiguous))"

definition ago_hits :: "'d calendar \<Rightarrow> regex_env \<Rightarrow> string \<Rightarrow> 'd \<Rightarrow> 'd hit option list" where
  "ago_hits C R t anchor =
     List.map_filter (\<lambda>(whole, groups).
         map_option (\<lambda>n. case ago_date C anchor n (groups ! 1) of
             (d, c) \<Rightarrow> map_option (\<lambda>x. hit_of whole x c) d) (number_word R (groups ! 0)))
       (rx_captures R (EDGE @ ''('' @ BS (CHR ''d'') @ ''{1,3}|a|an|one|two|three|four|five|six|seven|eight|nine|ten)'' @
          SPACES @ ''(day|week|month|year)s?'' @ SPACES @ ''ago'' @ EDGE) t)"

definition named_hits ::
    "regex_env \<Rightarrow> string \<Rightarrow> string \<Rightarrow> (weekday \<Rightarrow> 'd option) \<Rightarrow> certainty \<Rightarrow> 'd hit option list" where
  "named_hits R p t f c =
     List.map_filter (\<lambda>(whole, groups).
         map_option (\<lambda>wd. map_option (\<lambda>x. hit_of whole x c) (f wd)) (weekday_from (groups ! 0)))
       (rx_captures R p t)"

definition weekday_hits :: "'d calendar \<Rightarrow> regex_env \<Rightarrow> string \<Rightarrow> 'd \<Rightarrow> 'd hit option list" where
  "weekday_hits C R t anchor =
     named_hits R (EDGE @ ''the'' @ SPACES @ ''('' @ WEEKDAY_ALT @ '')'' @ SPACES @ ''before'' @ EDGE) t
       (previous_weekday C anchor) Exact @
     named_hits R (EDGE @ ''(?:last|past)'' @ SPACES @ ''('' @ WEEKDAY_ALT @ '')'' @ EDGE) t
       (previous_weekday C anchor) Ambiguous @
     named_hits R (EDGE @ ''(?:next|this'' @ SPACES @ ''coming)'' @ SPACES @ ''('' @ WEEKDAY_ALT @ '')'' @ EDGE) t
       (next_weekday C anchor) Ambiguous @
     plain_hits R (EDGE @ ''(?:last|past)'' @ SPACES @ ''weekend'' @ EDGE) t (previous_weekday C anchor Sat) Ambiguous @
     plain_hits R (EDGE @ ''(?:this|next)'' @ SPACES @ ''weekend'' @ EDGE) t (next_weekday C anchor Sat) Ambiguous"

definition period_date :: "'d calendar \<Rightarrow> 'd \<Rightarrow> string \<Rightarrow> string \<Rightarrow> 'd option" where
  "period_date C anchor which unit =
     (if which = ''last'' \<and> unit = ''week'' then cal_add C anchor (- 7)
      else if which = ''next'' \<and> unit = ''week'' then cal_add C anchor 7
      else if which = ''last'' \<and> unit = ''month'' then shift_months C anchor (- 1)
      else if which = ''next'' \<and> unit = ''month'' then shift_months C anchor 1
      else if which = ''last'' \<and> unit = ''year'' then shift_months C anchor (- 12)
      else if which = ''next'' \<and> unit = ''year'' then shift_months C anchor 12
      else Some anchor)"

definition period_hits :: "'d calendar \<Rightarrow> regex_env \<Rightarrow> string \<Rightarrow> 'd \<Rightarrow> 'd hit option list" where
  "period_hits C R t anchor =
     map (\<lambda>(whole, groups). map_option (\<lambda>x. hit_of whole x Ambiguous) (period_date C anchor (groups ! 0) (groups ! 1)))
       (rx_captures R (EDGE @ ''(last|next|this)'' @ SPACES @ ''(week|month|year)'' @ EDGE) t)"

subsection \<open>Overlaps\<close>

text \<open>\<open>sort_by\<close> is stable: by start, the longer match first.\<close>

definition hit_le :: "'d hit \<Rightarrow> 'd hit \<Rightarrow> bool" where
  "hit_le a b \<longleftrightarrow> ht_start a < ht_start b \<or>
     ht_start a = ht_start b \<and> ht_end b - ht_start b \<le> ht_end a - ht_start a"

fun insert_hit :: "'d hit \<Rightarrow> 'd hit list \<Rightarrow> 'd hit list" where
  "insert_hit h [] = [h]"
| "insert_hit h (x # xs) = (if hit_le h x then h # x # xs else x # insert_hit h xs)"

definition sort_hits :: "'d hit list \<Rightarrow> 'd hit list" where
  "sort_hits hs = foldr insert_hit hs []"

fun keep_hits :: "nat \<Rightarrow> 'd hit list \<Rightarrow> 'd hit list" where
  "keep_hits covered_to [] = []"
| "keep_hits covered_to (h # hs) =
     (if ht_start h < covered_to then keep_hits covered_to hs else h # keep_hits (ht_end h) hs)"

definition to_resolved :: "'d hit \<Rightarrow> 'd resolved_date" where
  "to_resolved h = \<lparr>rd_phrase = ht_phrase h, rd_offset = ht_start h, rd_resolved = ht_resolved h,
                    rd_certainty = ht_certainty h\<rparr>"

definition resolve_relative_dates :: "'d calendar \<Rightarrow> regex_env \<Rightarrow> string \<Rightarrow> 'd \<Rightarrow> 'd resolved_date list option" where
  "resolve_relative_dates C R text anchor =
     (let t = rx_lower R text
      in map_option (\<lambda>hits. map to_resolved (keep_hits 0 (sort_hits hits)))
           (all_hits (day_hits C R t anchor @ ago_hits C R t anchor @ weekday_hits C R t anchor @
                      period_hits C R t anchor)))"

subsection \<open>The calendar loops return\<close>

text \<open>
  What the loops rely on of the calendar between the day numbers \<open>lo\<close> and \<open>hi\<close> and the years \<open>y1\<close> and
  \<open>y2\<close>: adding days moves along the day numbers, the weekday follows them modulo 7, and the first 28
  days of every month exist.
\<close>

definition days_follow :: "'d calendar \<Rightarrow> int \<Rightarrow> int \<Rightarrow> bool" where
  "days_follow C lo hi \<longleftrightarrow>
     (\<forall>d n e. cal_add C d n = Some e \<longrightarrow> cal_num C e = cal_num C d + n) \<and>
     (\<forall>d n. lo \<le> cal_num C d + n \<and> cal_num C d + n \<le> hi \<longrightarrow> cal_add C d n \<noteq> None) \<and>
     (\<exists>k. \<forall>d. weekday_index (cal_weekday C d) = (cal_num C d + k) mod 7)"

definition months_follow :: "'d calendar \<Rightarrow> int \<Rightarrow> int \<Rightarrow> bool" where
  "months_follow C y1 y2 \<longleftrightarrow>
     (\<forall>y m d. y1 \<le> y \<and> y \<le> y2 \<and> 1 \<le> m \<and> m \<le> 12 \<and> 1 \<le> d \<and> d \<le> 28 \<longrightarrow> cal_ymd C y m d \<noteq> None)"

lemma weekday_index_inject: "weekday_index a = weekday_index b \<longleftrightarrow> a = b"
  by (cases a; cases b; simp)

lemma weekday_index_range: "0 \<le> weekday_index wd \<and> weekday_index wd \<le> 6"
  by (cases wd) simp_all

lemma seek_returns:
  assumes days: "days_follow C lo hi" and k0: "\<And>d. weekday_index (cal_weekday C d) = (cal_num C d + k0) mod 7"
    and n: "n = 1 \<or> n = - 1"
  shows "(cal_num C d + n * int k + k0) mod 7 = weekday_index wd \<Longrightarrow>
    (\<forall>j \<le> k. lo \<le> cal_num C d + n * int j \<and> cal_num C d + n * int j \<le> hi) \<Longrightarrow>
    \<exists>j \<le> k. \<exists>e. seek_weekday C n wd d = Some e \<and> cal_weekday C e = wd \<and> cal_num C e = cal_num C d + n * int j \<and>
      (\<forall>x i. i < j \<longrightarrow> cal_num C x = cal_num C d + n * int i \<longrightarrow> cal_weekday C x \<noteq> wd)"
proof (induction k arbitrary: d)
  case 0
  then have "cal_weekday C d = wd" by (simp add: k0 flip: weekday_index_inject)
  then show ?case by (auto simp: seek_weekday.simps)
next
  case (Suc k)
  show ?case
  proof (cases "cal_weekday C d = wd")
    case True
    then show ?thesis by (intro exI[of _ 0] conjI exI[of _ d]) (auto simp: seek_weekday.simps)
  next
    case False
    have "lo \<le> cal_num C d + n \<and> cal_num C d + n \<le> hi" using Suc.prems(2)[rule_format, of 1] by simp
    then have "cal_add C d n \<noteq> None" using days unfolding days_follow_def by blast
    then obtain e where e: "cal_add C d n = Some e" by blast
    then have num: "cal_num C e = cal_num C d + n" using days by (simp add: days_follow_def)
    have "(cal_num C e + n * int k + k0) mod 7 = weekday_index wd"
      using Suc.prems(1) by (simp add: num algebra_simps)
    moreover have "\<forall>j \<le> k. lo \<le> cal_num C e + n * int j \<and> cal_num C e + n * int j \<le> hi"
    proof (intro allI impI)
      fix j assume "j \<le> k"
      then show "lo \<le> cal_num C e + n * int j \<and> cal_num C e + n * int j \<le> hi"
        using Suc.prems(2)[rule_format, of "Suc j"] by (simp add: num algebra_simps)
    qed
    ultimately obtain j f where f: "j \<le> k" "seek_weekday C n wd e = Some f" "cal_weekday C f = wd"
        "cal_num C f = cal_num C e + n * int j"
        "\<forall>x i. i < j \<longrightarrow> cal_num C x = cal_num C e + n * int i \<longrightarrow> cal_weekday C x \<noteq> wd"
      using Suc.IH by blast
    have skipped: "cal_weekday C x \<noteq> wd" if "i < Suc j" "cal_num C x = cal_num C d + n * int i" for x i
    proof (cases i)
      case 0
      then have "weekday_index (cal_weekday C x) = weekday_index (cal_weekday C d)" using that(2) by (simp add: k0)
      then show ?thesis using False by (simp add: weekday_index_inject)
    next
      case (Suc i0)
      then have "cal_num C x = cal_num C e + n * int i0" using that(2) num by (simp add: algebra_simps)
      then show ?thesis using f(5) that(1) Suc by simp
    qed
    show ?thesis
    proof (intro exI[of _ "Suc j"] conjI exI[of _ f])
      show "seek_weekday C n wd d = Some f" using False e f(2) by (simp add: seek_weekday.simps[of C n wd d])
      show "cal_num C f = cal_num C d + n * int (Suc j)" using f(4) num by (simp add: algebra_simps)
    qed (use f skipped in auto)
  qed
qed

lemma mod_shift:
  fixes s k0 w :: int
  shows "(s + (w - s - k0) mod 7 + k0) mod 7 = w mod 7" "(s - (s + k0 - w) mod 7 + k0) mod 7 = w mod 7"
proof -
  have "s + (w - s - k0) mod 7 + k0 = (w - s - k0) mod 7 + (s + k0)" by simp
  then show "(s + (w - s - k0) mod 7 + k0) mod 7 = w mod 7" by (simp only: mod_add_left_eq) simp
  have "s - (s + k0 - w) mod 7 + k0 = (s + k0) - (s + k0 - w) mod 7" by simp
  then show "(s - (s + k0 - w) mod 7 + k0) mod 7 = w mod 7" by (simp only: mod_diff_right_eq) simp
qed

lemma weekday_ahead:
  fixes s k0 :: int
  obtains k where "k \<le> 6" and "(s + int k + k0) mod 7 = weekday_index wd"
proof
  let ?k = "(weekday_index wd - s - k0) mod 7"
  show "nat ?k \<le> 6" by (simp add: nat_le_iff)
  show "(s + int (nat ?k) + k0) mod 7 = weekday_index wd" using weekday_index_range[of wd] by (simp add: mod_shift)
qed

lemma weekday_behind:
  fixes s k0 :: int
  obtains k where "k \<le> 6" and "(s + - 1 * int k + k0) mod 7 = weekday_index wd"
proof
  let ?k = "(s + k0 - weekday_index wd) mod 7"
  show "nat ?k \<le> 6" by (simp add: nat_le_iff)
  show "(s + - 1 * int (nat ?k) + k0) mod 7 = weekday_index wd" using weekday_index_range[of wd] by (simp add: mod_shift)
qed

lemma clamp_day_returns:
  assumes "\<And>d. 1 \<le> d \<Longrightarrow> d \<le> 28 \<Longrightarrow> cal_ymd C y m d \<noteq> None"
  shows "1 \<le> day \<Longrightarrow> \<exists>d. 1 \<le> d \<and> d \<le> day \<and> clamp_day C y m day = cal_ymd C y m d \<and> cal_ymd C y m d \<noteq> None \<and>
    (\<forall>c. d < c \<and> c \<le> day \<longrightarrow> cal_ymd C y m c = None)"
proof (induction day)
  case (Suc day)
  show ?case
  proof (cases "cal_ymd C y m (Suc day)")
    case None
    have "\<not> (1 \<le> Suc day \<and> Suc day \<le> 28)" using assms[of "Suc day"] None by blast
    then have "1 \<le> day" by linarith
    then obtain d where "1 \<le> d \<and> d \<le> day \<and> clamp_day C y m day = cal_ymd C y m d \<and> cal_ymd C y m d \<noteq> None \<and>
        (\<forall>c. d < c \<and> c \<le> day \<longrightarrow> cal_ymd C y m c = None)"
      using Suc.IH by blast
    then show ?thesis using None by (intro exI[of _ d]) (auto simp: le_Suc_eq)
  next
    case (Some x)
    then show ?thesis by (intro exI[of _ "Suc day"]) auto
  qed
qed simp

text \<open>The target month of a shift.\<close>

definition shifted :: "'d calendar \<Rightarrow> 'd \<Rightarrow> int \<Rightarrow> int" where
  "shifted C anchor months = cal_year C anchor * 12 + int (cal_month0 C anchor) + months"

text \<open>
  C35: The date loops end, and on the right day: within chrono's range, the weekday searches return the
  nearest day of that weekday strictly before, or strictly after, the anchor, no further than 7 days
  away and with no such day in between, and a shift by months returns the last day of the target month
  that exists and is not later than the anchor's day of the month.
\<close>

theorem date_loops_return:
  assumes days: "days_follow C lo hi" and months: "months_follow C y1 y2"
    and range: "lo + 7 \<le> cal_num C anchor" "cal_num C anchor + 7 \<le> hi"
    and year: "y1 * 12 \<le> shifted C anchor n" "shifted C anchor n < (y2 + 1) * 12" and day: "1 \<le> cal_day C anchor"
  shows "(\<exists>d. previous_weekday C anchor wd = Some d \<and> cal_weekday C d = wd \<and>
      cal_num C anchor - 7 \<le> cal_num C d \<and> cal_num C d < cal_num C anchor \<and>
      (\<forall>x. cal_num C d < cal_num C x \<and> cal_num C x < cal_num C anchor \<longrightarrow> cal_weekday C x \<noteq> wd)) \<and>
    (\<exists>d. next_weekday C anchor wd = Some d \<and> cal_weekday C d = wd \<and>
      cal_num C anchor < cal_num C d \<and> cal_num C d \<le> cal_num C anchor + 7 \<and>
      (\<forall>x. cal_num C anchor < cal_num C x \<and> cal_num C x < cal_num C d \<longrightarrow> cal_weekday C x \<noteq> wd)) \<and>
    (\<exists>d. shift_months C anchor n = cal_ymd C (shifted C anchor n div 12) (nat (shifted C anchor n mod 12) + 1) d \<and>
      shift_months C anchor n \<noteq> None \<and> 1 \<le> d \<and> d \<le> cal_day C anchor \<and>
      (\<forall>c. d < c \<and> c \<le> cal_day C anchor \<longrightarrow>
        cal_ymd C (shifted C anchor n div 12) (nat (shifted C anchor n mod 12) + 1) c = None))"
proof (intro conjI)
  obtain k0 where k0: "\<And>d. weekday_index (cal_weekday C d) = (cal_num C d + k0) mod 7"
    using days unfolding days_follow_def by blast
  have step: "\<exists>e. cal_add C anchor i = Some e \<and> cal_num C e = cal_num C anchor + i" if "i = 1 \<or> i = - 1" for i
  proof -
    have "lo \<le> cal_num C anchor + i \<and> cal_num C anchor + i \<le> hi" using range that by auto
    then have "cal_add C anchor i \<noteq> None" using days unfolding days_follow_def by blast
    then obtain e where "cal_add C anchor i = Some e" by blast
    then show ?thesis using days by (auto simp: days_follow_def)
  qed
  show "\<exists>d. previous_weekday C anchor wd = Some d \<and> cal_weekday C d = wd \<and>
      cal_num C anchor - 7 \<le> cal_num C d \<and> cal_num C d < cal_num C anchor \<and>
      (\<forall>x. cal_num C d < cal_num C x \<and> cal_num C x < cal_num C anchor \<longrightarrow> cal_weekday C x \<noteq> wd)"
  proof -
    obtain e where e: "cal_add C anchor (- 1) = Some e" "cal_num C e = cal_num C anchor - 1" using step[of "- 1"] by auto
    obtain k where k: "k \<le> 6" "(cal_num C e + - 1 * int k + k0) mod 7 = weekday_index wd" by (rule weekday_behind)
    have "\<forall>j \<le> k. lo \<le> cal_num C e + - 1 * int j \<and> cal_num C e + - 1 * int j \<le> hi" using e(2) k(1) range by auto
    from seek_returns[OF days k0 disjI2[OF refl] k(2) this]
    obtain j d where d: "j \<le> k" "seek_weekday C (- 1) wd e = Some d" "cal_weekday C d = wd" "cal_num C d = cal_num C e - int j"
      "\<forall>x i. i < j \<longrightarrow> cal_num C x = cal_num C e + - 1 * int i \<longrightarrow> cal_weekday C x \<noteq> wd" by auto
    have "cal_weekday C x \<noteq> wd" if "cal_num C d < cal_num C x" "cal_num C x < cal_num C anchor" for x
      using d(5)[rule_format, of "nat (cal_num C e - cal_num C x)" x] that d(4) e(2) by simp
    then show ?thesis using d e k(1) by (auto simp: previous_weekday_def)
  qed
  show "\<exists>d. next_weekday C anchor wd = Some d \<and> cal_weekday C d = wd \<and>
      cal_num C anchor < cal_num C d \<and> cal_num C d \<le> cal_num C anchor + 7 \<and>
      (\<forall>x. cal_num C anchor < cal_num C x \<and> cal_num C x < cal_num C d \<longrightarrow> cal_weekday C x \<noteq> wd)"
  proof -
    obtain e where e: "cal_add C anchor 1 = Some e" "cal_num C e = cal_num C anchor + 1" using step[of 1] by auto
    obtain k where k: "k \<le> 6" "(cal_num C e + int k + k0) mod 7 = weekday_index wd" by (rule weekday_ahead)
    have k1: "(cal_num C e + 1 * int k + k0) mod 7 = weekday_index wd" using k(2) by simp
    have "\<forall>j \<le> k. lo \<le> cal_num C e + 1 * int j \<and> cal_num C e + 1 * int j \<le> hi" using e(2) k(1) range by auto
    from seek_returns[OF days k0 disjI1[OF refl] k1 this]
    obtain j d where d: "j \<le> k" "seek_weekday C 1 wd e = Some d" "cal_weekday C d = wd" "cal_num C d = cal_num C e + int j"
      "\<forall>x i. i < j \<longrightarrow> cal_num C x = cal_num C e + 1 * int i \<longrightarrow> cal_weekday C x \<noteq> wd" by auto
    have "cal_weekday C x \<noteq> wd" if "cal_num C anchor < cal_num C x" "cal_num C x < cal_num C d" for x
      using d(5)[rule_format, of "nat (cal_num C x - cal_num C e)" x] that d(4) e(2) by simp
    then show ?thesis using d e k(1) by (auto simp: next_weekday_def)
  qed
  show "\<exists>d. shift_months C anchor n = cal_ymd C (shifted C anchor n div 12) (nat (shifted C anchor n mod 12) + 1) d \<and>
      shift_months C anchor n \<noteq> None \<and> 1 \<le> d \<and> d \<le> cal_day C anchor \<and>
      (\<forall>c. d < c \<and> c \<le> cal_day C anchor \<longrightarrow>
        cal_ymd C (shifted C anchor n div 12) (nat (shifted C anchor n mod 12) + 1) c = None)"
  proof -
    let ?y = "shifted C anchor n div 12" and ?m = "nat (shifted C anchor n mod 12) + 1"
    have "y1 \<le> ?y" "?y \<le> y2" using year by presburger+
    moreover have "?m \<le> 12" using pos_mod_bound[of 12 "shifted C anchor n"] by linarith
    ultimately have "cal_ymd C ?y ?m d \<noteq> None" if "1 \<le> d" "d \<le> 28" for d
      using months that unfolding months_follow_def by simp
    from clamp_day_returns[OF this day] show ?thesis by (auto simp: shift_months_def shifted_def Let_def)
  qed
qed

text \<open>A small calendar with months of 28 days, whose day 0 is a Monday.\<close>

definition toy_weekday :: "int \<Rightarrow> weekday" where
  "toy_weekday d =
     (if d mod 7 = 0 then Mon else if d mod 7 = 1 then Tue else if d mod 7 = 2 then Wed else if d mod 7 = 3 then Thu
      else if d mod 7 = 4 then Fri else if d mod 7 = 5 then Sat else Sun)"

definition toy_calendar :: "int calendar" where
  "toy_calendar =
     \<lparr>cal_add = (\<lambda>d n. Some (d + n)), cal_weekday = toy_weekday,
      cal_ymd = (\<lambda>y m d. if 1 \<le> m \<and> m \<le> 12 \<and> 1 \<le> d \<and> d \<le> 28 then Some (y * 336 + (int m - 1) * 28 + int d - 1) else None),
      cal_year = (\<lambda>d. d div 336), cal_month0 = (\<lambda>d. nat (d mod 336 div 28)), cal_day = (\<lambda>d. nat (d mod 28) + 1),
      cal_num = (\<lambda>d. d)\<rparr>"

lemma toy_weekday_index: "weekday_index (toy_weekday d) = d mod 7"
proof -
  have "0 \<le> d mod 7" "d mod 7 < 7" by simp_all
  then show ?thesis by (simp add: toy_weekday_def) arith
qed

lemma toy_days: "days_follow toy_calendar lo hi"
  by (auto simp: days_follow_def toy_calendar_def toy_weekday_index intro!: exI[of _ 0])

lemma toy_months: "months_follow toy_calendar y1 y2"
  by (simp add: months_follow_def toy_calendar_def)

lemma date_loops_return_witness:
  "\<exists>d e. previous_weekday toy_calendar 100 Fri = Some d \<and> 93 \<le> d \<and> d < 100 \<and>
     next_weekday toy_calendar 100 Fri = Some e \<and> 100 < e \<and> e \<le> 107 \<and> shift_months toy_calendar 100 (- 5) \<noteq> None"
proof -
  have s: "shifted toy_calendar 100 (- 5) = - 2" by (simp add: shifted_def toy_calendar_def)
  have d: "1 \<le> cal_day toy_calendar 100" by (simp add: toy_calendar_def)
  have num: "cal_num toy_calendar x = x" for x by (simp add: toy_calendar_def)
  note loops = date_loops_return[OF toy_days[of 0 1000] toy_months[of "- 1" 5], of 100 "- 5" Fri, unfolded s num]
  show ?thesis using loops d by auto
qed

subsection \<open>What is kept of overlapping matches\<close>

lemma set_insert_hit [simp]: "set (insert_hit h xs) = insert h (set xs)"
  by (induction xs) auto

lemma set_sort_hits [simp]: "set (sort_hits hs) = set hs"
  unfolding sort_hits_def by (induction hs) auto

lemma sorted_insert_hit: "sorted_wrt hit_le xs \<Longrightarrow> sorted_wrt hit_le (insert_hit h xs)"
proof (induction xs)
  case (Cons x xs)
  have tr: "hit_le a c" if "hit_le a b" "hit_le b c" for a b c :: "'a hit" using that by (auto simp: hit_le_def)
  have tot: "hit_le x h" if "\<not> hit_le h x" using that by (auto simp: hit_le_def)
  show ?case using Cons tr tot by (auto intro: tr)
qed simp

lemma sorted_sort_hits: "sorted_wrt hit_le (sort_hits hs)"
  unfolding sort_hits_def by (induction hs) (simp_all add: sorted_insert_hit)

lemma keep_hits_spec:
  "sorted_wrt hit_le hs \<Longrightarrow> \<forall>h \<in> set hs. ht_start h \<le> ht_end h \<Longrightarrow>
    set (keep_hits c hs) \<subseteq> {h \<in> set hs. c \<le> ht_start h} \<and>
    sorted_wrt (\<lambda>a b. ht_end a \<le> ht_start b) (keep_hits c hs) \<and>
    (\<forall>h \<in> set hs. c \<le> ht_start h \<longrightarrow> h \<in> set (keep_hits c hs) \<or> (\<exists>k \<in> set (keep_hits c hs). hit_le k h \<and> ht_start h < ht_end k))"
proof (induction hs arbitrary: c)
  case (Cons h hs)
  have IH: "set (keep_hits c' hs) \<subseteq> {h \<in> set hs. c' \<le> ht_start h} \<and>
    sorted_wrt (\<lambda>a b. ht_end a \<le> ht_start b) (keep_hits c' hs) \<and>
    (\<forall>h \<in> set hs. c' \<le> ht_start h \<longrightarrow> h \<in> set (keep_hits c' hs) \<or> (\<exists>k \<in> set (keep_hits c' hs). hit_le k h \<and> ht_start h < ht_end k))" for c'
    by (rule Cons.IH) (use Cons.prems in auto)
  show ?case
  proof (cases "ht_start h < c")
    case True
    then show ?thesis using IH[of c] by auto
  next
    case False
    have end_ge: "ht_start h \<le> ht_end h" using Cons.prems(2) by simp
    have le: "\<forall>x \<in> set hs. hit_le h x" using Cons.prems(1) by simp
    have refl: "hit_le h h" by (simp add: hit_le_def)
    have sub: "set (keep_hits (ht_end h) hs) \<subseteq> {x \<in> set hs. ht_end h \<le> ht_start x}" using IH by blast
    have "x \<in> set (keep_hits c (h # hs)) \<or> (\<exists>k \<in> set (keep_hits c (h # hs)). hit_le k x \<and> ht_start x < ht_end k)"
      if "x \<in> set (h # hs)" for x
    proof (cases "x = h \<or> ht_start x < ht_end h")
      case True
      then show ?thesis using False le that by auto
    next
      case outside: False
      then have "x \<in> set hs" "ht_end h \<le> ht_start x" using that by auto
      then show ?thesis using IH[of "ht_end h"] False by auto
    qed
    moreover have "set (keep_hits c (h # hs)) \<subseteq> {x \<in> set (h # hs). c \<le> ht_start x}"
      using sub False end_ge by auto
    moreover have "sorted_wrt (\<lambda>a b. ht_end a \<le> ht_start b) (keep_hits c (h # hs))"
      using IH[of "ht_end h"] sub False by auto
    ultimately show ?thesis by blast
  qed
qed simp

text \<open>
  The resolved dates do not overlap and appear in the order of the text, each is one of the matches,
  and a match that is left out overlaps a resolved one that starts before it, or starts with it and is
  at least as long.
\<close>

theorem resolved_dates_disjoint:
  assumes "all_hits (day_hits C R (rx_lower R text) anchor @ ago_hits C R (rx_lower R text) anchor @
      weekday_hits C R (rx_lower R text) anchor @ period_hits C R (rx_lower R text) anchor) = Some hits"
    and "\<forall>h \<in> set hits. ht_start h \<le> ht_end h"
  shows "\<exists>kept. resolve_relative_dates C R text anchor = Some (map to_resolved kept) \<and>
    set kept \<subseteq> set hits \<and> sorted_wrt (\<lambda>a b. ht_end a \<le> ht_start b) kept \<and>
    (\<forall>h \<in> set hits. h \<in> set kept \<or> (\<exists>k \<in> set kept. hit_le k h \<and> ht_start h < ht_end k))"
proof (intro exI conjI)
  show "resolve_relative_dates C R text anchor = Some (map to_resolved (keep_hits 0 (sort_hits hits)))"
    using assms(1) by (simp add: resolve_relative_dates_def)
qed (use keep_hits_spec[OF sorted_sort_hits[of hits], of 0] assms(2) in auto)

text \<open>An engine that knows two words, on the text \<open>day before yesterday\<close>.\<close>

definition toy_regex :: regex_env where
  "toy_regex =
     \<lparr>rx_lower = (\<lambda>s. s),
      rx_find = (\<lambda>p t. if p = EDGE @ ''yesterday'' @ EDGE then [(11, 20, ''yesterday'')]
        else if p = EDGE @ ''(?:the'' @ SPACES @ '')?day'' @ SPACES @ ''before'' @ SPACES @ ''yesterday'' @ EDGE
          then [(0, 20, ''day before yesterday'')] else []),
      rx_captures = (\<lambda>p t. []), rx_i64 = (\<lambda>s. None)\<rparr>"

lemma resolved_dates_disjoint_witness:
  "map_option (map rd_resolved) (resolve_relative_dates toy_calendar toy_regex ''day before yesterday'' 100) = Some [98]"
proof -
  let ?day = "\<lparr>ht_start = 0, ht_end = 20, ht_phrase = ''day before yesterday'', ht_resolved = 98, ht_certainty = Exact\<rparr>"
  let ?in = "\<lparr>ht_start = 11, ht_end = 20, ht_phrase = ''yesterday'', ht_resolved = 99, ht_certainty = Exact\<rparr>"
  have hits: "all_hits (day_hits toy_calendar toy_regex (rx_lower toy_regex ''day before yesterday'') 100 @
      ago_hits toy_calendar toy_regex (rx_lower toy_regex ''day before yesterday'') 100 @
      weekday_hits toy_calendar toy_regex (rx_lower toy_regex ''day before yesterday'') 100 @
      period_hits toy_calendar toy_regex (rx_lower toy_regex ''day before yesterday'') 100) = Some [?day, ?in]"
    by (simp add: day_hits_def ago_hits_def weekday_hits_def period_hits_def plain_hits_def named_hits_def toy_regex_def
        toy_calendar_def hit_of_def EDGE_def SPACES_def BS_def List.map_filter_def)
  have ends: "\<forall>h \<in> set [?day, ?in]. ht_start h \<le> ht_end h" by simp
  from resolved_dates_disjoint[OF hits ends] obtain kept where kept:
    "resolve_relative_dates toy_calendar toy_regex ''day before yesterday'' 100 = Some (map to_resolved kept)"
    "set kept \<subseteq> {?day, ?in}" "sorted_wrt (\<lambda>a b. ht_end a \<le> ht_start b) kept"
    "?day \<in> set kept \<or> (\<exists>k \<in> set kept. hit_le k ?day \<and> ht_start ?day < ht_end k)"
    by auto
  have day: "?day \<in> set kept" using kept(2,4) by (auto simp: hit_le_def)
  have sorted: "sort_hits [?day, ?in] = [?day, ?in]" by (simp add: sort_hits_def hit_le_def)
  show ?thesis unfolding resolve_relative_dates_def Let_def hits
    by (simp add: sorted to_resolved_def)
qed

end
