(* ===== verification/Ranking.thy ===== *)
theory Ranking
  imports Memory_Links Turn_Policy "HOL-Library.Multiset"
begin

text \<open>
  Re-ranking of retrieved memories, \<open>spectral-graph/src/ranking.rs\<close>, with the ambient boost and the
  episode diversity of \<open>cascade_layers.rs\<close>: the signals, their additive composition, the reciprocal
  rank fusion and the steps after the final sort.

  Floats are \<open>'f\<close> with the operations of \<open>rank_env\<close>: \<open>rk_less\<close> and \<open>rk_leq\<close> are the IEEE comparisons,
  \<open>rk_half_pow\<close> is \<open>0.5.powf\<close>, \<open>rk_lit\<close> reads a literal. The text fields are \<open>to_lowercase\<close>,
  \<open>split_whitespace\<close>, the time fields the two formats of \<open>parse_created_at\<close>
  in nanoseconds. \<open>rk_pieces extra s\<close> is \<open>str::split\<close> at the characters that are neither
  alphanumeric nor in \<open>extra\<close>.
\<close>

record 'f rank_env =
  rk_lit :: "rat \<Rightarrow> 'f"
  rk_of_int :: "int \<Rightarrow> 'f"
  rk_add :: "'f \<Rightarrow> 'f \<Rightarrow> 'f"
  rk_sub :: "'f \<Rightarrow> 'f \<Rightarrow> 'f"
  rk_mul :: "'f \<Rightarrow> 'f \<Rightarrow> 'f"
  rk_div :: "'f \<Rightarrow> 'f \<Rightarrow> 'f"
  rk_less :: "'f \<Rightarrow> 'f \<Rightarrow> bool"
  rk_leq :: "'f \<Rightarrow> 'f \<Rightarrow> bool"
  rk_half_pow :: "'f \<Rightarrow> 'f"
  rk_lower :: "string \<Rightarrow> string"
  rk_words :: "string \<Rightarrow> string list"
  rk_pieces :: "string \<Rightarrow> string \<Rightarrow> string list"
  rk_sql_time :: "string \<Rightarrow> int option"
  rk_rfc_time :: "string \<Rightarrow> int option"

definition rk_of_nat :: "'f rank_env \<Rightarrow> nat \<Rightarrow> 'f" where
  "rk_of_nat R n = rk_of_int R (int n)"

definition rk_max :: "'f rank_env \<Rightarrow> 'f \<Rightarrow> 'f \<Rightarrow> 'f" where
  "rk_max R a b = (if rk_less R a b then b else a)"

definition rk_min :: "'f rank_env \<Rightarrow> 'f \<Rightarrow> 'f \<Rightarrow> 'f" where
  "rk_min R a b = (if rk_less R b a then b else a)"

definition rk_clamp :: "'f rank_env \<Rightarrow> 'f \<Rightarrow> 'f \<Rightarrow> 'f \<Rightarrow> 'f" where
  "rk_clamp R lo hi x = (if rk_less R x lo then lo else if rk_less R hi x then hi else x)"

subsection \<open>Text and time\<close>

text \<open>\<open>str::split\<close> at the characters that satisfy \<open>P\<close>: always at least one piece.\<close>

fun split_at :: "(char \<Rightarrow> bool) \<Rightarrow> string \<Rightarrow> string list" where
  "split_at P [] = [[]]"
| "split_at P (c # s) =
     (if P c then [] # split_at P s
      else case split_at P s of [] \<Rightarrow> [[c]] | p # ps \<Rightarrow> (c # p) # ps)"

definition starts_with :: "string \<Rightarrow> string \<Rightarrow> bool" where
  "starts_with p s \<longleftrightarrow> take (length p) s = p"

definition strip_suffix :: "string \<Rightarrow> string \<Rightarrow> string option" where
  "strip_suffix x s =
     (if length x \<le> length s \<and> drop (length s - length x) s = x then Some (take (length s - length x) s) else None)"

definition parse_created_at :: "'f rank_env \<Rightarrow> string \<Rightarrow> int option" where
  "parse_created_at R s = (case rk_sql_time R s of Some t \<Rightarrow> Some t | None \<Rightarrow> rk_rfc_time R s)"

text \<open>\<open>num_hours\<close> and \<open>num_minutes\<close> truncate toward zero.\<close>

definition whole_units :: "int \<Rightarrow> int \<Rightarrow> int" where
  "whole_units d u = sgn d * (\<bar>d\<bar> div u)"

definition MINUTE :: int where "MINUTE = 60000000000"
definition HOUR :: int where "HOUR = 3600000000000"

definition created_time :: "'f rank_env \<Rightarrow> 'f memory_hit \<Rightarrow> int option" where
  "created_time R h = Option.bind (hit_created_at h) (parse_created_at R)"

definition age_days :: "'f rank_env \<Rightarrow> int \<Rightarrow> int \<Rightarrow> 'f" where
  "age_days R now dt = rk_max R (rk_div R (rk_of_int R (whole_units (now - dt) HOUR)) (rk_lit R 24)) (rk_lit R 0)"

definition freshness :: "'f rank_env \<Rightarrow> 'f \<Rightarrow> int \<Rightarrow> int \<Rightarrow> 'f" where
  "freshness R half_life now dt = rk_half_pow R (rk_div R (age_days R now dt) half_life)"

subsection \<open>The common sort\<close>

text \<open>Score descending, equal or incomparable scores by memory id.\<close>

definition score_before :: "'f rank_env \<Rightarrow> 'f memory_hit \<times> 'f \<Rightarrow> 'f memory_hit \<times> 'f \<Rightarrow> bool" where
  "score_before R a b \<longleftrightarrow>
     rk_less R (snd b) (snd a) \<or> \<not> rk_less R (snd a) (snd b) \<and> hit_id (fst a) \<le> hit_id (fst b)"

definition signal_before :: "'f rank_env \<Rightarrow> 'f memory_hit \<Rightarrow> 'f memory_hit \<Rightarrow> bool" where
  "signal_before R a b \<longleftrightarrow> score_before R (a, hit_signal_score a) (b, hit_signal_score b)"

definition with_score :: "'f memory_hit \<Rightarrow> 'f \<Rightarrow> 'f memory_hit" where
  "with_score h s = h\<lparr>hit_signal_score := s\<rparr>"

subsection \<open>The stand-alone weightings\<close>

definition blend :: "'f rank_env \<Rightarrow> 'f \<Rightarrow> 'f \<Rightarrow> 'f \<Rightarrow> 'f" where
  "blend R w base score = rk_add R (rk_mul R (rk_sub R (rk_lit R 1) w) base) (rk_mul R w score)"

definition fts_position :: "'f rank_env \<Rightarrow> nat \<Rightarrow> nat \<Rightarrow> 'f" where
  "fts_position R n i = rk_sub R (rk_lit R 1) (rk_div R (rk_of_nat R i) (rk_of_nat R n))"

definition apply_signal_score_weight :: "'f rank_env \<Rightarrow> 'f \<Rightarrow> 'f memory_hit list \<Rightarrow> 'f memory_hit list" where
  "apply_signal_score_weight R weight hits =
     (if hits = [] \<or> rk_leq R weight (rk_lit R 0) then hits
      else let w = rk_clamp R (rk_lit R 0) (rk_lit R 1) weight; n = length hits
           in order_by (signal_before R)
                (map (\<lambda>(i, h). with_score h (blend R w (fts_position R n i) (hit_signal_score h))) (enumerate 0 hits)))"

definition apply_recency_weight :: "'f rank_env \<Rightarrow> 'f \<Rightarrow> int \<Rightarrow> 'f memory_hit list \<Rightarrow> 'f memory_hit list" where
  "apply_recency_weight R half_life now hits =
     (if hits = [] \<or> rk_leq R half_life (rk_lit R 0) then hits
      else order_by (signal_before R)
             (map (\<lambda>h. with_score h (rk_mul R (hit_signal_score h)
                    (rk_half_pow R (rk_div R
                      (case created_time R h of Some dt \<Rightarrow> age_days R now dt | None \<Rightarrow> rk_lit R 0) half_life)))) hits))"

text \<open>
  The top member of a wing, the last of equals; the wings are visited in the order the hash map
  yields them.
\<close>

definition wing_of_hit :: "'f memory_hit \<Rightarrow> string option" where
  "wing_of_hit h = (case hit_wing h of Some w \<Rightarrow> if w = [] then None else Some w | None \<Rightarrow> None)"

definition wing_members :: "'f memory_hit list \<Rightarrow> string \<Rightarrow> nat list" where
  "wing_members hits w = filter (\<lambda>i. wing_of_hit (hits ! i) = Some w) [0..<length hits]"

definition wing_names :: "'f memory_hit list \<Rightarrow> string list" where
  "wing_names hits = remdups (List.map_filter wing_of_hit hits)"

definition top_index :: "'f rank_env \<Rightarrow> 'f list \<Rightarrow> nat list \<Rightarrow> nat" where
  "top_index R scores is = fold (\<lambda>i top. if rk_less R (scores ! i) (scores ! top) then top else i) (tl is) (hd is)"

definition boost_wing :: "'f rank_env \<Rightarrow> 'f \<Rightarrow> 'f memory_hit list \<Rightarrow> string \<Rightarrow> 'f list \<Rightarrow> 'f list" where
  "boost_wing R boost hits w scores =
     (let members = wing_members hits w
      in if length members < 2 then scores
         else let top = top_index R scores members in scores[top := rk_add R (scores ! top) boost])"

definition boost_wings ::
    "'f rank_env \<Rightarrow> 'f \<Rightarrow> (string list \<Rightarrow> string list) \<Rightarrow> 'f memory_hit list \<Rightarrow> 'f list \<Rightarrow> 'f list" where
  "boost_wings R boost entries hits scores = fold (boost_wing R boost hits) (entries (wing_names hits)) scores"

definition boost_entity_clusters ::
    "'f rank_env \<Rightarrow> (string list \<Rightarrow> string list) \<Rightarrow> 'f \<Rightarrow> 'f memory_hit list \<Rightarrow> 'f memory_hit list" where
  "boost_entity_clusters R entries boost hits =
     (if hits = [] \<or> rk_leq R boost (rk_lit R 0) then hits
      else order_by (signal_before R)
             (map2 with_score hits (boost_wings R boost entries hits (map hit_signal_score hits))))"

subsection \<open>Declarative density\<close>

definition sentence_end :: "char \<Rightarrow> bool" where
  "sentence_end c \<longleftrightarrow> c = CHR ''.'' \<or> c = CHR ''!'' \<or> c = CHR ''?''"

definition first_person :: "string \<Rightarrow> bool" where
  "first_person w \<longleftrightarrow> w \<in> set [''i'', ''me'', ''my'', ''mine'', ''i've'', ''i'm'', ''i'll'', ''i'd'']"

definition declarative_density :: "'f rank_env \<Rightarrow> string \<Rightarrow> 'f" where
  "declarative_density R content =
     (let sentences = filter (\<lambda>s. length (rk_words R s) \<ge> 3) (split_at sentence_end content)
      in if sentences = [] then rk_lit R 0
         else rk_div R
           (rk_of_nat R (length (filter (\<lambda>s. list_ex first_person (rk_words R (rk_lower R s)) \<and>
              \<not> CHR ''?'' \<in> set s) sentences)))
           (rk_of_nat R (length sentences)))"

subsection \<open>Reference chains\<close>

definition ref_key :: "string \<Rightarrow> string" where
  "ref_key content =
     (let p = ''[Memory context] - ''
      in if starts_with p content then takeWhile (\<lambda>c. c \<noteq> CHR '':'') (drop (length p) content) else [])"

definition is_reference :: "string \<Rightarrow> bool" where
  "is_reference content \<longleftrightarrow> starts_with ''[Memory context]'' content"

fun keep_references :: "string set \<Rightarrow> 'f memory_hit list \<Rightarrow> 'f memory_hit list" where
  "keep_references seen [] = []"
| "keep_references seen (h # hs) =
     (if is_reference (hit_content h) \<and> ref_key (hit_content h) \<noteq> []
      then if ref_key (hit_content h) \<in> seen then keep_references seen hs
           else h # keep_references (insert (ref_key (hit_content h)) seen) hs
      else h # keep_references seen hs)"

definition dedup_context_chains :: "'f rank_env \<Rightarrow> 'f memory_hit list \<Rightarrow> 'f memory_hit list" where
  "dedup_context_chains R hits = (if hits = [] then hits else keep_references {} (order_by (signal_before R) hits))"

subsection \<open>Proximity\<close>

definition fold_token :: "string \<Rightarrow> string" where
  "fold_token w =
     (let stems = List.map_filter (\<lambda>x. case strip_suffix x w of
                    Some stem \<Rightarrow> if length stem \<ge> 3 then Some stem else None | None \<Rightarrow> None)
                  [''ing'', ''ed'', ''es'', ''ly'', ''s'']
      in case stems of [] \<Rightarrow> w | stem # _ \<Rightarrow> stem)"

definition TOKEN_EXTRA :: string where
  "TOKEN_EXTRA = [CHR ''_'', CHR ''-'', CHR 0x27]"

fun index_of :: "'a \<Rightarrow> 'a list \<Rightarrow> nat option" where
  "index_of x [] = None"
| "index_of x (y # ys) = (if x = y then Some 0 else map_option Suc (index_of x ys))"

definition term_hits :: "'f rank_env \<Rightarrow> string list \<Rightarrow> string \<Rightarrow> (nat \<times> nat) list" where
  "term_hits R wanted content =
     List.map_filter (\<lambda>(pos, raw). map_option (\<lambda>ti. (pos, ti)) (index_of (fold_token (rk_lower R raw)) wanted))
       (enumerate 0 (filter (\<lambda>t. t \<noteq> []) (rk_pieces R TOKEN_EXTRA content)))"

text \<open>
  The sliding window over the hits. \<open>None\<close> is a panic (an index out of range, a missing counter or
  an underflow of one); \<open>sw_best = None\<close> is \<open>usize::MAX\<close>.
\<close>

record window =
  sw_counts :: "nat \<Rightarrow> nat"
  sw_lo :: nat
  sw_have :: nat
  sw_best :: "nat option"

definition better :: "nat option \<Rightarrow> nat \<Rightarrow> nat option" where
  "better best n = (case best of None \<Rightarrow> Some n | Some b \<Rightarrow> Some (min b n))"

function shrink :: "(nat \<times> nat) list \<Rightarrow> nat \<Rightarrow> nat \<Rightarrow> window \<Rightarrow> window option" where
  "shrink hits matched hi w =
     (if sw_have w \<noteq> matched then Some w
      else if length hits \<le> sw_lo w \<or> fst (hits ! hi) < fst (hits ! sw_lo w) then None
      else let t = snd (hits ! sw_lo w); c = sw_counts w t
           in if c = 0 then None
              else shrink hits matched hi
                \<lparr>sw_counts = (sw_counts w)(t := c - 1), sw_lo = sw_lo w + 1,
                 sw_have = (if c - 1 = 0 then sw_have w - 1 else sw_have w),
                 sw_best = better (sw_best w) (fst (hits ! hi) - fst (hits ! sw_lo w) + 1)\<rparr>)"
  by pat_completeness auto

termination shrink
  by (relation "measure (\<lambda>(hits, matched, hi, w). length hits - sw_lo w)") auto

declare shrink.simps [simp del]

definition slide :: "(nat \<times> nat) list \<Rightarrow> nat \<Rightarrow> nat \<Rightarrow> window \<Rightarrow> window option" where
  "slide hits matched hi w =
     (let t = snd (hits ! hi); c = sw_counts w t + 1
      in shrink hits matched hi
           (w\<lparr>sw_counts := (sw_counts w)(t := c), sw_have := (if c = 1 then sw_have w + 1 else sw_have w)\<rparr>))"

definition smallest_window :: "(nat \<times> nat) list \<Rightarrow> nat \<Rightarrow> nat option option" where
  "smallest_window hits matched =
     map_option sw_best
       (fold (\<lambda>hi w. Option.bind w (slide hits matched hi)) [0..<length hits]
         (Some \<lparr>sw_counts = (\<lambda>t. 0), sw_lo = 0, sw_have = 0, sw_best = None\<rparr>))"

definition proximity_score :: "'f rank_env \<Rightarrow> string \<Rightarrow> string list \<Rightarrow> 'f option" where
  "proximity_score R content query_words =
     (if length query_words < 2 \<or> content = [] then Some (rk_lit R 0)
      else let wanted = map (\<lambda>w. fold_token (rk_lower R w)) query_words;
               hits = term_hits R wanted content
           in if length hits < 2 then Some (rk_lit R 0)
              else let matched = length (remdups (map snd hits))
                   in if matched < 2 then Some (rk_lit R 0)
                      else case smallest_window hits matched of
                             None \<Rightarrow> None
                           | Some None \<Rightarrow> Some (rk_lit R 0)
                           | Some (Some best) \<Rightarrow>
                               let coverage = rk_div R (rk_of_nat R matched) (rk_of_nat R (length wanted));
                                   density = rk_div R (rk_of_nat R (matched - 1)) (rk_of_nat R (max (best - 1) 1))
                               in Some (rk_mul R coverage (rk_min R density (rk_lit R 1))))"

subsection \<open>The ambient boost\<close>

record 'f ambient_weights =
  aw_wing_match :: 'f
  aw_mismatch_penalty :: 'f
  aw_fresh_hour :: 'f
  aw_fresh_day :: 'f
  aw_clamp_min :: 'f
  aw_clamp_max :: 'f

definition default_ambient :: "'f rank_env \<Rightarrow> 'f ambient_weights" where
  "default_ambient R =
     \<lparr>aw_wing_match = rk_lit R 1, aw_mismatch_penalty = rk_lit R (7 / 10), aw_fresh_hour = rk_lit R (13 / 10),
      aw_fresh_day = rk_lit R (11 / 10), aw_clamp_min = rk_lit R (1 / 2), aw_clamp_max = rk_lit R 2\<rparr>"

text \<open>\<open>RecognitionContext\<close>; of an activity episode only the wing is read.\<close>

record recognition_context =
  rc_activity_wings :: "string option list"
  rc_now :: int
  rc_focus_wing :: "string option"
  rc_persona :: "string option"
  rc_session_id :: "string option"

definition context_empty :: "int \<Rightarrow> recognition_context" where
  "context_empty now =
     \<lparr>rc_activity_wings = [], rc_now = now, rc_focus_wing = None, rc_persona = None, rc_session_id = None\<rparr>"

definition context_is_empty :: "recognition_context \<Rightarrow> bool" where
  "context_is_empty c \<longleftrightarrow> rc_activity_wings c = [] \<and> rc_focus_wing c = None \<and> rc_persona c = None"

definition wing_match :: "recognition_context \<Rightarrow> 'f memory_hit \<Rightarrow> bool" where
  "wing_match c h \<longleftrightarrow>
     (case hit_wing h of None \<Rightarrow> False | Some w \<Rightarrow> rc_focus_wing c = Some w \<or> Some w \<in> set (rc_activity_wings c))"

definition fresh_factor :: "'f rank_env \<Rightarrow> 'f ambient_weights \<Rightarrow> int \<Rightarrow> 'f memory_hit \<Rightarrow> 'f \<Rightarrow> 'f" where
  "fresh_factor R w now h boost =
     (case created_time R h of
        None \<Rightarrow> boost
      | Some t \<Rightarrow>
          let age = whole_units (now - t) MINUTE
          in if 0 \<le> age \<and> age < 60 then rk_mul R boost (aw_fresh_hour w)
             else if 60 \<le> age \<and> age < 1440 then rk_mul R boost (aw_fresh_day w)
             else boost)"

text \<open>\<open>clamp\<close> panics unless the bounds are ordered.\<close>

definition ambient_boost_with ::
    "'f rank_env \<Rightarrow> 'f ambient_weights \<Rightarrow> recognition_context \<Rightarrow> 'f memory_hit \<Rightarrow> 'f option" where
  "ambient_boost_with R w c h =
     (if context_is_empty c then Some (rk_lit R 1)
      else
        let boost = (if wing_match c h then rk_mul R (rk_lit R 1) (aw_wing_match w) else rk_lit R 1);
            boost = fresh_factor R w (rc_now c) h boost;
            strong = (rc_focus_wing c \<noteq> None \<or> rc_activity_wings c \<noteq> []);
            boost = (if strong \<and> \<not> wing_match c h then rk_mul R boost (aw_mismatch_penalty w) else boost)
        in if rk_leq R (aw_clamp_min w) (aw_clamp_max w)
           then Some (rk_clamp R (aw_clamp_min w) (aw_clamp_max w) boost) else None)"

subsection \<open>Episode diversity\<close>

text \<open>The episode of a hit, or the session prefix of its key.\<close>

definition episode_key :: "'f memory_hit \<Rightarrow> string" where
  "episode_key h = (case hit_episode_id h of Some e \<Rightarrow> e | None \<Rightarrow> takeWhile (\<lambda>c. c \<noteq> CHR '':'') (hit_key h))"

fun place_episode ::
    "nat \<Rightarrow> 'f memory_hit \<Rightarrow> (string \<Rightarrow> nat) \<times> 'f memory_hit list \<times> 'f memory_hit list \<Rightarrow>
      (string \<Rightarrow> nat) \<times> 'f memory_hit list \<times> 'f memory_hit list" where
  "place_episode cap h (counts, result, overflow) =
     (if counts (episode_key h) < cap
      then (counts(episode_key h := counts (episode_key h) + 1), result @ [h], overflow)
      else (counts, result, overflow @ [h]))"

definition apply_episode_diversity :: "nat \<Rightarrow> 'f memory_hit list \<Rightarrow> 'f memory_hit list" where
  "apply_episode_diversity cap hits =
     (if hits = [] \<or> cap = 0 then hits
      else case fold (place_episode cap) hits ((\<lambda>e. 0), [], []) of (_, result, overflow) \<Rightarrow> result @ overflow)"

subsection \<open>The configuration\<close>

record 'f reranking_config =
  rr_apply_signal_score :: bool
  rr_signal_score_weight :: 'f
  rr_apply_recency :: bool
  rr_recency_half_life_days :: 'f
  rr_apply_entity_boost :: bool
  rr_entity_boost_weight :: 'f
  rr_apply_ambient_boost :: bool
  rr_ambient_weights :: "'f ambient_weights"
  rr_apply_declarative_boost :: bool
  rr_declarative_weight :: 'f
  rr_co_retrieval_weight :: 'f
  rr_apply_episode_diversity :: bool
  rr_max_per_episode :: nat
  rr_apply_context_dedup :: bool
  rr_apply_proximity :: bool
  rr_proximity_weight :: 'f
  rr_use_rrf :: bool
  rr_rrf_bm25_weight :: 'f
  rr_rrf_declarative_weight :: 'f
  rr_rrf_proximity_weight :: 'f
  rr_rrf_recency_weight :: 'f
  rr_rrf_signal_weight :: 'f
  rr_rrf_entity_weight :: 'f

definition PROXIMITY_WEIGHT_DEFAULT :: "'f rank_env \<Rightarrow> 'f" where
  "PROXIMITY_WEIGHT_DEFAULT R = rk_lit R (15 / 100)"

definition RECENCY_BOOST_WEIGHT :: "'f rank_env \<Rightarrow> 'f" where
  "RECENCY_BOOST_WEIGHT R = rk_lit R (1 / 10)"

definition default_reranking :: "'f rank_env \<Rightarrow> 'f reranking_config" where
  "default_reranking R =
     \<lparr>rr_apply_signal_score = True, rr_signal_score_weight = rk_lit R (3 / 10),
      rr_apply_recency = True, rr_recency_half_life_days = rk_lit R 365,
      rr_apply_entity_boost = False, rr_entity_boost_weight = rk_lit R (5 / 100),
      rr_apply_ambient_boost = False, rr_ambient_weights = default_ambient R,
      rr_apply_declarative_boost = False, rr_declarative_weight = rk_lit R (1 / 10),
      rr_co_retrieval_weight = rk_lit R 0,
      rr_apply_episode_diversity = False, rr_max_per_episode = 5, rr_apply_context_dedup = True,
      rr_apply_proximity = False, rr_proximity_weight = PROXIMITY_WEIGHT_DEFAULT R,
      rr_use_rrf = False, rr_rrf_bm25_weight = rk_lit R 1, rr_rrf_declarative_weight = rk_lit R 1,
      rr_rrf_proximity_weight = rk_lit R 1, rr_rrf_recency_weight = rk_lit R 1,
      rr_rrf_signal_weight = rk_lit R 1, rr_rrf_entity_weight = rk_lit R 1\<rparr>"

text \<open>A panic of one element ends the pass.\<close>

fun all_some :: "'a option list \<Rightarrow> 'a list option" where
  "all_some [] = Some []"
| "all_some (x # xs) = (case x of None \<Rightarrow> None | Some y \<Rightarrow> map_option (Cons y) (all_some xs))"

definition density_of :: "'f rank_env \<Rightarrow> 'f memory_hit \<Rightarrow> 'f" where
  "density_of R h =
     (case hit_declarative_density h of Some x \<Rightarrow> x | None \<Rightarrow> declarative_density R (hit_content h))"

subsection \<open>Reciprocal rank fusion\<close>

definition rrf_share :: "'f rank_env \<Rightarrow> 'f \<Rightarrow> nat \<Rightarrow> 'f" where
  "rrf_share R weight rank = rk_div R weight (rk_add R (rk_add R (rk_lit R 60) (rk_of_nat R rank)) (rk_lit R 1))"

text \<open>One signal: the candidates it scores above 0, ranked by it.\<close>

definition add_channel ::
    "'f rank_env \<Rightarrow> 'f memory_hit list \<Rightarrow> 'f list \<Rightarrow> 'f \<Rightarrow> 'f list \<Rightarrow> 'f list" where
  "add_channel R cands vals weight fused =
     (if rk_leq R weight (rk_lit R 0) then fused
      else let idx = order_by (\<lambda>a b. score_before R (cands ! a, vals ! a) (cands ! b, vals ! b))
                       (filter (\<lambda>i. rk_less R (rk_lit R 0) (vals ! i)) [0..<length cands])
           in fold (\<lambda>(rank, i) f. f[i := rk_add R (f ! i) (rrf_share R weight rank)]) (enumerate 0 idx) fused)"

definition wing_leads :: "'f rank_env \<Rightarrow> 'f memory_hit list \<Rightarrow> 'f list" where
  "wing_leads R cands =
     map (\<lambda>i. case wing_of_hit (cands ! i) of
                None \<Rightarrow> rk_lit R 0
              | Some w \<Rightarrow> if hd (wing_members cands w) = i \<and> length (wing_members cands w) \<ge> 2
                          then rk_lit R 1 else rk_lit R 0) [0..<length cands]"

definition recency_value :: "'f rank_env \<Rightarrow> 'f \<Rightarrow> int \<Rightarrow> 'f memory_hit \<Rightarrow> 'f" where
  "recency_value R half_life now h =
     (case created_time R h of Some dt \<Rightarrow> freshness R half_life now dt | None \<Rightarrow> rk_lit R 0)"

definition final_sort :: "'f rank_env \<Rightarrow> 'f memory_hit list \<Rightarrow> 'f list \<Rightarrow> 'f memory_hit list" where
  "final_sort R cands scores = map (\<lambda>(h, s). with_score h s) (order_by (score_before R) (zip cands scores))"

text \<open>The channels in the order of the code; \<open>near\<close> holds the proximities when that channel is on.\<close>

definition rrf_scores ::
    "'f rank_env \<Rightarrow> 'f memory_hit list \<Rightarrow> 'f reranking_config \<Rightarrow> recognition_context \<Rightarrow> 'f list option \<Rightarrow> 'f list" where
  "rrf_scores R cands cfg c near =
     (let f = map (\<lambda>i. rk_add R (rk_lit R 0) (rrf_share R (rr_rrf_bm25_weight cfg) i)) [0..<length cands];
          f = (if rr_apply_declarative_boost cfg
               then add_channel R cands (map (density_of R) cands) (rr_rrf_declarative_weight cfg) f else f);
          f = (case near of Some vals \<Rightarrow> add_channel R cands vals (rr_rrf_proximity_weight cfg) f | None \<Rightarrow> f);
          f = (if rr_apply_recency cfg \<and> rk_less R (rk_lit R 0) (rr_recency_half_life_days cfg)
               then add_channel R cands (map (recency_value R (rr_recency_half_life_days cfg) (rc_now c)) cands)
                      (rr_rrf_recency_weight cfg) f else f);
          f = (if rr_apply_signal_score cfg
               then add_channel R cands (map hit_signal_score cands) (rr_rrf_signal_weight cfg) f else f)
      in if rr_apply_entity_boost cfg
         then add_channel R cands (wing_leads R cands) (rr_rrf_entity_weight cfg) f else f)"

definition rrf_fuse ::
    "'f rank_env \<Rightarrow> 'f memory_hit list \<Rightarrow> 'f reranking_config \<Rightarrow> recognition_context \<Rightarrow> string list \<Rightarrow>
      'f memory_hit list option" where
  "rrf_fuse R cands cfg c query_words =
     map_option (\<lambda>near.
         let out = final_sort R cands (rrf_scores R cands cfg c near)
         in if rr_apply_context_dedup cfg then dedup_context_chains R out else out)
       (if rr_apply_proximity cfg \<and> length query_words \<ge> 2
        then map_option Some (all_some (map (\<lambda>h. proximity_score R (hit_content h) query_words) cands))
        else Some None)"

subsection \<open>The pipeline\<close>

text \<open>The additive signals, each a pass over candidates and scores in step.\<close>

definition pass :: "bool \<Rightarrow> ('f memory_hit \<Rightarrow> 'f \<Rightarrow> 'f) \<Rightarrow> 'f memory_hit list \<Rightarrow> 'f list \<Rightarrow> 'f list" where
  "pass on g cands scores = (if on then map2 g cands scores else scores)"

definition ambient_pass ::
    "'f rank_env \<Rightarrow> 'f reranking_config \<Rightarrow> recognition_context \<Rightarrow> 'f memory_hit list \<Rightarrow> 'f list \<Rightarrow> 'f list option" where
  "ambient_pass R cfg c cands scores =
     (if rr_apply_ambient_boost cfg
      then map_option (map2 (rk_mul R) scores) (all_some (map (ambient_boost_with R (rr_ambient_weights cfg) c) cands))
      else Some scores)"

definition proximity_pass ::
    "'f rank_env \<Rightarrow> 'f reranking_config \<Rightarrow> string list \<Rightarrow> 'f memory_hit list \<Rightarrow> 'f list \<Rightarrow> 'f list option" where
  "proximity_pass R cfg query_words cands scores =
     (if rr_apply_proximity cfg \<and> length query_words \<ge> 2
      then map_option (map2 (\<lambda>s p. rk_add R s (rk_mul R (rr_proximity_weight cfg) p)) scores)
             (all_some (map (\<lambda>h. proximity_score R (hit_content h) query_words) cands))
      else Some scores)"

definition composite_scores ::
    "'f rank_env \<Rightarrow> (string list \<Rightarrow> string list) \<Rightarrow> 'f reranking_config \<Rightarrow> recognition_context \<Rightarrow>
      (string \<times> 'f) list \<Rightarrow> string list \<Rightarrow> 'f memory_hit list \<Rightarrow> 'f list option" where
  "composite_scores R entries cfg c co query_words cands =
     (let s0 = map (fts_position R (length cands)) [0..<length cands];
          w = rk_clamp R (rk_lit R 0) (rk_lit R 1) (rr_signal_score_weight cfg);
          s1 = pass (rr_apply_signal_score cfg) (\<lambda>h s. blend R w s (hit_signal_score h)) cands s0
      in Option.bind (ambient_pass R cfg c cands s1) (\<lambda>s2.
         let dw = rk_clamp R (rk_lit R 0) (rk_lit R (1 / 5)) (rr_declarative_weight cfg);
             s3 = pass (rr_apply_declarative_boost cfg) (\<lambda>h s. rk_add R s (rk_mul R dw (density_of R h))) cands s2;
             s4 = pass (co \<noteq> []) (\<lambda>h s. case map_of co (hit_id h) of
                    Some a \<Rightarrow> rk_add R s (rk_mul R (rr_co_retrieval_weight cfg) a) | None \<Rightarrow> s) cands s3;
             s5 = pass (rr_apply_recency cfg \<and> rk_less R (rk_lit R 0) (rr_recency_half_life_days cfg))
                    (\<lambda>h s. case created_time R h of
                       Some dt \<Rightarrow> rk_add R s (rk_mul R (RECENCY_BOOST_WEIGHT R)
                                    (freshness R (rr_recency_half_life_days cfg) (rc_now c) dt))
                     | None \<Rightarrow> s) cands s4
         in map_option (\<lambda>s6. if rr_apply_entity_boost cfg
                then boost_wings R (rr_entity_boost_weight cfg) entries cands s6 else s6)
              (proximity_pass R cfg query_words cands s5)))"

definition after_sort :: "'f rank_env \<Rightarrow> 'f reranking_config \<Rightarrow> 'f memory_hit list \<Rightarrow> 'f memory_hit list" where
  "after_sort R cfg ranked =
     (let deduped = (if rr_apply_context_dedup cfg then dedup_context_chains R ranked else ranked)
      in if rr_apply_episode_diversity cfg then apply_episode_diversity (rr_max_per_episode cfg) deduped else deduped)"

definition apply_reranking_pipeline_with_query ::
    "'f rank_env \<Rightarrow> (string list \<Rightarrow> string list) \<Rightarrow> 'f reranking_config \<Rightarrow> recognition_context \<Rightarrow>
      (string \<times> 'f) list \<Rightarrow> string list \<Rightarrow> 'f memory_hit list \<Rightarrow> 'f memory_hit list option" where
  "apply_reranking_pipeline_with_query R entries cfg c co query_words cands =
     (if cands = [] then Some []
      else if rr_use_rrf cfg then rrf_fuse R cands cfg c query_words
      else map_option (\<lambda>scores. after_sort R cfg (final_sort R cands scores))
             (composite_scores R entries cfg c co query_words cands))"

definition apply_reranking_pipeline ::
    "'f rank_env \<Rightarrow> (string list \<Rightarrow> string list) \<Rightarrow> 'f reranking_config \<Rightarrow> recognition_context \<Rightarrow>
      (string \<times> 'f) list \<Rightarrow> 'f memory_hit list \<Rightarrow> 'f memory_hit list option" where
  "apply_reranking_pipeline R entries cfg c co cands =
     apply_reranking_pipeline_with_query R entries cfg c co [] cands"

text \<open>Affinity with the first candidates over the co-retrieval counts, scaled to its maximum.\<close>

definition add_affinity :: "'f rank_env \<Rightarrow> string \<times> nat \<Rightarrow> (string \<rightharpoonup> 'f) \<Rightarrow> (string \<rightharpoonup> 'f)" where
  "add_affinity R rel m = (case rel of (i, n) \<Rightarrow>
     m(i \<mapsto> rk_add R (case m i of Some x \<Rightarrow> x | None \<Rightarrow> rk_lit R 0) (rk_of_nat R n)))"

definition compute_co_retrieval_boosts ::
    "'f rank_env \<Rightarrow> 'f db \<Rightarrow> 'f memory_hit list \<Rightarrow> nat \<Rightarrow> (string \<times> 'f) list" where
  "compute_co_retrieval_boosts R d cands anchor_count =
     (let rels = concat (map (\<lambda>a. related_memories (hit_id a) 50 d) (take anchor_count cands));
          affine = fold (add_affinity R) rels (\<lambda>i. None);
          affinity = List.map_filter (\<lambda>i. map_option (Pair i) (affine i)) (remdups (map fst rels));
          max_val = fold (\<lambda>(i, x) m. rk_max R m x) affinity (rk_lit R 0)
      in if rk_less R (rk_lit R 0) max_val then map (\<lambda>(i, x). (i, rk_div R x max_val)) affinity else affinity)"

end
