(* ===== verification/Window.thy ===== *)
theory Window
  imports Ranking
begin

text \<open>
  The proximity signal of \<open>spectral-graph/src/ranking.rs\<close>: the two-pointer search finds the smallest span of a text
  that holds every query term the text has. The reference is the specification of a covering span; the loop invariant
  relates the counters of the sliding window to it.
\<close>

section \<open>The smallest window\<close>

definition terms_in :: "(nat \<times> nat) list \<Rightarrow> nat \<Rightarrow> nat \<Rightarrow> nat set" where
  "terms_in hits lo hi = (\<lambda>k. snd (hits ! k)) ` {lo..<hi}"

definition covers :: "(nat \<times> nat) list \<Rightarrow> nat \<Rightarrow> nat \<Rightarrow> bool" where
  "covers hits i j \<longleftrightarrow> i \<le> j \<and> j < length hits \<and> snd ` set hits \<subseteq> terms_in hits i (Suc j)"

definition window_span :: "(nat \<times> nat) list \<Rightarrow> nat \<Rightarrow> nat \<Rightarrow> nat" where
  "window_span hits i j = fst (hits ! j) - fst (hits ! i) + 1"

definition at_most :: "nat option \<Rightarrow> nat \<Rightarrow> bool" where
  "at_most best n \<longleftrightarrow> (\<exists>b. best = Some b \<and> b \<le> n)"

lemma at_most_better: "at_most (better best n) m \<longleftrightarrow> at_most best m \<or> n \<le> m"
  by (cases best) (auto simp: at_most_def better_def)

lemma better_cases:
  assumes "better best n = Some b"
  obtains "b = n" | "best = Some b"
  using assms by (cases best) (auto simp: better_def min_def split: if_splits)

lemma at_most_mono: "at_most best n \<Longrightarrow> n \<le> m \<Longrightarrow> at_most best m"
  by (auto simp: at_most_def)

definition occurrences :: "(nat \<times> nat) list \<Rightarrow> nat \<Rightarrow> nat \<Rightarrow> nat \<Rightarrow> nat" where
  "occurrences hits lo hi t = card {k \<in> {lo..<hi}. snd (hits ! k) = t}"

lemma occurrences_snoc:
  "lo \<le> hi \<Longrightarrow> occurrences hits lo (Suc hi) t = occurrences hits lo hi t + (if snd (hits ! hi) = t then 1 else 0)"
proof -
  assume "lo \<le> hi"
  then have "{k \<in> {lo..<Suc hi}. snd (hits ! k) = t} =
    (if snd (hits ! hi) = t then insert hi {k \<in> {lo..<hi}. snd (hits ! k) = t} else {k \<in> {lo..<hi}. snd (hits ! k) = t})"
    by (auto simp: less_Suc_eq)
  then show ?thesis by (simp add: occurrences_def)
qed

lemma occurrences_tail:
  "lo < hi \<Longrightarrow> occurrences hits lo hi t = occurrences hits (Suc lo) hi t + (if snd (hits ! lo) = t then 1 else 0)"
proof -
  assume "lo < hi"
  then have "{k \<in> {lo..<hi}. snd (hits ! k) = t} =
    (if snd (hits ! lo) = t then insert lo {k \<in> {Suc lo..<hi}. snd (hits ! k) = t} else {k \<in> {Suc lo..<hi}. snd (hits ! k) = t})"
    by (auto simp: Suc_le_eq le_less)
  then show ?thesis by (simp add: occurrences_def)
qed

lemma occurrences_pos: "0 < occurrences hits lo hi t \<longleftrightarrow> t \<in> terms_in hits lo hi"
  by (auto simp: occurrences_def terms_in_def card_gt_0_iff)

lemma terms_snoc: "lo \<le> hi \<Longrightarrow> terms_in hits lo (Suc hi) = insert (snd (hits ! hi)) (terms_in hits lo hi)"
  by (simp add: terms_in_def atLeastLessThanSuc)

lemma terms_tail: "lo < hi \<Longrightarrow> terms_in hits lo hi = insert (snd (hits ! lo)) (terms_in hits (Suc lo) hi)"
proof -
  assume "lo < hi"
  then have "{lo..<hi} = insert lo {Suc lo..<hi}" by auto
  then show ?thesis by (simp add: terms_in_def)
qed

lemma terms_subset: "hi \<le> length hits \<Longrightarrow> terms_in hits lo hi \<subseteq> snd ` set hits"
  by (auto simp: terms_in_def)

lemma finite_terms [simp]: "finite (terms_in hits lo hi)"
  by (simp add: terms_in_def)

lemma terms_mono: "i \<le> i' \<Longrightarrow> terms_in hits i' j \<subseteq> terms_in hits i j"
  by (auto simp: terms_in_def)

text \<open>The counters describe the hits from \<open>sw_lo\<close> up to \<open>hi\<close>.\<close>

definition counts_ok :: "(nat \<times> nat) list \<Rightarrow> nat \<Rightarrow> window \<Rightarrow> bool" where
  "counts_ok hits hi w \<longleftrightarrow>
     sw_lo w \<le> hi \<and> sw_counts w = occurrences hits (sw_lo w) hi \<and> sw_have w = card (terms_in hits (sw_lo w) hi)"

definition best_found :: "(nat \<times> nat) list \<Rightarrow> window \<Rightarrow> bool" where
  "best_found hits w \<longleftrightarrow> (\<forall>b. sw_best w = Some b \<longrightarrow> (\<exists>i j. covers hits i j \<and> b = window_span hits i j))"

definition best_below :: "(nat \<times> nat) list \<Rightarrow> nat \<Rightarrow> window \<Rightarrow> bool" where
  "best_below hits hi w \<longleftrightarrow> (\<forall>i j. covers hits i j \<and> j < hi \<longrightarrow> at_most (sw_best w) (window_span hits i j))"

definition passed_below :: "(nat \<times> nat) list \<Rightarrow> nat \<Rightarrow> window \<Rightarrow> bool" where
  "passed_below hits hi w \<longleftrightarrow> (\<forall>i < sw_lo w. at_most (sw_best w) (window_span hits i hi))"

definition ascending :: "(nat \<times> nat) list \<Rightarrow> bool" where
  "ascending hits \<longleftrightarrow> sorted_wrt (\<lambda>p q. fst p < fst q) hits"

lemma ascending_le: "ascending hits \<Longrightarrow> i \<le> j \<Longrightarrow> j < length hits \<Longrightarrow> fst (hits ! i) \<le> fst (hits ! j)"
  by (cases "i = j") (auto simp: ascending_def sorted_wrt_iff_nth_less intro: less_imp_le)

lemma drop_counts:
  assumes "counts_ok hits (Suc hi) w" "sw_lo w < Suc hi" "snd (hits ! sw_lo w) = t"
  shows "0 < sw_counts w t" and
    "counts_ok hits (Suc hi) (w\<lparr>sw_counts := (sw_counts w)(t := sw_counts w t - 1), sw_lo := sw_lo w + 1,
        sw_have := (if sw_counts w t - 1 = 0 then sw_have w - 1 else sw_have w)\<rparr>)"
proof -
  let ?lo = "sw_lo w"
  have c: "sw_counts w = occurrences hits ?lo (Suc hi)" and h: "sw_have w = card (terms_in hits ?lo (Suc hi))"
    using assms(1) by (simp_all add: counts_ok_def)
  note tail = occurrences_tail[OF assms(2)]
  show "0 < sw_counts w t" unfolding c occurrences_pos using terms_tail[OF assms(2)] assms(3) by simp
  have counts: "(sw_counts w)(t := sw_counts w t - 1) = occurrences hits (Suc ?lo) (Suc hi)"
    unfolding c using tail assms(3) by auto
  have "sw_counts w t - 1 = occurrences hits (Suc ?lo) (Suc hi) t" unfolding c using tail assms(3) by simp
  moreover have "0 < occurrences hits (Suc ?lo) (Suc hi) t \<longleftrightarrow> t \<in> terms_in hits (Suc ?lo) (Suc hi)"
    by (rule occurrences_pos)
  moreover have "terms_in hits ?lo (Suc hi) = insert t (terms_in hits (Suc ?lo) (Suc hi))"
    using terms_tail[OF assms(2)] assms(3) by simp
  ultimately have "(if sw_counts w t - 1 = 0 then sw_have w - 1 else sw_have w) = card (terms_in hits (Suc ?lo) (Suc hi))"
    unfolding h by (auto simp: card_insert_if)
  then show "counts_ok hits (Suc hi) (w\<lparr>sw_counts := (sw_counts w)(t := sw_counts w t - 1), sw_lo := sw_lo w + 1,
        sw_have := (if sw_counts w t - 1 = 0 then sw_have w - 1 else sw_have w)\<rparr>)"
    using counts assms(2) by (simp add: counts_ok_def)
qed

text \<open>Shrinking never fails and leaves a window that no longer covers.\<close>

lemma shrink_ok:
  assumes "ascending hits" "hi < length hits" "matched = card (snd ` set hits)" "0 < matched"
    and "counts_ok hits (Suc hi) w" "best_found hits w" "best_below hits hi w" "passed_below hits hi w"
  shows "\<exists>w'. shrink hits matched hi w = Some w' \<and> counts_ok hits (Suc hi) w' \<and> best_found hits w' \<and>
    best_below hits (Suc hi) w' \<and> passed_below hits hi w'"
  using assms(5-8)
proof (induction "length hits - sw_lo w" arbitrary: w rule: less_induct)
  case less
  show ?case
  proof (cases "sw_have w = matched")
    case False
    have "best_below hits (Suc hi) w"
      unfolding best_below_def
    proof (intro allI impI)
      fix i j assume ij: "covers hits i j \<and> j < Suc hi"
      show "at_most (sw_best w) (window_span hits i j)"
      proof (cases "j < hi")
        case True
        then show ?thesis using less.prems(3) ij by (simp add: best_below_def)
      next
        case F: False
        then have j: "j = hi" using ij by simp
        have "i < sw_lo w"
        proof (rule ccontr)
          assume "\<not> i < sw_lo w"
          then have "terms_in hits i (Suc hi) \<subseteq> terms_in hits (sw_lo w) (Suc hi)" by (intro terms_mono) simp
          then have "snd ` set hits \<subseteq> terms_in hits (sw_lo w) (Suc hi)" using ij j by (auto simp: covers_def)
          moreover have "terms_in hits (sw_lo w) (Suc hi) \<subseteq> snd ` set hits" using assms(2) by (intro terms_subset) simp
          ultimately have "terms_in hits (sw_lo w) (Suc hi) = snd ` set hits" by simp
          then show False using False less.prems(1) assms(3) by (simp add: counts_ok_def)
        qed
        then show ?thesis using less.prems(4) j by (simp add: passed_below_def)
      qed
    qed
    then show ?thesis using False less.prems by (simp add: shrink.simps[of hits matched hi w])
  next
    case True
    let ?lo = "sw_lo w"
    let ?t = "snd (hits ! ?lo)"
    let ?span = "fst (hits ! hi) - fst (hits ! ?lo) + 1"
    have card: "card (terms_in hits ?lo (Suc hi)) = card (snd ` set hits)"
      using True less.prems(1) assms(3) by (simp add: counts_ok_def)
    then have all: "terms_in hits ?lo (Suc hi) = snd ` set hits"
      using terms_subset[of "Suc hi" hits ?lo] assms(2) by (intro card_subset_eq) simp_all
    have lo: "?lo < Suc hi"
    proof (rule ccontr)
      assume "\<not> ?lo < Suc hi"
      then have "terms_in hits ?lo (Suc hi) = {}" by (simp add: terms_in_def)
      then show False using card assms(3,4) by simp
    qed
    have cov: "covers hits ?lo hi" using lo assms(2) all by (simp add: covers_def)
    note dropped = drop_counts[OF less.prems(1) lo refl]
    define w1 where "w1 = \<lparr>sw_counts = (sw_counts w)(?t := sw_counts w ?t - 1), sw_lo = ?lo + 1,
                 sw_have = (if sw_counts w ?t - 1 = 0 then sw_have w - 1 else sw_have w),
                 sw_best = better (sw_best w) ?span\<rparr>"
    have "\<not> fst (hits ! hi) < fst (hits ! ?lo)" using ascending_le[OF assms(1), of ?lo hi] lo assms(2) by simp
    then have step: "shrink hits matched hi w = shrink hits matched hi w1"
      using True lo assms(2) dropped(1) by (simp add: shrink.simps[of hits matched hi w] w1_def Let_def)
    have c1: "counts_ok hits (Suc hi) w1" using dropped(2) by (simp add: counts_ok_def w1_def)
    have f1: "best_found hits w1"
      unfolding best_found_def
    proof (intro allI impI)
      fix b assume "sw_best w1 = Some b"
      then have "better (sw_best w) ?span = Some b" by (simp add: w1_def)
      then consider "b = ?span" | "sw_best w = Some b" by (rule better_cases)
      then show "\<exists>i j. covers hits i j \<and> b = window_span hits i j"
      proof cases
        case 1
        then have "b = window_span hits ?lo hi" by (simp only: window_span_def)
        then show ?thesis using cov by blast
      next
        case 2
        then show ?thesis using less.prems(2) by (simp add: best_found_def)
      qed
    qed
    have b1: "best_below hits hi w1" using less.prems(3) by (auto simp: best_below_def w1_def at_most_better)
    have p1: "passed_below hits hi w1"
      unfolding passed_below_def
    proof (intro allI impI)
      fix i assume "i < sw_lo w1"
      then have "i < ?lo \<or> i = ?lo" by (auto simp: w1_def)
      then consider "i < ?lo" | "i = ?lo" by blast
      then show "at_most (sw_best w1) (window_span hits i hi)"
      proof cases
        case 1
        then have "at_most (sw_best w) (window_span hits i hi)" using less.prems(4) by (simp add: passed_below_def)
        then show ?thesis by (simp add: w1_def at_most_better)
      next
        case 2
        then show ?thesis by (simp add: w1_def at_most_better window_span_def)
      qed
    qed
    have "length hits - sw_lo w1 < length hits - ?lo" using lo assms(2) by (simp add: w1_def)
    from less.hyps[OF this c1 f1 b1 p1] show ?thesis unfolding step .
  qed
qed

lemma slide_ok:
  assumes "ascending hits" "hi < length hits" "matched = card (snd ` set hits)"
    and "counts_ok hits hi w" "best_found hits w" "best_below hits hi w" "\<forall>i < sw_lo w. 0 < hi \<and> at_most (sw_best w) (window_span hits i (hi - 1))"
  shows "\<exists>w'. slide hits matched hi w = Some w' \<and> counts_ok hits (Suc hi) w' \<and> best_found hits w' \<and>
    best_below hits (Suc hi) w' \<and> passed_below hits hi w'"
proof -
  let ?t = "snd (hits ! hi)"
  define w1 where "w1 = w\<lparr>sw_counts := (sw_counts w)(?t := sw_counts w ?t + 1),
      sw_have := (if sw_counts w ?t + 1 = 1 then sw_have w + 1 else sw_have w)\<rparr>"
  have lo: "sw_lo w \<le> hi" and c: "sw_counts w = occurrences hits (sw_lo w) hi"
    and h: "sw_have w = card (terms_in hits (sw_lo w) hi)" using assms(4) by (simp_all add: counts_ok_def)
  have "(sw_counts w)(?t := sw_counts w ?t + 1) = occurrences hits (sw_lo w) (Suc hi)"
    unfolding c using occurrences_snoc[OF lo] by auto
  moreover have "(if sw_counts w ?t + 1 = 1 then sw_have w + 1 else sw_have w) = card (terms_in hits (sw_lo w) (Suc hi))"
    unfolding h c using occurrences_pos[of hits "sw_lo w" hi ?t] by (auto simp: terms_snoc[OF lo] card_insert_if)
  ultimately have c1: "counts_ok hits (Suc hi) w1" using lo by (simp add: counts_ok_def w1_def)
  have p1: "passed_below hits hi w1"
    unfolding passed_below_def
  proof (intro allI impI)
    fix i assume "i < sw_lo w1"
    then have "0 < hi" "at_most (sw_best w) (window_span hits i (hi - 1))" using assms(7) by (auto simp: w1_def)
    moreover have "fst (hits ! (hi - 1)) \<le> fst (hits ! hi)" using assms(1,2) by (intro ascending_le) simp_all
    ultimately show "at_most (sw_best w1) (window_span hits i hi)"
      by (auto simp: w1_def window_span_def intro: at_most_mono)
  qed
  have f1: "best_found hits w1" and b1: "best_below hits hi w1"
    using assms(5,6) by (simp_all add: best_found_def best_below_def w1_def)
  have "hits \<noteq> []" using assms(2) by auto
  then have pos: "0 < matched" by (simp add: assms(3) card_gt_0_iff)
  have "slide hits matched hi w = shrink hits matched hi w1" by (simp add: slide_def w1_def Let_def)
  then show ?thesis using shrink_ok[OF assms(1,2,3) pos c1 f1 b1 p1] by simp
qed

lemma window_loop:
  assumes "ascending hits" "matched = card (snd ` set hits)" "n \<le> length hits"
  shows "\<exists>w. fold (\<lambda>hi w. Option.bind w (slide hits matched hi)) [0..<n]
      (Some \<lparr>sw_counts = (\<lambda>t. 0), sw_lo = 0, sw_have = 0, sw_best = None\<rparr>) = Some w \<and>
    counts_ok hits n w \<and> best_found hits w \<and> best_below hits n w \<and>
    (\<forall>i < sw_lo w. 0 < n \<and> at_most (sw_best w) (window_span hits i (n - 1)))"
  using assms(3)
proof (induction n)
  case 0
  then show ?case
    by (simp add: counts_ok_def best_found_def best_below_def terms_in_def fun_eq_iff occurrences_def)
next
  case (Suc n)
  then obtain w where w: "fold (\<lambda>hi w. Option.bind w (slide hits matched hi)) [0..<n]
      (Some \<lparr>sw_counts = (\<lambda>t. 0), sw_lo = 0, sw_have = 0, sw_best = None\<rparr>) = Some w"
    and inv: "counts_ok hits n w" "best_found hits w" "best_below hits n w"
      "\<forall>i < sw_lo w. 0 < n \<and> at_most (sw_best w) (window_span hits i (n - 1))" by auto
  have "n < length hits" using Suc.prems by simp
  from slide_ok[OF assms(1) this assms(2) inv] obtain w' where
    "slide hits matched n w = Some w'" "counts_ok hits (Suc n) w'" "best_found hits w'" "best_below hits (Suc n) w'"
    "passed_below hits n w'" by auto
  then show ?case by (intro exI[of _ w']) (simp add: w passed_below_def)
qed

text \<open>The window found is the smallest that holds every matched term.\<close>

lemma smallest_window_ok:
  assumes "ascending hits" "hits \<noteq> []"
  shows "\<exists>b. smallest_window hits (card (snd ` set hits)) = Some (Some b) \<and>
    (\<exists>i j. covers hits i j \<and> b = window_span hits i j) \<and> (\<forall>i j. covers hits i j \<longrightarrow> b \<le> window_span hits i j)"
proof -
  let ?n = "length hits"
  obtain w where w: "smallest_window hits (card (snd ` set hits)) = Some (sw_best w)"
    and found: "best_found hits w" and below: "best_below hits ?n w"
    using window_loop[OF assms(1) refl order_refl] by (auto simp: smallest_window_def)
  have "terms_in hits 0 (Suc (?n - 1)) = snd ` ((!) hits ` {0..<?n})"
    using assms(2) by (simp add: terms_in_def image_image)
  also have "\<dots> = snd ` set hits" by (simp add: nth_image)
  finally have "terms_in hits 0 (Suc (?n - 1)) = snd ` set hits" .
  then have "covers hits 0 (?n - 1)" using assms(2) by (simp add: covers_def)
  then have "at_most (sw_best w) (window_span hits 0 (?n - 1))" using below assms(2) by (simp add: best_below_def)
  then obtain b where b: "sw_best w = Some b" by (auto simp: at_most_def)
  moreover have "b \<le> window_span hits i j" if "covers hits i j" for i j
    using below that b by (auto simp: best_below_def covers_def at_most_def)
  moreover have "\<exists>i j. covers hits i j \<and> b = window_span hits i j" using found b by (simp add: best_found_def)
  ultimately show ?thesis using w by simp
qed

subsection \<open>The positions of the terms\<close>

lemma map_filter_conv: "List.map_filter f xs = map (\<lambda>x. the (f x)) (filter (\<lambda>x. f x \<noteq> None) xs)"
  by (induction xs) (auto simp: List.map_filter_def)

lemma term_hits_ascending: "ascending (term_hits R wanted content)"
proof -
  let ?f = "\<lambda>(pos :: nat, raw). map_option (\<lambda>ti. (pos, ti)) (index_of (fold_token (rk_lower R raw)) wanted)"
  have first: "fst (the (?f p)) = fst p" if "?f p \<noteq> None" for p using that by (cases p) auto
  have "sorted_wrt (\<lambda>p q. fst p < fst q) (map (\<lambda>p. the (?f p)) (filter (\<lambda>p. ?f p \<noteq> None) xs))"
    if "sorted_wrt (\<lambda>p q. fst p < fst q) xs" for xs :: "(nat \<times> string) list"
    using that
  proof (induction xs)
    case (Cons p xs)
    then show ?case using first by auto
  qed simp
  moreover have "sorted_wrt (\<lambda>p q. fst p < fst q) (enumerate n xs)" for n and xs :: "string list"
    by (simp add: sorted_wrt_iff_nth_less nth_enumerate_eq)
  ultimately show ?thesis unfolding ascending_def term_hits_def map_filter_conv by blast
qed

text \<open>
  C15: The proximity score never panics, and the window its sliding pass reports is the smallest one
  that holds every query term found in the content: some stretch of tokens of that length holds them
  all, and no shorter stretch does.
\<close>

theorem proximity_window_minimal:
  assumes "hits = term_hits R wanted content" and "hits \<noteq> []"
  shows "\<exists>b. smallest_window hits (length (remdups (map snd hits))) = Some (Some b) \<and>
    (\<exists>i j. covers hits i j \<and> b = window_span hits i j) \<and> (\<forall>i j. covers hits i j \<longrightarrow> b \<le> window_span hits i j)"
proof -
  have "length (remdups (map snd hits)) = card (snd ` set hits)" by (simp add: length_remdups_card_conv)
  moreover have "ascending hits" unfolding assms(1) by (rule term_hits_ascending)
  ultimately show ?thesis using smallest_window_ok[OF _ assms(2)] by simp
qed

lemma proximity_score_returns: "\<exists>y. proximity_score R content query_words = Some y"
proof -
  let ?wanted = "map (\<lambda>w. fold_token (rk_lower R w)) query_words"
  let ?hits = "term_hits R ?wanted content"
  have "\<exists>b. smallest_window ?hits (length (remdups (map snd ?hits))) = Some (Some b)" if "\<not> length ?hits < 2"
  proof -
    have "length (remdups (map snd ?hits)) = card (snd ` set ?hits)" by (simp add: length_remdups_card_conv)
    moreover have "?hits \<noteq> []" using that by auto
    ultimately show ?thesis using smallest_window_ok[OF term_hits_ascending, of R ?wanted content] by auto
  qed
  then show ?thesis by (auto simp: proximity_score_def Let_def split: option.splits)
qed

end
