(* ===== verification/Rerank.thy ===== *)
theory Rerank
  imports Window "HOL-Library.Sublist"
begin

text \<open>
  What the re-ranking pipeline promises: it returns, loses nothing but repeated reference chains, does
  not depend on the order of a hash map, and ends in the diversified order.
\<close>

subsection \<open>The order of scores\<close>

text \<open>What IEEE comparison satisfies on numbers that are not NaN.\<close>

definition linear_floats :: "'f rank_env \<Rightarrow> bool" where
  "linear_floats R \<longleftrightarrow> (\<forall>a b. rk_less R a b \<longrightarrow> \<not> rk_less R b a) \<and>
     (\<forall>a b c. rk_less R a b \<longrightarrow> rk_less R a c \<or> rk_less R c b)"

lemma score_order: "linear_floats R \<Longrightarrow> row_order (score_before R)"
proof
  fix x y z :: "'a memory_hit \<times> 'a"
  assume lin: "linear_floats R"
  then have asym: "\<And>a b. rk_less R a b \<Longrightarrow> \<not> rk_less R b a"
    and neg: "\<And>a b c. rk_less R a b \<Longrightarrow> rk_less R a c \<or> rk_less R c b"
    unfolding linear_floats_def by blast+
  show "score_before R x y \<or> score_before R y x"
    using linear[of "hit_id (fst x)" "hit_id (fst y)"] by (auto simp: score_before_def)
  show "score_before R x z" if xy: "score_before R x y" and yz: "score_before R y z"
  proof (cases "rk_less R (snd z) (snd x)")
    case True
    then show ?thesis by (simp add: score_before_def)
  next
    case False
    have nzx: "\<not> rk_less R (snd z) (snd x)" by (rule False)
    have "\<not> rk_less R (snd y) (snd x)"
    proof
      assume "rk_less R (snd y) (snd x)"
      then have "rk_less R (snd y) (snd z) \<or> rk_less R (snd z) (snd x)" by (rule neg)
      then have "rk_less R (snd y) (snd z)" using nzx by blast
      then show False using yz asym by (auto simp: score_before_def)
    qed
    then have x: "\<not> rk_less R (snd x) (snd y)" "hit_id (fst x) \<le> hit_id (fst y)" using xy by (auto simp: score_before_def)
    have "\<not> rk_less R (snd z) (snd y)"
    proof
      assume "rk_less R (snd z) (snd y)"
      then have "rk_less R (snd z) (snd x) \<or> rk_less R (snd x) (snd y)" by (rule neg)
      then show False using nzx x(1) by blast
    qed
    then have y: "\<not> rk_less R (snd y) (snd z)" "hit_id (fst y) \<le> hit_id (fst z)" using yz by (auto simp: score_before_def)
    have "\<not> rk_less R (snd x) (snd z)" using neg[of "snd x" "snd z" "snd y"] x(1) y(1) by blast
    moreover have "hit_id (fst x) \<le> hit_id (fst z)" using x(2) y(2) by (rule order_trans)
    ultimately show ?thesis by (simp add: score_before_def)
  qed
qed

lemma signal_order: "linear_floats R \<Longrightarrow> row_order (signal_before R)"
  using row_order.total[OF score_order] row_order.trans[OF score_order]
  unfolding row_order_def signal_before_def by blast

lemma hit_id_with_score [simp]: "hit_id (with_score h s) = hit_id h"
  by (simp add: with_score_def)

lemma hit_key_with_score [simp]: "hit_key (with_score h s) = hit_key h"
  by (simp add: with_score_def)

lemma hit_content_with_score [simp]: "hit_content (with_score h s) = hit_content h"
  by (simp add: with_score_def)

lemma hit_visibility_with_score [simp]: "hit_visibility (with_score h s) = hit_visibility h"
  by (simp add: with_score_def)

lemma with_score_twice [simp]: "with_score (with_score h s) t = with_score h t"
  by (simp add: with_score_def)

lemma final_sort_sorted:
  "linear_floats R \<Longrightarrow> sorted_wrt (signal_before R) (final_sort R cands scores)"
proof -
  assume "linear_floats R"
  then have "sorted_wrt (score_before R) (order_by (score_before R) (zip cands scores))"
    by (rule row_order.order_by_sorted[OF score_order])
  then show ?thesis
    unfolding final_sort_def sorted_wrt_map
    by (rule sorted_wrt_mono_rel[rotated]) (auto simp: signal_before_def with_score_def score_before_def)
qed

text \<open>The candidates behind a result: everything but the score.\<close>

definition bare :: "'f \<Rightarrow> 'f memory_hit \<Rightarrow> 'f memory_hit" where
  "bare z h = with_score h z"

lemma final_sort_mset:
  assumes "length scores = length cands"
  shows "mset (map (bare z) (final_sort R cands scores)) = mset (map (bare z) cands)"
proof -
  have "mset (map (bare z) (final_sort R cands scores)) = image_mset (\<lambda>p. bare z (fst p)) (mset (zip cands scores))"
    by (simp add: final_sort_def image_mset.compositionality comp_def case_prod_beta bare_def)
  also have "\<dots> = image_mset (bare z) (mset (map fst (zip cands scores)))"
    by (simp add: image_mset.compositionality comp_def)
  also have "map fst (zip cands scores) = cands" using assms by simp
  finally show ?thesis by simp
qed

lemma mset_subseq: "subseq xs ys \<Longrightarrow> mset xs \<subseteq># mset ys"
proof (induction rule: list_emb.induct)
  case (list_emb_Cons xs ys y)
  have "mset ys \<subseteq># mset (y # ys)" by simp
  with list_emb_Cons.IH show ?case by (rule subset_mset.order_trans)
qed simp_all

lemma sorted_wrt_subseq: "subseq xs ys \<Longrightarrow> sorted_wrt le ys \<Longrightarrow> sorted_wrt le xs"
proof (induction rule: list_emb.induct)
  case (list_emb_Cons2 x y xs ys)
  then show ?case using list_emb_set[of "(=)" xs ys] by fastforce
qed simp_all

subsection \<open>Reference chains\<close>

definition chained :: "'f memory_hit \<Rightarrow> string \<Rightarrow> bool" where
  "chained h k \<longleftrightarrow> is_reference (hit_content h) \<and> ref_key (hit_content h) = k \<and> k \<noteq> []"

lemma keep_references_subseq: "subseq (keep_references seen hits) hits"
  by (induction seen hits rule: keep_references.induct) auto

lemma keep_references_dropped:
  "h \<in> set hits \<Longrightarrow> h \<notin> set (keep_references seen hits) \<Longrightarrow>
     \<exists>k. chained h k \<and> (k \<in> seen \<or> (\<exists>h' \<in> set (keep_references seen hits). chained h' k))"
proof (induction seen hits rule: keep_references.induct)
  case (2 seen x xs)
  let ?k = "ref_key (hit_content x)"
  show ?case
  proof (cases "is_reference (hit_content x) \<and> ?k \<noteq> []")
    case True
    show ?thesis
    proof (cases "?k \<in> seen")
      case True2: True
      then show ?thesis using 2 True by (cases "h = x") (auto simp: chained_def)
    next
      case False
      then have "h \<in> set xs" "h \<notin> set (keep_references (insert ?k seen) xs)" using "2.prems" True by auto
      from "2.IH"(2)[OF True False this] obtain k where k: "chained h k"
        "k \<in> insert ?k seen \<or> (\<exists>h' \<in> set (keep_references (insert ?k seen) xs). chained h' k)" by blast
      moreover have "chained x ?k" using True by (simp add: chained_def)
      ultimately show ?thesis using True False by auto
    qed
  next
    case False
    then have "h \<in> set xs" "h \<notin> set (keep_references seen xs)" using "2.prems" by auto
    from "2.IH"(3)[OF False this] show ?thesis using False by auto
  qed
qed simp

lemma dedup_subseq: "subseq (dedup_context_chains R hits) (order_by (signal_before R) hits)"
  using keep_references_subseq by (auto simp: dedup_context_chains_def order_by_def)

lemma dedup_mset: "mset (dedup_context_chains R hits) \<subseteq># mset hits"
  using mset_subseq[OF dedup_subseq[of R hits]] by simp

lemma dedup_dropped:
  "h \<in> set hits \<Longrightarrow> h \<notin> set (dedup_context_chains R hits) \<Longrightarrow>
     \<exists>k. chained h k \<and> (\<exists>h' \<in> set (dedup_context_chains R hits). chained h' k)"
  using keep_references_dropped[of h "order_by (signal_before R) hits" "{}"]
  by (auto simp: dedup_context_chains_def split: if_splits)


lemma dedup_sorted: "linear_floats R \<Longrightarrow> sorted_wrt (signal_before R) (dedup_context_chains R hits)"
  by (rule sorted_wrt_subseq[OF dedup_subseq]) (rule row_order.order_by_sorted[OF signal_order])

subsection \<open>Episode diversity\<close>

definition of_episode :: "'f memory_hit list \<Rightarrow> string \<Rightarrow> nat" where
  "of_episode hits e = length (filter (\<lambda>h. episode_key h = e) hits)"

lemma of_episode_snoc [simp]: "of_episode (xs @ [h]) e = of_episode xs e + (if episode_key h = e then 1 else 0)"
  by (simp add: of_episode_def)

lemma diversity_loop:
  assumes "fold (place_episode cap) hits (counts, front, overflow) = (counts', front', overflow')"
    and "counts = of_episode front" "\<forall>e. of_episode front e \<le> cap" "\<forall>h \<in> set overflow. of_episode front (episode_key h) = cap"
  shows "counts' = of_episode front' \<and> (\<forall>e. of_episode front' e \<le> cap) \<and>
    (\<forall>h \<in> set overflow'. of_episode front' (episode_key h) = cap) \<and>
    (\<exists>xs ys. front' = front @ xs \<and> overflow' = overflow @ ys \<and> subseq xs hits \<and> subseq ys hits \<and>
       mset xs + mset ys = mset hits)"
  using assms
proof (induction hits arbitrary: counts front overflow)
  case (Cons h hits)
  show ?case
  proof (cases "counts (episode_key h) < cap")
    case True
    let ?f = "front @ [h]"
    have run: "fold (place_episode cap) hits (counts(episode_key h := counts (episode_key h) + 1), ?f, overflow) = (counts', front', overflow')"
      using Cons.prems(1) True by simp
    have c: "counts(episode_key h := counts (episode_key h) + 1) = of_episode ?f"
      using Cons.prems(2) by (auto simp: fun_eq_iff)
    have le: "\<forall>e. of_episode ?f e \<le> cap" using Cons.prems(2,3) True by auto
    have "\<forall>x \<in> set overflow. of_episode ?f (episode_key x) = cap"
    proof
      fix x assume "x \<in> set overflow"
      then have "of_episode front (episode_key x) = cap" using Cons.prems(4) by blast
      moreover have "episode_key x \<noteq> episode_key h"
        using calculation True Cons.prems(2) by auto
      ultimately show "of_episode ?f (episode_key x) = cap" by simp
    qed
    from Cons.IH[OF run c le this] obtain xs ys where
      "counts' = of_episode front'" "\<forall>e. of_episode front' e \<le> cap" "\<forall>h \<in> set overflow'. of_episode front' (episode_key h) = cap"
      "front' = ?f @ xs" "overflow' = overflow @ ys" "subseq xs hits" "subseq ys hits" "mset xs + mset ys = mset hits" by blast
    then show ?thesis by (intro conjI exI[of _ "h # xs"] exI[of _ ys]) auto
  next
    case False
    have run: "fold (place_episode cap) hits (counts, front, overflow @ [h]) = (counts', front', overflow')"
      using Cons.prems(1) False by simp
    have "\<forall>x \<in> set (overflow @ [h]). of_episode front (episode_key x) = cap"
      using Cons.prems(2-4) False by (auto simp: le_antisym not_less)
    from Cons.IH[OF run Cons.prems(2,3) this] obtain xs ys where
      "counts' = of_episode front'" "\<forall>e. of_episode front' e \<le> cap" "\<forall>h \<in> set overflow'. of_episode front' (episode_key h) = cap"
      "front' = front @ xs" "overflow' = (overflow @ [h]) @ ys" "subseq xs hits" "subseq ys hits" "mset xs + mset ys = mset hits" by blast
    then show ?thesis by (intro conjI exI[of _ xs] exI[of _ "h # ys"]) auto
  qed
qed simp

lemma diversity_split:
  assumes "0 < cap"
  obtains front overflow where "apply_episode_diversity cap hits = front @ overflow" "subseq front hits" "subseq overflow hits"
    "mset front + mset overflow = mset hits" "\<forall>e. of_episode front e \<le> cap"
    "\<forall>h \<in> set overflow. of_episode front (episode_key h) = cap"
proof -
  obtain c front overflow where run: "fold (place_episode cap) hits ((\<lambda>e. 0), [], []) = (c, front, overflow)"
    by (cases "fold (place_episode cap) hits ((\<lambda>e. 0), [], [])") auto
  have "(\<lambda>e. 0) = of_episode ([] :: 'a memory_hit list)" "\<forall>e. of_episode ([] :: 'a memory_hit list) e \<le> cap"
    "\<forall>h \<in> set ([] :: 'a memory_hit list). of_episode ([] :: 'a memory_hit list) (episode_key h) = cap"
    by (simp_all add: of_episode_def fun_eq_iff)
  from diversity_loop[OF run this] obtain xs ys where loop: "\<forall>e. of_episode front e \<le> cap"
    "\<forall>h \<in> set overflow. of_episode front (episode_key h) = cap" "front = [] @ xs" "overflow = [] @ ys"
    "subseq xs hits" "subseq ys hits" "mset xs + mset ys = mset hits" by blast
  have "apply_episode_diversity cap hits = front @ overflow"
    using run assms by (auto simp: apply_episode_diversity_def)
  then show ?thesis using loop by (intro that[of front overflow]) simp_all
qed

lemma diversity_mset [simp]: "mset (apply_episode_diversity cap hits) = mset hits"
proof (cases "cap = 0")
  case False
  then have "0 < cap" by simp
  then obtain front overflow where "apply_episode_diversity cap hits = front @ overflow" "subseq front hits" "subseq overflow hits"
    "mset front + mset overflow = mset hits" "\<forall>e. of_episode front e \<le> cap"
    "\<forall>h \<in> set overflow. of_episode front (episode_key h) = cap" by (rule diversity_split[of cap hits])
  then show ?thesis by simp
qed (simp add: apply_episode_diversity_def)

subsection \<open>The scores of the pipeline\<close>

lemma length_pass [simp]: "length (pass on g cands scores) = (if on then min (length cands) (length scores) else length scores)"
  by (simp add: pass_def)

lemma length_all_some: "all_some xs = Some ys \<Longrightarrow> length ys = length xs"
  by (induction xs arbitrary: ys) (auto split: option.splits)

lemma all_some_returns: "(\<And>x. x \<in> set xs \<Longrightarrow> x \<noteq> None) \<Longrightarrow> \<exists>ys. all_some xs = Some ys"
  by (induction xs) (auto split: option.splits)

lemma length_boost_wing [simp]: "length (boost_wing R b hits w scores) = length scores"
  by (simp add: boost_wing_def Let_def)

lemma length_fold: "(\<And>x s. length (g x s) = length s) \<Longrightarrow> length (fold g xs s) = length s"
  by (induction xs arbitrary: s) simp_all

lemma length_boost_wings [simp]: "length (boost_wings R b entries hits scores) = length scores"
  by (simp add: boost_wings_def length_fold)

lemma length_add_channel [simp]: "length (add_channel R cands vals w f) = length f"
  unfolding add_channel_def Let_def by (auto intro!: length_fold split: prod.splits)

lemma length_ambient: "ambient_pass R cfg c cands s = Some s' \<Longrightarrow> length s = length cands \<Longrightarrow> length s' = length cands"
  by (auto simp: ambient_pass_def split: if_splits dest: length_all_some)

lemma length_proximity: "proximity_pass R cfg q cands s = Some s' \<Longrightarrow> length s = length cands \<Longrightarrow> length s' = length cands"
  by (auto simp: proximity_pass_def split: if_splits dest: length_all_some)

lemma length_composite:
  assumes "composite_scores R entries cfg c co q cands = Some s"
  shows "length s = length cands"
proof -
  obtain s2 where a: "ambient_pass R cfg c cands (pass (rr_apply_signal_score cfg)
        (\<lambda>h s. blend R (rk_clamp R (rk_lit R 0) (rk_lit R 1) (rr_signal_score_weight cfg)) s (hit_signal_score h)) cands
        (map (fts_position R (length cands)) [0..<length cands])) = Some s2"
    using assms by (auto simp: composite_scores_def Let_def bind_eq_Some_conv)
  then have l2: "length s2 = length cands" by (rule length_ambient) simp
  obtain s5 s6 where "proximity_pass R cfg q cands s5 = Some s6" "length s5 = length s2"
    "length s = length s6"
    using assms a l2 unfolding composite_scores_def Let_def by (auto simp: bind_eq_Some_conv)
  then show ?thesis using length_proximity l2 by metis
qed


definition finish :: "'f rank_env \<Rightarrow> 'f reranking_config \<Rightarrow> 'f memory_hit list \<Rightarrow> 'f memory_hit list" where
  "finish R cfg ranked =
     (if rr_use_rrf cfg then if rr_apply_context_dedup cfg then dedup_context_chains R ranked else ranked
      else after_sort R cfg ranked)"

lemma length_rrf_scores [simp]: "length (rrf_scores R cands cfg c near) = length cands"
  by (cases near) (simp_all add: rrf_scores_def Let_def)

lemma length_rrf:
  assumes "rrf_fuse R cands cfg c q = Some out"
  obtains f where "length f = length cands" "out = (if rr_apply_context_dedup cfg then dedup_context_chains R (final_sort R cands f) else final_sort R cands f)"
proof -
  obtain near where "out = (let o1 = final_sort R cands (rrf_scores R cands cfg c near)
      in if rr_apply_context_dedup cfg then dedup_context_chains R o1 else o1)"
    using assms by (auto simp: rrf_fuse_def)
  then show ?thesis using that[of "rrf_scores R cands cfg c near"] by (simp add: Let_def)
qed

lemma pipeline_shape:
  assumes "apply_reranking_pipeline_with_query R entries cfg c co q cands = Some out" "cands \<noteq> []"
  obtains scores where "length scores = length cands" "out = finish R cfg (final_sort R cands scores)"
proof (cases "rr_use_rrf cfg")
  case True
  then have "rrf_fuse R cands cfg c q = Some out" using assms by (simp add: apply_reranking_pipeline_with_query_def)
  then obtain f where "length f = length cands"
    "out = (if rr_apply_context_dedup cfg then dedup_context_chains R (final_sort R cands f) else final_sort R cands f)"
    by (rule length_rrf)
  then show ?thesis using that[of f] True by (simp add: finish_def)
next
  case False
  then obtain s where "composite_scores R entries cfg c co q cands = Some s" "out = after_sort R cfg (final_sort R cands s)"
    using assms by (auto simp: apply_reranking_pipeline_with_query_def)
  then show ?thesis using that[of s] False length_composite[of R entries cfg c co q cands s] by (simp add: finish_def)
qed

lemma finish_mset: "mset (finish R cfg xs) \<subseteq># mset xs"
  using dedup_mset by (auto simp: finish_def after_sort_def Let_def)

lemma finish_dropped:
  assumes "h \<in> set xs" "h \<notin> set (finish R cfg xs)"
  shows "rr_apply_context_dedup cfg \<and> (\<exists>k. chained h k \<and> (\<exists>h' \<in> set (finish R cfg xs). chained h' k))"
proof -
  have "set (finish R cfg xs) = (if rr_apply_context_dedup cfg then set (dedup_context_chains R xs) else set xs)"
    by (simp add: finish_def after_sort_def Let_def flip: set_mset_mset)
  then show ?thesis using assms dedup_dropped[of h xs R] by (auto split: if_splits)
qed

lemma chained_bare [simp]: "chained (bare z h) k = chained h k"
  by (simp add: chained_def bare_def)

lemma rerank_mset:
  assumes "apply_reranking_pipeline_with_query R entries cfg c co q cands = Some out"
  shows "mset (map (bare z) out) \<subseteq># mset (map (bare z) cands)"
proof (cases "cands = []")
  case True
  then show ?thesis using assms by (simp add: apply_reranking_pipeline_with_query_def)
next
  case False
  obtain scores where len: "length scores = length cands" and out: "out = finish R cfg (final_sort R cands scores)"
    by (rule pipeline_shape[OF assms False])
  have "image_mset (bare z) (mset out) \<subseteq># image_mset (bare z) (mset (final_sort R cands scores))"
    unfolding out by (rule image_mset_subseteq_mono) (rule finish_mset)
  then show ?thesis using final_sort_mset[OF len, of z R] by simp
qed

lemma rerank_from:
  assumes "apply_reranking_pipeline_with_query R entries cfg c co q cands = Some out" "h \<in> set out"
  shows "\<exists>x \<in> set cands. h = with_score x (hit_signal_score h)"
proof -
  have "set_mset (mset (map (bare z) out)) \<subseteq> set_mset (mset (map (bare z) cands))" for z
    by (rule set_mset_mono) (rule rerank_mset[OF assms(1)])
  then have "bare (hit_signal_score h) h \<in> bare (hit_signal_score h) ` set cands" using assms(2) by auto
  then obtain x where "x \<in> set cands" "bare (hit_signal_score h) h = bare (hit_signal_score h) x" by auto
  then show ?thesis by (intro bexI[of _ x]) (simp_all add: bare_def with_score_def)
qed

lemma distinct_below:
  assumes "mset xs \<subseteq># mset ys" "distinct ys"
  shows "distinct xs"
proof -
  obtain C where "mset ys = mset xs + C" using assms(1) by (auto simp: mset_subset_eq_exists_conv)
  moreover obtain zs where "C = mset zs" using ex_mset[of C] by auto
  ultimately have "mset ys = mset (xs @ zs)" by simp
  then have "distinct (xs @ zs)" using assms(2) mset_eq_imp_distinct_iff by blast
  then show ?thesis by simp
qed

lemma rerank_distinct:
  assumes "apply_reranking_pipeline_with_query R entries cfg c co q cands = Some out"
    and "\<And>h s. g (with_score h s) = g h" "distinct (map g cands)"
  shows "distinct (map g out)"
proof -
  fix z
  have "image_mset g (mset (map (bare z) out)) \<subseteq># image_mset g (mset (map (bare z) cands))"
    by (rule image_mset_subseteq_mono) (rule rerank_mset[OF assms(1)])
  then have "mset (map g out) \<subseteq># mset (map g cands)"
    by (simp add: image_mset.compositionality comp_def bare_def assms(2))
  then show ?thesis using assms(3) by (rule distinct_below)
qed

lemma rerank_length:
  "apply_reranking_pipeline_with_query R entries cfg c co q cands = Some out \<Longrightarrow> length out \<le> length cands"
  using size_mset_mono[OF rerank_mset[of R entries cfg c co q cands out "rk_lit R 0"]] by simp

text \<open>
  Re-ranking loses no answer: what it returns are candidates with new scores, none twice, and a
  candidate that is missing is a reference chain whose target another returned reference chain names.
  This holds of both compositions and of every configuration.
\<close>

theorem rerank_accounts:
  assumes "apply_reranking_pipeline_with_query R entries cfg c co q cands = Some out"
  shows "mset (map (bare z) out) \<subseteq># mset (map (bare z) cands) \<and>
    (\<forall>h \<in> set cands. bare z h \<notin> bare z ` set out \<longrightarrow>
       rr_apply_context_dedup cfg \<and> (\<exists>k. chained h k \<and> (\<exists>h' \<in> set out. chained h' k)))"
proof (cases "cands = []")
  case True
  then show ?thesis using assms by (simp add: apply_reranking_pipeline_with_query_def)
next
  case False
  obtain scores where len: "length scores = length cands" and out: "out = finish R cfg (final_sort R cands scores)"
    by (rule pipeline_shape[OF assms False])
  let ?sorted = "final_sort R cands scores"
  note sorted = final_sort_mset[OF len, of z R]
  have "mset (map (bare z) out) \<subseteq># mset (map (bare z) cands)" by (rule rerank_mset[OF assms])
  moreover have "rr_apply_context_dedup cfg \<and> (\<exists>k. chained h k \<and> (\<exists>h' \<in> set out. chained h' k))"
    if h: "h \<in> set cands" "bare z h \<notin> bare z ` set out" for h
  proof -
    have "bare z h \<in> bare z ` set ?sorted"
      using h(1) arg_cong[OF sorted, of set_mset] by simp
    then obtain s where s: "s \<in> set ?sorted" "bare z h = bare z s" by auto
    then have "s \<notin> set out" using h(2) by auto
    then have "rr_apply_context_dedup cfg \<and> (\<exists>k. chained s k \<and> (\<exists>h' \<in> set out. chained h' k))"
      using finish_dropped[OF s(1)] unfolding out by blast
    moreover have "chained s k = chained h k" for k using chained_bare s(2) by metis
    ultimately show ?thesis by simp
  qed
  ultimately show ?thesis by blast
qed

text \<open>Where the diversity step does not run, the configuration without it gives the same list.\<close>

lemma diversity_without_effect:
  assumes "rr_use_rrf cfg \<or> rr_max_per_episode cfg = 0"
  shows "apply_reranking_pipeline_with_query R entries (cfg\<lparr>rr_apply_episode_diversity := False\<rparr>) c co q cands =
    apply_reranking_pipeline_with_query R entries cfg c co q cands"
proof (cases "rr_use_rrf cfg")
  case True
  have "rrf_scores R cands (cfg\<lparr>rr_apply_episode_diversity := False\<rparr>) c near = rrf_scores R cands cfg c near" for near
    by (cases near) (simp_all add: rrf_scores_def Let_def)
  with True show ?thesis by (simp add: apply_reranking_pipeline_with_query_def rrf_fuse_def)
next
  case False
  have "composite_scores R entries (cfg\<lparr>rr_apply_episode_diversity := False\<rparr>) c co q cands = composite_scores R entries cfg c co q cands"
    by (simp add: composite_scores_def ambient_pass_def proximity_pass_def Let_def cong: option.case_cong if_cong)
  moreover have "after_sort R (cfg\<lparr>rr_apply_episode_diversity := False\<rparr>) hits = after_sort R cfg hits" for hits
    using assms False by (simp add: after_sort_def apply_episode_diversity_def Let_def)
  ultimately show ?thesis using False by (simp add: apply_reranking_pipeline_with_query_def)
qed

text \<open>
  C8: With episode diversity on and scores that are comparable (no NaN), the additive pipeline returns the
  diversified order when the cap is positive: a front with at most the allowed number of memories of each
  episode, best first, then the overflow, best first, which holds only memories of episodes that
  are full in the front. The option has no effect, and the list is the one without it, when the cap is 0 and
  when reciprocal rank fusion composes the scores, which never diversifies.
\<close>

theorem rerank_diversified:
  assumes "linear_floats R" and "rr_apply_episode_diversity cfg"
    and "apply_reranking_pipeline_with_query R entries cfg c co q cands = Some out"
  shows "if rr_use_rrf cfg \<or> rr_max_per_episode cfg = 0
    then apply_reranking_pipeline_with_query R entries (cfg\<lparr>rr_apply_episode_diversity := False\<rparr>) c co q cands = Some out
    else \<exists>front overflow. out = front @ overflow \<and>
      sorted_wrt (signal_before R) front \<and> sorted_wrt (signal_before R) overflow \<and>
      (\<forall>e. of_episode front e \<le> rr_max_per_episode cfg) \<and>
      (\<forall>h \<in> set overflow. of_episode front (episode_key h) = rr_max_per_episode cfg)"
proof (cases "rr_use_rrf cfg \<or> rr_max_per_episode cfg = 0")
  case True
  then show ?thesis using diversity_without_effect[OF True] assms(3) by simp
next
  case active: False
  then have cap: "0 < rr_max_per_episode cfg" by simp
  have "\<exists>front overflow. out = front @ overflow \<and>
      sorted_wrt (signal_before R) front \<and> sorted_wrt (signal_before R) overflow \<and>
      (\<forall>e. of_episode front e \<le> rr_max_per_episode cfg) \<and>
      (\<forall>h \<in> set overflow. of_episode front (episode_key h) = rr_max_per_episode cfg)"
  proof (cases "cands = []")
    case True
    then have "out = []" using assms(3) by (simp add: apply_reranking_pipeline_with_query_def)
    then show ?thesis by (intro exI[of _ "[]"]) (simp add: of_episode_def)
  next
    case False
    obtain scores where out: "out = finish R cfg (final_sort R cands scores)"
      by (rule pipeline_shape[OF assms(3) False])
    let ?ranked = "if rr_apply_context_dedup cfg then dedup_context_chains R (final_sort R cands scores) else final_sort R cands scores"
    have sorted: "sorted_wrt (signal_before R) ?ranked"
      using dedup_sorted[OF assms(1)] final_sort_sorted[OF assms(1)] by simp
    have "out = apply_episode_diversity (rr_max_per_episode cfg) ?ranked"
      using assms(2) active unfolding out finish_def after_sort_def Let_def by simp
    moreover obtain front overflow where "apply_episode_diversity (rr_max_per_episode cfg) ?ranked = front @ overflow"
      "subseq front ?ranked" "subseq overflow ?ranked" "mset front + mset overflow = mset ?ranked"
      "\<forall>e. of_episode front e \<le> rr_max_per_episode cfg"
      "\<forall>h \<in> set overflow. of_episode front (episode_key h) = rr_max_per_episode cfg"
      by (rule diversity_split[OF cap])
    ultimately show ?thesis using sorted_wrt_subseq[OF _ sorted] by blast
  qed
  then show ?thesis using active by simp
qed

lemma pipeline_returns:
  assumes "rr_apply_ambient_boost cfg \<longrightarrow> rk_leq R (aw_clamp_min (rr_ambient_weights cfg)) (aw_clamp_max (rr_ambient_weights cfg))"
  shows "\<exists>out. apply_reranking_pipeline_with_query R entries cfg c co q cands = Some out"
proof -
  have near: "\<exists>ys. all_some (map (\<lambda>h. proximity_score R (hit_content h) q) cands) = Some ys"
    by (rule all_some_returns) (auto simp: proximity_score_returns)
  have ambient: "\<exists>s'. ambient_pass R cfg c cands s = Some s'" for s
  proof (cases "rr_apply_ambient_boost cfg")
    case True
    have "\<exists>ys. all_some (map (ambient_boost_with R (rr_ambient_weights cfg) c) cands) = Some ys"
      by (rule all_some_returns) (use assms True in \<open>auto simp: ambient_boost_with_def Let_def\<close>)
    then show ?thesis using True by (auto simp: ambient_pass_def)
  qed (simp add: ambient_pass_def)
  have prox: "\<exists>s'. proximity_pass R cfg q cands s = Some s'" for s
    using near by (auto simp: proximity_pass_def)
  have "\<exists>s. composite_scores R entries cfg c co q cands = Some s"
  proof -
    obtain s2 where s2: "ambient_pass R cfg c cands (pass (rr_apply_signal_score cfg)
        (\<lambda>h s. blend R (rk_clamp R (rk_lit R 0) (rk_lit R 1) (rr_signal_score_weight cfg)) s (hit_signal_score h)) cands
        (map (fts_position R (length cands)) [0..<length cands])) = Some s2" using ambient by blast
    have "composite_scores R entries cfg c co q cands \<noteq> None"
      unfolding composite_scores_def Let_def s2 using prox by (simp add: option.map_disc_iff) 
    then show ?thesis by blast
  qed
  moreover have "\<exists>out. rrf_fuse R cands cfg c q = Some out"
    using near by (auto simp: rrf_fuse_def Let_def)
  ultimately show ?thesis by (auto simp: apply_reranking_pipeline_with_query_def)
qed


text \<open>
  The pipeline always returns when the ambient weights have ordered clamp bounds (or the ambient
  boost is off, or reciprocal rank fusion replaces it): no other step of the model can panic (its sort of the
  scores returns for every comparison, that of the code may panic on a NaN).
\<close>

theorem rerank_returns:
  assumes "rr_apply_ambient_boost cfg \<longrightarrow> rk_leq R (aw_clamp_min (rr_ambient_weights cfg)) (aw_clamp_max (rr_ambient_weights cfg))"
  shows "\<exists>out. apply_reranking_pipeline_with_query R entries cfg c co q cands = Some out"
  by (rule pipeline_returns[OF assms])

subsection \<open>Hash map order\<close>

lemma wing_member_of: "i \<in> set (wing_members hits w) \<Longrightarrow> wing_of_hit (hits ! i) = Some w \<and> i < length hits"
  by (auto simp: wing_members_def)

lemma top_index_member: "is \<noteq> [] \<Longrightarrow> top_index R scores is \<in> set is"
proof -
  have "fold (\<lambda>i top. if rk_less R (scores ! i) (scores ! top) then top else i) js t \<in> insert t (set js)" for js t
    by (induction js arbitrary: t) auto
  then show "is \<noteq> [] \<Longrightarrow> top_index R scores is \<in> set is"
    unfolding top_index_def by (cases "is") auto
qed

lemma top_index_cong:
  assumes "\<And>i. i \<in> set is \<Longrightarrow> scores ! i = scores' ! i"
  shows "top_index R scores is = top_index R scores' is"
proof (cases "is")
  case (Cons j js)
  have "fold (\<lambda>i top. if rk_less R (scores ! i) (scores ! top) then top else i) ks t =
        fold (\<lambda>i top. if rk_less R (scores' ! i) (scores' ! top) then top else i) ks t"
    if "set ks \<subseteq> set is" "t \<in> set is" for ks t
    using that by (induction ks arbitrary: t) (simp_all add: assms)
  from this[of js j] Cons show ?thesis by (auto simp: top_index_def)
qed (simp add: top_index_def)

lemma boost_wing_small: "length (wing_members hits w) < 2 \<Longrightarrow> boost_wing R b hits w s = s"
  by (simp add: boost_wing_def Let_def)

lemma boost_wing_commute:
  assumes "w \<noteq> v"
  shows "boost_wing R b hits w (boost_wing R b hits v s) = boost_wing R b hits v (boost_wing R b hits w s)"
proof -
  let ?W = "wing_members hits w" and ?V = "wing_members hits v"
  have disj: "i \<noteq> j" if "i \<in> set ?W" "j \<in> set ?V" for i j
    using wing_member_of[OF that(1)] wing_member_of[OF that(2)] assms by auto
  have w: "top_index R (s[j := x]) ?W = top_index R s ?W" if "j \<in> set ?V" for j x
    by (rule top_index_cong, rule nth_list_update_neq) (use disj that in blast)
  have v: "top_index R (s[j := x]) ?V = top_index R s ?V" if "j \<in> set ?W" for j x
    by (rule top_index_cong, rule nth_list_update_neq) (use disj that in blast)
  show ?thesis
  proof (cases "length ?W < 2 \<or> length ?V < 2")
    case True
    then show ?thesis by (auto simp: boost_wing_small)
  next
    case False
    then have tw: "top_index R s ?W \<in> set ?W" and tv: "top_index R s ?V \<in> set ?V"
      by (auto intro!: top_index_member)
    have ne: "top_index R s ?W \<noteq> top_index R s ?V" using disj[OF tw tv] .
    show ?thesis
      using False ne w[OF tv] v[OF tw] by (simp add: boost_wing_def Let_def list_update_swap)
  qed
qed

text \<open>
  The entity boost does not depend on the order in which the hash map yields the wings: whatever
  the order, the scores are the same.
\<close>

theorem entity_boost_order_free:
  assumes "mset (entries (wing_names hits)) = mset (wing_names hits)"
    and "mset (entries' (wing_names hits)) = mset (wing_names hits)"
  shows "boost_wings R b entries hits scores = boost_wings R b entries' hits scores"
proof -
  have "boost_wing R b hits w \<circ> boost_wing R b hits v = boost_wing R b hits v \<circ> boost_wing R b hits w" for w v
    by (cases "w = v") (simp_all add: fun_eq_iff boost_wing_commute)
  then have "fold (boost_wing R b hits) (entries (wing_names hits)) = fold (boost_wing R b hits) (entries' (wing_names hits))"
    using assms by (intro fold_multiset_equiv) simp_all
  then show ?thesis by (simp add: boost_wings_def)
qed

subsection \<open>Questions count as statements\<close>

lemma split_at_not_Nil [simp]: "split_at P s \<noteq> []"
  by (induction s) (auto split: list.splits)

lemma split_at_boundary: "P c \<Longrightarrow> split_at P (a @ c # b) = split_at P a @ split_at P b"
proof (induction a)
  case (Cons x a)
  then show ?case by (cases "split_at P a") auto
qed simp

text \<open>
  The declarative density cannot tell a question from a statement: replacing any full stop by a
  question mark leaves the density as it is, because the text is split at the mark that the later
  test looks for.
\<close>

theorem density_counts_questions:
  "declarative_density R (a @ ''?'' @ b) = declarative_density R (a @ ''.'' @ b)"
proof -
  have "split_at sentence_end (a @ CHR ''?'' # b) = split_at sentence_end (a @ CHR ''.'' # b)"
    by (simp add: split_at_boundary sentence_end_def)
  then show ?thesis by (simp add: declarative_density_def)
qed


subsection \<open>Concrete runs\<close>

text \<open>Rational numbers for floats; words are what blanks separate.\<close>

definition blank_words :: "string \<Rightarrow> string list" where
  "blank_words s = filter (\<lambda>w. w \<noteq> []) (split_at (\<lambda>c. c = CHR '' '') s)"

definition toy_rank :: "rat rank_env" where
  "toy_rank =
     \<lparr>rk_lit = (\<lambda>x. x), rk_of_int = of_int, rk_add = (+), rk_sub = (-), rk_mul = (*), rk_div = (/),
      rk_less = (<), rk_leq = (\<le>), rk_half_pow = (\<lambda>x. 1 / (1 + x)), rk_lower = (\<lambda>s. s), rk_words = blank_words,
      rk_pieces = (\<lambda>extra. blank_words), rk_sql_time = (\<lambda>s. None), rk_rfc_time = (\<lambda>s. None)\<rparr>"

lemma toy_rank_linear: "linear_floats toy_rank"
  by (auto simp: linear_floats_def toy_rank_def)

definition toy_candidate :: "string \<Rightarrow> string \<Rightarrow> rat memory_hit" where
  "toy_candidate i content =
     \<lparr>hit_id = i, hit_key = ''s:'' @ i, hit_content = content, hit_wing = None, hit_hall = None, hit_signal_score = 1 / 2,
      hit_visibility = ''private'', hit_hits = 0, hit_source = None, hit_device_id = None, hit_confidence = 1,
      hit_created_at = None, hit_last_reinforced_at = None, hit_episode_id = None, hit_declarative_density = None,
      hit_description = None, hit_source_brain_id = None, hit_signature = None\<rparr>"

definition toy_candidates :: "rat memory_hit list" where
  "toy_candidates = [toy_candidate ''a'' ''[Memory context] - k: x'', toy_candidate ''b'' ''[Memory context] - k: y'', toy_candidate ''c'' ''z'']"

definition toy_config :: "rat reranking_config" where
  "toy_config = (default_reranking toy_rank)\<lparr>rr_apply_episode_diversity := True, rr_max_per_episode := 1\<rparr>"

lemma proximity_window_minimal_witness:
  "\<exists>b. smallest_window (term_hits toy_rank [''alpha'', ''beta''] ''alpha x beta alpha'')
      (length (remdups (map snd (term_hits toy_rank [''alpha'', ''beta''] ''alpha x beta alpha'')))) = Some (Some b)"
proof -
  have "term_hits toy_rank [''alpha'', ''beta''] ''alpha x beta alpha'' \<noteq> []" by code_simp
  from proximity_window_minimal[OF refl this] show ?thesis by blast
qed

lemma rerank_accounts_witness:
  "\<exists>out. apply_reranking_pipeline_with_query toy_rank (\<lambda>ws. ws) toy_config (context_empty 0) [] [] toy_candidates = Some out \<and>
     mset (map (bare 0) out) \<subseteq># mset (map (bare 0) toy_candidates)"
proof -
  have "\<exists>out. apply_reranking_pipeline_with_query toy_rank (\<lambda>ws. ws) toy_config (context_empty 0) [] [] toy_candidates = Some out"
    by (simp add: toy_config_def default_reranking_def apply_reranking_pipeline_with_query_def toy_candidates_def
        composite_scores_def Let_def ambient_pass_def proximity_pass_def)
  then obtain out where out: "apply_reranking_pipeline_with_query toy_rank (\<lambda>ws. ws) toy_config (context_empty 0) [] [] toy_candidates = Some out" ..
  from rerank_accounts[OF this, of 0] out show ?thesis by blast
qed

lemma rerank_diversified_witness:
  "\<exists>out front overflow. apply_reranking_pipeline_with_query toy_rank (\<lambda>ws. ws) toy_config (context_empty 0) [] [] toy_candidates = Some out \<and>
     out = front @ overflow \<and> (\<forall>e. of_episode front e \<le> 1)"
proof -
  have "\<exists>out. apply_reranking_pipeline_with_query toy_rank (\<lambda>ws. ws) toy_config (context_empty 0) [] [] toy_candidates = Some out"
    by (simp add: toy_config_def default_reranking_def apply_reranking_pipeline_with_query_def toy_candidates_def
        composite_scores_def Let_def ambient_pass_def proximity_pass_def)
  then obtain out where out: "apply_reranking_pipeline_with_query toy_rank (\<lambda>ws. ws) toy_config (context_empty 0) [] [] toy_candidates = Some out" ..
  have cfg: "rr_apply_episode_diversity toy_config" "\<not> rr_use_rrf toy_config" "0 < rr_max_per_episode toy_config"
    "rr_max_per_episode toy_config = 1"
    by (simp_all add: toy_config_def default_reranking_def)
  from rerank_diversified[OF toy_rank_linear cfg(1) out] cfg(2,4) out show ?thesis by auto
qed

lemma rerank_returns_witness:
  "\<exists>out. apply_reranking_pipeline_with_query toy_rank (\<lambda>ws. ws) (toy_config\<lparr>rr_apply_ambient_boost := True\<rparr>)
     (context_empty 0) [] [''x'', ''y''] toy_candidates = Some out"
  by (rule rerank_returns) (simp add: toy_config_def default_reranking_def default_ambient_def toy_rank_def)

lemma entity_boost_order_free_witness:
  "boost_wings toy_rank 1 rev (map (\<lambda>h. h\<lparr>hit_wing := Some ''w''\<rparr>) toy_candidates) [1, 2, 3] =
   boost_wings toy_rank 1 (\<lambda>ws. ws) (map (\<lambda>h. h\<lparr>hit_wing := Some ''w''\<rparr>) toy_candidates) [1, 2, 3]"
  by (rule entity_boost_order_free) simp_all

end
