(* ===== verification/Fts.thy ===== *)
theory Fts
  imports Visibility Memory_Sidecar Rerank
begin

text \<open>
  Full-text retrieval, \<open>fts_search_scoped\<close> of \<open>spectral-ingest/src/sqlite_store.rs\<close>: the two MATCH
  strings, the scoped query, and the fusion of the stemmed and the unstemmed index by reciprocal ranks.
  FTS5 is a parameter: \<open>ft_matches index query row\<close> is MATCH, \<open>ft_before index query d\<close> is
  \<open>ORDER BY bm25(..), m.id\<close> over the store \<open>d\<close>.
\<close>

datatype fts_index = Memories_Fts | Memories_Fts_Raw

record 'f fts_env =
  ft_matches :: "fts_index \<Rightarrow> string \<Rightarrow> 'f memory_row \<Rightarrow> bool"
  ft_before :: "fts_index \<Rightarrow> string \<Rightarrow> 'f db \<Rightarrow> 'f memory_row \<Rightarrow> 'f memory_row \<Rightarrow> bool"
  ft_fusion :: bool

definition MAX_FTS_TERMS :: nat where "MAX_FTS_TERMS = 64"

definition quoted :: "string \<Rightarrow> string" where
  "quoted w = [QUOTE] @ w @ [QUOTE]"

definition unquoted :: "string \<Rightarrow> string" where
  "unquoted w = filter (\<lambda>c. c \<noteq> QUOTE) w"

definition join_or :: "string list \<Rightarrow> string" where
  "join_or ws = (case ws of [] \<Rightarrow> [] | w # vs \<Rightarrow> w @ concat (map (\<lambda>v. '' OR '' @ v) vs))"

definition capped :: "string list \<Rightarrow> string list" where
  "capped query_words = filter (\<lambda>w. w \<noteq> []) (take MAX_FTS_TERMS query_words)"

definition match_query :: "string list \<Rightarrow> string" where
  "match_query query_words = join_or (map (\<lambda>w. quoted (unquoted w)) (capped query_words))"

definition ends_with :: "string \<Rightarrow> string \<Rightarrow> bool" where
  "ends_with s x \<longleftrightarrow> strip_suffix x s \<noteq> None"

text \<open>A term of the unstemmed channel brings its regular singular along.\<close>

definition term_forms :: "(string \<Rightarrow> string) \<Rightarrow> string \<Rightarrow> string list" where
  "term_forms low w =
     (let cleaned = unquoted w; lower = low cleaned
      in [quoted cleaned] @
         (if length lower > 3 \<and> ends_with lower ''s'' \<and> \<not> ends_with lower ''ss'' \<and> \<not> ends_with lower ''us'' \<and>
             \<not> ends_with lower ''is''
          then [quoted (take (length cleaned - 1) cleaned)] else []))"

definition raw_match_query :: "(string \<Rightarrow> string) \<Rightarrow> string list \<Rightarrow> string" where
  "raw_match_query low query_words = join_or (concat (map (term_forms low) (capped query_words)))"

text \<open>The WHERE clause of both queries: MATCH, not consolidated, admissible; then ORDER BY and LIMIT.\<close>

definition consolidated_key :: "'f db \<Rightarrow> string \<Rightarrow> bool" where
  "consolidated_key d k \<longleftrightarrow> (\<exists>e \<in> set (db_edges d). ce_source_key e = k)"

definition admitted_row :: "'f fts_env \<Rightarrow> visibility \<Rightarrow> 'f db \<Rightarrow> fts_index \<Rightarrow> string \<Rightarrow> 'f memory_row \<Rightarrow> bool" where
  "admitted_row T v d ix q m \<longleftrightarrow>
     ft_matches T ix q m \<and> \<not> consolidated_key d (row_key m) \<and> sql_admits v (row_visibility m)"

definition ranked_rows ::
    "'f fts_env \<Rightarrow> visibility \<Rightarrow> 'f db \<Rightarrow> fts_index \<Rightarrow> string \<Rightarrow> nat \<Rightarrow> 'f memory_row list" where
  "ranked_rows T v d ix q limit =
     take limit (order_by (ft_before T ix q d) (filter (admitted_row T v d ix q) (db_memories d)))"

subsection \<open>Fusion\<close>

definition add_rank :: "'f rank_env \<Rightarrow> nat \<times> string \<Rightarrow> (string \<rightharpoonup> 'f) \<Rightarrow> (string \<rightharpoonup> 'f)" where
  "add_rank R e m = (case e of (rank, i) \<Rightarrow>
     m(i \<mapsto> rk_add R (case m i of Some x \<Rightarrow> x | None \<Rightarrow> rk_lit R 0)
              (rk_div R (rk_lit R 1) (rk_add R (rk_lit R 60) (rk_of_nat R (rank + 1))))))"

definition id_before :: "'f rank_env \<Rightarrow> string \<times> 'f \<Rightarrow> string \<times> 'f \<Rightarrow> bool" where
  "id_before R a b \<longleftrightarrow> rk_less R (snd b) (snd a) \<or> \<not> rk_less R (snd a) (snd b) \<and> fst a \<le> fst b"

definition fused_ids :: "'f rank_env \<Rightarrow> string list \<Rightarrow> string list \<Rightarrow> (string \<times> 'f) list" where
  "fused_ids R porter raw =
     (let score = fold (add_rank R) (enumerate 0 porter @ enumerate 0 raw) (\<lambda>i. None)
      in order_by (id_before R) (List.map_filter (\<lambda>i. map_option (Pair i) (score i)) (remdups (porter @ raw))))"

definition rows_of_ids :: "'f db \<Rightarrow> string list \<Rightarrow> 'f memory_row list" where
  "rows_of_ids d ids = List.map_filter (\<lambda>i. select_first (\<lambda>m. row_id m = i) (db_memories d)) ids"

definition fts_depth :: "nat \<Rightarrow> nat" where
  "fts_depth max_results = max (max_results * 2) 50"

definition fts_search_scoped ::
    "'f rank_env \<Rightarrow> 'f fts_env \<Rightarrow> string list \<Rightarrow> nat \<Rightarrow> visibility \<Rightarrow> 'f db \<Rightarrow> 'f memory_hit list" where
  "fts_search_scoped R T query_words max_results v d =
     (let query = match_query query_words; raw_query = raw_match_query (rk_lower R) query_words
      in if query = [] then []
         else if \<not> ft_fusion T
         then map (\<lambda>m. memory_hit_from_row m 0) (ranked_rows T v d Memories_Fts query max_results)
         else
           let depth = fts_depth max_results;
               porter = map row_id (ranked_rows T v d Memories_Fts query depth);
               raw = map row_id (ranked_rows T v d Memories_Fts_Raw raw_query depth);
               fused = take max_results (fused_ids R porter raw)
           in map (\<lambda>m. memory_hit_from_row m 0) (rows_of_ids d (map fst fused)))"

definition fts_search :: "'f rank_env \<Rightarrow> 'f fts_env \<Rightarrow> string list \<Rightarrow> nat \<Rightarrow> 'f db \<Rightarrow> 'f memory_hit list" where
  "fts_search R T query_words max_results d = fts_search_scoped R T query_words max_results Private d"

subsection \<open>What a search returns\<close>

text \<open>A hit that a read serves: the projection of a stored row.\<close>

definition stored_hit :: "'f db \<Rightarrow> 'f memory_hit \<Rightarrow> bool" where
  "stored_hit d h \<longleftrightarrow> (\<exists>m \<in> set (db_memories d). \<exists>n s. h = (memory_hit_from_row m n)\<lparr>hit_signal_score := s\<rparr>)"

definition shows_to :: "visibility \<Rightarrow> 'f memory_hit \<Rightarrow> bool" where
  "shows_to v h \<longleftrightarrow> allows (str_to_vis (hit_visibility h)) v"

lemma hit_row_simps [simp]:
  "hit_id (memory_hit_from_row m n) = row_id m" "hit_key (memory_hit_from_row m n) = row_key m"
  "hit_visibility (memory_hit_from_row m n) = row_visibility m" "hit_content (memory_hit_from_row m n) = row_content m"
  "hit_wing (memory_hit_from_row m n) = row_wing m"
  by (simp_all add: memory_hit_from_row_def)

lemma stored_hit_row [simp]: "m \<in> set (db_memories d) \<Longrightarrow> stored_hit d (memory_hit_from_row m n)"
  unfolding stored_hit_def by (intro bexI[of _ m] exI[of _ n] exI[of _ "row_signal_score m"]) (simp_all add: memory_hit_from_row_def)

lemma ranked_rows_set:
  "m \<in> set (ranked_rows T v d ix q limit) \<Longrightarrow> m \<in> set (db_memories d) \<and> admitted_row T v d ix q m"
  by (auto simp: ranked_rows_def dest!: in_set_takeD)

lemma ranked_rows_all:
  "length (ranked_rows T v d ix q limit) < limit \<Longrightarrow>
     set (ranked_rows T v d ix q limit) = {m \<in> set (db_memories d). admitted_row T v d ix q m}"
  by (auto simp: ranked_rows_def)

lemma sublist_of_order_distinct:
  "distinct (map g t) \<Longrightarrow> distinct (map g (order_by le t))"
  by (metis mset_eq_imp_distinct_iff mset_map mset_order_by)

lemma ranked_rows_distinct:
  "distinct (map g (db_memories d)) \<Longrightarrow> distinct (map g (ranked_rows T v d ix q limit))"
  unfolding ranked_rows_def take_map[symmetric]
  by (rule distinct_take) (rule sublist_of_order_distinct, rule distinct_map_filter)

lemma fused_ids_map: "set (map fst (fused_ids R porter raw)) \<subseteq> set porter \<union> set raw"
  by (auto simp: fused_ids_def Let_def List.map_filter_def)

lemma add_rank_dom: "dom (fold (add_rank R) es m) = dom m \<union> snd ` set es"
  by (induction es arbitrary: m) (auto simp: add_rank_def split: prod.splits)

lemma map_filter_pair:
  "(\<And>i. i \<in> set xs \<Longrightarrow> f i \<noteq> None) \<Longrightarrow> map fst (List.map_filter (\<lambda>i. map_option (Pair i) (f i)) xs) = xs"
proof (induction xs)
  case (Cons a xs)
  then obtain y where "f a = Some y" by fastforce
  then show ?case using Cons by (simp add: List.map_filter_simps)
qed (simp add: List.map_filter_simps)

lemma scored_ids:
  "map fst (List.map_filter (\<lambda>i. map_option (Pair i)
      (fold (add_rank R) (enumerate 0 porter @ enumerate 0 raw) (\<lambda>i. None) i)) (remdups (porter @ raw))) = remdups (porter @ raw)"
proof (rule map_filter_pair)
  fix i assume "i \<in> set (remdups (porter @ raw))"
  moreover have "snd ` set (enumerate 0 xs) = set xs" for xs :: "string list"
    by (metis list.set_map map_snd_enumerate)
  ultimately have "i \<in> dom (fold (add_rank R) (enumerate 0 porter @ enumerate 0 raw) (\<lambda>i. None))"
    unfolding add_rank_dom by (simp add: image_Un)
  then show "fold (add_rank R) (enumerate 0 porter @ enumerate 0 raw) (\<lambda>i. None) i \<noteq> None" by auto
qed

lemma fused_ids_set: "set (map fst (fused_ids R porter raw)) = set porter \<union> set raw"
  using arg_cong[OF scored_ids[of R porter raw], of set] by (simp add: fused_ids_def Let_def)

lemma fused_ids_distinct: "distinct (map fst (fused_ids R porter raw))"
  unfolding fused_ids_def Let_def by (rule sublist_of_order_distinct) (simp only: scored_ids distinct_remdups)

lemma rows_of_ids:
  assumes "distinct (map row_id (db_memories d))" "set ids \<subseteq> row_id ` set (db_memories d)"
  shows "map row_id (rows_of_ids d ids) = ids" "set (rows_of_ids d ids) = {m \<in> set (db_memories d). row_id m \<in> set ids}"
proof -
  have one: "select_first (\<lambda>m. row_id m = row_id r) (db_memories d) = Some r" if "r \<in> set (db_memories d)" for r
    by (rule select_first_unique) (use that assms(1) in \<open>auto simp: distinct_map inj_on_def\<close>)
  show ids: "map row_id (rows_of_ids d ids) = ids"
    using assms(2)
  proof (induction ids)
    case (Cons i ids)
    then obtain r where "r \<in> set (db_memories d)" "i = row_id r" by auto
    then show ?case using Cons one by (simp add: rows_of_ids_def List.map_filter_simps)
  qed (simp add: rows_of_ids_def List.map_filter_simps)
  have sub: "set (rows_of_ids d ids) \<subseteq> set (db_memories d)"
    by (auto simp: rows_of_ids_def List.map_filter_def dest: select_first_Some)
  show "set (rows_of_ids d ids) = {m \<in> set (db_memories d). row_id m \<in> set ids}"
  proof (intro subset_antisym subsetI)
    fix m assume "m \<in> set (rows_of_ids d ids)"
    then show "m \<in> {m \<in> set (db_memories d). row_id m \<in> set ids}" using sub arg_cong[OF ids, of set] by auto
  next
    fix m assume m: "m \<in> {m \<in> set (db_memories d). row_id m \<in> set ids}"
    then have "row_id m \<in> row_id ` set (rows_of_ids d ids)" using arg_cong[OF ids, of set] by simp
    then obtain r where r: "r \<in> set (rows_of_ids d ids)" "row_id r = row_id m" by auto
    then have "r = m" using m sub assms(1) by (auto simp: distinct_map inj_on_def)
    then show "m \<in> set (rows_of_ids d ids)" using r by simp
  qed
qed


text \<open>The rows a search may return: those either index matches, open and admissible.\<close>

definition fts_pool :: "'f rank_env \<Rightarrow> 'f fts_env \<Rightarrow> string list \<Rightarrow> visibility \<Rightarrow> 'f db \<Rightarrow> 'f memory_row set" where
  "fts_pool R T words v d =
     {m \<in> set (db_memories d). admitted_row T v d Memories_Fts (match_query words) m \<or>
        ft_fusion T \<and> admitted_row T v d Memories_Fts_Raw (raw_match_query (rk_lower R) words) m}"

lemma fused_rows:
  assumes "distinct (map row_id (db_memories d))"
    and "P = ranked_rows T v d Memories_Fts q (fts_depth n)" "W = ranked_rows T v d Memories_Fts_Raw q' (fts_depth n)"
    and "rs = rows_of_ids d (map fst (take n (fused_ids R (map row_id P) (map row_id W))))"
  shows "distinct (map row_id rs)" "length rs \<le> n" "set rs \<subseteq> set P \<union> set W"
    "length rs < n \<Longrightarrow> set rs = {m \<in> set (db_memories d). admitted_row T v d Memories_Fts q m \<or> admitted_row T v d Memories_Fts_Raw q' m}"
proof -
  let ?fused = "fused_ids R (map row_id P) (map row_id W)"
  let ?ids = "map fst (take n ?fused)"
  have P: "set P \<subseteq> set (db_memories d)" and W: "set W \<subseteq> set (db_memories d)"
    using ranked_rows_set unfolding assms(2,3) by blast+
  have all: "set (map fst ?fused) = row_id ` (set P \<union> set W)" unfolding fused_ids_set by auto
  have ids: "set ?ids \<subseteq> set (map fst ?fused)" by (auto dest: in_set_takeD)
  then have sub: "set ?ids \<subseteq> row_id ` set (db_memories d)" unfolding all using P W by blast
  note rows = rows_of_ids[OF assms(1) sub, folded assms(4)]
  have inj: "m = m'" if "m \<in> set (db_memories d)" "m' \<in> set (db_memories d)" "row_id m = row_id m'" for m m'
    using assms(1) that by (auto simp: distinct_map inj_on_def)
  show "distinct (map row_id rs)" unfolding rows(1) using fused_ids_distinct[of R "map row_id P" "map row_id W"]
    by (simp flip: take_map)
  have len: "length rs = length ?ids" using arg_cong[OF rows(1), of length] by simp
  then show "length rs \<le> n" by simp
  show "set rs \<subseteq> set P \<union> set W"
  proof
    fix m assume "m \<in> set rs"
    then have m: "m \<in> set (db_memories d)" "row_id m \<in> set ?ids" unfolding rows(2) by auto
    then have "row_id m \<in> row_id ` (set P \<union> set W)" using ids all by blast
    then obtain m' where "m' \<in> set P \<union> set W" "row_id m = row_id m'" by auto
    then show "m \<in> set P \<union> set W" using inj[OF m(1), of m'] P W by auto
  qed
  show "set rs = {m \<in> set (db_memories d). admitted_row T v d Memories_Fts q m \<or> admitted_row T v d Memories_Fts_Raw q' m}"
    if short: "length rs < n"
  proof -
    have "length ?fused < n" using short len by simp
    then have take: "take n ?fused = ?fused" by simp
    have "card (row_id ` (set P \<union> set W)) = length ?fused"
      using distinct_card[OF fused_ids_distinct[of R "map row_id P" "map row_id W"]] unfolding all by simp
    moreover have "length P = card (row_id ` set P)" "length W = card (row_id ` set W)"
      using distinct_card[OF ranked_rows_distinct[OF assms(1)]] unfolding assms(2,3) by simp_all
    moreover have "card (row_id ` set P) \<le> card (row_id ` (set P \<union> set W))" "card (row_id ` set W) \<le> card (row_id ` (set P \<union> set W))"
      by (auto intro: card_mono)
    moreover have "n \<le> fts_depth n" by (simp add: fts_depth_def)
    ultimately have "length P < fts_depth n" "length W < fts_depth n"
      using \<open>length ?fused < n\<close> by linarith+
    then have "set P = {m \<in> set (db_memories d). admitted_row T v d Memories_Fts q m}"
      "set W = {m \<in> set (db_memories d). admitted_row T v d Memories_Fts_Raw q' m}"
      unfolding assms(2,3) by (auto simp: ranked_rows_all)
    moreover have "set rs = set P \<union> set W"
      unfolding rows(2) take all using P W inj by blast
    ultimately show ?thesis by blast
  qed
qed

lemma fts_search_rows:
  assumes "distinct (map row_id (db_memories d))"
  obtains rs where "fts_search_scoped R T words n v d = map (\<lambda>m. memory_hit_from_row m 0) rs"
    "distinct (map row_id rs)" "length rs \<le> n" "set rs \<subseteq> fts_pool R T words v d"
    "match_query words \<noteq> [] \<longrightarrow> length rs < n \<longrightarrow> set rs = fts_pool R T words v d"
proof -
  consider "match_query words = []" | "match_query words \<noteq> []" "\<not> ft_fusion T" | "match_query words \<noteq> []" "ft_fusion T" by blast
  then show ?thesis
  proof cases
    case 1
    then show ?thesis using that[of "[]"] by (simp add: fts_search_scoped_def Let_def)
  next
    case 2
    let ?rs = "ranked_rows T v d Memories_Fts (match_query words) n"
    have "set ?rs \<subseteq> fts_pool R T words v d" using ranked_rows_set by (fastforce simp: fts_pool_def)
    moreover have "length ?rs < n \<Longrightarrow> set ?rs = fts_pool R T words v d"
      using 2 by (auto simp: ranked_rows_all fts_pool_def)
    moreover have "length ?rs \<le> n" by (simp add: ranked_rows_def)
    ultimately show ?thesis using that[of ?rs] 2 ranked_rows_distinct[OF assms]
      by (simp add: fts_search_scoped_def Let_def)
  next
    case 3
    let ?P = "ranked_rows T v d Memories_Fts (match_query words) (fts_depth n)"
    let ?W = "ranked_rows T v d Memories_Fts_Raw (raw_match_query (rk_lower R) words) (fts_depth n)"
    let ?rs = "rows_of_ids d (map fst (take n (fused_ids R (map row_id ?P) (map row_id ?W))))"
    note fused = fused_rows[OF assms refl refl refl, where T = T and v = v and q = "match_query words" and n = n and
        q' = "raw_match_query (rk_lower R) words" and R = R]
    have "set ?rs \<subseteq> fts_pool R T words v d"
    proof
      fix m assume "m \<in> set ?rs"
      then have "m \<in> set ?P \<union> set ?W" using fused(3) by blast
      then show "m \<in> fts_pool R T words v d"
        using ranked_rows_set[of m T v d] 3 unfolding fts_pool_def by blast
    qed
    moreover have "length ?rs < n \<Longrightarrow> set ?rs = fts_pool R T words v d"
      using fused(4) 3 by (simp add: fts_pool_def)
    ultimately show ?thesis using that[of ?rs] 3 fused(1,2)
      by (simp add: fts_search_scoped_def Let_def)
  qed
qed

lemma pool_shows: "m \<in> fts_pool R T words v d \<Longrightarrow> m \<in> set (db_memories d) \<and> shows_to v (memory_hit_from_row m n) \<and> \<not> consolidated_key d (row_key m)"
  by (auto simp: fts_pool_def admitted_row_def shows_to_def sql_admits_iff)

text \<open>
  C13: A scoped full-text search returns stored memories that match, are not consolidated away and are
  admissible, each once and at most the number asked for; and when it returns fewer, it returns all of
  them: no inadmissible or consolidated row ever takes the place of an admissible one.
\<close>

theorem fts_scoped_complete:
  assumes "distinct (map row_id (db_memories d))" and "hits = fts_search_scoped R T words n v d"
  shows "(\<forall>h \<in> set hits. shows_to v h \<and> (\<exists>m \<in> fts_pool R T words v d. h = memory_hit_from_row m 0)) \<and>
    distinct (map hit_id hits) \<and> length hits \<le> n \<and>
    (match_query words \<noteq> [] \<longrightarrow> length hits < n \<longrightarrow> hit_id ` set hits = row_id ` fts_pool R T words v d)"
proof -
  obtain rs where rs: "hits = map (\<lambda>m. memory_hit_from_row m 0) rs" "distinct (map row_id rs)" "length rs \<le> n"
    "set rs \<subseteq> fts_pool R T words v d"
    "match_query words \<noteq> [] \<longrightarrow> length rs < n \<longrightarrow> set rs = fts_pool R T words v d"
    unfolding assms(2) by (rule fts_search_rows[OF assms(1)])
  have "map hit_id hits = map row_id rs" unfolding rs(1) by simp
  moreover have "hit_id ` set hits = row_id ` set rs" unfolding rs(1) by force
  moreover have "\<forall>h \<in> set hits. shows_to v h \<and> (\<exists>m \<in> fts_pool R T words v d. h = memory_hit_from_row m 0)"
  proof
    fix h assume "h \<in> set hits"
    then obtain m where "m \<in> set rs" "h = memory_hit_from_row m 0" unfolding rs(1) by auto
    then show "shows_to v h \<and> (\<exists>m \<in> fts_pool R T words v d. h = memory_hit_from_row m 0)"
      using rs(4) pool_shows by blast
  qed
  moreover have "length hits = length rs" unfolding rs(1) by simp
  ultimately show ?thesis using rs(2,3,5) by presburger
qed


subsection \<open>A concrete store\<close>

definition toy_row :: "string \<Rightarrow> string \<Rightarrow> string \<Rightarrow> string \<Rightarrow> rat memory_row" where
  "toy_row i k content label =
     \<lparr>row_id = i, row_key = k, row_content = content, row_category = ''core'', row_wing = Some ''w'', row_hall = None,
      row_signal_score = 1 / 2, row_visibility = label, row_created_at = ''2026'', row_updated_at = ''2026'',
      row_source = None, row_device_id = None, row_confidence = 1, row_last_reinforced_at = None, row_episode_id = None,
      row_compaction_tier = None, row_declarative_density = None, row_description = None,
      row_description_generated_at = None, row_valid_from = None, row_valid_to = ''9999'', row_content_hash = None,
      row_source_brain_id = None, row_signature = None\<rparr>"

definition toy_rows :: "rat db" where
  "toy_rows = empty_db\<lparr>
     db_memories := [toy_row ''i1'' ''k1'' ''tea'' ''private'', toy_row ''i2'' ''k2'' ''tea'' ''team'', toy_row ''i3'' ''k3'' ''tea'' ''team''],
     db_edges := [\<lparr>ce_source_key = ''k2'', ce_target_key = ''k1'', ce_consolidated_at = ''2026''\<rparr>]\<rparr>"

definition toy_rats :: "rat db_env" where
  "toy_rats =
     \<lparr>dv_hash = (\<lambda>s. s), dv_sha16 = (\<lambda>s. s), dv_add = (+), dv_min = min, dv_le = (\<le>), dv_zero = 0,
      dv_sum = sum_list, dv_one = 1, dv_ids_of_json = (\<lambda>s. None), dv_json_of_ids = concat, dv_datetime = Some\<rparr>"

text \<open>An index that matches every row and ranks by id.\<close>

definition toy_fts :: "rat fts_env" where
  "toy_fts = \<lparr>ft_matches = (\<lambda>ix q m. True), ft_before = (\<lambda>ix q d a b. row_id a \<le> row_id b), ft_fusion = True\<rparr>"

lemma fts_scoped_complete_witness:
  "hit_id ` set (fts_search_scoped toy_rank toy_fts [''tea''] 5 Team toy_rows) = {''i3''}"
proof -
  have "distinct (map row_id (db_memories toy_rows))" by (simp add: toy_rows_def toy_row_def)
  note exact = fts_scoped_complete[OF this refl, of toy_rank toy_fts "[''tea'']" 5 Team]
  have query: "match_query [''tea''] \<noteq> []" by code_simp
  have pool: "row_id ` fts_pool toy_rank toy_fts [''tea''] Team toy_rows = {''i3''}"
  proof -
    have "fts_pool toy_rank toy_fts [''tea''] Team toy_rows =
        set (filter (\<lambda>m. \<not> consolidated_key toy_rows (row_key m) \<and> sql_admits Team (row_visibility m)) (db_memories toy_rows))"
      by (auto simp: fts_pool_def admitted_row_def toy_fts_def)
    then show ?thesis
      by (simp add: toy_rows_def toy_row_def consolidated_key_def sql_admits_iff str_to_vis_def allows_def visibility_order)
  qed
  have "length (fts_search_scoped toy_rank toy_fts [''tea''] 5 Team toy_rows) < 5"
  proof -
    let ?hits = "fts_search_scoped toy_rank toy_fts [''tea''] 5 Team toy_rows"
    have "hit_id ` set ?hits \<subseteq> row_id ` fts_pool toy_rank toy_fts [''tea''] Team toy_rows"
      using exact by force
    then have "card (hit_id ` set ?hits) \<le> 1" unfolding pool by (metis card_mono card.empty card_insert_if empty_iff finite.emptyI finite.insertI One_nat_def)
    moreover have "card (hit_id ` set ?hits) = length ?hits" using exact distinct_card[of "map hit_id ?hits"] by simp
    ultimately show ?thesis by simp
  qed
  then show ?thesis using exact query pool by simp
qed

end
