(* ===== verification/Tact.thy ===== *)
theory Tact
  imports Fts
begin

text \<open>
  Topic-aware retrieval, \<open>spectral-tact/src\<close>: the rule classifier, the fingerprint hashes of a query,
  the three tiers of the search and the context block. The regex engine is a parameter:
  \<open>ta_is_match p s\<close> is \<open>None\<close> for a pattern that does not compile, \<open>ta_find\<close> is \<open>find_iter\<close>.
\<close>

record tact_env =
  ta_is_match :: "string \<Rightarrow> string \<Rightarrow> bool option"
  ta_find :: "string \<Rightarrow> string \<Rightarrow> string list"

record tact_config =
  tc_min_words :: nat
  tc_max_results :: nat
  tc_max_context_chars :: nat
  tc_wing_rules :: "(string \<times> string) list"
  tc_hall_rules :: "(string \<times> string) list"
  tc_tier1_requires_hall :: bool

definition default_tact :: tact_config where
  "default_tact =
     \<lparr>tc_min_words = 1, tc_max_results = 5, tc_max_context_chars = 24000, tc_wing_rules = [],
      tc_hall_rules =
        [(''decided|chose|switching to|using|will use|agreed|locked in|decision|auth'', ''fact''),
         (''remember|preference|favourit|favorit|likes|prefers'', ''preference''),
         (''learned|discovered|found that|realized|breakthrough|roadmap|setup'', ''discovery''),
         (''recommend|should|advice|suggest|try using'', ''advice'')],
      tc_tier1_requires_hall = True\<rparr>"

datatype retrieval_method = Fingerprint_Tier | Fingerprint_Plus_Fts | Wing_Only | Fts_Tier | Skipped_Query | Empty_Result

fun method_as_str :: "retrieval_method \<Rightarrow> string" where
  "method_as_str Fingerprint_Tier = ''fingerprint''"
| "method_as_str Fingerprint_Plus_Fts = ''fingerprint+fts''"
| "method_as_str Wing_Only = ''wing_only''"
| "method_as_str Fts_Tier = ''fts_fallback''"
| "method_as_str Skipped_Query = ''skipped''"
| "method_as_str Empty_Result = ''empty''"

record 'f tact_result =
  tr_method :: retrieval_method
  tr_wing :: "string option"
  tr_hall :: "string option"
  tr_memories :: "'f memory_hit list"
  tr_context_block :: string

subsection \<open>Classification\<close>

fun first_rule :: "(string \<Rightarrow> bool option) \<Rightarrow> (string \<times> string) list \<Rightarrow> string option" where
  "first_rule matches [] = None"
| "first_rule matches ((p, label) # rules) = (if matches p = Some True then Some label else first_rule matches rules)"

definition detect_wing :: "'f rank_env \<Rightarrow> tact_env \<Rightarrow> string \<Rightarrow> (string \<times> string) list \<Rightarrow> string option" where
  "detect_wing R A msg rules = first_rule (\<lambda>p. ta_is_match A p (rk_lower R msg)) rules"

definition detect_hall :: "'f rank_env \<Rightarrow> tact_env \<Rightarrow> string \<Rightarrow> (string \<times> string) list \<Rightarrow> string option" where
  "detect_hall R A msg rules = first_rule (\<lambda>p. ta_is_match A p (rk_lower R msg)) rules"

definition extract_query_terms :: "'f rank_env \<Rightarrow> tact_env \<Rightarrow> string \<Rightarrow> string list" where
  "extract_query_terms R A msg = filter (\<lambda>t. length t > 2) (ta_find A ''[a-z0-9]+'' (rk_lower R msg))"

definition extract_fts_words :: "'f rank_env \<Rightarrow> tact_env \<Rightarrow> string \<Rightarrow> string list" where
  "extract_fts_words R A msg = ta_find A ([BACKSLASH] @ ''w+'') (rk_lower R msg)"

subsection \<open>Fingerprints of a query\<close>

definition ALL_HALLS :: "string list" where
  "ALL_HALLS = [''fact'', ''preference'', ''discovery'', ''advice'', ''event'']"

definition TIME_BUCKETS :: "string list" where
  "TIME_BUCKETS = [''same_day'', ''same_week'', ''same_month'', ''older'']"

definition query_hash :: "'f db_env \<Rightarrow> string \<Rightarrow> string \<Rightarrow> string \<Rightarrow> string \<Rightarrow> string" where
  "query_hash E anchor_hall target_hall wing bucket =
     dv_sha16 E (anchor_hall @ ''|'' @ target_hall @ ''|'' @ wing @ ''|'' @ bucket)"

definition sort_dedup :: "string list \<Rightarrow> string list" where
  "sort_dedup xs = remdups_adj (sort xs)"

definition generate_query_hashes :: "'f db_env \<Rightarrow> string \<Rightarrow> string \<Rightarrow> string list" where
  "generate_query_hashes E hall wing =
     sort_dedup (concat (map (\<lambda>t. concat (map (\<lambda>b. [query_hash E hall t wing b, query_hash E t hall wing b]) TIME_BUCKETS)) ALL_HALLS))"

subsection \<open>The tiers\<close>

fun merge_into :: "nat \<Rightarrow> string set \<Rightarrow> nat \<Rightarrow> 'f memory_hit list \<Rightarrow> 'f memory_hit list" where
  "merge_into limit seen n [] = []"
| "merge_into limit seen n (h # hs) =
     (if hit_id h \<in> seen then merge_into limit seen n hs
      else h # (if limit \<le> n + 1 then [] else merge_into limit (insert (hit_id h) seen) (n + 1) hs))"

definition merge_dedup :: "'f memory_hit list \<Rightarrow> 'f memory_hit list \<Rightarrow> nat \<Rightarrow> 'f memory_hit list" where
  "merge_dedup primary secondary limit = merge_into limit {} 0 (primary @ secondary)"

record 'f tact_deps =
  tp_rank :: "'f rank_env"
  tp_tact :: tact_env
  tp_db :: "'f db_env"
  tp_fts :: "'f fts_env"
  tp_kept :: "string \<Rightarrow> bool"

definition tier1_wing :: "string option \<Rightarrow> string option \<Rightarrow> bool \<Rightarrow> string option" where
  "tier1_wing wing hall requires_hall =
     (case (wing, hall, requires_hall) of
        (Some w, Some _, _) \<Rightarrow> Some w
      | (Some w, None, False) \<Rightarrow> Some w
      | _ \<Rightarrow> None)"

definition tier1 :: "'f tact_deps \<Rightarrow> string \<Rightarrow> string option \<Rightarrow> string option \<Rightarrow> tact_config \<Rightarrow> 'f db \<Rightarrow> 'f memory_hit list" where
  "tier1 D msg wing hall config d =
     (case tier1_wing wing hall (tc_tier1_requires_hall config) of
        None \<Rightarrow> []
      | Some w \<Rightarrow>
          let anchors = (case hall of Some h \<Rightarrow> [h] | None \<Rightarrow> ALL_HALLS);
              hashes = sort_dedup (concat (map (\<lambda>a. generate_query_hashes (tp_db D) a w) anchors));
              results = fingerprint_search w (hd anchors) hashes (tc_max_results config) d
          in if results = [] then []
             else merge_dedup results
                    (fts_search (tp_rank D) (tp_fts D) (extract_fts_words (tp_rank D) (tp_tact D) msg) (tc_max_results config) d)
                    (tc_max_results config))"

definition tier2 :: "'f tact_deps \<Rightarrow> string \<Rightarrow> string option \<Rightarrow> tact_config \<Rightarrow> 'f db \<Rightarrow> 'f db \<times> 'f memory_hit list" where
  "tier2 D msg wing config d =
     (case wing of
        None \<Rightarrow> (d, [])
      | Some w \<Rightarrow> wing_search (tp_db D) (rk_lower (tp_rank D)) (tp_kept D) w
                    (extract_query_terms (tp_rank D) (tp_tact D) msg) (tc_max_results config) d)"

definition tier3 :: "'f tact_deps \<Rightarrow> string \<Rightarrow> tact_config \<Rightarrow> 'f db \<Rightarrow> 'f memory_hit list" where
  "tier3 D msg config d =
     (let words = extract_fts_words (tp_rank D) (tp_tact D) msg
      in if words = [] then [] else fts_search (tp_rank D) (tp_fts D) words (tc_max_results config) d)"

text \<open>The merge of a tier 1 that matched is never empty, so an empty list means that the tier did not answer.\<close>

definition tact_search ::
    "'f tact_deps \<Rightarrow> string \<Rightarrow> string option \<Rightarrow> string option \<Rightarrow> tact_config \<Rightarrow> 'f db \<Rightarrow>
      'f db \<times> 'f memory_hit list \<times> retrieval_method" where
  "tact_search D msg wing hall config d =
     (case tier1 D msg wing hall config d of
        h # hs \<Rightarrow> (d, h # hs, Fingerprint_Tier)
      | [] \<Rightarrow>
          (case tier2 D msg wing config d of
             (d1, h # hs) \<Rightarrow> (d1, h # hs, Wing_Only)
           | (d1, []) \<Rightarrow>
               (case tier3 D msg config d1 of
                  h # hs \<Rightarrow> (d1, h # hs, Fts_Tier)
                | [] \<Rightarrow> (d1, [], Empty_Result))))"

subsection \<open>The context block\<close>

definition entry_text :: "'f memory_hit \<Rightarrow> string" where
  "entry_text m =
     ''['' @ (case hit_wing m of Some w \<Rightarrow> w | None \<Rightarrow> ''unknown'') @ ''/'' @
     (case hit_hall m of Some h \<Rightarrow> h | None \<Rightarrow> ''unknown'') @ ''] '' @ hit_key m @ '': '' @ hit_content m"

text \<open>A byte index is a character boundary at the end and before every byte that is no continuation.\<close>

definition char_boundary :: "string \<Rightarrow> nat \<Rightarrow> bool" where
  "char_boundary s i \<longleftrightarrow> i = 0 \<or> i = length s \<or> i < length s \<and> \<not> ((128 :: nat) \<le> of_char (s ! i) \<and> of_char (s ! i) < (192 :: nat))"

fun back_off :: "string \<Rightarrow> nat \<Rightarrow> nat" where
  "back_off s 0 = 0"
| "back_off s (Suc n) = (if char_boundary s (Suc n) then Suc n else back_off s n)"

fun bundle_parts :: "nat \<Rightarrow> nat \<Rightarrow> 'f memory_hit list \<Rightarrow> string list" where
  "bundle_parts max_chars char_count [] = []"
| "bundle_parts max_chars char_count (m # ms) =
     (let entry = entry_text m
      in if char_count + length entry > max_chars
         then let remaining = max_chars - char_count
              in if remaining > 50 then [take (back_off entry (min remaining (length entry))) entry @ ''...''] else []
         else entry # bundle_parts max_chars (char_count + (length entry + 1)) ms)"

definition NEWLINE :: string where "NEWLINE = [CHR 0x0A]"

definition join_lines :: "string list \<Rightarrow> string" where
  "join_lines ps = (case ps of [] \<Rightarrow> [] | p # qs \<Rightarrow> p @ concat (map (\<lambda>q. NEWLINE @ q) qs))"

definition build_context_bundle :: "'f memory_hit list \<Rightarrow> nat \<Rightarrow> string" where
  "build_context_bundle memories max_chars = join_lines (bundle_parts max_chars 0 memories)"

definition format_context_block :: "'f memory_hit list \<Rightarrow> nat \<Rightarrow> string" where
  "format_context_block memories max_chars =
     (if memories = [] then []
      else NEWLINE @ ''--- MEMORY CONTEXT (via TACT) ---'' @ NEWLINE @ build_context_bundle memories max_chars @
           NEWLINE @ ''--- END MEMORY CONTEXT ---'' @ NEWLINE)"

subsection \<open>Retrieval\<close>

definition retrieve_inner ::
    "'f tact_deps \<Rightarrow> string \<Rightarrow> string option \<Rightarrow> tact_config \<Rightarrow> bool \<Rightarrow> 'f db \<Rightarrow> 'f db \<times> 'f tact_result" where
  "retrieve_inner D msg wing_hint config build_context_block d =
     (if length (rk_words (tp_rank D) msg) < tc_min_words config
      then (d, \<lparr>tr_method = Skipped_Query, tr_wing = None, tr_hall = None, tr_memories = [], tr_context_block = []\<rparr>)
      else
        let wing = (case detect_wing (tp_rank D) (tp_tact D) msg (tc_wing_rules config) of Some w \<Rightarrow> Some w | None \<Rightarrow> wing_hint);
            hall = detect_hall (tp_rank D) (tp_tact D) msg (tc_hall_rules config)
        in case tact_search D msg wing hall config d of
             (d1, memories, meth) \<Rightarrow>
               if memories = []
               then (d1, \<lparr>tr_method = Empty_Result, tr_wing = wing, tr_hall = hall, tr_memories = [], tr_context_block = []\<rparr>)
               else (d1, \<lparr>tr_method = meth, tr_wing = wing, tr_hall = hall, tr_memories = memories,
                          tr_context_block = (if build_context_block
                             then format_context_block memories (tc_max_context_chars config) else [])\<rparr>))"

definition retrieve_memories :: "'f tact_deps \<Rightarrow> string \<Rightarrow> tact_config \<Rightarrow> 'f db \<Rightarrow> 'f db \<times> 'f tact_result" where
  "retrieve_memories D msg config d = retrieve_inner D msg None config False d"

definition retrieve_memories_scoped ::
    "'f tact_deps \<Rightarrow> string \<Rightarrow> string option \<Rightarrow> tact_config \<Rightarrow> 'f db \<Rightarrow> 'f db \<times> 'f tact_result" where
  "retrieve_memories_scoped D msg wing_hint config d = retrieve_inner D msg wing_hint config False d"

definition retrieve :: "'f tact_deps \<Rightarrow> string \<Rightarrow> tact_config \<Rightarrow> 'f db \<Rightarrow> 'f db \<times> 'f tact_result" where
  "retrieve D msg config d = retrieve_inner D msg None config True d"

subsection \<open>The query hashes\<close>

lemma set_sort_dedup [simp]: "set (sort_dedup xs) = set xs"
  by (simp add: sort_dedup_def)

text \<open>The hashes of a query hall and wing hold every fingerprint between that hall and a known hall.\<close>

lemma query_hashes_cover:
  "t \<in> set ALL_HALLS \<Longrightarrow> b \<in> {Same_Day, Same_Week, Same_Month, Older} \<Longrightarrow>
     make_fingerprint_hash E hall t w b \<in> set (generate_query_hashes E hall w) \<and>
     make_fingerprint_hash E t hall w b \<in> set (generate_query_hashes E hall w)"
  by (auto simp: generate_query_hashes_def make_fingerprint_hash_def query_hash_def TIME_BUCKETS_def)

subsection \<open>The bundle\<close>

lemma back_off_le: "back_off s n \<le> n"
  by (induction n) simp_all

lemma back_off_boundary: "char_boundary s (back_off s n)"
  by (induction n) (simp_all add: char_boundary_def)

lemma join_lines_length: "ps \<noteq> [] \<Longrightarrow> Suc (length (join_lines ps)) = sum_list (map (\<lambda>p. length p + 1) ps)"
proof -
  have "length (concat (map (\<lambda>q. NEWLINE @ q) qs)) = sum_list (map (\<lambda>p. length p + 1) qs)" for qs
    by (induction qs) (simp_all add: NEWLINE_def)
  then show "ps \<noteq> [] \<Longrightarrow> Suc (length (join_lines ps)) = sum_list (map (\<lambda>p. length p + 1) ps)"
    by (cases ps) (simp_all add: join_lines_def)
qed

lemma bundle_parts_length:
  "c + sum_list (map (\<lambda>p. length p + 1) (bundle_parts n c ms)) \<le> max c (n + 4)"
proof (induction n c ms rule: bundle_parts.induct)
  case (2 n c m ms)
  show ?case
  proof (cases "c + length (entry_text m) > n")
    case True
    then show ?thesis
      using back_off_le[of "entry_text m" "min (n - c) (length (entry_text m))"] by (simp add: Let_def) arith
  next
    case False
    from "2.IH"[OF refl False] show ?thesis using False by (simp add: Let_def)
  qed
qed simp

lemma bundle_parts_from:
  "p \<in> set (bundle_parts n c ms) \<Longrightarrow>
     \<exists>m \<in> set ms. p = entry_text m \<or> (\<exists>cut. char_boundary (entry_text m) cut \<and> p = take cut (entry_text m) @ ''...'')"
proof (induction n c ms rule: bundle_parts.induct)
  case (2 n c m ms)
  show ?case
  proof (cases "c + length (entry_text m) > n")
    case True
    then have "p = take (back_off (entry_text m) (min (n - c) (length (entry_text m)))) (entry_text m) @ ''...''"
      using "2.prems" by (simp add: Let_def split: if_splits)
    then show ?thesis using back_off_boundary by (intro bexI[of _ m]) auto
  next
    case False
    then have "p = entry_text m \<or> p \<in> set (bundle_parts n (c + (length (entry_text m) + 1)) ms)"
      using "2.prems" by (simp add: Let_def)
    then show ?thesis
    proof
      assume "p \<in> set (bundle_parts n (c + (length (entry_text m) + 1)) ms)"
      from "2.IH"[OF refl False this] show ?thesis by auto
    qed auto
  qed
qed simp

text \<open>
  C37: The bundle for the system prompt stays within its budget up to the three dots of a cut, and
  each of its lines is the text of one of the given memories, whole or cut at a character boundary.
\<close>

theorem context_bundle_bounded:
  "length (build_context_bundle ms n) \<le> n + 3 \<and>
   (\<forall>p \<in> set (bundle_parts n 0 ms). \<exists>m \<in> set ms. p = entry_text m \<or>
      (\<exists>cut. char_boundary (entry_text m) cut \<and> p = take cut (entry_text m) @ ''...''))"
proof -
  have "length (build_context_bundle ms n) \<le> n + 3"
  proof (cases "bundle_parts n 0 ms = []")
    case False
    from join_lines_length[OF this] bundle_parts_length[of 0 n ms] show ?thesis by (simp add: build_context_bundle_def)
  qed (simp add: build_context_bundle_def join_lines_def)
  then show ?thesis using bundle_parts_from by blast
qed

subsection \<open>Consolidated memories\<close>

text \<open>
  A query that names a wing but no hall is answered from the wing as it is: a memory that was
  consolidated into another one, which full-text and fingerprint search leave out, is served.
\<close>

theorem wing_tier_serves_consolidated:
  assumes "detect_wing (tp_rank D) (tp_tact D) msg (tc_wing_rules config) = Some w"
    and "detect_hall (tp_rank D) (tp_tact D) msg (tc_hall_rules config) = None" "tc_tier1_requires_hall config"
    and "tc_min_words config \<le> length (rk_words (tp_rank D) msg)" "db_wing_cache d w = None"
    and "m \<in> set (db_memories d)" "row_wing m = Some w" "consolidated_key d (row_key m)"
    and "length (filter (\<lambda>r. row_wing r = Some w) (db_memories d)) \<le> tc_max_results config"
  shows "row_id m \<in> hit_id ` set (tr_memories (snd (retrieve D msg config d)))"
proof -
  have t1: "tier1 D msg (Some w) None config d = []" using assms(3) by (simp add: tier1_def tier1_wing_def)
  let ?s = "wing_search (tp_db D) (rk_lower (tp_rank D)) (tp_kept D) w
       (extract_query_terms (tp_rank D) (tp_tact D) msg) (tc_max_results config) d"
  have "set (snd ?s) = set (wing_hits (tp_db D) d w)"
    using assms(5,9) by (simp add: wing_search_def Let_def wing_hits_def)
  then have m: "row_id m \<in> hit_id ` set (snd ?s)"
    using assms(6,7) by (force simp: wing_hits_def)
  then have "snd ?s \<noteq> []" by auto
  then obtain d1 h hs where s: "?s = (d1, h # hs)" by (cases ?s; cases "snd ?s") auto
  then have "tact_search D msg (Some w) None config d = (d1, h # hs, Wing_Only)"
    by (simp add: tact_search_def t1 tier2_def)
  then show ?thesis
    using m s assms(1,2,4) by (simp add: retrieve_def retrieve_inner_def)
qed


subsection \<open>A concrete store\<close>

definition toy_tact :: tact_env where
  "toy_tact = \<lparr>ta_is_match = (\<lambda>p s. Some (str_contains s p)), ta_find = (\<lambda>p s. blank_words s)\<rparr>"

definition toy_deps :: "rat tact_deps" where
  "toy_deps = \<lparr>tp_rank = toy_rank, tp_tact = toy_tact, tp_db = toy_rats, tp_fts = toy_fts, tp_kept = (\<lambda>w. True)\<rparr>"

definition toy_tact_config :: tact_config where
  "toy_tact_config = default_tact\<lparr>tc_wing_rules := [(''tea'', ''w'')], tc_hall_rules := []\<rparr>"

lemma wing_tier_serves_consolidated_witness:
  "''i2'' \<in> hit_id ` set (tr_memories (snd (retrieve toy_deps ''tea'' toy_tact_config toy_rows)))"
proof -
  have "detect_wing (tp_rank toy_deps) (tp_tact toy_deps) ''tea'' (tc_wing_rules toy_tact_config) = Some ''w''" by code_simp
  moreover have "detect_hall (tp_rank toy_deps) (tp_tact toy_deps) ''tea'' (tc_hall_rules toy_tact_config) = None" by code_simp
  moreover have "tc_tier1_requires_hall toy_tact_config" by code_simp
  moreover have "tc_min_words toy_tact_config \<le> length (rk_words (tp_rank toy_deps) ''tea'')" by code_simp
  moreover have "db_wing_cache toy_rows ''w'' = None" by (simp add: toy_rows_def empty_db_def)
  moreover have "toy_row ''i2'' ''k2'' ''tea'' ''team'' \<in> set (db_memories toy_rows)" by (simp add: toy_rows_def)
  moreover have "row_wing (toy_row ''i2'' ''k2'' ''tea'' ''team'') = Some ''w''" by (simp add: toy_row_def)
  moreover have "consolidated_key toy_rows (row_key (toy_row ''i2'' ''k2'' ''tea'' ''team''))"
    by (simp add: consolidated_key_def toy_rows_def toy_row_def)
  moreover have "length (filter (\<lambda>r. row_wing r = Some ''w'') (db_memories toy_rows)) \<le> tc_max_results toy_tact_config"
    by (simp add: toy_rows_def toy_row_def toy_tact_config_def default_tact_def)
  ultimately have "row_id (toy_row ''i2'' ''k2'' ''tea'' ''team'') \<in> hit_id ` set (tr_memories (snd (retrieve toy_deps ''tea'' toy_tact_config toy_rows)))"
    by (rule wing_tier_serves_consolidated)
  then show ?thesis by (simp add: toy_row_def)
qed

text \<open>A budget of sixty bytes cuts the single entry inside its content.\<close>

lemma context_bundle_bounded_witness:
  "length (build_context_bundle [(toy_candidate ''a'' (replicate 80 CHR ''x''))\<lparr>hit_wing := Some ''w''\<rparr>] 60) \<le> 63 \<and>
   (\<exists>p cut. bundle_parts 60 0 [(toy_candidate ''a'' (replicate 80 CHR ''x''))\<lparr>hit_wing := Some ''w''\<rparr>] = [p] \<and>
      p = take cut (entry_text ((toy_candidate ''a'' (replicate 80 CHR ''x''))\<lparr>hit_wing := Some ''w''\<rparr>)) @ ''...'')"
proof -
  let ?m = "(toy_candidate ''a'' (replicate 80 CHR ''x''))\<lparr>hit_wing := Some ''w''\<rparr>"
  have len: "length (entry_text ?m) = 97" by (simp add: entry_text_def toy_candidate_def)
  define p where "p = take (back_off (entry_text ?m) 60) (entry_text ?m) @ ''...''"
  have "bundle_parts 60 0 [?m] = [p]" by (simp add: len p_def Let_def)
  then show ?thesis using context_bundle_bounded[of "[?m]" 60] by (auto simp: p_def)
qed

end
