(* ===== verification/Topk.thy ===== *)
theory Topk
  imports Tact
begin

text \<open>
  Top-K full-text recall, \<open>spectral-graph/src/brain.rs\<close>: the terms of a query, the expansion by
  number words and aliases, the anticipated memories and \<open>recall_topk_fts\<close>. Storage errors are left
  out; \<open>None\<close> is a panic of the re-ranking.
\<close>

text \<open>
  The configuration and the surroundings of a brain that a recall reads: the wall clock, its printed
  forms, the digest of a query, the float quotient of the lift and the order of a hash map.
\<close>

record 'f read_brain =
  rb_deps :: "'f tact_deps"
  rb_tact_config :: tact_config
  rb_read_only :: bool
  rb_fts_stopwords :: bool
  rb_number_normalize :: bool
  rb_query_aliases :: "(string \<times> string list) list"
  rb_anticipatory :: bool
  rb_ratio :: "nat \<Rightarrow> nat \<Rightarrow> 'f"
  rb_entries :: "string list \<Rightarrow> string list"
  rb_hash_query :: "string \<Rightarrow> string"
  rb_clock :: int
  rb_stamp :: string
  rb_sql_now :: string

abbreviation rb_rank :: "'f read_brain \<Rightarrow> 'f rank_env" where
  "rb_rank b \<equiv> tp_rank (rb_deps b)"

subsection \<open>The terms of a query\<close>

definition FTS_STOPWORDS :: "string list" where
  "FTS_STOPWORDS =
     [''the'', ''a'', ''an'', ''is'', ''are'', ''was'', ''were'', ''be'', ''been'', ''being'', ''am'', ''of'', ''to'', ''and'',
      ''or'', ''what'', ''which'', ''how'', ''did'', ''does'', ''do'', ''that'', ''this'', ''these'', ''those'', ''for'',
      ''with'', ''there'', ''here'']"

definition is_fts_stopword :: "string \<Rightarrow> bool" where
  "is_fts_stopword w \<longleftrightarrow> w \<in> set FTS_STOPWORDS"

definition APOSTROPHE :: string where "APOSTROPHE = [CHR 0x27]"
definition RIGHT_QUOTE :: string where "RIGHT_QUOTE = [CHR 0xE2, CHR 0x80, CHR 0x99]"

definition strip_possessive :: "string \<Rightarrow> string" where
  "strip_possessive w =
     (case strip_suffix (APOSTROPHE @ ''s'') w of
        Some base \<Rightarrow> base
      | None \<Rightarrow> (case strip_suffix (RIGHT_QUOTE @ ''s'') w of Some base \<Rightarrow> base | None \<Rightarrow> w))"

function trim_front :: "string \<Rightarrow> string" where
  "trim_front s =
     (if s \<noteq> [] \<and> starts_with APOSTROPHE s then trim_front (drop 1 s)
      else if s \<noteq> [] \<and> starts_with RIGHT_QUOTE s then trim_front (drop 3 s) else s)"
  by pat_completeness auto

termination trim_front
  by (relation "measure length") auto

declare trim_front.simps [simp del]

function trim_back :: "string \<Rightarrow> string" where
  "trim_back s =
     (if s \<noteq> [] \<and> ends_with s APOSTROPHE then trim_back (take (length s - 1) s)
      else if s \<noteq> [] \<and> ends_with s RIGHT_QUOTE then trim_back (take (length s - 3) s) else s)"
  by pat_completeness auto

termination trim_back
  by (relation "measure length") auto

declare trim_back.simps [simp del]

lemma trim_front_code [code]:
  "trim_front [] = []"
  "trim_front (c # cs) =
     (if starts_with APOSTROPHE (c # cs) then trim_front cs
      else if starts_with RIGHT_QUOTE (c # cs) then trim_front (drop 2 cs) else c # cs)"
  by (subst trim_front.simps; simp)+

lemma trim_back_code [code]:
  "trim_back [] = []"
  "trim_back (c # cs) =
     (if ends_with (c # cs) APOSTROPHE then trim_back (take (length cs) (c # cs))
      else if ends_with (c # cs) RIGHT_QUOTE then trim_back (take (length cs - 2) (c # cs)) else c # cs)"
  by (subst trim_back.simps; simp)+

definition MAX_QUERY_WORDS :: nat where "MAX_QUERY_WORDS = 64"

definition fts_query_words_opts :: "'f rank_env \<Rightarrow> string \<Rightarrow> bool \<Rightarrow> string list" where
  "fts_query_words_opts R query drop_stopwords =
     (let words = take MAX_QUERY_WORDS (filter (\<lambda>w. length w > 1)
            (map (\<lambda>w. trim_back (trim_front (strip_possessive w))) (rk_pieces R (TOKEN_EXTRA @ RIGHT_QUOTE) query)));
          filtered = filter (\<lambda>w. \<not> is_fts_stopword (rk_lower R w)) words
      in if \<not> drop_stopwords then words else if filtered = [] then words else filtered)"

definition eq_ignore_case :: "string \<Rightarrow> string \<Rightarrow> bool" where
  "eq_ignore_case s t \<longleftrightarrow> map ascii_lower s = map ascii_lower t"

definition NUMBER_PAIRS :: "(string \<times> string) list" where
  "NUMBER_PAIRS =
     [(''2'', ''two''), (''3'', ''three''), (''4'', ''four''), (''5'', ''five''), (''6'', ''six''), (''7'', ''seven''),
      (''8'', ''eight''), (''9'', ''nine''), (''10'', ''ten''), (''11'', ''eleven''), (''12'', ''twelve'')]"

definition ensure_word :: "string \<Rightarrow> string list \<Rightarrow> string list" where
  "ensure_word term words = (if list_ex (\<lambda>x. eq_ignore_case x term) words then words else words @ [term])"

definition bridge_token :: "string \<Rightarrow> string list \<Rightarrow> string list" where
  "bridge_token lt words =
     fold (\<lambda>(digit, word) ws. if lt = digit \<or> lt = word then ensure_word word (ensure_word digit ws) else ws) NUMBER_PAIRS words"

definition expand_number_words :: "'f rank_env \<Rightarrow> string \<Rightarrow> string list \<Rightarrow> string list" where
  "expand_number_words R raw_query words =
     fold (\<lambda>tok ws. bridge_token (rk_lower R tok) ws) (filter (\<lambda>t. t \<noteq> []) (rk_pieces R [] raw_query)) words"

definition add_alias :: "string list \<Rightarrow> string \<Rightarrow> string list \<Rightarrow> string list" where
  "add_alias words t additions =
     (if length t > 1 \<and> \<not> list_ex (\<lambda>x. eq_ignore_case x t) words \<and> \<not> list_ex (\<lambda>x. eq_ignore_case x t) additions
      then additions @ [t] else additions)"

definition expand_aliases :: "'f rank_env \<Rightarrow> (string \<times> string list) list \<Rightarrow> string list \<Rightarrow> string list" where
  "expand_aliases R aliases words =
     (if aliases = [] then words
      else words @ fold (\<lambda>w additions.
             case map_of aliases (rk_lower R w) of
               None \<Rightarrow> additions
             | Some expansions \<Rightarrow> fold (\<lambda>e acc. fold (add_alias words) (rk_pieces R [] e) acc) expansions additions) words [])"

definition fts_query_words :: "'f read_brain \<Rightarrow> string \<Rightarrow> string list" where
  "fts_query_words b query =
     (let words = fts_query_words_opts (rb_rank b) query (rb_fts_stopwords b);
          words = (if rb_number_normalize b then expand_number_words (rb_rank b) query words else words)
      in expand_aliases (rb_rank b) (rb_query_aliases b) words)"

subsection \<open>Anticipated memories\<close>

definition memory_to_hit :: "'f memory \<Rightarrow> 'f memory_hit" where
  "memory_to_hit m =
     \<lparr>hit_id = me_id m, hit_key = me_key m, hit_content = me_content m, hit_wing = me_wing m, hit_hall = me_hall m,
      hit_signal_score = me_signal_score m, hit_visibility = me_visibility m, hit_hits = 0, hit_source = me_source m,
      hit_device_id = me_device_id m, hit_confidence = me_confidence m, hit_created_at = me_created_at m,
      hit_last_reinforced_at = me_last_reinforced_at m, hit_episode_id = me_episode_id m,
      hit_declarative_density = me_declarative_density m, hit_description = me_description m,
      hit_source_brain_id = me_source_brain_id m, hit_signature = me_signature m\<rparr>"

definition MAX_ANTICIPATED :: nat where "MAX_ANTICIPATED = 3"
definition SEED_HITS :: nat where "SEED_HITS = 3"

definition anticipate_one ::
    "'f read_brain \<Rightarrow> visibility \<Rightarrow> 'f db \<Rightarrow> string \<times> nat \<times> 'f \<Rightarrow> string set \<times> 'f memory_hit list \<times> nat \<Rightarrow>
      string set \<times> 'f memory_hit list \<times> nat" where
  "anticipate_one b v d rec acc =
     (case (rec, acc) of ((i, n, lift), (present, results, added)) \<Rightarrow>
       if MAX_ANTICIPATED \<le> added \<or> rk_less (rb_rank b) lift (rk_lit (rb_rank b) 1) \<or> i \<in> present then acc
       else case get_memory i d of
              None \<Rightarrow> acc
            | Some m \<Rightarrow>
                if \<not> allows (str_to_vis (me_visibility m)) v then acc
                else (insert i present, results @ [memory_to_hit m], added + 1))"

definition append_anticipated ::
    "'f read_brain \<Rightarrow> visibility \<Rightarrow> 'f db \<Rightarrow> 'f memory_hit list \<Rightarrow> 'f memory_hit list" where
  "append_anticipated b v d results =
     (let R = rb_rank b;
          seeds = map hit_id (take SEED_HITS results);
          recs = concat (map (\<lambda>s. recommend_by_lift (rb_ratio b) (rk_less R) (rk_lit R 0) s MAX_ANTICIPATED 2 d) seeds)
      in fst (snd (fold (anticipate_one b v d) recs (hit_id ` set results, results, 0))))"

subsection \<open>Recall\<close>

record 'f topk_config =
  tk_k :: nat
  tk_fetch_mult :: nat
  tk_apply_signal_score_weighting :: bool
  tk_apply_recency_weighting :: bool
  tk_recency_half_life_days :: 'f
  tk_apply_entity_resolution :: bool
  tk_apply_proximity :: bool
  tk_proximity_weight :: 'f
  tk_use_rrf :: bool
  tk_rrf_bm25_weight :: 'f
  tk_rrf_declarative_weight :: 'f
  tk_rrf_proximity_weight :: 'f
  tk_rrf_recency_weight :: 'f
  tk_rrf_signal_weight :: 'f
  tk_rrf_entity_weight :: 'f
  tk_apply_declarative_boost :: bool
  tk_apply_context_dedup :: bool
  tk_now :: "int option"
  tk_anchor_to_corpus :: bool

definition default_topk :: "'f rank_env \<Rightarrow> 'f topk_config" where
  "default_topk R =
     \<lparr>tk_k = 40, tk_fetch_mult = 3, tk_apply_signal_score_weighting = True, tk_apply_recency_weighting = True,
      tk_recency_half_life_days = rk_lit R 365, tk_apply_entity_resolution = True, tk_apply_proximity = False,
      tk_proximity_weight = PROXIMITY_WEIGHT_DEFAULT R, tk_use_rrf = False, tk_rrf_bm25_weight = rk_lit R 1,
      tk_rrf_declarative_weight = rk_lit R 1, tk_rrf_proximity_weight = rk_lit R 1, tk_rrf_recency_weight = rk_lit R 1,
      tk_rrf_signal_weight = rk_lit R 1, tk_rrf_entity_weight = rk_lit R 1, tk_apply_declarative_boost = False,
      tk_apply_context_dedup = True, tk_now = None, tk_anchor_to_corpus = False\<rparr>"

definition topk_reranking :: "'f rank_env \<Rightarrow> 'f topk_config \<Rightarrow> 'f reranking_config" where
  "topk_reranking R c =
     \<lparr>rr_apply_signal_score = tk_apply_signal_score_weighting c, rr_signal_score_weight = rk_lit R (3 / 10),
      rr_apply_recency = tk_apply_recency_weighting c, rr_recency_half_life_days = tk_recency_half_life_days c,
      rr_apply_entity_boost = tk_apply_entity_resolution c, rr_entity_boost_weight = rk_lit R (5 / 100),
      rr_apply_ambient_boost = False, rr_ambient_weights = default_ambient R,
      rr_apply_declarative_boost = tk_apply_declarative_boost c, rr_declarative_weight = rk_lit R (1 / 10),
      rr_co_retrieval_weight = rk_lit R 0, rr_apply_episode_diversity = False, rr_max_per_episode = 5,
      rr_apply_context_dedup = tk_apply_context_dedup c, rr_apply_proximity = tk_apply_proximity c,
      rr_proximity_weight = tk_proximity_weight c, rr_use_rrf = tk_use_rrf c,
      rr_rrf_bm25_weight = tk_rrf_bm25_weight c, rr_rrf_declarative_weight = tk_rrf_declarative_weight c,
      rr_rrf_proximity_weight = tk_rrf_proximity_weight c, rr_rrf_recency_weight = tk_rrf_recency_weight c,
      rr_rrf_signal_weight = tk_rrf_signal_weight c, rr_rrf_entity_weight = tk_rrf_entity_weight c\<rparr>"

definition USIZE_MAX :: nat where "USIZE_MAX = 2 ^ 64 - 1"

definition fetch_width :: "nat \<Rightarrow> nat \<Rightarrow> nat" where
  "fetch_width k fetch_mult = min USIZE_MAX (k * max fetch_mult 1)"

definition latest_interaction_time :: "'f rank_env \<Rightarrow> 'f db \<Rightarrow> int option" where
  "latest_interaction_time R d = Option.bind (latest_created_at d) (parse_created_at R)"

definition topk_now :: "'f read_brain \<Rightarrow> 'f topk_config \<Rightarrow> 'f db \<Rightarrow> int" where
  "topk_now b c d =
     (case tk_now c of
        Some t \<Rightarrow> t
      | None \<Rightarrow> if tk_anchor_to_corpus c
               then (case latest_interaction_time (rb_rank b) d of Some t \<Rightarrow> t | None \<Rightarrow> rb_clock b)
               else rb_clock b)"

definition recall_event ::
    "'f read_brain \<Rightarrow> string \<Rightarrow> string \<Rightarrow> string option \<Rightarrow> string option \<Rightarrow> 'f memory_hit list \<Rightarrow> retrieval_event" where
  "recall_event b query how wing session results =
     \<lparr>ev_query_hash = rb_hash_query b query, ev_timestamp = rb_stamp b,
      ev_memory_ids_json = dv_json_of_ids (tp_db (rb_deps b)) (map hit_id results), ev_method = how, ev_wing = wing,
      ev_question_type = None, ev_session_id = session\<rparr>"

definition recall_topk_fts ::
    "'f read_brain \<Rightarrow> string \<Rightarrow> 'f topk_config \<Rightarrow> visibility \<Rightarrow> 'f db \<Rightarrow> ('f db \<times> 'f memory_hit list) option" where
  "recall_topk_fts b query c v d =
     (let R = rb_rank b; words = fts_query_words b query
      in if words = [] then Some (d, [])
         else
           let cands = filter (shows_to v)
                 (fts_search_scoped R (tp_fts (rb_deps b)) words (fetch_width (tk_k c) (tk_fetch_mult c)) v d)
           in case apply_reranking_pipeline_with_query R (rb_entries b) (topk_reranking R c)
                     (context_empty (topk_now b c d)) [] words cands of
                None \<Rightarrow> None
              | Some ranked \<Rightarrow>
                  let results = take (tk_k c) ranked;
                      d1 = (if rb_read_only b then d
                            else log_retrieval_event (recall_event b query ''topk_fts'' None None results) d)
                  in Some (d1, if results \<noteq> [] \<and> rb_anticipatory b then append_anticipated b v d1 results else results))"

subsection \<open>What the expansion keeps\<close>

lemma ensure_word_prefix: "\<exists>ys. ensure_word t ws = ws @ ys"
  by (simp add: ensure_word_def)

lemma fold_prefix: "(\<And>x ws. \<exists>ys. g x ws = ws @ ys) \<Longrightarrow> \<exists>ys. fold g xs ws = ws @ ys"
proof (induction xs arbitrary: ws)
  case (Cons x xs)
  obtain ys where "g x ws = ws @ ys" using Cons.prems by blast
  moreover obtain zs where "fold g xs (ws @ ys) = (ws @ ys) @ zs" using Cons by blast
  ultimately show ?case by simp
qed simp

lemma bridge_prefix: "\<exists>ys. bridge_token lt ws = ws @ ys"
  unfolding bridge_token_def
proof (rule fold_prefix)
  fix p :: "string \<times> string" and us
  obtain a c where p: "p = (a, c)" by (cases p)
  obtain ys where y: "ensure_word a us = us @ ys" using ensure_word_prefix by blast
  obtain zs where "ensure_word c (us @ ys) = (us @ ys) @ zs" using ensure_word_prefix by blast
  then show "\<exists>ys. (case p of (digit, word) \<Rightarrow> \<lambda>ws. if lt = digit \<or> lt = word then ensure_word word (ensure_word digit ws) else ws) us = us @ ys"
    using p y by simp
qed

text \<open>
  A query is never emptied and never cut short by its own expansion: dropping stopwords leaves at
  least one term when there was one, at most 64 terms come from the text, each longer than one byte,
  and number words and aliases are only appended behind them.
\<close>

theorem query_terms_kept:
  "\<exists>base extra. fts_query_words b query = base @ extra \<and> base = fts_query_words_opts (rb_rank b) query (rb_fts_stopwords b) \<and>
     length base \<le> 64 \<and> (\<forall>w \<in> set base. length w > 1) \<and>
     (base = [] \<longleftrightarrow> fts_query_words_opts (rb_rank b) query False = [])"
proof -
  let ?base = "fts_query_words_opts (rb_rank b) query (rb_fts_stopwords b)"
  let ?numbered = "if rb_number_normalize b then expand_number_words (rb_rank b) query ?base else ?base"
  have "\<exists>ys. ?numbered = ?base @ ys" unfolding expand_number_words_def using fold_prefix[OF bridge_prefix] by auto
  moreover have "\<exists>zs. expand_aliases (rb_rank b) (rb_query_aliases b) ?numbered = ?numbered @ zs"
    by (simp add: expand_aliases_def)
  ultimately have "\<exists>extra. fts_query_words b query = ?base @ extra" unfolding fts_query_words_def Let_def by auto
  moreover have "length ?base \<le> 64"
    by (auto simp: fts_query_words_opts_def Let_def MAX_QUERY_WORDS_def intro: order_trans[OF length_filter_le])
  moreover have "\<forall>w \<in> set ?base. length w > 1"
    by (auto simp: fts_query_words_opts_def Let_def dest!: in_set_takeD)
  moreover have "?base = [] \<longleftrightarrow> fts_query_words_opts (rb_rank b) query False = []"
    by (auto simp: fts_query_words_opts_def Let_def MAX_QUERY_WORDS_def)
  ultimately show ?thesis by blast
qed


subsection \<open>What a recall returns\<close>

lemma shows_with_score [simp]: "shows_to v (with_score h s) = shows_to v h"
  by (simp add: shows_to_def)

lemma rerank_shows:
  assumes "apply_reranking_pipeline_with_query R entries cfg c co q cands = Some out" "\<forall>h \<in> set cands. shows_to v h"
  shows "\<forall>h \<in> set out. shows_to v h"
  using rerank_from[OF assms(1)] assms(2) by (metis shows_with_score)

lemma anticipate_keeps:
  assumes "fold (anticipate_one b v d) recs (present, results, n) = (present', results', n')"
    and "\<forall>h \<in> set results. shows_to v h" "hit_id ` set results \<subseteq> present" "distinct (map hit_id results)" "n \<le> 3"
  shows "(\<forall>h \<in> set results'. shows_to v h) \<and> distinct (map hit_id results') \<and>
    (\<exists>ys. results' = results @ ys \<and> length ys \<le> 3 - n)"
  using assms
proof (induction recs arbitrary: present results n)
  case (Cons r recs)
  obtain i co lift where r: "r = (i, co, lift)" by (cases r)
  show ?case
  proof (cases "anticipate_one b v d r (present, results, n) = (present, results, n)")
    case True
    then show ?thesis using Cons by simp
  next
    case False
    then obtain m where m: "\<not> 3 \<le> n" "i \<notin> present" "get_memory i d = Some m" "allows (str_to_vis (me_visibility m)) v"
      and step: "anticipate_one b v d r (present, results, n) = (insert i present, results @ [memory_to_hit m], n + 1)"
      unfolding r anticipate_one_def MAX_ANTICIPATED_def by (auto split: if_splits option.splits)
    have id: "me_id m = i" using m(3) by (auto simp: get_memory_def memory_from_row_def dest: select_first_Some)
    have run: "fold (anticipate_one b v d) recs (insert i present, results @ [memory_to_hit m], n + 1) = (present', results', n')"
      using Cons.prems(1) step by simp
    have "\<forall>h \<in> set (results @ [memory_to_hit m]). shows_to v h"
      using Cons.prems(2) m(4) by (simp add: shows_to_def memory_to_hit_def)
    moreover have "hit_id ` set (results @ [memory_to_hit m]) \<subseteq> insert i present"
      using Cons.prems(3) id by (auto simp: memory_to_hit_def)
    moreover have "distinct (map hit_id (results @ [memory_to_hit m]))"
      using Cons.prems(3,4) m(2) id by (auto simp: memory_to_hit_def)
    moreover have "n + 1 \<le> 3" using m(1) by simp
    ultimately have "(\<forall>h \<in> set results'. shows_to v h) \<and> distinct (map hit_id results') \<and>
        (\<exists>ys. results' = (results @ [memory_to_hit m]) @ ys \<and> length ys \<le> 3 - (n + 1))"
      by (rule Cons.IH[OF run])
    then obtain ys where "\<forall>h \<in> set results'. shows_to v h" "distinct (map hit_id results')"
      "results' = results @ (memory_to_hit m # ys)" "length (memory_to_hit m # ys) \<le> 3 - n" using m(1) by auto
    then show ?thesis by blast
  qed
qed simp

lemma append_anticipated_keeps:
  assumes "\<forall>h \<in> set results. shows_to v h" "distinct (map hit_id results)"
  shows "(\<forall>h \<in> set (append_anticipated b v d results). shows_to v h) \<and> distinct (map hit_id (append_anticipated b v d results)) \<and>
    (\<exists>ys. append_anticipated b v d results = results @ ys \<and> length ys \<le> 3)"
proof -
  let ?R = "rb_rank b"
  let ?recs = "concat (map (\<lambda>s. recommend_by_lift (rb_ratio b) (rk_less ?R) (rk_lit ?R 0) s MAX_ANTICIPATED 2 d) (map hit_id (take SEED_HITS results)))"
  obtain p r n where run: "fold (anticipate_one b v d) ?recs (hit_id ` set results, results, 0) = (p, r, n)"
    by (cases "fold (anticipate_one b v d) ?recs (hit_id ` set results, results, 0)") auto
  then have "append_anticipated b v d results = r" unfolding append_anticipated_def Let_def by (simp only: run fst_conv snd_conv)
  then show ?thesis using anticipate_keeps[OF run assms(1) subset_refl assms(2)] by simp
qed

text \<open>The tables a recall may not touch: all but the event log and the read cache.\<close>

definition same_memory :: "'f db \<Rightarrow> 'f db \<Rightarrow> bool" where
  "same_memory d d' \<longleftrightarrow>
     d'\<lparr>db_events := [], db_wing_cache := (\<lambda>w. None)\<rparr> = d\<lparr>db_events := [], db_wing_cache := (\<lambda>w. None)\<rparr>"

lemma same_memory_refl [simp]: "same_memory d d"
  by (simp add: same_memory_def)

lemma same_memory_trans: "same_memory d d' \<Longrightarrow> same_memory d' d'' \<Longrightarrow> same_memory d d''"
  by (simp add: same_memory_def)

lemma same_memory_log [simp]: "same_memory d (log_retrieval_event e d)"
  by (simp add: same_memory_def log_retrieval_event_def)

lemma same_memory_rows: "same_memory d d' \<Longrightarrow> db_memories d' = db_memories d \<and> db_edges d' = db_edges d"
  unfolding same_memory_def by (metis (no_types, lifting) db.ext_inject db.surjective db.update_convs(8) db.update_convs(13))

lemma topk_returns: "\<exists>r. recall_topk_fts b query c v d = Some r"
proof -
  have "rr_apply_ambient_boost (topk_reranking (rb_rank b) c) \<longrightarrow> rk_leq (rb_rank b)
      (aw_clamp_min (rr_ambient_weights (topk_reranking (rb_rank b) c))) (aw_clamp_max (rr_ambient_weights (topk_reranking (rb_rank b) c)))"
    by (simp add: topk_reranking_def)
  note ok = pipeline_returns[OF this]
  show ?thesis unfolding recall_topk_fts_def Let_def
    using ok[of "rb_entries b" "context_empty (topk_now b c d)" "[]" "fts_query_words b query"
        "filter (shows_to v) (fts_search_scoped (rb_rank b) (tp_fts (rb_deps b)) (fts_query_words b query)
          (fetch_width (tk_k c) (tk_fetch_mult c)) v d)"]
    by auto
qed

lemma topk_hits:
  assumes "recall_topk_fts b query c v d = Some (d', hits)" "distinct (map row_id (db_memories d))"
  shows "(\<forall>h \<in> set hits. shows_to v h) \<and> distinct (map hit_id hits) \<and> length hits \<le> tk_k c + 3 \<and> same_memory d d'"
proof (cases "fts_query_words b query = []")
  case True
  then show ?thesis using assms(1) by (simp add: recall_topk_fts_def)
next
  case False
  let ?found = "fts_search_scoped (rb_rank b) (tp_fts (rb_deps b)) (fts_query_words b query) (fetch_width (tk_k c) (tk_fetch_mult c)) v d"
  let ?cands = "filter (shows_to v) ?found"
  obtain ranked where ranked: "apply_reranking_pipeline_with_query (rb_rank b) (rb_entries b) (topk_reranking (rb_rank b) c)
      (context_empty (topk_now b c d)) [] (fts_query_words b query) ?cands = Some ranked"
    using assms(1) False by (auto simp: recall_topk_fts_def Let_def split: option.splits)
  let ?results = "take (tk_k c) ranked"
  define d1 where "d1 = (if rb_read_only b then d else log_retrieval_event (recall_event b query ''topk_fts'' None None ?results) d)"
  have out: "d' = d1" "hits = (if ?results \<noteq> [] \<and> rb_anticipatory b then append_anticipated b v d1 ?results else ?results)"
    using assms(1) False ranked unfolding recall_topk_fts_def Let_def d1_def by simp_all
  obtain rs where rs: "?found = map (\<lambda>m. memory_hit_from_row m 0) rs" "distinct (map row_id rs)"
    by (rule fts_search_rows[OF assms(2)])
  have "distinct (map hit_id ?found)" using rs by (simp add: comp_def)
  then have "distinct (map hit_id ?cands)" by (rule distinct_map_filter)
  then have "distinct (map hit_id ranked)" by (intro rerank_distinct[OF ranked]) simp_all
  then have dist: "distinct (map hit_id ?results)" by (simp flip: take_map)
  have "\<forall>h \<in> set ranked. shows_to v h" by (rule rerank_shows[OF ranked]) simp
  then have shown: "\<forall>h \<in> set ?results. shows_to v h" by (auto dest: in_set_takeD)
  have "same_memory d d'" unfolding out d1_def by simp
  moreover have "length ?results \<le> tk_k c" by simp
  ultimately show ?thesis
    using append_anticipated_keeps[OF shown dist, of b d1] shown dist unfolding out(2) by auto
qed

end
