(* ===== verification/Spreading.thy ===== *)
theory Spreading
  imports Topk
begin

text \<open>
  Associative spreading, \<open>spectral-graph/src/spreading.rs\<close>: memories of the episodes of the first hits,
  memories found by the content of the first hits, and the displacement that keeps every session.
  A failing episode read is skipped with a warning; the reads of the model do not fail.
\<close>

datatype spread_mode = Spread_Off | Spread_Episode | Spread_Cross_Session | Spread_Combined | Spread_Rerank

record spread_config =
  as_mode :: spread_mode
  as_seeds :: nat
  as_episode_budget :: nat
  as_cross_n :: nat
  as_cross_budget :: nat
  as_rerank_b :: nat

definition default_spread :: spread_config where
  "default_spread =
     \<lparr>as_mode = Spread_Off, as_seeds = 3, as_episode_budget = 3000, as_cross_n = 2, as_cross_budget = 2500, as_rerank_b = 15\<rparr>"

definition spread_precision :: spread_config where
  "spread_precision = default_spread\<lparr>as_mode := Spread_Rerank, as_rerank_b := 15\<rparr>"

definition spread_completeness :: spread_config where
  "spread_completeness =
     default_spread\<lparr>as_mode := Spread_Combined, as_cross_n := 3, as_cross_budget := 2500, as_episode_budget := 3000\<rparr>"

subsection \<open>Seeds\<close>

type_synonym seed_ref = "string option \<times> int option"

definition parse_seconds :: "'f rank_env \<Rightarrow> string \<Rightarrow> int option" where
  "parse_seconds R s = map_option (\<lambda>t. t div 1000000000) (parse_created_at R s)"

definition seed_ref_of :: "'f rank_env \<Rightarrow> 'f memory_hit \<Rightarrow> seed_ref" where
  "seed_ref_of R h = (hit_episode_id h, Option.bind (hit_created_at h) (parse_seconds R))"

definition top_seed_refs :: "'f rank_env \<Rightarrow> nat \<Rightarrow> 'f memory_hit list \<Rightarrow> seed_ref list" where
  "top_seed_refs R seeds hits = map (seed_ref_of R) (take seeds hits)"

definition token_cost :: "'f memory_hit \<Rightarrow> nat" where
  "token_cost h = length (hit_content h) div 4"

subsection \<open>Across sessions\<close>

text \<open>The mates of one seed; \<open>True\<close> is \<open>break 'seeds\<close>.\<close>

type_synonym 'f cross_state = "'f memory_hit list \<times> string set \<times> seed_ref list \<times> nat"

fun take_mates ::
    "'f rank_env \<Rightarrow> string set \<Rightarrow> nat \<Rightarrow> 'f memory_hit list \<Rightarrow> 'f cross_state \<Rightarrow> 'f cross_state \<times> bool" where
  "take_mates R existing budget [] st = (st, False)"
| "take_mates R existing budget (mate # mates) (hits, added_keys, added, spent) =
     (if hit_key mate \<in> existing \<or> hit_key mate \<in> added_keys
      then take_mates R existing budget mates (hits, added_keys, added, spent)
      else if spent + token_cost mate > budget
      then ((hits, insert (hit_key mate) added_keys, added, spent), True)
      else take_mates R existing budget mates
             (hits @ [mate], insert (hit_key mate) added_keys, added @ [seed_ref_of R mate], spent + token_cost mate))"

fun take_seeds ::
    "('f db \<Rightarrow> string \<Rightarrow> ('f db \<times> 'f memory_hit list) option) \<Rightarrow> 'f rank_env \<Rightarrow> string set \<Rightarrow> nat \<Rightarrow> nat \<Rightarrow>
      string list \<Rightarrow> 'f db \<Rightarrow> 'f cross_state \<Rightarrow> ('f db \<times> 'f cross_state) option" where
  "take_seeds recall R existing n budget [] d st = Some (d, st)"
| "take_seeds recall R existing n budget (content # contents) d st =
     (case recall d content of
        None \<Rightarrow> None
      | Some (d1, mates) \<Rightarrow>
          (case take_mates R existing budget (take n mates) st of
             (st1, True) \<Rightarrow> Some (d1, st1)
           | (st1, False) \<Rightarrow> take_seeds recall R existing n budget contents d1 st1))"

definition cross_session ::
    "('f db \<Rightarrow> string \<Rightarrow> ('f db \<times> 'f memory_hit list) option) \<Rightarrow> 'f rank_env \<Rightarrow> nat \<Rightarrow> nat \<Rightarrow> nat \<Rightarrow>
      'f db \<Rightarrow> 'f memory_hit list \<Rightarrow> ('f db \<times> 'f memory_hit list \<times> seed_ref list) option" where
  "cross_session recall R seeds n budget d hits =
     map_option (\<lambda>(d1, hits1, _, added, _). (d1, hits1, added))
       (take_seeds recall R (hit_key ` set hits) n budget (map hit_content (take seeds hits)) d (hits, {}, [], 0))"

text \<open>
  The search for the mates of a seed asks for four more than are taken. The sum of two \<open>usize\<close> wraps, as in a
  release build; a debug build panics on the four largest values.
\<close>

definition mate_recall :: "'f read_brain \<Rightarrow> nat \<Rightarrow> visibility \<Rightarrow> 'f db \<Rightarrow> string \<Rightarrow> ('f db \<times> 'f memory_hit list) option" where
  "mate_recall b n v d content = recall_topk_fts b content ((default_topk (rb_rank b))\<lparr>tk_k := (n + 4) mod 2 ^ 64\<rparr>) v d"

subsection \<open>Within a session\<close>

definition I64_MAX :: int where "I64_MAX = 2 ^ 63 - 1"

definition closeness :: "'f rank_env \<Rightarrow> int option \<Rightarrow> 'f memory \<Rightarrow> int" where
  "closeness R seed_ts m =
     (case (seed_ts, Option.bind (me_created_at m) (parse_seconds R)) of
        (Some s, Some t) \<Rightarrow> \<bar>s - t\<bar>
      | _ \<Rightarrow> I64_MAX)"

text \<open>The loop both callers share: new, not yet collected, admissible memories of each seed episode.\<close>

fun collect_mates ::
    "'f rank_env \<Rightarrow> visibility \<Rightarrow> string set \<Rightarrow> int option \<Rightarrow> 'f memory list \<Rightarrow>
      string set \<times> (int \<times> 'f memory_hit) list \<Rightarrow> string set \<times> (int \<times> 'f memory_hit) list" where
  "collect_mates R v existing seed_ts [] acc = acc"
| "collect_mates R v existing seed_ts (m # ms) (cand_keys, cands) =
     (if me_key m \<in> existing \<or> me_key m \<in> cand_keys then collect_mates R v existing seed_ts ms (cand_keys, cands)
      else collect_mates R v existing seed_ts ms (insert (me_key m) cand_keys,
             if allows (str_to_vis (me_visibility m)) v then cands @ [(closeness R seed_ts m, memory_to_hit m)] else cands))"

fun collect_episodes ::
    "'f rank_env \<Rightarrow> visibility \<Rightarrow> 'f db \<Rightarrow> string set \<Rightarrow> seed_ref list \<Rightarrow> string set \<Rightarrow>
      string set \<times> (int \<times> 'f memory_hit) list \<Rightarrow> (int \<times> 'f memory_hit) list" where
  "collect_episodes R v d existing [] seen acc = snd acc"
| "collect_episodes R v d existing ((ep_opt, seed_ts) # refs) seen acc =
     (case ep_opt of
        None \<Rightarrow> collect_episodes R v d existing refs seen acc
      | Some ep \<Rightarrow>
          if ep \<in> seen then collect_episodes R v d existing refs seen acc
          else collect_episodes R v d existing refs (insert ep seen)
                 (collect_mates R v existing seed_ts (list_memories_by_episode ep d) acc))"

definition episode_candidates ::
    "'f rank_env \<Rightarrow> visibility \<Rightarrow> 'f db \<Rightarrow> seed_ref list \<Rightarrow> 'f memory_hit list \<Rightarrow> 'f memory_hit list" where
  "episode_candidates R v d refs hits =
     map snd (order_by (\<lambda>a b. fst a \<le> fst b) (collect_episodes R v d (hit_key ` set hits) refs {} ({}, [])))"

text \<open>Filling skips what does not fit and goes on.\<close>

fun fill_budget :: "nat \<Rightarrow> nat \<Rightarrow> 'f memory_hit list \<Rightarrow> 'f memory_hit list" where
  "fill_budget budget spent [] = []"
| "fill_budget budget spent (h # hs) =
     (if spent + token_cost h > budget then fill_budget budget spent hs
      else h # fill_budget budget (spent + token_cost h) hs)"

definition episode_fill ::
    "'f rank_env \<Rightarrow> visibility \<Rightarrow> 'f db \<Rightarrow> seed_ref list \<Rightarrow> nat \<Rightarrow> 'f memory_hit list \<Rightarrow> 'f memory_hit list" where
  "episode_fill R v d refs budget hits = hits @ fill_budget budget 0 (episode_candidates R v d refs hits)"

subsection \<open>Displacement\<close>

definition session_of :: "'f memory_hit \<Rightarrow> string" where
  "session_of h = (case hit_episode_id h of Some e \<Rightarrow> e | None \<Rightarrow> [])"

text \<open>From the back: drop a hit while there is room to make and its session has another one.\<close>

fun displace :: "nat \<Rightarrow> (string \<Rightarrow> nat) \<Rightarrow> 'f memory_hit list \<Rightarrow> 'f memory_hit list" where
  "displace room counts [] = []"
| "displace room counts (h # rev_hits) =
     (if room = 0 then h # rev_hits
      else if counts (session_of h) > 1
      then displace (room - 1) (counts(session_of h := counts (session_of h) - 1)) rev_hits
      else h # displace room counts rev_hits)"

definition session_count :: "'f memory_hit list \<Rightarrow> string \<Rightarrow> nat" where
  "session_count hits s = length (filter (\<lambda>h. session_of h = s) hits)"

definition rerank_displace ::
    "'f rank_env \<Rightarrow> visibility \<Rightarrow> 'f db \<Rightarrow> nat \<Rightarrow> nat \<Rightarrow> 'f memory_hit list \<Rightarrow> 'f memory_hit list" where
  "rerank_displace R v d seeds replace_b hits =
     (let to_add = take replace_b (episode_candidates R v d (top_seed_refs R seeds hits) hits)
      in rev (displace (length to_add) (session_count hits) (rev hits)) @ to_add)"

subsection \<open>Spreading\<close>

definition associative_spread ::
    "'f read_brain \<Rightarrow> spread_config \<Rightarrow> visibility \<Rightarrow> 'f db \<Rightarrow> 'f memory_hit list \<Rightarrow> ('f db \<times> 'f memory_hit list) option" where
  "associative_spread b cfg v d hits =
     (let R = rb_rank b in
      case as_mode cfg of
        Spread_Off \<Rightarrow> Some (d, hits)
      | Spread_Episode \<Rightarrow> Some (d, episode_fill R v d (top_seed_refs R (as_seeds cfg) hits) (as_episode_budget cfg) hits)
      | Spread_Cross_Session \<Rightarrow>
          map_option (\<lambda>(d1, hits1, added). (d1, hits1))
            (cross_session (mate_recall b (as_cross_n cfg) v) R (as_seeds cfg) (as_cross_n cfg) (as_cross_budget cfg) d hits)
      | Spread_Combined \<Rightarrow>
          map_option (\<lambda>(d1, hits1, added). (d1,
              episode_fill R v d1 (top_seed_refs R (as_seeds cfg) hits @ added) (as_episode_budget cfg) hits1))
            (cross_session (mate_recall b (as_cross_n cfg) v) R (as_seeds cfg) (as_cross_n cfg) (as_cross_budget cfg) d hits)
      | Spread_Rerank \<Rightarrow> Some (d, rerank_displace R v d (as_seeds cfg) (as_rerank_b cfg) hits))"


subsection \<open>The interface to the recall\<close>

text \<open>
  What spreading relies on when it recalls by content: the answers are within the boundary and no
  memory changes.
\<close>

locale boundary_recall =
  fixes recall :: "'f db \<Rightarrow> string \<Rightarrow> ('f db \<times> 'f memory_hit list) option" and boundary :: visibility
  assumes admits: "distinct (map row_id (db_memories d)) \<Longrightarrow> recall d q = Some (d', hs) \<Longrightarrow> \<forall>h \<in> set hs. shows_to boundary h"
    and keeps: "distinct (map row_id (db_memories d)) \<Longrightarrow> recall d q = Some (d', hs) \<Longrightarrow> same_memory d d'"

text \<open>What a list of hits gained: new keys, within the boundary and the budget.\<close>

definition gained :: "visibility \<Rightarrow> nat \<Rightarrow> 'f memory_hit list \<Rightarrow> 'f memory_hit list \<Rightarrow> bool" where
  "gained v budget hits ys \<longleftrightarrow>
     (\<forall>h \<in> set ys. shows_to v h) \<and> distinct (map hit_key ys) \<and> hit_key ` set ys \<inter> hit_key ` set hits = {} \<and>
     sum_list (map token_cost ys) \<le> budget"

lemma gained_Nil [simp]: "gained v budget hits []"
  by (simp add: gained_def)

fun cross_ok :: "visibility \<Rightarrow> nat \<Rightarrow> 'f memory_hit list \<Rightarrow> 'f cross_state \<Rightarrow> bool" where
  "cross_ok v budget hits0 (hits, keys, added, spent) \<longleftrightarrow>
     (\<exists>ys. hits = hits0 @ ys \<and> gained v budget hits0 ys \<and> hit_key ` set ys \<subseteq> keys \<and> spent = sum_list (map token_cost ys))"

lemma take_mates_ok:
  "cross_ok v budget hits0 st \<Longrightarrow> \<forall>h \<in> set mates. shows_to v h \<Longrightarrow>
     cross_ok v budget hits0 (fst (take_mates R (hit_key ` set hits0) budget mates st))"
proof (induction R "hit_key ` set hits0" budget mates st rule: take_mates.induct)
  case (2 R budget mate mates hits keys added spent)
  obtain ys where ys: "hits = hits0 @ ys" "gained v budget hits0 ys" "hit_key ` set ys \<subseteq> keys"
    "spent = sum_list (map token_cost ys)" using "2.prems"(1) by auto
  show ?case
  proof (cases "hit_key mate \<in> hit_key ` set hits0 \<or> hit_key mate \<in> keys")
    case True
    then show ?thesis using "2.hyps"(1)[OF True "2.prems"(1)] "2.prems"(2) by simp
  next
    case False
    show ?thesis
    proof (cases "spent + token_cost mate > budget")
      case True
      have "cross_ok v budget hits0 (hits, insert (hit_key mate) keys, added, spent)"
        using ys by (auto intro!: exI[of _ ys])
      then show ?thesis using False True by simp
    next
      case F2: False
      have "gained v budget hits0 (ys @ [mate])"
        using ys F2 False "2.prems"(2) by (auto simp: gained_def)
      then have "cross_ok v budget hits0 (hits @ [mate], insert (hit_key mate) keys, added @ [seed_ref_of R mate], spent + token_cost mate)"
        using ys by (auto intro!: exI[of _ "ys @ [mate]"])
      from "2.hyps"(2)[OF False F2 this] show ?thesis using False F2 "2.prems"(2) by simp
    qed
  qed
qed simp

context boundary_recall
begin

lemma take_seeds_ok:
  assumes "distinct (map row_id (db_memories d))" "cross_ok boundary budget hits0 st"
    and "take_seeds recall R (hit_key ` set hits0) n budget contents d st = Some (d', st')"
  shows "cross_ok boundary budget hits0 st' \<and> same_memory d d'"
  using assms
proof (induction contents arbitrary: d st)
  case (Cons c contents)
  obtain d1 mates where r: "recall d c = Some (d1, mates)"
    using Cons.prems(3) by (auto split: option.splits)
  have same: "same_memory d d1" and "\<forall>h \<in> set mates. shows_to boundary h"
    using keeps[OF Cons.prems(1) r] admits[OF Cons.prems(1) r] by blast+
  then have "\<forall>h \<in> set (take n mates). shows_to boundary h" by (auto dest: in_set_takeD)
  note ok = take_mates_ok[OF Cons.prems(2) this, of R]
  obtain st1 stop where m: "take_mates R (hit_key ` set hits0) budget (take n mates) st = (st1, stop)" by (cases "take_mates R (hit_key ` set hits0) budget (take n mates) st")
  have ok1: "cross_ok boundary budget hits0 st1" using ok m by simp
  show ?case
  proof (cases stop)
    case True
    then show ?thesis using Cons.prems(3) r m ok1 same by simp
  next
    case False
    then have run: "take_seeds recall R (hit_key ` set hits0) n budget contents d1 st1 = Some (d', st')"
      using Cons.prems(3) r m by simp
    have "distinct (map row_id (db_memories d1))" using same_memory_rows[OF same] Cons.prems(1) by simp
    from Cons.IH[OF this ok1 run] show ?thesis using same same_memory_trans by blast
  qed
qed simp

lemma cross_session_ok:
  assumes "distinct (map row_id (db_memories d))" "cross_session recall R seeds n budget d hits = Some (d', hits', added)"
  shows "\<exists>ys. hits' = hits @ ys \<and> gained boundary budget hits ys \<and> same_memory d d'"
proof -
  obtain st where run: "take_seeds recall R (hit_key ` set hits) n budget (map hit_content (take seeds hits)) d (hits, {}, [], 0) = Some (d', st)"
    and hits': "hits' = fst st"
    using assms(2) by (auto simp: cross_session_def)
  have "cross_ok boundary budget hits (hits, {}, [], 0)" by (simp add: gained_def)
  note final = take_seeds_ok[OF assms(1) this run]
  obtain h k a s where st: "st = (h, k, a, s)" by (cases st)
  show ?thesis using final hits' unfolding st by auto
qed

lemma seeds_returns:
  assumes "\<And>d q. \<exists>r. recall d q = Some r"
  shows "take_seeds recall R existing n budget contents d st \<noteq> None"
proof (induction contents arbitrary: d st)
  case (Cons c contents)
  obtain d1 mates where "recall d c = Some (d1, mates)" using assms[of d c] by auto
  moreover obtain st1 stop where "take_mates R existing budget (take n mates) st = (st1, stop)"
    by (cases "take_mates R existing budget (take n mates) st")
  ultimately show ?case using Cons.IH[of d1 st1] by (cases stop) simp_all
qed simp

end

interpretation mates: boundary_recall "mate_recall b n v" v for b :: "'f read_brain" and n v
proof
  fix d :: "'f db" and q d' and hs :: "'f memory_hit list"
  assume "distinct (map row_id (db_memories d))" "mate_recall b n v d q = Some (d', hs)"
  then show "\<forall>h \<in> set hs. shows_to v h" "same_memory d d'"
    unfolding mate_recall_def by (auto dest: topk_hits)
qed

subsection \<open>Episodes\<close>

lemma shows_memory_to_hit [simp]: "shows_to v (memory_to_hit m) = allows (str_to_vis (me_visibility m)) v"
  by (simp add: shows_to_def memory_to_hit_def)

definition cands_ok :: "visibility \<Rightarrow> string set \<Rightarrow> string set \<times> (int \<times> 'f memory_hit) list \<Rightarrow> bool" where
  "cands_ok v existing acc \<longleftrightarrow>
     (\<forall>h \<in> snd ` set (snd acc). shows_to v h) \<and> distinct (map (hit_key \<circ> snd) (snd acc)) \<and>
     hit_key ` snd ` set (snd acc) \<subseteq> fst acc \<and> fst acc \<inter> existing = {}"

lemma collect_mates_ok: "cands_ok v existing acc \<Longrightarrow> cands_ok v existing (collect_mates R v existing ts ms acc)"
proof (induction R v existing ts ms acc rule: collect_mates.induct)
  case (2 R v existing ts m ms keys cands)
  show ?case
  proof (cases "me_key m \<in> existing \<or> me_key m \<in> keys")
    case True
    then show ?thesis using 2 by simp
  next
    case False
    have "hit_key (memory_to_hit m) = me_key m" by (simp add: memory_to_hit_def)
    then have "cands_ok v existing (insert (me_key m) keys,
        if allows (str_to_vis (me_visibility m)) v then cands @ [(closeness R ts m, memory_to_hit m)] else cands)"
      using "2.prems" False by (auto simp: cands_ok_def)
    from "2.IH"(2)[OF False this] show ?thesis using False by simp
  qed
qed simp

lemma collect_episodes_ok:
  "cands_ok v existing acc \<Longrightarrow>
     cands_ok v existing (existing', collect_episodes R v d existing refs seen acc) \<or>
     (\<exists>keys. cands_ok v existing (keys, collect_episodes R v d existing refs seen acc))"
proof (induction R v d existing refs seen acc rule: collect_episodes.induct)
  case (1 R v d existing seen acc)
  then show ?case by (cases acc) auto
next
  case (2 R v d existing ep ts refs seen acc)
  show ?case
  proof (cases ep)
    case None
    then show ?thesis using "2.IH"(1)[OF None "2.prems"] by simp
  next
    case (Some e)
    show ?thesis
    proof (cases "e \<in> seen")
      case True
      then show ?thesis using "2.IH"(2)[OF Some True "2.prems"] Some by simp
    next
      case False
      from "2.IH"(3)[OF Some False collect_mates_ok[OF "2.prems"]] show ?thesis using Some False by simp
    qed
  qed
qed

lemma episode_candidates_ok:
  "(\<forall>h \<in> set (episode_candidates R v d refs hits). shows_to v h) \<and>
   distinct (map hit_key (episode_candidates R v d refs hits)) \<and>
   hit_key ` set (episode_candidates R v d refs hits) \<inter> hit_key ` set hits = {}"
proof -
  let ?c = "collect_episodes R v d (hit_key ` set hits) refs {} ({}, [])"
  have "cands_ok v (hit_key ` set hits) ({}, [])" by (simp add: cands_ok_def)
  from collect_episodes_ok[OF this] obtain keys where ok: "cands_ok v (hit_key ` set hits) (keys, ?c)" by metis
  have "distinct (map (hit_key \<circ> snd) (order_by (\<lambda>a b. fst a \<le> fst b) ?c))"
    by (rule sublist_of_order_distinct) (use ok in \<open>simp add: cands_ok_def\<close>)
  then show ?thesis using ok by (auto simp: episode_candidates_def cands_ok_def)
qed

lemma fill_budget_subseq: "subseq (fill_budget budget spent hs) hs"
  by (induction budget spent hs rule: fill_budget.induct) auto

lemma fill_budget_cost: "spent \<le> budget \<Longrightarrow> spent + sum_list (map token_cost (fill_budget budget spent hs)) \<le> budget"
  by (induction budget spent hs rule: fill_budget.induct) (auto simp: add.assoc)

lemma episode_fill_ok: "\<exists>ys. episode_fill R v d refs budget hits = hits @ ys \<and> gained v budget hits ys"
proof -
  let ?c = "episode_candidates R v d refs hits"
  let ?ys = "fill_budget budget 0 ?c"
  have sub: "subseq ?ys ?c" by (rule fill_budget_subseq)
  have set: "set ?ys \<subseteq> set ?c" using set_mset_mono[OF mset_subseq[OF sub]] by simp
  have "distinct (map hit_key ?ys)"
    by (rule distinct_below[OF mset_subseq[OF subseq_map[OF sub]]]) (use episode_candidates_ok in blast)
  then have "gained v budget hits ?ys"
    using set episode_candidates_ok[of R v d refs hits] fill_budget_cost[of 0 budget ?c] by (auto simp: gained_def)
  then show ?thesis by (auto simp: episode_fill_def)
qed


subsection \<open>Displacement\<close>

lemma displace_ok:
  assumes "\<And>s. counts s = k s + session_count xs s"
  shows "subseq (displace room counts xs) xs \<and> length xs \<le> length (displace room counts xs) + room \<and>
    (\<forall>s. 0 < k s + session_count xs s \<longrightarrow> 0 < k s + session_count (displace room counts xs) s)"
  using assms
proof (induction room counts xs arbitrary: k rule: displace.induct)
  case (2 room counts h xs)
  let ?s = "session_of h"
  show ?case
  proof (cases "room = 0")
    case True
    then show ?thesis by simp
  next
    case room: False
    show ?thesis
    proof (cases "counts ?s > 1")
      case True
      define zs where "zs = displace (room - 1) (counts(?s := counts ?s - 1)) xs"
      have "(counts(?s := counts ?s - 1)) s = k s + session_count xs s" for s
        using "2.prems"[of s] "2.prems"[of ?s] True by (auto simp: session_count_def)
      note ih = "2.IH"(1)[OF room True this, folded zs_def]
      have step: "displace room counts (h # xs) = zs" using room True by (simp add: zs_def)
      have "\<forall>s. 0 < k s + session_count (h # xs) s \<longrightarrow> 0 < k s + session_count (displace room counts (h # xs)) s"
      proof (intro allI impI)
        fix s assume "0 < k s + session_count (h # xs) s"
        then have "0 < k s + session_count xs s"
          using True "2.prems"[of ?s] by (cases "s = ?s") (auto simp: session_count_def)
        then show "0 < k s + session_count (displace room counts (h # xs)) s"
          unfolding step by (rule mp[OF spec[OF conjunct2[OF conjunct2[OF ih]]]])
      qed
      moreover have "subseq (displace room counts (h # xs)) (h # xs)" unfolding step using ih by (blast intro: list_emb_Cons)
      moreover have "length (h # xs) \<le> length (displace room counts (h # xs)) + room"
        unfolding step using conjunct1[OF conjunct2[OF ih]] room by simp
      ultimately show ?thesis by blast
    next
      case False
      have "counts s = (k s + (if s = ?s then 1 else 0)) + session_count xs s" for s
        using "2.prems"[of s] by (auto simp: session_count_def)
      note ih = "2.IH"(2)[OF room False this]
      have step: "displace room counts (h # xs) = h # displace room counts xs" using room False by simp
      have count: "session_count (h # zs) s = (if s = ?s then 1 else 0) + session_count zs s" for zs s
        by (simp add: session_count_def)
      show ?thesis unfolding step count using ih by (simp add: add.assoc)
    qed
  qed
qed simp

lemma subseq_rev: "subseq xs ys \<Longrightarrow> subseq (rev xs) (rev ys)"
  by (induction rule: list_emb.induct) (auto intro: list_emb_append_mono subseq_rev_drop_many)

lemma session_count_rev [simp]: "session_count (rev xs) = session_count xs"
  by (simp add: session_count_def fun_eq_iff flip: rev_filter)

lemma session_count_pos: "0 < session_count xs s \<longleftrightarrow> s \<in> session_of ` set xs"
  by (auto simp: session_count_def filter_empty_conv)

text \<open>
  C26: Displacement keeps the context: every session that had a memory among the hits still has one,
  at most the asked number of hits gives way, each for a memory that is added, so the list never gets
  shorter.
\<close>

theorem displacement_keeps_sessions:
  assumes "associative_spread b cfg v d hits = Some (d', out)" "as_mode cfg = Spread_Rerank"
  shows "session_of ` set hits \<subseteq> session_of ` set out \<and> length hits \<le> length out \<and>
    (\<exists>kept added. out = kept @ added \<and> subseq kept hits \<and> length added \<le> as_rerank_b cfg \<and> length hits \<le> length kept + length added)"
proof -
  let ?add = "take (as_rerank_b cfg) (episode_candidates (rb_rank b) v d (top_seed_refs (rb_rank b) (as_seeds cfg) hits) hits)"
  let ?kept = "displace (length ?add) (session_count hits) (rev hits)"
  have "out = rerank_displace (rb_rank b) v d (as_seeds cfg) (as_rerank_b cfg) hits"
    using assms by (auto simp: associative_spread_def Let_def)
  then have out: "out = rev ?kept @ ?add" by (simp only: rerank_displace_def Let_def)
  define kept where "kept = ?kept"
  have "subseq ?kept (rev hits) \<and> length (rev hits) \<le> length ?kept + length ?add \<and>
      (\<forall>s. 0 < 0 + session_count (rev hits) s \<longrightarrow> 0 < 0 + session_count ?kept s)"
    by (rule displace_ok[where k = "\<lambda>s. 0"]) simp
  then have ok: "subseq kept (rev hits)" "length hits \<le> length kept + length ?add"
    "\<And>s. 0 < session_count hits s \<Longrightarrow> 0 < session_count kept s"
    unfolding kept_def[symmetric] by simp_all
  have "session_of ` set hits \<subseteq> session_of ` set kept"
    using ok(3) unfolding session_count_pos by blast
  moreover have "subseq (rev kept) hits" using ok(1) by (metis rev_rev_ident subseq_rev)
  moreover have "length ?add \<le> as_rerank_b cfg" by simp
  ultimately show ?thesis unfolding out kept_def[symmetric] using ok(2)
    by (intro conjI exI[of _ "rev kept"] exI[of _ ?add]) auto
qed

subsection \<open>Every mode\<close>

lemma grown:
  assumes "gained v n xs ys" "\<forall>h \<in> set xs. shows_to v h"
  shows "(\<forall>h \<in> set (xs @ ys). shows_to v h) \<and> (distinct (map hit_key xs) \<longrightarrow> distinct (map hit_key (xs @ ys)))"
  using assms by (auto simp: gained_def)

lemma rerank_displace_ok:
  assumes "\<forall>h \<in> set hits. shows_to v h"
  shows "(\<forall>h \<in> set (rerank_displace R v d seeds n hits). shows_to v h) \<and>
    (distinct (map hit_key hits) \<longrightarrow> distinct (map hit_key (rerank_displace R v d seeds n hits)))"
proof -
  define c where "c = episode_candidates R v d (top_seed_refs R seeds hits) hits"
  define kept where "kept = displace (length (take n c)) (session_count hits) (rev hits)"
  have out: "rerank_displace R v d seeds n hits = rev kept @ take n c"
    by (simp only: rerank_displace_def Let_def c_def kept_def)
  have c: "\<forall>h \<in> set c. shows_to v h" "distinct (map hit_key c)" "hit_key ` set c \<inter> hit_key ` set hits = {}"
    using episode_candidates_ok[of R v d "top_seed_refs R seeds hits" hits] unfolding c_def by blast+
  have a: "set (take n c) \<subseteq> set c" "distinct (map hit_key (take n c))"
    using c(2) by (auto simp flip: take_map dest: in_set_takeD)
  have "subseq kept (rev hits)" unfolding kept_def by (rule conjunct1[OF displace_ok[where k = "\<lambda>s. 0"]]) simp
  then have sub: "mset kept \<subseteq># mset hits" using mset_subseq by fastforce
  then have kept: "set kept \<subseteq> set hits" using set_mset_mono by fastforce
  have "mset (map hit_key kept) \<subseteq># mset (map hit_key hits)" using image_mset_subseteq_mono[OF sub] by simp
  then have dist: "distinct (map hit_key hits) \<Longrightarrow> distinct (map hit_key kept)" by (rule distinct_below)
  have "hit_key ` set kept \<inter> hit_key ` set (take n c) = {}" using a(1) c(3) kept by blast
  then show ?thesis unfolding out using a c(1) assms kept dist by (auto simp: rev_map[symmetric])
qed

lemma spread_ok:
  assumes "associative_spread b cfg v d hits = Some (d', out)" "distinct (map row_id (db_memories d))"
    and "\<forall>h \<in> set hits. shows_to v h"
  shows "(\<forall>h \<in> set out. shows_to v h) \<and> (distinct (map hit_key hits) \<longrightarrow> distinct (map hit_key out)) \<and> same_memory d d'"
proof -
  let ?R = "rb_rank b"
  have cross: "\<exists>ys. hits1 = hits @ ys \<and> gained v (as_cross_budget cfg) hits ys \<and> same_memory d d1"
    if "cross_session (mate_recall b (as_cross_n cfg) v) ?R (as_seeds cfg) (as_cross_n cfg) (as_cross_budget cfg) d hits = Some (d1, hits1, added)"
    for d1 hits1 added
    by (rule mates.cross_session_ok[OF assms(2) that])
  show ?thesis
  proof (cases "as_mode cfg")
    case Spread_Off
    then show ?thesis using assms by (simp add: associative_spread_def Let_def)
  next
    case Spread_Episode
    then have d: "d' = d" and out: "out = episode_fill ?R v d (top_seed_refs ?R (as_seeds cfg) hits) (as_episode_budget cfg) hits"
      using assms(1) by (auto simp: associative_spread_def Let_def)
    obtain ys where ys: "out = hits @ ys" "gained v (as_episode_budget cfg) hits ys" unfolding out using episode_fill_ok by blast
    show ?thesis unfolding ys(1) d using grown[OF ys(2) assms(3)] by simp
  next
    case Spread_Cross_Session
    then obtain added where "cross_session (mate_recall b (as_cross_n cfg) v) ?R (as_seeds cfg) (as_cross_n cfg) (as_cross_budget cfg) d hits = Some (d', out, added)"
      using assms(1) by (auto simp: associative_spread_def Let_def)
    then show ?thesis using cross grown assms(3) by blast
  next
    case Spread_Combined
    then obtain hits1 added where c: "cross_session (mate_recall b (as_cross_n cfg) v) ?R (as_seeds cfg) (as_cross_n cfg) (as_cross_budget cfg) d hits = Some (d', hits1, added)"
      and out: "out = episode_fill ?R v d' (top_seed_refs ?R (as_seeds cfg) hits @ added) (as_episode_budget cfg) hits1"
      using assms(1) by (auto simp: associative_spread_def Let_def)
    obtain ys where ys: "hits1 = hits @ ys" "gained v (as_cross_budget cfg) hits ys" "same_memory d d'" using cross[OF c] by blast
    note one = grown[OF ys(2) assms(3), folded ys(1)]
    obtain zs where zs: "out = hits1 @ zs" "gained v (as_episode_budget cfg) hits1 zs" unfolding out using episode_fill_ok by blast
    show ?thesis using grown[OF zs(2) conjunct1[OF one], folded zs(1)] one ys(3) by blast
  next
    case Spread_Rerank
    then have "out = rerank_displace ?R v d (as_seeds cfg) (as_rerank_b cfg) hits" "d' = d"
      using assms(1) by (auto simp: associative_spread_def Let_def)
    then show ?thesis using rerank_displace_ok[OF assms(3)] by simp
  qed
qed

text \<open>The modes that only read, and a read-only brain, leave even the event log as it is.\<close>

lemma seeds_read_only:
  "rb_read_only b \<Longrightarrow> take_seeds (mate_recall b n v) R ex m budget cs d st = Some (d', st') \<Longrightarrow> d' = d"
proof (induction cs arbitrary: d st)
  case (Cons c cs)
  obtain d1 ms where r: "mate_recall b n v d c = Some (d1, ms)" using Cons.prems(2) by (auto split: option.splits)
  then have "d1 = d" using Cons.prems(1)
    by (auto simp: mate_recall_def recall_topk_fts_def Let_def split: if_splits option.splits)
  then show ?case using Cons r by (auto split: prod.splits bool.splits)
qed simp

lemma spread_pure:
  assumes "associative_spread b cfg v d hits = Some (d', out)"
    and "rb_read_only b \<or> as_mode cfg \<notin> {Spread_Cross_Session, Spread_Combined}"
  shows "d' = d"
  using assms seeds_read_only[of b]
  by (cases "as_mode cfg") (auto simp: associative_spread_def cross_session_def Let_def)

lemma spread_returns: "\<exists>r. associative_spread b cfg v d hits = Some r"
proof -
  have "\<exists>r. mate_recall b n v d q = Some r" for n d q unfolding mate_recall_def by (rule topk_returns)
  then have "take_seeds (mate_recall b n v) R ex m budget cs d st \<noteq> None" for n R ex m budget cs d st
    by (rule mates.seeds_returns)
  then have none: "take_seeds (mate_recall b n v) R ex m budget cs d st \<noteq> None" for n R ex m budget cs d st .
  have "\<exists>r. cross_session (mate_recall b n v) R seeds m budget d hits = Some r" for n R seeds m budget
    using none[of n R "hit_key ` set hits" m budget "map hit_content (take seeds hits)" d "(hits, {}, [], 0)"]
    by (auto simp: cross_session_def)
  then show ?thesis by (cases "as_mode cfg") (auto simp: associative_spread_def Let_def)
qed


subsection \<open>A concrete brain\<close>

text \<open>Three memories of two sessions.\<close>

definition toy_reader :: "rat read_brain" where
  "toy_reader =
     \<lparr>rb_deps = toy_deps, rb_tact_config = toy_tact_config, rb_read_only = False, rb_fts_stopwords = False,
      rb_number_normalize = False, rb_query_aliases = [], rb_anticipatory = False, rb_ratio = (\<lambda>m n. of_nat m / of_nat n),
      rb_entries = (\<lambda>ks. ks), rb_hash_query = (\<lambda>q. q), rb_clock = 0, rb_stamp = ''2026'', rb_sql_now = ''2026''\<rparr>"

definition toy_session :: "string \<Rightarrow> rat memory_row \<Rightarrow> rat memory_row" where
  "toy_session e r = r\<lparr>row_episode_id := Some e\<rparr>"

definition toy_sessions :: "rat db" where
  "toy_sessions = empty_db\<lparr>
     db_memories := [toy_session ''e1'' (toy_row ''i1'' ''k1'' ''tea'' ''private''), toy_session ''e1'' (toy_row ''i2'' ''k2'' ''tea time'' ''team''),
       toy_session ''e2'' (toy_row ''i3'' ''k3'' ''tea leaf'' ''team'')]\<rparr>"

definition toy_found :: "rat memory_hit list" where
  "toy_found = map (\<lambda>r. memory_hit_from_row r 0) [toy_session ''e1'' (toy_row ''i1'' ''k1'' ''tea'' ''private''),
     toy_session ''e2'' (toy_row ''i3'' ''k3'' ''tea leaf'' ''team'')]"

lemma displacement_keeps_sessions_witness:
  "session_of ` set toy_found \<subseteq>
     session_of ` set (snd (the (associative_spread toy_reader spread_precision Private toy_sessions toy_found)))"
proof -
  have "as_mode spread_precision = Spread_Rerank" by (simp add: spread_precision_def default_spread_def)
  moreover obtain d' out where run: "associative_spread toy_reader spread_precision Private toy_sessions toy_found = Some (d', out)"
    using spread_returns by (metis surj_pair)
  ultimately have "session_of ` set toy_found \<subseteq> session_of ` set out"
    using displacement_keeps_sessions[OF run] by blast
  then show ?thesis by (simp add: run)
qed

end
