(* ===== verification/Fan_Out.thy ===== *)
theory Fan_Out
  imports Identity Visibility Turn_Policy Memory_Forget "HOL-Library.Multiset"
begin

text \<open>
  Read-time federation, \<open>spectral-graph/src/federation.rs\<close>: the registry and the coordinator of child
  brains, the fan-out of a recall with its visibility boundary and its verification, and the fusion of
  the ranked answers. A child brain is a handle \<open>'b\<close>; its scoped cascade is a parameter.
\<close>

subsection \<open>Policy\<close>

datatype 'f fusion_method = Rrf 'f | Raw_Score

definition DEFAULT_PER_CHILD_CAP :: nat where "DEFAULT_PER_CHILD_CAP = 20"

record ('vk, 'f) merge_policy =
  mp_fusion :: "'f fusion_method"
  mp_per_child_cap :: "nat option"
  mp_grants :: "(id32 \<rightharpoonup> 'vk) option"

text \<open>
  Floats are \<open>'f\<close> with the operations the merge uses; \<open>fz_le\<close> is \<open>total_cmp\<close>, \<open>fz_60\<close> the default
  constant of the fusion. \<open>fz_entries\<close> is the order in which a hash map yields its entries.
\<close>

record 'f fuse_env =
  fz_add :: "'f \<Rightarrow> 'f \<Rightarrow> 'f"
  fz_mul :: "'f \<Rightarrow> 'f \<Rightarrow> 'f"
  fz_div :: "'f \<Rightarrow> 'f \<Rightarrow> 'f"
  fz_of_nat :: "nat \<Rightarrow> 'f"
  fz_finite :: "'f \<Rightarrow> bool"
  fz_positive :: "'f \<Rightarrow> bool"
  fz_clamp01 :: "'f \<Rightarrow> 'f"
  fz_le :: "'f \<Rightarrow> 'f \<Rightarrow> bool"
  fz_zero :: 'f
  fz_one :: 'f
  fz_60 :: 'f
  fz_words :: "string \<Rightarrow> string list"
  fz_lower :: "string \<Rightarrow> string"
  fz_hash :: "byte list \<Rightarrow> id32"
  fz_entries :: "((id32 \<times> id32) \<times> nat) list \<Rightarrow> ((id32 \<times> id32) \<times> nat) list"

definition default_policy :: "'f fuse_env \<Rightarrow> ('vk, 'f) merge_policy" where
  "default_policy F = \<lparr>mp_fusion = Rrf (fz_60 F), mp_per_child_cap = Some DEFAULT_PER_CHILD_CAP, mp_grants = None\<rparr>"

definition raw_scores :: "('vk, 'f) merge_policy" where
  "raw_scores = \<lparr>mp_fusion = Raw_Score, mp_per_child_cap = None, mp_grants = None\<rparr>"

definition join_words :: "string list \<Rightarrow> string" where
  "join_words ws = (case ws of [] \<Rightarrow> [] | w # vs \<Rightarrow> w @ concat (map (\<lambda>v. '' '' @ v) vs))"

definition content_fingerprint :: "'f fuse_env \<Rightarrow> string \<Rightarrow> id32" where
  "content_fingerprint F content = fz_hash F (as_bytes (fz_lower F (join_words (fz_words F content))))"

subsection \<open>The registry and the coordinator\<close>

type_synonym brain_registry = "id32 \<rightharpoonup> string"

definition register :: "id32 \<Rightarrow> string \<Rightarrow> brain_registry \<Rightarrow> brain_registry \<times> string option" where
  "register i dir r = (r(i \<mapsto> dir), r i)"

definition deregister :: "id32 \<Rightarrow> brain_registry \<Rightarrow> brain_registry \<times> string option" where
  "deregister i r = (r(i := None), r i)"

record ('b, 'f) child =
  ch_brain :: 'b
  ch_weight :: 'f

record ('b, 'f) coordinator =
  co_registry :: brain_registry
  co_children :: "('b, 'f) child list"

definition new_coordinator :: "('b, 'f) coordinator" where
  "new_coordinator = \<lparr>co_registry = (\<lambda>i. None), co_children = []\<rparr>"

text \<open>\<open>iter_mut().find(..)\<close> replaces the first child with the id.\<close>

fun replace_child :: "('b \<Rightarrow> id32) \<Rightarrow> ('b, 'f) child \<Rightarrow> ('b, 'f) child list \<Rightarrow> ('b, 'f) child list" where
  "replace_child bid c [] = [c]"
| "replace_child bid c (x # xs) = (if bid (ch_brain x) = bid (ch_brain c) then c # xs else x # replace_child bid c xs)"

definition add_brain_weighted ::
    "('b \<Rightarrow> id32) \<Rightarrow> 'b \<Rightarrow> string \<Rightarrow> 'f \<Rightarrow> ('b, 'f) coordinator \<Rightarrow> ('b, 'f) coordinator" where
  "add_brain_weighted bid brain dir weight co =
     \<lparr>co_registry = fst (register (bid brain) dir (co_registry co)),
      co_children = replace_child bid \<lparr>ch_brain = brain, ch_weight = weight\<rparr> (co_children co)\<rparr>"

definition add_brain :: "'f fuse_env \<Rightarrow> ('b \<Rightarrow> id32) \<Rightarrow> 'b \<Rightarrow> string \<Rightarrow> ('b, 'f) coordinator \<Rightarrow> ('b, 'f) coordinator" where
  "add_brain F bid brain dir co = add_brain_weighted bid brain dir (fz_one F) co"

subsection \<open>Fusion\<close>

record 'f labeled_hit =
  lh_origin :: id32
  lh_effective_score :: 'f
  lh_hit :: "'f memory_hit"

record 'f flat_hit =
  fl_origin :: id32
  fl_fp :: id32
  fl_weight :: 'f
  fl_rank :: nat
  fl_hit :: "'f memory_hit"

type_synonym 'f contribution = "id32 \<times> 'f \<times> 'f memory_hit list"

definition truncate_hits :: "nat option \<Rightarrow> 'f contribution \<Rightarrow> 'f contribution" where
  "truncate_hits cap c =
     (case c of (origin, weight, hits) \<Rightarrow>
       (origin, weight, case cap of Some n \<Rightarrow> take n hits | None \<Rightarrow> hits))"

definition flatten_child :: "'f fuse_env \<Rightarrow> 'f contribution \<Rightarrow> 'f flat_hit list" where
  "flatten_child F c =
     (case c of (origin, weight, hits) \<Rightarrow>
       map (\<lambda>(rank, h). \<lparr>fl_origin = origin, fl_fp = content_fingerprint F (hit_content h), fl_weight = weight,
                         fl_rank = rank, fl_hit = h\<rparr>) (enumerate 0 hits))"

text \<open>\<open>entry(..).and_modify(min).or_insert\<close> over the flat list.\<close>

fun note_rank :: "(id32 \<times> id32) \<Rightarrow> nat \<Rightarrow> ((id32 \<times> id32) \<times> nat) list \<Rightarrow> ((id32 \<times> id32) \<times> nat) list" where
  "note_rank k r [] = [(k, r)]"
| "note_rank k r ((x, q) # t) = (if x = k then (x, min q r) # t else (x, q) # note_rank k r t)"

definition best_ranks :: "'f flat_hit list \<Rightarrow> ((id32 \<times> id32) \<times> nat) list" where
  "best_ranks flat = fold (\<lambda>f. note_rank (fl_origin f, fl_fp f) (fl_rank f)) flat []"

definition weights_of :: "'f flat_hit list \<Rightarrow> id32 \<rightharpoonup> 'f" where
  "weights_of flat = fold (\<lambda>f m. m(fl_origin f \<mapsto> fl_weight f)) flat (\<lambda>i. None)"

definition fuse_one ::
    "'f fuse_env \<Rightarrow> 'f \<Rightarrow> (id32 \<rightharpoonup> 'f) \<Rightarrow> (id32 \<times> id32) \<times> nat \<Rightarrow> (id32 \<rightharpoonup> 'f) \<Rightarrow> (id32 \<rightharpoonup> 'f)" where
  "fuse_one F k weight_of entry fused =
     (case entry of ((origin, fp), rank) \<Rightarrow>
       let w = (case weight_of origin of Some x \<Rightarrow> x | None \<Rightarrow> fz_one F);
           denom = fz_add F k (fz_of_nat F rank)
       in if \<not> fz_finite F w \<or> \<not> fz_finite F denom \<or> \<not> fz_positive F denom then fused
          else fused(fp \<mapsto> fz_add F (case fused fp of Some x \<Rightarrow> x | None \<Rightarrow> fz_zero F) (fz_div F w denom)))"

definition fused_scores :: "'f fuse_env \<Rightarrow> 'f \<Rightarrow> 'f flat_hit list \<Rightarrow> (id32 \<rightharpoonup> 'f)" where
  "fused_scores F k flat = fold (fuse_one F k (weights_of flat)) (fz_entries F (best_ranks flat)) (\<lambda>fp. None)"

definition raw_score :: "'f fuse_env \<Rightarrow> 'f flat_hit \<Rightarrow> 'f" where
  "raw_score F f =
     (let w = (if fz_finite F (fl_weight f) then fl_weight f else fz_zero F);
          s = (if fz_finite F (hit_signal_score (fl_hit f)) then fz_clamp01 F (hit_signal_score (fl_hit f)) else fz_zero F)
      in fz_mul F s w)"

definition score_hits :: "'f fuse_env \<Rightarrow> 'f fusion_method \<Rightarrow> 'f flat_hit list \<Rightarrow> (id32 \<times> 'f labeled_hit) list" where
  "score_hits F fusion flat =
     (case fusion of
        Raw_Score \<Rightarrow> map (\<lambda>f. (fl_fp f, \<lparr>lh_origin = fl_origin f, lh_effective_score = raw_score F f, lh_hit = fl_hit f\<rparr>)) flat
      | Rrf k \<Rightarrow>
          let fused = fused_scores F k flat
          in map (\<lambda>f. (fl_fp f, \<lparr>lh_origin = fl_origin f,
                   lh_effective_score = (case fused (fl_fp f) of Some s \<Rightarrow> s | None \<Rightarrow> fz_zero F), lh_hit = fl_hit f\<rparr>)) flat)"

text \<open>Score descending, then fingerprint, origin and memory id.\<close>

definition ranks_before :: "'f fuse_env \<Rightarrow> id32 \<times> 'f labeled_hit \<Rightarrow> id32 \<times> 'f labeled_hit \<Rightarrow> bool" where
  "ranks_before F a b \<longleftrightarrow>
     (let sa = lh_effective_score (snd a); sb = lh_effective_score (snd b)
      in if \<not> fz_le F sa sb then True else if \<not> fz_le F sb sa then False
         else if fst a \<noteq> fst b then fst a < fst b
         else if lh_origin (snd a) \<noteq> lh_origin (snd b) then lh_origin (snd a) < lh_origin (snd b)
         else hit_id (lh_hit (snd a)) \<le> hit_id (lh_hit (snd b)))"

definition merge_and_rank ::
    "'f fuse_env \<Rightarrow> ('vk, 'f) merge_policy \<Rightarrow> 'f contribution list \<Rightarrow> 'f labeled_hit list \<times> (id32 \<times> nat) list" where
  "merge_and_rank F policy contributions =
     (let capped = map (truncate_hits (mp_per_child_cap policy)) contributions;
          per_brain = map (\<lambda>(origin, weight, hits). (origin, length hits)) capped;
          flat = concat (map (flatten_child F) capped);
          keyed = score_hits F (mp_fusion policy) flat
      in (map snd (order_by (ranks_before F) keyed), per_brain))"

subsection \<open>The fan-out\<close>

record 'f fanout_result =
  fo_ranked :: "'f labeled_hit list"
  fo_per_brain :: "(id32 \<times> nat) list"
  fo_recognition_token_cost :: nat
  fo_failed :: "(id32 \<times> string) list"
  fo_unverified :: nat

definition is_complete :: "'f fanout_result \<Rightarrow> bool" where
  "is_complete r \<longleftrightarrow> fo_failed r = []"

text \<open>\<open>Brain::verify_hit\<close>; \<open>sig_of\<close> is \<open>Signature::from_slice\<close>.\<close>

definition verify_hit :: "('vk, 'sig) crypto \<Rightarrow> (byte list \<Rightarrow> 'sig option) \<Rightarrow> 'f memory_hit \<Rightarrow> 'vk \<Rightarrow> bool" where
  "verify_hit C sig_of h pubkey =
     (case (hit_source_brain_id h, hit_signature h, hit_created_at h) of
        (Some source, Some sig_bytes, Some created) \<Rightarrow>
          (case sig_of sig_bytes of
             None \<Rightarrow> False
           | Some sig \<Rightarrow> verify_memory_signature C source pubkey (hit_key h)
               (to_hex (blake3 C (as_bytes (hit_content h)))) created (hit_visibility h) sig)
      | _ \<Rightarrow> False)"

definition granted :: "('vk, 'sig) crypto \<Rightarrow> (byte list \<Rightarrow> 'sig option) \<Rightarrow> (id32 \<rightharpoonup> 'vk) \<Rightarrow> 'f memory_hit \<Rightarrow> bool" where
  "granted C sig_of grants h =
     (case Option.bind (hit_source_brain_id h) grants of None \<Rightarrow> False | Some key \<Rightarrow> verify_hit C sig_of h key)"

text \<open>
  \<open>recall b config visibility\<close> is \<open>recall_cascade_scoped\<close> of a child on the query and the context of the
  call: the hits and the token cost, or the text of the error.
\<close>

record ('b, 'f, 'vk, 'sig, 'w, 's) fan_env =
  fe_fuse :: "'f fuse_env"
  fe_crypto :: "('vk, 'sig) crypto"
  fe_sig_of :: "byte list \<Rightarrow> 'sig option"
  fe_brain_id :: "'b \<Rightarrow> id32"
  fe_recall :: "'b \<Rightarrow> ('w, 's) cascade_config \<Rightarrow> visibility \<Rightarrow> string + 'f memory_hit list \<times> nat"

definition visible_hits :: "visibility \<Rightarrow> 'f memory_hit list \<Rightarrow> 'f memory_hit list" where
  "visible_hits v hits = filter (\<lambda>h. allows (str_to_vis (hit_visibility h)) v) hits"

definition ask_child ::
    "('b, 'f, 'vk, 'sig, 'w, 's) fan_env \<Rightarrow> ('w, 's) cascade_config \<Rightarrow> visibility \<Rightarrow> (id32 \<rightharpoonup> 'vk) option \<Rightarrow>
      ('b, 'f) child \<Rightarrow> 'f contribution list \<times> nat \<times> (id32 \<times> string) list \<times> nat \<Rightarrow>
      'f contribution list \<times> nat \<times> (id32 \<times> string) list \<times> nat" where
  "ask_child E config v grants c acc =
     (case acc of (contributions, cost, failed, unverified) \<Rightarrow>
       let origin = fe_brain_id E (ch_brain c)
       in case fe_recall E (ch_brain c) config v of
            Inl e \<Rightarrow> (contributions, cost, failed @ [(origin, e)], unverified)
          | Inr (hits, n) \<Rightarrow>
              let visible = visible_hits v hits;
                  kept = (case grants of None \<Rightarrow> visible
                          | Some g \<Rightarrow> filter (granted (fe_crypto E) (fe_sig_of E) g) visible)
              in (contributions @ [(origin, ch_weight c, kept)], cost + n, failed,
                  unverified + (length visible - length kept)))"

definition fan_out_recall_with_policy ::
    "('b, 'f, 'vk, 'sig, 'w, 's) fan_env \<Rightarrow> ('w, 's) cascade_config \<Rightarrow> visibility \<Rightarrow> ('vk, 'f) merge_policy \<Rightarrow>
      ('b, 'f) coordinator \<Rightarrow> 'f fanout_result" where
  "fan_out_recall_with_policy E config v policy co =
     (let config = config\<lparr>cc_write_back := False\<rparr>
      in case fold (ask_child E config v (mp_grants policy)) (co_children co) ([], 0, [], 0) of
           (contributions, cost, failed, unverified) \<Rightarrow>
             case merge_and_rank (fe_fuse E) policy contributions of
               (ranked, per_brain) \<Rightarrow>
                 \<lparr>fo_ranked = ranked, fo_per_brain = per_brain, fo_recognition_token_cost = cost,
                  fo_failed = failed, fo_unverified = unverified\<rparr>)"

definition fan_out_recall ::
    "('b, 'f, 'vk, 'sig, 'w, 's) fan_env \<Rightarrow> ('w, 's) cascade_config \<Rightarrow> visibility \<Rightarrow>
      ('b, 'f) coordinator \<Rightarrow> 'f fanout_result" where
  "fan_out_recall E config v co = fan_out_recall_with_policy E config v (default_policy (fe_fuse E)) co"

subsection \<open>The coordinator\<close>

lemma replace_child_ids:
  "(\<lambda>c. bid (ch_brain c)) ` set (replace_child bid c xs) = insert (bid (ch_brain c)) ((\<lambda>c. bid (ch_brain c)) ` set xs)"
  by (induction xs) (auto simp: insert_commute)

lemma replace_child_distinct:
  "distinct (map (\<lambda>c. bid (ch_brain c)) xs) \<Longrightarrow> distinct (map (\<lambda>c. bid (ch_brain c)) (replace_child bid c xs))"
proof (induction xs)
  case (Cons x xs)
  then show ?case using replace_child_ids[of bid c xs] by (auto simp: image_image)
qed simp

definition coordinator_ok :: "('b \<Rightarrow> id32) \<Rightarrow> ('b, 'f) coordinator \<Rightarrow> bool" where
  "coordinator_ok bid co \<longleftrightarrow> distinct (map (\<lambda>c. bid (ch_brain c)) (co_children co)) \<and>
     dom (co_registry co) = (\<lambda>c. bid (ch_brain c)) ` set (co_children co)"

lemma coordinator_ok_new: "coordinator_ok bid new_coordinator"
  by (simp add: coordinator_ok_def new_coordinator_def)

lemma coordinator_ok_add: "coordinator_ok bid co \<Longrightarrow> coordinator_ok bid (add_brain_weighted bid b dir w co)"
  by (simp add: coordinator_ok_def add_brain_weighted_def register_def replace_child_distinct replace_child_ids)

subsection \<open>The merge\<close>

definition provenance_of :: "'f labeled_hit \<Rightarrow> id32 \<times> 'f memory_hit" where
  "provenance_of l = (lh_origin l, lh_hit l)"

lemma map_flatten_child:
  "map (\<lambda>f. (fl_origin f, fl_hit f)) (flatten_child F (origin, w, hits)) = map (Pair origin) hits"
proof -
  have "map (\<lambda>f. (fl_origin f, fl_hit f)) (map (\<lambda>(rank, h). \<lparr>fl_origin = origin,
      fl_fp = content_fingerprint F (hit_content h), fl_weight = w, fl_rank = rank, fl_hit = h\<rparr>) (enumerate n hits)) =
    map (Pair origin) hits" for n
    by (induction hits arbitrary: n) simp_all
  then show ?thesis by (simp add: flatten_child_def)
qed

lemma map_score_hits:
  "map (\<lambda>x. provenance_of (snd x)) (score_hits F fusion flat) = map (\<lambda>f. (fl_origin f, fl_hit f)) flat"
  by (cases fusion) (simp_all add: score_hits_def Let_def provenance_of_def)

lemma merge_mset:
  "mset (map provenance_of (fst (merge_and_rank F policy cs))) =
   mset (concat (map (\<lambda>(o1, w, hits). map (Pair o1) (case mp_per_child_cap policy of Some n \<Rightarrow> take n hits | None \<Rightarrow> hits)) cs))"
proof -
  let ?flat = "concat (map (flatten_child F) (map (truncate_hits (mp_per_child_cap policy)) cs))"
  have "mset (map provenance_of (fst (merge_and_rank F policy cs))) =
      image_mset (\<lambda>x. provenance_of (snd x)) (mset (score_hits F (mp_fusion policy) ?flat))"
    by (simp add: merge_and_rank_def Let_def mset_order_by image_mset.compositionality comp_def)
  also have "\<dots> = mset (map (\<lambda>f. (fl_origin f, fl_hit f)) ?flat)"
    using arg_cong[OF map_score_hits[of F "mp_fusion policy" ?flat], of mset] unfolding mset_map .
  also have "map (\<lambda>f. (fl_origin f, fl_hit f)) ?flat =
      concat (map (\<lambda>(o1, w, hits). map (Pair o1) (case mp_per_child_cap policy of Some n \<Rightarrow> take n hits | None \<Rightarrow> hits)) cs)"
    by (induction cs) (auto simp: truncate_hits_def map_flatten_child split: prod.split)
  finally show ?thesis .
qed

text \<open>What a member asserts of its own memories.\<close>

definition rescore :: "('f memory_hit \<Rightarrow> 'f) \<Rightarrow> 'f memory_hit \<Rightarrow> 'f memory_hit" where
  "rescore g h = h\<lparr>hit_signal_score := g h\<rparr>"

definition rescore_flat :: "('f memory_hit \<Rightarrow> 'f) \<Rightarrow> 'f flat_hit \<Rightarrow> 'f flat_hit" where
  "rescore_flat g f = f\<lparr>fl_hit := rescore g (fl_hit f)\<rparr>"

definition rescore_label :: "('f memory_hit \<Rightarrow> 'f) \<Rightarrow> 'f labeled_hit \<Rightarrow> 'f labeled_hit" where
  "rescore_label g l = l\<lparr>lh_hit := rescore g (lh_hit l)\<rparr>"

definition rescore_all :: "('f memory_hit \<Rightarrow> 'f) \<Rightarrow> 'f contribution list \<Rightarrow> 'f contribution list" where
  "rescore_all g cs = map (\<lambda>(o1, w, hits). (o1, w, map (rescore g) hits)) cs"

lemma rescore_fields [simp]: "hit_content (rescore g h) = hit_content h" "hit_id (rescore g h) = hit_id h"
  by (simp_all add: rescore_def)

lemma flatten_rescore:
  "flatten_child F (o1, w, map (rescore g) hits) = map (rescore_flat g) (flatten_child F (o1, w, hits))"
proof -
  have "map (\<lambda>(rank, h). \<lparr>fl_origin = o1, fl_fp = content_fingerprint F (hit_content h), fl_weight = w, fl_rank = rank, fl_hit = h\<rparr>)
      (enumerate n (map (rescore g) hits)) =
    map (rescore_flat g) (map (\<lambda>(rank, h). \<lparr>fl_origin = o1, fl_fp = content_fingerprint F (hit_content h), fl_weight = w,
      fl_rank = rank, fl_hit = h\<rparr>) (enumerate n hits))" for n
    by (induction hits arbitrary: n) (simp_all add: rescore_flat_def)
  then show ?thesis by (simp add: flatten_child_def)
qed

lemma truncate_rescore:
  "map (truncate_hits cap) (rescore_all g cs) = rescore_all g (map (truncate_hits cap) cs)"
  by (auto simp: rescore_all_def truncate_hits_def take_map split: option.split)

lemma flat_rescore:
  "concat (map (flatten_child F) (rescore_all g cs)) = map (rescore_flat g) (concat (map (flatten_child F) cs))"
  by (induction cs) (auto simp: rescore_all_def flatten_rescore)

lemma best_ranks_rescore: "best_ranks (map (rescore_flat g) flat) = best_ranks flat"
  by (simp add: best_ranks_def fold_map comp_def rescore_flat_def)

lemma weights_rescore: "weights_of (map (rescore_flat g) flat) = weights_of flat"
  by (simp add: weights_of_def fold_map comp_def rescore_flat_def)

lemma score_rescore:
  "score_hits F (Rrf k) (map (rescore_flat g) flat) =
   map (\<lambda>(fp, l). (fp, rescore_label g l)) (score_hits F (Rrf k) flat)"
  by (simp add: score_hits_def Let_def fused_scores_def best_ranks_rescore weights_rescore)
    (simp add: rescore_flat_def rescore_label_def)

text \<open>
  With reciprocal rank fusion no member gains by asserting scores: whatever signal scores the hits
  of all members claim, the merge returns the same hits in the same order with the same fused scores
  and the same contribution counts.
\<close>

theorem fusion_ignores_claimed_scores:
  assumes "mp_fusion policy = Rrf k"
  shows "merge_and_rank F policy (rescore_all g cs) =
    map_prod (map (rescore_label g)) (\<lambda>x. x) (merge_and_rank F policy cs)"
proof -
  let ?r = "\<lambda>(fp, l). (fp, rescore_label g l)"
  have le: "ranks_before F (?r a) (?r b) = ranks_before F a b" for a b
    by (cases a; cases b) (simp add: ranks_before_def rescore_label_def Let_def)
  have "map snd (order_by (ranks_before F) (map ?r keyed)) = map (rescore_label g) (map snd (order_by (ranks_before F) keyed))" for keyed
    by (simp add: order_by_map[of "ranks_before F" ?r, OF le] comp_def case_prod_beta)
  moreover have "map (\<lambda>(o1, w, hits). (o1, length hits)) (rescore_all g cs') = map (\<lambda>(o1, w, hits). (o1, length hits)) cs'" for cs'
    by (auto simp: rescore_all_def)
  ultimately show ?thesis
    by (simp add: merge_and_rank_def Let_def truncate_rescore flat_rescore assms score_rescore)
qed

subsection \<open>Repeating oneself\<close>

lemma note_rank_lookup:
  "map_of (note_rank k r t) x = (if x = k then Some (case map_of t k of None \<Rightarrow> r | Some q \<Rightarrow> min q r) else map_of t x)"
  by (induction t) auto

lemma note_rank_known: "map_of t k = Some q \<Longrightarrow> q \<le> r \<Longrightarrow> note_rank k r t = t"
  by (induction t) (auto split: if_splits)

definition noted :: "((id32 \<times> id32) \<times> nat) list \<Rightarrow> 'f flat_hit \<Rightarrow> bool" where
  "noted t f \<longleftrightarrow> (\<exists>q \<le> fl_rank f. map_of t (fl_origin f, fl_fp f) = Some q)"

abbreviation note_all :: "'f flat_hit list \<Rightarrow> ((id32 \<times> id32) \<times> nat) list \<Rightarrow> ((id32 \<times> id32) \<times> nat) list" where
  "note_all fs t \<equiv> fold (\<lambda>f. note_rank (fl_origin f, fl_fp f) (fl_rank f)) fs t"

lemma noted_keep: "noted t f \<Longrightarrow> noted (note_rank k r t) f"
  by (auto simp: noted_def note_rank_lookup min_le_iff_disj)

lemma noted_keeps: "noted t f \<Longrightarrow> noted (note_all fs t) f"
  by (induction fs arbitrary: t) (simp_all add: noted_keep)

lemma noted_all: "f \<in> set fs \<Longrightarrow> noted (note_all fs t) f"
proof (induction fs arbitrary: t)
  case (Cons a fs)
  have "noted (note_rank (fl_origin a, fl_fp a) (fl_rank a) t) a"
    by (auto simp: noted_def note_rank_lookup split: option.split)
  then show ?case using Cons noted_keeps by auto
qed simp

lemma note_all_known: "\<forall>f \<in> set fs. noted t f \<Longrightarrow> note_all fs t = t"
proof (induction fs)
  case (Cons a fs)
  then obtain q where "q \<le> fl_rank a" "map_of t (fl_origin a, fl_fp a) = Some q" by (auto simp: noted_def)
  then show ?case using Cons by (simp add: note_rank_known)
qed simp

lemma flatten_append:
  "flatten_child F (o1, w, hits @ dups) = flatten_child F (o1, w, hits) @
     map (\<lambda>(rank, h). \<lparr>fl_origin = o1, fl_fp = content_fingerprint F (hit_content h), fl_weight = w,
       fl_rank = rank, fl_hit = h\<rparr>) (enumerate (length hits) dups)"
  by (simp add: flatten_child_def enumerate_append_eq)

lemma flatten_member:
  "h \<in> set hits \<Longrightarrow> \<exists>f \<in> set (flatten_child F (o1, w, hits)). fl_origin f = o1 \<and> fl_weight f = w \<and>
     fl_fp f = content_fingerprint F (hit_content h) \<and> fl_rank f < length hits"
proof -
  assume "h \<in> set hits"
  then obtain i where "i < length hits" "hits ! i = h" by (auto simp: in_set_conv_nth)
  then have "(i, h) \<in> set (enumerate 0 hits)" by (auto simp: in_set_enumerate_eq)
  then show ?thesis using \<open>i < length hits\<close> by (force simp: flatten_child_def)
qed

lemma weights_known: "\<forall>f \<in> set fs. m (fl_origin f) = Some (fl_weight f) \<Longrightarrow> fold (\<lambda>f m. m(fl_origin f \<mapsto> fl_weight f)) fs m = m"
  by (induction fs) (simp_all add: fun_upd_idem)

lemma weights_child:
  "hits \<noteq> [] \<Longrightarrow> fold (\<lambda>f m. m(fl_origin f \<mapsto> fl_weight f)) (flatten_child F (o1, w, hits)) m o1 = Some w"
proof -
  have "fold (\<lambda>f m. m(fl_origin f \<mapsto> fl_weight f)) fs m o1 = Some w"
    if "fs \<noteq> []" "\<forall>f \<in> set fs. fl_origin f = o1 \<and> fl_weight f = w" for fs and m :: "id32 \<rightharpoonup> 'a"
    using that by (induction fs arbitrary: m) (auto simp: fun_upd_idem weights_known)
  moreover have "\<forall>f \<in> set (flatten_child F (o1, w, hits)). fl_origin f = o1 \<and> fl_weight f = w"
    by (auto simp: flatten_child_def)
  moreover have "length (flatten_child F (o1, w, hits)) = length hits" by (simp add: flatten_child_def)
  then have "hits \<noteq> [] \<Longrightarrow> flatten_child F (o1, w, hits) \<noteq> []" by auto
  ultimately show "hits \<noteq> [] \<Longrightarrow> ?thesis" by blast
qed

text \<open>
  A member cannot corroborate itself: with reciprocal rank fusion, returning further copies of
  contents it has already returned changes the fused score of no content.
\<close>

theorem fusion_no_self_corroboration:
  assumes "\<forall>h \<in> set copies. \<exists>x \<in> set hits. content_fingerprint F (hit_content x) = content_fingerprint F (hit_content h)"
  shows "fused_scores F k (concat (map (flatten_child F) (before @ (o1, w, hits @ copies) # after))) =
    fused_scores F k (concat (map (flatten_child F) (before @ (o1, w, hits) # after)))"
proof (cases "copies = []")
  case False
  let ?xs = "concat (map (flatten_child F) before) @ flatten_child F (o1, w, hits)"
  let ?ys = "map (\<lambda>(rank, h). \<lparr>fl_origin = o1, fl_fp = content_fingerprint F (hit_content h), fl_weight = w,
       fl_rank = rank, fl_hit = h\<rparr>) (enumerate (length hits) copies)"
  let ?zs = "concat (map (flatten_child F) after)"
  have "hits \<noteq> []" using assms False by (cases copies) auto
  have "noted (note_all ?xs []) f" if f: "f \<in> set ?ys" for f
  proof -
    obtain rank h where h: "h \<in> set copies" "length hits \<le> rank"
      "f = \<lparr>fl_origin = o1, fl_fp = content_fingerprint F (hit_content h), fl_weight = w, fl_rank = rank, fl_hit = h\<rparr>"
      using f by (auto simp: in_set_enumerate_eq)
    obtain x where "x \<in> set hits" "content_fingerprint F (hit_content x) = content_fingerprint F (hit_content h)"
      using assms h(1) by blast
    with flatten_member[of x hits F o1 w] obtain y where y: "y \<in> set (flatten_child F (o1, w, hits))" "fl_origin y = o1"
      "fl_fp y = content_fingerprint F (hit_content h)" "fl_rank y < length hits" by auto
    have "noted (note_all ?xs []) y" by (rule noted_all) (use y(1) in simp)
    then show ?thesis using y h(2,3) by (force simp: noted_def)
  qed
  then have "note_all ?ys (note_all ?xs []) = note_all ?xs []" by (intro note_all_known) blast
  then have ranks: "best_ranks (?xs @ ?ys @ ?zs) = best_ranks (?xs @ ?zs)"
    unfolding best_ranks_def by simp
  let ?upd = "\<lambda>f m. m(fl_origin f \<mapsto> fl_weight f)"
  have "fold ?upd ?xs (\<lambda>i. None) o1 = Some w" using weights_child[OF \<open>hits \<noteq> []\<close>] by simp
  then have "\<forall>f \<in> set ?ys. fold ?upd ?xs (\<lambda>i. None) (fl_origin f) = Some (fl_weight f)" by auto
  then have "fold ?upd ?ys (fold ?upd ?xs (\<lambda>i. None)) = fold ?upd ?xs (\<lambda>i. None)" by (rule weights_known)
  then have weights: "weights_of (?xs @ ?ys @ ?zs) = weights_of (?xs @ ?zs)"
    unfolding weights_of_def by (simp only: fold_append comp_def)
  have "concat (map (flatten_child F) (before @ (o1, w, hits @ copies) # after)) = ?xs @ ?ys @ ?zs"
    "concat (map (flatten_child F) (before @ (o1, w, hits) # after)) = ?xs @ ?zs"
    by (simp_all add: flatten_append)
  then show ?thesis by (simp only: fused_scores_def ranks weights)
qed simp

subsection \<open>What a fan-out returns\<close>

definition answers_of ::
    "('b, 'f, 'vk, 'sig, 'w, 's) fan_env \<Rightarrow> ('w, 's) cascade_config \<Rightarrow> visibility \<Rightarrow> (id32 \<rightharpoonup> 'vk) option \<Rightarrow>
      ('b, 'f) child \<Rightarrow> 'f contribution list" where
  "answers_of E config v grants c =
     (case fe_recall E (ch_brain c) config v of
        Inl e \<Rightarrow> []
      | Inr (hits, n) \<Rightarrow> [(fe_brain_id E (ch_brain c), ch_weight c,
          case grants of None \<Rightarrow> visible_hits v hits
          | Some g \<Rightarrow> filter (granted (fe_crypto E) (fe_sig_of E) g) (visible_hits v hits))])"

lemma ask_children:
  "fold (ask_child E config v grants) cs (con, cost, failed, unv) = (con1, cost1, failed1, unv1) \<Longrightarrow>
    con1 = con @ concat (map (answers_of E config v grants) cs) \<and>
    fst ` set failed1 = fst ` set failed \<union>
      {fe_brain_id E (ch_brain c) |c. c \<in> set cs \<and> (\<exists>e. fe_recall E (ch_brain c) config v = Inl e)}"
proof (induction cs arbitrary: con cost failed unv)
  case (Cons c cs)
  show ?case
  proof (cases "fe_recall E (ch_brain c) config v")
    case (Inl e)
    then have "ask_child E config v grants c (con, cost, failed, unv) =
        (con, cost, failed @ [(fe_brain_id E (ch_brain c), e)], unv)"
      by (simp add: ask_child_def)
    then have "fold (ask_child E config v grants) cs (con, cost, failed @ [(fe_brain_id E (ch_brain c), e)], unv) = (con1, cost1, failed1, unv1)"
      using Cons.prems by simp
    from Cons.IH[OF this] show ?thesis using Inl by (auto simp: answers_of_def)
  next
    case (Inr x)
    obtain hits n where x: "x = (hits, n)" by (cases x)
    obtain unv2 where "ask_child E config v grants c (con, cost, failed, unv) =
        (con @ answers_of E config v grants c, cost + n, failed, unv2)"
      using Inr x by (simp add: ask_child_def answers_of_def Let_def)
    then have "fold (ask_child E config v grants) cs
        (con @ answers_of E config v grants c, cost + n, failed, unv2) = (con1, cost1, failed1, unv1)"
      using Cons.prems by simp
    from Cons.IH[OF this] show ?thesis using Inr x by auto
  qed
qed simp

lemma fan_out_ranked:
  fixes E :: "('b, 'f, 'vk, 'sig, 'w, 's) fan_env"
  defines "r \<equiv> \<lambda>config v policy co. fan_out_recall_with_policy E config v policy co"
  shows "mset (map provenance_of (fo_ranked (r config v policy co))) =
      mset (concat (map (\<lambda>(o1, w, hits). map (Pair o1) (case mp_per_child_cap policy of Some n \<Rightarrow> take n hits | None \<Rightarrow> hits))
        (concat (map (answers_of E (config\<lparr>cc_write_back := False\<rparr>) v (mp_grants policy)) (co_children co)))))"
    and "fst ` set (fo_failed (r config v policy co)) =
      {fe_brain_id E (ch_brain c) |c. c \<in> set (co_children co) \<and> (\<exists>e. fe_recall E (ch_brain c) (config\<lparr>cc_write_back := False\<rparr>) v = Inl e)}"
proof -
  obtain con cost failed unv where run: "fold (ask_child E (config\<lparr>cc_write_back := False\<rparr>) v (mp_grants policy)) (co_children co) ([], 0, [], 0) =
      (con, cost, failed, unv)" by (rule prod_cases4)
  have res: "fo_ranked (r config v policy co) = fst (merge_and_rank (fe_fuse E) policy con)" "fo_failed (r config v policy co) = failed"
    by (simp_all add: r_def fan_out_recall_with_policy_def Let_def run split: prod.split)
  note asked = ask_children[OF run]
  show "mset (map provenance_of (fo_ranked (r config v policy co))) =
      mset (concat (map (\<lambda>(o1, w, hits). map (Pair o1) (case mp_per_child_cap policy of Some n \<Rightarrow> take n hits | None \<Rightarrow> hits))
        (concat (map (answers_of E (config\<lparr>cc_write_back := False\<rparr>) v (mp_grants policy)) (co_children co)))))"
    unfolding res(1) merge_mset using asked by simp
  show "fst ` set (fo_failed (r config v policy co)) =
      {fe_brain_id E (ch_brain c) |c. c \<in> set (co_children co) \<and> (\<exists>e. fe_recall E (ch_brain c) (config\<lparr>cc_write_back := False\<rparr>) v = Inl e)}"
    unfolding res(2) using asked by simp
qed

lemma answers_of_hits:
  assumes "(o1, w, hits) \<in> set (answers_of E config v grants c)" and "h \<in> set hits"
  shows "o1 = fe_brain_id E (ch_brain c) \<and> (\<exists>all n. fe_recall E (ch_brain c) config v = Inr (all, n) \<and> h \<in> set all) \<and>
    allows (str_to_vis (hit_visibility h)) v \<and> (\<forall>g. grants = Some g \<longrightarrow> granted (fe_crypto E) (fe_sig_of E) g h)"
proof (cases "fe_recall E (ch_brain c) config v")
  case (Inl e)
  then show ?thesis using assms(1) by (simp add: answers_of_def)
next
  case (Inr x)
  obtain all n where x: "x = (all, n)" by (cases x)
  have hits: "hits = (case grants of None \<Rightarrow> visible_hits v all
      | Some g \<Rightarrow> filter (granted (fe_crypto E) (fe_sig_of E) g) (visible_hits v all))" and "o1 = fe_brain_id E (ch_brain c)"
    using assms(1) Inr x by (simp_all add: answers_of_def)
  moreover have "h \<in> set (visible_hits v all) \<and> (\<forall>g. grants = Some g \<longrightarrow> granted (fe_crypto E) (fe_sig_of E) g h)"
    using assms(2) unfolding hits by (cases grants) auto
  ultimately show ?thesis using Inr x by (auto simp: visible_hits_def)
qed

lemma answers_of_origin: "x \<in> set (answers_of E config v grants c) \<Longrightarrow> fst x = fe_brain_id E (ch_brain c)"
  by (auto simp: answers_of_def split: sum.splits prod.splits)

lemma footprint:
  assumes "distinct (map (\<lambda>c. fe_brain_id E (ch_brain c)) cs)"
  shows "length (filter (\<lambda>p. fst p = i) (concat (map (\<lambda>(o1, w, hits). map (Pair o1) (take n hits))
    (concat (map (answers_of E config v grants) cs))))) \<le> n"
  using assms
proof (induction cs)
  case (Cons c cs)
  let ?pairs = "\<lambda>cs. concat (map (\<lambda>(o1, w, hits). map (Pair o1) (take n hits)) (concat (map (answers_of E config v grants) cs)))"
  have one: "length (?pairs [c]) \<le> n"
    by (auto simp: answers_of_def split: sum.split prod.split)
  have split: "?pairs (c # cs) = ?pairs [c] @ ?pairs cs" by simp
  show ?case
  proof (cases "fe_brain_id E (ch_brain c) = i")
    case True
    have "fst p \<noteq> i" if "p \<in> set (?pairs cs)" for p
    proof -
      from that obtain c2 x where "c2 \<in> set cs" "x \<in> set (answers_of E config v grants c2)" "fst p = fst x" by fastforce
      then show ?thesis using Cons.prems True answers_of_origin by fastforce
    qed
    then have "filter (\<lambda>p. fst p = i) (?pairs cs) = []" by (simp add: filter_empty_conv)
    then have "filter (\<lambda>p. fst p = i) (?pairs (c # cs)) = filter (\<lambda>p. fst p = i) (?pairs [c])" unfolding split by (simp only: filter_append append_Nil2)
    moreover have "length (filter (\<lambda>p. fst p = i) (?pairs [c])) \<le> n" by (rule le_trans[OF length_filter_le one])
    ultimately show ?thesis by (simp only:)
  next
    case False
    have "fst p \<noteq> i" if "p \<in> set (?pairs [c])" for p
      using that False by (auto dest: answers_of_origin)
    then have "filter (\<lambda>p. fst p = i) (?pairs [c]) = []" by (simp add: filter_empty_conv)
    then have "filter (\<lambda>p. fst p = i) (?pairs (c # cs)) = filter (\<lambda>p. fst p = i) (?pairs cs)" unfolding split by (simp only: filter_append append_Nil)
    moreover have "length (filter (\<lambda>p. fst p = i) (?pairs cs)) \<le> n" using Cons.IH Cons.prems by simp
    ultimately show ?thesis by (simp only:)
  qed
qed simp

lemma size_origin:
  "length (filter (\<lambda>l. lh_origin l = i) xs) = size (filter_mset (\<lambda>p. fst p = i) (mset (map provenance_of xs)))"
  by (induction xs) (simp_all add: provenance_of_def)

text \<open>
  C18: What a fan-out returns stays within its boundary: every hit comes from a child's recall that was
  asked not to write, is labelled with that child, is admitted by the requested visibility and, under
  a grant set, carries a signature that verifies against a registered key; no child contributes more
  hits than the cap, and the children that failed are exactly the ones reported.
\<close>

theorem fan_out_boundary:
  assumes "coordinator_ok (fe_brain_id E) co" and "r = fan_out_recall_with_policy E config v policy co"
  shows "(\<forall>l \<in> set (fo_ranked r). \<exists>c \<in> set (co_children co). lh_origin l = fe_brain_id E (ch_brain c) \<and>
      (\<exists>all n. fe_recall E (ch_brain c) (config\<lparr>cc_write_back := False\<rparr>) v = Inr (all, n) \<and> lh_hit l \<in> set all) \<and>
      allows (str_to_vis (hit_visibility (lh_hit l))) v \<and>
      (\<forall>g. mp_grants policy = Some g \<longrightarrow> granted (fe_crypto E) (fe_sig_of E) g (lh_hit l))) \<and>
    (\<forall>n i. mp_per_child_cap policy = Some n \<longrightarrow> length (filter (\<lambda>l. lh_origin l = i) (fo_ranked r)) \<le> n) \<and>
    fst ` set (fo_failed r) = {fe_brain_id E (ch_brain c) |c. c \<in> set (co_children co) \<and>
      (\<exists>e. fe_recall E (ch_brain c) (config\<lparr>cc_write_back := False\<rparr>) v = Inl e)}"
proof (intro conjI ballI allI impI)
  let ?cfg = "config\<lparr>cc_write_back := False\<rparr>"
  let ?answers = "concat (map (answers_of E ?cfg v (mp_grants policy)) (co_children co))"
  note ranked = fan_out_ranked[of E config v policy co, folded assms(2)]
  show "fst ` set (fo_failed r) = {fe_brain_id E (ch_brain c) |c. c \<in> set (co_children co) \<and> (\<exists>e. fe_recall E (ch_brain c) ?cfg v = Inl e)}"
    by (rule ranked(2))
  show "\<exists>c \<in> set (co_children co). lh_origin l = fe_brain_id E (ch_brain c) \<and>
      (\<exists>all n. fe_recall E (ch_brain c) ?cfg v = Inr (all, n) \<and> lh_hit l \<in> set all) \<and>
      allows (str_to_vis (hit_visibility (lh_hit l))) v \<and>
      (\<forall>g. mp_grants policy = Some g \<longrightarrow> granted (fe_crypto E) (fe_sig_of E) g (lh_hit l))"
    if l: "l \<in> set (fo_ranked r)" for l
  proof -
    have "provenance_of l \<in> set (map provenance_of (fo_ranked r))" using l by simp
    then have "provenance_of l \<in> set (concat (map (\<lambda>(o1, w, hits). map (Pair o1)
        (case mp_per_child_cap policy of Some n \<Rightarrow> take n hits | None \<Rightarrow> hits)) ?answers))"
      using arg_cong[OF ranked(1), of set_mset] unfolding set_mset_mset by (simp only:)
    then obtain o1 w hits where a: "(o1, w, hits) \<in> set ?answers"
      and "provenance_of l \<in> Pair o1 ` set (case mp_per_child_cap policy of Some n \<Rightarrow> take n hits | None \<Rightarrow> hits)"
      by auto
    then have o1: "lh_origin l = o1" and h: "lh_hit l \<in> set hits"
      by (auto simp: provenance_of_def split: option.splits dest: in_set_takeD)
    obtain c where c: "c \<in> set (co_children co)" "(o1, w, hits) \<in> set (answers_of E ?cfg v (mp_grants policy) c)" using a by auto
    show ?thesis using answers_of_hits[OF c(2) h] c(1) o1 by blast
  qed
  show "length (filter (\<lambda>l. lh_origin l = i) (fo_ranked r)) \<le> n" if cap: "mp_per_child_cap policy = Some n" for n i
  proof -
    have "length (filter (\<lambda>l. lh_origin l = i) (fo_ranked r)) = size (filter_mset (\<lambda>p. fst p = i) (mset (map provenance_of (fo_ranked r))))"
      by (rule size_origin)
    also have "\<dots> = length (filter (\<lambda>p. fst p = i) (concat (map (\<lambda>(o1, w, hits). map (Pair o1) (take n hits)) ?answers)))"
      unfolding ranked(1) cap option.case by (simp flip: mset_filter)
    also have "\<dots> \<le> n" by (rule footprint) (use assms(1) in \<open>simp add: coordinator_ok_def\<close>)
    finally show ?thesis .
  qed
qed

subsection \<open>Concrete members\<close>

definition toy_fuse :: "nat fuse_env" where
  "toy_fuse =
     \<lparr>fz_add = (+), fz_mul = (*), fz_div = (\<lambda>a b. a div b), fz_of_nat = (\<lambda>n. n), fz_finite = (\<lambda>x. True),
      fz_positive = (\<lambda>x. 0 < x), fz_clamp01 = min 1, fz_le = (\<le>), fz_zero = 0, fz_one = 1, fz_60 = 60,
      fz_words = (\<lambda>s. [s]), fz_lower = (\<lambda>s. s), fz_hash = (\<lambda>b. b), fz_entries = (\<lambda>es. es)\<rparr>"

definition toy_hit :: "nat memory_hit" where
  "toy_hit = memory_hit_from_row toy_memory 0"

definition toy_rrf :: "(nat, nat) merge_policy" where
  "toy_rrf = \<lparr>mp_fusion = Rrf 60, mp_per_child_cap = Some 1, mp_grants = None\<rparr>"

lemma fusion_ignores_claimed_scores_witness:
  "map lh_effective_score (fst (merge_and_rank toy_fuse toy_rrf (rescore_all (\<lambda>h. 999) [([1], 120, [toy_hit])]))) = [2]"
proof -
  have "mp_fusion toy_rrf = Rrf 60" by (simp add: toy_rrf_def)
  from fusion_ignores_claimed_scores[OF this, of toy_fuse "\<lambda>h. 999" "[([1], 120, [toy_hit])]"]
  show ?thesis
    by (simp add: merge_and_rank_def toy_rrf_def truncate_hits_def flatten_child_def score_hits_def fused_scores_def
        best_ranks_def weights_of_def fuse_one_def toy_fuse_def order_by_def rescore_label_def Let_def)
qed

lemma fusion_no_self_corroboration_witness:
  "fused_scores toy_fuse 60 (concat (map (flatten_child toy_fuse) [([1], 120, [toy_hit, toy_hit\<lparr>hit_id := ''i9''\<rparr>])])) =
   fused_scores toy_fuse 60 (concat (map (flatten_child toy_fuse) [([1], 120, [toy_hit])]))"
  using fusion_no_self_corroboration[of "[toy_hit\<lparr>hit_id := ''i9''\<rparr>]" "[toy_hit]" toy_fuse 60 "[]" "[1]" 120 "[]"] by simp

definition toy_fan :: "(byte list, nat, nat, nat, unit, unit) fan_env" where
  "toy_fan =
     \<lparr>fe_fuse = toy_fuse,
      fe_crypto = \<lparr>blake3 = (\<lambda>b. b), vk_bytes = (\<lambda>k. []), vk_of = (\<lambda>b. 0), sign_with = (\<lambda>k m. 0), accepts = (\<lambda>k m s. True)\<rparr>,
      fe_sig_of = (\<lambda>b. None), fe_brain_id = (\<lambda>b. b),
      fe_recall = (\<lambda>b config v. if b = [1] then Inr ([toy_hit, toy_hit], 0) else Inl ''locked'')\<rparr>"

definition toy_members :: "(byte list, nat) coordinator" where
  "toy_members = add_brain_weighted (\<lambda>b. b) [2] ''/b'' 1 (add_brain_weighted (\<lambda>b. b) [1] ''/a'' 120 new_coordinator)"

lemma fan_out_boundary_witness:
  "length (filter (\<lambda>l. lh_origin l = [1])
     (fo_ranked (fan_out_recall_with_policy toy_fan (default_config () ()) Private toy_rrf toy_members))) \<le> 1 \<and>
   fst ` set (fo_failed (fan_out_recall_with_policy toy_fan (default_config () ()) Private toy_rrf toy_members)) = {[2]}"
proof -
  have id: "fe_brain_id toy_fan = (\<lambda>b. b)" by (simp add: toy_fan_def)
  have "coordinator_ok (fe_brain_id toy_fan) toy_members"
    unfolding toy_members_def id by (intro coordinator_ok_add coordinator_ok_new)
  from fan_out_boundary[OF this refl, of "default_config () ()" Private toy_rrf]
  have "\<forall>n i. mp_per_child_cap toy_rrf = Some n \<longrightarrow> length (filter (\<lambda>l. lh_origin l = i)
      (fo_ranked (fan_out_recall_with_policy toy_fan (default_config () ()) Private toy_rrf toy_members))) \<le> n"
    and "fst ` set (fo_failed (fan_out_recall_with_policy toy_fan (default_config () ()) Private toy_rrf toy_members)) =
      {fe_brain_id toy_fan (ch_brain c) |c. c \<in> set (co_children toy_members) \<and>
        (\<exists>e. fe_recall toy_fan (ch_brain c) ((default_config () ())\<lparr>cc_write_back := False\<rparr>) Private = Inl e)}"
    by blast+
  moreover have "co_children toy_members = [\<lparr>ch_brain = [1], ch_weight = 120\<rparr>, \<lparr>ch_brain = [2], ch_weight = 1\<rparr>]"
    by (simp add: toy_members_def add_brain_weighted_def new_coordinator_def)
  moreover have "mp_per_child_cap toy_rrf = Some 1" by (simp add: toy_rrf_def)
  ultimately show ?thesis by (simp add: toy_fan_def) (auto intro: exI[of _ "\<lparr>ch_brain = [2], ch_weight = 1\<rparr>"] split: if_splits)
qed

end
