(* ===== verification/Cascade.thy ===== *)
theory Cascade
  imports Spreading Fan_Out
begin

text \<open>
  The integrated recall, \<open>spectral-graph/src/cascade_layers.rs\<close> and \<open>brain.rs\<close>: candidates from the
  tiers and the full-text backfill, the adaptive ambient weights, re-ranking, write-back, spreading,
  and the decayed hybrid recall. \<open>None\<close> is a panic of the re-ranking; the write-back runs in the call
  (with \<open>async_writeback\<close> the same two statements run after it).
\<close>

subsection \<open>Candidates\<close>

definition tact_retrieve_with_k_scoped ::
    "'f read_brain \<Rightarrow> string \<Rightarrow> nat \<Rightarrow> string option \<Rightarrow> 'f db \<Rightarrow> 'f db \<times> 'f memory_hit list" where
  "tact_retrieve_with_k_scoped b query max_results wing_hint d =
     (case retrieve_memories_scoped (rb_deps b) query wing_hint ((rb_tact_config b)\<lparr>tc_max_results := max_results\<rparr>) d of
        (d1, r) \<Rightarrow> (d1, tr_memories r))"

definition tact_retrieve_with_k :: "'f read_brain \<Rightarrow> string \<Rightarrow> nat \<Rightarrow> 'f db \<Rightarrow> 'f db \<times> 'f memory_hit list" where
  "tact_retrieve_with_k b query max_results d =
     (case retrieve_memories (rb_deps b) query ((rb_tact_config b)\<lparr>tc_max_results := max_results\<rparr>) d of
        (d1, r) \<Rightarrow> (d1, tr_memories r))"

text \<open>The backfill: full-text hits with other keys, until there are \<open>k\<close>.\<close>

fun backfill :: "nat \<Rightarrow> string set \<Rightarrow> 'f memory_hit list \<Rightarrow> 'f memory_hit list \<Rightarrow> 'f memory_hit list" where
  "backfill k existing hits [] = hits"
| "backfill k existing hits (f # fs) =
     (if k \<le> length hits then hits
      else if hit_key f \<in> existing then backfill k existing hits fs
      else backfill k existing (hits @ [f]) fs)"

definition cascade_retrieve_scoped ::
    "'f read_brain \<Rightarrow> string \<Rightarrow> nat \<Rightarrow> string option \<Rightarrow> visibility \<Rightarrow> 'f db \<Rightarrow> 'f db \<times> 'f memory_hit list" where
  "cascade_retrieve_scoped b query k wing_hint v d =
     (case tact_retrieve_with_k_scoped b query k wing_hint d of
        (d1, found) \<Rightarrow>
          let hits = filter (shows_to v) found; words = fts_query_words b query
          in if length hits < k \<and> words \<noteq> []
             then (d1, backfill k (hit_key ` set hits) hits (fts_search_scoped (rb_rank b) (tp_fts (rb_deps b)) words k v d1))
             else (d1, hits))"

definition cascade_retrieve :: "'f read_brain \<Rightarrow> string \<Rightarrow> nat \<Rightarrow> 'f db \<Rightarrow> 'f db \<times> 'f memory_hit list" where
  "cascade_retrieve b query k d =
     (case tact_retrieve_with_k b query k d of
        (d1, hits) \<Rightarrow>
          let words = fts_query_words b query
          in if length hits < k \<and> words \<noteq> []
             then (d1, backfill k (hit_key ` set hits) hits (fts_search (rb_rank b) (tp_fts (rb_deps b)) words k d1))
             else (d1, hits))"

subsection \<open>Adaptive ambient weights\<close>

definition decisive_terms :: "'f rank_env \<Rightarrow> string \<Rightarrow> string list" where
  "decisive_terms R query =
     remdups (filter (\<lambda>t. length t > 2 \<and> t \<notin> {''the'', ''and'', ''for'', ''with''}) (map (rk_lower R) (rk_pieces R [] query)))"

definition term_overlap :: "'f rank_env \<Rightarrow> string list \<Rightarrow> 'f memory_hit \<Rightarrow> nat" where
  "term_overlap R ts h =
     (let tokens = set (filter (\<lambda>t. t \<noteq> []) (rk_pieces R [] (rk_lower R (hit_key h @ '' '' @ hit_content h))))
      in length (filter (\<lambda>t. t \<in> tokens) ts))"

definition ambient_query_is_decisive :: "'f rank_env \<Rightarrow> string \<Rightarrow> 'f memory_hit list \<Rightarrow> bool" where
  "ambient_query_is_decisive R query cands =
     (if length cands < 2 then True
      else let ts = decisive_terms R query
           in if length ts < 2 then False
              else let first = term_overlap R ts (hd cands);
                       runner_up = fold max (map (term_overlap R ts) (tl cands)) 0
                   in first \<ge> 2 \<and> first > runner_up)"

type_synonym 'f cascade = "('f ambient_weights, spread_config) cascade_config"

definition adapted_weights :: "'f rank_env \<Rightarrow> 'f cascade \<Rightarrow> string \<Rightarrow> 'f memory_hit list \<Rightarrow> 'f ambient_weights" where
  "adapted_weights R cfg query cands =
     (if cc_apply_ambient_boost cfg \<and> cc_adaptive_ambient cfg \<and> \<not> ambient_query_is_decisive R query cands
      then (cc_ambient_weights cfg)\<lparr>aw_mismatch_penalty := rk_lit R (45 / 100)\<rparr>
      else cc_ambient_weights cfg)"

definition cascade_reranking :: "'f rank_env \<Rightarrow> 'f cascade \<Rightarrow> 'f ambient_weights \<Rightarrow> 'f reranking_config" where
  "cascade_reranking R cfg weights =
     \<lparr>rr_apply_signal_score = cc_apply_signal_reranking cfg, rr_signal_score_weight = rk_lit R (3 / 10),
      rr_apply_recency = cc_apply_recency cfg, rr_recency_half_life_days = rk_lit R (cc_recency_half_life_days cfg),
      rr_apply_entity_boost = False, rr_entity_boost_weight = rk_lit R (5 / 100),
      rr_apply_ambient_boost = cc_apply_ambient_boost cfg, rr_ambient_weights = weights,
      rr_apply_declarative_boost = cc_apply_declarative_boost cfg, rr_declarative_weight = rk_lit R (1 / 10),
      rr_co_retrieval_weight = rk_lit R (cc_co_retrieval_weight cfg),
      rr_apply_episode_diversity = cc_apply_episode_diversity cfg, rr_max_per_episode = cc_max_per_episode cfg,
      rr_apply_context_dedup = cc_apply_context_dedup cfg, rr_apply_proximity = cc_apply_proximity cfg,
      rr_proximity_weight = rk_lit R (cc_proximity_weight cfg), rr_use_rrf = cc_use_rrf cfg,
      rr_rrf_bm25_weight = rk_lit R (cc_rrf_weights cfg ! 0), rr_rrf_declarative_weight = rk_lit R (cc_rrf_weights cfg ! 1),
      rr_rrf_proximity_weight = rk_lit R (cc_rrf_weights cfg ! 2), rr_rrf_recency_weight = rk_lit R (cc_rrf_weights cfg ! 3),
      rr_rrf_signal_weight = rk_lit R (cc_rrf_weights cfg ! 4), rr_rrf_entity_weight = rk_lit R (cc_rrf_weights cfg ! 5)\<rparr>"

subsection \<open>The pipeline\<close>

definition write_back :: "'f read_brain \<Rightarrow> string list \<Rightarrow> retrieval_event \<Rightarrow> 'f \<Rightarrow> 'f db \<Rightarrow> 'f db" where
  "write_back b keys event strength d =
     log_retrieval_event event (fst (reinforce_batch (tp_db (rb_deps b)) (rb_sql_now b) keys strength d))"

definition AUTO_REINFORCE_STRENGTH :: "'f rank_env \<Rightarrow> 'f" where
  "AUTO_REINFORCE_STRENGTH R = rk_lit R (1 / 100)"

definition run_cascade_pipeline_scoped ::
    "'f read_brain \<Rightarrow> string \<Rightarrow> recognition_context \<Rightarrow> 'f cascade \<Rightarrow> visibility \<Rightarrow> 'f db \<Rightarrow>
      ('f db \<times> 'f memory_hit list) option" where
  "run_cascade_pipeline_scoped b query c cfg v d =
     (let R = rb_rank b in
      case cascade_retrieve_scoped b query (fetch_width (cc_k cfg) (cc_fetch_mult cfg)) (rc_focus_wing c) v d of
        (d1, found) \<Rightarrow>
          let cands = filter (shows_to v) found
          in if cands = [] then Some (d1, [])
             else
               let weights = adapted_weights R cfg query cands;
                   rcfg = cascade_reranking R cfg weights;
                   co = (if rk_less R (rk_lit R 0) (rr_co_retrieval_weight rcfg) then compute_co_retrieval_boosts R d1 cands 3 else []);
                   query_words = fts_query_words_opts R query True
               in case apply_reranking_pipeline_with_query R (rb_entries b) rcfg c co query_words cands of
                    None \<Rightarrow> None
                  | Some ranked \<Rightarrow>
                      let results = take (cc_k cfg) ranked;
                          d2 = (if cc_write_back cfg \<and> \<not> rb_read_only b
                                then write_back b (map hit_key results)
                                       (recall_event b query ''cascade'' (case results of [] \<Rightarrow> None | h # _ \<Rightarrow> hit_wing h)
                                         (rc_session_id c) results) (AUTO_REINFORCE_STRENGTH R) d1
                                else d1)
                      in associative_spread b (cc_spread cfg) v d2 results)"

definition run_cascade_pipeline ::
    "'f read_brain \<Rightarrow> string \<Rightarrow> recognition_context \<Rightarrow> 'f cascade \<Rightarrow> 'f db \<Rightarrow> ('f db \<times> 'f memory_hit list) option" where
  "run_cascade_pipeline b query c cfg d = run_cascade_pipeline_scoped b query c cfg Private d"

subsection \<open>The result of a cascade\<close>

record explanation =
  ex_visibility_boundary :: string
  ex_candidate_fetch_multiplier :: nat
  ex_applied_signals :: "string list"
  ex_co_retrieval_weight :: rat
  ex_recency_half_life_days :: "rat option"
  ex_episode_diversity_cap :: "nat option"

record 'f cascade_result =
  cr_merged_hits :: "'f memory_hit list"
  cr_total_tokens_used :: nat
  cr_max_confidence :: 'f
  cr_total_recognition_token_cost :: nat
  cr_explanation :: explanation

definition applied_signals :: "'f cascade \<Rightarrow> string list" where
  "applied_signals cfg =
     [''lexical_rank''] @ (if cc_apply_signal_reranking cfg then [''memory_signal''] else []) @
     (if cc_apply_ambient_boost cfg then [''ambient_context''] else []) @
     (if cc_apply_declarative_boost cfg then [''declarative_density''] else []) @
     (if cc_apply_recency cfg then [''recency''] else []) @
     (if cc_co_retrieval_weight cfg \<noteq> 0 then [''co_retrieval''] else []) @
     (if cc_apply_context_dedup cfg then [''context_dedup''] else []) @
     (if cc_apply_episode_diversity cfg then [''episode_diversity''] else []) @
     (if as_mode (cc_spread cfg) \<noteq> Spread_Off then [''associative_spreading''] else [])"

definition cascade_result_of :: "'f rank_env \<Rightarrow> 'f cascade \<Rightarrow> visibility \<Rightarrow> 'f memory_hit list \<Rightarrow> 'f cascade_result" where
  "cascade_result_of R cfg v hits =
     \<lparr>cr_merged_hits = hits,
      cr_total_tokens_used = sum_list (map (\<lambda>h. length (hit_content h) div 4 + 5) hits),
      cr_max_confidence = (case hits of h # _ \<Rightarrow> rk_min R (hit_signal_score h) (rk_lit R (85 / 100)) | [] \<Rightarrow> rk_lit R 0),
      cr_total_recognition_token_cost = 0,
      cr_explanation =
        \<lparr>ex_visibility_boundary = visibility_to_str v, ex_candidate_fetch_multiplier = max (cc_fetch_mult cfg) 1,
         ex_applied_signals = applied_signals cfg, ex_co_retrieval_weight = cc_co_retrieval_weight cfg,
         ex_recency_half_life_days = (if cc_apply_recency cfg then Some (cc_recency_half_life_days cfg) else None),
         ex_episode_diversity_cap = (if cc_apply_episode_diversity cfg then Some (cc_max_per_episode cfg) else None)\<rparr>\<rparr>"

definition recall_cascade_scoped ::
    "'f read_brain \<Rightarrow> string \<Rightarrow> recognition_context \<Rightarrow> 'f cascade \<Rightarrow> visibility \<Rightarrow> 'f db \<Rightarrow>
      ('f db \<times> 'f cascade_result) option" where
  "recall_cascade_scoped b query c cfg v d =
     map_option (\<lambda>(d1, hits). (d1, cascade_result_of (rb_rank b) cfg v hits)) (run_cascade_pipeline_scoped b query c cfg v d)"

definition recall_cascade ::
    "'f read_brain \<Rightarrow> string \<Rightarrow> recognition_context \<Rightarrow> 'f cascade \<Rightarrow> 'f db \<Rightarrow> ('f db \<times> 'f cascade_result) option" where
  "recall_cascade b query c cfg d = recall_cascade_scoped b query c cfg Private d"

subsection \<open>The decayed recall\<close>

definition DAY :: int where "DAY = 86400000000000"

definition decayed_signal_score :: "'f rank_env \<Rightarrow> 'f \<Rightarrow> string option \<Rightarrow> string option \<Rightarrow> int \<Rightarrow> 'f" where
  "decayed_signal_score R stored_score created_at last_reinforced_at now =
     (case Option.bind (case last_reinforced_at of Some t \<Rightarrow> Some t | None \<Rightarrow> created_at) (parse_created_at R) of
        None \<Rightarrow> stored_score
      | Some last_touch \<Rightarrow>
          let days_since = rk_of_int R (max (whole_units (now - last_touch) DAY) 0);
              decay = rk_mul R (rk_div R days_since (rk_lit R 7)) (rk_lit R (1 / 100));
              decay_factor = rk_max R (rk_sub R (rk_lit R 1) decay) (rk_lit R (1 / 2))
          in rk_mul R stored_score decay_factor)"

definition decay_hit :: "'f rank_env \<Rightarrow> int \<Rightarrow> 'f memory_hit \<Rightarrow> 'f memory_hit" where
  "decay_hit R now h =
     with_score h (decayed_signal_score R (hit_signal_score h) (hit_created_at h) (hit_last_reinforced_at h) now)"

text \<open>The memory side of \<open>recall_at\<close>; the graph side is \<open>recall_graph\<close>.\<close>

definition recall_at :: "'f read_brain \<Rightarrow> string \<Rightarrow> visibility \<Rightarrow> int \<Rightarrow> 'f db \<Rightarrow> 'f db \<times> 'f memory_hit list \<times> 'f tact_result" where
  "recall_at b query v now d =
     (case retrieve (rb_deps b) query (rb_tact_config b) d of
        (d1, tact) \<Rightarrow>
          let memory_hits = map (decay_hit (rb_rank b) now) (filter (shows_to v) (tr_memories tact))
          in (d1, memory_hits, tact\<lparr>tr_memories := memory_hits,
                 tr_context_block := format_context_block memory_hits (tc_max_context_chars (rb_tact_config b))\<rparr>))"

definition recall_local :: "'f read_brain \<Rightarrow> string \<Rightarrow> 'f db \<Rightarrow> 'f db \<times> 'f memory_hit list \<times> 'f tact_result" where
  "recall_local b query d = recall_at b query Private (rb_clock b) d"


subsection \<open>What retrieval touches\<close>

text \<open>A retrieval may fill the read cache and nothing else.\<close>

definition cache_only :: "'f db \<Rightarrow> 'f db \<Rightarrow> bool" where
  "cache_only d d' \<longleftrightarrow> (\<exists>c. d' = d\<lparr>db_wing_cache := c\<rparr>)"

lemma cache_only_refl [simp]: "cache_only d d"
  unfolding cache_only_def by (rule exI[of _ "db_wing_cache d"]) simp

lemma cache_only_same: "cache_only d d' \<Longrightarrow> same_memory d d' \<and> db_events d' = db_events d"
  by (auto simp: cache_only_def same_memory_def)

lemma wing_search_cache: "cache_only d (fst (wing_search E low kept w ts n d))"
proof (cases "db_wing_cache d w")
  case None
  then have "fst (wing_search E low kept w ts n d) =
      d\<lparr>db_wing_cache := (\<lambda>w. if kept w then db_wing_cache d w else None)(w \<mapsto> wing_hits E d w)\<rparr>"
    by (simp add: wing_search_def Let_def)
  then show ?thesis unfolding cache_only_def by blast
qed (simp add: wing_search_def Let_def)

lemma tact_search_cache: "cache_only d (fst (tact_search D msg wing hall config d))"
proof -
  have t2: "cache_only d (fst (tier2 D msg wing config d))"
    by (cases wing) (simp_all add: tier2_def wing_search_cache)
  show ?thesis
    using t2 by (auto simp: tact_search_def split: list.splits prod.splits)
qed

lemma retrieve_inner_cache: "cache_only d (fst (retrieve_inner D msg hint config block d))"
  using tact_search_cache[of d D msg _ _ config] by (auto simp: retrieve_inner_def Let_def split: prod.splits) (metis fst_conv)+

lemma tact_scoped_cache: "cache_only d (fst (tact_retrieve_with_k_scoped b query n hint d))"
proof -
  let ?r = "retrieve_inner (rb_deps b) query hint ((rb_tact_config b)\<lparr>tc_max_results := n\<rparr>) False d"
  have "fst (tact_retrieve_with_k_scoped b query n hint d) = fst ?r"
    by (simp add: tact_retrieve_with_k_scoped_def retrieve_memories_scoped_def case_prod_beta)
  then show ?thesis using retrieve_inner_cache by metis
qed

lemma cascade_retrieve_cache: "cache_only d (fst (cascade_retrieve_scoped b query k hint v d))"
  using tact_scoped_cache[of d b query k hint]
  by (cases "tact_retrieve_with_k_scoped b query k hint d") (simp add: cascade_retrieve_scoped_def Let_def)

subsection \<open>What a cascade answers\<close>

lemma backfill_spec:
  "\<exists>ys. backfill k ex hits fs = hits @ ys \<and> subseq ys fs \<and> (\<forall>f \<in> set ys. hit_key f \<notin> ex) \<and>
     (length hits \<le> k \<longrightarrow> length (hits @ ys) \<le> k) \<and>
     (length (hits @ ys) < k \<longrightarrow> (\<forall>f \<in> set fs. hit_key f \<in> ex \<or> f \<in> set ys))"
proof (induction k ex hits fs rule: backfill.induct)
  case (2 k ex hits f fs)
  consider "k \<le> length hits" | "\<not> k \<le> length hits" "hit_key f \<in> ex" | "\<not> k \<le> length hits" "hit_key f \<notin> ex" by blast
  then show ?case
  proof cases
    case 1
    then show ?thesis by (intro exI[of _ "[]"]) simp
  next
    case 2
    then obtain ys where "backfill k ex hits fs = hits @ ys" "subseq ys fs" "\<forall>f \<in> set ys. hit_key f \<notin> ex"
      "length hits \<le> k \<longrightarrow> length (hits @ ys) \<le> k"
      "length (hits @ ys) < k \<longrightarrow> (\<forall>f \<in> set fs. hit_key f \<in> ex \<or> f \<in> set ys)"
      using "2.IH"(1) by blast
    then show ?thesis using 2 by (intro exI[of _ ys]) (simp add: list_emb_Cons)
  next
    case 3
    then obtain ys where "backfill k ex (hits @ [f]) fs = (hits @ [f]) @ ys" "subseq ys fs" "\<forall>f \<in> set ys. hit_key f \<notin> ex"
      "length (hits @ [f]) \<le> k \<longrightarrow> length ((hits @ [f]) @ ys) \<le> k"
      "length ((hits @ [f]) @ ys) < k \<longrightarrow> (\<forall>f \<in> set fs. hit_key f \<in> ex \<or> f \<in> set ys)"
      using "2.IH"(2) by blast
    then show ?thesis using 3 by (intro exI[of _ "f # ys"]) auto
  qed
qed simp


lemma cascade_retrieve_hits:
  assumes "cascade_retrieve_scoped b query k hint v d = (d1, hits)" "distinct (map row_id (db_memories d))"
    and "distinct (map row_key (db_memories d))"
  shows "(\<forall>h \<in> set hits. shows_to v h) \<and>
    (length hits < k \<longrightarrow> match_query (fts_query_words b query) \<noteq> [] \<longrightarrow>
       row_key ` fts_pool (rb_rank b) (tp_fts (rb_deps b)) (fts_query_words b query) v d1 \<subseteq> hit_key ` set hits)"
proof -
  obtain found where t: "tact_retrieve_with_k_scoped b query k hint d = (d1, found)"
    using assms(1) by (auto simp: cascade_retrieve_scoped_def Let_def split: prod.splits if_splits)
  let ?own = "filter (shows_to v) found" and ?words = "fts_query_words b query"
  let ?T = "tp_fts (rb_deps b)" and ?R = "rb_rank b"
  show ?thesis
  proof (cases "length ?own < k \<and> ?words \<noteq> []")
    case False
    then have "hits = ?own" using assms(1) t by (auto simp: cascade_retrieve_scoped_def Let_def)
    moreover have "?words = [] \<Longrightarrow> match_query ?words = []" by (simp add: match_query_def capped_def join_or_def)
    ultimately show ?thesis using False by auto
  next
    case True
    let ?fts = "fts_search_scoped ?R ?T ?words k v d1"
    have hits: "hits = backfill k (hit_key ` set ?own) ?own ?fts" using assms(1) t True by (simp add: cascade_retrieve_scoped_def Let_def)
    have "cache_only d d1" using tact_scoped_cache[of d b query k hint] t by simp
    then have rows: "distinct (map row_id (db_memories d1))" "distinct (map row_key (db_memories d1))"
      using assms(2,3) by (auto simp: cache_only_def)
    obtain rs where rs: "?fts = map (\<lambda>m. memory_hit_from_row m 0) rs" "distinct (map row_id rs)" "set rs \<subseteq> fts_pool ?R ?T ?words v d1"
      "match_query ?words \<noteq> [] \<longrightarrow> length rs < k \<longrightarrow> set rs = fts_pool ?R ?T ?words v d1"
      by (rule fts_search_rows[OF rows(1), of ?R ?T ?words k v])
    obtain ys where ys: "hits = ?own @ ys" "subseq ys ?fts"
      "length (?own @ ys) < k \<longrightarrow> (\<forall>f \<in> set ?fts. hit_key f \<in> hit_key ` set ?own \<or> f \<in> set ys)"
      using backfill_spec[of k "hit_key ` set ?own" ?own ?fts] unfolding hits by blast
    have fts: "\<forall>f \<in> set ?fts. shows_to v f" unfolding rs(1) using rs(3) pool_shows by fastforce
    have sub: "set ys \<subseteq> set ?fts" using set_mset_mono[OF mset_subseq[OF ys(2)]] by simp
    have "row_key ` fts_pool ?R ?T ?words v d1 \<subseteq> hit_key ` set hits"
      if short: "length hits < k" and q: "match_query ?words \<noteq> []"
    proof -
      have "hit_key ` set ?fts \<subseteq> hit_key ` set hits" using ys(3) short unfolding ys(1) by auto
      moreover have "hit_key ` set ?fts = row_key ` set rs" unfolding rs(1) by (auto simp: image_image)
      ultimately have keys: "row_key ` set rs \<subseteq> hit_key ` set hits" by simp
      have "card (hit_key ` set hits) < k" using short card_length[of "map hit_key hits"] by simp
      then have "card (row_key ` set rs) < k" using card_mono[OF _ keys] by simp
      moreover have "set rs \<subseteq> set (db_memories d1)" using rs(3) pool_shows by blast
      then have "inj_on row_key (set rs)" using rows(2) by (auto simp: distinct_map intro: inj_on_subset)
      then have "card (row_key ` set rs) = length rs" using rs(2) by (simp add: card_image distinct_card distinct_map)
      ultimately have "set rs = fts_pool ?R ?T ?words v d1" using rs(4) q by simp
      then show ?thesis using keys by simp
    qed
    moreover have "\<forall>h \<in> set hits. shows_to v h" unfolding ys(1) using fts sub by auto
    ultimately show ?thesis by blast
  qed
qed


lemma write_back_rows: "map row_id (db_memories (write_back b ks ev s d)) = map row_id (db_memories d)"
proof -
  have up: "map row_id (db_memories (update_memories P (reinforced E now s) x)) = map row_id (db_memories x)" for P E now x
    by (simp add: update_memories_def update_where_def reinforced_def comp_def)
  have pop: "db_memories (fold wing_cache_pop ws x) = db_memories x" for ws x
    by (induction ws arbitrary: x) (simp_all add: wing_cache_pop_def)
  have "map row_id (db_memories (fst (fold (reinforce_chunk E now s) cs (x, n, ws)))) = map row_id (db_memories x)" for E now cs x n ws
    by (induction cs arbitrary: x n ws) (simp_all add: reinforce_chunk_def up)
  then show ?thesis
    by (simp add: write_back_def log_retrieval_event_def reinforce_batch_def case_prod_beta pop)
qed

text \<open>The pipeline with its intermediate values named.\<close>

definition spread_ranked ::
    "'f read_brain \<Rightarrow> string \<Rightarrow> recognition_context \<Rightarrow> 'f cascade \<Rightarrow> visibility \<Rightarrow> 'f db \<Rightarrow> 'f memory_hit list \<Rightarrow>
      ('f db \<times> 'f memory_hit list) option" where
  "spread_ranked b query c cfg v d results =
     associative_spread b (cc_spread cfg) v
       (if cc_write_back cfg \<and> \<not> rb_read_only b
        then write_back b (map hit_key results)
               (recall_event b query ''cascade'' (case results of [] \<Rightarrow> None | h # _ \<Rightarrow> hit_wing h) (rc_session_id c) results)
               (AUTO_REINFORCE_STRENGTH (rb_rank b)) d
        else d) results"

definition after_retrieval ::
    "'f read_brain \<Rightarrow> string \<Rightarrow> recognition_context \<Rightarrow> 'f cascade \<Rightarrow> visibility \<Rightarrow> 'f db \<Rightarrow> 'f memory_hit list \<Rightarrow>
      ('f db \<times> 'f memory_hit list) option" where
  "after_retrieval b query c cfg v d1 found =
     (let R = rb_rank b; cands = filter (shows_to v) found; rcfg = cascade_reranking R cfg (adapted_weights R cfg query cands)
      in if cands = [] then Some (d1, [])
         else case apply_reranking_pipeline_with_query R (rb_entries b) rcfg c
                     (if rk_less R (rk_lit R 0) (rr_co_retrieval_weight rcfg) then compute_co_retrieval_boosts R d1 cands 3 else [])
                     (fts_query_words_opts R query True) cands of
                None \<Rightarrow> None
              | Some ranked \<Rightarrow> spread_ranked b query c cfg v d1 (take (cc_k cfg) ranked))"

lemma cascade_parts:
  "run_cascade_pipeline_scoped b query c cfg v d =
     (case cascade_retrieve_scoped b query (fetch_width (cc_k cfg) (cc_fetch_mult cfg)) (rc_focus_wing c) v d of
        (d1, found) \<Rightarrow> after_retrieval b query c cfg v d1 found)"
  by (simp only: run_cascade_pipeline_scoped_def after_retrieval_def Let_def spread_ranked_def)

text \<open>A cascade that answers: nothing found, or ranked results that are spread.\<close>

lemma cascade_shape:
  assumes "run_cascade_pipeline_scoped b query c cfg v d = Some (d', out)"
  obtains d1 where "cache_only d d1" "d' = d1" "out = []"
  | d1 results d2 ev where "cache_only d d1" "length results \<le> cc_k cfg" "\<forall>h \<in> set results. shows_to v h"
      "d2 = (if cc_write_back cfg \<and> \<not> rb_read_only b
             then write_back b (map hit_key results) ev (AUTO_REINFORCE_STRENGTH (rb_rank b)) d1 else d1)"
      "associative_spread b (cc_spread cfg) v d2 results = Some (d', out)"
proof -
  let ?R = "rb_rank b"
  obtain d1 found where f: "cascade_retrieve_scoped b query (fetch_width (cc_k cfg) (cc_fetch_mult cfg)) (rc_focus_wing c) v d = (d1, found)"
    by (rule prod.exhaust)
  have run: "after_retrieval b query c cfg v d1 found = Some (d', out)" using assms by (simp add: cascade_parts f)
  have d1: "cache_only d d1" using cascade_retrieve_cache f by (metis fst_conv)
  define cands where "cands = filter (shows_to v) found"
  have shown: "\<forall>h \<in> set cands. shows_to v h" by (simp add: cands_def)
  show thesis
  proof (cases "cands = []")
    case True
    then have "d' = d1" "out = []" using run unfolding after_retrieval_def Let_def cands_def by auto
    then show thesis using d1 that(1) by blast
  next
    case False
    then obtain rcfg co ranked where r: "apply_reranking_pipeline_with_query ?R (rb_entries b) rcfg c co
        (fts_query_words_opts ?R query True) cands = Some ranked"
      and spread: "spread_ranked b query c cfg v d1 (take (cc_k cfg) ranked) = Some (d', out)"
      using run unfolding after_retrieval_def Let_def cands_def[symmetric] by (auto split: option.splits)
    have "\<forall>h \<in> set (take (cc_k cfg) ranked). shows_to v h" using rerank_shows[OF r shown] by (auto dest: in_set_takeD)
    then show thesis using that(2)[OF d1 _ _ refl spread[unfolded spread_ranked_def]] by simp
  qed
qed

lemma cascade_hits:
  assumes "run_cascade_pipeline_scoped b query c cfg v d = Some (d', out)" "distinct (map row_id (db_memories d))"
  shows "(\<forall>h \<in> set out. shows_to v h) \<and> (as_mode (cc_spread cfg) = Spread_Off \<longrightarrow> length out \<le> cc_k cfg) \<and>
    (\<not> cc_write_back cfg \<or> rb_read_only b \<longrightarrow> same_memory d d')"
  using assms(1)
proof (cases rule: cascade_shape)
  case (1 d1)
  then show ?thesis using cache_only_same by auto
next
  case (2 d1 results d2 ev)
  have "map row_id (db_memories d2) = map row_id (db_memories d)"
    unfolding 2(4) using 2(1) by (auto simp: cache_only_def write_back_rows)
  then have rows: "distinct (map row_id (db_memories d2))" using assms(2) by simp
  have "length out \<le> cc_k cfg" if "as_mode (cc_spread cfg) = Spread_Off"
    using 2(2,5) that by (simp add: associative_spread_def Let_def)
  moreover have "same_memory d d'" if "\<not> cc_write_back cfg \<or> rb_read_only b"
  proof -
    have "d2 = d1" using that 2(4) by auto
    then show ?thesis using spread_ok[OF 2(5) rows 2(3)] 2(1) cache_only_same same_memory_trans by metis
  qed
  ultimately show ?thesis using spread_ok[OF 2(5) rows 2(3)] by blast
qed

lemma cascade_pure:
  assumes "run_cascade_pipeline_scoped b query c cfg v d = Some (d', out)"
    and "rb_read_only b \<or> \<not> cc_write_back cfg \<and> as_mode (cc_spread cfg) \<notin> {Spread_Cross_Session, Spread_Combined}"
  shows "cache_only d d'"
  using assms(1)
proof (cases rule: cascade_shape)
  case (2 d1 results d2 ev)
  have "d2 = d1" using assms(2) 2(4) by auto
  moreover have "d' = d2" by (rule spread_pure[OF 2(5)]) (use assms(2) in blast)
  ultimately show ?thesis using 2(1) by simp
qed simp

lemma cascade_returns:
  assumes "cc_apply_ambient_boost cfg \<longrightarrow>
    rk_leq (rb_rank b) (aw_clamp_min (cc_ambient_weights cfg)) (aw_clamp_max (cc_ambient_weights cfg))"
  shows "\<exists>r. run_cascade_pipeline_scoped b query c cfg v d = Some r"
proof -
  let ?R = "rb_rank b"
  have ok: "rr_apply_ambient_boost (cascade_reranking ?R cfg (adapted_weights ?R cfg query cands)) \<longrightarrow>
      rk_leq ?R (aw_clamp_min (rr_ambient_weights (cascade_reranking ?R cfg (adapted_weights ?R cfg query cands))))
        (aw_clamp_max (rr_ambient_weights (cascade_reranking ?R cfg (adapted_weights ?R cfg query cands))))" for cands
    using assms by (simp add: cascade_reranking_def adapted_weights_def)
  have ret: "\<exists>r. spread_ranked b query c cfg v d1 results = Some r" for d1 results
    unfolding spread_ranked_def by (rule spread_returns)
  have "\<exists>r. after_retrieval b query c cfg v d1 found = Some r" for d1 found
  proof (cases "filter (shows_to v) found = []")
    case False
    define cands where "cands = filter (shows_to v) found"
    define co where "co = (if rk_less ?R (rk_lit ?R 0) (rr_co_retrieval_weight (cascade_reranking ?R cfg (adapted_weights ?R cfg query cands)))
         then compute_co_retrieval_boosts ?R d1 cands 3 else [])"
    obtain ranked where "apply_reranking_pipeline_with_query ?R (rb_entries b)
        (cascade_reranking ?R cfg (adapted_weights ?R cfg query cands)) c co (fts_query_words_opts ?R query True) cands = Some ranked"
      using pipeline_returns[OF ok] by blast
    then show ?thesis using ret False unfolding after_retrieval_def Let_def cands_def[symmetric] co_def by simp
  qed (simp add: after_retrieval_def)
  then show ?thesis unfolding cascade_parts by (simp add: case_prod_beta)
qed


subsection \<open>What a federated recall writes\<close>

lemma topk_logs:
  assumes "recall_topk_fts b query c v d = Some (d', hits)" "\<not> rb_read_only b"
  shows "\<exists>evs. db_events d' = db_events d @ evs \<and> (fts_query_words b query \<noteq> [] \<longrightarrow> (\<exists>ev \<in> set evs. ev_query_hash ev = rb_hash_query b query))"
  using assms
  by (auto simp: recall_topk_fts_def Let_def log_retrieval_event_def recall_event_def split: if_splits option.splits)

lemma mates_log:
  assumes "mate_recall b n v d content = Some (d', hits)" "\<not> rb_read_only b"
  shows "\<exists>evs. db_events d' = db_events d @ evs \<and>
    (fts_query_words b content \<noteq> [] \<longrightarrow> (\<exists>ev \<in> set evs. ev_query_hash ev = rb_hash_query b content))"
  using topk_logs[OF assms(1)[unfolded mate_recall_def] assms(2)] .

lemma seeds_log:
  assumes "take_seeds (mate_recall b n v) R ex m budget cs d st = Some (d', st')" "\<not> rb_read_only b"
  shows "\<exists>evs. db_events d' = db_events d @ evs \<and>
    (\<forall>c rest. cs = c # rest \<longrightarrow> fts_query_words b c \<noteq> [] \<longrightarrow> (\<exists>ev \<in> set evs. ev_query_hash ev = rb_hash_query b c))"
  using assms(1)
proof (induction cs arbitrary: d st)
  case (Cons c cs)
  obtain d1 ms where r: "mate_recall b n v d c = Some (d1, ms)" using Cons.prems by (auto split: option.splits)
  obtain evs where evs: "db_events d1 = db_events d @ evs"
    "fts_query_words b c \<noteq> [] \<longrightarrow> (\<exists>ev \<in> set evs. ev_query_hash ev = rb_hash_query b c)"
    using mates_log[OF r assms(2)] by blast
  obtain st1 stop where m: "take_mates R ex budget (take m ms) st = (st1, stop)" by (rule prod.exhaust)
  have "\<exists>more. db_events d' = db_events d1 @ more"
  proof (cases stop)
    case False
    then have "take_seeds (mate_recall b n v) R ex m budget cs d1 st1 = Some (d', st')" using Cons.prems r m by simp
    from Cons.IH[OF this] show ?thesis by blast
  qed (use Cons.prems r m in simp)
  then obtain more where "db_events d' = db_events d @ (evs @ more)" using evs(1) by auto
  then show ?case using evs(2) by (intro exI[of _ "evs @ more"]) auto
qed simp

lemma spread_logs:
  assumes "associative_spread b cfg v d (h # hs) = Some (d', out)" "as_mode cfg \<in> {Spread_Cross_Session, Spread_Combined}"
    and "0 < as_seeds cfg" "\<not> rb_read_only b" "fts_query_words b (hit_content h) \<noteq> []"
  shows "\<exists>evs. db_events d' = db_events d @ evs \<and> (\<exists>ev \<in> set evs. ev_query_hash ev = rb_hash_query b (hit_content h))"
proof -
  let ?cs = "map hit_content (take (as_seeds cfg) (h # hs))"
  have cs: "?cs = hit_content h # map hit_content (take (as_seeds cfg - 1) hs)" using assms(3) by (cases "as_seeds cfg") simp_all
  obtain st where "take_seeds (mate_recall b (as_cross_n cfg) v) (rb_rank b) (hit_key ` set (h # hs)) (as_cross_n cfg)
      (as_cross_budget cfg) ?cs d (h # hs, {}, [], 0) = Some (d', st)"
    using assms(1,2) by (auto simp: associative_spread_def cross_session_def Let_def)
  from seeds_log[OF this assms(4), unfolded cs] show ?thesis using assms(5) by auto
qed

lemma spread_grows:
  assumes "associative_spread b cfg v d hits = Some (d', out)" "distinct (map row_id (db_memories d))"
    and "as_mode cfg \<in> {Spread_Cross_Session, Spread_Combined}"
  shows "\<exists>ys. out = hits @ ys"
proof -
  let ?cross = "cross_session (mate_recall b (as_cross_n cfg) v) (rb_rank b) (as_seeds cfg) (as_cross_n cfg) (as_cross_budget cfg) d hits"
  obtain d1 hits1 added where c: "?cross = Some (d1, hits1, added)" and out: "\<exists>zs. out = hits1 @ zs"
    using assms(1,3) by (auto simp: associative_spread_def Let_def episode_fill_def)
  obtain ys where "hits1 = hits @ ys" using mates.cross_session_ok[OF assms(2) c] by blast
  then show ?thesis using out by auto
qed

lemma spread_Nil:
  "as_mode cfg \<in> {Spread_Cross_Session, Spread_Combined} \<Longrightarrow> associative_spread b cfg v d [] = Some (d, [])"
  by (auto simp: associative_spread_def cross_session_def Let_def top_seed_refs_def episode_fill_def episode_candidates_def order_by_def)

text \<open>
  C36: A recall that may not write still writes: on a writable brain, with spreading across sessions from at least one
  seed, a cascade that answers and whose first answer has query terms, with write-back switched off, logs a retrieval event into the brain it reads for the content of its first
  answer.
\<close>

theorem spread_logs_despite_no_write_back:
  assumes "run_cascade_pipeline_scoped b query c cfg v d = Some (d', h # rest)" "distinct (map row_id (db_memories d))"
    and "\<not> cc_write_back cfg" "\<not> rb_read_only b" "as_mode (cc_spread cfg) \<in> {Spread_Cross_Session, Spread_Combined}"
    and "0 < as_seeds (cc_spread cfg)" "fts_query_words b (hit_content h) \<noteq> []"
  shows "\<exists>evs. db_events d' = db_events d @ evs \<and> (\<exists>ev \<in> set evs. ev_query_hash ev = rb_hash_query b (hit_content h))"
  using assms(1)
proof (cases rule: cascade_shape)
  case (2 d1 results d2 ev)
  have d2: "d2 = d1" "db_events d1 = db_events d" using 2(1,4) assms(3) cache_only_same by auto
  have rows: "distinct (map row_id (db_memories d2))" using 2(1) assms(2) d2(1) by (auto simp: cache_only_def)
  obtain ys where out: "h # rest = results @ ys" using spread_grows[OF 2(5) rows assms(5)] by blast
  have "results \<noteq> []" using 2(5) by (auto simp: spread_Nil[OF assms(5)])
  then obtain rs where "results = h # rs" using out by (cases results) auto
  from spread_logs[OF 2(5)[unfolded this] assms(5,6,4,7)] show ?thesis unfolding d2 .
qed simp


subsection \<open>The cascade\<close>

text \<open>
  C1: A scoped cascade never answers with a memory whose label does not admit the boundary, with or
  without spreading; without spreading it answers with at most \<open>k\<close> memories; and when write-back is
  off, or the brain is read-only, no memory, link, fingerprint or edge changes.
\<close>

theorem cascade_within_boundary:
  assumes "recall_cascade_scoped b query c cfg v d = Some (d', r)" "distinct (map row_id (db_memories d))"
  shows "(\<forall>h \<in> set (cr_merged_hits r). shows_to v h) \<and>
    (as_mode (cc_spread cfg) = Spread_Off \<longrightarrow> length (cr_merged_hits r) \<le> cc_k cfg) \<and>
    (\<not> cc_write_back cfg \<or> rb_read_only b \<longrightarrow> same_memory d d')"
proof -
  obtain hits where run: "run_cascade_pipeline_scoped b query c cfg v d = Some (d', hits)" and r: "r = cascade_result_of (rb_rank b) cfg v hits"
    using assms(1) by (auto simp: recall_cascade_scoped_def)
  show ?thesis using cascade_hits[OF run assms(2)] by (simp add: r cascade_result_of_def)
qed

text \<open>
  C28: On a read-only brain, and with write-back off and no spreading across sessions, a cascade
  changes nothing at all but the read cache: no score, no event, no edge.
\<close>

theorem cascade_read_only:
  assumes "recall_cascade_scoped b query c cfg v d = Some (d', r)"
    and "rb_read_only b \<or> \<not> cc_write_back cfg \<and> as_mode (cc_spread cfg) \<notin> {Spread_Cross_Session, Spread_Combined}"
  shows "cache_only d d'"
proof -
  obtain hits where "run_cascade_pipeline_scoped b query c cfg v d = Some (d', hits)"
    using assms(1) by (auto simp: recall_cascade_scoped_def)
  then show ?thesis by (rule cascade_pure) (rule assms(2))
qed

text \<open>
  C7: The backfill leaves nothing out: when the query has terms and the candidates are fewer than asked for, every memory that
  matches the terms of the query, is not consolidated away and is admissible is among them, so private
  memories never crowd out admissible ones.
\<close>

theorem cascade_backfills:
  assumes "cascade_retrieve_scoped b query k hint v d = (d1, hits)" "length hits < k"
    and "distinct (map row_id (db_memories d))" "distinct (map row_key (db_memories d))"
    and "match_query (fts_query_words b query) \<noteq> []"
  shows "(\<forall>h \<in> set hits. shows_to v h) \<and>
    row_key ` fts_pool (rb_rank b) (tp_fts (rb_deps b)) (fts_query_words b query) v d1 \<subseteq> hit_key ` set hits"
  using cascade_retrieve_hits[OF assms(1,3,4)] assms(2,5) by blast

text \<open>
  Of the panics that the model has, the clamp of the ambient boost is the only one: with its bounds in order a
  cascade returns, and the widened fetch never wraps. A sort of the model returns for every comparison; that of the
  code may panic when a score is NaN, which this does not exclude.
\<close>

theorem cascade_answers:
  assumes "cc_apply_ambient_boost cfg \<longrightarrow>
    rk_leq (rb_rank b) (aw_clamp_min (cc_ambient_weights cfg)) (aw_clamp_max (cc_ambient_weights cfg))"
  shows "(\<exists>d' r. recall_cascade_scoped b query c cfg v d = Some (d', r)) \<and>
    fetch_width (cc_k cfg) (cc_fetch_mult cfg) < 2 ^ 64 \<and>
    (cc_k cfg < 2 ^ 64 \<longrightarrow> cc_k cfg \<le> fetch_width (cc_k cfg) (cc_fetch_mult cfg))"
proof -
  obtain d' hits where "run_cascade_pipeline_scoped b query c cfg v d = Some (d', hits)"
    using cascade_returns[OF assms] by (metis surj_pair)
  then have "\<exists>d' r. recall_cascade_scoped b query c cfg v d = Some (d', r)" by (simp add: recall_cascade_scoped_def)
  moreover have "cc_k cfg \<le> cc_k cfg * max (cc_fetch_mult cfg) 1" by simp
  ultimately show ?thesis by (auto simp: fetch_width_def USIZE_MAX_def)
qed

subsection \<open>The cascade of a federated child\<close>

text \<open>What the coordinator gets from a child; \<open>None\<close>, a panic, does not happen with ordered clamp bounds.\<close>

definition child_answer ::
    "'f read_brain \<Rightarrow> 'f db \<Rightarrow> string \<Rightarrow> recognition_context \<Rightarrow> 'f cascade \<Rightarrow> visibility \<Rightarrow> string + 'f memory_hit list \<times> nat" where
  "child_answer b d query c cfg v =
     (case recall_cascade_scoped b query c cfg v d of
        None \<Rightarrow> Inl ''panic''
      | Some (d', r) \<Rightarrow> Inr (cr_merged_hits r, cr_total_recognition_token_cost r))"

context boundary_recall
begin

lemma visible_all:
  assumes "distinct (map row_id (db_memories d))" "recall d q = Some (d', hs)"
  shows "visible_hits boundary hs = hs"
  using admits[OF assms] by (simp add: visible_hits_def shows_to_def)

end

interpretation child: boundary_recall
  "\<lambda>d q. run_cascade_pipeline_scoped b q c (cfg\<lparr>cc_write_back := False\<rparr>) v d" v
  by unfold_locales (use cascade_hits in fastforce)+

text \<open>
  The member's own boundary is enough: what a child contributes to a fan-out is its cascade whole,
  in its order, nothing is dropped by the second filter of the coordinator, and the memory of the
  child is as it was.
\<close>

theorem child_contributes_all:
  assumes "distinct (map row_id (db_memories d))"
    and "cc_apply_ambient_boost cfg \<longrightarrow>
      rk_leq (rb_rank b) (aw_clamp_min (cc_ambient_weights cfg)) (aw_clamp_max (cc_ambient_weights cfg))"
    and "fe_recall E (ch_brain ch) = child_answer b d query c" "config = cfg\<lparr>cc_write_back := False\<rparr>"
  shows "\<exists>d' r. recall_cascade_scoped b query c config v d = Some (d', r) \<and> same_memory d d' \<and>
    ask_child E config v None ch (cs, n, failed, u) =
      (cs @ [(fe_brain_id E (ch_brain ch), ch_weight ch, cr_merged_hits r)], n, failed, u)"
proof -
  have "cc_apply_ambient_boost config \<longrightarrow>
      rk_leq (rb_rank b) (aw_clamp_min (cc_ambient_weights config)) (aw_clamp_max (cc_ambient_weights config))"
    using assms(2,4) by simp
  from cascade_returns[OF this] obtain d' hits where run: "run_cascade_pipeline_scoped b query c config v d = Some (d', hits)"
    by (metis surj_pair)
  then have r: "recall_cascade_scoped b query c config v d = Some (d', cascade_result_of (rb_rank b) config v hits)"
    by (simp add: recall_cascade_scoped_def)
  have all: "visible_hits v hits = hits" by (rule child.visible_all[OF assms(1)]) (use run assms(4) in simp)
  have same: "same_memory d d'" by (rule child.keeps[OF assms(1)]) (use run assms(4) in simp)
  have "ask_child E config v None ch (cs, n, failed, u) = (cs @ [(fe_brain_id E (ch_brain ch), ch_weight ch, hits)], n, failed, u)"
    by (simp add: ask_child_def assms(3) child_answer_def r all cascade_result_of_def)
  then show ?thesis using r same by (intro exI[of _ d'] exI[of _ "cascade_result_of (rb_rank b) config v hits"]) (simp add: cascade_result_of_def)
qed

subsection \<open>A concrete brain\<close>

definition toy_cascade :: "rat cascade" where
  "toy_cascade = (default_config (default_ambient toy_rank) (default_spread\<lparr>as_mode := Spread_Cross_Session\<rparr>))
     \<lparr>cc_k := 2, cc_write_back := False, cc_apply_signal_reranking := False, cc_apply_recency := False,
      cc_apply_declarative_boost := False\<rparr>"

text \<open>A brain whose tiers skip short queries.\<close>

definition toy_quiet :: "rat read_brain" where
  "toy_quiet = toy_reader\<lparr>rb_tact_config := toy_tact_config\<lparr>tc_min_words := 2\<rparr>\<rparr>"

lemma toy_quiet_rank [simp]: "rb_rank toy_quiet = toy_rank"
  by (simp add: toy_quiet_def toy_reader_def toy_deps_def)

lemma toy_sessions_rows: "distinct (map row_id (db_memories toy_sessions))" "distinct (map row_key (db_memories toy_sessions))"
  by (simp_all add: toy_sessions_def toy_session_def toy_row_def)

lemma toy_cascade_clamp:
  "rk_leq toy_rank (aw_clamp_min (cc_ambient_weights toy_cascade)) (aw_clamp_max (cc_ambient_weights toy_cascade))"
  by (simp add: toy_cascade_def default_config_def default_ambient_def toy_rank_def)

lemma cascade_answers_witness:
  "\<exists>d' r. recall_cascade_scoped toy_quiet ''tea'' (context_empty 0) toy_cascade Team toy_sessions = Some (d', r)"
proof -
  have "cc_apply_ambient_boost toy_cascade \<longrightarrow>
      rk_leq (rb_rank toy_quiet) (aw_clamp_min (cc_ambient_weights toy_cascade)) (aw_clamp_max (cc_ambient_weights toy_cascade))"
    using toy_cascade_clamp by simp
  from cascade_answers[OF this] show ?thesis by blast
qed

lemma toy_run:
  obtains d' hits where "run_cascade_pipeline_scoped toy_quiet ''tea'' (context_empty 0) toy_cascade Team toy_sessions = Some (d', hits)"
    "recall_cascade_scoped toy_quiet ''tea'' (context_empty 0) toy_cascade Team toy_sessions =
       Some (d', cascade_result_of toy_rank toy_cascade Team hits)"
proof -
  have "cc_apply_ambient_boost toy_cascade \<longrightarrow>
      rk_leq (rb_rank toy_quiet) (aw_clamp_min (cc_ambient_weights toy_cascade)) (aw_clamp_max (cc_ambient_weights toy_cascade))"
    using toy_cascade_clamp by simp
  from cascade_returns[OF this] obtain d' hits where
    "run_cascade_pipeline_scoped toy_quiet ''tea'' (context_empty 0) toy_cascade Team toy_sessions = Some (d', hits)"
    by (metis surj_pair)
  then show thesis using that by (simp add: recall_cascade_scoped_def)
qed

lemma cascade_within_boundary_witness:
  "\<exists>d' r. recall_cascade_scoped toy_quiet ''tea'' (context_empty 0) toy_cascade Team toy_sessions = Some (d', r) \<and>
     (\<forall>h \<in> set (cr_merged_hits r). hit_visibility h \<noteq> ''private'') \<and> same_memory toy_sessions d'"
proof -
  obtain d' hits where r: "recall_cascade_scoped toy_quiet ''tea'' (context_empty 0) toy_cascade Team toy_sessions =
      Some (d', cascade_result_of toy_rank toy_cascade Team hits)" by (rule toy_run)
  have "shows_to Team h \<Longrightarrow> hit_visibility h \<noteq> ''private''" for h :: "rat memory_hit"
    by (auto simp: shows_to_def str_to_vis_def allows_def visibility_order)
  moreover have "\<not> cc_write_back toy_cascade" by (simp add: toy_cascade_def)
  ultimately show ?thesis using cascade_within_boundary[OF r toy_sessions_rows(1)] r by blast
qed

lemma cascade_read_only_witness:
  "\<exists>d' r. recall_cascade_scoped (toy_quiet\<lparr>rb_read_only := True\<rparr>) ''tea'' (context_empty 0) toy_cascade Team toy_sessions = Some (d', r) \<and>
     db_events d' = []"
proof -
  have "cc_apply_ambient_boost toy_cascade \<longrightarrow>
      rk_leq (rb_rank (toy_quiet\<lparr>rb_read_only := True\<rparr>)) (aw_clamp_min (cc_ambient_weights toy_cascade)) (aw_clamp_max (cc_ambient_weights toy_cascade))"
    using toy_cascade_clamp by simp
  from cascade_returns[OF this] obtain d' r where
    r: "recall_cascade_scoped (toy_quiet\<lparr>rb_read_only := True\<rparr>) ''tea'' (context_empty 0) toy_cascade Team toy_sessions = Some (d', r)"
    unfolding recall_cascade_scoped_def by (metis (no_types, lifting) option.simps(9) surj_pair)
  have "cache_only toy_sessions d'" by (rule cascade_read_only[OF r]) simp
  then show ?thesis using r by (auto simp: cache_only_def toy_sessions_def empty_db_def)
qed


definition toy_hits :: "rat memory_hit list" where
  "toy_hits = map (\<lambda>r. memory_hit_from_row r 0) (tl (db_memories toy_sessions))"

lemma toy_words: "fts_query_words toy_quiet ''tea'' = [''tea'']"
proof -
  have "fts_query_words_opts toy_rank ''tea'' False = [''tea'']" by code_simp
  then show ?thesis by (simp add: fts_query_words_def toy_quiet_def toy_reader_def toy_deps_def expand_aliases_def)
qed

lemma toy_skips: "tact_retrieve_with_k_scoped toy_quiet ''tea'' n None toy_sessions = (toy_sessions, [])"
proof -
  have "length (rk_words toy_rank ''tea'') < 2" by code_simp
  then show ?thesis
    by (simp add: tact_retrieve_with_k_scoped_def retrieve_memories_scoped_def retrieve_inner_def toy_quiet_def toy_reader_def toy_deps_def)
qed

lemma toy_ranked: "map row_id (ranked_rows toy_fts Team toy_sessions ix q 50) = [''i2'', ''i3'']"
  by (simp add: ranked_rows_def toy_fts_def admitted_row_def consolidated_key_def toy_sessions_def toy_session_def toy_row_def
      sql_admits_iff str_to_vis_def allows_def visibility_order order_by_def empty_db_def)

lemma toy_fused: "map fst (fused_ids toy_rank [''i2'', ''i3''] [''i2'', ''i3'']) = [''i2'', ''i3'']"
  by code_simp

lemma toy_rows_of: "rows_of_ids toy_sessions [''i2'', ''i3''] = tl (db_memories toy_sessions)"
  by (simp add: rows_of_ids_def List.map_filter_simps select_first_def toy_sessions_def toy_session_def toy_row_def)

lemma toy_fts_hits:
  assumes "n \<in> {2, 5}" shows "fts_search_scoped toy_rank toy_fts [''tea''] n Team toy_sessions = toy_hits"
proof -
  have "match_query [''tea''] \<noteq> []" by code_simp
  moreover have "fts_depth n = 50" "ft_fusion toy_fts" using assms by (auto simp: fts_depth_def toy_fts_def)
  moreover have "map fst (take n (fused_ids toy_rank [''i2'', ''i3''] [''i2'', ''i3''])) = [''i2'', ''i3'']"
    using assms by (auto simp: toy_fused simp flip: take_map)
  ultimately show ?thesis
    by (simp add: fts_search_scoped_def toy_ranked toy_rows_of toy_hits_def)
qed

lemma toy_retrieved:
  "cascade_retrieve_scoped toy_quiet ''tea'' 5 None Team toy_sessions = (toy_sessions, toy_hits)"
  "cascade_retrieve_scoped toy_quiet ''tea'' 2 None Team toy_sessions = (toy_sessions, toy_hits)"
proof -
  have "tp_fts (rb_deps toy_quiet) = toy_fts" by (simp add: toy_quiet_def toy_reader_def toy_deps_def)
  then show "cascade_retrieve_scoped toy_quiet ''tea'' 5 None Team toy_sessions = (toy_sessions, toy_hits)"
    "cascade_retrieve_scoped toy_quiet ''tea'' 2 None Team toy_sessions = (toy_sessions, toy_hits)"
    by (simp_all add: cascade_retrieve_scoped_def toy_skips toy_words toy_fts_hits)
      (simp_all add: toy_hits_def toy_sessions_def)
qed

lemma cascade_backfills_witness:
  "row_key ` fts_pool toy_rank toy_fts [''tea''] Team toy_sessions \<subseteq> {''k2'', ''k3''}"
proof -
  have deps: "tp_fts (rb_deps toy_quiet) = toy_fts" by (simp add: toy_quiet_def toy_reader_def toy_deps_def)
  have "length toy_hits < 5" by (simp add: toy_hits_def toy_sessions_def)
  moreover have "match_query (fts_query_words toy_quiet ''tea'') \<noteq> []" unfolding toy_words by code_simp
  ultimately have "row_key ` fts_pool (rb_rank toy_quiet) (tp_fts (rb_deps toy_quiet)) (fts_query_words toy_quiet ''tea'') Team toy_sessions
      \<subseteq> hit_key ` set toy_hits"
    using cascade_backfills[OF toy_retrieved(1) _ toy_sessions_rows] by blast
  moreover have "hit_key ` set toy_hits = {''k2'', ''k3''}"
    by (simp add: toy_hits_def toy_sessions_def toy_session_def toy_row_def)
  ultimately show ?thesis by (simp add: deps toy_words)
qed

definition toy_rat_fuse :: "rat fuse_env" where
  "toy_rat_fuse =
     \<lparr>fz_add = (+), fz_mul = (*), fz_div = (/), fz_of_nat = of_nat, fz_finite = (\<lambda>x. True), fz_positive = (\<lambda>x. 0 < x),
      fz_clamp01 = (\<lambda>x. max 0 (min 1 x)), fz_le = (\<le>), fz_zero = 0, fz_one = 1, fz_60 = 60, fz_words = blank_words,
      fz_lower = (\<lambda>s. s), fz_hash = (\<lambda>b. b), fz_entries = (\<lambda>es. es)\<rparr>"

definition toy_federation :: "(unit, rat, nat, nat, rat ambient_weights, spread_config) fan_env" where
  "toy_federation =
     \<lparr>fe_fuse = toy_rat_fuse, fe_crypto = fe_crypto toy_fan, fe_sig_of = fe_sig_of toy_fan, fe_brain_id = (\<lambda>u. [1]),
      fe_recall = (\<lambda>u. child_answer toy_quiet toy_sessions ''tea'' (context_empty 0))\<rparr>"

lemma child_contributes_all_witness:
  "\<exists>d' r. same_memory toy_sessions d' \<and>
     ask_child toy_federation (toy_cascade\<lparr>cc_write_back := False\<rparr>) Team None \<lparr>ch_brain = (), ch_weight = 1\<rparr> ([], 0, [], 0) =
       ([([1], 1, cr_merged_hits r)], 0, [], 0) \<and>
     recall_cascade_scoped toy_quiet ''tea'' (context_empty 0) (toy_cascade\<lparr>cc_write_back := False\<rparr>) Team toy_sessions = Some (d', r)"
proof -
  have "fe_recall toy_federation (ch_brain \<lparr>ch_brain = (), ch_weight = 1 :: rat\<rparr>) = child_answer toy_quiet toy_sessions ''tea'' (context_empty 0)"
    by (simp add: toy_federation_def)
  moreover have "cc_apply_ambient_boost toy_cascade \<longrightarrow>
      rk_leq (rb_rank toy_quiet) (aw_clamp_min (cc_ambient_weights toy_cascade)) (aw_clamp_max (cc_ambient_weights toy_cascade))"
    using toy_cascade_clamp by simp
  ultimately obtain d' r where
    "recall_cascade_scoped toy_quiet ''tea'' (context_empty 0) (toy_cascade\<lparr>cc_write_back := False\<rparr>) Team toy_sessions = Some (d', r)"
    "same_memory toy_sessions d'"
    "ask_child toy_federation (toy_cascade\<lparr>cc_write_back := False\<rparr>) Team None \<lparr>ch_brain = (), ch_weight = 1\<rparr> ([], 0, [], 0) =
       ([] @ [(fe_brain_id toy_federation (ch_brain \<lparr>ch_brain = (), ch_weight = 1 :: rat\<rparr>), ch_weight \<lparr>ch_brain = (), ch_weight = 1\<rparr>, cr_merged_hits r)], 0, [], 0)"
    using child_contributes_all[OF toy_sessions_rows(1) _ _ refl, of toy_cascade toy_quiet toy_federation "\<lparr>ch_brain = (), ch_weight = 1\<rparr>"
        "''tea''" "context_empty 0" Team "[]" 0 "[]" 0] by blast
  then show ?thesis by (auto simp: toy_federation_def)
qed

text \<open>The first answer of the toy cascade is the second row, and its event is logged.\<close>

lemma toy_reranked:
  "map_option (map hit_content) (apply_reranking_pipeline_with_query toy_rank (\<lambda>ks. ks)
     (cascade_reranking toy_rank toy_cascade (adapted_weights toy_rank toy_cascade ''tea'' toy_hits)) (context_empty 0) [] [''tea''] toy_hits) =
   Some [''tea time'', ''tea leaf'']"
  by code_simp

lemma spread_logs_despite_no_write_back_witness:
  "\<exists>d' hits. run_cascade_pipeline_scoped toy_quiet ''tea'' (context_empty 0) toy_cascade Team toy_sessions = Some (d', hits) \<and>
     db_events d' \<noteq> []"
proof -
  have width: "fetch_width (cc_k toy_cascade) (cc_fetch_mult toy_cascade) = 2"
    by (simp add: toy_cascade_def default_config_def fetch_width_def USIZE_MAX_def)
  have found: "cascade_retrieve_scoped toy_quiet ''tea'' (fetch_width (cc_k toy_cascade) (cc_fetch_mult toy_cascade))
      (rc_focus_wing (context_empty 0)) Team toy_sessions = (toy_sessions, toy_hits)"
    using toy_retrieved(2) unfolding width by (simp add: context_empty_def)
  define rcfg where "rcfg = cascade_reranking toy_rank toy_cascade (adapted_weights toy_rank toy_cascade ''tea'' toy_hits)"
  obtain ranked where ranked: "apply_reranking_pipeline_with_query toy_rank (\<lambda>ks. ks) rcfg (context_empty 0) [] [''tea''] toy_hits = Some ranked"
    and contents: "map hit_content ranked = [''tea time'', ''tea leaf'']"
    using toy_reranked unfolding rcfg_def by auto
  then obtain h1 h2 where ranked2: "ranked = [h1, h2]" "hit_content h1 = ''tea time''" by auto
  have "filter (shows_to Team) toy_hits = toy_hits"
    by (simp add: toy_hits_def toy_sessions_def toy_session_def toy_row_def shows_to_def str_to_vis_def allows_def visibility_order)
  moreover have "toy_hits \<noteq> []" by (simp add: toy_hits_def toy_sessions_def)
  moreover have "\<not> rk_less toy_rank (rk_lit toy_rank 0) (rr_co_retrieval_weight rcfg)"
    by (simp add: rcfg_def cascade_reranking_def toy_rank_def toy_cascade_def default_config_def)
  moreover have "rb_entries toy_quiet = (\<lambda>ks. ks)" by (simp add: toy_quiet_def toy_reader_def)
  moreover have "fts_query_words_opts toy_rank ''tea'' True = [''tea'']" by code_simp
  moreover have "cc_k toy_cascade = 2" by (simp add: toy_cascade_def)
  ultimately have run: "run_cascade_pipeline_scoped toy_quiet ''tea'' (context_empty 0) toy_cascade Team toy_sessions =
      spread_ranked toy_quiet ''tea'' (context_empty 0) toy_cascade Team toy_sessions [h1, h2]"
    using ranked unfolding cascade_parts found prod.case after_retrieval_def Let_def toy_quiet_rank
    by (simp add: ranked2 flip: rcfg_def)
  have off: "\<not> cc_write_back toy_cascade" by (simp add: toy_cascade_def)
  have mode: "as_mode (cc_spread toy_cascade) \<in> {Spread_Cross_Session, Spread_Combined}" "0 < as_seeds (cc_spread toy_cascade)"
    by (simp_all add: toy_cascade_def default_config_def default_spread_def)
  obtain d' out where spread: "associative_spread toy_quiet (cc_spread toy_cascade) Team toy_sessions [h1, h2] = Some (d', out)"
    using spread_returns by (metis surj_pair)
  then obtain ys where "out = [h1, h2] @ ys" using spread_grows[OF spread toy_sessions_rows(1) mode(1)] by blast
  then have "run_cascade_pipeline_scoped toy_quiet ''tea'' (context_empty 0) toy_cascade Team toy_sessions = Some (d', h1 # h2 # ys)"
    using run spread off by (simp add: spread_ranked_def)
  moreover have "fts_query_words toy_quiet (hit_content h1) \<noteq> []"
  proof -
    have "fts_query_words_opts toy_rank ''tea time'' False = [''tea'', ''time'']" by code_simp
    then show ?thesis
      by (simp add: ranked2 fts_query_words_def toy_quiet_def toy_reader_def toy_deps_def expand_aliases_def)
  qed
  moreover have "\<not> rb_read_only toy_quiet" by (simp add: toy_quiet_def toy_reader_def)
  ultimately show ?thesis
    using spread_logs_despite_no_write_back[OF _ toy_sessions_rows(1) off _ mode, of toy_quiet "''tea''" "context_empty 0" Team d' h1 "h2 # ys"]
    by (metis append_is_Nil_conv empty_iff list.set(1))
qed

end
