(* ===== verification/Recog_Extract.thy ===== *)
theory Recog_Extract
  imports Fts
begin

text \<open>
  Landmarks and fingerprints of the recognition engine, \<open>spectral-recognition/src/extract.rs\<close>:
  tokens, the stemmer, landmark selection, pair fingerprints and winnowed runs of tokens.

  \<open>re_sha\<close> is the first eight bytes of SHA-256 read big-endian, \<open>re_ln\<close> the logarithm and
  \<open>re_max_float\<close> is \<open>f64::MAX\<close>. \<open>slice::windows\<close> panics on size zero; a panic is \<open>None\<close>.
\<close>

record 'f recog_env =
  re_rank :: "'f rank_env"
  re_ln :: "'f \<Rightarrow> 'f"
  re_max_float :: 'f
  re_sha :: "byte list \<Rightarrow> 64 word"
  re_fixed2 :: "'f \<Rightarrow> string"

record landmark =
  lm_key :: string
  lm_position :: nat
  lm_anchor :: bool

record stimulus_prints =
  sp_peaks :: "landmark list"
  sp_pair_hashes :: "(64 word \<times> string) list"
  sp_gram_hashes :: "(64 word \<times> string) list"
  sp_token_count :: nat

record print_config =
  pc_max_peaks :: nat
  pc_fan_out :: nat
  pc_pair_window :: nat
  pc_kgram :: nat
  pc_window :: nat

definition default_prints :: print_config where
  "default_prints = \<lparr>pc_max_peaks = 32, pc_fan_out = 8, pc_pair_window = 16, pc_kgram = 5, pc_window = 8\<rparr>"

subsection \<open>Tokens\<close>

definition LANDMARK_STOPWORDS :: "string list" where
  "LANDMARK_STOPWORDS =
     [''a'', ''an'', ''the'', ''and'', ''or'', ''but'', ''if'', ''then'', ''else'', ''when'', ''at'', ''by'', ''for'', ''with'',
      ''about'', ''against'', ''between'', ''into'', ''through'', ''during'', ''before'', ''after'', ''above'',
      ''below'', ''to'', ''from'', ''up'', ''down'', ''in'', ''out'', ''on'', ''off'', ''over'', ''under'', ''again'',
      ''further'', ''once'', ''here'', ''there'', ''all'', ''any'', ''both'', ''each'', ''few'', ''more'', ''most'',
      ''other'', ''some'', ''such'', ''no'', ''nor'', ''not'', ''only'', ''own'', ''same'', ''so'', ''than'', ''too'',
      ''very'', ''can'', ''will'', ''just'', ''should'', ''now'', ''i'', ''me'', ''my'', ''we'', ''our'', ''you'', ''your'',
      ''he'', ''him'', ''his'', ''she'', ''her'', ''it'', ''its'', ''they'', ''them'', ''their'', ''what'', ''which'', ''who'',
      ''this'', ''that'', ''these'', ''those'', ''am'', ''is'', ''are'', ''was'', ''were'', ''be'', ''been'', ''being'',
      ''have'', ''has'', ''had'', ''having'', ''do'', ''does'', ''did'', ''doing'', ''of'', ''as'', ''because'', ''until'',
      ''while'', ''how'', ''why'', ''where'']"

definition is_stopword :: "string \<Rightarrow> bool" where
  "is_stopword t \<longleftrightarrow> t \<in> set LANDMARK_STOPWORDS"

definition ascii_digit :: "char \<Rightarrow> bool" where
  "ascii_digit c \<longleftrightarrow> CHR ''0'' \<le> c \<and> c \<le> CHR ''9''"

definition ascii_upper :: "char \<Rightarrow> bool" where
  "ascii_upper c \<longleftrightarrow> CHR ''A'' \<le> c \<and> c \<le> CHR ''Z''"

definition is_anchor :: "string \<Rightarrow> bool" where
  "is_anchor raw \<longleftrightarrow>
     (let has_digit = list_ex ascii_digit raw;
          has_sep = list_ex (\<lambda>c. c \<in> set ''_-.'') raw;
          all_caps = 2 \<le> length raw \<and> list_all (\<lambda>c. ascii_upper c \<or> ascii_digit c) raw;
          inner_upper = list_ex ascii_upper (drop 1 raw)
      in has_digit \<or> has_sep \<and> 4 \<le> length raw \<or> all_caps \<or> inner_upper)"

definition has_vowel :: "string \<Rightarrow> bool" where
  "has_vowel x \<longleftrightarrow> list_ex (\<lambda>c. c \<in> set ''aeiou'') x"

definition stem_plural :: "string \<Rightarrow> string" where
  "stem_plural s =
     (case strip_suffix ''sses'' s of
        Some b \<Rightarrow> b @ ''ss''
      | None \<Rightarrow>
          (case strip_suffix ''ies'' s of
             Some b \<Rightarrow> b @ ''i''
           | None \<Rightarrow>
               if length s > 4 \<and> (ends_with s ''ches'' \<or> ends_with s ''shes'' \<or> ends_with s ''xes'' \<or> ends_with s ''zes'')
               then take (length s - 2) s
               else if ends_with s ''s'' \<and> \<not> ends_with s ''ss'' \<and> length s > 3 then butlast s else s))"

fun stem_verb :: "string list \<Rightarrow> string \<Rightarrow> string" where
  "stem_verb [] s = s"
| "stem_verb (suf # sufs) s =
     (case strip_suffix suf s of
        Some b \<Rightarrow> if 3 \<le> length b \<and> has_vowel b then b else stem_verb sufs s
      | None \<Rightarrow> stem_verb sufs s)"

fun stem_ending :: "(string \<times> string) list \<Rightarrow> string \<Rightarrow> string" where
  "stem_ending [] s = s"
| "stem_ending ((suf, rep) # ends) s =
     (case strip_suffix suf s of
        Some b \<Rightarrow> if 3 \<le> length b then b @ rep else stem_ending ends s
      | None \<Rightarrow> stem_ending ends s)"

definition stem :: "string \<Rightarrow> string" where
  "stem t =
     stem_ending [(''ization'', ''ize''), (''ational'', ''ate''), (''fulness'', ''ful''), (''ousness'', ''ous''), (''iveness'', ''ive''),
         (''tional'', ''tion''), (''alism'', ''al''), (''ment'', ''''), (''ness'', '''')]
       (stem_verb [''ing'', ''ed''] (stem_plural t))"

definition token_edge :: "char \<Rightarrow> bool" where
  "token_edge c \<longleftrightarrow> c \<in> set ''.-_''"

definition trim_edges :: "string \<Rightarrow> string" where
  "trim_edges s = rev (dropWhile token_edge (rev (dropWhile token_edge s)))"

definition token_of :: "'f rank_env \<Rightarrow> string \<Rightarrow> string \<times> bool \<times> bool" where
  "token_of R raw =
     (let trimmed = trim_edges raw
      in if trimmed = [] then ([], False, False)
         else if is_anchor trimmed then (trimmed, True, False)
         else let lower = rk_lower R trimmed in (stem lower, False, is_stopword lower))"

definition tokenize :: "'f rank_env \<Rightarrow> string \<Rightarrow> (string \<times> bool \<times> bool) list" where
  "tokenize R content =
     filter (\<lambda>(k, _, _). k \<noteq> []) (map (token_of R) (filter (\<lambda>t. t \<noteq> []) (rk_pieces R ''_-.'' content)))"

definition normalized_tokens :: "'f rank_env \<Rightarrow> string \<Rightarrow> string list" where
  "normalized_tokens R content = map fst (tokenize R content)"

definition hash64 :: "'f recog_env \<Rightarrow> string \<Rightarrow> 64 word" where
  "hash64 E s = re_sha E (as_bytes s)"

subsection \<open>Landmarks\<close>

text \<open>\<open>TermIdf\<close>: the document frequency of a term and the number of documents.\<close>

record term_idf =
  ti_doc_frequency :: "string \<Rightarrow> nat option"
  ti_total_docs :: nat

definition idf_of :: "'f recog_env \<Rightarrow> term_idf \<Rightarrow> string \<Rightarrow> 'f option" where
  "idf_of E src term =
     map_option (\<lambda>df. re_ln E (rk_div (re_rank E) (rk_of_nat (re_rank E) (max (ti_total_docs src) 1)) (rk_of_nat (re_rank E) (max df 1))))
       (ti_doc_frequency src term)"

text \<open>\<open>MapIdf::from_corpus\<close>.\<close>

definition from_corpus :: "'f rank_env \<Rightarrow> string list \<Rightarrow> term_idf" where
  "from_corpus R docs =
     \<lparr>ti_doc_frequency = (\<lambda>t. let n = length (filter (\<lambda>d. t \<in> set (normalized_tokens R d)) docs) in if n = 0 then None else Some n),
      ti_total_docs = length docs\<rparr>"

fun pick_landmarks :: "string set \<Rightarrow> nat \<Rightarrow> (string \<times> bool \<times> bool) list \<Rightarrow> landmark list" where
  "pick_landmarks seen pos [] = []"
| "pick_landmarks seen pos ((key, anchor, stop) # ts) =
     (if \<not> anchor \<and> (stop \<or> length key < 3) then pick_landmarks seen (Suc pos) ts
      else if key \<in> seen then pick_landmarks seen (Suc pos) ts
      else \<lparr>lm_key = key, lm_position = pos, lm_anchor = anchor\<rparr> # pick_landmarks (insert key seen) (Suc pos) ts)"

definition rarity_key :: "'f recog_env \<Rightarrow> term_idf \<Rightarrow> landmark \<Rightarrow> 'f" where
  "rarity_key E src l =
     (case idf_of E src (lm_key l) of None \<Rightarrow> re_max_float E | Some x \<Rightarrow> rk_min (re_rank E) x (re_max_float E))"

definition longer_first :: "landmark \<Rightarrow> landmark \<Rightarrow> bool" where
  "longer_first a b \<longleftrightarrow>
     length (lm_key a) > length (lm_key b) \<or> length (lm_key a) = length (lm_key b) \<and> lm_position a \<le> lm_position b"

definition landmark_before :: "'f recog_env \<Rightarrow> term_idf option \<Rightarrow> landmark \<Rightarrow> landmark \<Rightarrow> bool" where
  "landmark_before E idf a b \<longleftrightarrow>
     (if lm_anchor a \<noteq> lm_anchor b then lm_anchor a
      else case idf of
             None \<Rightarrow> longer_first a b
           | Some src \<Rightarrow>
               if rk_less (re_rank E) (rarity_key E src b) (rarity_key E src a) then True
               else if rk_less (re_rank E) (rarity_key E src a) (rarity_key E src b) then False
               else longer_first a b)"

definition extract_landmarks_with :: "'f recog_env \<Rightarrow> print_config \<Rightarrow> term_idf option \<Rightarrow> string \<Rightarrow> landmark list" where
  "extract_landmarks_with E cfg idf content =
     order_by (\<lambda>a b. lm_position a \<le> lm_position b)
       (take (pc_max_peaks cfg) (order_by (landmark_before E idf) (pick_landmarks {} 0 (tokenize (re_rank E) content))))"

definition extract_landmarks :: "'f recog_env \<Rightarrow> print_config \<Rightarrow> string \<Rightarrow> landmark list" where
  "extract_landmarks E cfg content = extract_landmarks_with E cfg None content"

subsection \<open>Pair fingerprints\<close>

definition pair_print :: "'f recog_env \<Rightarrow> landmark \<Rightarrow> landmark \<Rightarrow> 64 word \<times> string" where
  "pair_print E a b =
     (let (lo, hi) = (if lm_key a \<le> lm_key b then (lm_key a, lm_key b) else (lm_key b, lm_key a))
      in (hash64 E (''rp1|'' @ lo @ ''|'' @ hi), ''pair: '' @ lo @ ''~'' @ hi))"

fun pair_prints :: "'f recog_env \<Rightarrow> print_config \<Rightarrow> landmark list \<Rightarrow> (64 word \<times> string) list" where
  "pair_prints E cfg [] = []"
| "pair_prints E cfg (a # rest) =
     map (pair_print E a) (take (pc_fan_out cfg) (takeWhile (\<lambda>b. lm_position b - lm_position a \<le> pc_pair_window cfg) rest)) @
     pair_prints E cfg rest"

subsection \<open>Winnowed runs\<close>

definition windows :: "nat \<Rightarrow> 'a list \<Rightarrow> 'a list list" where
  "windows n xs = map (\<lambda>i. take n (drop i xs)) [0..<length xs + 1 - n]"

text \<open>\<open>min_by_key\<close> keeps the first of equal keys.\<close>

fun first_min :: "(64 word \<times> string) \<Rightarrow> (64 word \<times> string) list \<Rightarrow> 64 word \<times> string" where
  "first_min m [] = m"
| "first_min m (g # gs) = first_min (if fst g < fst m then g else m) gs"

definition min_print :: "(64 word \<times> string) list \<Rightarrow> 64 word \<times> string" where
  "min_print w = (case w of [] \<Rightarrow> (0, []) | m # gs \<Rightarrow> first_min m gs)"

fun select_mins :: "64 word option \<Rightarrow> (64 word \<times> string) list list \<Rightarrow> (64 word \<times> string) list" where
  "select_mins prev [] = []"
| "select_mins prev (w # ws) =
     (let m = min_print w
      in if prev = Some (fst m) then select_mins prev ws else m # select_mins (Some (fst m)) ws)"

definition winnow :: "nat \<Rightarrow> (64 word \<times> string) list \<Rightarrow> (64 word \<times> string) list option" where
  "winnow window grams =
     (if length grams \<le> window then Some (if grams = [] then [] else [min_print grams])
      else if window = 0 then None else Some (select_mins None (windows window grams)))"

definition run_text :: "string list \<Rightarrow> string" where
  "run_text ks = (case ks of [] \<Rightarrow> [] | k # rest \<Rightarrow> k @ concat (map (\<lambda>x. '' '' @ x) rest))"

definition run_print :: "'f recog_env \<Rightarrow> string list \<Rightarrow> 64 word \<times> string" where
  "run_print E w = (hash64 E (''rg1|'' @ run_text w), ''run: '' @ [CHR 0x27] @ run_text w @ [CHR 0x27])"

definition gram_prints :: "'f recog_env \<Rightarrow> print_config \<Rightarrow> string list \<Rightarrow> (64 word \<times> string) list option" where
  "gram_prints E cfg keys =
     (if length keys < pc_kgram cfg then Some []
      else if pc_kgram cfg = 0 then None
      else winnow (pc_window cfg) (map (run_print E) (windows (pc_kgram cfg) keys)))"

definition fingerprint_stimulus_with ::
    "'f recog_env \<Rightarrow> print_config \<Rightarrow> term_idf option \<Rightarrow> string \<Rightarrow> stimulus_prints option" where
  "fingerprint_stimulus_with E cfg idf content =
     (let tokens = tokenize (re_rank E) content; peaks = extract_landmarks_with E cfg idf content
      in map_option (\<lambda>grams. \<lparr>sp_peaks = peaks, sp_pair_hashes = pair_prints E cfg peaks, sp_gram_hashes = grams,
             sp_token_count = length tokens\<rparr>)
           (gram_prints E cfg (map fst tokens)))"

definition fingerprint_stimulus :: "'f recog_env \<Rightarrow> print_config \<Rightarrow> string \<Rightarrow> stimulus_prints option" where
  "fingerprint_stimulus E cfg content = fingerprint_stimulus_with E cfg None content"

subsection \<open>The winnowing guarantee\<close>

lemma windows_append:
  assumes "n \<le> length r"
  shows "\<exists>A B. windows n (a @ r @ b) = A @ windows n r @ B"
proof -
  define f where "f i = take n (drop i (a @ r @ b))" for i
  have split: "[0..<length (a @ r @ b) + 1 - n] =
      [0..<length a] @ [length a..<length a + (length r + 1 - n)] @ [length a + (length r + 1 - n)..<length (a @ r @ b) + 1 - n]"
  proof -
    have 1: "[0..<length a + (length r + 1 - n)] = [0..<length a] @ [length a..<length a + (length r + 1 - n)]"
      by (rule upt_add_eq_append) simp
    have "length a + (length r + 1 - n) \<le> length (a @ r @ b) + 1 - n" using assms by simp
    then obtain m where "length (a @ r @ b) + 1 - n = (length a + (length r + 1 - n)) + m" using le_Suc_ex by blast
    then have "[0..<length (a @ r @ b) + 1 - n] = [0..<length a + (length r + 1 - n)] @ [length a + (length r + 1 - n)..<length (a @ r @ b) + 1 - n]"
      using upt_add_eq_append[of 0 "length a + (length r + 1 - n)" m] by simp
    then show ?thesis unfolding 1 by simp
  qed
  have "map f [length a..<length a + (length r + 1 - n)] = windows n r"
  proof (rule nth_equalityI)
    fix i assume "i < length (map f [length a..<length a + (length r + 1 - n)])"
    then have i: "i < length r + 1 - n" by simp
    then have "f (length a + i) = take n (drop i r)" using assms by (simp add: f_def)
    then show "map f [length a..<length a + (length r + 1 - n)] ! i = windows n r ! i" using i by (simp add: windows_def)
  qed (simp add: windows_def)
  then show ?thesis unfolding windows_def f_def[symmetric] split map_append
    by (intro exI[of _ "map f [0..<length a]"] exI[of _ "map f [length a + (length r + 1 - n)..<length (a @ r @ b) + 1 - n]"]) simp
qed

lemma windows_all: "windows (length r) r = [r]"
  by (simp add: windows_def)

lemma length_windows: "length (windows n xs) = length xs + 1 - n"
  by (simp add: windows_def)

lemma select_mins_hash: "w \<in> set ws \<Longrightarrow> prev = Some (fst (min_print w)) \<or> fst (min_print w) \<in> fst ` set (select_mins prev ws)"
proof (induction ws arbitrary: prev)
  case (Cons v ws)
  show ?case
  proof (cases "w = v")
    case True
    then show ?thesis by (simp add: Let_def)
  next
    case False
    then show ?thesis using Cons.IH[of prev] Cons.IH[of "Some (fst (min_print v))"] Cons.prems by (auto simp: Let_def)
  qed
qed simp

text \<open>Every full window of the grams contributes the hash of its minimum.\<close>

lemma winnow_window:
  assumes "winnow (length G) (A @ G @ B) = Some out" "G \<noteq> []"
  shows "fst (min_print G) \<in> fst ` set out"
proof (cases "length (A @ G @ B) \<le> length G")
  case True
  then have "A = []" "B = []" by simp_all
  then show ?thesis using assms by (auto simp: winnow_def)
next
  case False
  then have out: "out = select_mins None (windows (length G) (A @ G @ B))" using assms by (auto simp: winnow_def split: if_splits)
  obtain A' B' where "windows (length G) (A @ G @ B) = A' @ windows (length G) G @ B'" using windows_append[of "length G" G] by blast
  then have "G \<in> set (windows (length G) (A @ G @ B))" by (simp add: windows_all)
  from select_mins_hash[OF this, of None] show ?thesis unfolding out by simp
qed

lemma gram_prints_run:
  assumes "gram_prints E cfg (a @ r @ b) = Some out" "0 < pc_kgram cfg" "0 < pc_window cfg"
    and "length r = pc_window cfg + pc_kgram cfg - 1"
  shows "fst (min_print (map (run_print E) (windows (pc_kgram cfg) r))) \<in> fst ` set out"
proof -
  let ?G = "map (run_print E) (windows (pc_kgram cfg) r)"
  have len: "length ?G = pc_window cfg" using assms(2,3,4) by (simp add: length_windows)
  have "pc_kgram cfg \<le> length r" using assms(3,4) by simp
  then obtain A B where "windows (pc_kgram cfg) (a @ r @ b) = A @ windows (pc_kgram cfg) r @ B" using windows_append by blast
  then have "winnow (length ?G) (map (run_print E) A @ ?G @ map (run_print E) B) = Some out"
    using assms(1,2) \<open>pc_kgram cfg \<le> length r\<close> len by (simp add: gram_prints_def split: if_splits)
  moreover have "?G \<noteq> []" using len assms(3) by auto
  ultimately show ?thesis by (rule winnow_window)
qed

text \<open>
  C20: The winnowing guarantee: two texts that share a run of at least \<open>window + kgram - 1\<close> tokens share
  a fingerprint of the run channel, wherever the run stands in either text.
\<close>

theorem shared_run_detected:
  assumes "fingerprint_stimulus_with E cfg idf s = Some p" "fingerprint_stimulus_with E cfg idf t = Some q"
    and "normalized_tokens (re_rank E) s = a @ r @ b" "normalized_tokens (re_rank E) t = a' @ r @ b'"
    and "pc_window cfg + pc_kgram cfg - 1 \<le> length r" "0 < pc_window cfg" "0 < pc_kgram cfg"
  shows "fst ` set (sp_gram_hashes p) \<inter> fst ` set (sp_gram_hashes q) \<noteq> {}"
proof -
  let ?n = "pc_window cfg + pc_kgram cfg - 1"
  define r1 where "r1 = take ?n r"
  define r2 where "r2 = drop ?n r"
  have r: "r = r1 @ r2" "length r1 = ?n" using assms(5) by (simp_all add: r1_def r2_def)
  have s: "map fst (tokenize (re_rank E) s) = a @ r1 @ (r2 @ b)" and t: "map fst (tokenize (re_rank E) t) = a' @ r1 @ (r2 @ b')"
    using assms(3,4) r(1) by (simp_all add: normalized_tokens_def)
  have "gram_prints E cfg (a @ r1 @ (r2 @ b)) = Some (sp_gram_hashes p)" "gram_prints E cfg (a' @ r1 @ (r2 @ b')) = Some (sp_gram_hashes q)"
    using assms(1,2) unfolding fingerprint_stimulus_with_def Let_def s t by auto
  from gram_prints_run[OF this(1) assms(7,6) r(2)] gram_prints_run[OF this(2) assms(7,6) r(2)] show ?thesis by blast
qed

lemma fingerprint_returns:
  assumes "0 < pc_window cfg" "0 < pc_kgram cfg"
  shows "\<exists>p. fingerprint_stimulus_with E cfg idf s = Some p"
proof -
  have "\<exists>g. gram_prints E cfg ks = Some g" for ks using assms by (simp add: gram_prints_def winnow_def)
  then show ?thesis by (auto simp: fingerprint_stimulus_with_def Let_def)
qed

subsection \<open>Landmarks are bounded\<close>

lemma pick_landmarks_keys: "distinct (map lm_key (pick_landmarks seen pos ts)) \<and> lm_key ` set (pick_landmarks seen pos ts) \<inter> seen = {}"
  by (induction seen pos ts rule: pick_landmarks.induct) auto

lemma landmarks_keys:
  "distinct (map lm_key (extract_landmarks_with E cfg idf s)) \<and> length (extract_landmarks_with E cfg idf s) \<le> pc_max_peaks cfg"
proof -
  let ?p = "pick_landmarks {} 0 (tokenize (re_rank E) s)" and ?o = "order_by (landmark_before E idf) (pick_landmarks {} 0 (tokenize (re_rank E) s))"
  have "mset (map lm_key ?o) = mset (map lm_key ?p)" by simp
  then have "distinct (map lm_key ?o)" using pick_landmarks_keys mset_eq_imp_distinct_iff by metis
  then have t: "distinct (map lm_key (take (pc_max_peaks cfg) ?o))" by (simp flip: take_map)
  have "mset (map lm_key (extract_landmarks_with E cfg idf s)) = mset (map lm_key (take (pc_max_peaks cfg) ?o))"
    by (simp add: extract_landmarks_with_def)
  then have "distinct (map lm_key (extract_landmarks_with E cfg idf s))" using t mset_eq_imp_distinct_iff by metis
  then show ?thesis by (simp add: extract_landmarks_with_def)
qed

lemma pair_prints_length: "length (pair_prints E cfg ls) \<le> length ls * pc_fan_out cfg"
  by (induction ls) (auto intro: add_mono)

subsection \<open>A concrete engine\<close>

definition toy_recog :: "rat recog_env" where
  "toy_recog =
     \<lparr>re_rank = toy_rank, re_ln = (\<lambda>x. x), re_max_float = 1000000, re_sha = (\<lambda>bs. of_nat (sum_list (map unat bs))),
      re_fixed2 = (\<lambda>x. ''0.00'')\<rparr>"

definition toy_prints :: print_config where
  "toy_prints = default_prints\<lparr>pc_kgram := 2, pc_window := 2\<rparr>"

lemma shared_run_detected_witness:
  "\<exists>p q. fingerprint_stimulus_with toy_recog toy_prints None ''pod exit137 oom crash'' = Some p \<and>
     fingerprint_stimulus_with toy_recog toy_prints None ''again pod exit137 oom'' = Some q \<and>
     fst ` set (sp_gram_hashes p) \<inter> fst ` set (sp_gram_hashes q) \<noteq> {}"
proof -
  have pos: "0 < pc_window toy_prints" "0 < pc_kgram toy_prints" by (simp_all add: toy_prints_def)
  obtain p q where p: "fingerprint_stimulus_with toy_recog toy_prints None ''pod exit137 oom crash'' = Some p"
    and q: "fingerprint_stimulus_with toy_recog toy_prints None ''again pod exit137 oom'' = Some q"
    using fingerprint_returns[OF pos] by blast
  have s: "normalized_tokens (re_rank toy_recog) ''pod exit137 oom crash'' = [] @ [''pod'', ''exit137'', ''oom''] @ [''crash'']" by code_simp
  have t: "normalized_tokens (re_rank toy_recog) ''again pod exit137 oom'' = [''again''] @ [''pod'', ''exit137'', ''oom''] @ []" by code_simp
  have "pc_window toy_prints + pc_kgram toy_prints - 1 \<le> length [''pod'', ''exit137'', ''oom'']" by (simp add: toy_prints_def)
  from shared_run_detected[OF p q s t this pos] show ?thesis using p q by blast
qed

end
