(* ===== verification/Recog_Minhash.thy ===== *)
theory Recog_Minhash
  imports Recog_Extract Identity
begin

text \<open>
  The shingle channel of the recognition engine, \<open>spectral-recognition/src/minhash.rs\<close>: shingle sets,
  containment, the MinHash signature over wrapping 64-bit arithmetic, its bands and its bytes.
\<close>

unbundle bit_operations_syntax

record 'f minhash_config =
  mh_num_hashes :: nat
  mh_bands :: nat
  mh_shingle :: nat
  mh_weight :: 'f
  mh_min_similarity :: 'f

definition default_minhash :: "'f rank_env \<Rightarrow> 'f minhash_config" where
  "default_minhash R = \<lparr>mh_num_hashes = 64, mh_bands = 16, mh_shingle = 2, mh_weight = rk_lit R 3, mh_min_similarity = rk_lit R (15 / 100)\<rparr>"

subsection \<open>Shingles\<close>

definition shingle_tokens :: "'f rank_env \<Rightarrow> string \<Rightarrow> string list" where
  "shingle_tokens R content = map (rk_lower R) (filter (\<lambda>t. t \<noteq> []) (map trim_edges (rk_pieces R ''_-.'' content)))"

definition hash_seeded :: "'f recog_env \<Rightarrow> string \<Rightarrow> 64 word \<Rightarrow> 64 word" where
  "hash_seeded E s seed = re_sha E (le_bytes 8 (unat seed) @ as_bytes s)"

definition shingle_set :: "'f recog_env \<Rightarrow> string \<Rightarrow> nat \<Rightarrow> 64 word list" where
  "shingle_set E content shingle =
     (let toks = shingle_tokens (re_rank E) content; k = max shingle 1
      in if toks = [] then []
         else if length toks < k then [hash_seeded E (run_text toks) 0]
         else remdups_adj (sort (map (\<lambda>w. hash_seeded E (run_text w) 0) (windows k toks))))"

text \<open>Both sides are walked in step, the smaller head is skipped.\<close>

fun merge_count :: "64 word list \<Rightarrow> 64 word list \<Rightarrow> nat" where
  "merge_count [] ds = 0"
| "merge_count ps [] = 0"
| "merge_count (p # ps) (d # ds) =
     (if p < d then merge_count ps (d # ds)
      else if d < p then merge_count (p # ps) ds
      else Suc (merge_count ps ds))"

definition containment :: "'f rank_env \<Rightarrow> 64 word list \<Rightarrow> 64 word list \<Rightarrow> 'f" where
  "containment R probe_set doc_set =
     (if probe_set = [] then rk_lit R 0
      else rk_div R (rk_of_nat R (merge_count probe_set doc_set)) (rk_of_nat R (length probe_set)))"

subsection \<open>Signatures\<close>

definition permute :: "64 word \<Rightarrow> 64 word \<Rightarrow> 64 word" where
  "permute base i =
     (let x = base XOR (i * 0x9E3779B97F4A7C15);
          x = x XOR drop_bit 30 x;
          x = x * 0xBF58476D1CE4E5B9;
          x = x XOR drop_bit 27 x;
          x = x * 0x94D049BB133111EB
      in x XOR drop_bit 31 x)"

definition lower_slots :: "64 word \<Rightarrow> 64 word list \<Rightarrow> 64 word list" where
  "lower_slots s sig = map (\<lambda>(i, slot). if permute s (of_nat i) < slot then permute s (of_nat i) else slot) (enumerate 0 sig)"

definition signature :: "'f recog_env \<Rightarrow> string \<Rightarrow> 'f minhash_config \<Rightarrow> 64 word list" where
  "signature E content cfg = fold lower_slots (shingle_set E content (mh_shingle cfg)) (replicate (mh_num_hashes cfg) (- 1))"

definition estimated_jaccard :: "'f rank_env \<Rightarrow> 64 word list \<Rightarrow> 64 word list \<Rightarrow> 'f" where
  "estimated_jaccard R a b =
     (if a = [] \<or> length a \<noteq> length b then rk_lit R 0
      else rk_div R (rk_of_nat R (length (filter (\<lambda>(x, y). x = y) (zip a b)))) (rk_of_nat R (length a)))"

definition hash_u64s :: "'f recog_env \<Rightarrow> 64 word list \<Rightarrow> 64 word \<Rightarrow> 64 word" where
  "hash_u64s E vals band_idx = re_sha E (le_bytes 8 (unat band_idx) @ concat (map (\<lambda>v. le_bytes 8 (unat v)) vals))"

definition band_hashes :: "'f recog_env \<Rightarrow> 64 word list \<Rightarrow> 'f minhash_config \<Rightarrow> 64 word list" where
  "band_hashes E sig cfg =
     (let bands = max (mh_bands cfg) 1
      in if sig = [] \<or> \<not> bands dvd length sig then [hash_u64s E sig 0]
         else let rows = length sig div bands
              in map (\<lambda>b. hash_u64s E (take rows (drop (b * rows) sig)) (of_nat b)) [0..<bands])"

subsection \<open>Bytes\<close>

definition signature_to_bytes :: "64 word list \<Rightarrow> byte list" where
  "signature_to_bytes sig = concat (map (\<lambda>v. le_bytes 8 (unat v)) sig)"

fun le_value :: "byte list \<Rightarrow> nat" where
  "le_value [] = 0"
| "le_value (b # bs) = unat b + 256 * le_value bs"

definition signature_from_bytes :: "byte list \<Rightarrow> 64 word list" where
  "signature_from_bytes bs =
     (if \<not> 8 dvd length bs then [] else map (\<lambda>c. of_nat (le_value c)) (chunks 8 bs))"

subsection \<open>Containment counts the common shingles\<close>

lemma merge_count_inter:
  "sorted ps \<Longrightarrow> distinct ps \<Longrightarrow> sorted ds \<Longrightarrow> distinct ds \<Longrightarrow> merge_count ps ds = card (set ps \<inter> set ds)"
proof (induction ps ds rule: merge_count.induct)
  case (3 p ps d ds)
  consider "p < d" | "d < p" | "p = d" by fastforce
  then show ?case
  proof cases
    case 1
    then have "p \<notin> set (d # ds)" using "3.prems" by auto
    then have "set (p # ps) \<inter> set (d # ds) = set ps \<inter> set (d # ds)" by auto
    then show ?thesis using 1 3 by simp
  next
    case 2
    then have "d \<notin> set (p # ps)" using "3.prems" by auto
    then have "set (p # ps) \<inter> set (d # ds) = set (p # ps) \<inter> set ds" by auto
    then show ?thesis using 2 3 by simp
  next
    case 3
    then have "p \<notin> set ps" "set (p # ps) \<inter> set (d # ds) = insert p (set ps \<inter> set ds)" using "3.prems" by auto
    then show ?thesis using 3 "3.IH"(3) "3.prems" by simp
  qed
qed simp_all

lemma remdups_adj_strict: "sorted xs \<Longrightarrow> distinct (remdups_adj xs)" for xs :: "64 word list"
proof (induction xs rule: remdups_adj.induct)
  case (3 x y xs)
  then show ?case by (cases "x = y") (auto simp: less_le)
qed simp_all

lemma shingle_set_sorted: "sorted (shingle_set E content k) \<and> distinct (shingle_set E content k)"
  by (simp add: shingle_set_def Let_def sorted_remdups_adj remdups_adj_strict)

text \<open>
  The containment of a probe in a stored shingle set is the fraction of the shingles of the probe
  that the set has, whenever the stored list is ascending and without repetitions; the shingle sets
  the engine computes are.
\<close>

theorem containment_is_fraction:
  assumes "sorted ds" "distinct ds" "ps = shingle_set E content k" "ps \<noteq> []"
  shows "containment R ps ds = rk_div R (rk_of_nat R (card (set ps \<inter> set ds))) (rk_of_nat R (card (set ps))) \<and>
    sorted (shingle_set E other k) \<and> distinct (shingle_set E other k)"
proof -
  have ps: "sorted ps" "distinct ps" using shingle_set_sorted unfolding assms(3) by blast+
  then show ?thesis
    using merge_count_inter[OF ps assms(1,2)] shingle_set_sorted[of E other k] assms(4) by (simp add: containment_def distinct_card)
qed

subsection \<open>A signature holds the minima\<close>

lemma length_lower_slots [simp]: "length (lower_slots s sig) = length sig"
  by (simp add: lower_slots_def)

lemma nth_lower_slots: "i < length sig \<Longrightarrow> lower_slots s sig ! i = min (permute s (of_nat i)) (sig ! i)"
  by (auto simp: lower_slots_def nth_enumerate_eq min_def)

lemma fold_lower_slots:
  "i < length sig \<Longrightarrow> length (fold lower_slots sh sig) = length sig \<and>
     fold lower_slots sh sig ! i = Min (insert (sig ! i) ((\<lambda>s. permute s (of_nat i)) ` set sh))"
proof (induction sh arbitrary: sig)
  case (Cons s sh)
  let ?p = "\<lambda>s. permute s (of_nat i)"
  have "i < length (lower_slots s sig)" using Cons.prems by simp
  note ih = Cons.IH[OF this]
  have "insert (sig ! i) (?p ` set (s # sh)) = insert (?p s) (insert (sig ! i) (?p ` set sh))" by auto
  moreover have "Min (insert (?p s) (insert (sig ! i) (?p ` set sh))) = min (?p s) (Min (insert (sig ! i) (?p ` set sh)))"
    by (rule Min_insert) simp_all
  moreover have "Min (insert (min (?p s) (sig ! i)) (?p ` set sh)) = min (?p s) (Min (insert (sig ! i) (?p ` set sh)))"
    by (cases "sh = []") (simp_all add: Min_insert min.assoc)
  ultimately show ?case using ih Cons.prems by (simp add: nth_lower_slots)
qed simp

text \<open>
  The signature is the vector of minima: for every permutation the smallest permuted shingle of the
  text, so texts with the same shingles have the same signature whatever the order of the shingles, and
  the slots of the empty text are all ones.
\<close>

theorem signature_minima:
  assumes "i < mh_num_hashes cfg"
  shows "length (signature E content cfg) = mh_num_hashes cfg \<and>
    signature E content cfg ! i = Min (insert (- 1) ((\<lambda>s. permute s (of_nat i)) ` set (shingle_set E content (mh_shingle cfg))))"
  using fold_lower_slots[of i "replicate (mh_num_hashes cfg) (- 1)" "shingle_set E content (mh_shingle cfg)"] assms
  by (simp add: signature_def)

subsection \<open>Bytes round trip\<close>

lemma le_value_le_bytes: "le_value (le_bytes k n) = n mod 256 ^ k"
proof (induction k n rule: le_bytes.induct)
  case (2 k n)
  have "n mod 256 ^ Suc k = n mod 256 + 256 * ((n div 256) mod 256 ^ k)"
    by (simp add: mod_mult2_eq)
  then show ?case using 2 by (simp add: unat_of_nat)
qed simp

lemma chunks_signature: "chunks 8 (signature_to_bytes sig) = map (\<lambda>v. le_bytes 8 (unat v)) sig"
proof (induction sig)
  case (Cons v sig)
  have "le_bytes 8 (unat v) \<noteq> []" using length_le_bytes[of 8 "unat v"] by (metis length_0_conv zero_neq_numeral)
  then show ?case using Cons
    by (simp add: signature_to_bytes_def chunks.simps[of 8 "le_bytes 8 (unat v) @ concat (map (\<lambda>v. le_bytes 8 (unat v)) sig)"])
qed (simp add: signature_to_bytes_def)

lemma signature_from_to_bytes: "signature_from_bytes (signature_to_bytes sig) = sig"
proof -
  have "8 dvd length (signature_to_bytes sig)"
    by (induction sig) (simp_all add: signature_to_bytes_def)
  moreover have "of_nat (le_value (le_bytes 8 (unat v))) = v" for v :: "64 word"
  proof -
    have "unat v < 2 ^ LENGTH(64)" by (rule unsigned_less)
    then have "unat v < 256 ^ 8" by simp
    then show ?thesis by (simp add: le_value_le_bytes)
  qed
  ultimately show ?thesis
    by (simp add: signature_from_bytes_def chunks_signature comp_def)
qed

text \<open>
  A stored signature is read back as it was written; bytes that are no whole number of words are
  read as the empty signature, which no comparison takes for a match.
\<close>

theorem signature_bytes_roundtrip:
  "signature_from_bytes (signature_to_bytes sig) = sig \<and>
   (length bs mod 8 = 0 \<or> signature_from_bytes bs = [] \<and> estimated_jaccard R [] other = rk_lit R 0)"
proof -
  have "length bs mod 8 = 0 \<or> signature_from_bytes bs = [] \<and> estimated_jaccard R [] other = rk_lit R 0"
    by (auto simp: signature_from_bytes_def estimated_jaccard_def)
  then show ?thesis by (simp add: signature_from_to_bytes)
qed

text \<open>A disjunct of the theorem is a hypothesis on the bytes; here three bytes are malformed.\<close>

lemma signature_bytes_roundtrip_witness:
  "signature_from_bytes (signature_to_bytes [7, 2 ^ 63]) = [7, 2 ^ 63] \<and> signature_from_bytes [1, 2, 3] = []"
  using signature_bytes_roundtrip[of "[7, 2 ^ 63]" "[1, 2, 3]" toy_rank] by simp

lemma containment_is_fraction_witness:
  "\<exists>n. 0 < n \<and> containment toy_rank (shingle_set toy_recog ''tea time'' 1) (shingle_set toy_recog ''tea leaf'' 1) = of_nat n / 2"
proof -
  have ps: "shingle_set toy_recog ''tea time'' 1 = shingle_set toy_recog ''tea time'' 1" "shingle_set toy_recog ''tea time'' 1 \<noteq> []"
    by (rule refl) code_simp
  have ds: "sorted (shingle_set toy_recog ''tea leaf'' 1)" "distinct (shingle_set toy_recog ''tea leaf'' 1)"
    using shingle_set_sorted by blast+
  have "containment toy_rank (shingle_set toy_recog ''tea time'' 1) (shingle_set toy_recog ''tea leaf'' 1) =
      rk_div toy_rank (rk_of_nat toy_rank (card (set (shingle_set toy_recog ''tea time'' 1) \<inter> set (shingle_set toy_recog ''tea leaf'' 1))))
        (rk_of_nat toy_rank (card (set (shingle_set toy_recog ''tea time'' 1))))"
    using containment_is_fraction[OF ds ps, of toy_rank "[]"] by blast
  moreover have "card (set (shingle_set toy_recog ''tea time'' 1) \<inter> set (shingle_set toy_recog ''tea leaf'' 1)) = 1"
    "card (set (shingle_set toy_recog ''tea time'' 1)) = 2" by code_simp+
  ultimately show ?thesis by (intro exI[of _ 1]) (simp add: toy_rank_def rk_of_nat_def)
qed

lemma signature_minima_witness:
  "length (signature toy_recog ''tea'' (default_minhash toy_rank)) = 64"
proof -
  have "0 < mh_num_hashes (default_minhash toy_rank)" by (simp add: default_minhash_def)
  from signature_minima[OF this, of toy_recog "''tea''"] show ?thesis by (simp add: default_minhash_def)
qed

end
