(* ===== verification/Recog_Store.thy ===== *)
theory Recog_Store
  imports Recog_Minhash
begin

text \<open>
  The fingerprint index, \<open>spectral-recognition/src/store.rs\<close>: the trait \<open>RecognitionStore\<close> as a record
  of operations, its SQLite and its in-memory implementation. I/ops errors are left out; a \<open>SELECT\<close>
  without an order yields its rows in table order; \<open>now\<close> is \<open>datetime('now')\<close>.
\<close>

record feature_match =
  fm_hash :: "64 word"
  fm_memory_id :: string
  fm_label :: string
  fm_doc_frequency :: nat

type_synonym print = "64 word \<times> string"

record 's recog_ops =
  ro_is_enrolled :: "'s \<Rightarrow> string \<Rightarrow> bool"
  ro_enrolled_count :: "'s \<Rightarrow> nat"
  ro_mark_pending :: "string \<Rightarrow> 's \<Rightarrow> 's"
  ro_pending_ids :: "nat \<Rightarrow> 's \<Rightarrow> string list"
  ro_clear_pending :: "string \<Rightarrow> 's \<Rightarrow> 's"
  ro_pending_count :: "'s \<Rightarrow> nat"
  ro_enrolled_ids :: "'s \<Rightarrow> string list"
  ro_index_memory :: "string \<Rightarrow> stimulus_prints \<Rightarrow> 's \<Rightarrow> 's"
  ro_lookup_pairs :: "'s \<Rightarrow> print list \<Rightarrow> feature_match list"
  ro_lookup_grams :: "'s \<Rightarrow> print list \<Rightarrow> feature_match list"
  ro_forget_memory :: "string \<Rightarrow> 's \<Rightarrow> 's \<times> bool"
  ro_index_minhash :: "string \<Rightarrow> 64 word list \<Rightarrow> 64 word list \<Rightarrow> 's \<Rightarrow> 's"
  ro_lookup_minhash :: "'s \<Rightarrow> 64 word list \<Rightarrow> (string \<times> 64 word list) list"

subsection \<open>SQLite\<close>

type_synonym feature_row = "64 word \<times> string \<times> string"

record recog_db =
  rd_enrolled :: "(string \<times> string) list"
  rd_pending :: "(string \<times> string) list"
  rd_pairs :: "feature_row list"
  rd_grams :: "feature_row list"
  rd_sig :: "(string \<times> byte list) list"
  rd_bands :: "(64 word \<times> string) list"

definition empty_recog_db :: recog_db where
  "empty_recog_db = \<lparr>rd_enrolled = [], rd_pending = [], rd_pairs = [], rd_grams = [], rd_sig = [], rd_bands = []\<rparr>"

definition sq_is_enrolled :: "recog_db \<Rightarrow> string \<Rightarrow> bool" where
  "sq_is_enrolled d i \<longleftrightarrow> 0 < count_where (\<lambda>r. fst r = i) (rd_enrolled d)"

definition sq_mark_pending :: "string \<Rightarrow> string \<Rightarrow> recog_db \<Rightarrow> recog_db" where
  "sq_mark_pending now i d = d\<lparr>rd_pending := insert_or_ignore fst (i, now) (rd_pending d)\<rparr>"

definition sq_pending_ids :: "nat \<Rightarrow> recog_db \<Rightarrow> string list" where
  "sq_pending_ids limit d =
     take limit (map fst (order_by (\<lambda>a b. snd a < snd b \<or> snd a = snd b \<and> fst a \<le> fst b) (rd_pending d)))"

definition sq_clear_pending :: "string \<Rightarrow> recog_db \<Rightarrow> recog_db" where
  "sq_clear_pending i d = d\<lparr>rd_pending := delete_where (\<lambda>r. fst r = i) (rd_pending d)\<rparr>"

definition sq_enrolled_ids :: "recog_db \<Rightarrow> string list" where
  "sq_enrolled_ids d = order_by (\<le>) (map fst (rd_enrolled d))"

definition add_features :: "string \<Rightarrow> print list \<Rightarrow> feature_row list \<Rightarrow> feature_row list" where
  "add_features i ps t = fold (\<lambda>(h, label). insert_or_ignore (\<lambda>r. r) (h, i, label)) ps t"

definition sq_index_memory :: "string \<Rightarrow> string \<Rightarrow> stimulus_prints \<Rightarrow> recog_db \<Rightarrow> recog_db" where
  "sq_index_memory now i p d =
     d\<lparr>rd_enrolled := insert_or_ignore fst (i, now) (rd_enrolled d),
       rd_pairs := add_features i (sp_pair_hashes p) (rd_pairs d),
       rd_grams := add_features i (sp_gram_hashes p) (rd_grams d)\<rparr>"

definition lookup_table :: "feature_row list \<Rightarrow> print list \<Rightarrow> feature_match list" where
  "lookup_table t hs =
     concat (map (\<lambda>(h, label).
       let rows = filter (\<lambda>r. fst r = h) t; df = length (remdups (map (\<lambda>r. fst (snd r)) rows))
       in map (\<lambda>(x, i, l). \<lparr>fm_hash = h, fm_memory_id = i, fm_label = l, fm_doc_frequency = df\<rparr>) rows) hs)"

definition sq_forget_memory :: "string \<Rightarrow> recog_db \<Rightarrow> recog_db \<times> bool" where
  "sq_forget_memory i d =
     (d\<lparr>rd_enrolled := delete_where (\<lambda>r. fst r = i) (rd_enrolled d),
        rd_pairs := delete_where (\<lambda>r. fst (snd r) = i) (rd_pairs d),
        rd_grams := delete_where (\<lambda>r. fst (snd r) = i) (rd_grams d),
        rd_sig := delete_where (\<lambda>r. fst r = i) (rd_sig d),
        rd_bands := delete_where (\<lambda>r. snd r = i) (rd_bands d)\<rparr>,
      0 < count_where (\<lambda>r. fst r = i) (rd_enrolled d))"

text \<open>\<open>INSERT OR REPLACE\<close> deletes the old row and appends the new one.\<close>

definition sq_index_minhash :: "string \<Rightarrow> 64 word list \<Rightarrow> 64 word list \<Rightarrow> recog_db \<Rightarrow> recog_db" where
  "sq_index_minhash i sig bands d =
     d\<lparr>rd_sig := delete_where (\<lambda>r. fst r = i) (rd_sig d) @ [(i, signature_to_bytes sig)],
       rd_bands := fold (\<lambda>b. insert_or_ignore (\<lambda>r. r) (b, i)) bands (rd_bands d)\<rparr>"

definition sq_lookup_minhash :: "recog_db \<Rightarrow> 64 word list \<Rightarrow> (string \<times> 64 word list) list" where
  "sq_lookup_minhash d probe =
     (if probe = [] then []
      else map (\<lambda>(i, s). (i, signature_from_bytes s))
             (remdups (concat (map (\<lambda>(b, i). filter (\<lambda>s. fst s = i) (rd_sig d)) (filter (\<lambda>r. fst r \<in> set probe) (rd_bands d))))))"

definition sqlite_ops :: "string \<Rightarrow> recog_db recog_ops" where
  "sqlite_ops now =
     \<lparr>ro_is_enrolled = sq_is_enrolled, ro_enrolled_count = (\<lambda>d. length (rd_enrolled d)), ro_mark_pending = sq_mark_pending now,
      ro_pending_ids = sq_pending_ids, ro_clear_pending = sq_clear_pending, ro_pending_count = (\<lambda>d. length (rd_pending d)),
      ro_enrolled_ids = sq_enrolled_ids, ro_index_memory = sq_index_memory now,
      ro_lookup_pairs = (\<lambda>d. lookup_table (rd_pairs d)), ro_lookup_grams = (\<lambda>d. lookup_table (rd_grams d)),
      ro_forget_memory = sq_forget_memory, ro_index_minhash = sq_index_minhash, ro_lookup_minhash = sq_lookup_minhash\<rparr>"

subsection \<open>In memory\<close>

record mem_store =
  mm_enrolled :: "string set"
  mm_pending :: "string set"
  mm_pairs :: "64 word \<Rightarrow> (string \<times> string) list"
  mm_grams :: "64 word \<Rightarrow> (string \<times> string) list"
  mm_sig :: "string \<rightharpoonup> 64 word list"
  mm_bands :: "64 word \<Rightarrow> string list"

definition empty_mem_store :: mem_store where
  "empty_mem_store =
     \<lparr>mm_enrolled = {}, mm_pending = {}, mm_pairs = (\<lambda>h. []), mm_grams = (\<lambda>h. []), mm_sig = (\<lambda>i. None), mm_bands = (\<lambda>b. [])\<rparr>"

definition push_features ::
    "string \<Rightarrow> print list \<Rightarrow> (64 word \<Rightarrow> (string \<times> string) list) \<Rightarrow> (64 word \<Rightarrow> (string \<times> string) list)" where
  "push_features i ps ix = fold (\<lambda>(h, label) ix. ix(h := ix h @ [(i, label)])) ps ix"

definition me_index_memory :: "string \<Rightarrow> stimulus_prints \<Rightarrow> mem_store \<Rightarrow> mem_store" where
  "me_index_memory i p m =
     m\<lparr>mm_enrolled := insert i (mm_enrolled m), mm_pairs := push_features i (sp_pair_hashes p) (mm_pairs m),
       mm_grams := push_features i (sp_gram_hashes p) (mm_grams m)\<rparr>"

definition lookup_index :: "(64 word \<Rightarrow> (string \<times> string) list) \<Rightarrow> print list \<Rightarrow> feature_match list" where
  "lookup_index ix hs =
     concat (map (\<lambda>(h, label).
       map (\<lambda>(i, l). \<lparr>fm_hash = h, fm_memory_id = i, fm_label = l, fm_doc_frequency = length (ix h)\<rparr>) (ix h)) hs)"

definition me_forget_memory :: "string \<Rightarrow> mem_store \<Rightarrow> mem_store \<times> bool" where
  "me_forget_memory i m =
     (m\<lparr>mm_enrolled := mm_enrolled m - {i}, mm_pairs := (\<lambda>h. filter (\<lambda>e. fst e \<noteq> i) (mm_pairs m h)),
        mm_grams := (\<lambda>h. filter (\<lambda>e. fst e \<noteq> i) (mm_grams m h)), mm_sig := (mm_sig m)(i := None),
        mm_bands := (\<lambda>b. filter (\<lambda>x. x \<noteq> i) (mm_bands m b))\<rparr>,
      i \<in> mm_enrolled m)"

definition me_index_minhash :: "string \<Rightarrow> 64 word list \<Rightarrow> 64 word list \<Rightarrow> mem_store \<Rightarrow> mem_store" where
  "me_index_minhash i sig bands m =
     m\<lparr>mm_sig := (mm_sig m)(i \<mapsto> sig),
       mm_bands := fold (\<lambda>b bs. bs(b := if i \<in> set (bs b) then bs b else bs b @ [i])) bands (mm_bands m)\<rparr>"

definition me_lookup_minhash :: "mem_store \<Rightarrow> 64 word list \<Rightarrow> (string \<times> 64 word list) list" where
  "me_lookup_minhash m probe =
     List.map_filter (\<lambda>i. map_option (Pair i) (mm_sig m i)) (rev (remdups (rev (concat (map (mm_bands m) probe)))))"

definition memory_ops :: "mem_store recog_ops" where
  "memory_ops =
     \<lparr>ro_is_enrolled = (\<lambda>m i. i \<in> mm_enrolled m), ro_enrolled_count = (\<lambda>m. card (mm_enrolled m)),
      ro_mark_pending = (\<lambda>i m. m\<lparr>mm_pending := insert i (mm_pending m)\<rparr>),
      ro_pending_ids = (\<lambda>limit m. take limit (sorted_list_of_set (mm_pending m))),
      ro_clear_pending = (\<lambda>i m. m\<lparr>mm_pending := mm_pending m - {i}\<rparr>), ro_pending_count = (\<lambda>m. card (mm_pending m)),
      ro_enrolled_ids = (\<lambda>m. sorted_list_of_set (mm_enrolled m)), ro_index_memory = me_index_memory,
      ro_lookup_pairs = (\<lambda>m. lookup_index (mm_pairs m)), ro_lookup_grams = (\<lambda>m. lookup_index (mm_grams m)),
      ro_forget_memory = me_forget_memory, ro_index_minhash = me_index_minhash, ro_lookup_minhash = me_lookup_minhash\<rparr>"

subsection \<open>The contract of a store\<close>

text \<open>What a match says of the index: its memory and its label under a hash.\<close>

definition cites :: "feature_match \<Rightarrow> feature_row" where
  "cites m = (fm_hash m, fm_memory_id m, fm_label m)"

locale recognition_store =
  fixes ops :: "'s recog_ops"
  assumes forget_enrolled: "ro_is_enrolled ops (fst (ro_forget_memory ops i s)) x \<longleftrightarrow> ro_is_enrolled ops s x \<and> x \<noteq> i"
    and forget_flag: "snd (ro_forget_memory ops i s) \<longleftrightarrow> ro_is_enrolled ops s i"
    and forget_pairs: "cites ` set (ro_lookup_pairs ops (fst (ro_forget_memory ops i s)) hs) = {c \<in> cites ` set (ro_lookup_pairs ops s hs). fst (snd c) \<noteq> i}"
    and forget_grams: "cites ` set (ro_lookup_grams ops (fst (ro_forget_memory ops i s)) hs) = {c \<in> cites ` set (ro_lookup_grams ops s hs). fst (snd c) \<noteq> i}"
    and forget_minhash: "set (ro_lookup_minhash ops (fst (ro_forget_memory ops i s)) bs) = {c \<in> set (ro_lookup_minhash ops s bs). fst c \<noteq> i}"
    and index_enrolled: "ro_is_enrolled ops (ro_index_memory ops i p s) x \<longleftrightarrow> x = i \<or> ro_is_enrolled ops s x"
    and minhash_enrolled: "ro_is_enrolled ops (ro_index_minhash ops i xs bs s) x \<longleftrightarrow> ro_is_enrolled ops s x"
    and index_pairs: "cites ` set (ro_lookup_pairs ops (ro_index_memory ops i p s) hs) =
      cites ` set (ro_lookup_pairs ops s hs) \<union> {(h, i, l) |h l. (h, l) \<in> set (sp_pair_hashes p) \<and> h \<in> fst ` set hs}"
    and index_grams: "cites ` set (ro_lookup_grams ops (ro_index_memory ops i p s) hs) =
      cites ` set (ro_lookup_grams ops s hs) \<union> {(h, i, l) |h l. (h, l) \<in> set (sp_gram_hashes p) \<and> h \<in> fst ` set hs}"
begin

lemma forgotten:
  assumes "s' = fst (ro_forget_memory ops i s)"
  shows "\<not> ro_is_enrolled ops s' i" "m \<in> set (ro_lookup_pairs ops s' hs) \<Longrightarrow> fm_memory_id m \<noteq> i"
    "m \<in> set (ro_lookup_grams ops s' hs) \<Longrightarrow> fm_memory_id m \<noteq> i" "c \<in> set (ro_lookup_minhash ops s' bs) \<Longrightarrow> fst c \<noteq> i"
proof -
  show "\<not> ro_is_enrolled ops s' i" by (simp add: assms forget_enrolled)
  show "m \<in> set (ro_lookup_pairs ops s' hs) \<Longrightarrow> fm_memory_id m \<noteq> i"
    using imageI[of m "set (ro_lookup_pairs ops s' hs)" cites] unfolding assms forget_pairs by (simp add: cites_def)
  show "m \<in> set (ro_lookup_grams ops s' hs) \<Longrightarrow> fm_memory_id m \<noteq> i"
    using imageI[of m "set (ro_lookup_grams ops s' hs)" cites] unfolding assms forget_grams by (simp add: cites_def)
  show "c \<in> set (ro_lookup_minhash ops s' bs) \<Longrightarrow> fst c \<noteq> i"
    using forget_minhash[of i s bs] unfolding assms by auto
qed

end

lemma cites_rows:
  "cites ` set (map (\<lambda>(x, i, l). \<lparr>fm_hash = h, fm_memory_id = i, fm_label = l, fm_doc_frequency = n\<rparr>) (filter (\<lambda>r. fst r = h) t)) =
    {r \<in> set t. fst r = h}"
  by (induction t) (auto simp: cites_def)

lemma cites_table: "cites ` set (lookup_table t hs) = {r \<in> set t. fst r \<in> fst ` set hs}"
proof (induction hs)
  case Nil
  then show ?case by (simp add: lookup_table_def)
next
  case (Cons p hs)
  have "cites ` set (lookup_table t (p # hs)) = {r \<in> set t. fst r = fst p} \<union> cites ` set (lookup_table t hs)"
    unfolding lookup_table_def Let_def by (cases p) (simp only: list.map concat.simps set_append image_Un prod.case cites_rows fst_conv)
  then show ?case unfolding Cons.IH by auto
qed

lemma sq_minhash_iff:
  "(i, sig) \<in> set (sq_lookup_minhash d bs) \<longleftrightarrow>
     (\<exists>b \<in> set bs. (b, i) \<in> set (rd_bands d)) \<and> sig \<in> signature_from_bytes ` {s. (i, s) \<in> set (rd_sig d)}"
proof (cases "bs = []")
  case True
  then show ?thesis by (simp add: sq_lookup_minhash_def)
next
  case False
  have "(i, s) \<in> set (concat (map (\<lambda>(b, i). filter (\<lambda>s. fst s = i) (rd_sig d)) (filter (\<lambda>r. fst r \<in> set bs) (rd_bands d)))) \<longleftrightarrow>
      (\<exists>b \<in> set bs. (b, i) \<in> set (rd_bands d)) \<and> (i, s) \<in> set (rd_sig d)" for s
    by auto
  then show ?thesis unfolding sq_lookup_minhash_def using False by (simp only: if_False set_map set_remdups) force
qed

lemma set_somes: "set (List.map_filter f xs) = {y. \<exists>x \<in> set xs. f x = Some y}"
  by (induction xs) (auto simp: List.map_filter_simps split: option.splits)

lemma me_minhash_iff:
  "(i, sig) \<in> set (me_lookup_minhash m bs) \<longleftrightarrow> (\<exists>b \<in> set bs. i \<in> set (mm_bands m b)) \<and> mm_sig m i = Some sig"
  by (auto simp: me_lookup_minhash_def set_somes)

lemma cites_entries:
  "cites ` set (map (\<lambda>(i, l). \<lparr>fm_hash = h, fm_memory_id = i, fm_label = l, fm_doc_frequency = n\<rparr>) es) = Pair h ` set es"
  by (induction es) (auto simp: cites_def)

lemma cites_index: "cites ` set (lookup_index ix hs) = {r. snd r \<in> set (ix (fst r)) \<and> fst r \<in> fst ` set hs}"
proof (induction hs)
  case Nil
  then show ?case by (simp add: lookup_index_def)
next
  case (Cons p hs)
  have "cites ` set (lookup_index ix (p # hs)) = Pair (fst p) ` set (ix (fst p)) \<union> cites ` set (lookup_index ix hs)"
    unfolding lookup_index_def by (cases p) (simp only: list.map concat.simps set_append image_Un prod.case cites_entries fst_conv)
  then show ?case unfolding Cons.IH by auto
qed

lemma rows_union:
  "{r. (r \<in> A \<or> (\<exists>h l. r = (h, i, l) \<and> (h, l) \<in> P)) \<and> fst r \<in> H} = {r \<in> A. fst r \<in> H} \<union> {(h, i, l) |h l. (h, l) \<in> P \<and> h \<in> H}"
  by auto

lemma entries_union:
  "{r. (snd r \<in> A (fst r) \<or> (\<exists>l. snd r = (i, l) \<and> (fst r, l) \<in> P)) \<and> fst r \<in> H} =
    {r. snd r \<in> A (fst r) \<and> fst r \<in> H} \<union> {(h, i, l) |h l. (h, l) \<in> P \<and> h \<in> H}"
  by auto

lemma set_add_row: "set (insert_or_ignore (\<lambda>r. r) r t) = insert r (set t)"
  by (auto simp: insert_or_ignore_def)

lemma set_add_features: "set (add_features i ps t) = set t \<union> {(h, i, l) |h l. (h, l) \<in> set ps}"
  unfolding add_features_def by (induction ps arbitrary: t) (auto simp: set_add_row)

lemma set_push_features: "set (push_features i ps ix h) = set (ix h) \<union> {(i, l) |l. (h, l) \<in> set ps}"
  unfolding push_features_def by (induction ps arbitrary: ix) (auto split: if_splits)

lemma is_enrolled_iff: "sq_is_enrolled d x \<longleftrightarrow> x \<in> fst ` set (rd_enrolled d)"
  by (force simp: sq_is_enrolled_def count_where_def filter_empty_conv)

interpretation sqlite: recognition_store "sqlite_ops now"
proof unfold_locales
  fix i s x hs bs p xs
  show "ro_is_enrolled (sqlite_ops now) (fst (ro_forget_memory (sqlite_ops now) i s)) x \<longleftrightarrow> ro_is_enrolled (sqlite_ops now) s x \<and> x \<noteq> i"
    by (auto simp: sqlite_ops_def is_enrolled_iff sq_forget_memory_def delete_where_def)
  show "snd (ro_forget_memory (sqlite_ops now) i s) \<longleftrightarrow> ro_is_enrolled (sqlite_ops now) s i"
    by (simp add: sqlite_ops_def sq_is_enrolled_def sq_forget_memory_def)
  show "cites ` set (ro_lookup_pairs (sqlite_ops now) (fst (ro_forget_memory (sqlite_ops now) i s)) hs) =
      {c \<in> cites ` set (ro_lookup_pairs (sqlite_ops now) s hs). fst (snd c) \<noteq> i}"
    by (auto simp: sqlite_ops_def sq_forget_memory_def cites_table delete_where_def)
  show "cites ` set (ro_lookup_grams (sqlite_ops now) (fst (ro_forget_memory (sqlite_ops now) i s)) hs) =
      {c \<in> cites ` set (ro_lookup_grams (sqlite_ops now) s hs). fst (snd c) \<noteq> i}"
    by (auto simp: sqlite_ops_def sq_forget_memory_def cites_table delete_where_def)
  show "set (ro_lookup_minhash (sqlite_ops now) (fst (ro_forget_memory (sqlite_ops now) i s)) bs) =
      {c \<in> set (ro_lookup_minhash (sqlite_ops now) s bs). fst c \<noteq> i}"
    by (auto simp: sqlite_ops_def sq_forget_memory_def sq_minhash_iff delete_where_def)
  show "ro_is_enrolled (sqlite_ops now) (ro_index_memory (sqlite_ops now) i p s) x \<longleftrightarrow> x = i \<or> ro_is_enrolled (sqlite_ops now) s x"
    by (auto simp: sqlite_ops_def is_enrolled_iff sq_index_memory_def keys_insert_or_ignore)
  show "ro_is_enrolled (sqlite_ops now) (ro_index_minhash (sqlite_ops now) i xs bs s) x \<longleftrightarrow> ro_is_enrolled (sqlite_ops now) s x"
    by (simp add: sq_is_enrolled_def sq_index_minhash_def sqlite_ops_def)
  show "cites ` set (ro_lookup_pairs (sqlite_ops now) (ro_index_memory (sqlite_ops now) i p s) hs) =
      cites ` set (ro_lookup_pairs (sqlite_ops now) s hs) \<union> {(h, i, l) |h l. (h, l) \<in> set (sp_pair_hashes p) \<and> h \<in> fst ` set hs}"
    by (simp add: sqlite_ops_def sq_index_memory_def cites_table set_add_features rows_union)
  show "cites ` set (ro_lookup_grams (sqlite_ops now) (ro_index_memory (sqlite_ops now) i p s) hs) =
      cites ` set (ro_lookup_grams (sqlite_ops now) s hs) \<union> {(h, i, l) |h l. (h, l) \<in> set (sp_gram_hashes p) \<and> h \<in> fst ` set hs}"
    by (simp add: sqlite_ops_def sq_index_memory_def cites_table set_add_features rows_union)
qed

interpretation in_memory: recognition_store memory_ops
proof unfold_locales
  fix i s x hs bs p xs
  show "ro_is_enrolled memory_ops (fst (ro_forget_memory memory_ops i s)) x \<longleftrightarrow> ro_is_enrolled memory_ops s x \<and> x \<noteq> i"
    by (auto simp: memory_ops_def me_forget_memory_def)
  show "snd (ro_forget_memory memory_ops i s) \<longleftrightarrow> ro_is_enrolled memory_ops s i"
    by (simp add: memory_ops_def me_forget_memory_def)
  show "cites ` set (ro_lookup_pairs memory_ops (fst (ro_forget_memory memory_ops i s)) hs) =
      {c \<in> cites ` set (ro_lookup_pairs memory_ops s hs). fst (snd c) \<noteq> i}"
    by (auto simp: memory_ops_def me_forget_memory_def cites_index)
  show "cites ` set (ro_lookup_grams memory_ops (fst (ro_forget_memory memory_ops i s)) hs) =
      {c \<in> cites ` set (ro_lookup_grams memory_ops s hs). fst (snd c) \<noteq> i}"
    by (auto simp: memory_ops_def me_forget_memory_def cites_index)
  show "set (ro_lookup_minhash memory_ops (fst (ro_forget_memory memory_ops i s)) bs) =
      {c \<in> set (ro_lookup_minhash memory_ops s bs). fst c \<noteq> i}"
    by (auto simp: memory_ops_def me_forget_memory_def me_minhash_iff split: if_splits)
  show "ro_is_enrolled memory_ops (ro_index_memory memory_ops i p s) x \<longleftrightarrow> x = i \<or> ro_is_enrolled memory_ops s x"
    by (auto simp: memory_ops_def me_index_memory_def)
  show "ro_is_enrolled memory_ops (ro_index_minhash memory_ops i xs bs s) x \<longleftrightarrow> ro_is_enrolled memory_ops s x"
    by (simp add: memory_ops_def me_index_minhash_def)
  show "cites ` set (ro_lookup_pairs memory_ops (ro_index_memory memory_ops i p s) hs) =
      cites ` set (ro_lookup_pairs memory_ops s hs) \<union> {(h, i, l) |h l. (h, l) \<in> set (sp_pair_hashes p) \<and> h \<in> fst ` set hs}"
    by (simp add: memory_ops_def me_index_memory_def cites_index set_push_features entries_union [where A = "\<lambda>h. set (mm_pairs s h)"])
  show "cites ` set (ro_lookup_grams memory_ops (ro_index_memory memory_ops i p s) hs) =
      cites ` set (ro_lookup_grams memory_ops s hs) \<union> {(h, i, l) |h l. (h, l) \<in> set (sp_gram_hashes p) \<and> h \<in> fst ` set hs}"
    by (simp add: memory_ops_def me_index_memory_def cites_index set_push_features entries_union [where A = "\<lambda>h. set (mm_grams s h)"])
qed

subsection \<open>The two stores agree\<close>

datatype store_op =
    Index string stimulus_prints
  | Minhash string "64 word list" "64 word list"
  | Forget_Op string
  | Mark string
  | Clear string

definition apply_op :: "'s recog_ops \<Rightarrow> store_op \<Rightarrow> 's \<Rightarrow> 's" where
  "apply_op ops c s = (case c of
     Index i p \<Rightarrow> ro_index_memory ops i p s
   | Minhash i sig bands \<Rightarrow> ro_index_minhash ops i sig bands s
   | Forget_Op i \<Rightarrow> fst (ro_forget_memory ops i s)
   | Mark i \<Rightarrow> ro_mark_pending ops i s
   | Clear i \<Rightarrow> ro_clear_pending ops i s)"

text \<open>Each call is made at its own \<open>datetime('now')\<close>.\<close>

definition run_sqlite :: "(string \<times> store_op) list \<Rightarrow> recog_db" where
  "run_sqlite cs = fold (\<lambda>(now, c). apply_op (sqlite_ops now) c) cs empty_recog_db"

definition run_memory :: "(string \<times> store_op) list \<Rightarrow> mem_store" where
  "run_memory cs = fold (\<lambda>(now, c). apply_op memory_ops c) cs empty_mem_store"

definition agree :: "recog_db \<Rightarrow> mem_store \<Rightarrow> bool" where
  "agree d m \<longleftrightarrow>
     (distinct (map fst (rd_enrolled d)) \<and> mm_enrolled m = fst ` set (rd_enrolled d)) \<and>
     (distinct (map fst (rd_pending d)) \<and> mm_pending m = fst ` set (rd_pending d)) \<and>
     (\<forall>h e. e \<in> set (mm_pairs m h) \<longleftrightarrow> (h, e) \<in> set (rd_pairs d)) \<and>
     (\<forall>h e. e \<in> set (mm_grams m h) \<longleftrightarrow> (h, e) \<in> set (rd_grams d)) \<and>
     (\<forall>i sig. mm_sig m i = Some sig \<longleftrightarrow> sig \<in> signature_from_bytes ` {b. (i, b) \<in> set (rd_sig d)}) \<and>
     (\<forall>b i. i \<in> set (mm_bands m b) \<longleftrightarrow> (b, i) \<in> set (rd_bands d))"

lemma agreeI:
  assumes "distinct (map fst (rd_enrolled d)) \<and> mm_enrolled m = fst ` set (rd_enrolled d)"
    "distinct (map fst (rd_pending d)) \<and> mm_pending m = fst ` set (rd_pending d)"
    "\<And>h e. e \<in> set (mm_pairs m h) \<longleftrightarrow> (h, e) \<in> set (rd_pairs d)"
    "\<And>h e. e \<in> set (mm_grams m h) \<longleftrightarrow> (h, e) \<in> set (rd_grams d)"
    "\<And>i sig. mm_sig m i = Some sig \<longleftrightarrow> sig \<in> signature_from_bytes ` {b. (i, b) \<in> set (rd_sig d)}"
    "\<And>b i. i \<in> set (mm_bands m b) \<longleftrightarrow> (b, i) \<in> set (rd_bands d)"
  shows "agree d m"
  unfolding agree_def using assms by simp

lemma agreeD:
  assumes "agree d m"
  shows "distinct (map fst (rd_enrolled d)) \<and> mm_enrolled m = fst ` set (rd_enrolled d)"
    "distinct (map fst (rd_pending d)) \<and> mm_pending m = fst ` set (rd_pending d)"
    "e \<in> set (mm_pairs m h) \<longleftrightarrow> (h, e) \<in> set (rd_pairs d)"
    "e \<in> set (mm_grams m h) \<longleftrightarrow> (h, e) \<in> set (rd_grams d)"
    "mm_sig m i = Some sig \<longleftrightarrow> sig \<in> signature_from_bytes ` {b. (i, b) \<in> set (rd_sig d)}"
    "i \<in> set (mm_bands m w) \<longleftrightarrow> (w, i) \<in> set (rd_bands d)"
  using assms unfolding agree_def by (elim conjE; simp del: split_paired_All)+

lemma order_by_sorted_list: "distinct xs \<Longrightarrow> order_by (\<le>) xs = sorted_list_of_set (set (xs :: string list))"
proof -
  assume d: "distinct xs"
  have ins: "insert_row (\<le>) = (insort :: string \<Rightarrow> string list \<Rightarrow> string list)"
  proof (intro ext)
    fix x :: string and ys
    show "insert_row (\<le>) x ys = insort x ys" by (induction ys) auto
  qed
  have "order_by (\<le>) xs = sort xs" unfolding order_by_def ins sort_key_def by simp
  then show ?thesis using d by (simp add: sorted_list_of_set_sort_remdups distinct_remdups_id)
qed

lemma keys_delete_where: "fst ` {r \<in> A. fst r \<noteq> i} = fst ` A - {i}"
  by auto

lemma in_delete_where: "r \<in> set (delete_where P t) \<longleftrightarrow> r \<in> set t \<and> \<not> P r"
  by (simp add: delete_where_def)

lemma set_bands_fold:
  "i \<in> set (fold (\<lambda>b bs. bs(b := if j \<in> set (bs b) then bs b else bs b @ [j])) bands ix w) \<longleftrightarrow>
     i \<in> set (ix w) \<or> i = j \<and> w \<in> set bands"
  by (induction bands arbitrary: ix) auto

lemma set_rows_fold: "set (fold (\<lambda>b. insert_or_ignore (\<lambda>r. r) (b, j)) bands t) = set t \<union> (\<lambda>b. (b, j)) ` set bands"
  by (induction bands arbitrary: t) (auto simp: set_add_row)

lemma agree_step:
  assumes "agree d m"
  shows "agree (apply_op (sqlite_ops now) c d) (apply_op memory_ops c m)"
proof (cases c)
  case (Index i p)
  show ?thesis unfolding Index apply_op_def store_op.case
    by (rule agreeI)
      (simp_all add: sqlite_ops_def memory_ops_def sq_index_memory_def me_index_memory_def agreeD [OF assms]
        distinct_insert_or_ignore keys_insert_or_ignore set_add_features set_push_features)
next
  case (Minhash i sig bands)
  show ?thesis unfolding Minhash apply_op_def store_op.case
    by (rule agreeI)
      (auto simp: sqlite_ops_def memory_ops_def sq_index_minhash_def me_index_minhash_def agreeD [OF assms]
        set_bands_fold set_rows_fold delete_where_def signature_from_to_bytes)
next
  case (Forget_Op i)
  show ?thesis unfolding Forget_Op apply_op_def store_op.case
    by (rule agreeI)
      (simp_all add: sqlite_ops_def memory_ops_def sq_forget_memory_def me_forget_memory_def agreeD [OF assms]
        distinct_delete_where keys_delete_where in_delete_where)
next
  case (Mark i)
  show ?thesis unfolding Mark apply_op_def store_op.case
    by (rule agreeI)
      (simp_all add: sqlite_ops_def memory_ops_def sq_mark_pending_def agreeD [OF assms] distinct_insert_or_ignore keys_insert_or_ignore)
next
  case (Clear i)
  show ?thesis unfolding Clear apply_op_def store_op.case
    by (rule agreeI)
      (simp_all add: sqlite_ops_def memory_ops_def sq_clear_pending_def agreeD [OF assms] distinct_delete_where keys_delete_where in_delete_where)
qed

lemma agree_runs: "agree (run_sqlite cs) (run_memory cs)"
proof -
  have "agree d m \<Longrightarrow> agree (fold (\<lambda>(now, c). apply_op (sqlite_ops now) c) cs d) (fold (\<lambda>(now, c). apply_op memory_ops c) cs m)" for d m
    by (induction cs arbitrary: d m) (auto intro: agree_step)
  moreover have "agree empty_recog_db empty_mem_store"
    by (rule agreeI) (simp_all add: empty_recog_db_def empty_mem_store_def)
  ultimately show ?thesis unfolding run_sqlite_def run_memory_def by blast
qed

text \<open>What two agreeing stores answer.\<close>

lemma agree_answers:
  assumes "agree d m"
  shows "ro_is_enrolled (sqlite_ops now) d = ro_is_enrolled memory_ops m"
    and "ro_enrolled_count (sqlite_ops now) d = ro_enrolled_count memory_ops m"
    and "ro_enrolled_ids (sqlite_ops now) d = ro_enrolled_ids memory_ops m"
    and "ro_pending_count (sqlite_ops now) d = ro_pending_count memory_ops m"
    and "cites ` set (ro_lookup_pairs (sqlite_ops now) d hs) = cites ` set (ro_lookup_pairs memory_ops m hs)"
    and "cites ` set (ro_lookup_grams (sqlite_ops now) d hs) = cites ` set (ro_lookup_grams memory_ops m hs)"
    and "set (ro_lookup_minhash (sqlite_ops now) d bs) = set (ro_lookup_minhash memory_ops m bs)"
proof -
  note A = agreeD [OF assms]
  note defs = sqlite_ops_def memory_ops_def
  show "ro_is_enrolled (sqlite_ops now) d = ro_is_enrolled memory_ops m"
    by (rule ext) (simp add: defs is_enrolled_iff A)
  show "ro_enrolled_count (sqlite_ops now) d = ro_enrolled_count memory_ops m"
    using A(1) distinct_card[of "map fst (rd_enrolled d)"] by (simp add: defs)
  show "ro_enrolled_ids (sqlite_ops now) d = ro_enrolled_ids memory_ops m"
    using A(1) by (simp add: defs sq_enrolled_ids_def order_by_sorted_list)
  show "ro_pending_count (sqlite_ops now) d = ro_pending_count memory_ops m"
    using A(2) distinct_card[of "map fst (rd_pending d)"] by (simp add: defs)
  show "cites ` set (ro_lookup_pairs (sqlite_ops now) d hs) = cites ` set (ro_lookup_pairs memory_ops m hs)"
    by (auto simp: defs cites_table cites_index A)
  show "cites ` set (ro_lookup_grams (sqlite_ops now) d hs) = cites ` set (ro_lookup_grams memory_ops m hs)"
    by (auto simp: defs cites_table cites_index A)
  show "set (ro_lookup_minhash (sqlite_ops now) d bs) = set (ro_lookup_minhash memory_ops m bs)"
    by (auto simp: defs sq_minhash_iff me_minhash_iff A)
qed

text \<open>The retry queue: the same ids when the limit covers it, as many when it does not.\<close>

lemma agree_pending:
  assumes "agree d m"
  shows "set (ro_pending_ids (sqlite_ops now) (ro_pending_count (sqlite_ops now) d + n) d) =
      set (ro_pending_ids memory_ops (ro_pending_count (sqlite_ops now) d + n) m)"
    and "length (ro_pending_ids (sqlite_ops now) n d) = length (ro_pending_ids memory_ops n m)"
proof -
  have p: "distinct (map fst (rd_pending d))" "mm_pending m = fst ` set (rd_pending d)"
    using agreeD(2) [OF assms] by blast+
  then have len: "length (sorted_list_of_set (mm_pending m)) = length (rd_pending d)"
    using distinct_card[of "map fst (rd_pending d)"] by simp
  show "length (ro_pending_ids (sqlite_ops now) n d) = length (ro_pending_ids memory_ops n m)"
    by (simp add: sqlite_ops_def memory_ops_def sq_pending_ids_def len del: sorted_list_of_set.length_sorted_key_list_of_set)
  have "take (length (rd_pending d) + n) xs = xs" if "length xs = length (rd_pending d)" for xs :: "string list"
    using that by simp
  then show "set (ro_pending_ids (sqlite_ops now) (ro_pending_count (sqlite_ops now) d + n) d) =
      set (ro_pending_ids memory_ops (ro_pending_count (sqlite_ops now) d + n) m)"
    using len p(2) by (simp add: sqlite_ops_def memory_ops_def sq_pending_ids_def
        del: take_all_iff sorted_list_of_set.length_sorted_key_list_of_set)
qed

lemma agree_forget:
  "agree d m \<Longrightarrow> snd (ro_forget_memory (sqlite_ops now) i d) = snd (ro_forget_memory memory_ops i m)"
  using sqlite.forget_flag[of now i d] in_memory.forget_flag[of i m] agree_answers(1)[of d m now] by simp

text \<open>C29: after every sequence of calls the two implementations of the trait have the same enrolled
  memories, the same counts and the same sorted list of enrolled ids, report the same of a forgetting,
  cite the same set of rows (hash, memory, label) in a lookup, and offer the same set of candidates with
  their signatures. Of the retry queue they list the same ids under a limit that covers it, and equally
  many under any limit. What may differ: the order and the multiplicity of the rows of a lookup, the
  document frequency (\<open>df_diverges\<close>), and the order of the retry queue, hence which ids a smaller
  limit keeps (\<open>pending_order_diverges\<close>).\<close>

theorem stores_agree:
  fixes cs :: "(string \<times> store_op) list" and now :: string
  defines "d \<equiv> run_sqlite cs" and "m \<equiv> run_memory cs" and "sql \<equiv> sqlite_ops now"
  shows "ro_is_enrolled sql d = ro_is_enrolled memory_ops m \<and>
    ro_enrolled_count sql d = ro_enrolled_count memory_ops m \<and>
    ro_enrolled_ids sql d = ro_enrolled_ids memory_ops m \<and>
    ro_pending_count sql d = ro_pending_count memory_ops m \<and>
    set (ro_pending_ids sql (ro_pending_count sql d + n) d) = set (ro_pending_ids memory_ops (ro_pending_count sql d + n) m) \<and>
    length (ro_pending_ids sql n d) = length (ro_pending_ids memory_ops n m) \<and>
    snd (ro_forget_memory sql i d) = snd (ro_forget_memory memory_ops i m) \<and>
    cites ` set (ro_lookup_pairs sql d hs) = cites ` set (ro_lookup_pairs memory_ops m hs) \<and>
    cites ` set (ro_lookup_grams sql d hs) = cites ` set (ro_lookup_grams memory_ops m hs) \<and>
    set (ro_lookup_minhash sql d bs) = set (ro_lookup_minhash memory_ops m bs)"
proof -
  have "agree d m" unfolding d_def m_def by (rule agree_runs)
  from agree_answers [OF this] agree_pending [OF this] agree_forget [OF this] show ?thesis
    unfolding sql_def by simp
qed

text \<open>The retry queue is ordered by the time of the failure in SQLite, and by id in memory.\<close>

lemma pending_order_diverges:
  "ro_pending_ids (sqlite_ops now) 1 (run_sqlite [(''t1'', Mark ''b''), (''t2'', Mark ''a'')]) = [''b'']"
  "ro_pending_ids memory_ops 1 (run_memory [(''t1'', Mark ''b''), (''t2'', Mark ''a'')]) = [''a'']"
proof -
  show "ro_pending_ids (sqlite_ops now) 1 (run_sqlite [(''t1'', Mark ''b''), (''t2'', Mark ''a'')]) = [''b'']"
    by (simp add: run_sqlite_def apply_op_def sqlite_ops_def sq_mark_pending_def sq_pending_ids_def
        empty_recog_db_def insert_or_ignore_def order_by_def)
  have "sorted_list_of_set {''a'', ''b''} = [''a'', ''b'']"
    using order_by_sorted_list[of "[''a'', ''b'']"] by (simp add: order_by_def)
  then show "ro_pending_ids memory_ops 1 (run_memory [(''t1'', Mark ''b''), (''t2'', Mark ''a'')]) = [''a'']"
    by (simp add: run_memory_def apply_op_def memory_ops_def empty_mem_store_def)
qed

text \<open>The document frequency differs when one memory has a hash twice (two equal runs of a text): SQLite counts
  the memory once, the in-memory index counts both entries.\<close>

lemma df_diverges:
  "map fm_doc_frequency (ro_lookup_grams (sqlite_ops now) (run_sqlite [(now, Index ''m'' \<lparr>sp_peaks = [], sp_pair_hashes = [], sp_gram_hashes = [(7, ''g''), (7, ''g'')], sp_token_count = 3\<rparr>)]) [(7, ''q'')]) = [1]"
  "map fm_doc_frequency (ro_lookup_grams memory_ops (run_memory [(now, Index ''m'' \<lparr>sp_peaks = [], sp_pair_hashes = [], sp_gram_hashes = [(7, ''g''), (7, ''g'')], sp_token_count = 3\<rparr>)]) [(7, ''q'')]) = [2, 2]"
  by (simp_all add: run_sqlite_def run_memory_def apply_op_def sqlite_ops_def memory_ops_def sq_index_memory_def me_index_memory_def
      empty_recog_db_def empty_mem_store_def add_features_def push_features_def insert_or_ignore_def lookup_table_def lookup_index_def)

end
