(* ===== verification/Recog_Engine.thy ===== *)
theory Recog_Engine
  imports Recog_Store
begin

text \<open>
  Scoring (\<open>spectral-recognition/src/score.rs\<close>) and the engine (\<open>lib.rs\<close>) over a store. The engine's
  hash maps and its hash set are iterated in an order that \<open>hash_order\<close> gives; sums and divisions are
  those of \<open>rank_env\<close>, and NaN does not occur. \<open>rk_words\<close> splits at the white space that \<open>trim\<close> removes,
  so a text trims to nothing when it has no word.
\<close>

subsection \<open>Configuration and results\<close>

record 'f score_config =
  sc_recognize_coverage :: 'f
  sc_recognize_min_score :: 'f
  sc_recognize_min_familiarity :: 'f
  sc_recognize_margin :: 'f
  sc_familiar_floor :: 'f
  sc_familiar_min_similarity :: 'f
  sc_familiar_min_score :: 'f
  sc_familiar_min_features :: nat
  sc_gram_weight :: 'f
  sc_max_evidence :: nat
  sc_max_traces :: nat
  sc_discriminative_margin :: bool

definition default_score :: "'f rank_env \<Rightarrow> 'f score_config" where
  "default_score R =
     \<lparr>sc_recognize_coverage = rk_lit R (35 / 100), sc_recognize_min_score = rk_lit R 3,
      sc_recognize_min_familiarity = rk_lit R (60 / 100), sc_recognize_margin = rk_lit R (3 / 2),
      sc_familiar_floor = rk_lit R (10 / 100), sc_familiar_min_similarity = rk_lit R (20 / 100),
      sc_familiar_min_score = rk_lit R (5 / 2), sc_familiar_min_features = 2, sc_gram_weight = rk_lit R 2,
      sc_max_evidence = 12, sc_max_traces = 5, sc_discriminative_margin = False\<rparr>"

record 'f recog_config =
  rc_prints :: print_config
  rc_minhash :: "'f minhash_config"
  rc_score :: "'f score_config"

definition default_recog_config :: "'f rank_env \<Rightarrow> 'f recog_config" where
  "default_recog_config R = \<lparr>rc_prints = default_prints, rc_minhash = default_minhash R, rc_score = default_score R\<rparr>"

datatype verdict = Recognized string | Familiar | Novel

record 'f evidence_row =
  ev_feature :: string
  ev_memory_id :: string
  ev_weight :: 'f

record 'f trace_match =
  tr_memory_id :: string
  tr_score :: 'f
  tr_pair_hits :: nat
  tr_gram_hits :: nat
  tr_coverage :: 'f

record 'f recognition_result =
  rr_verdict :: verdict
  rr_familiarity :: 'f
  rr_odds_of_old :: 'f
  rr_novelty :: 'f
  rr_traces :: "'f trace_match list"
  rr_evidence :: "'f evidence_row list"
  rr_stimulus_peaks :: nat
  rr_stimulus_pairs :: nat

record 'f minhash_match =
  mi_memory_id :: string
  mi_similarity :: 'f

record 'f accum =
  ac_score :: 'f
  ac_pair_hits :: nat
  ac_gram_hits :: nat
  ac_evidence :: "'f evidence_row list"

type_synonym 'f features = "((64 word \<times> bool) \<times> 'f) list"

record 'f hash_order =
  ho_acc :: "(string \<times> 'f accum) list \<Rightarrow> (string \<times> 'f accum) list"
  ho_features :: "'f features \<Rightarrow> 'f features"
  ho_shingles :: "64 word set \<Rightarrow> 64 word list"

subsection \<open>Accumulating the evidence\<close>

definition rarity :: "'f recog_env \<Rightarrow> nat \<Rightarrow> nat \<Rightarrow> 'f" where
  "rarity E enrolled df =
     rk_max (re_rank E) (re_ln E (rk_div (re_rank E) (rk_of_nat (re_rank E) (enrolled + 1)) (rk_of_nat (re_rank E) (max df 1))))
       (rk_lit (re_rank E) (1 / 10))"

definition feature_weight :: "'f recog_env \<Rightarrow> 'f score_config \<Rightarrow> nat \<Rightarrow> feature_match \<times> bool \<Rightarrow> 'f" where
  "feature_weight E sc enrolled m =
     (let base = rarity E enrolled (fm_doc_frequency (fst m))
      in if snd m then rk_mul (re_rank E) base (sc_gram_weight sc) else base)"

definition tagged :: "feature_match list \<Rightarrow> feature_match list \<Rightarrow> (feature_match \<times> bool) list" where
  "tagged pairs grams = map (\<lambda>m. (m, False)) pairs @ map (\<lambda>m. (m, True)) grams"

text \<open>\<open>entry(k).or_insert(x)\<close> and an update of the value: \<open>entry_or\<close> appends a new key.\<close>

fun entry_or :: "'k \<Rightarrow> 'v \<Rightarrow> ('v \<Rightarrow> 'v) \<Rightarrow> ('k \<times> 'v) list \<Rightarrow> ('k \<times> 'v) list" where
  "entry_or k x f [] = [(k, f x)]"
| "entry_or k x f ((j, v) # es) = (if j = k then (j, f v) # es else (j, v) # entry_or k x f es)"

definition exclusive_evidence ::
    "'f recog_env \<Rightarrow> 'f hash_order \<Rightarrow> 'f score_config \<Rightarrow> nat \<Rightarrow> feature_match list \<Rightarrow> feature_match list \<Rightarrow>
      string \<Rightarrow> string \<Rightarrow> 'f \<times> 'f" where
  "exclusive_evidence E ho sc enrolled pairs grams best_id runner_id =
     (let R = re_rank E;
          put = (\<lambda>m. entry_or (fm_hash (fst m), snd m) (rk_lit R 0) (\<lambda>e. rk_max R e (feature_weight E sc enrolled m)));
          (best_f, runner_f) =
            fold (\<lambda>m (b, r). if fm_memory_id (fst m) = best_id then (put m b, r)
                             else if fm_memory_id (fst m) = runner_id then (b, put m r) else (b, r))
              (tagged pairs grams) ([], []);
          excl = (\<lambda>a b. foldl (rk_add R) (rk_lit R 0) (map snd (filter (\<lambda>e. fst e \<notin> fst ` set b) (ho_features ho a))))
      in (excl best_f runner_f, excl runner_f best_f))"

definition no_accum :: "'f rank_env \<Rightarrow> 'f accum" where
  "no_accum R = \<lparr>ac_score = rk_lit R 0, ac_pair_hits = 0, ac_gram_hits = 0, ac_evidence = []\<rparr>"

definition count_feature ::
    "'f recog_env \<Rightarrow> 'f score_config \<Rightarrow> nat \<Rightarrow> feature_match \<times> bool \<Rightarrow> (string \<times> 'f accum) list \<Rightarrow> (string \<times> 'f accum) list" where
  "count_feature E sc enrolled m =
     (let w = feature_weight E sc enrolled m; i = fm_memory_id (fst m)
      in entry_or i (no_accum (re_rank E))
           (\<lambda>a. a\<lparr>ac_score := rk_add (re_rank E) (ac_score a) w,
                  ac_pair_hits := (if snd m then ac_pair_hits a else Suc (ac_pair_hits a)),
                  ac_gram_hits := (if snd m then Suc (ac_gram_hits a) else ac_gram_hits a),
                  ac_evidence := ac_evidence a @ [\<lparr>ev_feature = fm_label (fst m), ev_memory_id = i, ev_weight = w\<rparr>]\<rparr>))"

definition count_minhash ::
    "'f recog_env \<Rightarrow> nat \<Rightarrow> 'f \<Rightarrow> 'f minhash_match \<Rightarrow> (string \<times> 'f accum) list \<Rightarrow> (string \<times> 'f accum) list" where
  "count_minhash E enrolled minhash_weight mm =
     (let R = re_rank E;
          w = rk_mul R (rk_mul R (mi_similarity mm) minhash_weight) (rarity E enrolled 1)
      in entry_or (mi_memory_id mm) (no_accum R)
           (\<lambda>a. a\<lparr>ac_score := rk_add R (ac_score a) w,
                  ac_evidence := ac_evidence a @
                    [\<lparr>ev_feature = ''minhash: containment '' @ re_fixed2 E (mi_similarity mm),
                      ev_memory_id = mi_memory_id mm, ev_weight = w\<rparr>]\<rparr>))"

text \<open>The matches of the shingle channel that count.\<close>

definition close_matches :: "'f rank_env \<Rightarrow> 'f \<Rightarrow> 'f \<Rightarrow> 'f minhash_match list \<Rightarrow> 'f minhash_match list" where
  "close_matches R minhash_weight min_similarity mms =
     (if rk_less R (rk_lit R 0) minhash_weight then filter (\<lambda>mm. \<not> rk_less R (mi_similarity mm) min_similarity) mms else [])"

definition best_similarity :: "'f rank_env \<Rightarrow> 'f minhash_match list \<Rightarrow> 'f" where
  "best_similarity R mms = fold (\<lambda>mm b. rk_max R b (mi_similarity mm)) mms (rk_lit R 0)"

definition accumulate ::
    "'f recog_env \<Rightarrow> 'f score_config \<Rightarrow> nat \<Rightarrow> feature_match list \<Rightarrow> feature_match list \<Rightarrow> 'f \<Rightarrow> 'f minhash_match list \<Rightarrow>
      (string \<times> 'f accum) list" where
  "accumulate E sc enrolled pairs grams minhash_weight mms =
     fold (count_minhash E enrolled minhash_weight) mms (fold (count_feature E sc enrolled) (tagged pairs grams) [])"

subsection \<open>Traces, familiarity, verdict\<close>

definition trace_of :: "'f rank_env \<Rightarrow> nat \<Rightarrow> string \<times> 'f accum \<Rightarrow> 'f trace_match" where
  "trace_of R stimulus_features e =
     (let a = snd e
      in \<lparr>tr_memory_id = fst e, tr_score = ac_score a, tr_pair_hits = ac_pair_hits a, tr_gram_hits = ac_gram_hits a,
          tr_coverage =
            (if 0 < stimulus_features
             then rk_min R (rk_div R (rk_of_nat R (ac_pair_hits a + ac_gram_hits a)) (rk_of_nat R stimulus_features)) (rk_lit R 1)
             else rk_lit R 0)\<rparr>)"

lemma trace_of_fields: "tr_memory_id (trace_of R k e) = fst e" "tr_score (trace_of R k e) = ac_score (snd e)"
  by (simp_all add: trace_of_def Let_def)

text \<open>\<open>partial_cmp\<close> with the arguments swapped, then the text.\<close>

definition trace_before :: "'f rank_env \<Rightarrow> 'f trace_match \<Rightarrow> 'f trace_match \<Rightarrow> bool" where
  "trace_before R a b \<longleftrightarrow>
     (if rk_less R (tr_score b) (tr_score a) then True
      else if rk_less R (tr_score a) (tr_score b) then False
      else tr_memory_id a \<le> tr_memory_id b)"

definition evidence_before :: "'f rank_env \<Rightarrow> 'f evidence_row \<Rightarrow> 'f evidence_row \<Rightarrow> bool" where
  "evidence_before R a b \<longleftrightarrow>
     (if rk_less R (ev_weight b) (ev_weight a) then True
      else if rk_less R (ev_weight a) (ev_weight b) then False
      else ev_feature a < ev_feature b \<or> ev_feature a = ev_feature b \<and> ev_memory_id a \<le> ev_memory_id b)"

definition coverage_familiarity ::
    "'f recog_env \<Rightarrow> 'f score_config \<Rightarrow> nat \<Rightarrow> stimulus_prints \<Rightarrow> 'f trace_match list \<Rightarrow> 'f" where
  "coverage_familiarity E sc enrolled prints traces =
     (let R = re_rank E;
          potential = rk_mul R (rarity E enrolled 1)
            (rk_add R (rk_of_nat R (length (sp_pair_hashes prints))) (rk_mul R (sc_gram_weight sc) (rk_of_nat R (length (sp_gram_hashes prints)))))
      in case traces of
           [] \<Rightarrow> rk_lit R 0
         | t # ts \<Rightarrow> if rk_less R (rk_lit R 0) potential then rk_min R (rk_div R (tr_score t) potential) (rk_lit R 1) else rk_lit R 0)"

text \<open>The plain lead over the runner-up, or the lead on the evidence that the other candidate lacks.\<close>

definition clear_lead ::
    "'f recog_env \<Rightarrow> 'f hash_order \<Rightarrow> 'f score_config \<Rightarrow> nat \<Rightarrow> feature_match list \<Rightarrow> feature_match list \<Rightarrow>
      'f trace_match \<Rightarrow> 'f trace_match list \<Rightarrow> bool" where
  "clear_lead E ho sc enrolled pairs grams best rest \<longleftrightarrow>
     (let R = re_rank E; runner_up = (case rest of [] \<Rightarrow> rk_lit R 0 | t # ts \<Rightarrow> tr_score t)
      in rk_leq R (rk_mul R runner_up (sc_recognize_margin sc)) (tr_score best) \<or>
         sc_discriminative_margin sc \<and>
         (case rest of
            [] \<Rightarrow> False
          | rival # ts \<Rightarrow>
              let (excl_best, excl_rival) = exclusive_evidence E ho sc enrolled pairs grams (tr_memory_id best) (tr_memory_id rival)
              in rk_leq R (sc_recognize_min_score sc) excl_best \<and>
                 rk_leq R (rk_mul R excl_rival (sc_recognize_margin sc)) excl_best))"

definition judge ::
    "'f rank_env \<Rightarrow> 'f score_config \<Rightarrow> 'f \<Rightarrow> 'f \<Rightarrow> bool \<Rightarrow> 'f trace_match \<Rightarrow> verdict" where
  "judge R sc cov sim lead best =
     (if rk_leq R (sc_recognize_coverage sc) (tr_coverage best) \<and> rk_leq R (sc_recognize_min_score sc) (tr_score best) \<and>
         rk_leq R (sc_recognize_min_familiarity sc) (rk_max R cov sim) \<and> lead
      then Recognized (tr_memory_id best)
      else if rk_leq R (sc_familiar_floor sc) cov \<or> rk_leq R (sc_familiar_min_similarity sc) sim \<or>
              rk_leq R (sc_familiar_min_score sc) (tr_score best) \<and>
              sc_familiar_min_features sc \<le> tr_pair_hits best + tr_gram_hits best
      then Familiar else Novel)"

definition score_candidates ::
    "'f recog_env \<Rightarrow> 'f hash_order \<Rightarrow> stimulus_prints \<Rightarrow> feature_match list \<Rightarrow> feature_match list \<Rightarrow> 'f minhash_match list \<Rightarrow>
      nat \<Rightarrow> 'f score_config \<Rightarrow> 'f \<Rightarrow> 'f \<Rightarrow> 'f recognition_result" where
  "score_candidates E ho prints pairs grams mms enrolled sc minhash_weight min_similarity =
     (let R = re_rank E;
          stimulus_features = length (sp_pair_hashes prints) + length (sp_gram_hashes prints);
          near = close_matches R minhash_weight min_similarity mms;
          acc = accumulate E sc enrolled pairs grams minhash_weight near;
          sim = best_similarity R near;
          traces = order_by (trace_before R) (map (trace_of R stimulus_features) (ho_acc ho acc));
          cov = coverage_familiarity E sc enrolled prints traces;
          familiarity = rk_max R cov sim;
          (verdict, odds) =
            (case traces of
               [] \<Rightarrow> (Novel, rk_lit R 0)
             | best # rest \<Rightarrow> (judge R sc cov sim (clear_lead E ho sc enrolled pairs grams best rest) best, tr_score best));
          evidence = order_by (evidence_before R) (concat (map (ac_evidence \<circ> snd) (ho_acc ho acc)))
      in \<lparr>rr_verdict = verdict, rr_familiarity = familiarity, rr_odds_of_old = odds,
          rr_novelty = rk_sub R (rk_lit R 1) familiarity, rr_traces = take (sc_max_traces sc) traces,
          rr_evidence = take (sc_max_evidence sc) evidence, rr_stimulus_peaks = length (sp_peaks prints),
          rr_stimulus_pairs = length (sp_pair_hashes prints)\<rparr>)"

subsection \<open>The engine\<close>

definition enroll ::
    "'f recog_env \<Rightarrow> 'f recog_config \<Rightarrow> term_idf option \<Rightarrow> 's recog_ops \<Rightarrow> string \<Rightarrow> string \<Rightarrow> 's \<Rightarrow> 's option" where
  "enroll E cfg idf ops i content s =
     (if ro_is_enrolled ops s i then Some s
      else map_option (\<lambda>prints.
        let s = ro_index_memory ops i prints s
        in if rk_less (re_rank E) (rk_lit (re_rank E) 0) (mh_weight (rc_minhash cfg))
           then let shingles = shingle_set E content (mh_shingle (rc_minhash cfg)) in ro_index_minhash ops i shingles shingles s
           else s)
        (fingerprint_stimulus_with E (rc_prints cfg) idf content))"

text \<open>\<open>dedup_by_key\<close> keeps the first of neighbours with one hash.\<close>

fun dedup_hash :: "print list \<Rightarrow> print list" where
  "dedup_hash (a # b # ps) = (if fst a = fst b then dedup_hash (a # ps) else a # dedup_hash (b # ps))"
| "dedup_hash ps = ps"

fun merge_parts ::
    "'f recog_env \<Rightarrow> 'f recog_config \<Rightarrow> term_idf option \<Rightarrow> bool \<Rightarrow> string list \<Rightarrow> stimulus_prints \<times> 64 word set \<Rightarrow>
      (stimulus_prints \<times> 64 word set) option" where
  "merge_parts E cfg idf minhash_on [] acc = Some acc"
| "merge_parts E cfg idf minhash_on (part # parts) acc =
     (case fingerprint_stimulus_with E (rc_prints cfg) idf part of
        None \<Rightarrow> None
      | Some p \<Rightarrow>
          merge_parts E cfg idf minhash_on parts
            (\<lparr>sp_peaks = sp_peaks (fst acc) @ sp_peaks p, sp_pair_hashes = sp_pair_hashes (fst acc) @ sp_pair_hashes p,
              sp_gram_hashes = sp_gram_hashes (fst acc) @ sp_gram_hashes p,
              sp_token_count = sp_token_count (fst acc) + sp_token_count p\<rparr>,
             if minhash_on then snd acc \<union> set (shingle_set E part (mh_shingle (rc_minhash cfg))) else snd acc))"

definition distinct_prints :: "print list \<Rightarrow> print list" where
  "distinct_prints ps = dedup_hash (order_by (\<lambda>a b. fst a \<le> fst b) ps)"

definition enroll_parts ::
    "'f recog_env \<Rightarrow> 'f hash_order \<Rightarrow> 'f recog_config \<Rightarrow> term_idf option \<Rightarrow> 's recog_ops \<Rightarrow> string \<Rightarrow> string list \<Rightarrow> 's \<Rightarrow> 's option" where
  "enroll_parts E ho cfg idf ops i parts s =
     (if ro_is_enrolled ops s i then Some s
      else let minhash_on = rk_less (re_rank E) (rk_lit (re_rank E) 0) (mh_weight (rc_minhash cfg));
               texts = filter (\<lambda>part. rk_words (re_rank E) part \<noteq> []) parts
           in case merge_parts E cfg idf minhash_on texts (\<lparr>sp_peaks = [], sp_pair_hashes = [], sp_gram_hashes = [], sp_token_count = 0\<rparr>, {}) of
                None \<Rightarrow> None
              | Some (merged, shingles) \<Rightarrow>
                  if texts = [] then Some s
                  else let s = ro_index_memory ops i
                             (merged\<lparr>sp_pair_hashes := distinct_prints (sp_pair_hashes merged),
                                     sp_gram_hashes := distinct_prints (sp_gram_hashes merged)\<rparr>) s
                       in Some (if minhash_on then let xs = ho_shingles ho shingles in ro_index_minhash ops i xs xs s else s))"

definition forget :: "'s recog_ops \<Rightarrow> string \<Rightarrow> 's \<Rightarrow> 's \<times> bool" where
  "forget ops i s = ro_forget_memory ops i s"

definition minhash_matches ::
    "'f recog_env \<Rightarrow> 'f recog_config \<Rightarrow> 's recog_ops \<Rightarrow> string \<Rightarrow> 's \<Rightarrow> 'f minhash_match list" where
  "minhash_matches E cfg ops stimulus s =
     (if rk_less (re_rank E) (rk_lit (re_rank E) 0) (mh_weight (rc_minhash cfg))
      then let probe = shingle_set E stimulus (mh_shingle (rc_minhash cfg))
           in map (\<lambda>(i, shingles). \<lparr>mi_memory_id = i, mi_similarity = containment (re_rank E) probe shingles\<rparr>) (ro_lookup_minhash ops s probe)
      else [])"

definition recognize ::
    "'f recog_env \<Rightarrow> 'f hash_order \<Rightarrow> 'f recog_config \<Rightarrow> term_idf option \<Rightarrow> 's recog_ops \<Rightarrow> string \<Rightarrow> 's \<Rightarrow> 'f recognition_result option" where
  "recognize E ho cfg idf ops stimulus s =
     map_option (\<lambda>prints.
       score_candidates E ho prints (ro_lookup_pairs ops s (sp_pair_hashes prints)) (ro_lookup_grams ops s (sp_gram_hashes prints))
         (minhash_matches E cfg ops stimulus s) (ro_enrolled_count ops s) (rc_score cfg)
         (mh_weight (rc_minhash cfg)) (mh_min_similarity (rc_minhash cfg)))
       (fingerprint_stimulus_with E (rc_prints cfg) idf stimulus)"

subsection \<open>What a result mentions\<close>

definition mentions :: "'f recognition_result \<Rightarrow> string \<Rightarrow> bool" where
  "mentions r i \<longleftrightarrow> rr_verdict r = Recognized i \<or> i \<in> tr_memory_id ` set (rr_traces r) \<or> i \<in> ev_memory_id ` set (rr_evidence r)"

definition keyed_accum :: "(string \<times> 'f accum) list \<Rightarrow> bool" where
  "keyed_accum acc \<longleftrightarrow> distinct (map fst acc) \<and> (\<forall>(i, a) \<in> set acc. \<forall>e \<in> set (ac_evidence a). ev_memory_id e = i)"

lemma keys_entry_or: "fst ` set (entry_or k x f es) = insert k (fst ` set es)"
proof (induction es)
  case (Cons e es)
  then show ?case by (cases e) (simp add: insert_commute)
qed simp

lemma distinct_entry_or: "distinct (map fst es) \<Longrightarrow> distinct (map fst (entry_or k x f es))"
proof (induction es)
  case (Cons e es)
  then show ?case by (cases e; cases "fst e = k") (simp_all add: keys_entry_or)
qed simp

lemma values_entry_or: "(i, a) \<in> set (entry_or k x f es) \<Longrightarrow> (i, a) \<in> set es \<or> i = k \<and> (a = f x \<or> (\<exists>v. (k, v) \<in> set es \<and> a = f v))"
  by (induction es) (auto split: if_splits)

lemma keyed_entry_or:
  assumes "keyed_accum es" "\<And>a. \<forall>e \<in> set (ac_evidence a). ev_memory_id e = k \<Longrightarrow> \<forall>e \<in> set (ac_evidence (f a)). ev_memory_id e = k"
    and "ac_evidence x = []"
  shows "keyed_accum (entry_or k x f es)"
  unfolding keyed_accum_def
proof (intro conjI ballI)
  show "distinct (map fst (entry_or k x f es))" using assms(1) by (simp add: keyed_accum_def distinct_entry_or)
  fix e assume e: "e \<in> set (entry_or k x f es)"
  obtain i a where ia: "e = (i, a)" by (cases e)
  have old: "(j, v) \<in> set es \<Longrightarrow> \<forall>e \<in> set (ac_evidence v). ev_memory_id e = j" for j v
    using assms(1) unfolding keyed_accum_def by blast
  have fx: "\<forall>e \<in> set (ac_evidence (f x)). ev_memory_id e = k" by (rule assms(2)) (simp add: assms(3))
  show "case e of (i, a) \<Rightarrow> \<forall>e \<in> set (ac_evidence a). ev_memory_id e = i"
    using values_entry_or[of i a k x f es] e old fx assms(2) unfolding ia prod.case by blast
qed

lemma keyed_accumulate:
  "keyed_accum (accumulate E sc n pairs grams w mms) \<and>
   fst ` set (accumulate E sc n pairs grams w mms) \<subseteq> fm_memory_id ` set pairs \<union> fm_memory_id ` set grams \<union> mi_memory_id ` set mms"
proof -
  have feat: "keyed_accum acc \<Longrightarrow> keyed_accum (count_feature E sc n m acc) \<and> fst ` set (count_feature E sc n m acc) = insert (fm_memory_id (fst m)) (fst ` set acc)" for m acc
    unfolding count_feature_def Let_def by (auto simp: keys_entry_or no_accum_def intro!: keyed_entry_or)
  have mh: "keyed_accum acc \<Longrightarrow> keyed_accum (count_minhash E n w m acc) \<and> fst ` set (count_minhash E n w m acc) = insert (mi_memory_id m) (fst ` set acc)" for m acc
    unfolding count_minhash_def Let_def by (auto simp: keys_entry_or no_accum_def intro!: keyed_entry_or)
  have feats: "keyed_accum acc \<Longrightarrow> keyed_accum (fold (count_feature E sc n) ms acc) \<and>
      fst ` set (fold (count_feature E sc n) ms acc) = (fm_memory_id \<circ> fst) ` set ms \<union> fst ` set acc" for ms acc
    by (induction ms arbitrary: acc) (simp_all add: feat)
  have mhs: "keyed_accum acc \<Longrightarrow> keyed_accum (fold (count_minhash E n w) ms acc) \<and>
      fst ` set (fold (count_minhash E n w) ms acc) = mi_memory_id ` set ms \<union> fst ` set acc" for ms acc
    by (induction ms arbitrary: acc) (simp_all add: mh)
  have "keyed_accum ([] :: (string \<times> 'a accum) list)" by (simp add: keyed_accum_def)
  from feats[OF this, of "tagged pairs grams"] mhs[of "fold (count_feature E sc n) (tagged pairs grams) []" mms]
  show ?thesis unfolding accumulate_def by (auto simp: tagged_def image_Un image_comp)
qed

lemma distinct_accumulate: "distinct (map fst (accumulate E sc n pairs grams w mms))"
  using conjunct1[OF keyed_accumulate] unfolding keyed_accum_def by (rule conjunct1)

lemma judge_recognized: "judge R sc cov sim lead best = Recognized i \<Longrightarrow> i = tr_memory_id best"
  by (simp add: judge_def split: if_splits)

lemma score_mentions:
  assumes "mentions (score_candidates E ho p pairs grams mms n sc w ms) i" "\<And>xs. mset (ho_acc ho xs) = mset xs"
  shows "i \<in> fm_memory_id ` set pairs \<union> fm_memory_id ` set grams \<union> mi_memory_id ` set mms"
proof -
  define near where "near = close_matches (re_rank E) w ms mms"
  define acc where "acc = accumulate E sc n pairs grams w near"
  define traces where "traces = order_by (trace_before (re_rank E)) (map (trace_of (re_rank E) (length (sp_pair_hashes p) + length (sp_gram_hashes p))) (ho_acc ho acc))"
  have "set (ho_acc ho acc) = set acc" using assms(2) by (metis set_mset_mset)
  note so = this
  have near: "set near \<subseteq> set mms" by (auto simp: near_def close_matches_def)
  have keys: "fst ` set acc \<subseteq> fm_memory_id ` set pairs \<union> fm_memory_id ` set grams \<union> mi_memory_id ` set mms" and k: "keyed_accum acc"
    using keyed_accumulate[of E sc n pairs grams w near] near unfolding acc_def by blast+
  have tr: "tr_memory_id ` set traces \<subseteq> fst ` set acc" by (auto simp: traces_def so trace_of_def Let_def simp flip: image_comp intro: rev_image_eqI)
  have ev: "ev_memory_id e \<in> fst ` set acc" if "e \<in> set (concat (map (ac_evidence \<circ> snd) (ho_acc ho acc)))" for e
    using that k unfolding keyed_accum_def by (force simp: so)
  let ?r = "score_candidates E ho p pairs grams mms n sc w ms"
  have r: "rr_traces ?r = take (sc_max_traces sc) traces"
    "rr_evidence ?r = take (sc_max_evidence sc) (order_by (evidence_before (re_rank E)) (concat (map (ac_evidence \<circ> snd) (ho_acc ho acc))))"
    by (simp_all add: score_candidates_def Let_def traces_def acc_def near_def case_prod_beta)
  have v: "rr_verdict ?r = Recognized i \<Longrightarrow> i \<in> tr_memory_id ` set traces"
    by (cases traces) (auto simp: score_candidates_def Let_def near_def[symmetric] acc_def[symmetric] traces_def[symmetric] dest!: judge_recognized)
  from assms(1) consider "i \<in> tr_memory_id ` set traces" | "i \<in> ev_memory_id ` set (rr_evidence ?r)"
    unfolding mentions_def r(1) using v set_take_subset[of "sc_max_traces sc" traces] by blast
  then have "i \<in> fst ` set acc"
  proof cases
    case 1
    then show ?thesis using tr by blast
  next
    case 2
    then obtain e where e: "i = ev_memory_id e" "e \<in> set (rr_evidence ?r)" by blast
    from in_set_takeD[OF e(2)[unfolded r(2)]] have "e \<in> set (concat (map (ac_evidence \<circ> snd) (ho_acc ho acc)))"
      by (simp only: set_order_by)
    then show ?thesis using ev e(1) by blast
  qed
  then show ?thesis using keys by blast
qed

context recognition_store
begin

lemma recognize_forgets:
  assumes "recognize E ho cfg idf ops stimulus (fst (forget ops i s)) = Some r" "\<And>xs. mset (ho_acc ho xs) = mset xs"
  shows "\<not> mentions r i"
proof
  assume m: "mentions r i"
  define s' where "s' = fst (ro_forget_memory ops i s)"
  obtain p where r: "r = score_candidates E ho p (ro_lookup_pairs ops s' (sp_pair_hashes p)) (ro_lookup_grams ops s' (sp_gram_hashes p))
      (minhash_matches E cfg ops stimulus s') (ro_enrolled_count ops s') (rc_score cfg) (mh_weight (rc_minhash cfg)) (mh_min_similarity (rc_minhash cfg))"
    using assms(1) by (auto simp: recognize_def forget_def s'_def)
  have "i \<notin> mi_memory_id ` set (minhash_matches E cfg ops stimulus s')"
    using forgotten(4)[OF s'_def] by (fastforce simp: minhash_matches_def Let_def)
  moreover have "i \<notin> fm_memory_id ` set (ro_lookup_pairs ops s' hs)" "i \<notin> fm_memory_id ` set (ro_lookup_grams ops s' hs)" for hs
    using forgotten(2,3)[OF s'_def] by blast+
  ultimately show False using score_mentions[OF m[unfolded r] assms(2)] by blast
qed

lemma enroll_enrolls: "enroll E cfg idf ops i content s = Some s' \<Longrightarrow> ro_is_enrolled ops s' x \<longleftrightarrow> x = i \<or> ro_is_enrolled ops s x"
  by (auto simp: enroll_def Let_def index_enrolled minhash_enrolled split: if_splits)

end

subsection \<open>The order of the hash maps\<close>

text \<open>Weights that compare as equal are equal: numbers other than NaN, negative zero taken for zero.\<close>

definition strict_floats :: "'f rank_env \<Rightarrow> bool" where
  "strict_floats R \<longleftrightarrow> linear_floats R \<and> (\<forall>a b. \<not> rk_less R a b \<longrightarrow> \<not> rk_less R b a \<longrightarrow> a = b)"

lemma linear_asym: "linear_floats R \<Longrightarrow> rk_less R a b \<Longrightarrow> \<not> rk_less R b a"
  unfolding linear_floats_def by blast

lemma sorted_unique:
  assumes "sorted_wrt le xs" "sorted_wrt le ys" "mset xs = mset ys"
    and "\<And>x y. x \<in> set xs \<Longrightarrow> y \<in> set xs \<Longrightarrow> le x y \<Longrightarrow> le y x \<Longrightarrow> x = y"
  shows "xs = ys"
  using assms
proof (induction xs arbitrary: ys)
  case (Cons x xs)
  obtain y ys' where ys: "ys = y # ys'" using Cons.prems(3) by (cases ys) auto
  have sets: "set (x # xs) = set (y # ys')" using Cons.prems(3) unfolding ys by (rule mset_eq_setD)
  have "x = y"
  proof (rule ccontr)
    assume "x \<noteq> y"
    then have "x \<in> set ys'" and "y \<in> set xs" using sets by auto
    then have "le y x" "le x y" using Cons.prems(1,2) unfolding ys by auto
    moreover have "x \<in> set (x # xs)" "y \<in> set (x # xs)" using \<open>y \<in> set xs\<close> by auto
    ultimately show False using Cons.prems(4)[of x y] \<open>x \<noteq> y\<close> by blast
  qed
  moreover have "xs = ys'" using Cons.prems unfolding ys \<open>x = y\<close> by (intro Cons.IH) auto
  ultimately show ?case unfolding ys by simp
qed simp

lemma lex_order:
  fixes f :: "'r \<Rightarrow> 'f" and g :: "'r \<Rightarrow> 'k :: linorder"
  assumes "linear_floats R" "le = (\<lambda>a b. if rk_less R (f b) (f a) then True else if rk_less R (f a) (f b) then False else g a \<le> g b)"
  shows "row_order le"
proof
  have asym: "\<And>a b. rk_less R a b \<Longrightarrow> \<not> rk_less R b a" and neg: "\<And>a b c. rk_less R a b \<Longrightarrow> rk_less R a c \<or> rk_less R c b"
    using assms(1) unfolding linear_floats_def by blast+
  fix x y z
  show "le x y \<or> le y x" unfolding assms(2) using linear[of "g x" "g y"] by auto
  assume "le x y" "le y z"
  then have xy: "rk_less R (f y) (f x) \<or> \<not> rk_less R (f x) (f y) \<and> g x \<le> g y"
    and yz: "rk_less R (f z) (f y) \<or> \<not> rk_less R (f y) (f z) \<and> g y \<le> g z" unfolding assms(2) by (auto split: if_splits)
  show "le x z"
  proof (cases "rk_less R (f z) (f x)")
    case True
    then show ?thesis by (simp add: assms(2))
  next
    case False
    then have "\<not> rk_less R (f y) (f x)" "\<not> rk_less R (f z) (f y)" using xy yz neg asym by blast+
    then have "g x \<le> g z" "\<not> rk_less R (f x) (f z)" using xy yz neg by (meson order_trans)+
    then show ?thesis by (simp add: assms(2))
  qed
qed

lemma trace_order: "linear_floats R \<Longrightarrow> row_order (trace_before R)"
  by (rule lex_order[where f = tr_score and g = tr_memory_id]) (auto simp: trace_before_def fun_eq_iff)

definition ev_text :: "'f evidence_row \<Rightarrow> string list" where
  "ev_text e = [ev_feature e, ev_memory_id e]"

lemma evidence_order: "linear_floats R \<Longrightarrow> row_order (evidence_before R)"
  by (rule lex_order[where f = ev_weight and g = ev_text]) (auto simp: evidence_before_def fun_eq_iff ev_text_def)

lemma order_by_unique:
  assumes "row_order le" "mset xs = mset ys"
    and "\<And>x y. x \<in> set xs \<Longrightarrow> y \<in> set xs \<Longrightarrow> le x y \<Longrightarrow> le y x \<Longrightarrow> x = y"
  shows "order_by le xs = order_by le ys"
  by (rule sorted_unique[where le = le])
    (use assms in \<open>auto intro: row_order.order_by_sorted\<close>)

text \<open>The map of the candidates: traces and evidence are sorted by total orders before they are cut.\<close>

lemma scoring_order_free:
  assumes "strict_floats (re_rank E)" "\<not> sc_discriminative_margin sc"
    and "\<And>xs. mset (ho_acc ho xs) = mset xs" "\<And>xs. mset (ho_acc ho' xs) = mset xs"
  shows "score_candidates E ho p pairs grams mms n sc w ms = score_candidates E ho' p pairs grams mms n sc w ms"
proof -
  let ?R = "re_rank E" and ?k = "length (sp_pair_hashes p) + length (sp_gram_hashes p)"
  have lin: "linear_floats ?R" and eq: "\<And>a b. \<not> rk_less ?R a b \<Longrightarrow> \<not> rk_less ?R b a \<Longrightarrow> a = b"
    using assms(1) unfolding strict_floats_def by blast+
  define acc where "acc = accumulate E sc n pairs grams w (close_matches ?R w ms mms)"
  have keyed_accum: "keyed_accum acc" unfolding acc_def by (rule conjunct1[OF keyed_accumulate])
  have set_ho: "set (ho_acc ho acc) = set acc" by (rule mset_eq_setD[OF assms(3)])
  have perm: "mset (ho_acc ho acc) = mset (ho_acc ho' acc)" by (simp add: assms(3,4))
  have traces: "order_by (trace_before ?R) (map (trace_of ?R ?k) (ho_acc ho acc)) = order_by (trace_before ?R) (map (trace_of ?R ?k) (ho_acc ho' acc))"
  proof (rule order_by_unique[OF trace_order[OF lin]])
    show "mset (map (trace_of ?R ?k) (ho_acc ho acc)) = mset (map (trace_of ?R ?k) (ho_acc ho' acc))"
      by (simp add: perm)
    fix x y assume x: "x \<in> set (map (trace_of ?R ?k) (ho_acc ho acc))" and y: "y \<in> set (map (trace_of ?R ?k) (ho_acc ho acc))"
      and "trace_before ?R x y" "trace_before ?R y x"
    then have same: "tr_memory_id x = tr_memory_id y"
      using linear_asym[OF lin, of "tr_score x" "tr_score y"] unfolding trace_before_def by (simp split: if_splits)
    obtain a b where a: "a \<in> set acc" "x = trace_of ?R ?k a" and b: "b \<in> set acc" "y = trace_of ?R ?k b"
      using x y set_ho by auto
    then have "fst a = fst b" using same by (simp add: trace_of_fields)
    moreover have "distinct (map fst acc)" using keyed_accum unfolding keyed_accum_def by blast
    then have "inj_on fst (set acc)" by (simp add: distinct_map)
    ultimately have "a = b" using a(1) b(1) by (blast dest: inj_onD)
    then show "x = y" using a(2) b(2) by simp
  qed
  have evidence: "order_by (evidence_before ?R) (concat (map (ac_evidence \<circ> snd) (ho_acc ho acc))) =
      order_by (evidence_before ?R) (concat (map (ac_evidence \<circ> snd) (ho_acc ho' acc)))"
  proof (rule order_by_unique[OF evidence_order[OF lin]])
    have "mset (concat (map f xs)) = sum_mset (image_mset (mset \<circ> f) (mset xs))" for f :: "string \<times> 'a accum \<Rightarrow> 'a evidence_row list" and xs
      by (induction xs) simp_all
    then show "mset (concat (map (ac_evidence \<circ> snd) (ho_acc ho acc))) = mset (concat (map (ac_evidence \<circ> snd) (ho_acc ho' acc)))"
      by (simp only: perm)
    fix x y :: "'a evidence_row" assume "evidence_before ?R x y" "evidence_before ?R y x"
    then have "ev_feature x = ev_feature y \<and> ev_memory_id x = ev_memory_id y \<and> ev_weight x = ev_weight y"
      using eq[of "ev_weight x" "ev_weight y"] linear_asym[OF lin, of "ev_weight x" "ev_weight y"]
      unfolding evidence_before_def by (auto split: if_splits)
    then show "x = y" by simp
  qed
  have lead: "clear_lead E ho sc n pairs grams = clear_lead E ho' sc n pairs grams"
    by (intro ext) (simp add: clear_lead_def assms(2))
  show ?thesis unfolding score_candidates_def Let_def acc_def[symmetric] traces evidence lead by (rule refl)
qed

text \<open>
  C10: With the discriminative margin off, which is the default, and weights that are comparable (no NaN), a
  stimulus recognised against a given index gets the same answer in whatever orders the hash maps of
  the call are iterated, which the standard library seeds at random. The two conditions are
  needed: with the flag on, the sums over the exclusive evidence are added up in map order; and the index is
  the same one, for \<open>enroll_parts\<close> stores the shingles in the order of a hash set
  (\<open>unsorted_shingles_undercount\<close> below), so an index it built anew may answer differently.
\<close>

theorem recognition_deterministic:
  assumes "strict_floats (re_rank E)" and "\<not> sc_discriminative_margin (rc_score cfg)"
    and "\<And>xs. mset (ho_acc ho xs) = mset xs" and "\<And>xs. mset (ho_acc ho' xs) = mset xs"
  shows "recognize E ho cfg idf ops stimulus s = recognize E ho' cfg idf ops stimulus s"
  unfolding recognize_def using scoring_order_free[OF assms(1,2), of ho ho'] assms(3,4) by simp

subsection \<open>Forgetting\<close>

text \<open>
  C6: After \<open>forget\<close> no answer of the engine mentions the memory, over either store and for every
  stimulus: it is not the recognised one, no trace, and in no row of the evidence.
\<close>

theorem recognition_forgets:
  assumes "recognize E ho cfg idf (sqlite_ops now) stimulus (fst (forget (sqlite_ops now) i d)) = Some r \<or>
      recognize E ho cfg idf memory_ops stimulus (fst (forget memory_ops i m)) = Some r"
    and "\<And>xs. mset (ho_acc ho xs) = mset xs"
  shows "\<not> mentions r i"
  using assms sqlite.recognize_forgets in_memory.recognize_forgets by blast

subsection \<open>What a verdict rests on\<close>

lemma order_by_head:
  assumes "row_order le" "order_by le xs = b # rest" "x \<in> set xs"
  shows "x = b \<or> (\<exists>c cs. rest = c # cs \<and> (x = c \<or> le c x))"
proof -
  have sorted: "sorted_wrt le (b # rest)" and x: "x \<in> set (b # rest)"
    using assms(2,3) row_order.order_by_sorted[OF assms(1), of xs] set_order_by[of le xs] by auto
  then show ?thesis by (cases rest) auto
qed

lemma distinct_traces:
  assumes "distinct (map fst acc)" and "mset (perm acc) = mset acc"
  shows "distinct (map tr_memory_id (order_by B (map (trace_of R k) (perm acc))))"
proof -
  have "mset (map fst (perm acc)) = mset (map fst acc)" using assms(2) by (simp only: mset_map)
  then have "distinct (map fst (perm acc))" using assms(1) by (metis mset_eq_imp_distinct_iff)
  moreover have "mset (map tr_memory_id (order_by B (map (trace_of R k) (perm acc)))) = mset (map fst (perm acc))"
    by (simp add: image_mset.compositionality comp_def trace_of_fields)
  ultimately show ?thesis by (metis mset_eq_imp_distinct_iff)
qed

text \<open>What holds of the runner-up: every other trace is behind it, and it behind the leader.\<close>

lemma trailing_traces:
  assumes R: "linear_floats R" and t: "order_by (trace_before R) xs = best # rest"
    and ids: "distinct (map tr_memory_id (best # rest))"
    and lead: "rest \<noteq> [] \<Longrightarrow> P (hd rest)"
    and x: "x \<in> set xs" "tr_memory_id x \<noteq> tr_memory_id best"
  shows "\<not> rk_less R (tr_score best) (tr_score x)"
    and "\<exists>c \<in> set xs. tr_memory_id c \<noteq> tr_memory_id best \<and> \<not> rk_less R (tr_score c) (tr_score x) \<and> P c"
proof -
  have ord: "row_order (trace_before R)" by (rule trace_order[OF R])
  have "rk_less R a b \<Longrightarrow> \<not> rk_less R b a" for a b using R unfolding linear_floats_def by blast
  then have below: "\<not> rk_less R (tr_score y) (tr_score z)" if "trace_before R y z \<or> z = y" for y z
    using that by (auto simp: trace_before_def split: if_splits)
  have ne: "x \<noteq> best" using x(2) by auto
  obtain c cs where c: "rest = c # cs" "x = c \<or> trace_before R c x" using order_by_head[OF ord t x(1)] ne by blast
  have "sorted_wrt (trace_before R) (best # rest)" using row_order.order_by_sorted[OF ord] unfolding t[symmetric] .
  then have "trace_before R best x" using c row_order.trans[OF ord] by auto
  then show "\<not> rk_less R (tr_score best) (tr_score x)" using below by blast
  have "c \<in> set (order_by (trace_before R) xs)" unfolding t c(1) by simp
  moreover have "tr_memory_id c \<noteq> tr_memory_id best" using ids c(1) by auto
  ultimately show "\<exists>c \<in> set xs. tr_memory_id c \<noteq> tr_memory_id best \<and> \<not> rk_less R (tr_score c) (tr_score x) \<and> P c"
    using below c lead by auto
qed

text \<open>
  C38: A memory is recognised only when it clears every bar of the configuration: it has evidence, its
  coverage, score and the familiarity reach their minima, no other memory with evidence scores above
  it, and every other one scores at most what a runner-up scores, over which it has a lead: it
  reaches that one's score times the margin, or, only with the discriminative margin on (off by
  default), its evidence that the runner-up lacks reaches the minimal score and the margin times
  the runner-up's own. Weights are comparable (no NaN), and the map is iterated in some order.
\<close>

theorem recognized_leads:
  fixes E :: "'f recog_env" and sc :: "'f score_config" and mms :: "'f minhash_match list" and w ms :: 'f
    and pairs grams :: "feature_match list" and n :: nat
  defines "R \<equiv> re_rank E" and "acc \<equiv> accumulate E sc n pairs grams w (close_matches (re_rank E) w ms mms)"
  assumes "rr_verdict (score_candidates E ho p pairs grams mms n sc w ms) = Recognized i"
    and "linear_floats R" "\<And>xs. mset (ho_acc ho xs) = mset xs"
  shows "\<exists>best \<in> trace_of R (length (sp_pair_hashes p) + length (sp_gram_hashes p)) ` set acc.
    tr_memory_id best = i \<and> rk_leq R (sc_recognize_coverage sc) (tr_coverage best) \<and>
    rk_leq R (sc_recognize_min_score sc) (tr_score best) \<and>
    rk_leq R (sc_recognize_min_familiarity sc) (rr_familiarity (score_candidates E ho p pairs grams mms n sc w ms)) \<and>
    (\<forall>j a. (j, a) \<in> set acc \<and> j \<noteq> i \<longrightarrow>
       \<not> rk_less R (tr_score best) (ac_score a) \<and>
       (\<exists>k b. (k, b) \<in> set acc \<and> k \<noteq> i \<and> \<not> rk_less R (ac_score b) (ac_score a) \<and>
          (rk_leq R (rk_mul R (ac_score b) (sc_recognize_margin sc)) (tr_score best) \<or>
           sc_discriminative_margin sc \<and>
             (case exclusive_evidence E ho sc n pairs grams i k of (own, theirs) \<Rightarrow>
                rk_leq R (sc_recognize_min_score sc) own \<and> rk_leq R (rk_mul R theirs (sc_recognize_margin sc)) own))))"
proof -
  let ?r = "score_candidates E ho p pairs grams mms n sc w ms" and ?k = "length (sp_pair_hashes p) + length (sp_gram_hashes p)"
  let ?M = "sc_recognize_margin sc" and ?f = "trace_of R (length (sp_pair_hashes p) + length (sp_gram_hashes p))"
  let ?ahead = "\<lambda>best k v. rk_leq R (rk_mul R v ?M) (tr_score best) \<or> sc_discriminative_margin sc \<and>
    rk_leq R (sc_recognize_min_score sc) (fst (exclusive_evidence E ho sc n pairs grams i k)) \<and>
    rk_leq R (rk_mul R (snd (exclusive_evidence E ho sc n pairs grams i k)) ?M) (fst (exclusive_evidence E ho sc n pairs grams i k))"
  define near where "near = close_matches R w ms mms"
  define traces where "traces = order_by (trace_before R) (map ?f (ho_acc ho acc))"
  have acc: "acc = accumulate E sc n pairs grams w near" by (simp add: acc_def near_def R_def)
  note folded = R_def[symmetric] near_def[symmetric] acc[symmetric] traces_def[symmetric]
  have ho: "set (ho_acc ho acc) = set acc" by (rule mset_eq_setD[OF assms(5)])
  obtain best rest where t: "traces = best # rest"
    and j: "judge R sc (coverage_familiarity E sc n p traces) (best_similarity R near) (clear_lead E ho sc n pairs grams best rest) best = Recognized i"
    using assms(3) by (cases traces) (auto simp: score_candidates_def Let_def folded)
  have fam: "rr_familiarity ?r = rk_max R (coverage_familiarity E sc n p traces) (best_similarity R near)"
    by (simp add: score_candidates_def Let_def case_prod_beta folded)
  have bars: "tr_memory_id best = i" "rk_leq R (sc_recognize_coverage sc) (tr_coverage best)" "rk_leq R (sc_recognize_min_score sc) (tr_score best)"
    "rk_leq R (sc_recognize_min_familiarity sc) (rr_familiarity ?r)" "clear_lead E ho sc n pairs grams best rest"
    using j unfolding fam by (auto simp: judge_def split: if_splits)
  have lead: "?ahead best (tr_memory_id (hd rest)) (tr_score (hd rest))" if ne: "rest \<noteq> []"
  proof -
    obtain c cs where rest: "rest = c # cs" using ne by (cases rest) auto
    show ?thesis using bars(5)
      unfolding clear_lead_def R_def[symmetric] bars(1) Let_def rest list.case list.sel(1) case_prod_beta .
  qed
  have "distinct (map fst acc)" unfolding acc by (rule distinct_accumulate)
  then have ids: "distinct (map tr_memory_id (best # rest))" unfolding t[symmetric] traces_def by (rule distinct_traces[OF _ assms(5)])
  have others: "\<not> rk_less R (tr_score best) (ac_score a) \<and>
      (\<exists>k b. (k, b) \<in> set acc \<and> k \<noteq> i \<and> \<not> rk_less R (ac_score b) (ac_score a) \<and> ?ahead best k (ac_score b))"
    if a: "(j, a) \<in> set acc \<and> j \<noteq> i" for j a
  proof -
    have x: "?f (j, a) \<in> set (map ?f (ho_acc ho acc))" "tr_memory_id (?f (j, a)) \<noteq> tr_memory_id best"
      using a bars(1) ho by (auto simp: trace_of_fields)
    note T = trailing_traces[OF assms(4) t[unfolded traces_def] ids, of "\<lambda>c. ?ahead best (tr_memory_id c) (tr_score c)", OF lead x]
    obtain c where c: "c \<in> ?f ` set acc" "tr_memory_id c \<noteq> i" "\<not> rk_less R (tr_score c) (ac_score a)"
      "?ahead best (tr_memory_id c) (tr_score c)"
      using T(2) unfolding bars(1) set_map ho trace_of_fields snd_conv by blast
    then obtain k b where kb: "(k, b) \<in> set acc" "c = ?f (k, b)" by auto
    show ?thesis using T(1) c(2-) kb(1) unfolding kb(2) trace_of_fields fst_conv snd_conv by blast
  qed
  have "best \<in> set traces" unfolding t by simp
  then have "best \<in> ?f ` set acc" by (simp add: traces_def ho)
  then show ?thesis unfolding case_prod_beta using bars(1-4) others by blast
qed

subsection \<open>Shingles in the order of a hash set\<close>

lemma merge_count_below: "\<forall>d \<in> set ds. \<exists>p ps'. ps = p # ps' \<and> d < p \<Longrightarrow> merge_count ps ds = 0"
proof (induction ds)
  case (Cons d ds)
  then obtain p ps' where "ps = p # ps'" "d < p" by auto
  then show ?case using Cons by auto
qed (cases ps, simp_all)

lemma merge_count_rev:
  assumes "sorted ps" "distinct ps" "ps \<noteq> []"
  shows "merge_count ps (rev ps) = 1"
proof -
  define z where "z = List.last ps"
  obtain qs where ps: "ps = qs @ [z]" using assms(3) append_butlast_last_id z_def by metis
  have lt: "q < z" if "q \<in> set qs" for q using assms(1,2) that unfolding ps by (auto simp: sorted_append less_le)
  have skip: "merge_count (qs' @ [z]) (z # ds) = Suc (merge_count [] ds)" if "set qs' \<subseteq> set qs" for qs' ds
    using that by (induction qs') (auto simp: lt)
  show ?thesis unfolding ps using skip[of qs "rev qs"] by simp
qed

text \<open>
  \<open>enroll_parts\<close> stores the shingles in the order in which a hash set yields them, but
  \<open>containment\<close> walks both sides in step and expects them sorted. When the set yields them
  in descending order, the very text that was enrolled matches one of its n shingles; had it been enrolled
  as one text, all n would match.
\<close>

theorem unsorted_shingles_undercount:
  fixes E :: "'f recog_env" and s :: mem_store and cfg :: "'f recog_config" and content :: string
  defines "R \<equiv> re_rank E" and "ps \<equiv> shingle_set E content (mh_shingle (rc_minhash cfg))"
  assumes "ho_shingles ho (set ps) = rev ps" "ps \<noteq> []" "rk_words R content \<noteq> []"
    and "rk_less R (rk_lit R 0) (mh_weight (rc_minhash cfg))" "i \<notin> mm_enrolled s"
    and "enroll_parts E ho cfg idf memory_ops i [content] s = Some s1" "enroll E cfg idf memory_ops i content s = Some s2"
  shows "\<lparr>mi_memory_id = i, mi_similarity = rk_div R (rk_of_nat R 1) (rk_of_nat R (length ps))\<rparr> \<in> set (minhash_matches E cfg memory_ops content s1) \<and>
    \<lparr>mi_memory_id = i, mi_similarity = rk_div R (rk_of_nat R (length ps)) (rk_of_nat R (length ps))\<rparr> \<in> set (minhash_matches E cfg memory_ops content s2)"
proof -
  have ps: "sorted ps" "distinct ps" unfolding ps_def using shingle_set_sorted by blast+
  have counts: "merge_count ps (rev ps) = 1" "merge_count ps ps = length ps"
    using merge_count_rev[OF ps assms(4)] merge_count_inter[OF ps ps] distinct_card[OF ps(2)] by simp_all
  have found: "(i, xs) \<in> set (me_lookup_minhash (me_index_minhash i xs xs s0) ps)" if "set xs = set ps" for xs s0
    using that assms(4) by (auto simp: me_minhash_iff me_index_minhash_def set_bands_fold ex_in_conv)
  have matches: "\<lparr>mi_memory_id = i, mi_similarity = containment R ps xs\<rparr> \<in> set (minhash_matches E cfg memory_ops content (me_index_minhash i xs xs s0))"
    if "set xs = set ps" for xs s0
    using found[OF that, of s0] assms(6) unfolding minhash_matches_def R_def[symmetric] ps_def[symmetric] Let_def
    by (auto simp: memory_ops_def intro: rev_image_eqI)
  obtain s0 where "s1 = me_index_minhash i (rev ps) (rev ps) s0"
    using assms(3,5,6,7,8) by (auto simp: enroll_parts_def memory_ops_def Let_def R_def[symmetric] ps_def[symmetric] split: option.splits)
  then have one: "\<lparr>mi_memory_id = i, mi_similarity = rk_div R (rk_of_nat R 1) (rk_of_nat R (length ps))\<rparr> \<in> set (minhash_matches E cfg memory_ops content s1)"
    using matches[of "rev ps" s0] assms(4) counts by (simp add: containment_def)
  obtain s0 where "s2 = me_index_minhash i ps ps s0"
    using assms(6,7,9) by (auto simp: enroll_def memory_ops_def Let_def R_def[symmetric] ps_def[symmetric])
  then have "\<lparr>mi_memory_id = i, mi_similarity = rk_div R (rk_of_nat R (length ps)) (rk_of_nat R (length ps))\<rparr> \<in> set (minhash_matches E cfg memory_ops content s2)"
    using matches[of ps s0] assms(4) counts by (simp add: containment_def)
  with one show ?thesis by (rule conjI)
qed

subsection \<open>Concrete answers\<close>

definition toy_order :: "rat hash_order" where
  "toy_order = \<lparr>ho_acc = rev, ho_features = (\<lambda>fs. fs), ho_shingles = (\<lambda>S. rev (sorted_list_of_set S))\<rparr>"

definition toy_recog_config :: "rat recog_config" where
  "toy_recog_config =
     \<lparr>rc_prints = toy_prints, rc_minhash = (default_minhash toy_rank)\<lparr>mh_shingle := 1\<rparr>, rc_score = default_score toy_rank\<rparr>"

definition toy_match :: "string \<Rightarrow> feature_match" where
  "toy_match i = \<lparr>fm_hash = 7, fm_memory_id = i, fm_label = ''pair: a~b'', fm_doc_frequency = 1\<rparr>"

definition toy_print :: stimulus_prints where
  "toy_print = \<lparr>sp_peaks = [], sp_pair_hashes = [(7, ''pair: a~b'')], sp_gram_hashes = [], sp_token_count = 2\<rparr>"

lemma recognition_deterministic_witness:
  "recognize toy_recog toy_order toy_recog_config None memory_ops ''pod exit137''
     (run_memory [([], Index ''m'' toy_print), ([], Index ''n'' toy_print)]) =
   recognize toy_recog (toy_order\<lparr>ho_acc := (\<lambda>xs. xs)\<rparr>) toy_recog_config None memory_ops ''pod exit137''
     (run_memory [([], Index ''m'' toy_print), ([], Index ''n'' toy_print)])"
proof (rule recognition_deterministic)
  show "strict_floats (re_rank toy_recog)"
    using toy_rank_linear by (auto simp: strict_floats_def toy_recog_def toy_rank_def)
qed (simp_all add: toy_recog_config_def default_score_def toy_order_def)

lemma recognition_forgets_witness:
  "\<exists>r. recognize toy_recog toy_order toy_recog_config None memory_ops ''pod exit137''
       (fst (forget memory_ops ''m'' (run_memory [([], Index ''m'' toy_print)]))) = Some r \<and> \<not> mentions r ''m''"
proof -
  have pos: "0 < pc_window (rc_prints toy_recog_config)" "0 < pc_kgram (rc_prints toy_recog_config)"
    by (simp_all add: toy_recog_config_def toy_prints_def)
  obtain r where "recognize toy_recog toy_order toy_recog_config None memory_ops ''pod exit137''
       (fst (forget memory_ops ''m'' (run_memory [([], Index ''m'' toy_print)]))) = Some r"
    using fingerprint_returns[OF pos] unfolding recognize_def by fastforce
  moreover from this have "\<not> mentions r ''m''"
    using recognition_forgets[OF disjI2, of _ toy_order] by (simp add: toy_order_def)
  ultimately show ?thesis by blast
qed

lemma toy_recognized:
  "rr_verdict (score_candidates toy_recog toy_order toy_print [toy_match ''m''] [] [] 3 (default_score toy_rank) 0 0) = Recognized ''m''"
  by (simp add: score_candidates_def Let_def accumulate_def tagged_def count_feature_def close_matches_def toy_match_def feature_weight_def
      rarity_def toy_recog_def toy_rank_def rk_of_nat_def rk_max_def rk_min_def no_accum_def toy_order_def trace_of_def order_by_def
      coverage_familiarity_def toy_print_def default_score_def best_similarity_def clear_lead_def judge_def)

lemma recognized_leads_witness:
  "\<exists>best :: rat trace_match. tr_memory_id best = ''m'' \<and> rk_leq toy_rank 3 (tr_score best)"
proof -
  have R: "linear_floats (re_rank toy_recog)" using toy_rank_linear by (simp add: toy_recog_def)
  have perm: "mset (ho_acc toy_order xs) = mset xs" for xs by (simp add: toy_order_def)
  have "\<exists>best :: rat trace_match. tr_memory_id best = ''m'' \<and> rk_leq (re_rank toy_recog) (sc_recognize_min_score (default_score toy_rank)) (tr_score best)"
    using recognized_leads[OF toy_recognized R perm] by blast
  then show ?thesis by (simp add: toy_recog_def default_score_def toy_rank_def)
qed

lemma unsorted_shingles_undercount_witness:
  "\<exists>s1 s2. enroll_parts toy_recog toy_order toy_recog_config None memory_ops ''m'' [''tea time''] empty_mem_store = Some s1 \<and>
     enroll toy_recog toy_recog_config None memory_ops ''m'' ''tea time'' empty_mem_store = Some s2 \<and>
     \<lparr>mi_memory_id = ''m'', mi_similarity = 1 / 2\<rparr> \<in> set (minhash_matches toy_recog toy_recog_config memory_ops ''tea time'' s1) \<and>
     \<lparr>mi_memory_id = ''m'', mi_similarity = 1\<rparr> \<in> set (minhash_matches toy_recog toy_recog_config memory_ops ''tea time'' s2)"
proof -
  let ?ps = "shingle_set toy_recog ''tea time'' (mh_shingle (rc_minhash toy_recog_config))"
  have pos: "0 < pc_window (rc_prints toy_recog_config)" "0 < pc_kgram (rc_prints toy_recog_config)"
    by (simp_all add: toy_recog_config_def toy_prints_def)
  obtain p where p: "fingerprint_stimulus_with toy_recog (rc_prints toy_recog_config) None ''tea time'' = Some p"
    using fingerprint_returns[OF pos] by blast
  have one: "mh_shingle (rc_minhash toy_recog_config) = 1" by (simp add: toy_recog_config_def)
  have len: "length ?ps = 2" unfolding one by code_simp
  then have ne: "?ps \<noteq> []" by auto
  have words: "rk_words (re_rank toy_recog) ''tea time'' \<noteq> []" by code_simp
  have on: "rk_less (re_rank toy_recog) (rk_lit (re_rank toy_recog) 0) (mh_weight (rc_minhash toy_recog_config))"
    by (simp add: toy_recog_config_def default_minhash_def toy_recog_def toy_rank_def)
  have new: "''m'' \<notin> mm_enrolled empty_mem_store" by (simp add: empty_mem_store_def)
  have ho: "ho_shingles toy_order (set ?ps) = rev ?ps"
    using shingle_set_sorted[of toy_recog "''tea time''"] by (simp add: toy_order_def sorted_list_of_set_sort_remdups sorted_sort_id distinct_remdups_id)
  obtain s1 where s1: "enroll_parts toy_recog toy_order toy_recog_config None memory_ops ''m'' [''tea time''] empty_mem_store = Some s1"
    using p words new by (simp add: enroll_parts_def memory_ops_def Let_def)
  obtain s2 where s2: "enroll toy_recog toy_recog_config None memory_ops ''m'' ''tea time'' empty_mem_store = Some s2"
    using p new by (simp add: enroll_def memory_ops_def Let_def)
  have num: "rk_div (re_rank toy_recog) (rk_of_nat (re_rank toy_recog) a) (rk_of_nat (re_rank toy_recog) b) = of_nat a / of_nat b" for a b
    by (simp add: toy_recog_def toy_rank_def rk_of_nat_def)
  from unsorted_shingles_undercount[OF ho ne words on new s1 s2] show ?thesis
    using s1 s2 unfolding num len by simp
qed

end
