(* ===== verification/Recog_Stream.thy ===== *)
theory Recog_Stream
  imports Recog_Extract Turn_Contract
begin

text \<open>
  Ambient recognition of routines, \<open>spectral-recognition/src/stream.rs\<close>: cues, the path tracker with its
  hypotheses and lock, the centroid tracker, and the segmenter. A cue is the list of its eight
  fields. The trackers' hash maps and sets are iterated in an order \<open>stream_order\<close> gives; numbers are
  those of \<open>rank_env\<close>, counts added up as ones are taken exact.
\<close>

type_synonym cue = "16 word list"

definition CUE_FIELDS :: nat where "CUE_FIELDS = 8"

definition peak_slot :: "nat \<Rightarrow> bool" where
  "peak_slot i \<longleftrightarrow> 3 \<le> i \<and> i < 7"

definition peak_slots :: "cue \<Rightarrow> cue" where
  "peak_slots c = take 4 (drop 3 c)"

subsection \<open>Cues\<close>

text \<open>The first two bytes of the digest.\<close>

definition bucket16 :: "'f recog_env \<Rightarrow> string \<Rightarrow> 16 word" where
  "bucket16 E s = ucast (drop_bit 48 (re_sha E (as_bytes s)))"

definition len_bucket :: "nat \<Rightarrow> 16 word" where
  "len_bucket n = (if n \<le> 120 then 0 else if n \<le> 400 then 1 else if n \<le> 1200 then 2 else 3)"

definition make_cue :: "'f recog_env \<Rightarrow> string \<Rightarrow> nat \<Rightarrow> nat \<Rightarrow> string list \<Rightarrow> nat \<Rightarrow> cue" where
  "make_cue E wing day_of_week hour_of_day peak_keys content_len =
     (let peaks = map (bucket16 E) (take 4 peak_keys)
      in [bucket16 E wing, of_nat (day_of_week mod 7), of_nat (hour_of_day div 3)] @
         sort (peaks @ replicate (4 - length peaks) 0) @ [len_bucket content_len])"

definition cue_similarity :: "'f rank_env \<Rightarrow> cue \<Rightarrow> cue \<Rightarrow> 'f" where
  "cue_similarity R a b =
     (let eq = length (filter (\<lambda>i. \<not> peak_slot i \<and> a ! i = b ! i) [0..<CUE_FIELDS]);
          set_a = set (peak_slots a) - {0}; set_b = set (peak_slots b) - {0};
          inter = card (set_a \<inter> set_b); union = card set_a + card set_b - inter
      in if set_a \<noteq> {} \<or> set_b \<noteq> {}
         then rk_div R (rk_add R (rk_of_nat R eq)
                (rk_mul R (rk_lit R 4) (if 0 < union then rk_div R (rk_of_nat R inter) (rk_of_nat R union) else rk_lit R 0))) (rk_of_nat R 8)
         else rk_div R (rk_of_nat R eq) (rk_of_nat R 4))"

subsection \<open>The path tracker\<close>

record segment =
  sg_id :: string
  sg_cues :: "cue list"
  sg_wing :: string

record 'f stream_config =
  sf_match_threshold :: 'f
  sf_match_bonus :: 'f
  sf_miss_penalty :: 'f
  sf_decay :: 'f
  sf_seed :: 'f
  sf_lock_threshold :: 'f
  sf_lock_margin :: 'f
  sf_lost_after_misses :: nat
  sf_floor :: 'f
  sf_min_shared_fields :: nat
  sf_max_suspects :: nat

definition default_stream :: "'f rank_env \<Rightarrow> 'f stream_config" where
  "default_stream R =
     \<lparr>sf_match_threshold = rk_lit R (1 / 2), sf_match_bonus = rk_lit R 1, sf_miss_penalty = rk_lit R (6 / 10),
      sf_decay = rk_lit R (9 / 10), sf_seed = rk_lit R (3 / 10), sf_lock_threshold = rk_lit R 2,
      sf_lock_margin = rk_lit R (14 / 10), sf_lost_after_misses = 3, sf_floor = rk_lit R (5 / 100),
      sf_min_shared_fields = 3, sf_max_suspects = 512\<rparr>"

datatype 'f stream_event =
    LockAcquired string nat 'f
  | LockLost string nat
  | LockTransferred string string 'f

type_synonym 'f suspects = "((nat \<times> nat) \<times> 'f) list"

record 'f stream_tracker =
  sk_segments :: "segment list"
  sk_index :: "nat \<times> 16 word \<Rightarrow> (nat \<times> nat) list"
  sk_suspects :: "'f suspects"
  sk_locked :: "(nat \<times> nat \<times> nat) option"

record 'f stream_order =
  so_suspects :: "'f suspects \<Rightarrow> 'f suspects"
  so_hits :: "((nat \<times> nat) \<times> nat) list \<Rightarrow> ((nat \<times> nat) \<times> nat) list"
  so_peaks :: "16 word set \<Rightarrow> 16 word list"

definition new_tracker :: "'f stream_tracker" where
  "new_tracker = \<lparr>sk_segments = [], sk_index = (\<lambda>k. []), sk_suspects = [], sk_locked = None\<rparr>"

definition indexed_fields :: "cue \<Rightarrow> (nat \<times> 16 word) list" where
  "indexed_fields c = filter (\<lambda>(fi, v). \<not> (peak_slot fi \<and> v = 0)) (enumerate 0 c)"

definition enroll_segment :: "segment \<Rightarrow> 'f stream_tracker \<Rightarrow> 'f stream_tracker" where
  "enroll_segment g t =
     t\<lparr>sk_index :=
         fold (\<lambda>(off, c). fold (\<lambda>k ix. ix(k := ix k @ [(length (sk_segments t), off)])) (indexed_fields c))
           (enumerate 0 (sg_cues g)) (sk_index t),
       sk_segments := sk_segments t @ [g]\<rparr>"

text \<open>\<open>entry(k).or_insert(0.0)\<close> raised to \<open>x\<close> where that is larger.\<close>

fun raise_to :: "'f rank_env \<Rightarrow> 'k \<Rightarrow> 'f \<Rightarrow> ('k \<times> 'f) list \<Rightarrow> ('k \<times> 'f) list" where
  "raise_to R k x [] = [(k, rk_max R (rk_lit R 0) x)]"
| "raise_to R k x ((j, v) # es) = (if j = k then (j, rk_max R v x) # es else (j, v) # raise_to R k x es)"

fun count_hit :: "'k \<Rightarrow> ('k \<times> nat) list \<Rightarrow> ('k \<times> nat) list" where
  "count_hit k [] = [(k, 1)]"
| "count_hit k ((j, n) # es) = (if j = k then (j, Suc n) # es else (j, n) # count_hit k es)"

text \<open>The exact position or, at a penalty, the one after it; the better wins, the exact one on a tie.\<close>

definition best_position :: "'f recog_env \<Rightarrow> cue \<Rightarrow> cue list \<Rightarrow> nat \<Rightarrow> 'f \<times> nat" where
  "best_position E c cues expected =
     fold (\<lambda>(cand, penalty) best.
         if length cues \<le> cand then best
         else let sim = rk_sub (re_rank E) (cue_similarity (re_rank E) c (cues ! cand)) penalty
              in if rk_less (re_rank E) (fst best) sim then (sim, cand + 1) else best)
       [(expected, rk_lit (re_rank E) 0), (expected + 1, rk_lit (re_rank E) (15 / 100))]
       (rk_sub (re_rank E) (rk_lit (re_rank E) 0) (re_max_float E), expected + 1)"

definition advance_one :: "'f recog_env \<Rightarrow> 'f stream_config \<Rightarrow> segment list \<Rightarrow> cue \<Rightarrow> (nat \<times> nat) \<times> 'f \<Rightarrow> 'f suspects \<Rightarrow> 'f suspects" where
  "advance_one E cfg segs c h next =
     (let R = re_rank E; ((seg_idx, expected), score) = h; cues = sg_cues (segs ! seg_idx)
      in if length cues \<le> expected then next
         else let (sim, next_off) = best_position E c cues expected;
                  hit = rk_leq R (sf_match_threshold cfg) sim;
                  updated = (if hit then rk_add R (rk_mul R score (sf_decay cfg)) (rk_mul R (sf_match_bonus cfg) sim)
                             else rk_sub R (rk_mul R score (sf_decay cfg)) (sf_miss_penalty cfg))
              in if rk_less R (sf_floor cfg) updated then raise_to R (seg_idx, if hit then next_off else expected) updated next else next)"

definition field_hits :: "'f stream_tracker \<Rightarrow> cue \<Rightarrow> ((nat \<times> nat) \<times> nat) list" where
  "field_hits t c = fold (\<lambda>k hits. fold count_hit (sk_index t k) hits) (indexed_fields c) []"

definition seed_one :: "'f recog_env \<Rightarrow> 'f stream_config \<Rightarrow> (nat \<times> nat) \<times> nat \<Rightarrow> 'f suspects \<Rightarrow> 'f suspects" where
  "seed_one E cfg h next =
     (let R = re_rank E; ((seg_idx, off), shared) = h
      in if sf_min_shared_fields cfg \<le> shared
         then raise_to R (seg_idx, off + 1) (rk_div R (rk_mul R (sf_seed cfg) (rk_of_nat R shared)) (rk_of_nat R CUE_FIELDS)) next
         else next)"

text \<open>\<open>partial_cmp\<close> with the arguments swapped; the sort is stable.\<close>

definition stronger :: "'f rank_env \<Rightarrow> 'k \<times> 'f \<Rightarrow> 'k \<times> 'f \<Rightarrow> bool" where
  "stronger R a b \<longleftrightarrow> \<not> rk_less R (snd a) (snd b)"

definition next_suspects :: "'f recog_env \<Rightarrow> 'f stream_order \<Rightarrow> 'f stream_config \<Rightarrow> cue \<Rightarrow> 'f stream_tracker \<Rightarrow> 'f suspects" where
  "next_suspects E so cfg c t =
     (let advanced = fold (advance_one E cfg (sk_segments t) c) (so_suspects so (sk_suspects t)) [];
          seeded = fold (seed_one E cfg) (so_hits so (field_hits t c)) advanced
      in if sf_max_suspects cfg < length seeded
         then take (sf_max_suspects cfg) (order_by (stronger (re_rank E)) (so_suspects so seeded))
         else seeded)"

definition segment_id :: "'f stream_tracker \<Rightarrow> nat \<Rightarrow> string" where
  "segment_id t i = sg_id (sk_segments t ! i)"

text \<open>The lock: threshold, margin over the runner-up, and hysteresis.\<close>

definition step_lock ::
    "'f rank_env \<Rightarrow> 'f stream_config \<Rightarrow> 'f suspects \<Rightarrow> 'f stream_tracker \<Rightarrow> 'f stream_tracker \<times> 'f stream_event list" where
  "step_lock R cfg ranked t =
     (let runner_up = (case ranked of a # b # rest \<Rightarrow> snd b | _ \<Rightarrow> rk_lit R 0);
          leads = (\<lambda>score. rk_leq R (sf_lock_threshold cfg) score \<and> rk_leq R (rk_mul R runner_up (sf_lock_margin cfg)) score)
      in case (sk_locked t, ranked) of
           (None, []) \<Rightarrow> (t, [])
         | (None, ((s, off), score) # rest) \<Rightarrow>
             if leads score then (t\<lparr>sk_locked := Some (s, off, 0)\<rparr>, [LockAcquired (segment_id t s) off score]) else (t, [])
         | (Some (seg, off, misses), _) \<Rightarrow>
             let missed = (if sf_lost_after_misses cfg \<le> misses + 1
                           then (t\<lparr>sk_locked := None\<rparr>, [LockLost (segment_id t seg) off])
                           else (t\<lparr>sk_locked := Some (seg, off, misses + 1)\<rparr>, []))
             in case ranked of
                  [] \<Rightarrow> missed
                | ((s, new_off), score) # rest \<Rightarrow>
                    if s = seg \<and> rk_leq R (sf_lock_threshold cfg) score then (t\<lparr>sk_locked := Some (seg, new_off, 0)\<rparr>, [])
                    else if s \<noteq> seg \<and> leads score
                    then (t\<lparr>sk_locked := Some (s, new_off, 0)\<rparr>, [LockTransferred (segment_id t seg) (segment_id t s) score])
                    else missed)"

definition observe ::
    "'f recog_env \<Rightarrow> 'f stream_order \<Rightarrow> 'f stream_config \<Rightarrow> cue \<Rightarrow> 'f stream_tracker \<Rightarrow> 'f stream_tracker \<times> 'f stream_event list" where
  "observe E so cfg c t =
     (let suspects = next_suspects E so cfg c t
      in step_lock (re_rank E) cfg (order_by (stronger (re_rank E)) (so_suspects so suspects)) (t\<lparr>sk_suspects := suspects\<rparr>))"

definition current_lock :: "'f stream_tracker \<Rightarrow> (string \<times> nat) option" where
  "current_lock t = map_option (\<lambda>(seg, off, misses). (segment_id t seg, off)) (sk_locked t)"

subsection \<open>The centroid tracker\<close>

record centroid =
  ce_segment_id :: string
  ce_wing :: string
  ce_dow :: "16 word"
  ce_hour :: "16 word"
  ce_peaks :: "16 word set"

text \<open>\<open>max_by_key\<close> keeps the last of equal maxima.\<close>

fun last_max :: "nat \<times> nat \<Rightarrow> (nat \<times> nat) list \<Rightarrow> nat \<times> nat" where
  "last_max m [] = m"
| "last_max m (e # es) = last_max (if snd m \<le> snd e then e else m) es"

definition argmax :: "nat list \<Rightarrow> 16 word" where
  "argmax h = (case enumerate 0 h of [] \<Rightarrow> 0 | e # es \<Rightarrow> of_nat (fst (last_max e es)))"

definition histogram :: "nat \<Rightarrow> (cue \<Rightarrow> 16 word) \<Rightarrow> cue list \<Rightarrow> nat list" where
  "histogram n f cues = fold (\<lambda>c h. let i = min (unat (f c)) (n - 1) in h[i := Suc (h ! i)]) cues (replicate n 0)"

definition centroid_of :: "segment \<Rightarrow> centroid" where
  "centroid_of g =
     \<lparr>ce_segment_id = sg_id g, ce_wing = sg_wing g, ce_dow = argmax (histogram 8 (\<lambda>c. c ! 1) (sg_cues g)),
      ce_hour = argmax (histogram 9 (\<lambda>c. c ! 2) (sg_cues g)), ce_peaks = (\<Union>c \<in> set (sg_cues g). set (peak_slots c)) - {0}\<rparr>"

record 'f centroid_config =
  cf_lock_threshold :: 'f
  cf_lock_margin :: 'f
  cf_min_cues :: nat
  cf_w_dow :: 'f
  cf_w_hour :: 'f
  cf_w_topic :: 'f

definition default_centroid :: "'f rank_env \<Rightarrow> 'f centroid_config" where
  "default_centroid R =
     \<lparr>cf_lock_threshold = rk_lit R (35 / 100), cf_lock_margin = rk_lit R (13 / 10), cf_min_cues = 2, cf_w_dow = rk_lit R (2 / 10),
      cf_w_hour = rk_lit R (15 / 100), cf_w_topic = rk_lit R (65 / 100)\<rparr>"

record centroid_tracker =
  ck_centroids :: "centroid list"
  ck_peak_df :: "16 word \<rightharpoonup> nat"
  ck_live_peaks :: "16 word set"
  ck_live_dow :: "16 word"
  ck_live_hour :: "16 word"
  ck_live_n :: nat
  ck_locked :: "nat option"

definition new_centroids :: centroid_tracker where
  "new_centroids = \<lparr>ck_centroids = [], ck_peak_df = (\<lambda>p. None), ck_live_peaks = {}, ck_live_dow = 0, ck_live_hour = 0,
     ck_live_n = 0, ck_locked = None\<rparr>"

definition enroll_centroid :: "centroid \<Rightarrow> centroid_tracker \<Rightarrow> centroid_tracker" where
  "enroll_centroid c t =
     t\<lparr>ck_peak_df := (\<lambda>p. if p \<in> ce_peaks c then Some (Suc (case ck_peak_df t p of None \<Rightarrow> 0 | Some n \<Rightarrow> n)) else ck_peak_df t p),
       ck_centroids := ck_centroids t @ [c]\<rparr>"

definition peak_idf :: "'f recog_env \<Rightarrow> centroid_tracker \<Rightarrow> 16 word \<Rightarrow> 'f" where
  "peak_idf E t p =
     (let n = max (length (ck_centroids t)) 1; df = (case ck_peak_df t p of None \<Rightarrow> 1 | Some k \<Rightarrow> k)
      in rk_max (re_rank E) (re_ln E (rk_div (re_rank E) (rk_of_nat (re_rank E) n) (rk_of_nat (re_rank E) df))) (rk_lit (re_rank E) 0))"

definition mass :: "'f recog_env \<Rightarrow> centroid_tracker \<Rightarrow> 16 word list \<Rightarrow> 'f" where
  "mass E t ps = foldl (rk_add (re_rank E)) (rk_lit (re_rank E) 0) (map (peak_idf E t) ps)"

definition centroid_score :: "'f recog_env \<Rightarrow> 'f stream_order \<Rightarrow> 'f centroid_config \<Rightarrow> centroid_tracker \<Rightarrow> centroid \<Rightarrow> 'f" where
  "centroid_score E so cfg t c =
     (let R = re_rank E;
          dow = (if ce_dow c = ck_live_dow t then cf_w_dow cfg else rk_lit R 0);
          hour = (if \<bar>uint (ce_hour c) - uint (ck_live_hour t)\<bar> \<le> 1 then cf_w_hour cfg else rk_lit R 0);
          live = so_peaks so (ck_live_peaks t);
          inter_w = mass E t (filter (\<lambda>p. p \<in> ce_peaks c) live);
          live_w = mass E t live;
          centroid_w = mass E t (so_peaks so (ce_peaks c));
          uncovered = rk_max R (rk_sub R centroid_w inter_w) (rk_lit R 0);
          topic = (if rk_less R (rk_lit R 0) live_w
                   then rk_div R inter_w (rk_add R live_w (rk_mul R (rk_lit R (15 / 100)) uncovered)) else rk_lit R 0)
      in rk_add R (rk_add R dow hour) (rk_mul R (cf_w_topic cfg) topic))"

definition centroid_id :: "centroid_tracker \<Rightarrow> nat \<Rightarrow> string" where
  "centroid_id t i = ce_segment_id (ck_centroids t ! i)"

definition observe_centroid ::
    "'f recog_env \<Rightarrow> 'f stream_order \<Rightarrow> 'f centroid_config \<Rightarrow> cue \<Rightarrow> bool \<Rightarrow> centroid_tracker \<Rightarrow> centroid_tracker \<times> 'f stream_event list" where
  "observe_centroid E so cfg c boundary t =
     (let R = re_rank E;
          t = (if boundary then t\<lparr>ck_live_peaks := {}, ck_live_n := 0, ck_locked := None\<rparr> else t);
          t = t\<lparr>ck_live_dow := c ! 1, ck_live_hour := c ! 2, ck_live_peaks := ck_live_peaks t \<union> (set (peak_slots c) - {0}),
                 ck_live_n := Suc (ck_live_n t)\<rparr>
      in if ck_live_n t < cf_min_cues cfg then (t, [])
         else case order_by (stronger R) (map (\<lambda>(i, x). (i, centroid_score E so cfg t x)) (enumerate 0 (ck_centroids t))) of
                [] \<Rightarrow> (t, [])
              | (best_idx, best) # rest \<Rightarrow>
                  let runner_up = (case rest of [] \<Rightarrow> rk_lit R 0 | e # es \<Rightarrow> snd e);
                      qualifies = (rk_leq R (cf_lock_threshold cfg) best \<and> rk_leq R (rk_mul R runner_up (cf_lock_margin cfg)) best)
                  in case ck_locked t of
                       None \<Rightarrow> if qualifies then (t\<lparr>ck_locked := Some best_idx\<rparr>, [LockAcquired (centroid_id t best_idx) (ck_live_n t) best]) else (t, [])
                     | Some cur \<Rightarrow>
                         if qualifies \<and> cur \<noteq> best_idx
                         then (t\<lparr>ck_locked := Some best_idx\<rparr>, [LockTransferred (centroid_id t cur) (centroid_id t best_idx) best])
                         else (t, []))"

subsection \<open>The segmenter\<close>

definition pad4 :: "nat \<Rightarrow> string" where
  "pad4 n = replicate (4 - length (decimal n)) (CHR ''0'') @ decimal n"

text \<open>\<open>slice::chunks\<close> panics on size zero, also for an empty slice; a panic is \<open>None\<close>.\<close>

definition flush_cues :: "nat \<Rightarrow> nat \<Rightarrow> cue list \<Rightarrow> string \<Rightarrow> segment list \<Rightarrow> segment list option" where
  "flush_cues min_len max_len cues wing out =
     (if length cues < min_len then Some out
      else if max_len = 0 then None
      else Some (out @ map (\<lambda>(k, c). \<lparr>sg_id = ''seg-'' @ pad4 k @ ''-'' @ wing, sg_cues = c, sg_wing = wing\<rparr>)
             (enumerate (length out) (chunks max_len cues))))"

fun segment_from ::
    "int \<Rightarrow> nat \<Rightarrow> nat \<Rightarrow> (cue \<times> string \<times> int) list \<Rightarrow> cue list \<Rightarrow> string \<Rightarrow> int \<Rightarrow> segment list \<Rightarrow> segment list option" where
  "segment_from gap min_len max_len [] current current_wing last_ts out = flush_cues min_len max_len current current_wing out"
| "segment_from gap min_len max_len ((c, wing, ts) # items) current current_wing last_ts out =
     (if current \<noteq> [] \<and> (wing \<noteq> current_wing \<or> gap * 60 < ts - last_ts)
      then Option.bind (flush_cues min_len max_len current current_wing out)
             (\<lambda>out. segment_from gap min_len max_len items [c] wing ts out)
      else segment_from gap min_len max_len items (current @ [c]) wing ts out)"

definition segment_stream :: "(cue \<times> string \<times> int) list \<Rightarrow> int \<Rightarrow> nat \<Rightarrow> nat \<Rightarrow> segment list option" where
  "segment_stream items gap_minutes min_len max_len = segment_from gap_minutes min_len max_len items [] [] 0 []"

subsection \<open>Runs of the path tracker\<close>

datatype stream_input = Reference segment | Heard cue

fun run_stream ::
    "'f recog_env \<Rightarrow> 'f stream_order \<Rightarrow> 'f stream_config \<Rightarrow> stream_input list \<Rightarrow> 'f stream_tracker \<Rightarrow> 'f stream_tracker \<times> 'f stream_event list" where
  "run_stream E so cfg [] t = (t, [])"
| "run_stream E so cfg (Reference g # is) t = run_stream E so cfg is (enroll_segment g t)"
| "run_stream E so cfg (Heard c # is) t =
     (let (t, es) = observe E so cfg c t; (t, es') = run_stream E so cfg is t in (t, es @ es'))"

definition tracker_ok :: "'f stream_config \<Rightarrow> 'f stream_tracker \<Rightarrow> bool" where
  "tracker_ok cfg t \<longleftrightarrow>
     (\<forall>k. \<forall>e \<in> set (sk_index t k). fst e < length (sk_segments t)) \<and>
     (\<forall>h \<in> set (sk_suspects t). fst (fst h) < length (sk_segments t)) \<and>
     (\<forall>s off m. sk_locked t = Some (s, off, m) \<longrightarrow> s < length (sk_segments t)) \<and>
     length (sk_suspects t) \<le> sf_max_suspects cfg"

definition below :: "nat \<Rightarrow> ((nat \<times> nat) \<times> 'v) list \<Rightarrow> bool" where
  "below n es \<longleftrightarrow> (\<forall>e \<in> set es. fst (fst e) < n)"

lemma below_raise: "below n es \<Longrightarrow> fst k < n \<Longrightarrow> below n (raise_to R k x es)"
  unfolding below_def by (induction R k x es rule: raise_to.induct) simp_all

lemma below_count: "below n es \<Longrightarrow> fst k < n \<Longrightarrow> below n (count_hit k es)"
  unfolding below_def by (induction k es rule: count_hit.induct) simp_all

lemma below_fold: "(\<And>x es. x \<in> set xs \<Longrightarrow> below n es \<Longrightarrow> below n (f x es)) \<Longrightarrow> below n es \<Longrightarrow> below n (fold f xs es)"
  by (induction xs arbitrary: es) simp_all

lemma below_advance:
  assumes "below n es" "fst (fst h) < n"
  shows "below n (advance_one E cfg segs c h es)"
proof -
  obtain s e v where h: "h = ((s, e), v)" by (metis prod.collapse)
  obtain sim off where b: "best_position E c (sg_cues (segs ! s)) e = (sim, off)" by (metis prod.collapse)
  show ?thesis using assms unfolding h by (simp add: advance_one_def Let_def b below_raise)
qed

lemma below_seed:
  assumes "below n es" "fst (fst h) < n"
  shows "below n (seed_one E cfg h es)"
proof -
  obtain s e v where h: "h = ((s, e), v)" by (metis prod.collapse)
  show ?thesis using assms unfolding h by (simp add: seed_one_def Let_def below_raise)
qed

lemma below_hits:
  assumes "\<And>k e. e \<in> set (sk_index t k) \<Longrightarrow> fst e < n"
  shows "below n (field_hits t c)"
  unfolding field_hits_def
proof (rule below_fold)
  fix k es assume "below n (es :: ((nat \<times> nat) \<times> nat) list)"
  then show "below n (fold count_hit (sk_index t k) es)" by (intro below_fold below_count) (auto intro: assms)
qed (simp add: below_def)

definition keeps_rows :: "'f stream_order \<Rightarrow> bool" where
  "keeps_rows so \<longleftrightarrow> (\<forall>xs. set (so_suspects so xs) = set xs) \<and> (\<forall>xs. set (so_hits so xs) = set xs)"

lemma below_next:
  assumes "tracker_ok cfg t" "keeps_rows so"
  shows "below (length (sk_segments t)) (next_suspects E so cfg c t)"
proof -
  let ?n = "length (sk_segments t)"
  have perm: "below ?n (so_suspects so xs) = below ?n xs" "below ?n (so_hits so ys) = below ?n ys" for xs ys
    using assms(2) by (simp_all add: keeps_rows_def below_def)
  have old: "below ?n (so_suspects so (sk_suspects t))" unfolding perm using assms(1) by (simp add: tracker_ok_def below_def)
  have hits: "below ?n (so_hits so (field_hits t c))" unfolding perm
    by (rule below_hits) (use assms(1) in \<open>unfold tracker_ok_def, blast\<close>)
  have "below ?n (fold (advance_one E cfg (sk_segments t) c) (so_suspects so (sk_suspects t)) [])"
    by (rule below_fold, rule below_advance) (use old in \<open>auto simp: below_def\<close>)
  then have "below ?n (fold (seed_one E cfg) (so_hits so (field_hits t c))
      (fold (advance_one E cfg (sk_segments t) c) (so_suspects so (sk_suspects t)) []))"
    by (rule below_fold[rotated]) (rule below_seed, use hits in \<open>auto simp: below_def\<close>)
  moreover have "below ?n (take m (order_by le (so_suspects so xs)))" if "below ?n xs" for m le xs
    using that perm(1)[of xs] unfolding below_def by (metis in_set_takeD set_order_by)
  ultimately show ?thesis unfolding next_suspects_def Let_def by simp
qed

lemma next_suspects_length: "length (next_suspects E so cfg c t) \<le> sf_max_suspects cfg"
  by (simp add: next_suspects_def Let_def)

lemma step_lock_cases:
  obtains "step_lock R cfg ranked t = (t, [])"
  | s off score rest where "sk_locked t = None" "ranked = ((s, off), score) # rest"
      "step_lock R cfg ranked t = (t\<lparr>sk_locked := Some (s, off, 0)\<rparr>, [LockAcquired (segment_id t s) off score])"
  | seg off misses off' m where "sk_locked t = Some (seg, off, misses)"
      "step_lock R cfg ranked t = (t\<lparr>sk_locked := Some (seg, off', m)\<rparr>, [])"
  | seg off misses where "sk_locked t = Some (seg, off, misses)"
      "step_lock R cfg ranked t = (t\<lparr>sk_locked := None\<rparr>, [LockLost (segment_id t seg) off])"
  | seg off misses s off' score rest where "sk_locked t = Some (seg, off, misses)" "ranked = ((s, off'), score) # rest"
      "step_lock R cfg ranked t = (t\<lparr>sk_locked := Some (s, off', 0)\<rparr>, [LockTransferred (segment_id t seg) (segment_id t s) score])"
proof (cases "sk_locked t")
  case None
  show ?thesis
  proof (cases ranked)
    case Nil
    then show ?thesis using None that(1) by (simp add: step_lock_def)
  next
    case (Cons h rest)
    obtain s off score where "h = ((s, off), score)" by (metis prod.collapse)
    then have "step_lock R cfg ranked t = (t, []) \<or>
        step_lock R cfg ranked t = (t\<lparr>sk_locked := Some (s, off, 0)\<rparr>, [LockAcquired (segment_id t s) off score])"
      using None Cons by (simp add: step_lock_def Let_def)
    then show ?thesis using None Cons \<open>h = ((s, off), score)\<close> that(1,2) by blast
  qed
next
  case (Some l)
  obtain seg off misses where l: "l = (seg, off, misses)" by (cases l)
  show ?thesis
  proof (cases ranked)
    case Nil
    then have "step_lock R cfg ranked t = (t\<lparr>sk_locked := None\<rparr>, [LockLost (segment_id t seg) off]) \<or>
        step_lock R cfg ranked t = (t\<lparr>sk_locked := Some (seg, off, misses + 1)\<rparr>, [])"
      using Some l by (simp add: step_lock_def Let_def)
    then show ?thesis using Some l that(3,4) by blast
  next
    case (Cons h rest)
    obtain s off' score where "h = ((s, off'), score)" by (metis prod.collapse)
    then have "step_lock R cfg ranked t = (t\<lparr>sk_locked := None\<rparr>, [LockLost (segment_id t seg) off]) \<or>
        step_lock R cfg ranked t = (t\<lparr>sk_locked := Some (seg, off, misses + 1)\<rparr>, []) \<or>
        step_lock R cfg ranked t = (t\<lparr>sk_locked := Some (seg, off', 0)\<rparr>, []) \<or>
        step_lock R cfg ranked t = (t\<lparr>sk_locked := Some (s, off', 0)\<rparr>, [LockTransferred (segment_id t seg) (segment_id t s) score])"
      using Some l Cons by (simp add: step_lock_def Let_def)
    then show ?thesis using Some l Cons \<open>h = ((s, off'), score)\<close> that(3,4,5) by blast
  qed
qed

lemma step_lock_same:
  "sk_segments (fst (step_lock R cfg ranked t)) = sk_segments t \<and> sk_index (fst (step_lock R cfg ranked t)) = sk_index t \<and>
   sk_suspects (fst (step_lock R cfg ranked t)) = sk_suspects t"
  by (rule step_lock_cases[of R cfg ranked t]) simp_all

lemma set_index_fold:
  "e \<in> set (fold (\<lambda>(off, c). fold (\<lambda>k ix. ix(k := ix k @ [(n, off)])) (indexed_fields c)) es ix k) \<Longrightarrow> e \<in> set (ix k) \<or> fst e = n"
proof (induction es arbitrary: ix)
  case (Cons x es)
  have inner: "e \<in> set (fold (\<lambda>k ix. ix(k := ix k @ [(n, off)])) ks ix k) \<Longrightarrow> e \<in> set (ix k) \<or> fst e = n" for ks off ix
  proof (induction ks arbitrary: ix)
    case (Cons j ks)
    then show ?case using Cons.IH[of "ix(j := ix j @ [(n, off)])"] by (auto split: if_splits)
  qed simp
  obtain off c where x: "x = (off, c)" by (cases x)
  show ?case using Cons.IH[of "fold (\<lambda>k ix. ix(k := ix k @ [(n, off)])) (indexed_fields c) ix"] inner[of off "indexed_fields c" ix] Cons.prems
    unfolding x fold.simps comp_def prod.case by blast
qed simp

lemma enroll_ok: "tracker_ok cfg t \<Longrightarrow> tracker_ok cfg (enroll_segment g t)"
proof -
  assume ok: "tracker_ok cfg t"
  let ?t = "enroll_segment g t"
  have len: "length (sk_segments ?t) = Suc (length (sk_segments t))" and same: "sk_suspects ?t = sk_suspects t" "sk_locked ?t = sk_locked t"
    by (simp_all add: enroll_segment_def)
  have "fst e < length (sk_segments ?t)" if "e \<in> set (sk_index ?t k)" for e k
  proof -
    have "e \<in> set (sk_index t k) \<or> fst e = length (sk_segments t)"
      using that set_index_fold[of e "length (sk_segments t)"] by (simp add: enroll_segment_def)
    moreover have "e \<in> set (sk_index t k) \<Longrightarrow> fst e < length (sk_segments t)" using ok unfolding tracker_ok_def by blast
    ultimately show ?thesis unfolding len by auto
  qed
  then show ?thesis using ok unfolding tracker_ok_def same len by (auto simp: less_Suc_eq)
qed

lemma observe_ok:
  assumes "tracker_ok cfg t" "keeps_rows so"
  shows "tracker_ok cfg (fst (observe E so cfg c t))"
proof -
  let ?n = "next_suspects E so cfg c t" and ?R = "re_rank E"
  let ?t = "t\<lparr>sk_suspects := ?n\<rparr>" and ?ranked = "order_by (stronger (re_rank E)) (so_suspects so (next_suspects E so cfg c t))"
  have keys: "h \<in> set ?n \<Longrightarrow> fst (fst h) < length (sk_segments t)" for h
    using below_next[OF assms, of E c] by (simp add: below_def)
  have ranked: "h \<in> set ?ranked \<Longrightarrow> fst (fst h) < length (sk_segments t)" for h
    using keys assms(2) by (simp add: keeps_rows_def)
  have old: "sk_locked t = Some (s, off, m) \<Longrightarrow> s < length (sk_segments t)" for s off m
    using assms(1) unfolding tracker_ok_def by blast
  have lock: "s < length (sk_segments t)" if "sk_locked (fst (step_lock ?R cfg ?ranked ?t)) = Some (s, off, m)" for s off m
    by (rule step_lock_cases[of ?R cfg ?ranked ?t]) (use that old ranked in fastforce)+
  show ?thesis using assms(1) lock keys next_suspects_length[of E so cfg c t]
    unfolding observe_def Let_def tracker_ok_def by (simp add: step_lock_same)
qed

text \<open>
  After any sequence of enrolments and cues the tracker holds at most \<open>max_suspects\<close> hypotheses, and every
  index it keeps - in the cue index, among the hypotheses, in the lock - is that of an enrolled
  segment, so none of its array accesses panics.
\<close>

theorem tracker_in_range:
  assumes "keeps_rows so"
  shows "tracker_ok cfg (fst (run_stream E so cfg is new_tracker))"
proof -
  have "tracker_ok cfg t \<Longrightarrow> tracker_ok cfg (fst (run_stream E so cfg is t))" for t
  proof (induction "is" arbitrary: t)
    case (Cons i "is")
    have "tracker_ok cfg (enroll_segment g t)" "tracker_ok cfg (fst (observe E so cfg c t))" for g c
      using enroll_ok observe_ok assms Cons.prems by blast+
    then show ?case using Cons.IH by (cases i) (simp_all add: Let_def case_prod_beta)
  qed simp
  moreover have "tracker_ok cfg new_tracker" by (simp add: tracker_ok_def new_tracker_def)
  ultimately show ?thesis by blast
qed

subsection \<open>Lock events\<close>

text \<open>What a listener infers from the events: the segment that holds the lock; \<open>None\<close> for an event that does not fit.\<close>

fun replay :: "string option \<Rightarrow> 'f stream_event list \<Rightarrow> string option option" where
  "replay l [] = Some l"
| "replay l (LockAcquired i off score # es) = (if l = None then replay (Some i) es else None)"
| "replay l (LockLost i off # es) = (if l = Some i then replay None es else None)"
| "replay l (LockTransferred i j score # es) = (if l = Some i then replay (Some j) es else None)"

lemma replay_append: "replay l es = Some l' \<Longrightarrow> replay l (es @ es') = replay l' es'"
  by (induction l es rule: replay.induct) (auto split: if_splits)

definition lock_holder :: "'f stream_tracker \<Rightarrow> string option" where
  "lock_holder t = map_option fst (current_lock t)"

lemma observe_replay: "replay (lock_holder t) (snd (observe E so cfg c t)) = Some (lock_holder (fst (observe E so cfg c t)))"
  unfolding observe_def Let_def
  by (rule step_lock_cases[of "re_rank E" cfg "order_by (stronger (re_rank E)) (so_suspects so (next_suspects E so cfg c t))"
        "t\<lparr>sk_suspects := next_suspects E so cfg c t\<rparr>"])
    (simp_all add: lock_holder_def current_lock_def segment_id_def)

lemma enroll_holder:
  assumes "tracker_ok cfg t"
  shows "lock_holder (enroll_segment g t) = lock_holder t"
proof (cases "sk_locked t")
  case (Some l)
  obtain s off m where l: "l = (s, off, m)" by (cases l)
  then have "s < length (sk_segments t)" using assms Some unfolding tracker_ok_def by blast
  then show ?thesis using Some l by (simp add: lock_holder_def current_lock_def segment_id_def enroll_segment_def nth_append)
qed (simp add: lock_holder_def current_lock_def enroll_segment_def)

text \<open>
  C14: The events of the path tracker tell the lock exactly: over any run, a lock is acquired only when none is
  held, lost or transferred only from the segment that holds it, and the holder a listener infers from the
  events alone is the tracker's current lock.
\<close>

theorem lock_events_tell_lock:
  assumes "keeps_rows so"
  shows "replay None (snd (run_stream E so cfg is new_tracker)) = Some (lock_holder (fst (run_stream E so cfg is new_tracker)))"
proof -
  have "tracker_ok cfg t \<Longrightarrow> replay (lock_holder t) (snd (run_stream E so cfg is t)) = Some (lock_holder (fst (run_stream E so cfg is t)))" for t
  proof (induction "is" arbitrary: t)
    case (Cons i "is")
    show ?case
    proof (cases i)
      case (Reference g)
      then show ?thesis using Cons.IH[OF enroll_ok[OF Cons.prems, of g]] enroll_holder[OF Cons.prems, of g] by simp
    next
      case (Heard c)
      have "tracker_ok cfg (fst (observe E so cfg c t))" by (rule observe_ok[OF Cons.prems assms])
      from Cons.IH[OF this] show ?thesis unfolding Heard
        by (simp add: Let_def case_prod_beta replay_append[OF observe_replay])
    qed
  qed simp
  moreover have "tracker_ok cfg new_tracker" by (simp add: tracker_ok_def new_tracker_def)
  moreover have "lock_holder new_tracker = None" by (simp add: lock_holder_def current_lock_def new_tracker_def)
  ultimately show ?thesis by metis
qed

text \<open>The centroid tracker likewise, but a boundary releases the lock without an event.\<close>

definition centroid_holder :: "centroid_tracker \<Rightarrow> string option" where
  "centroid_holder t = map_option (centroid_id t) (ck_locked t)"

lemma centroid_replay:
  "replay (if boundary then None else centroid_holder t) (snd (observe_centroid E so cfg c boundary t)) =
     Some (centroid_holder (fst (observe_centroid E so cfg c boundary t)))"
proof -
  let ?R = "re_rank E"
  define t1 where "t1 = (if boundary then t\<lparr>ck_live_peaks := {}, ck_live_n := 0, ck_locked := None\<rparr> else t)"
  define u where "u = t1\<lparr>ck_live_dow := c ! 1, ck_live_hour := c ! 2, ck_live_peaks := ck_live_peaks t1 \<union> (set (peak_slots c) - {0}),
                 ck_live_n := Suc (ck_live_n t1)\<rparr>"
  define ranked where "ranked = order_by (stronger ?R) (map (\<lambda>(i, x). (i, centroid_score E so cfg u x)) (enumerate 0 (ck_centroids u)))"
  define leads where "leads best rest \<longleftrightarrow> rk_leq ?R (cf_lock_threshold cfg) best \<and>
      rk_leq ?R (rk_mul ?R (case rest of [] \<Rightarrow> rk_lit ?R 0 | e # es \<Rightarrow> snd e) (cf_lock_margin cfg)) best" for best and rest :: "(nat \<times> 'a) list"
  have obs: "observe_centroid E so cfg c boundary t =
     (if ck_live_n u < cf_min_cues cfg then (u, [])
      else case ranked of
        [] \<Rightarrow> (u, [])
      | (i, best) # rest \<Rightarrow>
          (case ck_locked u of
             None \<Rightarrow> if leads best rest then (u\<lparr>ck_locked := Some i\<rparr>, [LockAcquired (centroid_id u i) (ck_live_n u) best]) else (u, [])
           | Some cur \<Rightarrow> if leads best rest \<and> cur \<noteq> i
                then (u\<lparr>ck_locked := Some i\<rparr>, [LockTransferred (centroid_id u cur) (centroid_id u i) best]) else (u, [])))"
    by (simp only: observe_centroid_def Let_def t1_def[symmetric] u_def[symmetric] ranked_def[symmetric] leads_def[symmetric])
  have held: "(if boundary then None else centroid_holder t) = centroid_holder u"
    by (simp add: u_def t1_def centroid_holder_def centroid_id_def[abs_def])
  show ?thesis
  proof (cases ranked)
    case Nil
    then show ?thesis unfolding obs held by simp
  next
    case (Cons h rest)
    obtain i best where "h = (i, best)" by (cases h)
    then show ?thesis using Cons unfolding obs held
      by (cases "ck_locked u") (simp_all add: centroid_holder_def centroid_id_def)
  qed
qed

subsection \<open>Segments\<close>

definition labelled :: "segment list \<Rightarrow> (cue \<times> string) list" where
  "labelled segs = concat (map (\<lambda>g. map (\<lambda>c. (c, sg_wing g)) (sg_cues g)) segs)"

lemma labelled_append [simp]: "labelled (xs @ ys) = labelled xs @ labelled ys"
  by (simp add: labelled_def)

lemma labelled_chunks:
  "labelled (map (\<lambda>(k, c). \<lparr>sg_id = f k, sg_cues = c, sg_wing = wing\<rparr>) (enumerate n cs)) = map (\<lambda>c. (c, wing)) (concat cs)"
  by (induction cs arbitrary: n) (simp_all add: labelled_def)

definition segments_fit :: "nat \<Rightarrow> segment list \<Rightarrow> bool" where
  "segments_fit max_len segs \<longleftrightarrow> (\<forall>g \<in> set segs. sg_cues g \<noteq> [] \<and> length (sg_cues g) \<le> max_len)"

lemma flush_fits:
  assumes "flush_cues min_len max_len cues wing out = Some out'" "segments_fit max_len out"
  shows "segments_fit max_len out' \<and> subseq (labelled out') (labelled out @ map (\<lambda>c. (c, wing)) cues) \<and>
    (min_len \<le> 1 \<longrightarrow> labelled out' = labelled out @ map (\<lambda>c. (c, wing)) cues)"
proof (cases "length cues < min_len")
  case True
  moreover from this have "min_len \<le> 1 \<Longrightarrow> cues = []" by (cases cues) auto
  ultimately show ?thesis using assms by (auto simp: flush_cues_def)
next
  case False
  have out': "0 < max_len" "out' = out @ map (\<lambda>(k, c). \<lparr>sg_id = ''seg-'' @ pad4 k @ ''-'' @ wing, sg_cues = c, sg_wing = wing\<rparr>)
      (enumerate (length out) (chunks max_len cues))"
    using assms(1) False by (auto simp: flush_cues_def split: if_splits)
  have "g \<in> set out' \<Longrightarrow> g \<in> set out \<or> sg_cues g \<in> set (chunks max_len cues)" for g
    unfolding out'(2) by (auto simp: in_set_enumerate_eq)
  then have "segments_fit max_len out'" using assms(2) chunks_bound[OF out'(1)] unfolding segments_fit_def by blast
  then show ?thesis unfolding out'(2) labelled_append labelled_chunks concat_chunks by simp
qed

lemma flush_returns: "0 < max_len \<Longrightarrow> \<exists>out'. flush_cues min_len max_len cues wing out = Some out'"
  by (simp add: flush_cues_def)

lemma segment_from_fits:
  assumes "segment_from gap min_len max_len items current wing ts out = Some segs" "segments_fit max_len out"
  shows "segments_fit max_len segs \<and>
    subseq (labelled segs) (labelled out @ map (\<lambda>c. (c, wing)) current @ map (\<lambda>(c, w, t). (c, w)) items) \<and>
    (min_len \<le> 1 \<longrightarrow> labelled segs = labelled out @ map (\<lambda>c. (c, wing)) current @ map (\<lambda>(c, w, t). (c, w)) items)"
  using assms
proof (induction items arbitrary: current wing ts out)
  case Nil
  then show ?case using flush_fits[of min_len max_len current wing out segs] by simp
next
  case (Cons item items)
  obtain c w t where i: "item = (c, w, t)" by (cases item)
  show ?case
  proof (cases "current \<noteq> [] \<and> (w \<noteq> wing \<or> gap * 60 < t - ts)")
    case True
    then obtain out' where f: "flush_cues min_len max_len current wing out = Some out'"
      and s: "segment_from gap min_len max_len items [c] w t out' = Some segs"
      using Cons.prems(1) unfolding i by (auto split: bind_splits)
    note fl = flush_fits[OF f Cons.prems(2)]
    note IH = Cons.IH[OF s conjunct1[OF fl]]
    have "subseq (labelled out' @ map (\<lambda>c. (c, w)) [c] @ map (\<lambda>(c, w, t). (c, w)) items)
        ((labelled out @ map (\<lambda>c. (c, wing)) current) @ map (\<lambda>c. (c, w)) [c] @ map (\<lambda>(c, w, t). (c, w)) items)"
      using fl by (intro list_emb_append_mono) auto
    then show ?thesis using IH fl unfolding i by (auto intro: subseq_order.trans)
  next
    case False
    then have "segment_from gap min_len max_len items (current @ [c]) w t out = Some segs"
      using Cons.prems(1) unfolding i segment_from.simps if_not_P[OF False] by blast
    note IH = Cons.IH[OF this Cons.prems(2)]
    have "map (\<lambda>c. (c, wing)) current = map (\<lambda>c. (c, w)) current" using False by auto
    note same = this
    show ?thesis using IH unfolding i same by simp
  qed
qed

lemma segment_from_returns: "0 < max_len \<Longrightarrow> \<exists>segs. segment_from gap min_len max_len items current wing ts out = Some segs"
proof (induction items arbitrary: current wing ts out)
  case Nil
  then show ?case by (simp add: flush_returns)
next
  case (Cons item items)
  obtain c w t where i: "item = (c, w, t)" by (cases item)
  obtain out' where "flush_cues min_len max_len current wing out = Some out'" using flush_returns[OF Cons.prems] by blast
  then show ?case unfolding i using Cons.IH[OF Cons.prems] by simp
qed

text \<open>
  With a positive \<open>max_len\<close> the segmenter returns; every segment has between one and \<open>max_len\<close>
  cues, all of them under the wing the segment is labelled with, in the order of the stream and each used once.
  Runs shorter than \<open>min_len\<close> are dropped, so with \<open>min_len\<close> at most 1 no cue of the stream is lost.
\<close>

theorem segments_partition:
  assumes "0 < max_len"
  shows "\<exists>segs. segment_stream items gap min_len max_len = Some segs \<and> segments_fit max_len segs \<and>
    subseq (labelled segs) (map (\<lambda>(c, w, t). (c, w)) items) \<and>
    (min_len \<le> 1 \<longrightarrow> labelled segs = map (\<lambda>(c, w, t). (c, w)) items)"
proof -
  obtain segs where s: "segment_stream items gap min_len max_len = Some segs"
    using segment_from_returns[OF assms] unfolding segment_stream_def by blast
  have "segments_fit max_len ([] :: segment list)" by (simp add: segments_fit_def)
  from segment_from_fits[OF s[unfolded segment_stream_def] this] s show ?thesis by (simp add: labelled_def)
qed

subsection \<open>Concrete streams\<close>

definition toy_stream :: "rat stream_order" where
  "toy_stream = \<lparr>so_suspects = rev, so_hits = (\<lambda>hs. hs), so_peaks = sorted_list_of_set\<rparr>"

lemma toy_stream_keeps: "keeps_rows toy_stream"
  by (simp add: keeps_rows_def toy_stream_def)

definition toy_cue :: "16 word \<Rightarrow> cue" where
  "toy_cue w = [w, 1, 3, 0, 0, 5, 9, 0]"

definition toy_inputs :: "stream_input list" where
  "toy_inputs = [Reference \<lparr>sg_id = ''seg'', sg_cues = [toy_cue 7, toy_cue 8], sg_wing = ''w''\<rparr>, Heard (toy_cue 7), Heard (toy_cue 8)]"

lemma tracker_in_range_witness:
  "length (sk_suspects (fst (run_stream toy_recog toy_stream (default_stream toy_rank) toy_inputs new_tracker))) \<le> 512"
  using tracker_in_range[OF toy_stream_keeps, of "default_stream toy_rank" toy_recog toy_inputs]
  by (simp add: tracker_ok_def default_stream_def)

lemma lock_events_tell_lock_witness:
  "replay None (snd (run_stream toy_recog toy_stream (default_stream toy_rank) toy_inputs new_tracker)) =
   Some (lock_holder (fst (run_stream toy_recog toy_stream (default_stream toy_rank) toy_inputs new_tracker)))"
  by (rule lock_events_tell_lock[OF toy_stream_keeps])

lemma segments_partition_witness:
  "\<exists>segs. segment_stream [(toy_cue 1, ''a'', 0), (toy_cue 2, ''a'', 60), (toy_cue 3, ''b'', 90)] 30 1 12 = Some segs \<and>
     labelled segs = [(toy_cue 1, ''a''), (toy_cue 2, ''a''), (toy_cue 3, ''b'')]"
  using segments_partition[of 12 "[(toy_cue 1, ''a'', 0), (toy_cue 2, ''a'', 60), (toy_cue 3, ''b'', 90)]" 30 1] by auto

end
