(* ===== verification/Ingest.thy ===== *)
theory Ingest
  imports Store_Ops Fts
begin

text \<open>
  The ingestion pipeline of \<open>spectral-ingest/src\<close>: classification (\<open>classifier.rs\<close>), the signal score
  (\<open>signal.rs\<close>), episodes, constellation fingerprints and the write (\<open>ingest.rs\<close>).

  A compiled regular expression is a predicate on text. \<open>ie_trim\<close> is \<open>str::trim\<close> and \<open>ie_stamp\<close> prints an
  instant (in nanoseconds) as SQLite does. Storage fails only by the constraints of the tables.
\<close>

record ('f, 'g) ingest_env =
  ie_rank :: "'f rank_env"
  ie_db :: "'f db_env"
  ie_clock :: "'g clock_env"
  ie_trim :: "string \<Rightarrow> string"
  ie_stamp :: "int \<Rightarrow> string"

type_synonym rule = "(string \<Rightarrow> bool) \<times> string"

subsection \<open>Classification\<close>

fun classify_by :: "string \<Rightarrow> string \<Rightarrow> rule list \<Rightarrow> string" where
  "classify_by fallback text [] = fallback"
| "classify_by fallback text ((matches, label) # rules) = (if matches text then label else classify_by fallback text rules)"

definition classify_wing :: "'f rank_env \<Rightarrow> string \<Rightarrow> string \<Rightarrow> string \<Rightarrow> rule list \<Rightarrow> string" where
  "classify_wing R key content category rules =
     classify_by ''general'' (rk_lower R (key @ '' '' @ content @ '' '' @ category)) rules"

definition classify_hall :: "'f rank_env \<Rightarrow> string \<Rightarrow> rule list \<Rightarrow> string" where
  "classify_hall R content rules = classify_by ''event'' (rk_lower R content) rules"

subsection \<open>The signal score\<close>

definition hall_base :: "'f rank_env \<Rightarrow> string \<Rightarrow> 'f" where
  "hall_base R hall_lower =
     (if hall_lower = ''fact'' \<or> hall_lower = ''rule'' \<or> hall_lower = ''preference'' then rk_lit R (70 / 100)
      else if hall_lower = ''discovery'' then rk_lit R (62 / 100)
      else if hall_lower = ''advice'' then rk_lit R (55 / 100)
      else rk_lit R (50 / 100))"

definition count_matches :: "string \<Rightarrow> string list \<Rightarrow> nat" where
  "count_matches s words = length (filter (str_contains s) words)"

definition sigmoid_contribution :: "'f rank_env \<Rightarrow> nat \<Rightarrow> rat \<Rightarrow> 'f" where
  "sigmoid_contribution R density max_weight =
     (if density = 0 then rk_lit R 0
      else rk_mul R (rk_lit R max_weight) (rk_div R (rk_of_nat R density) (rk_add R (rk_of_nat R density) (rk_lit R 1))))"

definition SIGNAL_WORDS :: "(string list \<times> rat) list" where
  "SIGNAL_WORDS =
     [([''decided'', ''chose'', ''switched'', ''approved'', ''rejected'', ''picked'', ''going with''], 18 / 100),
      ([''error'', ''bug'', ''failed'', ''broke'', ''crash'', ''broken'', ''issue''], 12 / 100),
      ([''learned'', ''realized'', ''breakthrough'', ''insight'', ''discovered'', ''found that''], 12 / 100),
      ([''always'', ''never'', ''rule'', ''policy'', ''must'', ''require''], 8 / 100),
      ([''deadline'', ''urgent'', ''critical'', ''blocker'', ''priority''], 8 / 100),
      ([''i am allergic'', ''i'' @ [CHR 0x27] @ ''m allergic'', ''i am vegetarian'', ''i'' @ [CHR 0x27] @ ''m vegetarian'', ''i am vegan'',
        ''i'' @ [CHR 0x27] @ ''m vegan'', ''i am diabetic'', ''i'' @ [CHR 0x27] @ ''m diabetic'', ''i am a vegetarian'', ''i am a vegan''], 30 / 100)]"

definition score_memory :: "'f rank_env \<Rightarrow> string \<Rightarrow> string \<Rightarrow> 'f" where
  "score_memory R content hall =
     (let text = rk_lower R content
      in rk_clamp R (rk_lit R 0) (rk_lit R 1)
           (foldl (\<lambda>s (words, w). rk_add R s (sigmoid_contribution R (count_matches text words) w))
              (hall_base R (rk_lower R hall)) SIGNAL_WORDS))"

subsection \<open>Configuration, options, cleaning\<close>

definition EPISODE_GAP_MINUTES :: int where "EPISODE_GAP_MINUTES = 30"
definition DEFAULT_MAX_FINGERPRINT_PEERS :: nat where "DEFAULT_MAX_FINGERPRINT_PEERS = 64"

record 'f ingest_config =
  ig_wing_rules :: "rule list"
  ig_hall_rules :: "rule list"
  ig_signal_threshold :: 'f
  ig_max_peers :: "nat option"
  ig_fingerprints :: bool

text \<open>The rules are those of the caller: the default wing rules are empty, the default hall rules are regular expressions.\<close>

definition default_ingest :: "'f rank_env \<Rightarrow> rule list \<Rightarrow> 'f ingest_config" where
  "default_ingest R hall_rules =
     \<lparr>ig_wing_rules = [], ig_hall_rules = hall_rules, ig_signal_threshold = rk_lit R (1 / 2),
      ig_max_peers = Some DEFAULT_MAX_FINGERPRINT_PEERS, ig_fingerprints = True\<rparr>"

record 'f ingest_opts =
  io_source :: "string option"
  io_device_id :: "byte list option"
  io_confidence :: "'f option"
  io_created_at :: "string option"
  io_episode_id :: "string option"
  io_compaction_tier :: "compaction_tier option"
  io_wing :: "string option"
  io_hall :: "string option"

definition no_opts :: "'f ingest_opts" where
  "no_opts = \<lparr>io_source = None, io_device_id = None, io_confidence = None, io_created_at = None, io_episode_id = None,
     io_compaction_tier = None, io_wing = None, io_hall = None\<rparr>"

definition str_find :: "string \<Rightarrow> string \<Rightarrow> nat option" where
  "str_find s p = (case filter (\<lambda>i. take (length p) (drop i s) = p) [0..<Suc (length s)] of [] \<Rightarrow> None | i # is \<Rightarrow> Some i)"

text \<open>Each pass drops at least the colon and the blank, since trimming never lengthens: the length of the text is fuel enough.\<close>

fun strip_context :: "(string \<Rightarrow> string) \<Rightarrow> nat \<Rightarrow> string \<Rightarrow> string" where
  "strip_context trim 0 s = s"
| "strip_context trim (Suc n) s =
     (if starts_with ''[Memory context]'' s
      then (case str_find s '': '' of None \<Rightarrow> s | Some i \<Rightarrow> strip_context trim n (trim (drop (i + 2) s)))
      else s)"

definition clean_memory_context_prefixes :: "(string \<Rightarrow> string) \<Rightarrow> string \<Rightarrow> string" where
  "clean_memory_context_prefixes trim content =
     (let cleaned = strip_context trim (length content) (trim content)
      in if length cleaned < 20 then content else cleaned)"

text \<open>\<open>chars().take(n).collect()\<close> on UTF-8: bytes 0x80 to 0xBF continue a character.\<close>

fun take_chars :: "nat \<Rightarrow> string \<Rightarrow> string" where
  "take_chars n [] = []"
| "take_chars n (c # s) =
     (if of_char c div 64 = (2 :: nat) then c # take_chars n s
      else case n of 0 \<Rightarrow> [] | Suc m \<Rightarrow> c # take_chars m s)"

subsection \<open>Episodes\<close>

definition touch_episode :: "'f rank_env \<Rightarrow> string \<Rightarrow> 'f \<Rightarrow> string \<Rightarrow> episode_row \<Rightarrow> episode_row" where
  "touch_episode R now_str signal content ep =
     ep\<lparr>ep_memory_count := ep_memory_count ep + 1, ep_ended_at := now_str,
        ep_summary_preview :=
          (if rk_less R (rk_lit R (1 / 2)) signal
           then (case ep_summary_preview ep of
                   Some prev \<Rightarrow>
                     if length prev < 10 \<or> rk_less R (rk_lit R (8 / 10)) signal then Some (take_chars 200 content) else Some prev
                 | None \<Rightarrow> None)
           else ep_summary_preview ep)\<rparr>"

definition new_episode :: "string \<Rightarrow> string \<Rightarrow> string \<Rightarrow> string \<Rightarrow> episode_row" where
  "new_episode ep now_str wing content =
     \<lparr>ep_id = ep, ep_started_at = now_str, ep_ended_at = now_str, ep_memory_count = 1, ep_wing = wing,
      ep_summary_preview = Some (take_chars 200 content)\<rparr>"

definition resolve_episode ::
    "('f, 'g) ingest_env \<Rightarrow> int \<Rightarrow> string \<Rightarrow> string \<Rightarrow> string \<Rightarrow> 'f \<Rightarrow> string option \<Rightarrow> 'f db \<Rightarrow> 'f db \<times> string" where
  "resolve_episode E now i wing content signal given d =
     (let now_str = ie_stamp E now; R = ie_rank E
      in case given of
           Some ep \<Rightarrow>
             (case find_recent_episode wing ''1970-01-01 00:00:00'' d of
                Some e \<Rightarrow>
                  if ep_id e = ep then (write_episode (touch_episode R now_str signal content e) d, ep)
                  else (write_episode (new_episode ep now_str wing content) d, ep)
              | None \<Rightarrow> (write_episode (new_episode ep now_str wing content) d, ep))
         | None \<Rightarrow>
             (case find_recent_episode wing (ie_stamp E (now - EPISODE_GAP_MINUTES * MINUTE)) d of
                Some e \<Rightarrow> (write_episode (touch_episode R now_str signal content e) d, ep_id e)
              | None \<Rightarrow> (write_episode (new_episode (''ep-'' @ i) now_str wing content) d, ''ep-'' @ i)))"

subsection \<open>Constellation fingerprints\<close>

definition make_fp_id :: "'f db_env \<Rightarrow> string \<Rightarrow> string \<Rightarrow> string" where
  "make_fp_id D a b =
     (let (first, second) = (if a \<le> b then (a, b) else (b, a)) in dv_sha16 D (''fp|'' @ first @ ''|'' @ second))"

definition fingerprint_of :: "('f, 'g) ingest_env \<Rightarrow> 'f memory \<Rightarrow> 'f memory \<Rightarrow> fingerprint" where
  "fingerprint_of E m peer =
     (let wing = (case me_wing m of Some w \<Rightarrow> w | None \<Rightarrow> ''general'');
          new_hall = (case me_hall m of Some h \<Rightarrow> h | None \<Rightarrow> ''none'');
          peer_hall = (case me_hall peer of Some h \<Rightarrow> h | None \<Rightarrow> ''none'');
          bucket = (case (Option.bind (me_created_at m) (parse_ts (ie_clock E)), Option.bind (me_created_at peer) (parse_ts (ie_clock E))) of
                      (Some x, Some y) \<Rightarrow> from_delta_secs (ie_clock E) (ck_sub (ie_clock E) x y)
                    | _ \<Rightarrow> Older)
      in \<lparr>fp_id = make_fp_id (ie_db E) (me_id peer) (me_id m),
          fp_hash = make_fingerprint_hash (ie_db E) peer_hall new_hall wing bucket,
          fp_anchor_memory_id = me_id peer, fp_target_memory_id = me_id m, fp_wing = wing, fp_anchor_hall = peer_hall,
          fp_target_hall = new_hall, fp_time_delta_bucket = bucket_as_str bucket\<rparr>)"

definition generate_fingerprints :: "('f, 'g) ingest_env \<Rightarrow> 'f ingest_config \<Rightarrow> 'f memory \<Rightarrow> 'f db \<Rightarrow> fingerprint list" where
  "generate_fingerprints E cfg m d =
     (if \<not> ig_fingerprints cfg then []
      else
        let wing = (case me_wing m of Some w \<Rightarrow> w | None \<Rightarrow> ''general'');
            peers = (case ig_max_peers cfg of
                       Some cap \<Rightarrow> list_wing_memories_capped (ie_db E) wing (ig_signal_threshold cfg) (cap + 1) d
                     | None \<Rightarrow> list_wing_memories (ie_db E) wing (ig_signal_threshold cfg) d);
            fps = map (fingerprint_of E m) (filter (\<lambda>p. me_id p \<noteq> me_id m) peers)
        in case ig_max_peers cfg of Some cap \<Rightarrow> take cap fps | None \<Rightarrow> fps)"

subsection \<open>The pipeline\<close>

definition prepare_ingest ::
    "('f, 'g) ingest_env \<Rightarrow> 'f ingest_config \<Rightarrow> int \<Rightarrow> string \<Rightarrow> string \<Rightarrow> string \<Rightarrow> string \<Rightarrow> string \<Rightarrow> 'f ingest_opts \<Rightarrow> 'f db \<Rightarrow>
      'f db \<times> 'f memory \<times> fingerprint list" where
  "prepare_ingest E cfg now i key raw category visibility opts d =
     (let R = ie_rank E;
          content = clean_memory_context_prefixes (ie_trim E) raw;
          wing = (case io_wing opts of Some w \<Rightarrow> w | None \<Rightarrow> classify_wing R key content category (ig_wing_rules cfg));
          hall = (case io_hall opts of
                    Some h \<Rightarrow> if ie_trim E h \<noteq> [] then h else classify_hall R content (ig_hall_rules cfg)
                  | None \<Rightarrow> classify_hall R content (ig_hall_rules cfg));
          signal = score_memory R content hall;
          (d1, ep) = resolve_episode E now i wing content signal (io_episode_id opts) d;
          m = \<lparr>me_id = i, me_key = key, me_content = content, me_wing = Some wing, me_hall = Some hall, me_signal_score = signal,
               me_visibility = visibility, me_source = io_source opts, me_device_id = io_device_id opts,
               me_confidence = (case io_confidence opts of Some c \<Rightarrow> c | None \<Rightarrow> rk_lit R 1), me_created_at = io_created_at opts,
               me_last_reinforced_at = None, me_episode_id = Some ep, me_compaction_tier = io_compaction_tier opts,
               me_declarative_density = None, me_description = None, me_description_generated_at = None,
               me_content_hash = None, me_source_brain_id = None, me_signature = None\<rparr>
      in (d1, m, if rk_leq R (ig_signal_threshold cfg) signal then generate_fingerprints E cfg m d1 else []))"

record 'f ingest_result =
  ir_memory :: "'f memory"
  ir_fingerprints :: "fingerprint list"
  ir_outcome :: write_outcome

definition ingest_with ::
    "('f, 'g) ingest_env \<Rightarrow> 'f ingest_config \<Rightarrow> int \<Rightarrow> string \<Rightarrow> string \<Rightarrow> string \<Rightarrow> string \<Rightarrow> string \<Rightarrow> 'f ingest_opts \<Rightarrow> 'f db \<Rightarrow>
      'f db \<times> (db_error + 'f ingest_result)" where
  "ingest_with E cfg now i key content category visibility opts d =
     (let (d1, m, fps) = prepare_ingest E cfg now i key content category visibility opts d;
          (d2, res) = write_memory (ie_db E) (ie_stamp E now) m fps d1
      in (d2, map_sum (\<lambda>e. e) (\<lambda>outcome. \<lparr>ir_memory = m, ir_fingerprints = fps, ir_outcome = outcome\<rparr>) res))"

definition ingest ::
    "('f, 'g) ingest_env \<Rightarrow> 'f ingest_config \<Rightarrow> int \<Rightarrow> string \<Rightarrow> string \<Rightarrow> string \<Rightarrow> string \<Rightarrow> string \<Rightarrow> 'f db \<Rightarrow>
      'f db \<times> (db_error + 'f ingest_result)" where
  "ingest E cfg now i key content category visibility d = ingest_with E cfg now i key content category visibility no_opts d"

record 'f ingest_item =
  it_id :: string
  it_key :: string
  it_content :: string
  it_category :: string
  it_visibility :: string
  it_opts :: "'f ingest_opts"

text \<open>The items are prepared one after the other at their own instants; the rows are written in one transaction.\<close>

fun prepare_items ::
    "('f, 'g) ingest_env \<Rightarrow> 'f ingest_config \<Rightarrow> (int \<times> 'f ingest_item) list \<Rightarrow> 'f db \<Rightarrow> 'f db \<times> ('f memory \<times> fingerprint list) list" where
  "prepare_items E cfg [] d = (d, [])"
| "prepare_items E cfg ((now, it) # items) d =
     (let (d1, m, fps) = prepare_ingest E cfg now (it_id it) (it_key it) (it_content it) (it_category it) (it_visibility it) (it_opts it) d;
          (d2, rest) = prepare_items E cfg items d1
      in (d2, (m, fps) # rest))"

definition ingest_batch_with ::
    "('f, 'g) ingest_env \<Rightarrow> 'f ingest_config \<Rightarrow> string \<Rightarrow> (int \<times> 'f ingest_item) list \<Rightarrow> 'f db \<Rightarrow> 'f db \<times> (db_error + 'f ingest_result list)" where
  "ingest_batch_with E cfg written_at items d =
     (let (d1, prepared) = prepare_items E cfg items d;
          (d2, res) = write_batch (ie_db E) written_at prepared d1
      in (d2, map_sum (\<lambda>e. e)
            (\<lambda>outcomes. map (\<lambda>((m, fps), outcome). \<lparr>ir_memory = m, ir_fingerprints = fps, ir_outcome = outcome\<rparr>) (zip prepared outcomes)) res))"

subsection \<open>What preparing changes and returns\<close>

lemma resolve_frame: "\<exists>es. fst (resolve_episode E now i wing content signal given d) = d\<lparr>db_episodes := es\<rparr>"
  by (auto simp: resolve_episode_def Let_def write_episode_def split: option.split)

lemma prepare_frame: "\<exists>es. fst (prepare_ingest E cfg now i key raw category visibility opts d) = d\<lparr>db_episodes := es\<rparr>"
  unfolding prepare_ingest_def Let_def case_prod_beta fst_conv by (rule resolve_frame)

lemma prepare_memory:
  fixes E cfg now i key raw category visibility opts d
  defines "m \<equiv> fst (snd (prepare_ingest E cfg now i key raw category visibility opts d))"
  shows "me_id m = i" "me_key m = key" "me_content m = clean_memory_context_prefixes (ie_trim E) raw" "me_visibility m = visibility"
  by (simp_all add: m_def prepare_ingest_def Let_def case_prod_beta)

lemma episode_ids_written [simp]: "ep_id ` set (db_episodes (write_episode x d)) = insert (ep_id x) (ep_id ` set (db_episodes d))"
  by (simp add: write_episode_def keys_upsert)

lemma written_over:
  assumes "x \<in> set (db_episodes d)" and "ep_id ep = ep_id x"
  shows "\<exists>y \<in> set (db_episodes (write_episode ep d)). ep_id y = ep_id x \<and> ep_started_at y = ep_started_at x \<and> ep_wing y = ep_wing x \<and>
    ep_memory_count y = ep_memory_count ep"
proof
  let ?y = "x\<lparr>ep_ended_at := ep_ended_at ep, ep_memory_count := ep_memory_count ep, ep_summary_preview := ep_summary_preview ep\<rparr>"
  show "?y \<in> set (db_episodes (write_episode ep d))"
    using assms by (force simp: write_episode_def upsert_def update_where_def)
qed simp

lemma written_count: "\<exists>y \<in> set (db_episodes (write_episode ep d)). ep_id y = ep_id ep \<and> ep_memory_count y = ep_memory_count ep"
proof (cases "\<exists>x \<in> set (db_episodes d). ep_id ep = ep_id x")
  case True
  then show ?thesis using written_over by fastforce
next
  case False
  then have "db_episodes (write_episode ep d) = db_episodes d @ [ep]" by (auto simp: write_episode_def upsert_def)
  then show ?thesis by simp
qed

lemma episode_ids [simp]: "ep_id (touch_episode R now signal content e) = ep_id e" "ep_id (new_episode ep now wing content) = ep"
  by (simp_all add: touch_episode_def new_episode_def)

lemma resolved_stored: "snd (resolve_episode E now i wing content signal given d) \<in> ep_id ` set (db_episodes (fst (resolve_episode E now i wing content signal given d)))"
  by (simp add: resolve_episode_def Let_def split: option.split)

lemma prepare_episode:
  fixes E cfg now i key raw category visibility opts d
  defines "p \<equiv> prepare_ingest E cfg now i key raw category visibility opts d"
  shows "\<exists>e \<in> set (db_episodes (fst p)). Some (ep_id e) = me_episode_id (fst (snd p))"
proof -
  have "\<exists>q. snd q \<in> ep_id ` set (db_episodes (fst q)) \<and> fst p = fst q \<and> me_episode_id (fst (snd p)) = Some (snd q)"
    unfolding p_def prepare_ingest_def Let_def case_prod_beta fst_conv snd_conv memory.simps
    by (intro exI conjI, rule resolved_stored, rule refl, rule refl)
  then show ?thesis by auto
qed

lemma prepare_fingerprints:
  fixes E cfg now i key raw category visibility opts d
  defines "p \<equiv> prepare_ingest E cfg now i key raw category visibility opts d"
  shows "snd (snd p) = [] \<or> snd (snd p) = generate_fingerprints E cfg (fst (snd p)) (fst p)"
  by (simp add: p_def prepare_ingest_def Let_def case_prod_beta)

lemma wing_peers_stored:
  fixes D :: "'f db_env" and w :: string and t :: 'f and d :: "'f db"
  defines "peer \<equiv> \<lambda>p. \<exists>r \<in> set (db_memories d). row_id r = me_id p \<and> row_wing r = Some w \<and> dv_le D t (row_signal_score r)"
  shows "p \<in> set (list_wing_memories D w t d) \<Longrightarrow> peer p" "p \<in> set (list_wing_memories_capped D w t n d) \<Longrightarrow> peer p"
  by (auto simp: list_wing_memories_def list_wing_memories_capped_def memory_from_row_def peer_def dest!: in_set_takeD)

lemma generated_fingerprint:
  assumes "f \<in> set (generate_fingerprints E cfg m d)"
  shows "fp_target_memory_id f = me_id m \<and> (\<exists>r \<in> set (db_memories d). row_id r = fp_anchor_memory_id f \<and> row_id r \<noteq> me_id m \<and>
    row_wing r = Some (case me_wing m of Some w \<Rightarrow> w | None \<Rightarrow> ''general'') \<and> dv_le (ie_db E) (ig_signal_threshold cfg) (row_signal_score r))"
proof -
  define w where "w = (case me_wing m of Some w \<Rightarrow> w | None \<Rightarrow> ''general'')"
  obtain p where p: "f = fingerprint_of E m p" "me_id p \<noteq> me_id m"
    "p \<in> set (list_wing_memories (ie_db E) w (ig_signal_threshold cfg) d) \<or>
     (\<exists>n. p \<in> set (list_wing_memories_capped (ie_db E) w (ig_signal_threshold cfg) n d))"
    using assms unfolding generate_fingerprints_def w_def[symmetric] Let_def
    by (auto split: if_splits option.splits dest!: in_set_takeD) blast
  from p(3) obtain r where "r \<in> set (db_memories d)" "row_id r = me_id p" "row_wing r = Some w"
    "dv_le (ie_db E) (ig_signal_threshold cfg) (row_signal_score r)"
    by (elim disjE exE) (auto dest: wing_peers_stored)
  with p(1,2) show ?thesis unfolding w_def[symmetric] by (auto simp: fingerprint_of_def Let_def)
qed

lemma generated_peer: "f \<in> set (generate_fingerprints E cfg m d) \<Longrightarrow> \<exists>p. f = fingerprint_of E m p"
  by (auto simp: generate_fingerprints_def Let_def split: if_splits option.splits dest!: in_set_takeD)

lemma generated_length: "ig_max_peers cfg = Some cap \<Longrightarrow> length (generate_fingerprints E cfg m d) \<le> cap"
  by (simp add: generate_fingerprints_def Let_def)

lemma write_episode_ok: "store_ok d \<Longrightarrow> store_ok (write_episode ep d)"
  using distinct_upsert[of ep_id ep "\<lambda>r. r\<lparr>ep_ended_at := ep_ended_at ep, ep_memory_count := ep_memory_count ep, ep_summary_preview := ep_summary_preview ep\<rparr>" "db_episodes d"]
  by (simp add: write_episode_def store_ok_def ids_def keys_def Store_Types.occurrences_def keyed_def)

lemma prepare_ok: "store_ok d \<Longrightarrow> store_ok (fst (prepare_ingest E cfg now i key content category visibility opts d))"
  by (simp add: prepare_ingest_def resolve_episode_def Let_def case_prod_beta write_episode_ok split: option.split)

lemma ingest_store_ok: "store_ok d \<Longrightarrow> store_ok (fst (ingest_with E cfg now i key content category visibility opts d))"
  unfolding ingest_with_def case_prod_beta Let_def fst_conv by (intro ok_write prepare_ok)

lemma fingerprints_fit:
  "\<forall>f \<in> set fps. has_memory d (fp_anchor_memory_id f) \<and> has_memory d (fp_target_memory_id f) \<Longrightarrow>
   \<exists>d1. insert_fingerprints fps d = Inr d1 \<and> db_memories d1 = db_memories d \<and> db_episodes d1 = db_episodes d"
proof (induction fps arbitrary: d)
  case (Cons f fps)
  obtain d2 where "insert_fingerprint f d = Inr d2" "db_memories d2 = db_memories d" "db_episodes d2 = db_episodes d"
    using Cons.prems by (cases "\<exists>x \<in> set (db_fingerprints d). fp_id x = fp_id f") (auto simp: insert_fingerprint_def)
  moreover from this(2) have "\<forall>f \<in> set fps. has_memory d2 (fp_anchor_memory_id f) \<and> has_memory d2 (fp_target_memory_id f)"
    using Cons.prems by (simp add: has_memory_def)
  ultimately show ?case using Cons.IH[of d2] by auto
qed simp

lemma select_first_map: "(\<And>x. P (g x) = P x) \<Longrightarrow> select_first P (map g t) = map_option g (select_first P t)"
  by (induction t) (simp_all add: select_first_def)

lemma select_first_end: "select_first P t = None \<Longrightarrow> P r \<Longrightarrow> select_first P (t @ [r]) = Some r"
  by (induction t) (simp_all add: select_first_def split: if_splits)

lemma key_after_update:
  assumes "\<And>r. row_key (g r) = row_key r"
  shows "find_key (update_memories P g d) k = map_option (\<lambda>r. if P r then g r else r) (find_key d k)"
  unfolding find_key_def update_memories_def update_where_def by (simp add: select_first_map assms)

lemma write_frames [simp]:
  "find_key (wing_cache_pop_opt w d) k = find_key d k" "db_episodes (wing_cache_pop_opt w d) = db_episodes d"
  "db_episodes (update_memories P g d) = db_episodes d"
  by (simp_all add: find_key_def wing_cache_pop_opt_def wing_cache_pop_def update_memories_def split: option.split)

definition effective_hash :: "'f db_env \<Rightarrow> 'f memory_row \<Rightarrow> string" where
  "effective_hash D r = (case row_content_hash r of Some h \<Rightarrow> h | None \<Rightarrow> dv_hash D (row_content r))"

lemma inserted_row:
  assumes "\<not> has_memory d (me_id m)" and "\<not> has_key d (me_key m)"
  shows "\<exists>d1 r. insert_new_memory m now h d = Inr d1 \<and> db_memories d1 = db_memories d @ [r] \<and> db_episodes d1 = db_episodes d \<and>
    row_id r = me_id m \<and> row_key r = me_key m \<and> row_content r = me_content m \<and> row_content_hash r = Some h \<and>
    row_episode_id r = me_episode_id m"
proof -
  have old: "update_where (\<lambda>r. row_id r = me_id m) g (db_memories d @ [r]) = db_memories d @ [g r]" if "row_id r = me_id m" for g r
    using assms(1) that by (auto simp: update_where_def has_memory_def intro!: map_idI)
  show ?thesis
    using assms by (simp add: insert_new_memory_def Let_def update_memories_def old new_row_def split: option.split)
qed

definition row_labels :: "'f memory_row \<Rightarrow> string option \<times> string option \<times> 'f \<times> string" where
  "row_labels r = (row_wing r, row_hall r, row_signal_score r, row_visibility r)"

text \<open>
  What a write makes of the row of its key: a new one gets the episode and the content of the memory, an old one keeps
  its episode, and its content unless the hash differs.
\<close>

definition row_fate :: "'f db_env \<Rightarrow> 'f memory \<Rightarrow> 'f memory_row option \<Rightarrow> 'f memory_row \<Rightarrow> bool" where
  "row_fate D m old r =
     (case old of
        None \<Rightarrow> row_episode_id r = me_episode_id m \<and> row_content r = me_content m
      | Some q \<Rightarrow> row_episode_id r = row_episode_id q \<and>
          row_content r = (if effective_hash D q = dv_hash D (me_content m) then row_content q else me_content m))"

text \<open>
  With ids that are a function of the key, a write succeeds and does to the memories what the hashes ask for.
\<close>

lemma write_outcome:
  fixes D :: "'f db_env"
  assumes ids: "\<forall>r \<in> set (db_memories d). row_key r = me_key m \<longleftrightarrow> row_id r = me_id m"
    and fps: "\<forall>f \<in> set fps. fp_target_memory_id f = me_id m \<and> has_memory d (fp_anchor_memory_id f)"
  defines "h \<equiv> dv_hash D (me_content m)"
  shows "\<exists>d2 r. write_memory D now m fps d =
      (d2, Inr (case find_key d (me_key m) of None \<Rightarrow> Inserted | Some q \<Rightarrow> if effective_hash D q = h then No_Op else Content_Updated)) \<and>
    find_key d2 (me_key m) = Some r \<and> row_id r = me_id m \<and> effective_hash D r = h \<and> db_episodes d2 = db_episodes d \<and>
    (\<forall>q. find_key d (me_key m) = Some q \<longrightarrow> row_labels r = row_labels q) \<and> row_fate D m (find_key d (me_key m)) r"
proof (cases "find_key d (me_key m)")
  case None
  then have new: "\<not> has_key d (me_key m)" "\<not> has_memory d (me_id m)"
    using ids by (auto simp: find_key_def select_first_None has_key_def has_memory_def)
  then obtain d1 r where d1: "insert_new_memory m now h d = Inr d1" "db_memories d1 = db_memories d @ [r]" "db_episodes d1 = db_episodes d"
    and r: "row_id r = me_id m" "row_key r = me_key m" "row_content_hash r = Some h"
      "row_episode_id r = me_episode_id m" "row_content r = me_content m"
    using inserted_row[of d m now h] by auto
  obtain d2 where d2: "insert_fingerprints fps d1 = Inr d2" "db_memories d2 = db_memories d1" "db_episodes d2 = db_episodes d1"
    using fingerprints_fit[of fps d1] fps d1(2) r(1) by (auto simp: has_memory_def)
  have "find_key d1 (me_key m) = Some r" using None r(2) by (simp add: find_key_def d1(2) select_first_end)
  then show ?thesis
    using None d1 d2 r by (simp add: write_memory_def write_memory_in_tx_def Let_def h_def[symmetric] find_key_def effective_hash_def
        row_fate_def wing_cache_pop_opt_def wing_cache_pop_def split: option.split)
next
  case (Some q)
  then have q: "row_key q = me_key m" "row_id q = me_id m" "q \<in> set (db_memories d)"
    using ids by (auto simp: find_key_def dest!: select_first_Some)
  let ?u = "update_memories (\<lambda>r. row_key r = me_key m) (\<lambda>r. r\<lparr>row_content := me_content m, row_content_hash := Some h, row_updated_at := now\<rparr>) d"
  have stored: "has_memory (delete_fingerprints_of (row_id q) ?u) j = has_memory d j" for j
  proof -
    have "map row_id (db_memories (delete_fingerprints_of (row_id q) ?u)) = map row_id (db_memories d)"
      by (simp add: delete_fingerprints_of_def update_memories_def update_where_def)
    then have "row_id ` set (db_memories (delete_fingerprints_of (row_id q) ?u)) = row_id ` set (db_memories d)" by (metis set_map)
    then show ?thesis by (simp add: has_memory_ids ids_def)
  qed
  obtain d2 where d2: "insert_fingerprints fps (delete_fingerprints_of (row_id q) ?u) = Inr d2"
    "db_memories d2 = db_memories ?u" "db_episodes d2 = db_episodes d"
    using fingerprints_fit[of fps "delete_fingerprints_of (row_id q) ?u"] fps q unfolding stored
    by (auto simp: has_memory_def delete_fingerprints_of_def update_memories_def)
  have "find_key d2 (me_key m) = find_key ?u (me_key m)" by (simp only: find_key_def d2(2))
  then have new: "find_key d2 (me_key m) = Some (q\<lparr>row_content := me_content m, row_content_hash := Some h, row_updated_at := now\<rparr>)"
    using Some q(1) by (simp add: key_after_update)
  show ?thesis
  proof (cases "effective_hash D q = h")
    case True
    then show ?thesis using Some q(2)
      by (simp add: write_memory_def write_memory_in_tx_def Let_def h_def[symmetric] effective_hash_def key_after_update row_labels_def
          row_fate_def split: option.splits)
  next
    case False
    then show ?thesis using Some q(2) d2 new
      by (simp add: write_memory_def write_memory_in_tx_def Let_def h_def[symmetric] effective_hash_def row_labels_def row_fate_def)
  qed
qed

lemma ingest_steps:
  fixes E :: "('f, 'g) ingest_env" and content category visibility :: string and now :: int and cfg :: "'f ingest_config" and opts :: "'f ingest_opts"
  assumes "\<forall>r \<in> set (db_memories d). row_key r = key \<longleftrightarrow> row_id r = i"
  defines "h \<equiv> dv_hash (ie_db E) (clean_memory_context_prefixes (ie_trim E) content)"
    and "p \<equiv> prepare_ingest E cfg now i key content category visibility opts d"
  shows "\<exists>d2 res r. ingest_with E cfg now i key content category visibility opts d = (d2, Inr res) \<and>
    ir_memory res = fst (snd p) \<and>
    ir_outcome res = (case find_key d key of None \<Rightarrow> Inserted | Some q \<Rightarrow> if effective_hash (ie_db E) q = h then No_Op else Content_Updated) \<and>
    find_key d2 key = Some r \<and> row_id r = i \<and> effective_hash (ie_db E) r = h \<and> db_episodes d2 = db_episodes (fst p) \<and>
    (\<forall>q. find_key d key = Some q \<longrightarrow> row_labels r = row_labels q) \<and> row_fate (ie_db E) (fst (snd p)) (find_key d key) r"
proof -
  obtain es where es: "fst p = d\<lparr>db_episodes := es\<rparr>" using prepare_frame unfolding p_def by blast
  note m = prepare_memory[of E cfg now i key content category visibility opts d, folded p_def]
  have has: "has_memory (fst p) j = has_memory d j" and find: "find_key (fst p) k = find_key d k" for j k
    by (simp_all add: es has_memory_def find_key_def)
  have "\<forall>r \<in> set (db_memories (fst p)). row_key r = me_key (fst (snd p)) \<longleftrightarrow> row_id r = me_id (fst (snd p))"
    using assms(1) by (simp add: es m)
  moreover have "\<forall>f \<in> set (snd (snd p)). fp_target_memory_id f = me_id (fst (snd p)) \<and> has_memory (fst p) (fp_anchor_memory_id f)"
    using prepare_fingerprints[of E cfg now i key content category visibility opts d] generated_fingerprint unfolding p_def[symmetric] has_memory_def by fastforce
  ultimately show ?thesis
    using write_outcome[of "fst p" "fst (snd p)" "snd (snd p)" "ie_db E" "ie_stamp E now"] unfolding m find h_def
    by (auto simp: ingest_with_def case_prod_beta p_def[symmetric])
qed

text \<open>
  C9: when the id passed for the key is the id of the row of that key and of no other (no collision of ids, which the
  brain hashes from the keys), an ingest never fails, whatever fingerprints it made. Under a new key it inserts a row of
  that id with the cleaned content, whose episode is in the episode table. Under an existing key the row keeps its id
  and its own episode, and gets the cleaned content when its hash differs (content updated), otherwise keeps its content
  (no-op). In each case the row then has the hash of the cleaned content; the episode that the ingest resolved
  for the memory is in the episode table also when the row does not take it.
\<close>

theorem ingest_succeeds:
  fixes E :: "('f, 'g) ingest_env" and content :: string
  assumes "\<forall>r \<in> set (db_memories d). row_key r = key \<longleftrightarrow> row_id r = i"
  defines "cleaned \<equiv> clean_memory_context_prefixes (ie_trim E) content"
  defines "h \<equiv> dv_hash (ie_db E) cleaned"
  shows "\<exists>d2 res r. ingest_with E cfg now i key content category visibility opts d = (d2, Inr res) \<and>
    find_key d2 key = Some r \<and> row_id r = i \<and> effective_hash (ie_db E) r = h \<and>
    (\<exists>e \<in> set (db_episodes d2). me_episode_id (ir_memory res) = Some (ep_id e)) \<and>
    (case find_key d key of
       None \<Rightarrow> ir_outcome res = Inserted \<and> row_content r = cleaned \<and>
         (\<exists>e \<in> set (db_episodes d2). row_episode_id r = Some (ep_id e))
     | Some q \<Rightarrow> row_episode_id r = row_episode_id q \<and>
         (if effective_hash (ie_db E) q = h then ir_outcome res = No_Op \<and> row_content r = row_content q
          else ir_outcome res = Content_Updated \<and> row_content r = cleaned))"
proof -
  define p where "p = prepare_ingest E cfg now i key content category visibility opts d"
  obtain d2 res r where run: "ingest_with E cfg now i key content category visibility opts d = (d2, Inr res)"
    "ir_memory res = fst (snd p)"
    "ir_outcome res = (case find_key d key of None \<Rightarrow> Inserted | Some q \<Rightarrow> if effective_hash (ie_db E) q = h then No_Op else Content_Updated)"
    "find_key d2 key = Some r" "row_id r = i" "effective_hash (ie_db E) r = h" "db_episodes d2 = db_episodes (fst p)"
    and fate: "row_fate (ie_db E) (fst (snd p)) (find_key d key) r"
    using ingest_steps[OF assms(1), of E cfg now content category visibility opts]
    unfolding p_def[symmetric] h_def[symmetric] cleaned_def[symmetric] by blast
  have m: "me_content (fst (snd p)) = cleaned" unfolding p_def cleaned_def by (rule prepare_memory)
  have ep: "\<exists>e \<in> set (db_episodes d2). me_episode_id (fst (snd p)) = Some (ep_id e)"
    using prepare_episode[of E cfg now i key content category visibility opts d] unfolding p_def[symmetric] run(7) by (metis (lifting))
  note fate = fate[unfolded row_fate_def m h_def[symmetric]]
  have "(case find_key d key of
       None \<Rightarrow> ir_outcome res = Inserted \<and> row_content r = cleaned \<and>
         (\<exists>e \<in> set (db_episodes d2). row_episode_id r = Some (ep_id e))
     | Some q \<Rightarrow> row_episode_id r = row_episode_id q \<and>
         (if effective_hash (ie_db E) q = h then ir_outcome res = No_Op \<and> row_content r = row_content q
          else ir_outcome res = Content_Updated \<and> row_content r = cleaned))"
    using fate run(3) ep by (auto split: option.split intro: sym)
  then show ?thesis using run(1,2,4-6) ep by auto
qed

text \<open>
  under an existing key, an ingest leaves wing, hall, signal score and visibility of the stored row as they are,
  also a narrower visibility or another wing that the caller asks for, and its result still reports those.
\<close>

theorem update_keeps_labels:
  fixes E :: "('f, 'g) ingest_env"
  assumes "\<forall>r \<in> set (db_memories d). row_key r = key \<longleftrightarrow> row_id r = i" and "find_key d key = Some q" and "io_wing opts = Some w"
  shows "\<exists>d2 res r. ingest_with E cfg now i key content category visibility opts d = (d2, Inr res) \<and>
    me_visibility (ir_memory res) = visibility \<and> me_wing (ir_memory res) = Some w \<and> find_key d2 key = Some r \<and>
    row_wing r = row_wing q \<and> row_hall r = row_hall q \<and> row_signal_score r = row_signal_score q \<and> row_visibility r = row_visibility q"
proof -
  have "me_wing (fst (snd (prepare_ingest E cfg now i key content category visibility opts d))) = Some w"
    using assms(3) by (simp add: prepare_ingest_def Let_def case_prod_beta)
  then show ?thesis
    using ingest_steps[OF assms(1), of E cfg now content category visibility opts] assms(2) prepare_memory(4)[of E cfg now i key content category visibility opts d]
    by (auto simp: row_labels_def)
qed

lemma noop_length: "write_memory D now m fps d = (d2, Inr No_Op) \<Longrightarrow> length (db_memories d2) = length (db_memories d)"
  by (auto simp: write_memory_def write_memory_in_tx_def Let_def update_memories_def update_where_def
      split: option.splits sum.splits prod.splits if_splits)

text \<open>
  Writing the same content again is reported as a no-op, and yet the episode counts one more memory.
\<close>

theorem noop_write_counts_episode:
  fixes E :: "('f, 'g) ingest_env"
  assumes "\<forall>r \<in> set (db_memories d). row_key r = key \<longleftrightarrow> row_id r = i" and "find_key d key = Some q"
    and "effective_hash (ie_db E) q = dv_hash (ie_db E) (clean_memory_context_prefixes (ie_trim E) content)"
    and "io_wing opts = Some w" and "io_episode_id opts = None"
    and "find_recent_episode w (ie_stamp E (now - EPISODE_GAP_MINUTES * MINUTE)) d = Some e"
  shows "\<exists>d2 res. ingest_with E cfg now i key content category visibility opts d = (d2, Inr res) \<and> ir_outcome res = No_Op \<and>
    length (db_memories d2) = length (db_memories d) \<and>
    (\<exists>y \<in> set (db_episodes d2). ep_id y = ep_id e \<and> ep_memory_count y = ep_memory_count e + 1)"
proof -
  define p where "p = prepare_ingest E cfg now i key content category visibility opts d"
  obtain d2 res where run: "ingest_with E cfg now i key content category visibility opts d = (d2, Inr res)" "ir_outcome res = No_Op"
    and es: "db_episodes d2 = db_episodes (fst p)"
    using ingest_steps[OF assms(1), of E cfg now content category visibility opts] assms(2,3) unfolding p_def by auto
  have "write_memory (ie_db E) (ie_stamp E now) (fst (snd p)) (snd (snd p)) (fst p) = (d2, Inr No_Op)"
    using run by (auto simp: ingest_with_def case_prod_beta p_def[symmetric] prod_eq_iff)
  from noop_length[OF this] have len: "length (db_memories d2) = length (db_memories d)"
    using prepare_frame[of E cfg now i key content category visibility opts d] by (auto simp: p_def)
  define touched where "touched = touch_episode (ie_rank E) (ie_stamp E now)
    (me_signal_score (fst (snd p))) (clean_memory_context_prefixes (ie_trim E) content) e"
  have "fst p = write_episode touched d"
    using assms(4-6) by (simp add: touched_def p_def prepare_ingest_def resolve_episode_def Let_def case_prod_beta)
  then have "\<exists>y \<in> set (db_episodes d2). ep_id y = ep_id touched \<and> ep_memory_count y = ep_memory_count touched"
    using written_count[of touched d] es by simp
  then show ?thesis using run len by (simp add: touched_def touch_episode_def)
qed

text \<open>
  C39: joining an existing episode by its id, when another episode of the wing ended later, starts its count again at one.
\<close>

theorem older_episode_reset:
  fixes E :: "('f, 'g) ingest_env"
  assumes "\<forall>r \<in> set (db_memories d). row_key r = key \<longleftrightarrow> row_id r = i"
    and "io_wing opts = Some w" and "io_episode_id opts = Some (ep_id x)" and "x \<in> set (db_episodes d)"
    and "find_recent_episode w ''1970-01-01 00:00:00'' d = Some e" and "ep_id e \<noteq> ep_id x"
  shows "\<exists>d2 res. ingest_with E cfg now i key content category visibility opts d = (d2, Inr res) \<and>
    (\<exists>y \<in> set (db_episodes d2). ep_id y = ep_id x \<and> ep_started_at y = ep_started_at x \<and> ep_wing y = ep_wing x \<and> ep_memory_count y = 1)"
proof -
  define p where "p = prepare_ingest E cfg now i key content category visibility opts d"
  obtain d2 res where run: "ingest_with E cfg now i key content category visibility opts d = (d2, Inr res)"
    and es: "db_episodes d2 = db_episodes (fst p)"
    using ingest_steps[OF assms(1), of E cfg now content category visibility opts] unfolding p_def by auto
  define fresh where "fresh = new_episode (ep_id x) (ie_stamp E now) w (clean_memory_context_prefixes (ie_trim E) content)"
  have "fst p = write_episode fresh d"
    using assms(2,3,5,6) by (simp add: fresh_def p_def prepare_ingest_def resolve_episode_def Let_def case_prod_beta)
  then have "\<exists>y \<in> set (db_episodes d2). ep_id y = ep_id x \<and> ep_started_at y = ep_started_at x \<and> ep_wing y = ep_wing x \<and>
      ep_memory_count y = ep_memory_count fresh"
    using written_over[OF assms(4), of fresh] es by (simp add: fresh_def)
  then show ?thesis using run by (simp add: fresh_def new_episode_def)
qed

text \<open>
  A memory gets at most as many fingerprints as the cap allows, each of them to another memory of its wing that
  is stored and reaches the signal threshold.
\<close>

theorem fingerprints_bounded:
  fixes E :: "('f, 'g) ingest_env"
  assumes "snd (ingest_with E cfg now i key content category visibility opts d) = Inr res" and "ig_max_peers cfg = Some cap"
  shows "length (ir_fingerprints res) \<le> cap \<and>
    (\<forall>f \<in> set (ir_fingerprints res). fp_target_memory_id f = i \<and>
      (\<exists>r \<in> set (db_memories d). row_id r = fp_anchor_memory_id f \<and> row_id r \<noteq> i \<and> row_wing r = me_wing (ir_memory res) \<and>
         dv_le (ie_db E) (ig_signal_threshold cfg) (row_signal_score r)))"
proof -
  define p where "p = prepare_ingest E cfg now i key content category visibility opts d"
  have res: "ir_memory res = fst (snd p)" "ir_fingerprints res = snd (snd p)"
    using assms(1) by (auto simp: ingest_with_def case_prod_beta p_def[symmetric])
  obtain w where w: "me_wing (fst (snd p)) = Some w" by (simp add: p_def prepare_ingest_def Let_def case_prod_beta)
  have id: "me_id (fst (snd p)) = i" unfolding p_def by (rule prepare_memory)
  have rows: "db_memories (fst p) = db_memories d" using prepare_frame[of E cfg now i key content category visibility opts d] by (auto simp: p_def)
  consider "snd (snd p) = []" | "snd (snd p) = generate_fingerprints E cfg (fst (snd p)) (fst p)"
    using prepare_fingerprints unfolding p_def by blast
  then show ?thesis
  proof cases
    case 2
    then show ?thesis using generated_length[OF assms(2)] generated_fingerprint[of _ E cfg "fst (snd p)" "fst p"] unfolding res w id rows by auto
  qed (simp add: res)
qed

text \<open>
  when the caller gives no creation time, as plain writes do not, every fingerprint of the memory carries the
  bucket \<open>older\<close>, even to a peer written a moment before.
\<close>

theorem plain_ingest_all_older:
  fixes E :: "('f, 'g) ingest_env"
  assumes "snd (ingest_with E cfg now i key content category visibility opts d) = Inr res" and "io_created_at opts = None"
    and "f \<in> set (ir_fingerprints res)"
  shows "fp_time_delta_bucket f = ''older''"
proof -
  define p where "p = prepare_ingest E cfg now i key content category visibility opts d"
  have "f \<in> set (snd (snd p))"
    using assms(1,3) by (auto simp: ingest_with_def case_prod_beta p_def[symmetric])
  moreover have "me_created_at (fst (snd p)) = None" using assms(2) by (simp add: p_def prepare_ingest_def Let_def case_prod_beta)
  ultimately show ?thesis
    using prepare_fingerprints[of E cfg now i key content category visibility opts d] generated_peer[of f E cfg "fst (snd p)" "fst p"]
    by (auto simp: p_def[symmetric] fingerprint_of_def Let_def)
qed

subsection \<open>Concrete ingests\<close>

definition toy_ingest :: "(rat, int) ingest_env" where
  "toy_ingest =
     \<lparr>ie_rank = toy_rank, ie_db = toy_rats,
      ie_clock = \<lparr>ck_abs = abs, ck_sub = (-), ck_less = (<), ck_secs = int, ck_sql_time = (\<lambda>s. None), ck_rfc3339 = (\<lambda>s. None)\<rparr>,
      ie_trim = (\<lambda>s. s), ie_stamp = (\<lambda>t. ''2026'')\<rparr>"

definition toy_shelf :: "rat db" where
  "toy_shelf = empty_db\<lparr>db_memories := [toy_row ''i'' ''k'' ''tea'' ''public''],
     db_episodes := [\<lparr>ep_id = ''a'', ep_started_at = ''2024'', ep_ended_at = ''2025'', ep_memory_count = 7, ep_wing = ''w'', ep_summary_preview = None\<rparr>,
       \<lparr>ep_id = ''b'', ep_started_at = ''2026'', ep_ended_at = ''2027'', ep_memory_count = 4, ep_wing = ''w'', ep_summary_preview = None\<rparr>]\<rparr>"

definition toy_ingest_config :: "rat ingest_config" where
  "toy_ingest_config = default_ingest toy_rank []"

lemma toy_shelf_ids: "\<forall>r \<in> set (db_memories toy_shelf). row_key r = ''k'' \<longleftrightarrow> row_id r = ''i''"
  by (simp add: toy_shelf_def toy_row_def)

lemma toy_shelf_row: "find_key toy_shelf ''k'' = Some (toy_row ''i'' ''k'' ''tea'' ''public'')"
  by (simp add: find_key_def select_first_def toy_shelf_def toy_row_def)

lemma toy_shelf_recent: "since = ''1970-01-01 00:00:00'' \<or> since = ''2026'' \<Longrightarrow> \<exists>e. find_recent_episode ''w'' since toy_shelf = Some e \<and> ep_id e = ''b'' \<and> ep_memory_count e = 4"
  by (auto simp: find_recent_episode_def toy_shelf_def order_by_def by_end_def)

lemma toy_clean: "clean_memory_context_prefixes (ie_trim toy_ingest) ''tea'' = ''tea''"
  by (simp add: clean_memory_context_prefixes_def toy_ingest_def Let_def starts_with_def)

lemma toy_new_key: "\<forall>r \<in> set (db_memories toy_shelf). row_key r = ''n'' \<longleftrightarrow> row_id r = ''j''" "find_key toy_shelf ''n'' = None"
  by (simp_all add: toy_shelf_def toy_row_def find_key_def select_first_def)

text \<open>The same content under the stored key, and a new key beside it, whose row has an episode of the table.\<close>

lemma ingest_succeeds_witness:
  "(\<exists>d2 res. ingest_with toy_ingest toy_ingest_config 0 ''i'' ''k'' ''tea'' ''core'' ''private'' no_opts toy_shelf = (d2, Inr res) \<and>
     ir_outcome res = No_Op) \<and>
   (\<exists>d2 res r. ingest_with toy_ingest toy_ingest_config 0 ''j'' ''n'' ''tea'' ''core'' ''private'' no_opts toy_shelf = (d2, Inr res) \<and>
     find_key d2 ''n'' = Some r \<and> row_content r = ''tea'' \<and> (\<exists>e \<in> set (db_episodes d2). row_episode_id r = Some (ep_id e)))"
proof
  show "\<exists>d2 res. ingest_with toy_ingest toy_ingest_config 0 ''i'' ''k'' ''tea'' ''core'' ''private'' no_opts toy_shelf = (d2, Inr res) \<and>
     ir_outcome res = No_Op"
    using ingest_succeeds[OF toy_shelf_ids, of toy_ingest toy_ingest_config 0 "''tea''" "''core''" "''private''" no_opts]
    unfolding toy_clean toy_shelf_row by (auto simp: effective_hash_def toy_row_def toy_ingest_def toy_rats_def)
  show "\<exists>d2 res r. ingest_with toy_ingest toy_ingest_config 0 ''j'' ''n'' ''tea'' ''core'' ''private'' no_opts toy_shelf = (d2, Inr res) \<and>
     find_key d2 ''n'' = Some r \<and> row_content r = ''tea'' \<and> (\<exists>e \<in> set (db_episodes d2). row_episode_id r = Some (ep_id e))"
    using ingest_succeeds[OF toy_new_key(1), of toy_ingest toy_ingest_config 0 "''tea''" "''core''" "''private''" no_opts]
    unfolding toy_clean toy_new_key(2) by auto
qed

lemma update_keeps_labels_witness:
  "\<exists>d2 res r. ingest_with toy_ingest toy_ingest_config 0 ''i'' ''k'' ''cake'' ''core'' ''private'' (no_opts\<lparr>io_wing := Some ''v''\<rparr>) toy_shelf = (d2, Inr res) \<and>
     me_visibility (ir_memory res) = ''private'' \<and> find_key d2 ''k'' = Some r \<and> row_visibility r = ''public'' \<and> row_wing r = Some ''w''"
  using update_keeps_labels[OF toy_shelf_ids toy_shelf_row, of "no_opts\<lparr>io_wing := Some ''v''\<rparr>" "''v''" toy_ingest toy_ingest_config 0 "''cake''" "''core''" "''private''"]
  by (auto simp: toy_row_def no_opts_def)

lemma noop_write_counts_episode_witness:
  "\<exists>d2 res. ingest_with toy_ingest toy_ingest_config 0 ''i'' ''k'' ''tea'' ''core'' ''private'' (no_opts\<lparr>io_wing := Some ''w''\<rparr>) toy_shelf = (d2, Inr res) \<and>
     ir_outcome res = No_Op \<and> (\<exists>y \<in> set (db_episodes d2). ep_id y = ''b'' \<and> ep_memory_count y = 5)"
proof -
  obtain e where e: "find_recent_episode ''w'' ''2026'' toy_shelf = Some e" "ep_id e = ''b''" "ep_memory_count e = 4"
    using toy_shelf_recent[of "''2026''"] by blast
  have same: "effective_hash (ie_db toy_ingest) (toy_row ''i'' ''k'' ''tea'' ''public'') =
      dv_hash (ie_db toy_ingest) (clean_memory_context_prefixes (ie_trim toy_ingest) ''tea'')"
    unfolding toy_clean by (simp add: effective_hash_def toy_row_def toy_ingest_def toy_rats_def)
  have "find_recent_episode ''w'' (ie_stamp toy_ingest (0 - EPISODE_GAP_MINUTES * MINUTE)) toy_shelf = Some e" using e(1) by (simp add: toy_ingest_def)
  from noop_write_counts_episode[OF toy_shelf_ids toy_shelf_row same _ _ this, of "no_opts\<lparr>io_wing := Some ''w''\<rparr>" toy_ingest_config "''core''" "''private''"]
  show ?thesis using e by (auto simp: no_opts_def)
qed

lemma older_episode_reset_witness:
  "\<exists>d2 res. ingest_with toy_ingest toy_ingest_config 0 ''i'' ''k'' ''tea'' ''core'' ''private''
       (no_opts\<lparr>io_wing := Some ''w'', io_episode_id := Some ''a''\<rparr>) toy_shelf = (d2, Inr res) \<and>
     (\<exists>y \<in> set (db_episodes d2). ep_id y = ''a'' \<and> ep_memory_count y = 1)"
proof -
  let ?a = "\<lparr>ep_id = ''a'', ep_started_at = ''2024'', ep_ended_at = ''2025'', ep_memory_count = 7, ep_wing = ''w'', ep_summary_preview = None\<rparr>"
  obtain e where e: "find_recent_episode ''w'' ''1970-01-01 00:00:00'' toy_shelf = Some e" "ep_id e = ''b''"
    using toy_shelf_recent[of "''1970-01-01 00:00:00''"] by auto
  have "?a \<in> set (db_episodes toy_shelf)" by (simp add: toy_shelf_def)
  from older_episode_reset[OF toy_shelf_ids _ _ this e(1), of "no_opts\<lparr>io_wing := Some ''w'', io_episode_id := Some ''a''\<rparr>" toy_ingest toy_ingest_config 0 "''tea''" "''core''" "''private''"]
  show ?thesis using e by (auto simp: no_opts_def)
qed

lemma fingerprints_bounded_witness:
  "\<exists>res. snd (ingest_with toy_ingest toy_ingest_config 0 ''i'' ''k'' ''tea'' ''core'' ''private'' no_opts toy_shelf) = Inr res \<and>
     length (ir_fingerprints res) \<le> 64"
proof -
  obtain d2 res r where "ingest_with toy_ingest toy_ingest_config 0 ''i'' ''k'' ''tea'' ''core'' ''private'' no_opts toy_shelf = (d2, Inr res)"
    using ingest_steps[OF toy_shelf_ids, of toy_ingest toy_ingest_config 0 "''tea''" "''core''" "''private''" no_opts] by auto
  then have "snd (ingest_with toy_ingest toy_ingest_config 0 ''i'' ''k'' ''tea'' ''core'' ''private'' no_opts toy_shelf) = Inr res" by simp
  from fingerprints_bounded[OF this, of 64] this show ?thesis
    by (auto simp: toy_ingest_config_def default_ingest_def DEFAULT_MAX_FINGERPRINT_PEERS_def)
qed

text \<open>Two memories of one wing written in the same instant.\<close>

definition toy_pair :: "rat db" where
  "toy_pair = toy_shelf\<lparr>db_memories := [(toy_row ''j'' ''l'' ''tea'' ''public'')\<lparr>row_signal_score := 1\<rparr>]\<rparr>"

lemma toy_score: "1 / 2 \<le> score_memory toy_rank content ''fact''"
proof -
  define f where "f = (\<lambda>s (words, w). rk_add toy_rank s (sigmoid_contribution toy_rank (count_matches (rk_lower toy_rank content) words) w))"
  have up: "\<forall>(ws, w) \<in> set pairs. 0 \<le> w \<Longrightarrow> s \<le> foldl f s pairs" for pairs s
  proof (induction pairs arbitrary: s)
    case (Cons p pairs)
    obtain ws w where p: "p = (ws, w)" by (cases p)
    have "s \<le> f s p" using Cons.prems by (simp add: p f_def sigmoid_contribution_def toy_rank_def rk_of_nat_def)
    also have "\<dots> \<le> foldl f (f s p) pairs" by (rule Cons.IH) (use Cons.prems in simp)
    finally show ?case by simp
  qed simp
  have "7 / 10 \<le> foldl f (7 / 10) SIGNAL_WORDS" by (rule up) (simp add: SIGNAL_WORDS_def)
  then show ?thesis unfolding f_def by (simp add: score_memory_def hall_base_def toy_rank_def rk_clamp_def)
qed

lemma plain_ingest_all_older_witness:
  "\<exists>res. snd (ingest_with toy_ingest toy_ingest_config 0 ''i'' ''k'' ''tea'' ''core'' ''private'' (no_opts\<lparr>io_wing := Some ''w'', io_hall := Some ''fact''\<rparr>) toy_pair) = Inr res \<and>
     map fp_time_delta_bucket (ir_fingerprints res) = [''older'']"
proof -
  let ?o = "no_opts\<lparr>io_wing := Some ''w'', io_hall := Some ''fact''\<rparr>"
  have ids: "\<forall>r \<in> set (db_memories toy_pair). row_key r = ''k'' \<longleftrightarrow> row_id r = ''i''" by (simp add: toy_pair_def toy_row_def)
  obtain d2 res r where run: "ingest_with toy_ingest toy_ingest_config 0 ''i'' ''k'' ''tea'' ''core'' ''private'' ?o toy_pair = (d2, Inr res)"
    using ingest_steps[OF ids, of toy_ingest toy_ingest_config 0 "''tea''" "''core''" "''private''" ?o] by auto
  let ?p = "prepare_ingest toy_ingest toy_ingest_config 0 ''i'' ''k'' ''tea'' ''core'' ''private'' ?o toy_pair"
  have fps: "ir_fingerprints res = snd (snd ?p)" using run by (auto simp: ingest_with_def case_prod_beta prod_eq_iff)
  have "map me_id (list_wing_memories_capped toy_rats ''w'' (1 / 2) (Suc 64) (toy_pair\<lparr>db_episodes := es\<rparr>)) = [''j'']" for es
    by (simp add: list_wing_memories_capped_def toy_pair_def toy_row_def toy_rats_def order_by_def memory_from_row_def)
  then have peers: "\<exists>p. list_wing_memories_capped toy_rats ''w'' (1 / 2) (Suc 64) (toy_pair\<lparr>db_episodes := es\<rparr>) = [p] \<and> me_id p = ''j''" for es
    by (simp add: map_eq_Cons_conv)
  obtain es where es: "fst ?p = toy_pair\<lparr>db_episodes := es\<rparr>" using prepare_frame by blast
  obtain p where p: "list_wing_memories_capped toy_rats ''w'' (1 / 2) (Suc 64) (toy_pair\<lparr>db_episodes := es\<rparr>) = [p]" "me_id p = ''j''" using peers by blast
  have id: "me_id (fst (snd ?p)) = ''i''" by (rule prepare_memory)
  have w: "me_wing (fst (snd ?p)) = Some ''w''" by (simp add: prepare_ingest_def Let_def case_prod_beta)
  have E: "ie_db toy_ingest = toy_rats" "rk_lit toy_rank x = x" for x by (simp_all add: toy_ingest_def toy_rank_def)
  have config: "ig_fingerprints toy_ingest_config" "ig_max_peers toy_ingest_config = Some 64" "ig_signal_threshold toy_ingest_config = 1 / 2" "64 + 1 = Suc (64 :: nat)"
    by (simp_all add: toy_ingest_config_def default_ingest_def DEFAULT_MAX_FINGERPRINT_PEERS_def toy_rank_def)
  have "snd (snd ?p) = generate_fingerprints toy_ingest toy_ingest_config (fst (snd ?p)) (fst ?p)"
    using toy_score[of "''tea''"] toy_clean by (simp add: prepare_ingest_def Let_def case_prod_beta no_opts_def toy_ingest_def toy_ingest_config_def default_ingest_def toy_rank_def)
  also have "\<dots> = [fingerprint_of toy_ingest (fst (snd ?p)) p]"
    using p unfolding es generate_fingerprints_def w id E Let_def option.case config by (simp add: config)
  finally have "length (ir_fingerprints res) = 1" unfolding fps by simp
  then obtain f where "ir_fingerprints res = [f]" by (auto simp: length_Suc_conv)
  with plain_ingest_all_older[of toy_ingest toy_ingest_config 0 "''i''" "''k''" "''tea''" "''core''" "''private''" ?o toy_pair res f] run
  show ?thesis by (auto simp: no_opts_def)
qed

end
