(* ===== verification/Brain_Memory.thy ===== *)
theory Brain_Memory
  imports Ingest Spreading Recog_Engine
begin

text \<open>
  The brain over its two databases, \<open>spectral-graph/src/brain.rs\<close>: \<open>remember_with\<close>, guarded recognition, \<open>forget\<close>
  with its verification probes, the retry queue, health and repair. The recognition index lives in a file of
  its own, so nothing keeps it in step with the memories but these operations.

  Storage errors are left out but for the enrolment, which \<open>ok\<close> lets fail for an id (and then nothing is written)
  and whose retry may not be queued either. \<open>None\<close> is a panic. Spectrograms belong to a legacy feature.
\<close>

subsection \<open>The brain\<close>

record ('vk, 'f, 'g) memory_brain =
  mb_ingest :: "('f, 'g) ingest_env"
  mb_ingest_config :: "'f ingest_config"
  mb_read :: "'f read_brain"
  mb_recog :: "'f recog_env"
  mb_order :: "'f hash_order"
  mb_recog_config :: "'f recog_config"
  mb_idf :: "term_idf option"
  mb_crypto :: "('vk, byte list) crypto"
  mb_identity :: "'vk brain_identity"
  mb_recurrence :: bool

record 'f brain_state =
  bs_db :: "'f db"
  bs_index :: recog_db

datatype memory_error = Brain_Read_Only string | Store_Failed db_error | Enrolment_Failed string

definition ENROLMENT_RETRY_BATCH :: nat where "ENROLMENT_RETRY_BATCH = 4"

definition key_to_id :: "('vk, byte list) crypto \<Rightarrow> string \<Rightarrow> string" where
  "key_to_id C key = to_hex (take 8 (blake3 C (as_bytes key)))"

abbreviation mb_id :: "('vk, 'f, 'g) memory_brain \<Rightarrow> string \<Rightarrow> string" where
  "mb_id M key \<equiv> key_to_id (mb_crypto M) key"

abbreviation mb_db :: "('vk, 'f, 'g) memory_brain \<Rightarrow> 'f db_env" where
  "mb_db M \<equiv> ie_db (mb_ingest M)"

abbreviation mb_rank :: "('vk, 'f, 'g) memory_brain \<Rightarrow> 'f rank_env" where
  "mb_rank M \<equiv> ie_rank (mb_ingest M)"

definition writable_guard :: "('vk, 'f, 'g) memory_brain \<Rightarrow> string \<Rightarrow> memory_error option" where
  "writable_guard M operation = (if rb_read_only (mb_read M) then Some (Brain_Read_Only operation) else None)"

subsection \<open>Recognition\<close>

definition recognize_unguarded :: "('vk, 'f, 'g) memory_brain \<Rightarrow> string \<Rightarrow> recog_db \<Rightarrow> 'f recognition_result option" where
  "recognize_unguarded M stimulus ix = recognize (mb_recog M) (mb_order M) (mb_recog_config M) (mb_idf M) (sqlite_ops []) stimulus ix"

definition drop_dangling_traces :: "'f db \<Rightarrow> 'f recognition_result \<Rightarrow> 'f recognition_result" where
  "drop_dangling_traces d r =
     (let live = (\<lambda>t. get_memory (tr_memory_id t) d \<noteq> None);
          dangling = map tr_memory_id (filter (\<lambda>t. \<not> live t) (rr_traces r))
      in if rr_traces r = [] \<or> dangling = [] then r
         else r\<lparr>rr_traces := filter live (rr_traces r),
                rr_evidence := filter (\<lambda>e. ev_memory_id e \<notin> set dangling) (rr_evidence r),
                rr_verdict := (case rr_verdict r of
                                 Recognized i \<Rightarrow> if i \<in> set dangling then Familiar else Recognized i
                               | v \<Rightarrow> v)\<rparr>)"

definition brain_recognize :: "('vk, 'f, 'g) memory_brain \<Rightarrow> string \<Rightarrow> 'f brain_state \<Rightarrow> 'f recognition_result option" where
  "brain_recognize M stimulus st =
     map_option (drop_dangling_traces (bs_db st)) (recognize_unguarded M stimulus (bs_index st))"

definition recognition_residue :: "string \<Rightarrow> recog_db \<Rightarrow> bool" where
  "recognition_residue i ix = sq_is_enrolled ix i"

subsection \<open>Enrolment and the retry queue\<close>

text \<open>The new index and whether the enrolment succeeded; one that is already there is a success without a write.\<close>

definition try_enroll ::
    "('vk, 'f, 'g) memory_brain \<Rightarrow> int \<Rightarrow> (string \<Rightarrow> bool) \<Rightarrow> string \<Rightarrow> string \<Rightarrow> recog_db \<Rightarrow> (recog_db \<times> bool) option" where
  "try_enroll M now ok i content ix =
     (if \<not> sq_is_enrolled ix i \<and> \<not> ok i then Some (ix, False)
      else map_option (\<lambda>ix'. (ix', True))
             (enroll (mb_recog M) (mb_recog_config M) (mb_idf M) (sqlite_ops (ie_stamp (mb_ingest M) now)) i content ix))"

fun drain_ids ::
    "('vk, 'f, 'g) memory_brain \<Rightarrow> int \<Rightarrow> (string \<Rightarrow> bool) \<Rightarrow> 'f db \<Rightarrow> string list \<Rightarrow> recog_db \<times> nat \<Rightarrow> (recog_db \<times> nat) option" where
  "drain_ids M now ok d [] acc = Some acc"
| "drain_ids M now ok d (i # is) (ix, healed) =
     (case get_memory i d of
        None \<Rightarrow> drain_ids M now ok d is (sq_clear_pending i ix, healed)
      | Some m \<Rightarrow>
          (case try_enroll M now ok i (me_content m) ix of
             None \<Rightarrow> None
           | Some (ix', True) \<Rightarrow> drain_ids M now ok d is (sq_clear_pending i ix', Suc healed)
           | Some (ix', False) \<Rightarrow> drain_ids M now ok d is (ix', healed)))"

definition drain_enrolment_retries ::
    "('vk, 'f, 'g) memory_brain \<Rightarrow> int \<Rightarrow> (string \<Rightarrow> bool) \<Rightarrow> nat \<Rightarrow> 'f brain_state \<Rightarrow> ('f brain_state \<times> nat) option" where
  "drain_enrolment_retries M now ok batch st =
     (if rb_read_only (mb_read M) \<or> batch = 0 then Some (st, 0)
      else map_option (\<lambda>(ix, healed). (st\<lparr>bs_index := ix\<rparr>, healed))
             (drain_ids M now ok (bs_db st) (sq_pending_ids batch (bs_index st)) (bs_index st, 0)))"

subsection \<open>Remembering\<close>

record 'f remember_opts =
  mo_source :: "string option"
  mo_device_id :: "byte list option"
  mo_confidence :: "'f option"
  mo_visibility :: visibility
  mo_created_at :: "string option"
  mo_episode_id :: "string option"
  mo_session_id :: "string option"
  mo_compaction_tier :: "compaction_tier option"
  mo_wing :: "string option"
  mo_hall :: "string option"

record 'f remember_result =
  rm_memory_id :: string
  rm_wing :: "string option"
  rm_hall :: "string option"
  rm_signal_score :: 'f
  rm_fingerprints_created :: nat
  rm_source :: "string option"
  rm_device_id :: "byte list option"
  rm_confidence :: 'f
  rm_write_outcome :: write_outcome
  rm_recurrence :: "(string \<times> 'f) option"
  rm_derivation_warnings :: "string list"

definition remember_ingest_opts :: "'f remember_opts \<Rightarrow> 'f ingest_opts" where
  "remember_ingest_opts o1 =
     \<lparr>io_source = mo_source o1, io_device_id = mo_device_id o1, io_confidence = mo_confidence o1, io_created_at = mo_created_at o1,
      io_episode_id = mo_episode_id o1, io_compaction_tier = mo_compaction_tier o1, io_wing = mo_wing o1, io_hall = mo_hall o1\<rparr>"

text \<open>The row is read back, so that the signature covers what the store holds.\<close>

definition sign_stored :: "('vk, 'f, 'g) memory_brain \<Rightarrow> string \<Rightarrow> 'f db \<Rightarrow> 'f db \<times> string list" where
  "sign_stored M i d =
     (case fetch_by_ids [i] d of
        [] \<Rightarrow> (d, [''signed provenance: stored memory could not be read''])
      | m # _ \<Rightarrow>
          (case (me_content_hash m, me_created_at m) of
             (Some h, Some c) \<Rightarrow>
               (fst (set_signature i (brain_id (mb_identity M))
                       (sign_memory (mb_crypto M) (mb_identity M) (me_key m) h c (me_visibility m)) d), [])
           | _ \<Rightarrow> (d, [])))"

definition RECURRENCE_MIN_FAMILIARITY :: "'f rank_env \<Rightarrow> 'f" where "RECURRENCE_MIN_FAMILIARITY R = rk_lit R (60 / 100)"
definition RECURRENCE_STRENGTH :: "'f rank_env \<Rightarrow> 'f" where "RECURRENCE_STRENGTH R = rk_lit R (5 / 100)"

definition recurrence_feedback ::
    "('vk, 'f, 'g) memory_brain \<Rightarrow> int \<Rightarrow> string \<Rightarrow> string \<Rightarrow> write_outcome \<Rightarrow> recog_db \<Rightarrow> 'f db \<Rightarrow> 'f db \<times> (string \<times> 'f) option" where
  "recurrence_feedback M now i content outcome ix d =
     (if \<not> (mb_recurrence M \<and> outcome = Inserted) then (d, None)
      else case recognize_unguarded M content ix of
             None \<Rightarrow> (d, None)
           | Some rec \<Rightarrow>
               if (case rr_verdict rec of Recognized j \<Rightarrow> True | _ \<Rightarrow> False) \<and>
                  rk_leq (mb_rank M) (RECURRENCE_MIN_FAMILIARITY (mb_rank M)) (rr_familiarity rec)
               then case rr_traces rec of
                      [] \<Rightarrow> (d, None)
                    | best # _ \<Rightarrow>
                        if tr_memory_id best = i then (d, None)
                        else ((case get_memory (tr_memory_id best) d of
                                 None \<Rightarrow> d
                               | Some prior \<Rightarrow>
                                   fst (reinforce_memory (mb_db M) (ie_stamp (mb_ingest M) now) (me_key prior) (RECURRENCE_STRENGTH (mb_rank M)) d)),
                              Some (tr_memory_id best, rr_familiarity rec))
               else (d, None))"

definition enroll_or_queue ::
    "('vk, 'f, 'g) memory_brain \<Rightarrow> int \<Rightarrow> (string \<Rightarrow> bool) \<Rightarrow> bool \<Rightarrow> string \<Rightarrow> string \<Rightarrow> recog_db \<Rightarrow> (recog_db \<times> string list) option" where
  "enroll_or_queue M now ok queue_ok i content ix =
     (case try_enroll M now ok i content ix of
        None \<Rightarrow> None
      | Some (ix', True) \<Rightarrow> Some (ix', [])
      | Some (ix', False) \<Rightarrow>
          Some (if queue_ok then (sq_mark_pending (ie_stamp (mb_ingest M) now) i ix', [''recognition enrollment''])
                else (ix', [''recognition enrollment'', ''enrolment retry not queued''])))"

definition associate_session :: "('vk, 'f, 'g) memory_brain \<Rightarrow> int \<Rightarrow> string \<Rightarrow> string option \<Rightarrow> 'f db \<Rightarrow> 'f db \<times> (db_error + unit)" where
  "associate_session M now i session d =
     (case session of
        None \<Rightarrow> (d, Inr ())
      | Some s \<Rightarrow>
          if s = [] then (d, Inr ())
          else case associate_memory_session (ie_stamp (mb_ingest M) now) i s d of (d', res) \<Rightarrow> (d', map_sum (\<lambda>e. e) (\<lambda>n. ()) res))"

text \<open>The memory is committed first; density, signature, recurrence and enrolment follow on their own.\<close>

definition derive_after_write ::
    "('vk, 'f, 'g) memory_brain \<Rightarrow> int \<Rightarrow> (string \<Rightarrow> bool) \<Rightarrow> bool \<Rightarrow> string \<Rightarrow> 'f ingest_result \<Rightarrow> 'f db \<Rightarrow> recog_db \<Rightarrow>
      ('f brain_state \<times> 'f remember_result) option" where
  "derive_after_write M now ok queue_ok content res d ix =
     (let m = ir_memory res; i = me_id m;
          d1 = set_declarative_density i (declarative_density (mb_rank M) content) d;
          (d2, sign_warnings) = sign_stored M i d1;
          (d3, recurrence) = recurrence_feedback M now i content (ir_outcome res) ix d2
      in case enroll_or_queue M now ok queue_ok i content ix of
           None \<Rightarrow> None
         | Some (ix1, enrol_warnings) \<Rightarrow>
             map_option (\<lambda>(st, healed).
               (st, \<lparr>rm_memory_id = i, rm_wing = me_wing m, rm_hall = me_hall m, rm_signal_score = me_signal_score m,
                     rm_fingerprints_created = length (ir_fingerprints res), rm_source = me_source m, rm_device_id = me_device_id m,
                     rm_confidence = me_confidence m, rm_write_outcome = ir_outcome res, rm_recurrence = recurrence,
                     rm_derivation_warnings = sign_warnings @ enrol_warnings\<rparr>))
               (drain_enrolment_retries M now ok ENROLMENT_RETRY_BATCH \<lparr>bs_db = d3, bs_index = ix1\<rparr>))"

definition remember_with ::
    "('vk, 'f, 'g) memory_brain \<Rightarrow> int \<Rightarrow> (string \<Rightarrow> bool) \<Rightarrow> bool \<Rightarrow> string \<Rightarrow> string \<Rightarrow> 'f remember_opts \<Rightarrow> 'f brain_state \<Rightarrow>
      ('f brain_state \<times> (memory_error + 'f remember_result)) option" where
  "remember_with M now ok queue_ok key content opts st =
     (case writable_guard M ''remember_with'' of
        Some e \<Rightarrow> Some (st, Inl e)
      | None \<Rightarrow>
          (case ingest_with (mb_ingest M) (mb_ingest_config M) now (mb_id M key) key content ''core'' (visibility_to_str (mo_visibility opts))
                  (remember_ingest_opts opts) (bs_db st) of
             (d, Inl e) \<Rightarrow> Some (st\<lparr>bs_db := d\<rparr>, Inl (Store_Failed e))
           | (d, Inr res) \<Rightarrow>
               (case associate_session M now (me_id (ir_memory res)) (mo_session_id opts) d of
                  (d1, Inl e) \<Rightarrow> Some (st\<lparr>bs_db := d1\<rparr>, Inl (Store_Failed e))
                | (d1, Inr u) \<Rightarrow> map_option (map_prod (\<lambda>s. s) Inr) (derive_after_write M now ok queue_ok content res d1 (bs_index st)))))"

subsection \<open>Forgetting with verification\<close>

datatype verification_status = Verified_Clear | Residual_Found

record forget_report =
  fo_store :: forget_receipt
  fo_recognition_removed :: bool
  fo_recall_clear :: bool
  fo_recognize_clear :: bool
  fo_recall_verification :: verification_status
  fo_recognition_verification :: verification_status

definition fully_forgotten :: "forget_report \<Rightarrow> bool" where
  "fully_forgotten r \<longleftrightarrow>
     fr_existed (fo_store r) \<and> fo_recall_verification r = Verified_Clear \<and> fo_recognition_verification r = Verified_Clear"

definition probe_recall ::
    "('vk, 'f, 'g) memory_brain \<Rightarrow> string \<Rightarrow> string \<Rightarrow> 'f db \<Rightarrow> ('f db \<times> verification_status) option" where
  "probe_recall M key content d =
     map_option (\<lambda>(d', hits). (d', if list_ex (\<lambda>h. hit_key h = key) hits then Residual_Found else Verified_Clear))
       (recall_topk_fts (mb_read M) content (default_topk (rb_rank (mb_read M))) Private d)"

definition probe_recognition ::
    "('vk, 'f, 'g) memory_brain \<Rightarrow> string \<Rightarrow> string \<Rightarrow> recog_db \<Rightarrow> verification_status option" where
  "probe_recognition M i content ix =
     map_option (\<lambda>r. if rr_verdict r = Recognized i \<or> recognition_residue i ix then Residual_Found else Verified_Clear)
       (recognize_unguarded M content ix)"

definition forget_report_of :: "forget_receipt \<Rightarrow> bool \<Rightarrow> verification_status \<Rightarrow> verification_status \<Rightarrow> forget_report" where
  "forget_report_of receipt removed recall recog =
     \<lparr>fo_store = receipt, fo_recognition_removed = removed, fo_recall_clear = (recall = Verified_Clear),
      fo_recognize_clear = (recog = Verified_Clear), fo_recall_verification = recall, fo_recognition_verification = recog\<rparr>"

definition brain_forget ::
    "('vk, 'f, 'g) memory_brain \<Rightarrow> string \<Rightarrow> 'f brain_state \<Rightarrow> ('f brain_state \<times> (memory_error + forget_report)) option" where
  "brain_forget M key st =
     (case writable_guard M ''forget'' of
        Some e \<Rightarrow> Some (st, Inl e)
      | None \<Rightarrow>
          let i = mb_id M key;
              content = (case get_memory i (bs_db st) of Some m \<Rightarrow> me_content m | None \<Rightarrow> []);
              (d, receipt) = delete_memory_by_key key (bs_db st);
              (ix, removed) = sq_forget_memory i (bs_index st)
          in if \<not> fr_existed receipt \<or> content = []
             then Some (\<lparr>bs_db = d, bs_index = ix\<rparr>, Inr (forget_report_of receipt removed Verified_Clear Verified_Clear))
             else case probe_recall M key content d of
                    None \<Rightarrow> None
                  | Some (d', recall) \<Rightarrow>
                      map_option (\<lambda>recog. (\<lparr>bs_db = d', bs_index = ix\<rparr>, Inr (forget_report_of receipt removed recall recog)))
                        (probe_recognition M i content ix))"

subsection \<open>Health and repair\<close>

record derivation_health =
  dh_scanned :: nat
  dh_missing_content_hash :: nat
  dh_missing_declarative_density :: nat
  dh_missing_signature :: nat
  dh_orphaned_recognition_entries :: nat
  dh_missing_recognition_enrollment :: nat

definition is_healthy :: "derivation_health \<Rightarrow> bool" where
  "is_healthy h \<longleftrightarrow> dh_missing_content_hash h = 0 \<and> dh_missing_declarative_density h = 0 \<and> dh_missing_signature h = 0 \<and>
     dh_missing_recognition_enrollment h = 0 \<and> dh_orphaned_recognition_entries h = 0"

definition derivation_health_of :: "('vk, 'f, 'g) memory_brain \<Rightarrow> nat \<Rightarrow> 'f brain_state \<Rightarrow> derivation_health" where
  "derivation_health_of M limit st =
     (let memories = list_memories_by_signal (mb_db M) (dv_zero (mb_db M)) limit (bs_db st)
      in \<lparr>dh_scanned = length memories,
          dh_missing_content_hash = length (filter (\<lambda>m. me_content_hash m = None) memories),
          dh_missing_declarative_density = length (filter (\<lambda>m. me_declarative_density m = None) memories),
          dh_missing_signature = length (filter (\<lambda>m. me_signature m = None) memories),
          dh_orphaned_recognition_entries = length (filter (\<lambda>i. i \<notin> me_id ` set memories) (sq_enrolled_ids (bs_index st))),
          dh_missing_recognition_enrollment = length (filter (\<lambda>m. \<not> sq_is_enrolled (bs_index st) (me_id m)) memories)\<rparr>)"

record derivation_repair =
  dr_scanned :: nat
  dr_content_hashes_repaired :: nat
  dr_densities_repaired :: nat
  dr_signatures_repaired :: nat
  dr_recognition_enrollments_refreshed :: nat
  dr_orphaned_enrollments_pruned :: nat

text \<open>The density and the signature of one memory, if they are missing.\<close>

definition repair_fields :: "('vk, 'f, 'g) memory_brain \<Rightarrow> 'f memory \<Rightarrow> 'f db \<times> derivation_repair \<Rightarrow> 'f db \<times> derivation_repair" where
  "repair_fields M m acc =
     (let (d, r) = acc;
          (d, r) = (if me_declarative_density m = None
                    then (set_declarative_density (me_id m) (declarative_density (mb_rank M) (me_content m)) d,
                          r\<lparr>dr_densities_repaired := dr_densities_repaired r + 1\<rparr>)
                    else (d, r))
      in case (me_signature m, me_content_hash m, me_created_at m) of
           (None, Some h, Some c) \<Rightarrow>
             (let (d', n) = set_signature (me_id m) (brain_id (mb_identity M))
                    (sign_memory (mb_crypto M) (mb_identity M) (me_key m) h c (me_visibility m)) d
              in (d', r\<lparr>dr_signatures_repaired := dr_signatures_repaired r + n\<rparr>))
         | _ \<Rightarrow> (d, r))"

fun repair_memories ::
    "('vk, 'f, 'g) memory_brain \<Rightarrow> int \<Rightarrow> (string \<Rightarrow> bool) \<Rightarrow> 'f memory list \<Rightarrow> 'f brain_state \<times> derivation_repair \<Rightarrow>
      ('f brain_state \<times> (memory_error + derivation_repair)) option" where
  "repair_memories M now ok [] (st, r) = Some (st, Inr r)"
| "repair_memories M now ok (m # ms) (st, r) =
     (let (d, r1) = repair_fields M m (bs_db st, r)
      in case try_enroll M now ok (me_id m) (me_content m) (bs_index st) of
           None \<Rightarrow> None
         | Some (ix, False) \<Rightarrow> Some (\<lparr>bs_db = d, bs_index = ix\<rparr>, Inl (Enrolment_Failed (me_id m)))
         | Some (ix, True) \<Rightarrow>
             repair_memories M now ok ms
               (\<lparr>bs_db = d, bs_index = ix\<rparr>, r1\<lparr>dr_recognition_enrollments_refreshed := dr_recognition_enrollments_refreshed r1 + 1\<rparr>))"

fun prune_orphans :: "string set \<Rightarrow> string list \<Rightarrow> recog_db \<times> nat \<Rightarrow> recog_db \<times> nat" where
  "prune_orphans live [] acc = acc"
| "prune_orphans live (i # is) (ix, n) =
     (if i \<in> live then prune_orphans live is (ix, n)
      else let (ix', removed) = sq_forget_memory i ix in prune_orphans live is (ix', if removed then n + 1 else n))"

definition repair_derivations ::
    "('vk, 'f, 'g) memory_brain \<Rightarrow> int \<Rightarrow> (string \<Rightarrow> bool) \<Rightarrow> nat \<Rightarrow> 'f brain_state \<Rightarrow> ('f brain_state \<times> (memory_error + derivation_repair)) option" where
  "repair_derivations M now ok limit st =
     (case writable_guard M ''repair_derivations'' of
        Some e \<Rightarrow> Some (st, Inl e)
      | None \<Rightarrow>
          let (d, hashes) = backfill_content_hashes (mb_db M) (bs_db st);
              memories = list_memories_by_signal (mb_db M) (dv_zero (mb_db M)) limit d;
              report = \<lparr>dr_scanned = length memories, dr_content_hashes_repaired = hashes, dr_densities_repaired = 0,
                        dr_signatures_repaired = 0, dr_recognition_enrollments_refreshed = 0, dr_orphaned_enrollments_pruned = 0\<rparr>
          in case repair_memories M now ok memories (st\<lparr>bs_db := d\<rparr>, report) of
               None \<Rightarrow> None
             | Some (st1, Inl e) \<Rightarrow> Some (st1, Inl e)
             | Some (st1, Inr r) \<Rightarrow>
                 if dr_scanned r < limit
                 then let (ix, n) = prune_orphans (me_id ` set memories) (sq_enrolled_ids (bs_index st1)) (bs_index st1, 0)
                      in Some (st1\<lparr>bs_index := ix\<rparr>, Inr (r\<lparr>dr_orphaned_enrollments_pruned := n\<rparr>))
                 else Some (st1, Inr r))"

subsection \<open>Recognition names live memories\<close>

lemma score_recognized_trace:
  assumes "rr_verdict (score_candidates E ho p pairs grams mms n sc w ms) = Recognized i" and "0 < sc_max_traces sc"
  shows "i \<in> tr_memory_id ` set (rr_traces (score_candidates E ho p pairs grams mms n sc w ms))"
proof -
  define traces where "traces = order_by (trace_before (re_rank E)) (map (trace_of (re_rank E) (length (sp_pair_hashes p) + length (sp_gram_hashes p)))
    (ho_acc ho (accumulate E sc n pairs grams w (close_matches (re_rank E) w ms mms))))"
  obtain best rest where t: "traces = best # rest" and "i = tr_memory_id best"
    using assms(1) by (cases traces) (auto simp: score_candidates_def Let_def traces_def[symmetric] judge_def split: if_splits)
  moreover have "rr_traces (score_candidates E ho p pairs grams mms n sc w ms) = take (sc_max_traces sc) traces"
    by (simp add: score_candidates_def Let_def case_prod_beta traces_def)
  ultimately show ?thesis using assms(2) by (cases "sc_max_traces sc") auto
qed

text \<open>
  C17: guarded recognition, configured to return at least one trace, serves only memories that exist: each trace it returns has its row, and a verdict that names
  a memory names one with a row, whatever the index still holds.
\<close>

theorem recognize_names_live:
  assumes "brain_recognize M stimulus st = Some r" and "0 < sc_max_traces (rc_score (mb_recog_config M))"
  shows "(\<forall>t \<in> set (rr_traces r). get_memory (tr_memory_id t) (bs_db st) \<noteq> None) \<and>
    (\<forall>i. rr_verdict r = Recognized i \<longrightarrow> get_memory i (bs_db st) \<noteq> None)"
proof -
  obtain r0 where r0: "recognize_unguarded M stimulus (bs_index st) = Some r0" and r: "r = drop_dangling_traces (bs_db st) r0"
    using assms(1) by (auto simp: brain_recognize_def)
  have named: "i \<in> tr_memory_id ` set (rr_traces r0)" if "rr_verdict r0 = Recognized i" for i
    using r0 that score_recognized_trace assms(2) by (auto simp: recognize_unguarded_def recognize_def)
  have live: "\<forall>t \<in> set (rr_traces r). get_memory (tr_memory_id t) (bs_db st) \<noteq> None"
    unfolding r drop_dangling_traces_def Let_def by (auto simp: filter_empty_conv)
  moreover have "get_memory i (bs_db st) \<noteq> None" if v: "rr_verdict r = Recognized i" for i
  proof -
    have "rr_verdict r0 = Recognized i" and clean: "rr_traces r = filter (\<lambda>t. get_memory (tr_memory_id t) (bs_db st) \<noteq> None) (rr_traces r0)"
      and "\<forall>t \<in> set (rr_traces r0). tr_memory_id t = i \<longrightarrow> get_memory i (bs_db st) \<noteq> None"
      using v unfolding r drop_dangling_traces_def Let_def
      by (auto simp: filter_empty_conv filter_id_conv split: if_splits verdict.splits)
    then show ?thesis using named by blast
  qed
  ultimately show ?thesis by blast
qed

subsection \<open>Verified forgetting\<close>

lemma deleted_rows:
  "db_memories (fst (delete_memory_by_key key d)) = delete_where (\<lambda>q. row_key q = key) (db_memories d)"
proof (cases "find_key d key")
  case None
  then have "\<forall>q \<in> set (db_memories d). row_key q \<noteq> key" by (simp add: find_key_def select_first_None)
  then show ?thesis using None by (simp add: delete_memory_by_key_def delete_where_def filter_id_conv)
next
  case (Some r)
  then show ?thesis
    by (simp add: delete_memory_by_key_def Let_def case_prod_beta wing_cache_clear_def settle_episode_frame scrub_traces_def delete_memories_def)
qed

lemma delete_existed: "fr_existed (snd (delete_memory_by_key key d)) \<longleftrightarrow> find_key d key \<noteq> None"
  by (simp add: delete_memory_by_key_def Let_def case_prod_beta no_receipt_def split: option.split)

lemma anticipated_rows:
  assumes "\<forall>h \<in> set results. has_key d (hit_key h)" and "h \<in> set (append_anticipated b v d results)"
  shows "has_key d (hit_key h)"
proof -
  have step: "\<forall>h \<in> set (fst (snd (anticipate_one b v d rec acc))). has_key d (hit_key h)"
    if "\<forall>h \<in> set (fst (snd acc)). has_key d (hit_key h)" for rec acc
  proof -
    have "has_key d (hit_key (memory_to_hit m))" if got: "get_memory i d = Some m" for i m
    proof -
      obtain q where "q \<in> set (db_memories d)" "m = memory_from_row q"
        using got by (auto simp: get_memory_def dest: select_first_Some)
      then show ?thesis by (auto simp: memory_to_hit_def memory_from_row_def has_key_def)
    qed
    then show ?thesis using that by (cases rec; cases acc) (auto simp: anticipate_one_def split: option.split)
  qed
  have many: "(\<forall>h \<in> set (fst (snd acc)). has_key d (hit_key h)) \<longrightarrow>
      (\<forall>h \<in> set (fst (snd (fold (anticipate_one b v d) recs acc))). has_key d (hit_key h))" for recs acc
  proof (induction recs arbitrary: acc)
    case (Cons rec recs)
    show ?case unfolding fold_Cons comp_apply using step[of acc rec] Cons.IH[of "anticipate_one b v d rec acc"] by blast
  qed simp
  have "(\<forall>h \<in> set results. has_key d (hit_key h)) \<longrightarrow> (\<forall>h \<in> set (append_anticipated b v d results). has_key d (hit_key h))"
    unfolding append_anticipated_def Let_def using many[of "(hit_id ` set results, results, 0)"] unfolding fst_conv snd_conv by blast
  then show ?thesis using assms by blast
qed

lemma topk_hit_rows:
  assumes "recall_topk_fts b query c v d = Some (d', hits)" and "distinct (map row_id (db_memories d))" and "h \<in> set hits"
  shows "has_key d (hit_key h)"
proof (cases "fts_query_words b query = []")
  case True
  then show ?thesis using assms(1,3) by (simp add: recall_topk_fts_def)
next
  case False
  let ?found = "fts_search_scoped (rb_rank b) (tp_fts (rb_deps b)) (fts_query_words b query) (fetch_width (tk_k c) (tk_fetch_mult c)) v d"
  obtain ranked where ranked: "apply_reranking_pipeline_with_query (rb_rank b) (rb_entries b) (topk_reranking (rb_rank b) c)
      (context_empty (topk_now b c d)) [] (fts_query_words b query) (filter (shows_to v) ?found) = Some ranked"
    using assms(1) False by (auto simp: recall_topk_fts_def Let_def split: option.splits)
  let ?results = "take (tk_k c) ranked"
  define d1 where "d1 = (if rb_read_only b then d else log_retrieval_event (recall_event b query ''topk_fts'' None None ?results) d)"
  have hits: "hits = (if ?results \<noteq> [] \<and> rb_anticipatory b then append_anticipated b v d1 ?results else ?results)"
    using assms(1) False ranked unfolding recall_topk_fts_def Let_def d1_def by simp
  have same: "has_key d1 k = has_key d k" for k by (simp add: d1_def has_key_def log_retrieval_event_def)
  obtain rs where rs: "?found = map (\<lambda>m. memory_hit_from_row m 0) rs" "set rs \<subseteq> fts_pool (rb_rank b) (tp_fts (rb_deps b)) (fts_query_words b query) v d"
    by (rule fts_search_rows[OF assms(2)])
  have found: "has_key d (hit_key x)" if "x \<in> set ?found" for x
    using that rs(2) unfolding rs(1) by (auto simp: fts_pool_def has_key_def memory_hit_from_row_def)
  have shown: "\<forall>x \<in> set ?results. has_key d1 (hit_key x)"
  proof
    fix x assume "x \<in> set ?results"
    then obtain y where "y \<in> set ?found" "x = with_score y (hit_signal_score x)"
      using rerank_from[OF ranked, of x] by (auto dest: in_set_takeD)
    then show "has_key d1 (hit_key x)" unfolding same by (metis found hit_key_with_score)
  qed
  then show ?thesis using anticipated_rows[OF shown] assms(3) unfolding hits same by (auto split: if_splits)
qed

lemma probe_recall_clear:
  assumes "distinct (map row_id (db_memories d))" and "\<not> has_key d key"
  shows "\<exists>d'. probe_recall M key content d = Some (d', Verified_Clear) \<and> db_memories d' = db_memories d"
proof -
  obtain d' hits where run: "recall_topk_fts (mb_read M) content (default_topk (rb_rank (mb_read M))) Private d = Some (d', hits)"
    using topk_returns by (metis surj_pair)
  have "\<not> list_ex (\<lambda>h. hit_key h = key) hits"
    using topk_hit_rows[OF run assms(1)] assms(2) by (auto simp: list_ex_iff)
  moreover have "db_memories d' = db_memories d" using same_memory_rows topk_hits[OF run assms(1)] by blast
  ultimately show ?thesis using run by (simp add: probe_recall_def)
qed

lemma recognize_returns:
  assumes "0 < pc_window (rc_prints (mb_recog_config M))" and "0 < pc_kgram (rc_prints (mb_recog_config M))"
  shows "\<exists>r. recognize_unguarded M stimulus ix = Some r"
proof -
  obtain p where "fingerprint_stimulus_with (mb_recog M) (rc_prints (mb_recog_config M)) (mb_idf M) stimulus = Some p"
    using fingerprint_returns[OF assms] by blast
  then show ?thesis by (simp add: recognize_unguarded_def recognize_def)
qed

lemma probe_recognition_clear:
  assumes "0 < pc_window (rc_prints (mb_recog_config M))" and "0 < pc_kgram (rc_prints (mb_recog_config M))"
    and "\<And>xs. mset (ho_acc (mb_order M) xs) = mset xs"
  shows "probe_recognition M i content (fst (sq_forget_memory i ix)) = Some Verified_Clear"
proof -
  obtain r where r: "recognize_unguarded M content (fst (sq_forget_memory i ix)) = Some r"
    using recognize_returns[OF assms(1,2)] by blast
  have "\<not> Recog_Engine.mentions r i"
    using sqlite.recognize_forgets[of _ _ _ _ "[]" content i ix r] r assms(3)
    unfolding recognize_unguarded_def Recog_Engine.forget_def by (simp add: sqlite_ops_def)
  moreover have "\<not> recognition_residue i (fst (sq_forget_memory i ix))"
    using sqlite.forget_enrolled[of "[]" i ix i] by (simp add: recognition_residue_def sqlite_ops_def)
  ultimately show ?thesis using r by (simp add: probe_recognition_def Recog_Engine.mentions_def)
qed

text \<open>
  C5: on a brain that may write, with unique ids and keys and a fingerprint window and run length above 0, forgetting a
  memory whose id is that of its key removes its row and everything the recognition index knows of it, no later
  recognition mentions it, and both probes confirm it, so that the report says fully forgotten.
\<close>

theorem forget_verified:
  fixes M :: "('vk, 'f, 'g) memory_brain" and st :: "'f brain_state"
  assumes "\<not> rb_read_only (mb_read M)" and "store_ok (bs_db st)"
    and "find_key (bs_db st) key = Some r" and "row_id r = mb_id M key"
    and "0 < pc_window (rc_prints (mb_recog_config M))" and "0 < pc_kgram (rc_prints (mb_recog_config M))"
    and "\<And>xs. mset (ho_acc (mb_order M) xs) = mset xs"
  shows "\<exists>st' rep. brain_forget M key st = Some (st', Inr rep) \<and> fully_forgotten rep \<and>
    \<not> has_key (bs_db st') key \<and> \<not> has_memory (bs_db st') (row_id r) \<and>
    (\<forall>stimulus a. recognize_unguarded M stimulus (bs_index st') = Some a \<longrightarrow> \<not> Recog_Engine.mentions a (row_id r))"
proof -
  let ?i = "mb_id M key" and ?d = "fst (delete_memory_by_key key (bs_db st))" and ?ix = "fst (sq_forget_memory (mb_id M key) (bs_index st))"
  have rows: "db_memories ?d = delete_where (\<lambda>q. row_key q = key) (db_memories (bs_db st))" by (rule deleted_rows)
  have dist: "distinct (map row_id (db_memories (bs_db st)))" using assms(2) by (simp add: store_ok_def memories_ok_def keyed_def)
  then have dist': "distinct (map row_id (db_memories ?d))" unfolding rows by (rule distinct_delete_where)
  have gone: "\<not> has_key ?d key" unfolding has_key_def rows by simp
  have r: "r \<in> set (db_memories (bs_db st))" "row_key r = key" using assms(3) by (auto simp: find_key_def dest!: select_first_Some)
  have "\<forall>q \<in> set (db_memories ?d). row_id q \<noteq> row_id r"
    unfolding rows using r dist by (auto simp: distinct_map inj_on_def)
  then have gone_id: "\<not> has_memory ?d (row_id r)" by (auto simp: has_memory_def)
  have existed: "fr_existed (snd (delete_memory_by_key key (bs_db st)))" using assms(3) by (simp add: delete_existed)
  have silent: "\<not> Recog_Engine.mentions a ?i" if "recognize_unguarded M stimulus ?ix = Some a" for stimulus a
    using sqlite.recognize_forgets[of _ _ _ _ "[]" stimulus ?i "bs_index st" a] that assms(7)
    unfolding recognize_unguarded_def Recog_Engine.forget_def by (simp add: sqlite_ops_def)
  let ?c = "case get_memory ?i (bs_db st) of Some m \<Rightarrow> me_content m | None \<Rightarrow> []"
  obtain d' where d': "probe_recall M key ?c ?d = Some (d', Verified_Clear)" "db_memories d' = db_memories ?d"
    using probe_recall_clear[OF dist' gone] by blast
  have pr: "probe_recognition M ?i ?c ?ix = Some Verified_Clear"
    by (rule probe_recognition_clear[OF assms(5-7)])
  have clear: "fully_forgotten (forget_report_of (snd (delete_memory_by_key key (bs_db st))) b Verified_Clear Verified_Clear)" for b
    using existed by (simp add: fully_forgotten_def forget_report_of_def)
  have "\<exists>st' rep. brain_forget M key st = Some (st', Inr rep) \<and> fully_forgotten rep \<and> db_memories (bs_db st') = db_memories ?d \<and> bs_index st' = ?ix"
    using d' pr existed clear by (auto simp: brain_forget_def writable_guard_def assms(1) Let_def case_prod_beta)
  then show ?thesis using gone gone_id silent unfolding assms(4) has_key_def has_memory_def by metis
qed

text \<open>
  The probe that verifies the deletion is an ordinary recall of the forgotten content, so it logs a retrieval event:
  after forgetting, the event log holds the digest of the content, which is the content hash of the deleted row.
\<close>

theorem forget_logs_digest:
  fixes M :: "('vk, 'f, 'g) memory_brain" and st :: "'f brain_state"
  assumes "\<not> rb_read_only (mb_read M)" and "store_ok (bs_db st)"
    and "find_key (bs_db st) key = Some r" and "row_id r = mb_id M key"
    and "0 < pc_window (rc_prints (mb_recog_config M))" and "0 < pc_kgram (rc_prints (mb_recog_config M))"
    and "row_content r \<noteq> []" and "fts_query_words (mb_read M) (row_content r) \<noteq> []"
    and "rb_hash_query (mb_read M) = dv_hash (mb_db M)"
  shows "\<exists>st' rep. brain_forget M key st = Some (st', Inr rep) \<and>
    (\<exists>ev \<in> set (db_events (bs_db st')). ev_query_hash ev = dv_hash (mb_db M) (row_content r))"
proof -
  let ?c = "row_content r" and ?d = "fst (delete_memory_by_key key (bs_db st))"
  have r: "r \<in> set (db_memories (bs_db st))" using assms(3) by (auto simp: find_key_def dest!: select_first_Some)
  have "get_memory (mb_id M key) (bs_db st) = Some (memory_from_row r)"
    using get_memory_exact[OF assms(2) r] by (simp add: assms(4))
  then have content: "(case get_memory (mb_id M key) (bs_db st) of Some m \<Rightarrow> me_content m | None \<Rightarrow> []) = ?c"
    by (simp add: memory_from_row_def)
  obtain d' hits where run: "recall_topk_fts (mb_read M) ?c (default_topk (rb_rank (mb_read M))) Private ?d = Some (d', hits)"
    using topk_returns by (metis surj_pair)
  then have "\<exists>ids. d' = log_retrieval_event (recall_event (mb_read M) ?c ''topk_fts'' None None ids) ?d"
    using assms(1,8) by (auto simp: recall_topk_fts_def Let_def split: option.splits)
  then have logged: "\<exists>ev \<in> set (db_events d'). ev_query_hash ev = dv_hash (mb_db M) ?c"
    using assms(9) by (auto simp: log_retrieval_event_def recall_event_def)
  obtain a where "recognize_unguarded M ?c (fst (sq_forget_memory (mb_id M key) (bs_index st))) = Some a"
    using recognize_returns[OF assms(5,6)] by blast
  then obtain p where p: "probe_recognition M (mb_id M key) ?c (fst (sq_forget_memory (mb_id M key) (bs_index st))) = Some p"
    by (simp add: probe_recognition_def)
  have "fr_existed (snd (delete_memory_by_key key (bs_db st)))" using assms(3) by (simp add: delete_existed)
  then show ?thesis
    using run logged p content assms(7) by (auto simp: brain_forget_def writable_guard_def assms(1) Let_def case_prod_beta probe_recall_def)
qed

text \<open>
  C40: \<open>forget\<close> looks for the content and for the recognition entry under the id of the key. A row that was imported from
  a shared wing has another id: its row is deleted, but its enrolment stays, and the report says fully forgotten.
\<close>

theorem forget_leaves_imported_enrolment:
  fixes M :: "('vk, 'f, 'g) memory_brain" and st :: "'f brain_state"
  assumes "\<not> rb_read_only (mb_read M)" and "find_key (bs_db st) key = Some r" and "row_id r \<noteq> mb_id M key"
    and "get_memory (mb_id M key) (bs_db st) = None" and "recognition_residue (row_id r) (bs_index st)"
  shows "\<exists>st' rep. brain_forget M key st = Some (st', Inr rep) \<and> fully_forgotten rep \<and> \<not> has_key (bs_db st') key \<and>
    recognition_residue (row_id r) (bs_index st')"
proof -
  have "fr_existed (snd (delete_memory_by_key key (bs_db st)))" using assms(2) by (simp add: delete_existed)
  moreover have "recognition_residue (row_id r) (fst (sq_forget_memory (mb_id M key) (bs_index st)))"
    using assms(3,5) sqlite.forget_enrolled[of "[]" "mb_id M key" "bs_index st" "row_id r"]
    by (simp add: recognition_residue_def sqlite_ops_def)
  moreover have "\<not> has_key (fst (delete_memory_by_key key (bs_db st))) key" by (simp add: has_key_def deleted_rows)
  ultimately show ?thesis
    using assms(4) by (simp add: brain_forget_def writable_guard_def assms(1) Let_def case_prod_beta fully_forgotten_def forget_report_of_def)
qed

subsection \<open>The index in step with the store\<close>

lemma try_enroll_enrolled:
  assumes "try_enroll M now ok i content ix = Some (ix', b)"
  shows "b \<longleftrightarrow> sq_is_enrolled ix i \<or> ok i" "b \<Longrightarrow> sq_is_enrolled ix' x \<longleftrightarrow> x = i \<or> sq_is_enrolled ix x" "\<not> b \<Longrightarrow> ix' = ix"
  using assms sqlite.enroll_enrolls[of "mb_recog M" "mb_recog_config M" "mb_idf M" "ie_stamp (mb_ingest M) now" i content ix ix' x]
  by (auto simp: try_enroll_def sqlite_ops_def split: if_splits)

lemma try_enroll_returns:
  assumes "0 < pc_window (rc_prints (mb_recog_config M))" and "0 < pc_kgram (rc_prints (mb_recog_config M))"
  shows "\<exists>r. try_enroll M now ok i content ix = Some r"
  using fingerprint_returns[OF assms, of "mb_recog M" "mb_idf M" content] by (auto simp: try_enroll_def enroll_def)

lemma try_enroll_known: "sq_is_enrolled ix i \<Longrightarrow> try_enroll M now ok i content ix = Some (ix, True)"
  by (simp add: try_enroll_def enroll_def sqlite_ops_def)

lemma try_enroll_pending: "try_enroll M now ok i content ix = Some (ix', b) \<Longrightarrow> rd_pending ix' = rd_pending ix"
  by (auto simp: try_enroll_def enroll_def sqlite_ops_def sq_index_memory_def sq_index_minhash_def Let_def split: if_splits)

lemma clear_pending_enrolled [simp]: "sq_is_enrolled (sq_clear_pending i ix) x = sq_is_enrolled ix x"
  by (simp add: sq_is_enrolled_def sq_clear_pending_def)

lemma get_memory_None: "get_memory i d = None \<longleftrightarrow> \<not> has_memory d i"
  by (auto simp: get_memory_def has_memory_def select_first_None)

text \<open>What a drain does to an entry of the queue: it leaves it only when its memory is there and its enrolment failed.\<close>

definition retried :: "(string \<Rightarrow> bool) \<Rightarrow> 'f db \<Rightarrow> recog_db \<Rightarrow> string \<Rightarrow> bool" where
  "retried ok d ix i \<longleftrightarrow> \<not> has_memory d i \<or> sq_is_enrolled ix i \<or> ok i"

lemma drain_ids_spec:
  assumes "0 < pc_window (rc_prints (mb_recog_config M))" and "0 < pc_kgram (rc_prints (mb_recog_config M))"
  shows "\<exists>ix' n. drain_ids M now ok d is (ix, h) = Some (ix', n) \<and>
    (\<forall>x. sq_is_enrolled ix' x \<longleftrightarrow> sq_is_enrolled ix x \<or> x \<in> set is \<and> has_memory d x \<and> ok x) \<and>
    rd_pending ix' = filter (\<lambda>p. \<not> (fst p \<in> set is \<and> retried ok d ix (fst p))) (rd_pending ix)"
proof (induction "is" arbitrary: ix h)
  case (Cons i "is")
  show ?case
  proof (cases "get_memory i d")
    case None
    then have gone: "\<not> has_memory d i" using get_memory_None[of i d] by simp
    obtain ix' n where next_run: "drain_ids M now ok d is (sq_clear_pending i ix, h) = Some (ix', n)"
      and e: "\<forall>x. sq_is_enrolled ix' x \<longleftrightarrow> sq_is_enrolled ix x \<or> x \<in> set is \<and> has_memory d x \<and> ok x"
      and p: "rd_pending ix' = filter (\<lambda>p. \<not> (fst p \<in> set is \<and> retried ok d (sq_clear_pending i ix) (fst p))) (rd_pending (sq_clear_pending i ix))"
      using Cons.IH[of "sq_clear_pending i ix" h] by auto
    have "rd_pending ix' = filter (\<lambda>p. \<not> (fst p \<in> set (i # is) \<and> retried ok d ix (fst p))) (rd_pending ix)"
      unfolding p using gone by (auto simp: sq_clear_pending_def delete_where_def retried_def sq_is_enrolled_def intro!: filter_cong)
    then show ?thesis using None next_run e gone by auto
  next
    case (Some m)
    then have m: "has_memory d i" using get_memory_None[of i d] by simp
    obtain ix1 b where run: "try_enroll M now ok i (me_content m) ix = Some (ix1, b)"
      using try_enroll_returns[OF assms] by (metis surj_pair)
    note E = try_enroll_enrolled[OF run] and P = try_enroll_pending[OF run]
    show ?thesis
    proof (cases b)
      case True
      obtain ix' n where next_run: "drain_ids M now ok d is (sq_clear_pending i ix1, Suc h) = Some (ix', n)"
        and e: "\<forall>x. sq_is_enrolled ix' x \<longleftrightarrow> sq_is_enrolled ix1 x \<or> x \<in> set is \<and> has_memory d x \<and> ok x"
        and p: "rd_pending ix' = filter (\<lambda>p. \<not> (fst p \<in> set is \<and> retried ok d (sq_clear_pending i ix1) (fst p))) (rd_pending (sq_clear_pending i ix1))"
        using Cons.IH[of "sq_clear_pending i ix1" "Suc h"] by auto
      have "rd_pending ix' = filter (\<lambda>p. \<not> (fst p \<in> set (i # is) \<and> retried ok d ix (fst p))) (rd_pending ix)"
        unfolding p using E(1) E(2)[OF True] True m
        by (auto simp: sq_clear_pending_def delete_where_def P retried_def sq_is_enrolled_def intro!: filter_cong)
      then show ?thesis using Some run True next_run e E(1) E(2)[OF True] m by auto
    next
      case False
      then have same: "ix1 = ix" and out: "\<not> sq_is_enrolled ix i" "\<not> ok i" using E by auto
      show ?thesis using Cons.IH[of ix h] Some run False m out unfolding same
        by (auto simp: retried_def intro!: filter_cong)
    qed
  qed
qed simp

text \<open>The ids of a store, and the content hashes its keys hold: what deriving fields leaves alone.\<close>

definition holdings :: "'f db_env \<Rightarrow> 'f db \<Rightarrow> string set \<times> (string \<Rightarrow> string option)" where
  "holdings D d = (ids d, \<lambda>k. map_option (effective_hash D) (find_key d k))"

lemma holdings_update:
  assumes "\<And>r. row_id (g r) = row_id r \<and> row_key (g r) = row_key r \<and> row_content (g r) = row_content r \<and> row_content_hash (g r) = row_content_hash r"
  shows "holdings D (update_memories P g d) = holdings D d"
proof -
  have "effective_hash D (if P r then g r else r) = effective_hash D r" for r using assms[of r] by (simp add: effective_hash_def split: option.split)
  then have "map_option (effective_hash D) (map_option (\<lambda>r. if P r then g r else r) x) = map_option (effective_hash D) x" for x
    by (cases x) simp_all
  moreover have "find_key (update_memories P g d) k = map_option (\<lambda>r. if P r then g r else r) (find_key d k)" for k
    by (rule key_after_update) (simp add: assms)
  ultimately show ?thesis using assms ids_update[of g P d] by (simp add: holdings_def)
qed

lemma holdings_cache [simp]: "holdings D (wing_cache_clear d) = holdings D d" "holdings D (wing_cache_pop_opt w d) = holdings D d"
  by (simp_all add: holdings_def ids_def find_key_def wing_cache_clear_def wing_cache_pop_opt_def wing_cache_pop_def split: option.split)

lemma holdings_derived:
  "holdings D (fst (reinforce_memory D' now key x d)) = holdings D d"
  "holdings D (fst (set_signature i b s d)) = holdings D d"
  "holdings D (set_declarative_density i y d) = holdings D d"
  by (simp_all add: reinforce_memory_def set_signature_def set_declarative_density_def Let_def holdings_update reinforced_def)

lemma ids_holdings: "holdings D d' = holdings D d \<Longrightarrow> ids d' = ids d"
  by (simp add: holdings_def)

lemmas derived_ids = holdings_derived(2,3) [THEN ids_holdings]

lemma holdings_sign: "holdings D (fst (sign_stored M i d)) = holdings D d"
  by (simp add: sign_stored_def holdings_derived split: list.split option.split prod.split)

lemma holdings_recurrence: "holdings D (fst (recurrence_feedback M now i content outcome ix d)) = holdings D d"
  by (simp add: recurrence_feedback_def holdings_derived split: list.split option.split)

lemma holdings_associate: "associate_memory_session now i s d = (d', res) \<Longrightarrow> holdings D d' = holdings D d"
  by (auto simp: associate_memory_session_def Let_def holdings_def ids_def find_key_def split: if_splits)

lemma derive_after_write_spec:
  assumes "derive_after_write M now ok queue_ok content res d ix = Some (st1, rm)"
  obtains ix1 w n d3 where "enroll_or_queue M now ok queue_ok (me_id (ir_memory res)) content ix = Some (ix1, w)"
    and "drain_enrolment_retries M now ok ENROLMENT_RETRY_BATCH \<lparr>bs_db = d3, bs_index = ix1\<rparr> = Some (st1, n)"
    and "holdings D d3 = holdings D d" and "rm_write_outcome rm = ir_outcome res"
proof -
  define d3 where "d3 = fst (recurrence_feedback M now (me_id (ir_memory res)) content (ir_outcome res) ix
    (fst (sign_stored M (me_id (ir_memory res)) (set_declarative_density (me_id (ir_memory res)) (declarative_density (mb_rank M) content) d))))"
  have "holdings D d3 = holdings D d" unfolding d3_def by (simp add: holdings_recurrence holdings_sign holdings_derived)
  moreover obtain ix1 w where e: "enroll_or_queue M now ok queue_ok (me_id (ir_memory res)) content ix = Some (ix1, w)"
    using assms by (auto simp: derive_after_write_def Let_def case_prod_beta split: option.splits)
  moreover obtain n where "drain_enrolment_retries M now ok ENROLMENT_RETRY_BATCH \<lparr>bs_db = d3, bs_index = ix1\<rparr> = Some (st1, n)"
    "rm_write_outcome rm = ir_outcome res"
    using assms e unfolding derive_after_write_def Let_def case_prod_beta d3_def[symmetric] by auto
  ultimately show ?thesis using that by blast
qed

lemma drain_db: "drain_enrolment_retries M now ok batch st = Some (st1, n) \<Longrightarrow> bs_db st1 = bs_db st"
  by (auto simp: drain_enrolment_retries_def split: if_splits)

lemma drain_covers:
  assumes "\<not> rb_read_only (mb_read M)"
    and "0 < pc_window (rc_prints (mb_recog_config M))" and "0 < pc_kgram (rc_prints (mb_recog_config M))"
    and "\<forall>i. ok i" and "length (rd_pending (bs_index st)) \<le> batch" and "0 < batch"
  shows "\<exists>st2 n. drain_enrolment_retries M now ok batch st = Some (st2, n) \<and> rd_pending (bs_index st2) = [] \<and> bs_db st2 = bs_db st \<and>
    (\<forall>x. sq_is_enrolled (bs_index st2) x \<longleftrightarrow> sq_is_enrolled (bs_index st) x \<or> x \<in> fst ` set (rd_pending (bs_index st)) \<and> has_memory (bs_db st) x)"
proof -
  have all: "set (sq_pending_ids batch (bs_index st)) = fst ` set (rd_pending (bs_index st))"
    using assms(5) by (simp add: sq_pending_ids_def)
  obtain ix' n where run: "drain_ids M now ok (bs_db st) (sq_pending_ids batch (bs_index st)) (bs_index st, 0) = Some (ix', n)"
    and e: "\<forall>x. sq_is_enrolled ix' x \<longleftrightarrow> sq_is_enrolled (bs_index st) x \<or> x \<in> set (sq_pending_ids batch (bs_index st)) \<and> has_memory (bs_db st) x \<and> ok x"
    and p: "rd_pending ix' = filter (\<lambda>p. \<not> (fst p \<in> set (sq_pending_ids batch (bs_index st)) \<and> retried ok (bs_db st) (bs_index st) (fst p))) (rd_pending (bs_index st))"
    using drain_ids_spec[OF assms(2,3), of now ok "bs_db st" "sq_pending_ids batch (bs_index st)" "bs_index st" 0] by blast
  have "rd_pending ix' = []" unfolding p all using assms(4) by (auto simp: filter_empty_conv retried_def)
  then show ?thesis using run e assms(1,4,6) unfolding all by (simp add: drain_enrolment_retries_def)
qed

lemma remember_steps:
  assumes "remember_with M now ok queue_ok key content opts st = Some (st1, Inr rm)"
    and "\<forall>r \<in> set (db_memories (bs_db st)). row_key r = key \<longleftrightarrow> row_id r = mb_id M key"
  obtains ix1 w n d3 where "enroll_or_queue M now ok queue_ok (mb_id M key) content (bs_index st) = Some (ix1, w)"
    and "drain_enrolment_retries M now ok ENROLMENT_RETRY_BATCH \<lparr>bs_db = d3, bs_index = ix1\<rparr> = Some (st1, n)"
    and "has_memory d3 (mb_id M key)"
proof -
  obtain d res d1 where i: "ingest_with (mb_ingest M) (mb_ingest_config M) now (mb_id M key) key content ''core''
      (visibility_to_str (mo_visibility opts)) (remember_ingest_opts opts) (bs_db st) = (d, Inr res)"
    and a: "associate_session M now (me_id (ir_memory res)) (mo_session_id opts) d = (d1, Inr ())"
    and g: "derive_after_write M now ok queue_ok content res d1 (bs_index st) = Some (st1, rm)"
    using assms(1) by (auto simp: remember_with_def split: option.splits prod.splits sum.splits)
  obtain r where r: "find_key d key = Some r" "row_id r = mb_id M key" and m: "me_id (ir_memory res) = mb_id M key"
    using ingest_steps[OF assms(2), of "mb_ingest M" "mb_ingest_config M" now content "''core''" "visibility_to_str (mo_visibility opts)" "remember_ingest_opts opts"]
    by (auto simp: i prepare_memory)
  have "holdings (mb_db M) d1 = holdings (mb_db M) d"
    using a holdings_associate[of "ie_stamp (mb_ingest M) now"] by (auto simp: associate_session_def split: option.splits if_splits prod.splits)
  moreover obtain ix1 w n d3 where "enroll_or_queue M now ok queue_ok (mb_id M key) content (bs_index st) = Some (ix1, w)"
    "drain_enrolment_retries M now ok ENROLMENT_RETRY_BATCH \<lparr>bs_db = d3, bs_index = ix1\<rparr> = Some (st1, n)"
    "holdings (mb_db M) d3 = holdings (mb_db M) d1"
    by (rule derive_after_write_spec[OF g, unfolded m])
  moreover have "r \<in> set (db_memories d)" using r(1) by (auto simp: find_key_def dest: select_first_Some)
  then have "mb_id M key \<in> ids d" using r(2) by (auto simp: ids_def intro!: image_eqI[of _ _ r])
  ultimately show ?thesis using that by (simp add: has_memory_ids holdings_def)
qed

text \<open>
  C11: an enrolment that fails during a write does not stay lost when the retry queue takes the id (\<open>queue_ok\<close> is
  \<open>True\<close>): after the write, the first drain whose batch covers the queue and whose retries all succeed enrols the memory
  and leaves the queue empty, without a change to the store. If marking the id fails too, it is only reported.
\<close>

theorem failed_enrolment_recovers:
  fixes M :: "('vk, 'f, 'g) memory_brain" and st :: "'f brain_state"
  assumes "\<not> rb_read_only (mb_read M)"
    and "0 < pc_window (rc_prints (mb_recog_config M))" and "0 < pc_kgram (rc_prints (mb_recog_config M))"
    and "\<forall>r \<in> set (db_memories (bs_db st)). row_key r = key \<longleftrightarrow> row_id r = mb_id M key"
    and "\<not> ok (mb_id M key)" and "remember_with M now ok True key content opts st = Some (st1, Inr res)"
    and "\<forall>i. ok' i" and "length (rd_pending (bs_index st1)) \<le> batch" and "0 < batch"
  shows "\<exists>st2 n. drain_enrolment_retries M now' ok' batch st1 = Some (st2, n) \<and>
    sq_is_enrolled (bs_index st2) (mb_id M key) \<and> rd_pending (bs_index st2) = [] \<and> bs_db st2 = bs_db st1"
proof -
  let ?i = "mb_id M key"
  obtain ix1 w n d3 where q: "enroll_or_queue M now ok True ?i content (bs_index st) = Some (ix1, w)"
    and run: "drain_enrolment_retries M now ok ENROLMENT_RETRY_BATCH \<lparr>bs_db = d3, bs_index = ix1\<rparr> = Some (st1, n)"
    and there: "has_memory d3 ?i"
    by (rule remember_steps[OF assms(6,4)])
  have db: "bs_db st1 = d3" using drain_db[OF run] by simp
  let ?is = "sq_pending_ids ENROLMENT_RETRY_BATCH ix1"
  have d: "drain_ids M now ok d3 ?is (ix1, 0) = Some (bs_index st1, n)"
    using run assms(1) by (auto simp: drain_enrolment_retries_def ENROLMENT_RETRY_BATCH_def split: option.splits)
  note spec = drain_ids_spec[OF assms(2,3), of now ok d3 ?is ix1 0, unfolded d]
  have "sq_is_enrolled (bs_index st1) ?i \<or> ?i \<in> fst ` set (rd_pending (bs_index st1))"
  proof (cases "sq_is_enrolled (bs_index st) ?i")
    case True
    then show ?thesis using q spec by (simp add: enroll_or_queue_def try_enroll_known)
  next
    case False
    then have "ix1 = sq_mark_pending (ie_stamp (mb_ingest M) now) ?i (bs_index st)"
      using q assms(5) by (simp add: enroll_or_queue_def try_enroll_def)
    then have "?i \<in> fst ` set (rd_pending ix1)" "\<not> sq_is_enrolled ix1 ?i"
      using False by (auto simp: sq_mark_pending_def keys_insert_or_ignore sq_is_enrolled_def)
    then show ?thesis using spec there assms(5) by (auto simp: retried_def)
  qed
  moreover obtain st2 m where "drain_enrolment_retries M now' ok' batch st1 = Some (st2, m)" "rd_pending (bs_index st2) = []" "bs_db st2 = bs_db st1"
    and e: "\<forall>x. sq_is_enrolled (bs_index st2) x \<longleftrightarrow> sq_is_enrolled (bs_index st1) x \<or> x \<in> fst ` set (rd_pending (bs_index st1)) \<and> has_memory (bs_db st1) x"
    using drain_covers[OF assms(1-3,7-9), of now'] by blast
  ultimately show ?thesis using there unfolding db by blast
qed

text \<open>
  When the content under a key changes, the memory keeps the enrolment of its old content: the write updates the
  store and does not touch the index, since an enrolled id is never enrolled again.
\<close>

theorem update_keeps_old_enrolment:
  fixes M :: "('vk, 'f, 'g) memory_brain" and st :: "'f brain_state"
  assumes "\<not> rb_read_only (mb_read M)"
    and "\<forall>r \<in> set (db_memories (bs_db st)). row_key r = key \<longleftrightarrow> row_id r = mb_id M key"
    and "find_key (bs_db st) key = Some q"
    and "effective_hash (mb_db M) q \<noteq> dv_hash (mb_db M) (clean_memory_context_prefixes (ie_trim (mb_ingest M)) content)"
    and "sq_is_enrolled (bs_index st) (mb_id M key)" and "rd_pending (bs_index st) = []" and "mo_session_id opts = None"
  shows "\<exists>st' res. remember_with M now ok queue_ok key content opts st = Some (st', Inr res) \<and>
    rm_write_outcome res = Content_Updated \<and> bs_index st' = bs_index st \<and>
    (\<exists>r. find_key (bs_db st') key = Some r \<and>
       effective_hash (mb_db M) r = dv_hash (mb_db M) (clean_memory_context_prefixes (ie_trim (mb_ingest M)) content))"
proof -
  let ?i = "mb_id M key" and ?h = "dv_hash (mb_db M) (clean_memory_context_prefixes (ie_trim (mb_ingest M)) content)"
  obtain d res r where i: "ingest_with (mb_ingest M) (mb_ingest_config M) now ?i key content ''core''
      (visibility_to_str (mo_visibility opts)) (remember_ingest_opts opts) (bs_db st) = (d, Inr res)"
    and r: "find_key d key = Some r" "effective_hash (mb_db M) r = ?h" and m: "me_id (ir_memory res) = ?i" and o: "ir_outcome res = Content_Updated"
    using ingest_steps[OF assms(2), of "mb_ingest M" "mb_ingest_config M" now content "''core''" "visibility_to_str (mo_visibility opts)" "remember_ingest_opts opts"]
      assms(3,4) by (auto simp: prepare_memory)
  have keep: "enroll_or_queue M now ok queue_ok ?i content (bs_index st) = Some (bs_index st, [])"
    using assms(5) by (simp add: enroll_or_queue_def try_enroll_known)
  have idle: "drain_enrolment_retries M now ok n \<lparr>bs_db = d3, bs_index = bs_index st\<rparr> = Some (\<lparr>bs_db = d3, bs_index = bs_index st\<rparr>, 0)" for d3 n
    using assms(6) by (simp add: drain_enrolment_retries_def sq_pending_ids_def order_by_def)
  obtain st1 rm where g: "derive_after_write M now ok queue_ok content res d (bs_index st) = Some (st1, rm)"
    unfolding derive_after_write_def Let_def case_prod_beta m keep by (simp add: idle)
  obtain ix1 w n d3 where s: "enroll_or_queue M now ok queue_ok ?i content (bs_index st) = Some (ix1, w)"
    "drain_enrolment_retries M now ok ENROLMENT_RETRY_BATCH \<lparr>bs_db = d3, bs_index = ix1\<rparr> = Some (st1, n)"
    "holdings (mb_db M) d3 = holdings (mb_db M) d" "rm_write_outcome rm = ir_outcome res"
    by (rule derive_after_write_spec[OF g, unfolded m])
  have st1: "st1 = \<lparr>bs_db = d3, bs_index = bs_index st\<rparr>" using s(1,2) keep idle by simp
  have "map_option (effective_hash (mb_db M)) (find_key d3 key) = Some ?h" using s(3) r by (simp add: holdings_def fun_eq_iff)
  then have "\<exists>r. find_key d3 key = Some r \<and> effective_hash (mb_db M) r = ?h" by auto
  moreover have "remember_with M now ok queue_ok key content opts st = Some (st1, Inr rm)"
    using i g assms(7) by (simp add: remember_with_def writable_guard_def assms(1) associate_session_def m)
  ultimately show ?thesis using s(4) o unfolding st1 by auto
qed

lemma repair_memories_spec:
  assumes "0 < pc_window (rc_prints (mb_recog_config M))" and "0 < pc_kgram (rc_prints (mb_recog_config M))" and "\<forall>i. ok i"
  shows "\<exists>st1 r1. repair_memories M now ok ms (st, r) = Some (st1, Inr r1) \<and> dr_scanned r1 = dr_scanned r \<and>
    ids (bs_db st1) = ids (bs_db st) \<and> (\<forall>x. sq_is_enrolled (bs_index st1) x \<longleftrightarrow> sq_is_enrolled (bs_index st) x \<or> x \<in> me_id ` set ms)"
proof (induction ms arbitrary: st r)
  case (Cons m ms)
  obtain d r1 where f: "repair_fields M m (bs_db st, r) = (d, r1)" by (cases "repair_fields M m (bs_db st, r)") auto
  have "ids (fst (repair_fields M m (d0, r))) = ids d0 \<and> dr_scanned (snd (repair_fields M m (d0, r))) = dr_scanned r" for d0
    by (simp add: repair_fields_def Let_def case_prod_beta derived_ids split: option.split)
  then have d: "ids d = ids (bs_db st)" "dr_scanned r1 = dr_scanned r" using f by (metis fst_conv snd_conv)+
  obtain ix where e: "try_enroll M now ok (me_id m) (me_content m) (bs_index st) = Some (ix, True)"
    using try_enroll_returns[OF assms(1,2)] try_enroll_enrolled(1) assms(3) by (metis surj_pair)
  show ?case
    using Cons.IH[of "\<lparr>bs_db = d, bs_index = ix\<rparr>" "r1\<lparr>dr_recognition_enrollments_refreshed := dr_recognition_enrollments_refreshed r1 + 1\<rparr>"]
      try_enroll_enrolled(2)[OF e] d by (auto simp: f e)
qed simp

lemma prune_orphans_enrolled:
  "sq_is_enrolled (fst (prune_orphans live is (ix, n))) x \<longleftrightarrow> sq_is_enrolled ix x \<and> (x \<in> live \<or> x \<notin> set is)"
proof (induction "is" arbitrary: ix n)
  case (Cons i "is")
  have "sq_is_enrolled (fst (sq_forget_memory i ix)) x \<longleftrightarrow> sq_is_enrolled ix x \<and> x \<noteq> i"
    using sqlite.forget_enrolled[of "[]" i ix x] by (simp add: sqlite_ops_def)
  then show ?case using Cons.IH by (auto simp: case_prod_beta Let_def)
qed simp

lemma backfill_scores:
  "map (\<lambda>r. (row_id r, row_signal_score r)) (db_memories (fst (backfill_content_hashes D d))) = map (\<lambda>r. (row_id r, row_signal_score r)) (db_memories d)"
proof -
  have "map (\<lambda>r. (row_id r, row_signal_score r)) (db_memories (fold (\<lambda>(i, content). update_memories (\<lambda>r. row_id r = i)
      (\<lambda>r. r\<lparr>row_content_hash := Some (dv_hash D content)\<rparr>)) rows d)) = map (\<lambda>r. (row_id r, row_signal_score r)) (db_memories d)" for rows
    by (induction rows arbitrary: d) (auto simp: update_memories_def update_where_def)
  then show ?thesis by (simp add: backfill_content_hashes_def Let_def)
qed

text \<open>
  C12: a repair whose limit exceeds the number of memories, with enrolments that succeed and signal scores that are not
  negative, leaves the set of enrolled ids exactly in step with the store: every memory is enrolled and no other id is.
  (An enrolled memory keeps the fingerprints it was enrolled with; \<open>update_keeps_old_enrolment\<close> above.)
\<close>

theorem repair_in_step:
  fixes M :: "('vk, 'f, 'g) memory_brain" and st :: "'f brain_state"
  assumes "\<not> rb_read_only (mb_read M)"
    and "0 < pc_window (rc_prints (mb_recog_config M))" and "0 < pc_kgram (rc_prints (mb_recog_config M))"
    and "\<forall>i. ok i" and "length (db_memories (bs_db st)) < limit"
    and "\<forall>r \<in> set (db_memories (bs_db st)). dv_le (mb_db M) (dv_zero (mb_db M)) (row_signal_score r)"
  shows "\<exists>st' rep. repair_derivations M now ok limit st = Some (st', Inr rep) \<and>
    (\<forall>x. sq_is_enrolled (bs_index st') x \<longleftrightarrow> has_memory (bs_db st') x) \<and> ids (bs_db st') = ids (bs_db st)"
proof -
  define d where "d = fst (backfill_content_hashes (mb_db M) (bs_db st))"
  define ms where "ms = list_memories_by_signal (mb_db M) (dv_zero (mb_db M)) limit d"
  note same = backfill_scores[of "mb_db M" "bs_db st", folded d_def]
  have len: "length (db_memories d) = length (db_memories (bs_db st))" using arg_cong[OF same, of length] by simp
  have idd: "ids d = ids (bs_db st)" using arg_cong[OF same, of "\<lambda>ps. fst ` set ps"] by (simp add: ids_def image_image)
  have "\<forall>r \<in> set (db_memories d). dv_le (mb_db M) (dv_zero (mb_db M)) (row_signal_score r)"
    using arg_cong[OF same, of "\<lambda>ps. snd ` set ps"] assms(6) by (force simp: image_image)
  then have all: "filter (\<lambda>r. dv_le (mb_db M) (dv_zero (mb_db M)) (row_signal_score r)) (db_memories d) = db_memories d"
    by (simp add: filter_id_conv)
  have ms: "me_id ` set ms = ids d" "length ms < limit"
    using len assms(5) by (simp_all add: ms_def list_memories_by_signal_def all ids_def image_image memory_from_row_def)
  define report where "report = \<lparr>dr_scanned = length ms, dr_content_hashes_repaired = snd (backfill_content_hashes (mb_db M) (bs_db st)),
    dr_densities_repaired = 0, dr_signatures_repaired = 0, dr_recognition_enrollments_refreshed = 0, dr_orphaned_enrollments_pruned = 0\<rparr>"
  obtain st1 r1 where run: "repair_memories M now ok ms (st\<lparr>bs_db := d\<rparr>, report) = Some (st1, Inr r1)" and sc: "dr_scanned r1 = length ms"
    and i1: "ids (bs_db st1) = ids d" and e: "\<forall>x. sq_is_enrolled (bs_index st1) x \<longleftrightarrow> sq_is_enrolled (bs_index st) x \<or> x \<in> ids d"
    using repair_memories_spec[OF assms(2-4), where ms = ms and st = "st\<lparr>bs_db := d\<rparr>" and r = report and now = now] ms(1)
    by (auto simp: report_def)
  obtain ix n where pr: "prune_orphans (ids d) (sq_enrolled_ids (bs_index st1)) (bs_index st1, 0) = (ix, n)"
    by (cases "prune_orphans (ids d) (sq_enrolled_ids (bs_index st1)) (bs_index st1, 0)") auto
  have "x \<in> set (sq_enrolled_ids (bs_index st1)) \<longleftrightarrow> sq_is_enrolled (bs_index st1) x" for x
    by (simp add: sq_enrolled_ids_def is_enrolled_iff)
  then have "sq_is_enrolled ix x \<longleftrightarrow> x \<in> ids d" for x
    using prune_orphans_enrolled[of "ids d" "sq_enrolled_ids (bs_index st1)" "bs_index st1" 0 x] e unfolding pr by auto
  moreover have "repair_derivations M now ok limit st = Some (st1\<lparr>bs_index := ix\<rparr>, Inr (r1\<lparr>dr_orphaned_enrollments_pruned := n\<rparr>))"
    using run ms sc pr by (simp add: repair_derivations_def writable_guard_def assms(1) Let_def case_prod_beta d_def[symmetric] ms_def[symmetric] report_def[symmetric])
  ultimately show ?thesis using i1 idd by (auto simp: has_memory_ids)
qed

subsection \<open>A concrete brain\<close>

definition toy_memory_brain :: "(byte list, rat, int) memory_brain" where
  "toy_memory_brain =
     \<lparr>mb_ingest = toy_ingest, mb_ingest_config = toy_ingest_config, mb_read = toy_reader, mb_recog = toy_recog, mb_order = toy_order,
      mb_recog_config = toy_recog_config, mb_idf = None, mb_crypto = toy_crypto, mb_identity = identity_of toy_crypto [1],
      mb_recurrence = True\<rparr>"

definition toy_opts :: "rat remember_opts" where
  "toy_opts =
     \<lparr>mo_source = None, mo_device_id = None, mo_confidence = None, mo_visibility = Private, mo_created_at = None, mo_episode_id = None,
      mo_session_id = None, mo_compaction_tier = None, mo_wing = None, mo_hall = None\<rparr>"

text \<open>One memory under the key \<open>k\<close>, enrolled or not; the id is that of the key or another.\<close>

definition toy_home :: "string \<Rightarrow> string list \<Rightarrow> rat brain_state" where
  "toy_home i enrolled =
     \<lparr>bs_db = empty_db\<lparr>db_memories := [toy_row i ''k'' ''tea'' ''private'']\<rparr>,
      bs_index = empty_recog_db\<lparr>rd_enrolled := map (\<lambda>x. (x, [])) enrolled\<rparr>\<rparr>"

abbreviation toy_key_id :: string where "toy_key_id \<equiv> mb_id toy_memory_brain ''k''"

lemma toy_memory_brain_ready:
  "\<not> rb_read_only (mb_read toy_memory_brain)" "0 < pc_window (rc_prints (mb_recog_config toy_memory_brain))" "0 < pc_kgram (rc_prints (mb_recog_config toy_memory_brain))"
  "mset (ho_acc (mb_order toy_memory_brain) xs) = mset xs"
  by (simp_all add: toy_memory_brain_def toy_reader_def toy_recog_config_def toy_prints_def default_prints_def toy_order_def)

lemma toy_home_row:
  "find_key (bs_db (toy_home i es)) ''k'' = Some (toy_row i ''k'' ''tea'' ''private'')"
  "\<forall>r \<in> set (db_memories (bs_db (toy_home i es))). row_key r = ''k'' \<longleftrightarrow> row_id r = i" "row_id (toy_row i ''k'' ''tea'' ''private'') = i"
  by (simp_all add: toy_home_def find_key_def select_first_def toy_row_def)

lemma toy_other_ids: "toy_key_id \<noteq> ''gone''" "toy_key_id \<noteq> ''object''"
proof -
  have "length (key_to_id toy_crypto ''k'') = 16" by code_simp
  then have "length toy_key_id = 16" by (simp add: toy_memory_brain_def)
  then show "toy_key_id \<noteq> ''gone''" "toy_key_id \<noteq> ''object''" by (intro notI, simp)+
qed

lemma toy_home_ok: "store_ok (bs_db (toy_home i es))"
  by (simp add: toy_home_def toy_row_def empty_db_def store_ok_def memories_ok_def keyed_def tier_label_def fingerprints_ok_def refers_def
      edges_ok_def fields_ok_def members_ok_def)

lemma recognize_names_live_witness:
  "\<exists>r. brain_recognize toy_memory_brain ''tea'' (toy_home toy_key_id [''gone'']) = Some r \<and> rr_verdict r \<noteq> Recognized ''gone''"
proof -
  obtain r0 where "recognize_unguarded toy_memory_brain ''tea'' (bs_index (toy_home toy_key_id [''gone''])) = Some r0"
    using recognize_returns[OF toy_memory_brain_ready(2,3)] by blast
  then obtain r where r: "brain_recognize toy_memory_brain ''tea'' (toy_home toy_key_id [''gone'']) = Some r" by (simp add: brain_recognize_def)
  have "0 < sc_max_traces (rc_score (mb_recog_config toy_memory_brain))"
    by (simp add: toy_memory_brain_def toy_recog_config_def default_score_def)
  moreover have "get_memory ''gone'' (bs_db (toy_home toy_key_id [''gone''])) = None"
    using toy_other_ids by (simp add: get_memory_None has_memory_def toy_home_def toy_row_def)
  ultimately show ?thesis using recognize_names_live[OF r] r by blast
qed

lemma forget_verified_witness:
  "\<exists>st' rep. brain_forget toy_memory_brain ''k'' (toy_home toy_key_id [toy_key_id]) = Some (st', Inr rep) \<and> fully_forgotten rep \<and> \<not> has_key (bs_db st') ''k''"
  using forget_verified[OF toy_memory_brain_ready(1) toy_home_ok toy_home_row(1,3) toy_memory_brain_ready(2-4)] by blast

lemma forget_logs_digest_witness:
  "\<exists>st' rep. brain_forget toy_memory_brain ''k'' (toy_home toy_key_id []) = Some (st', Inr rep) \<and> ''tea'' \<in> ev_query_hash ` set (db_events (bs_db st'))"
proof -
  have words: "fts_query_words (mb_read toy_memory_brain) (row_content (toy_row toy_key_id ''k'' ''tea'' ''private'')) \<noteq> []"
  proof -
    have "fts_query_words_opts toy_rank ''tea'' False = [''tea'']" by code_simp
    then show ?thesis by (simp add: fts_query_words_def toy_memory_brain_def toy_reader_def toy_deps_def expand_aliases_def toy_row_def)
  qed
  have hash: "rb_hash_query (mb_read toy_memory_brain) = dv_hash (mb_db toy_memory_brain)"
    by (simp add: toy_memory_brain_def toy_reader_def toy_ingest_def toy_rats_def)
  have filled: "row_content (toy_row toy_key_id ''k'' ''tea'' ''private'') \<noteq> []" by (simp add: toy_row_def)
  have "dv_hash (mb_db toy_memory_brain) (row_content (toy_row toy_key_id ''k'' ''tea'' ''private'')) = ''tea''"
    by (simp add: toy_memory_brain_def toy_ingest_def toy_rats_def toy_row_def)
  then show ?thesis
    using forget_logs_digest[OF toy_memory_brain_ready(1) toy_home_ok toy_home_row(1,3) toy_memory_brain_ready(2,3) filled words hash] by force
qed

lemma forget_leaves_imported_enrolment_witness:
  "\<exists>st' rep. brain_forget toy_memory_brain ''k'' (toy_home ''object'' [''object'']) = Some (st', Inr rep) \<and> fully_forgotten rep \<and>
     recognition_residue ''object'' (bs_index st')"
proof -
  have other: "''object'' \<noteq> toy_key_id" using toy_other_ids by auto
  then have "get_memory toy_key_id (bs_db (toy_home ''object'' [''object''])) = None"
    by (simp add: get_memory_None has_memory_def toy_home_def toy_row_def)
  moreover have "recognition_residue ''object'' (bs_index (toy_home ''object'' [''object'']))"
    by (simp add: recognition_residue_def toy_home_def is_enrolled_iff)
  ultimately show ?thesis
    using forget_leaves_imported_enrolment[OF toy_memory_brain_ready(1) toy_home_row(1), unfolded toy_home_row(3)] other by blast
qed

lemma update_keeps_old_enrolment_witness:
  "\<exists>st' res. remember_with toy_memory_brain 0 (\<lambda>i. True) True ''k'' ''cake'' toy_opts (toy_home toy_key_id [toy_key_id]) = Some (st', Inr res) \<and>
     rm_write_outcome res = Content_Updated \<and> bs_index st' = bs_index (toy_home toy_key_id [toy_key_id])"
proof -
  have differs: "effective_hash (mb_db toy_memory_brain) (toy_row toy_key_id ''k'' ''tea'' ''private'') \<noteq>
      dv_hash (mb_db toy_memory_brain) (clean_memory_context_prefixes (ie_trim (mb_ingest toy_memory_brain)) ''cake'')"
    by (simp add: effective_hash_def toy_row_def toy_memory_brain_def toy_ingest_def toy_rats_def clean_memory_context_prefixes_def Let_def starts_with_def)
  have "sq_is_enrolled (bs_index (toy_home toy_key_id [toy_key_id])) toy_key_id" "rd_pending (bs_index (toy_home toy_key_id [toy_key_id])) = []"
    "mo_session_id toy_opts = None"
    by (simp_all add: toy_home_def is_enrolled_iff empty_recog_db_def toy_opts_def)
  from update_keeps_old_enrolment[OF toy_memory_brain_ready(1) toy_home_row(2,1) differs this] show ?thesis by blast
qed

lemma remember_returns:
  assumes "\<not> rb_read_only (mb_read M)" and "0 < pc_window (rc_prints (mb_recog_config M))" and "0 < pc_kgram (rc_prints (mb_recog_config M))"
    and "\<forall>r \<in> set (db_memories (bs_db st)). row_key r = key \<longleftrightarrow> row_id r = mb_id M key" and "mo_session_id opts = None"
  shows "\<exists>st1 res. remember_with M now ok queue_ok key content opts st = Some (st1, Inr res)"
proof -
  obtain d res where i: "ingest_with (mb_ingest M) (mb_ingest_config M) now (mb_id M key) key content ''core''
      (visibility_to_str (mo_visibility opts)) (remember_ingest_opts opts) (bs_db st) = (d, Inr res)"
    using ingest_steps[OF assms(4), of "mb_ingest M" "mb_ingest_config M" now content "''core''" "visibility_to_str (mo_visibility opts)" "remember_ingest_opts opts"] by auto
  obtain e where "try_enroll M now ok (me_id (ir_memory res)) content (bs_index st) = Some e" using try_enroll_returns[OF assms(2,3)] by blast
  then have "\<exists>q. enroll_or_queue M now ok queue_ok (me_id (ir_memory res)) content (bs_index st) = Some q"
    by (cases e; cases "snd e") (simp_all add: enroll_or_queue_def)
  then obtain q where q: "enroll_or_queue M now ok queue_ok (me_id (ir_memory res)) content (bs_index st) = Some q" by blast
  have "\<exists>r. drain_enrolment_retries M now ok n s = Some r" for n s
    using drain_ids_spec[OF assms(2,3)] by (fastforce simp: drain_enrolment_retries_def)
  then have "\<exists>r. derive_after_write M now ok queue_ok content res d (bs_index st) = Some r"
    using q by (auto simp: derive_after_write_def Let_def case_prod_beta)
  then show ?thesis using i assms(5) by (force simp: remember_with_def writable_guard_def assms(1) associate_session_def)
qed

lemma failed_enrolment_recovers_witness:
  "\<exists>st1 res st2 n. remember_with toy_memory_brain 0 (\<lambda>i. False) True ''k'' ''tea'' toy_opts (toy_home toy_key_id []) = Some (st1, Inr res) \<and>
     drain_enrolment_retries toy_memory_brain 1 (\<lambda>i. True) (length (rd_pending (bs_index st1)) + 1) st1 = Some (st2, n) \<and>
     sq_is_enrolled (bs_index st2) toy_key_id"
proof -
  have "mo_session_id toy_opts = None" by (simp add: toy_opts_def)
  from remember_returns[OF toy_memory_brain_ready(1-3) toy_home_row(2) this] obtain st1 res
    where run: "remember_with toy_memory_brain 0 (\<lambda>i. False) True ''k'' ''tea'' toy_opts (toy_home toy_key_id []) = Some (st1, Inr res)" by blast
  from failed_enrolment_recovers[OF toy_memory_brain_ready(1-3) toy_home_row(2) _ run, of "\<lambda>i. True" "length (rd_pending (bs_index st1)) + 1" 1]
  show ?thesis using run by auto
qed

lemma repair_in_step_witness:
  "\<exists>st' rep. repair_derivations toy_memory_brain 0 (\<lambda>i. True) 5 (toy_home toy_key_id [''gone'']) = Some (st', Inr rep) \<and>
     sq_is_enrolled (bs_index st') toy_key_id \<and> \<not> sq_is_enrolled (bs_index st') ''gone''"
proof -
  have size: "length (db_memories (bs_db (toy_home toy_key_id [''gone'']))) < 5"
    and score: "\<forall>r \<in> set (db_memories (bs_db (toy_home toy_key_id [''gone'']))). dv_le (mb_db toy_memory_brain) (dv_zero (mb_db toy_memory_brain)) (row_signal_score r)"
    by (simp_all add: toy_home_def toy_row_def toy_memory_brain_def toy_ingest_def toy_rats_def)
  have "ids (bs_db (toy_home toy_key_id [''gone''])) = {toy_key_id}" "''gone'' \<noteq> toy_key_id"
    using toy_other_ids by (auto simp: toy_home_def toy_row_def ids_def)
  then show ?thesis
    using repair_in_step[OF toy_memory_brain_ready(1-3) _ size score, of "\<lambda>i. True" 0] by (auto simp: has_memory_ids)
qed

end
