(* ===== verification/Spec2Isabelle.thy ===== *)
theory Spec2Isabelle
  imports Visibility Hex_Id Identity Replicated_Set Supersession_Pass Federation_Origin Turn_Contract Store_Cache Temporal Cascade Recog_Engine Recog_Stream Brain_Memory
begin

text \<open>
  A verification development for Spectral, a local-first memory engine for agents written in Rust
  (\<open>src/crates\<close>).

  \<^bold>\<open>The program.\<close> A \<^emph>\<open>brain\<close> owns a directory with an Ed25519 identity, a memory store and a knowledge graph in
  SQLite, an ontology and a recognition index. Text is \<^emph>\<open>ingested\<close> (classified into a wing and a hall, scored, linked
  to an episode and to peers by constellation fingerprints), \<^emph>\<open>recalled\<close> (full-text and topic-aware retrieval, re-ranked
  by several signals, widened by associative spreading), \<^emph>\<open>recognised\<close> (has this stimulus been met before), and
  \<^emph>\<open>forgotten\<close>. Triples asserted on the graph supersede each other on single-valued predicates. An agent turn records
  what was delivered and later credits what was used. Wings are shared between brains as replicated sets with
  retractions; children of a federation are read at query time under a visibility boundary.

  \<^bold>\<open>Identity and data.\<close>
  \<^item> \<open>Prelude\<close>: bytes, tables as lists (\<open>INSERT OR IGNORE\<close>, upsert, \<open>UPDATE .. WHERE\<close>, \<open>DELETE .. WHERE\<close>), strings.
  \<^item> \<open>Visibility\<close>: the four levels of \<open>spectral-core/src/visibility.rs\<close>, their labels, and the SQL rank of
    \<open>spectral-ingest/src/sqlite_store.rs\<close> as an equivalent of \<open>allows\<close>.
  \<^item> \<open>Hex_Id\<close>, \<open>Identity\<close>: entity, device and brain identifiers (print and parse), identity files and the canonical
    payloads that are signed (\<open>identity.rs\<close>): the encoding is injective, so a signature binds every field.

  \<^bold>\<open>Knowledge graph\<close> (\<open>spectral-graph/src/graph_store.rs\<close>, \<open>brain.rs\<close>).
  \<^item> \<open>Graph_Store\<close>: the four tables and every statement. \<open>Graph_Slots\<close>: assertions and supersession, one live object per
    single-valued slot. \<open>Graph_Ledger\<close>: all writes as a step relation, what holds after any calls and what holds when no
    superseding insertion missed one of its entities (the code does not check), undo.
    \<open>Graph_Bfs\<close>: the bounded traversal against the ball of the undirected graph. \<open>Graph_Recall\<close>: recall from seeds.
  \<^item> \<open>Supersession_Pass\<close>: adjudication of undeclared multi-valued slots (\<open>supersession.rs\<close>).

  \<^bold>\<open>Memory store\<close> (\<open>spectral-ingest/src/sqlite_store.rs\<close>, \<open>lib.rs\<close>). The state is the record \<open>db\<close>, one field per
  table of the store, and the read cache. The tables of the shared wings (\<open>shared_wing_members\<close>, \<open>sync_tombstones\<close>),
  which live in the same file, are in the record \<open>sync_store\<close> of \<open>Federation_Sync\<close> with the columns of the memories that
  synchronisation reads and writes; no operation of the store touches them, so a forgotten memory keeps its manifest row.
  \<^item> \<open>Memory_Tables\<close>, \<open>Memory_Write\<close>, \<open>Memory_Ops\<close>, \<open>Memory_Forget\<close>, \<open>Memory_Links\<close>, \<open>Memory_Sidecar\<close>, \<open>Consolidation\<close>,
    \<open>Turn_Ledger\<close>: rows, writes with content deduplication, reinforcement, validity, retention, forgetting, the
    retrieval log with the co-retrieval index, entity fields, spectrogram and episode tables, consolidation, turns.
  \<^item> \<open>Store_Types\<close>, \<open>Store_Ops\<close>: the keys and foreign keys of the schema as a well-formedness predicate that every
    operation keeps. \<open>Store_Cache\<close>: which operations keep the wing cache equal to the table it caches.
  \<^item> \<open>Ingest\<close>: the pipeline before the write (\<open>classifier.rs\<close>, \<open>signal.rs\<close>, \<open>ingest.rs\<close>), and what a write then does.

  \<^bold>\<open>Retrieval.\<close>
  \<^item> \<open>Ranking\<close>, \<open>Window\<close>, \<open>Rerank\<close>: the signals and the pipeline of \<open>spectral-graph/src/ranking.rs\<close>; the proximity
    window is the smallest span with every query term, the pipeline loses nothing but repeated chains and ends
    diversified by episode.
  \<^item> \<open>Fts\<close>: the two-channel full-text search under scope and visibility. \<open>Tact\<close>: the tiers of \<open>spectral-tact/src\<close>.
    \<open>Topk\<close>: query terms and top-K recall. \<open>Spreading\<close>: associative spreading (\<open>spreading.rs\<close>).
  \<^item> \<open>Cascade\<close>: the integrated recall (\<open>cascade_layers.rs\<close>, \<open>brain.rs\<close>): it stays within the boundary, fills up to \<open>k\<close>, writes nothing but the log, and serves as the scoped recall of a federated child.
  \<^item> \<open>Temporal\<close>: relative dates (\<open>spectral/src/temporal.rs\<close>), loops as \<open>partial_function (option)\<close> shown to return.

  \<^bold>\<open>Turns.\<close> \<open>Turn_Policy\<close> (\<open>spectral/src/policy.rs\<close>), \<open>Turn_Machine\<close> (the life of one turn, refined by the ledger),
  \<open>Turn_Deferred\<close> (spawned deliveries), \<open>Turn_Contract\<close> (\<open>turn.rs\<close>: only used members are credited).

  \<^bold>\<open>Recognition\<close> (\<open>spectral-recognition/src\<close>). \<open>Recog_Extract\<close> (\<open>extract.rs\<close>: two texts with a common run of words share
  a fingerprint), \<open>Recog_Minhash\<close> (\<open>minhash.rs\<close>), \<open>Recog_Store\<close> (\<open>store.rs\<close>: the trait as a record of operations, SQLite
  and in-memory, which agree on what they hold), \<open>Recog_Engine\<close> (\<open>score.rs\<close>, \<open>lib.rs\<close>: with the default margin the answer
  of an index does not depend on hash order, what recognition requires, forgetting), \<open>Recog_Stream\<close> (\<open>stream.rs\<close>: the tracker, its lock events, the segmenter).

  \<^bold>\<open>The brain over its databases.\<close> \<open>Brain_Memory\<close> (\<open>spectral-graph/src/brain.rs\<close>) composes the memory store with the
  recognition index, which no foreign key keeps in step: \<open>remember_with\<close> and its retry queue (a failed enrolment is
  made up for), guarded recognition (only live memories are named), \<open>forget\<close> with its probes, and the repair that puts
  the index in step with the store again.

  \<^bold>\<open>Federation.\<close> \<open>Replicated_Set\<close> (\<open>replicated_set.rs\<close>), \<open>Federation_Sync\<close>, \<open>Federation_Merge\<close>, \<open>Federation_Origin\<close>
  (\<open>federation_sync.rs\<close>: replicas converge, retractions win, only verified objects enter), \<open>Fan_Out\<close>
  (\<open>spectral-graph/src/federation.rs\<close>: the fan-out delivers nothing its boundary excludes).

  \<^bold>\<open>Interfaces.\<close> \<open>orset\<close> with \<open>orset_peer\<close> and \<open>orset_full_peer\<close> (theory \<open>Orset\<close>) is the contract of a grow-only set with
  tombstones; shared wings and the opaque set are its instances. \<open>row_order\<close> is what \<open>ORDER BY\<close> needs of a comparison.
  \<open>recognition_store\<close> is the contract of an index, for both stores. \<open>boundary_recall\<close> is a recall that respects a
  visibility boundary, for spreading and for the child of a federation.

  \<^bold>\<open>Conventions.\<close> A fallible operation returns the state it leaves and a sum, a failed transaction leaves the state as it
  was. Machine integers are words where they wrap (hashes, ranks of tokens); counts that SQLite keeps in 64 bits are
  \<open>nat\<close>. A table is the list of its rows in insertion order. A \<open>HashMap\<close> that is iterated takes the order of iteration
  as an argument; theorems assume of it only that it is a permutation. Loops with an argument that counts down carry
  it as fuel, with the length of the input or the limit the code itself tests as its start. \<open>order_by\<close> is \<open>ORDER BY\<close> and
  the stable \<open>sort_by\<close>; it returns for every comparison, while \<open>sort_by\<close> may panic on one that is no total preorder (a
  NaN among the scores, which the code excludes by guards). That a ranking or a cascade returns (\<open>rerank_returns\<close>,
  \<open>cascade_answers\<close>) is shown up to that, and is not among the properties.

  \<^bold>\<open>Parameters.\<close> blake3, SHA-256, Ed25519, entropy, regular expressions, Unicode case folding and splitting, chrono,
  SQLite's FTS5 matching and bm25, JSON and the operations on \<open>f64\<close> are fields of environment records
  (\<open>graph_env\<close>, \<open>db_env\<close>, \<open>sync_env\<close>, \<open>rank_env\<close>, \<open>fts_env\<close>, \<open>recog_env\<close>, \<open>ingest_env\<close>, ..). What a theorem needs of them is
  a hypothesis (\<open>linear_floats\<close>: comparisons without NaN form a linear order), and a witness instantiates it with
  rationals and plain functions.

  \<^bold>\<open>What the theorems also show.\<close> Some properties state behaviour that the documentation does not promise: a retraction
  that destroys a re-shared copy, a federated read that logs events in the brain it reads, consolidated sources served by
  the wing tier, shingles stored in hash order, an episode count that restarts, fingerprints of plain writes that all
  fall into one time bucket, and a narrower visibility that an update ignores.

  \<^bold>\<open>Not modelled.\<close> Opening and migrating databases, pragmas, maintenance statements and statistics; locks and thread
  scheduling except the deferred deliveries; mention matching and ontology parsing; prompts, rendering and HTTP clients
  of language models; the archivist, the legacy spectrogram analysis, benchmarks, examples and command line programs.
  Numeric rounding of \<open>f64\<close> is not modelled, nor are failures of the disk.
\<close>

end
